(* ===== verification/Prelude.thy ===== *)
theory Prelude imports Main "HOL-Library.Word" begin

text \<open>
  Shared vocabulary of the InfOS development: the machine integer types, the error values that
  stand for the ways a C++ routine fails to return normally, the sequencing of routines that may
  fail, and the collections that the component theories extend.
\<close>

section \<open>Machine integers\<close>

type_synonym u8 = "8 word"
type_synonym u16 = "16 word"
type_synonym u32 = "32 word"
type_synonym u64 = "64 word"
type_synonym i32 = "32 word"

text \<open>The bytes of a literal of the source.\<close>

definition bytes_of :: "string \<Rightarrow> u8 list" where
  "bytes_of s = map of_char s"

section \<open>Routines that may fail\<close>

text \<open>
  \<open>Assert_Fail\<close> is a failed \<open>assert\<close> (infos/include/infos/assert.h halts the system),
  \<open>Aborted\<close> a call of \<open>arch_abort\<close>, \<open>Null_Deref\<close> an access through a null pointer,
  \<open>Out_Of_Bounds\<close> an access outside the array it is meant for, \<open>Uninit_Read\<close> a read of a
  variable that was never written, \<open>Use_After_Free\<close> an access to an object that was deleted,
  \<open>Diverges\<close> a loop that does not end, and \<open>Bad_Cast\<close> the cast of an object to a class it is not of.
\<close>

datatype kerror =
  Assert_Fail | Aborted | Null_Deref | Out_Of_Bounds | Uninit_Read | Use_After_Free | Diverges | Bad_Cast

type_synonym 'a res = "kerror + 'a"

definition res_bind :: "'a res \<Rightarrow> ('a \<Rightarrow> 'b res) \<Rightarrow> 'b res" where
  "res_bind r f = (case r of Inl e \<Rightarrow> Inl e | Inr x \<Rightarrow> f x)"

definition assert_that :: "bool \<Rightarrow> unit res" where
  "assert_that b = (if b then Inr () else Inl Assert_Fail)"

text \<open>The value of a loop that may not return: no value means that it runs forever.\<close>

definition loop_res :: "'a option \<Rightarrow> 'a res" where
  "loop_res x = (case x of None \<Rightarrow> Inl Diverges | Some y \<Rightarrow> Inr y)"

lemma res_bind_simps [simp]:
  "res_bind (Inr x) f = f x"
  "res_bind (Inl e) f = Inl e"
  by (simp_all add: res_bind_def)

lemma assert_that_simps [simp]:
  "assert_that True = Inr ()"
  "assert_that False = Inl Assert_Fail"
  by (simp_all add: assert_that_def)

lemma loop_res_simps [simp]:
  "loop_res (Some y) = Inr y"
  "loop_res None = Inl Diverges"
  by (simp_all add: loop_res_def)

lemma res_bind_Inr_iff:
  "res_bind r f = Inr y \<longleftrightarrow> (\<exists>x. r = Inr x \<and> f x = Inr y)"
  by (cases r) auto

lemma assert_that_Inr_iff [simp]: "assert_that b = Inr u \<longleftrightarrow> b"
  by (cases b) auto

lemma loop_res_Inr_iff [simp]: "loop_res x = Inr y \<longleftrightarrow> x = Some y"
  by (cases x) auto

lemma res_bind_cong [fundef_cong]:
  "r = r' \<Longrightarrow> (\<And>x. r' = Inr x \<Longrightarrow> f x = f' x) \<Longrightarrow> res_bind r f = res_bind r' f'"
  by (cases r') auto

lemma unat_of_nat_u64: "m < 2 ^ 64 \<Longrightarrow> unat (of_nat m :: u64) = m"
  by (simp add: unsigned_of_nat take_bit_nat_eq_self)

lemma unat_of_nat_u32: "m < 2 ^ 32 \<Longrightarrow> unat (of_nat m :: u32) = m"
  by (simp add: unsigned_of_nat take_bit_nat_eq_self)

lemma unat_ucast_u64 [simp]: "unat (ucast (w :: u32) :: u64) = unat w"
  by (simp add: unsigned_ucast_eq take_bit_nat_eq_self
      less_le_trans [OF unsigned_less [of w, where ?'a = nat]])

lemma unat_ucast_u32: "unat (w :: u64) < 2 ^ 32 \<Longrightarrow> unat (ucast w :: u32) = unat w"
  by (simp add: unsigned_ucast_eq take_bit_nat_eq_self)

lemma ucast_u32_id: "unat (w :: u64) < 2 ^ 32 \<Longrightarrow> ucast (ucast w :: u32) = w"
  by (simp only: word_unat_eq_iff unat_ucast_u64 unat_ucast_u32)

lemma sint_i32_pos: "unat (w :: i32) < 2 ^ 31 \<Longrightarrow> sint w = int (unat w)"
proof -
  assume a: "unat w < 2 ^ 31"
  have "int (unat w) < int (2 ^ 31)" using a by (simp only: of_nat_less_iff)
  then have "uint w < 2 ^ 31" by simp
  then have "signed_take_bit 31 (uint w) = uint w" by (intro signed_take_bit_int_eq_self) (use uint_ge_0 [of w] in linarith, simp)
  then show ?thesis by (simp add: sint_uint)
qed

lemma scast_u64_pos: "unat (w :: i32) < 2 ^ 31 \<Longrightarrow> unat (scast w :: u64) = unat w"
proof -
  assume a: "unat w < 2 ^ 31"
  have "(scast w :: u64) = word_of_int (sint w)" by (simp only: of_int_sint)
  also have "\<dots> = of_nat (unat w)" by (simp add: sint_i32_pos [OF a])
  finally show ?thesis using a by (simp add: unat_of_nat_u64 del: of_nat_unat)
qed

section \<open>Collections and generic lemmas\<close>

named_theorems ptr_simps \<open>rewriting of pointer reads after pointer writes\<close>
named_theorems blk_simps \<open>arithmetic of aligned blocks\<close>

lemma sorted_wrt_less_distinct: "sorted_wrt (<) (xs :: nat list) \<Longrightarrow> distinct xs"
  by (simp add: strict_sorted_iff)

lemma sorted_wrt_less_length:
  assumes "sorted_wrt (<) (xs :: nat list)" and "\<forall>x \<in> set xs. x < n"
  shows "length xs \<le> n"
proof -
  have "card (set xs) = length xs"
    using assms(1) by (simp add: distinct_card sorted_wrt_less_distinct)
  moreover have "card (set xs) \<le> card {..<n}"
    using assms(2) by (intro card_mono) auto
  ultimately show ?thesis by simp
qed

section \<open>Positional numerals\<close>

text \<open>The digits of a number in base \<open>b\<close>, the most significant one first, and their value.\<close>

function digits_of :: "nat \<Rightarrow> nat \<Rightarrow> nat list" where
  "digits_of b n = (if b \<le> 1 \<or> n < b then [n] else digits_of b (n div b) @ [n mod b])"
  by pat_completeness auto

termination digits_of
  by (relation "measure snd") auto

declare digits_of.simps [simp del]

definition digits_value :: "nat \<Rightarrow> nat list \<Rightarrow> nat" where
  "digits_value b ds = foldl (\<lambda>a d. a * b + d) 0 ds"

lemma digits_value_snoc [simp]: "digits_value b (ds @ [d]) = digits_value b ds * b + d"
  by (simp add: digits_value_def)

lemma digits_value_single [simp]: "digits_value b [d] = d"
  by (simp add: digits_value_def)

lemma digits_value_digits_of: "digits_value b (digits_of b n) = n"
  by (induction b n rule: digits_of.induct) (subst digits_of.simps, simp)

lemma digits_of_less: "1 < b \<Longrightarrow> \<forall>d \<in> set (digits_of b n). d < b"
proof (induction b n rule: digits_of.induct)
  case (1 b n)
  then show ?case by (subst digits_of.simps) auto
qed

lemma digits_of_not_Nil: "digits_of b n \<noteq> []"
  by (subst digits_of.simps) simp

lemma digits_of_hd: "0 < n \<Longrightarrow> hd (digits_of b n) \<noteq> 0"
proof (induction b n rule: digits_of.induct)
  case (1 b n)
  show ?case
  proof (cases "b \<le> 1 \<or> n < b")
    case True
    then show ?thesis using 1(2) by (subst digits_of.simps) simp
  next
    case False
    then have "0 < n div b" by (simp add: div_greater_zero_iff)
    then show ?thesis
      using False 1 digits_of_not_Nil [of b "n div b"] by (subst digits_of.simps) simp
  qed
qed

lemma digits_of_length: "1 < b \<Longrightarrow> n < b ^ k \<Longrightarrow> 0 < k \<Longrightarrow> length (digits_of b n) \<le> k"
proof (induction b n arbitrary: k rule: digits_of.induct)
  case (1 b n)
  show ?case
  proof (cases "n < b")
    case True
    then show ?thesis using 1(4) by (subst digits_of.simps) simp
  next
    case False
    then obtain k' where k: "k = Suc k'" "0 < k'"
      using 1(3,4) False by (cases k; cases "k - 1") auto
    have "n div b < b ^ k'" using 1(2,3) k by (simp add: less_mult_imp_div_less mult.commute)
    then show ?thesis
      using False 1(1) [of k'] 1(2) k by (subst digits_of.simps) simp
  qed
qed

end
