(* ===== verification/Kernel_List.thy ===== *)
theory Kernel_List imports Prelude begin

text \<open>
  The intrusive singly linked list of \<open>infos/include/infos/util/list.h\<close>. A list object is a chain
  of nodes, modelled by the HOL list of the elements the nodes hold in order, and the member
  \<open>_count\<close>, an unsigned 32-bit integer kept beside the chain. The loops that walk a slot pointer
  along the chain are recursive functions on the chain. The second half states the queue contract
  that the clients of the list rely on (run queues, wait queues, the breadth-first queue of the map
  iterator) as a locale and discharges it for this class.
\<close>

section \<open>The list object and its operations\<close>

record 'a klist =
  elems :: "'a list"
  cnt :: u32

definition klist_new :: "'a klist" where
  "klist_new = \<lparr>elems = [], cnt = 0\<rparr>"

fun append_slot :: "'a list \<Rightarrow> 'a \<Rightarrow> 'a list" where
  "append_slot [] x = [x]"
| "append_slot (y # ys) x = y # append_slot ys x"

definition klist_append :: "'a klist \<Rightarrow> 'a \<Rightarrow> 'a klist" where
  "klist_append l x = l\<lparr>elems := append_slot (elems l) x, cnt := cnt l + 1\<rparr>"

text \<open>
  \<open>remove\<close> walks to the first slot whose node holds the element; when the walk ends at the null
  slot nothing is changed, and otherwise that one node is unlinked and the count decremented.
\<close>

fun remove_slot :: "'a list \<Rightarrow> 'a \<Rightarrow> 'a list option" where
  "remove_slot [] x = None"
| "remove_slot (y # ys) x =
     (if y \<noteq> x then (case remove_slot ys x of None \<Rightarrow> None | Some zs \<Rightarrow> Some (y # zs)) else Some ys)"

definition klist_remove :: "'a klist \<Rightarrow> 'a \<Rightarrow> 'a klist" where
  "klist_remove l x =
     (case remove_slot (elems l) x of
        None \<Rightarrow> l
      | Some ys \<Rightarrow> l\<lparr>elems := ys, cnt := cnt l - 1\<rparr>)"

definition klist_dequeue :: "'a klist \<Rightarrow> ('a \<times> 'a klist) res" where
  "klist_dequeue l =
     (case elems l of
        [] \<Rightarrow> Inl Assert_Fail
      | x # xs \<Rightarrow> Inr (x, l\<lparr>elems := xs, cnt := cnt l - 1\<rparr>))"

definition klist_enqueue :: "'a klist \<Rightarrow> 'a \<Rightarrow> 'a klist" where
  "klist_enqueue l x = klist_append l x"

definition klist_push :: "'a klist \<Rightarrow> 'a \<Rightarrow> 'a klist" where
  "klist_push l x = l\<lparr>elems := x # elems l, cnt := cnt l + 1\<rparr>"

definition klist_pop :: "'a klist \<Rightarrow> ('a \<times> 'a klist) res" where
  "klist_pop l = klist_dequeue l"

definition klist_first :: "'a klist \<Rightarrow> 'a res" where
  "klist_first l = (case elems l of [] \<Rightarrow> Inl Assert_Fail | x # _ \<Rightarrow> Inr x)"

fun last_node :: "'a \<Rightarrow> 'a list \<Rightarrow> 'a" where
  "last_node x [] = x"
| "last_node x (y # ys) = last_node y ys"

definition klist_last :: "'a klist \<Rightarrow> 'a res" where
  "klist_last l = (case elems l of [] \<Rightarrow> Inl Assert_Fail | x # xs \<Rightarrow> Inr (last_node x xs))"

text \<open>The index is signed and the loop stops only where the counter equals it or the chain ends.\<close>

fun at_node :: "'a list \<Rightarrow> int \<Rightarrow> int \<Rightarrow> 'a option" where
  "at_node [] ctr index = None"
| "at_node (x # xs) ctr index = (if ctr \<noteq> index then at_node xs (ctr + 1) index else Some x)"

definition klist_at :: "'a klist \<Rightarrow> int \<Rightarrow> 'a res" where
  "klist_at l index = (case at_node (elems l) 0 index of None \<Rightarrow> Inl Assert_Fail | Some x \<Rightarrow> Inr x)"

definition klist_count :: "'a klist \<Rightarrow> u32" where
  "klist_count l = cnt l"

definition klist_is_empty :: "'a klist \<Rightarrow> bool" where
  "klist_is_empty l \<longleftrightarrow> cnt l = 0"

definition klist_clear :: "'a klist \<Rightarrow> 'a klist" where
  "klist_clear l = l\<lparr>elems := [], cnt := 0\<rparr>"

text \<open>Iteration from \<open>begin()\<close> to \<open>end()\<close> visits the elements in chain order.\<close>

definition klist_iter :: "'a klist \<Rightarrow> 'a list" where
  "klist_iter l = elems l"

definition klist_copy :: "'a klist \<Rightarrow> 'a klist" where
  "klist_copy r = foldl klist_append klist_new (klist_iter r)"

text \<open>The move constructor takes the chain and leaves the source empty: (new object, source).\<close>

definition klist_move :: "'a klist \<Rightarrow> 'a klist \<times> 'a klist" where
  "klist_move r = (\<lparr>elems = elems r, cnt = cnt r\<rparr>, r\<lparr>elems := [], cnt := 0\<rparr>)"

section \<open>Well-formedness and behaviour\<close>

text \<open>The count agrees with the chain modulo the width of the counter.\<close>

definition klist_wf :: "'a klist \<Rightarrow> bool" where
  "klist_wf l \<longleftrightarrow> cnt l = of_nat (length (elems l))"

text \<open>The count has not wrapped, so that \<open>empty()\<close> and \<open>count()\<close> read the chain.\<close>

definition klist_ok :: "'a klist \<Rightarrow> bool" where
  "klist_ok l \<longleftrightarrow> klist_wf l \<and> length (elems l) < 2 ^ 32"

lemma append_slot_eq [simp]: "append_slot xs x = xs @ [x]"
  by (induction xs) auto

lemma remove_slot_eq: "remove_slot xs x = (if x \<in> set xs then Some (remove1 x xs) else None)"
  by (induction xs) auto

lemma last_node_eq: "last_node x xs = last (x # xs)"
  by (induction xs arbitrary: x) auto

lemma at_node_eq:
  "at_node xs ctr index =
     (if ctr \<le> index \<and> nat (index - ctr) < length xs then Some (xs ! nat (index - ctr)) else None)"
proof (induction xs ctr index rule: at_node.induct)
  case (1 ctr index)
  then show ?case by simp
next
  case (2 x xs ctr index)
  consider "ctr = index" | "index < ctr" | "ctr < index" by linarith
  then show ?case
  proof cases
    case 3
    then have "nat (index - ctr) = Suc (nat (index - (ctr + 1)))" by linarith
    with 3 2 show ?thesis by auto
  qed (use 2 in auto)
qed

lemma elems_simps [simp]:
  "elems (klist_new) = []"
  "elems (klist_append l x) = elems l @ [x]"
  "elems (klist_enqueue l x) = elems l @ [x]"
  "elems (klist_push l x) = x # elems l"
  "elems (klist_clear l) = []"
  by (simp_all add: klist_new_def klist_append_def klist_enqueue_def klist_push_def klist_clear_def)

lemma elems_remove [simp]: "elems (klist_remove l x) = remove1 x (elems l)"
  by (simp add: klist_remove_def remove_slot_eq remove1_idem)

lemma klist_iter_eq [simp]: "klist_iter l = elems l"
  by (simp add: klist_iter_def)

lemma klist_dequeue_Cons: "elems l = x # xs \<Longrightarrow>
    klist_dequeue l = Inr (x, l\<lparr>elems := xs, cnt := cnt l - 1\<rparr>)"
  by (simp add: klist_dequeue_def)

lemma klist_dequeue_Inr_iff:
  "klist_dequeue l = Inr (x, l') \<longleftrightarrow>
     (\<exists>xs. elems l = x # xs \<and> l' = l\<lparr>elems := xs, cnt := cnt l - 1\<rparr>)"
  by (auto simp: klist_dequeue_def split: list.splits)

lemma klist_first_eq: "elems l \<noteq> [] \<Longrightarrow> klist_first l = Inr (hd (elems l))"
  by (auto simp: klist_first_def split: list.splits)

lemma klist_last_eq: "elems l \<noteq> [] \<Longrightarrow> klist_last l = Inr (last (elems l))"
  by (auto simp: klist_last_def last_node_eq split: list.splits)

lemma klist_at_eq:
  "klist_at l i = (if 0 \<le> i \<and> nat i < length (elems l) then Inr (elems l ! nat i) else Inl Assert_Fail)"
  by (simp add: klist_at_def at_node_eq)

lemma klist_wf_new [simp]: "klist_wf klist_new"
  by (simp add: klist_wf_def klist_new_def)

lemma klist_wf_append [simp]: "klist_wf l \<Longrightarrow> klist_wf (klist_append l x)"
  by (simp add: klist_wf_def klist_append_def)

lemma klist_wf_enqueue [simp]: "klist_wf l \<Longrightarrow> klist_wf (klist_enqueue l x)"
  by (simp add: klist_enqueue_def)

lemma klist_wf_push [simp]: "klist_wf l \<Longrightarrow> klist_wf (klist_push l x)"
  by (simp add: klist_wf_def klist_push_def)

lemma klist_wf_clear [simp]: "klist_wf (klist_clear l)"
  by (simp add: klist_wf_def klist_clear_def)

lemma klist_wf_remove [simp]:
  assumes "klist_wf l"
  shows "klist_wf (klist_remove l x)"
proof (cases "x \<in> set (elems l)")
  case True
  then obtain n where "length (elems l) = Suc n" by (cases "elems l") auto
  with True assms show ?thesis
    by (simp add: klist_wf_def klist_remove_def remove_slot_eq length_remove1)
next
  case False
  with assms show ?thesis by (simp add: klist_wf_def klist_remove_def remove_slot_eq)
qed

lemma klist_wf_dequeue: "klist_wf l \<Longrightarrow> klist_dequeue l = Inr (x, l') \<Longrightarrow> klist_wf l'"
  by (auto simp: klist_wf_def klist_dequeue_Inr_iff)

lemma klist_wf_foldl_append: "klist_wf l \<Longrightarrow> klist_wf (foldl klist_append l xs)"
  by (induction xs arbitrary: l) auto

lemma elems_foldl_append: "elems (foldl klist_append l xs) = elems l @ xs"
  by (induction xs arbitrary: l) auto

lemma klist_wf_copy: "klist_wf (klist_copy l)"
  by (simp add: klist_copy_def klist_wf_foldl_append)

lemma elems_copy: "elems (klist_copy l) = elems l"
  by (simp add: klist_copy_def elems_foldl_append)

lemma klist_is_empty_iff: "klist_ok l \<Longrightarrow> klist_is_empty l \<longleftrightarrow> elems l = []"
  by (auto simp: klist_ok_def klist_wf_def klist_is_empty_def word_of_nat_eq_0_iff
      dest: nat_dvd_not_less)

lemma klist_count_eq: "klist_ok l \<Longrightarrow> unat (klist_count l) = length (elems l)"
  by (simp add: klist_ok_def klist_wf_def klist_count_def unsigned_of_nat take_bit_nat_eq_self)

lemma klist_ok_new [simp]: "klist_ok klist_new"
  by (simp add: klist_ok_def)

lemma klist_ok_append:
  "klist_ok l \<Longrightarrow> length (elems l) + 1 < 2 ^ 32 \<Longrightarrow> klist_ok (klist_append l x)"
  by (simp add: klist_ok_def)

lemma klist_ok_remove: "klist_ok l \<Longrightarrow> klist_ok (klist_remove l x)"
  by (auto simp: klist_ok_def length_remove1)

lemma klist_ok_dequeue: "klist_ok l \<Longrightarrow> klist_dequeue l = Inr (x, l') \<Longrightarrow> klist_ok l'"
  by (auto simp: klist_ok_def dest: klist_wf_dequeue simp: klist_dequeue_Inr_iff)

section \<open>The queue contract\<close>

text \<open>
  What the clients of a first-in first-out container use. \<open>room\<close> says that one more element fits
  (the counter or the buffer does not wrap).
\<close>

locale fifo_queue =
  fixes enq :: "'q \<Rightarrow> 'a \<Rightarrow> 'q"
    and deq :: "'q \<Rightarrow> ('a \<times> 'q) res"
    and is_empty :: "'q \<Rightarrow> bool"
    and contents :: "'q \<Rightarrow> 'a list"
    and inv :: "'q \<Rightarrow> bool"
    and room :: "'q \<Rightarrow> bool"
  assumes inv_enq: "inv q \<Longrightarrow> room q \<Longrightarrow> inv (enq q x)"
    and contents_enq: "inv q \<Longrightarrow> room q \<Longrightarrow> contents (enq q x) = contents q @ [x]"
    and is_empty_iff: "inv q \<Longrightarrow> is_empty q \<longleftrightarrow> contents q = []"
    and deq_Cons: "inv q \<Longrightarrow> contents q = x # xs \<Longrightarrow>
          \<exists>q'. deq q = Inr (x, q') \<and> contents q' = xs \<and> inv q'"
    and room_deq: "inv q \<Longrightarrow> deq q = Inr (x, q') \<Longrightarrow> room q'"
begin

lemma deq_nonempty:
  assumes "inv q" and "\<not> is_empty q"
  shows "\<exists>x q'. deq q = Inr (x, q') \<and> contents q = x # contents q' \<and> inv q'"
  using assms deq_Cons is_empty_iff by (metis neq_Nil_conv)

text \<open>Rotating a nonempty queue (dequeue, then enqueue what came out) never fails.\<close>

lemma rotate:
  assumes "inv q" and "contents q = x # xs"
  shows "\<exists>q'. deq q = Inr (x, q') \<and> inv (enq q' x) \<and> contents (enq q' x) = xs @ [x]"
proof -
  from deq_Cons [OF assms] obtain q' where q': "deq q = Inr (x, q')" "contents q' = xs" "inv q'"
    by blast
  with room_deq [OF assms(1) q'(1)] show ?thesis
    by (auto simp: inv_enq contents_enq)
qed

end

definition klist_room :: "'a klist \<Rightarrow> bool" where
  "klist_room l \<longleftrightarrow> length (elems l) + 1 < 2 ^ 32"

interpretation kq: fifo_queue klist_enqueue klist_dequeue klist_is_empty elems klist_ok klist_room
proof (unfold_locales, goal_cases)
  case (1 q x) then show ?case
    by (simp add: klist_enqueue_def klist_ok_append klist_room_def)
next
  case (2 q x) then show ?case by simp
next
  case (3 q) then show ?case by (rule klist_is_empty_iff)
next
  case (4 q x xs)
  then have "klist_dequeue q = Inr (x, q\<lparr>elems := xs, cnt := cnt q - 1\<rparr>)"
    by (simp add: klist_dequeue_Cons)
  with 4(1) klist_ok_dequeue show ?case by fastforce
next
  case (5 q x q')
  then show ?case by (auto simp: klist_room_def klist_ok_def klist_dequeue_Inr_iff)
qed

end
