(* ===== verification/Buddy_Heap.thy ===== *)
theory Buddy_Heap imports Prelude begin

text \<open>
  The buddy page allocator of \<open>coursework/buddy.cpp\<close> at the level of its pointers. A page
  descriptor is named by its page frame number, so the pointer comparisons of the code, all of which
  are inside the one descriptor array, are comparisons of numbers; the null pointer is \<open>None\<close>. The
  memory the algorithm works on is the array of descriptors (with the \<open>next_free\<close> links) and the
  array \<open>_free_areas\<close> of list heads. A \<open>PageDescriptor **\<close> is a slot: the head of a list or
  the \<open>next_free\<close> field of a descriptor. The loops that walk a slot along a chain may not end
  (a chain can be cyclic), so they are \<open>partial_function (option)\<close>.
\<close>

section \<open>Page descriptors and slots\<close>

datatype page_descriptor_type = INVALID | RESERVED | AVAILABLE | ALLOCATED

record page_descriptor =
  next_free :: "nat option"
  pd_type :: page_descriptor_type

record pmem =
  descs :: "nat \<Rightarrow> page_descriptor"
  nr_pages :: nat
  free_areas :: "nat \<Rightarrow> nat option"

definition MAX_ORDER :: nat where
  "MAX_ORDER = 17"

datatype slot = Head nat | Next nat

fun deref :: "pmem \<Rightarrow> slot \<Rightarrow> nat option" where
  "deref m (Head k) = free_areas m k"
| "deref m (Next p) = next_free (descs m p)"

definition set_next :: "pmem \<Rightarrow> nat \<Rightarrow> nat option \<Rightarrow> pmem" where
  "set_next m p v = m\<lparr>descs := (descs m)(p := (descs m p)\<lparr>next_free := v\<rparr>)\<rparr>"

fun store :: "pmem \<Rightarrow> slot \<Rightarrow> nat option \<Rightarrow> pmem" where
  "store m (Head k) v = m\<lparr>free_areas := (free_areas m)(k := v)\<rparr>"
| "store m (Next p) v = set_next m p v"

text \<open>The address \<open>&_free_areas[order]\<close>, an error where the index is outside the array.\<close>

definition free_area_slot :: "nat \<Rightarrow> slot res" where
  "free_area_slot k = (if k < MAX_ORDER then Inr (Head k) else Inl Out_Of_Bounds)"

text \<open>A write of \<open>pgd->next_free\<close>, an error where \<open>pgd\<close> is outside the descriptor array.\<close>

definition write_next :: "pmem \<Rightarrow> nat \<Rightarrow> nat option \<Rightarrow> pmem res" where
  "write_next m p v = (if p < nr_pages m then Inr (set_next m p v) else Inl Out_Of_Bounds)"

text \<open>\<open>while (*slot && go( *slot)) slot = &( *slot)->next_free\<close>, the loop of every list walk.\<close>

partial_function (option) walk :: "pmem \<Rightarrow> (nat \<Rightarrow> bool) \<Rightarrow> slot \<Rightarrow> slot option" where
  "walk m go s =
     (case deref m s of
        None \<Rightarrow> Some s
      | Some q \<Rightarrow> if go q then walk m go (Next q) else Some s)"

section \<open>Order arithmetic\<close>

definition pages_per_block :: "nat \<Rightarrow> nat" where
  "pages_per_block order = 2 ^ order"

definition is_correct_alignment_for_order :: "nat \<Rightarrow> nat \<Rightarrow> bool" where
  "is_correct_alignment_for_order pgd order \<longleftrightarrow> pgd mod pages_per_block order = 0"

text \<open>\<open>PageAllocator::pfn_to_pgd\<close>: null only when the number is above the number of pages.\<close>

definition pfn_to_pgd :: "pmem \<Rightarrow> nat \<Rightarrow> nat option" where
  "pfn_to_pgd m pfn = (if pfn > nr_pages m then None else Some pfn)"

definition buddy_of :: "pmem \<Rightarrow> nat \<Rightarrow> nat \<Rightarrow> nat option" where
  "buddy_of m pgd order =
     (if order \<ge> MAX_ORDER then None
      else if \<not> is_correct_alignment_for_order pgd order then None
      else pfn_to_pgd m
        (if is_correct_alignment_for_order pgd (order + 1)
         then pgd + pages_per_block order
         else pgd - pages_per_block order))"

section \<open>Free list operations\<close>

definition insert_block :: "pmem \<Rightarrow> nat \<Rightarrow> nat \<Rightarrow> (slot \<times> pmem) res" where
  "insert_block m pgd order =
     res_bind (free_area_slot order) (\<lambda>head.
     res_bind (loop_res (walk m (\<lambda>q. pgd > q) head)) (\<lambda>s.
     res_bind (write_next m pgd (deref m s)) (\<lambda>m1.
     Inr (s, store m1 s (Some pgd)))))"

text \<open>
  The block to remove is a possibly null pointer. For a null pointer the walk runs to the end of
  the list, the assertion holds there, and the access to \<open>pgd->next_free\<close> fails.
\<close>

definition remove_block :: "pmem \<Rightarrow> nat option \<Rightarrow> nat \<Rightarrow> pmem res" where
  "remove_block m pgd order =
     res_bind (free_area_slot order) (\<lambda>head.
     res_bind (loop_res (walk m (\<lambda>q. pgd \<noteq> Some q) head)) (\<lambda>s.
     res_bind (assert_that (deref m s = pgd)) (\<lambda>_.
     case pgd of
       None \<Rightarrow> Inl Null_Deref
     | Some p \<Rightarrow> write_next (store m s (next_free (descs m p))) p None)))"

definition split_block :: "pmem \<Rightarrow> slot \<Rightarrow> nat \<Rightarrow> (nat option \<times> pmem) res" where
  "split_block m block_pointer source_order =
     (case deref m block_pointer of
        None \<Rightarrow> Inl Assert_Fail
      | Some page_to_split \<Rightarrow>
          res_bind (assert_that (is_correct_alignment_for_order page_to_split source_order)) (\<lambda>_.
          res_bind (assert_that (source_order > 0)) (\<lambda>_.
          res_bind (remove_block m (Some page_to_split) source_order) (\<lambda>m1.
          res_bind (insert_block m1 page_to_split (source_order - 1)) (\<lambda>(_, m2).
          res_bind (insert_block m2 (page_to_split + pages_per_block (source_order - 1))
                      (source_order - 1)) (\<lambda>(_, m3).
          Inr (deref m3 block_pointer, m3)))))))"

definition merge_block :: "pmem \<Rightarrow> slot \<Rightarrow> nat \<Rightarrow> (slot \<times> pmem) res" where
  "merge_block m block_pointer source_order =
     (case deref m block_pointer of
        None \<Rightarrow> Inl Assert_Fail
      | Some merging_block \<Rightarrow>
          res_bind (assert_that (is_correct_alignment_for_order merging_block source_order)) (\<lambda>_.
          let bud = buddy_of m merging_block source_order in
          res_bind (remove_block m (Some merging_block) source_order) (\<lambda>m1.
          res_bind (remove_block m1 bud source_order) (\<lambda>m2.
          case bud of
            None \<Rightarrow> Inl Null_Deref
          | Some b \<Rightarrow> insert_block m2 (if merging_block < b then merging_block else b)
                         (source_order + 1)))))"

section \<open>The allocator interface\<close>

definition buddy_new :: "pmem \<Rightarrow> pmem" where
  "buddy_new m = m\<lparr>free_areas := (\<lambda>_. None)\<rparr>"

text \<open>The search for the first order, from the requested one, whose free list is not empty.\<close>

function find_order :: "pmem \<Rightarrow> nat \<Rightarrow> nat \<Rightarrow> nat option" where
  "find_order m order order_difference =
     (if order + order_difference < MAX_ORDER then
        (if free_areas m (order + order_difference) \<noteq> None then Some order_difference
         else find_order m order (order_difference + 1))
      else None)"
  by pat_completeness auto
termination
  by (relation "measure (\<lambda>(m, order, d). MAX_ORDER - (order + d))") auto

text \<open>The loop that splits down to the requested order, \<open>while (order_difference > 0)\<close>.\<close>

fun split_down :: "pmem \<Rightarrow> nat \<Rightarrow> nat \<Rightarrow> pmem res" where
  "split_down m order 0 = Inr m"
| "split_down m order (Suc d) =
     res_bind (split_block m (Head (order + Suc d)) (order + Suc d)) (\<lambda>(_, m1).
     split_down m1 order d)"

definition buddy_alloc_pages :: "pmem \<Rightarrow> nat \<Rightarrow> (nat option \<times> pmem) res" where
  "buddy_alloc_pages m order =
     (if order \<ge> MAX_ORDER then Inr (None, m)
      else case find_order m order 0 of
        None \<Rightarrow> Inr (None, m)
      | Some d \<Rightarrow>
          res_bind (split_down m order d) (\<lambda>m1.
          let allocated_page = deref m1 (Head order) in
          res_bind (remove_block m1 allocated_page order) (\<lambda>m2.
          Inr (allocated_page, m2))))"

text \<open>
  The scan of one free list in \<open>free_pages\<close>: it stops at the first block that does not start below
  the last page of the block being returned, and asserts that no block before that contains the
  first or the last page of the block being returned.
\<close>

definition overlaps_end :: "nat \<Rightarrow> nat \<Rightarrow> nat \<Rightarrow> nat \<Rightarrow> bool" where
  "overlaps_end pgd order q ord \<longleftrightarrow>
     (q \<le> pgd \<and> q + pages_per_block ord > pgd) \<or>
     (q \<le> pgd + pages_per_block order - 1 \<and>
      q + pages_per_block ord > pgd + pages_per_block order - 1)"

definition check_order :: "pmem \<Rightarrow> nat \<Rightarrow> nat \<Rightarrow> nat \<Rightarrow> unit res" where
  "check_order m pgd order ord =
     res_bind (loop_res (walk m (\<lambda>q. pgd + pages_per_block order - 1 > q \<and>
                                     \<not> overlaps_end pgd order q ord) (Head ord))) (\<lambda>s.
     case deref m s of
       None \<Rightarrow> Inr ()
     | Some q \<Rightarrow> assert_that (\<not> pgd + pages_per_block order - 1 > q))"

text \<open>\<open>for (ord = MAX_ORDER - 1; ord >= 0; ord--)\<close>, called with \<open>n = ord + 1\<close>.\<close>

fun check_orders :: "pmem \<Rightarrow> nat \<Rightarrow> nat \<Rightarrow> nat \<Rightarrow> unit res" where
  "check_orders m pgd order 0 = Inr ()"
| "check_orders m pgd order (Suc ord) =
     res_bind (check_order m pgd order ord) (\<lambda>_. check_orders m pgd order ord)"

text \<open>The merging loop: search the buddy in the list of this order, merge and go up, or stop. The slot
  that \<open>merge_block\<close> returns holds the merged block, so the null case is not reached.\<close>

function merge_up :: "pmem \<Rightarrow> nat option \<Rightarrow> nat \<Rightarrow> pmem res" where
  "merge_up m bud order =
     (if order < MAX_ORDER - 1 then
        res_bind (loop_res (walk m (\<lambda>q. bud \<noteq> Some q) (Head order))) (\<lambda>s.
        if deref m s = None then Inr m
        else res_bind (merge_block m s order) (\<lambda>(s', m1).
          case deref m1 s' of
            None \<Rightarrow> Inl Null_Deref
          | Some p \<Rightarrow> merge_up m1 (buddy_of m1 p (order + 1)) (order + 1)))
      else Inr m)"
  by pat_completeness auto
termination
  by (relation "measure (\<lambda>(m, bud, order). MAX_ORDER - order)") (auto simp: MAX_ORDER_def)

definition buddy_free_pages :: "pmem \<Rightarrow> nat \<Rightarrow> nat \<Rightarrow> pmem res" where
  "buddy_free_pages m pgd order =
     res_bind (assert_that (is_correct_alignment_for_order pgd order)) (\<lambda>_.
     res_bind (check_orders m pgd order MAX_ORDER) (\<lambda>_.
     res_bind (insert_block m pgd order) (\<lambda>(_, m1).
     merge_up m1 (buddy_of m1 pgd order) order)))"

text \<open>One round of the outer loop of \<open>reserve_page\<close>: split the block that contains the page.\<close>

definition reserve_split :: "pmem \<Rightarrow> nat \<Rightarrow> nat \<Rightarrow> pmem res" where
  "reserve_split m pgd order =
     res_bind (loop_res (walk m (\<lambda>q. pgd \<ge> q \<and>
                 \<not> (q \<le> pgd \<and> q + pages_per_block order > pgd)) (Head order))) (\<lambda>s.
     case deref m s of
       None \<Rightarrow> Inr m
     | Some q \<Rightarrow> if pgd \<ge> q then res_bind (split_block m s order) (\<lambda>(_, m1). Inr m1) else Inr m)"

text \<open>\<open>for (order = MAX_ORDER - 1; order > 0; order--)\<close>, called with \<open>n = order\<close>.\<close>

fun reserve_loop :: "pmem \<Rightarrow> nat \<Rightarrow> nat \<Rightarrow> pmem res" where
  "reserve_loop m pgd 0 = Inr m"
| "reserve_loop m pgd (Suc n) =
     res_bind (reserve_split m pgd (Suc n)) (\<lambda>m1. reserve_loop m1 pgd n)"

definition buddy_reserve_page :: "pmem \<Rightarrow> nat \<Rightarrow> (bool \<times> pmem) res" where
  "buddy_reserve_page m pgd =
     res_bind (reserve_loop m pgd (MAX_ORDER - 1)) (\<lambda>m1.
     res_bind (loop_res (walk m1 (\<lambda>q. pgd \<noteq> q) (Head 0))) (\<lambda>s.
     if deref m1 s \<noteq> None
     then res_bind (remove_block m1 (Some pgd) 0) (\<lambda>m2. Inr (True, m2))
     else Inr (False, m1)))"

text \<open>The inner loop of \<open>init\<close>: insert blocks of one order while they fit.\<close>

function init_fill :: "pmem \<Rightarrow> nat \<Rightarrow> nat \<Rightarrow> nat \<Rightarrow> (nat \<times> pmem) res" where
  "init_fill m curr_order offset nr =
     (if offset + pages_per_block curr_order \<le> nr then
        res_bind (assert_that (is_correct_alignment_for_order offset curr_order)) (\<lambda>_.
        res_bind (insert_block m offset curr_order) (\<lambda>(_, m1).
        init_fill m1 curr_order (offset + pages_per_block curr_order) nr))
      else Inr (offset, m))"
  by pat_completeness auto
termination
  by (relation "measure (\<lambda>(m, ord, offset, nr). nr - offset)")
    (auto simp: pages_per_block_def intro!: diff_less_mono2 intro: less_le_trans [of offset "offset + 2 ^ k" nr for offset k nr])

text \<open>The outer loop of \<open>init\<close>, called with \<open>n = curr_order + 1\<close>.\<close>

fun init_orders :: "pmem \<Rightarrow> nat \<Rightarrow> nat \<Rightarrow> nat \<Rightarrow> (nat \<times> pmem) res" where
  "init_orders m 0 offset nr = Inr (offset, m)"
| "init_orders m (Suc curr_order) offset nr =
     res_bind (init_fill m curr_order offset nr) (\<lambda>(offset1, m1).
     if offset1 = nr then Inr (offset1, m1) else init_orders m1 curr_order offset1 nr)"

definition buddy_init :: "pmem \<Rightarrow> nat \<Rightarrow> (bool \<times> pmem) res" where
  "buddy_init m nr_page_descriptors =
     res_bind (init_orders m MAX_ORDER 0 nr_page_descriptors) (\<lambda>(offset, m1).
     Inr (offset = nr_page_descriptors, m1))"

declare find_order.simps [simp del] merge_up.simps [simp del] init_fill.simps [simp del]

end
