(* ===== verification/Buddy_Lists.thy ===== *)
theory Buddy_Lists imports Buddy_Heap begin

text \<open>
  The abstract view of the buddy allocator's memory: for each order the list of the free blocks in
  ascending order. \<open>sim m fl\<close> relates the pointer-level memory of \<open>Buddy_Heap\<close> to these lists:
  every head starts a chain of \<open>next_free\<close> links through exactly that list, the lists are sorted,
  every block is aligned to its order and inside the memory, and no two blocks overlap. The theory
  proves that \<open>insert_block\<close> and \<open>remove_block\<close> implement insertion and removal on the lists.
\<close>

section \<open>Blocks and free lists\<close>

definition blk :: "nat \<Rightarrow> nat \<Rightarrow> nat set" where
  "blk k p = {p..<p + 2 ^ k}"

type_synonym free_lists = "nat \<Rightarrow> nat list"

definition block_ok :: "nat \<Rightarrow> nat \<Rightarrow> nat \<Rightarrow> bool" where
  "block_ok n k p \<longleftrightarrow> 2 ^ k dvd p \<and> p + 2 ^ k \<le> n"

definition good :: "nat \<Rightarrow> free_lists \<Rightarrow> bool" where
  "good n fl \<longleftrightarrow>
     (\<forall>k < MAX_ORDER. sorted_wrt (<) (fl k) \<and> (\<forall>p \<in> set (fl k). block_ok n k p)) \<and>
     (\<forall>k < MAX_ORDER. \<forall>k' < MAX_ORDER. \<forall>p \<in> set (fl k). \<forall>p' \<in> set (fl k').
        (k = k' \<and> p = p') \<or> blk k p \<inter> blk k' p' = {})"

definition fpages :: "free_lists \<Rightarrow> nat set" where
  "fpages fl = (\<Union>k \<in> {..<MAX_ORDER}. \<Union>p \<in> set (fl k). blk k p)"

definition a_add :: "free_lists \<Rightarrow> nat \<Rightarrow> nat \<Rightarrow> free_lists" where
  "a_add fl k p = fl(k := insort p (fl k))"

definition a_del :: "free_lists \<Rightarrow> nat \<Rightarrow> nat \<Rightarrow> free_lists" where
  "a_del fl k p = fl(k := remove1 p (fl k))"

lemma mem_blk: "q \<in> blk k p \<longleftrightarrow> p \<le> q \<and> q < p + 2 ^ k"
  by (simp add: blk_def)

lemma blk_nonempty [simp]: "p \<in> blk k p" "blk k p \<noteq> {}"
  by (auto simp: blk_def)

lemma blk_start_disjoint: "blk k p \<inter> blk j p \<noteq> {}"
  using blk_nonempty(1) by blast

lemma mem_fpages: "q \<in> fpages fl \<longleftrightarrow> (\<exists>k < MAX_ORDER. \<exists>p \<in> set (fl k). q \<in> blk k p)"
  by (auto simp: fpages_def)

lemma fpagesI: "k < MAX_ORDER \<Longrightarrow> p \<in> set (fl k) \<Longrightarrow> blk k p \<subseteq> fpages fl"
  unfolding fpages_def by blast

lemma a_add_simps [simp]:
  "set (a_add fl k p k') = (if k' = k then insert p (set (fl k)) else set (fl k'))"
  "k' \<noteq> k \<Longrightarrow> a_add fl k p k' = fl k'"
  by (auto simp: a_add_def set_insort_key)

lemma a_del_other [simp]: "k' \<noteq> k \<Longrightarrow> a_del fl k p k' = fl k'"
  by (simp add: a_del_def)

lemma goodD:
  assumes "good n fl" and "k < MAX_ORDER"
  shows "sorted_wrt (<) (fl k)" and "distinct (fl k)" and "p \<in> set (fl k) \<Longrightarrow> block_ok n k p"
  using assms by (auto simp: good_def sorted_wrt_less_distinct)

lemma goodI:
  assumes "\<And>k. k < MAX_ORDER \<Longrightarrow> sorted_wrt (<) (fl k)"
    and "\<And>k p. k < MAX_ORDER \<Longrightarrow> p \<in> set (fl k) \<Longrightarrow> block_ok n k p"
    and "\<And>k k' p p'. k < MAX_ORDER \<Longrightarrow> k' < MAX_ORDER \<Longrightarrow> p \<in> set (fl k) \<Longrightarrow> p' \<in> set (fl k') \<Longrightarrow>
          (k = k' \<and> p = p') \<or> blk k p \<inter> blk k' p' = {}"
  shows "good n fl"
  using assms by (simp add: good_def)

lemma good_disjoint:
  assumes "good n fl" and "k < MAX_ORDER" and "k' < MAX_ORDER"
    and "p \<in> set (fl k)" and "p' \<in> set (fl k')" and "(k, p) \<noteq> (k', p')"
  shows "blk k p \<inter> blk k' p' = {}"
  using assms unfolding good_def by blast

lemma good_same_start:
  assumes "good n fl" and "k < MAX_ORDER" and "k' < MAX_ORDER"
    and "p \<in> set (fl k)" and "p \<in> set (fl k')"
  shows "k = k'"
proof (rule ccontr)
  assume "k \<noteq> k'"
  then have "blk k p \<inter> blk k' p = {}" by (intro good_disjoint [OF assms]) simp
  then show False by (metis IntI blk_nonempty(1) empty_iff)
qed

lemma set_a_del:
  assumes "good n fl" and "k < MAX_ORDER"
  shows "set (a_del fl k p k') = (if k' = k then set (fl k) - {p} else set (fl k'))"
  using goodD(2) [OF assms] by (auto simp: a_del_def)

lemma sorted_insort_less:
  assumes "sorted_wrt (<) (xs :: nat list)" and "p \<notin> set xs"
  shows "sorted_wrt (<) (insort p xs)"
  using assms by (auto simp: strict_sorted_iff sorted_insort distinct_insort)

lemma good_add:
  assumes g: "good n fl" and k: "k < MAX_ORDER" and ok: "block_ok n k p"
    and dis: "blk k p \<inter> fpages fl = {}"
  shows "good n (a_add fl k p)"
proof -
  have nin: "p \<notin> set (fl k)"
    using dis fpagesI [OF k] by (metis IntI blk_nonempty(1) empty_iff subsetD)
  have new: "blk k p \<inter> blk k' p' = {}" if "k' < MAX_ORDER" "p' \<in> set (fl k')" for k' p'
    using dis fpagesI [OF that(1), of p' fl] that(2) by blast
  have "sorted_wrt (<) (a_add fl k p j)" if "j < MAX_ORDER" for j
    using goodD(1) [OF g that] nin by (cases "j = k") (auto simp: a_add_def sorted_insort_less)
  moreover have "block_ok n j q" if "j < MAX_ORDER" "q \<in> set (a_add fl k p j)" for j q
    using that goodD(3) [OF g] ok by (auto split: if_splits)
  moreover have "(j = j' \<and> q = q') \<or> blk j q \<inter> blk j' q' = {}"
    if j: "j < MAX_ORDER" "j' < MAX_ORDER" and q: "q \<in> set (a_add fl k p j)"
      and q': "q' \<in> set (a_add fl k p j')" for j j' q q'
  proof -
    consider "j = k" "q = p" "j' = k" "q' = p" | "j = k" "q = p" "q' \<in> set (fl j')"
      | "q \<in> set (fl j)" "j' = k" "q' = p" | "q \<in> set (fl j)" "q' \<in> set (fl j')"
      using q q' by (auto split: if_splits)
    then show ?thesis
    proof cases
      case 2 then show ?thesis using new [OF j(2)] by blast
    next
      case 3 then show ?thesis using new [OF j(1)] by blast
    next
      case 4 then show ?thesis using good_disjoint [OF g j] by blast
    qed auto
  qed
  ultimately show ?thesis by (intro goodI)
qed

lemma good_del:
  assumes g: "good n fl" and k: "k < MAX_ORDER"
  shows "good n (a_del fl k p)"
proof -
  have sub: "set (a_del fl k p j) \<subseteq> set (fl j)" for j
    by (simp add: set_a_del [OF g k])
  have "sorted_wrt (<) (a_del fl k p j)" if "j < MAX_ORDER" for j
    using goodD(1) [OF g that]
    by (cases "j = k") (auto simp: a_del_def strict_sorted_iff sorted_remove1)
  moreover have "block_ok n j q" if "j < MAX_ORDER" "q \<in> set (a_del fl k p j)" for j q
    using that goodD(3) [OF g] sub by blast
  moreover have "(j = j' \<and> q = q') \<or> blk j q \<inter> blk j' q' = {}"
    if "j < MAX_ORDER" "j' < MAX_ORDER" "q \<in> set (a_del fl k p j)" "q' \<in> set (a_del fl k p j')"
    for j j' q q'
  proof -
    from that(3,4) sub have "q \<in> set (fl j)" "q' \<in> set (fl j')" by blast+
    then show ?thesis using good_disjoint [OF g that(1,2)] by blast
  qed
  ultimately show ?thesis by (intro goodI)
qed

lemma fpages_add:
  assumes k: "k < MAX_ORDER"
  shows "fpages (a_add fl k p) = fpages fl \<union> blk k p"
proof (rule set_eqI)
  fix q
  have "(\<exists>x \<in> set (a_add fl k p j). q \<in> blk j x) \<longleftrightarrow>
          (\<exists>x \<in> set (fl j). q \<in> blk j x) \<or> (j = k \<and> q \<in> blk k p)" for j
    by auto
  then show "q \<in> fpages (a_add fl k p) \<longleftrightarrow> q \<in> fpages fl \<union> blk k p"
    unfolding mem_fpages Un_iff using k by blast
qed

lemma fpages_del:
  assumes g: "good n fl" and k: "k < MAX_ORDER" and p: "p \<in> set (fl k)"
  shows "fpages (a_del fl k p) = fpages fl - blk k p"
proof (rule set_eqI)
  fix q
  show "q \<in> fpages (a_del fl k p) \<longleftrightarrow> q \<in> fpages fl - blk k p"
  proof
    assume "q \<in> fpages (a_del fl k p)"
    then obtain j x where j: "j < MAX_ORDER" "x \<in> set (a_del fl k p j)" "q \<in> blk j x"
      unfolding mem_fpages by blast
    then have x: "x \<in> set (fl j)" "(j, x) \<noteq> (k, p)"
      by (auto simp: set_a_del [OF g k] split: if_splits)
    have "blk j x \<inter> blk k p = {}"
      using good_disjoint [OF g j(1) k x(1) p x(2)] .
    with j(3) have "q \<notin> blk k p" by blast
    moreover have "q \<in> fpages fl" using fpagesI [OF j(1), of x fl] x(1) j(3) by blast
    ultimately show "q \<in> fpages fl - blk k p" by simp
  next
    assume "q \<in> fpages fl - blk k p"
    then have "q \<in> fpages fl" and nk: "q \<notin> blk k p" by simp_all
    then obtain j x where j: "j < MAX_ORDER" "x \<in> set (fl j)" "q \<in> blk j x"
      unfolding mem_fpages by blast
    then have "x \<in> set (a_del fl k p j)"
      using nk by (auto simp: set_a_del [OF g k])
    then show "q \<in> fpages (a_del fl k p)" using fpagesI [OF j(1)] j(3) by (metis subsetD)
  qed
qed

lemma good_not_mem:
  assumes "good n fl" and "j < MAX_ORDER" and "k < MAX_ORDER" and "blk k p \<inter> fpages fl = {}"
  shows "p \<notin> set (fl j)"
proof
  assume "p \<in> set (fl j)"
  then have "p \<in> fpages fl" using assms(2) unfolding mem_fpages by (meson blk_nonempty(1))
  with assms(4) show False by (metis IntI blk_nonempty(1) empty_iff)
qed

section \<open>Chains of links\<close>

fun chain :: "pmem \<Rightarrow> nat option \<Rightarrow> nat list \<Rightarrow> bool" where
  "chain m h [] \<longleftrightarrow> h = None"
| "chain m h (x # xs) \<longleftrightarrow> h = Some x \<and> chain m (next_free (descs m x)) xs"

definition end_slot :: "slot \<Rightarrow> nat list \<Rightarrow> slot" where
  "end_slot s xs = (if xs = [] then s else Next (last xs))"

lemma end_slot_simps [simp]:
  "end_slot s [] = s"
  "end_slot s (x # xs) = end_slot (Next x) xs"
  by (auto simp: end_slot_def)

lemma chain_cong:
  "(\<And>x. x \<in> set xs \<Longrightarrow> next_free (descs m x) = next_free (descs m' x)) \<Longrightarrow>
     chain m h xs = chain m' h xs"
  by (induction xs arbitrary: h) auto

lemma chain_unique: "chain m h xs \<Longrightarrow> chain m h ys \<Longrightarrow> xs = ys"
proof (induction xs arbitrary: h ys)
  case Nil
  then show ?case by (cases ys) auto
next
  case (Cons x xs)
  then show ?case by (cases ys) auto
qed

lemma walk_chain:
  "chain m (deref m s) (xs @ ys) \<Longrightarrow> \<forall>x \<in> set xs. go x \<Longrightarrow> ys = [] \<or> \<not> go (hd ys) \<Longrightarrow>
     walk m go s = Some (end_slot s xs) \<and> chain m (deref m (end_slot s xs)) ys"
proof (induction xs arbitrary: s)
  case Nil
  then show ?case by (cases ys) (auto simp: walk.simps)
next
  case (Cons x xs)
  then have "chain m (deref m (Next x)) (xs @ ys)" and "deref m s = Some x" by auto
  with Cons show ?case by (simp add: walk.simps [of m go s])
qed

lemma deref_end_slot:
  "chain m (deref m s) (xs @ ys) \<Longrightarrow> chain m (deref m (end_slot s xs)) ys"
  by (induction xs arbitrary: s) auto

lemma set_next_simps [simp]:
  "next_free (descs (set_next m p v) q) = (if q = p then v else next_free (descs m q))"
  "pd_type (descs (set_next m p v) q) = pd_type (descs m q)"
  "nr_pages (set_next m p v) = nr_pages m"
  "free_areas (set_next m p v) = free_areas m"
  by (auto simp: set_next_def)

lemma store_env [simp]:
  "nr_pages (store m s v) = nr_pages m"
  "pd_type (descs (store m s v) q) = pd_type (descs m q)"
  by (cases s; simp)+

lemma deref_store [simp]: "deref (store m s v) s = v"
  by (cases s) auto

text \<open>The list that starts at a slot, and what a store at the end of its prefix does to it.\<close>

lemma chain_splice_next:
  assumes "chain m (next_free (descs m x)) (xs @ ys)" and "distinct (x # xs @ ys)"
    and "chain m v zs" and "x \<notin> set zs" and "set zs \<inter> set xs = {}"
  shows "chain (store m (end_slot (Next x) xs) v)
           (next_free (descs (store m (end_slot (Next x) xs) v) x)) (xs @ zs)"
  using assms
proof (induction xs arbitrary: x)
  case Nil
  have "chain (set_next m x v) v zs \<longleftrightarrow> chain m v zs"
    using Nil by (intro chain_cong) auto
  with Nil show ?case by simp
next
  case (Cons a xs)
  let ?m = "store m (end_slot (Next a) xs) v"
  have IH: "chain ?m (next_free (descs ?m a)) (xs @ zs)"
    using Cons.prems by (intro Cons.IH) auto
  have "end_slot (Next a) xs \<noteq> Next x"
    using Cons.prems by (auto simp: end_slot_def)
  then have "next_free (descs ?m x) = next_free (descs m x)"
    by (cases "end_slot (Next a) xs") auto
  with IH Cons.prems show ?case by simp
qed

lemma chain_splice:
  assumes "chain m (free_areas m k) (xs @ ys)" and "distinct (xs @ ys)"
    and "chain m v zs" and "set zs \<inter> set xs = {}"
  shows "chain (store m (end_slot (Head k) xs) v)
           (free_areas (store m (end_slot (Head k) xs) v) k) (xs @ zs)"
proof (cases xs)
  case Nil
  have "chain (store m (Head k) v) v zs \<longleftrightarrow> chain m v zs" by (intro chain_cong) auto
  with Nil assms show ?thesis by simp
next
  case (Cons x xs')
  have "chain (store m (end_slot (Next x) xs') v)
           (next_free (descs (store m (end_slot (Next x) xs') v) x)) (xs' @ zs)"
    using assms Cons by (intro chain_splice_next [where ys = ys]) auto
  moreover have "free_areas (store m (end_slot (Next x) xs') v) k = free_areas m k"
    by (cases xs') (auto simp: end_slot_def)
  ultimately show ?thesis using assms(1) Cons by simp
qed

lemma chain_frame:
  assumes "k' \<noteq> k" and "set us \<inter> set xs = {}"
  shows "chain (store m (end_slot (Head k) xs) v)
           (free_areas (store m (end_slot (Head k) xs) v) k') us = chain m (free_areas m k') us"
proof -
  have "chain (store m (end_slot (Head k) xs) v) h us = chain m h us" for h
    using assms(2) by (intro chain_cong) (auto simp: end_slot_def)
  then show ?thesis using assms(1) by (auto simp: end_slot_def)
qed

lemma chain_set_next: "p \<notin> set xs \<Longrightarrow> chain (set_next m p v) h xs = chain m h xs"
  by (intro chain_cong) auto

section \<open>The simulation relation\<close>

definition sim :: "pmem \<Rightarrow> free_lists \<Rightarrow> bool" where
  "sim m fl \<longleftrightarrow> (\<forall>k < MAX_ORDER. chain m (free_areas m k) (fl k)) \<and> good (nr_pages m) fl"

definition same_env :: "pmem \<Rightarrow> pmem \<Rightarrow> bool" where
  "same_env m m' \<longleftrightarrow> nr_pages m' = nr_pages m \<and> (\<forall>q. pd_type (descs m' q) = pd_type (descs m q))"

lemma same_env_refl [simp]: "same_env m m"
  by (simp add: same_env_def)

lemma same_env_trans: "same_env a b \<Longrightarrow> same_env b c \<Longrightarrow> same_env a c"
  by (simp add: same_env_def)

lemma same_env_nr: "same_env m m' \<Longrightarrow> nr_pages m' = nr_pages m"
  by (simp add: same_env_def)

lemma sim_good: "sim m fl \<Longrightarrow> good (nr_pages m) fl"
  by (simp add: sim_def)

lemma sim_chain: "sim m fl \<Longrightarrow> k < MAX_ORDER \<Longrightarrow> chain m (free_areas m k) (fl k)"
  by (simp add: sim_def)

lemma free_area_slot_Inr: "k < MAX_ORDER \<Longrightarrow> free_area_slot k = Inr (Head k)"
  by (simp add: free_area_slot_def)

lemma insort_split:
  assumes "sorted_wrt (<) (xs :: nat list)" and "p \<notin> set xs"
  shows "insort p xs = takeWhile (\<lambda>q. q < p) xs @ p # dropWhile (\<lambda>q. q < p) xs"
  using assms by (induction xs) auto

lemma block_pos: "block_ok n k p \<Longrightarrow> p < n"
  by (auto simp: block_ok_def intro: less_le_trans [of p "p + 2 ^ k" n])

lemma insert_block_sim:
  assumes s: "sim m fl" and k: "k < MAX_ORDER" and ok: "block_ok (nr_pages m) k p"
    and dis: "blk k p \<inter> fpages fl = {}"
  shows "\<exists>sl m'. insert_block m p k = Inr (sl, m') \<and> sim m' (a_add fl k p) \<and>
           deref m' sl = Some p \<and> same_env m m' \<and>
           sl = end_slot (Head k) (takeWhile (\<lambda>q. q < p) (fl k))"
proof -
  define xs where "xs = takeWhile (\<lambda>q. q < p) (fl k)"
  define ys where "ys = dropWhile (\<lambda>q. q < p) (fl k)"
  define sl where "sl = end_slot (Head k) xs"
  define m1 where "m1 = set_next m p (deref m sl)"
  define m' where "m' = store m1 sl (Some p)"
  note g = sim_good [OF s]
  have fl: "fl k = xs @ ys" by (simp add: xs_def ys_def)
  have nin: "p \<notin> set (fl j)" if "j < MAX_ORDER" for j
    using good_not_mem [OF g that k dis] .
  have xs: "\<forall>x \<in> set xs. p > x" by (auto simp: xs_def dest: set_takeWhileD)
  have ys: "ys = [] \<or> \<not> p > hd ys" using hd_dropWhile [of "\<lambda>q. q < p" "fl k"] by (auto simp: ys_def)
  have ch: "chain m (deref m (Head k)) (xs @ ys)" using sim_chain [OF s k] fl by simp
  have w: "walk m (\<lambda>q. p > q) (Head k) = Some sl" "chain m (deref m sl) ys"
    using walk_chain [OF ch xs ys] by (simp_all add: sl_def)
  have ins: "insert_block m p k = Inr (sl, m')"
    by (simp add: insert_block_def free_area_slot_Inr [OF k] w write_next_def block_pos [OF ok]
        m'_def m1_def)
  have pn: "p \<notin> set xs" "p \<notin> set ys" using nin [OF k] fl by auto
  have d: "distinct (xs @ ys)" using goodD(2) [OF g k] fl by simp
  have c1: "chain m1 (Some p) (p # ys)"
    using w(2) pn by (simp add: m1_def chain_set_next)
  have "chain m1 (free_areas m1 k) (xs @ ys)"
    using ch pn by (simp add: m1_def chain_set_next)
  then have ck: "chain m' (free_areas m' k) (xs @ p # ys)"
    unfolding m'_def sl_def using c1 d pn by (intro chain_splice) auto
  have cj: "chain m' (free_areas m' j) (fl j)" if j: "j < MAX_ORDER" "j \<noteq> k" for j
  proof -
    have "set (fl j) \<inter> set xs = {}"
      using good_same_start [OF g j(1) k] j(2) fl by auto
    then have "chain m' (free_areas m' j) (fl j) = chain m1 (free_areas m1 j) (fl j)"
      unfolding m'_def sl_def using j(2) by (intro chain_frame)
    also have "\<dots> = chain m (free_areas m j) (fl j)"
      using nin [OF j(1)] by (simp add: m1_def chain_set_next)
    finally show ?thesis using sim_chain [OF s j(1)] by simp
  qed
  have add: "a_add fl k p k = xs @ p # ys"
    using insort_split [OF goodD(1) [OF g k] nin [OF k]] by (simp add: a_add_def xs_def ys_def)
  have nr: "nr_pages m' = nr_pages m" by (simp add: m'_def m1_def)
  have "sim m' (a_add fl k p)"
    unfolding sim_def nr using good_add [OF g k ok dis] ck cj add by (metis a_add_simps(2))
  moreover have "same_env m m'" by (simp add: same_env_def m'_def m1_def)
  moreover have "deref m' sl = Some p" by (simp add: m'_def)
  ultimately show ?thesis using ins by (simp add: sl_def xs_def)
qed

lemma remove1_split: "p \<notin> set xs \<Longrightarrow> remove1 p (xs @ p # ys) = xs @ ys"
  by (simp add: remove1_append)

lemma remove_block_sim:
  assumes s: "sim m fl" and k: "k < MAX_ORDER" and p: "p \<in> set (fl k)"
  shows "\<exists>m'. remove_block m (Some p) k = Inr m' \<and> sim m' (a_del fl k p) \<and> same_env m m'"
proof -
  note g = sim_good [OF s]
  obtain xs ys where fl: "fl k = xs @ p # ys" and nin: "p \<notin> set xs"
    using split_list_first [OF p] by blast
  define sl where "sl = end_slot (Head k) xs"
  define m1 where "m1 = store m sl (next_free (descs m p))"
  define m' where "m' = set_next m1 p None"
  have d: "distinct (xs @ p # ys)" using goodD(2) [OF g k] fl by simp
  have ch: "chain m (deref m (Head k)) (xs @ p # ys)" using sim_chain [OF s k] fl by simp
  have w: "walk m (\<lambda>q. Some p \<noteq> Some q) (Head k) = Some sl" "chain m (deref m sl) (p # ys)"
    using walk_chain [OF ch, of "\<lambda>q. Some p \<noteq> Some q"] nin by (auto simp: sl_def)
  have pn: "p < nr_pages m" using goodD(3) [OF g k p] block_pos by blast
  have rm: "remove_block m (Some p) k = Inr m'"
    using w pn by (simp add: remove_block_def free_area_slot_Inr [OF k] write_next_def m'_def m1_def)
  have ck1: "chain m1 (free_areas m1 k) (xs @ ys)"
    unfolding m1_def sl_def using ch w d by (intro chain_splice [where ys = "p # ys"]) auto
  have ck: "chain m' (free_areas m' k) (xs @ ys)"
    using ck1 d by (simp add: m'_def chain_set_next)
  have cj: "chain m' (free_areas m' j) (fl j)" if j: "j < MAX_ORDER" "j \<noteq> k" for j
  proof -
    have pj: "p \<notin> set (fl j)" using good_same_start [OF g j(1) k _ p] j(2) by blast
    have "set (fl j) \<inter> set xs = {}"
      using good_same_start [OF g j(1) k] j(2) fl by auto
    then have "chain m1 (free_areas m1 j) (fl j) = chain m (free_areas m j) (fl j)"
      unfolding m1_def sl_def using j(2) by (intro chain_frame)
    then show ?thesis using pj sim_chain [OF s j(1)] by (simp add: m'_def chain_set_next)
  qed
  have del: "a_del fl k p k = xs @ ys" using nin by (simp add: a_del_def fl remove1_append)
  have nr: "nr_pages m' = nr_pages m" by (simp add: m'_def m1_def)
  have "sim m' (a_del fl k p)"
    unfolding sim_def nr using good_del [OF g k] ck cj del by (metis a_del_other)
  moreover have "same_env m m'" by (simp add: same_env_def m'_def m1_def)
  ultimately show ?thesis using rm by blast
qed

end
