(* ===== verification/Buddy_Split.thy ===== *)
theory Buddy_Split imports Buddy_Lists begin

text \<open>
  Splitting and merging of buddy blocks on the free lists, and the proofs that \<open>split_block\<close>,
  the splitting loop of \<open>alloc_pages\<close>, \<open>merge_block\<close> and the merging loop of \<open>free_pages\<close>
  implement them.
\<close>

section \<open>Arithmetic of aligned blocks\<close>

definition bud :: "nat \<Rightarrow> nat \<Rightarrow> nat" where
  "bud p k = (if 2 ^ Suc k dvd p then p + 2 ^ k else p - 2 ^ k)"

lemma aligned_iff [simp]: "is_correct_alignment_for_order p k \<longleftrightarrow> 2 ^ k dvd p"
  by (simp add: is_correct_alignment_for_order_def pages_per_block_def dvd_eq_mod_eq_0)

lemma ppb [simp]: "pages_per_block k = 2 ^ k"
  by (simp add: pages_per_block_def)

lemma dvd_Suc_pow: "(2::nat) ^ Suc k dvd p \<Longrightarrow> 2 ^ k dvd p"
  by (metis dvd_mult_right power_Suc)

lemma odd_multiple:
  assumes "(2::nat) ^ k dvd p" and "\<not> 2 ^ Suc k dvd p"
  shows "2 ^ k \<le> p" and "2 ^ Suc k dvd p - 2 ^ k"
proof -
  from assms(1) obtain c where c: "p = 2 ^ k * c" by (elim dvdE)
  with assms(2) have "odd c" by (auto simp: mult.commute)
  then obtain e where e: "c = 2 * e + 1" by (elim oddE)
  show "2 ^ k \<le> p" using c e by simp
  have "p - 2 ^ k = 2 ^ Suc k * e" using c e by (simp add: algebra_simps)
  then show "2 ^ Suc k dvd p - 2 ^ k" by simp
qed

text \<open>A block and its buddy are the two halves of one block of the next order.\<close>

lemma bud_cases:
  assumes "2 ^ k dvd p"
  obtains "2 ^ Suc k dvd p" "bud p k = p + 2 ^ k" "min p (bud p k) = p"
  | b where "p = b + 2 ^ k" "2 ^ Suc k dvd b" "bud p k = b" "min p (bud p k) = b"
proof (cases "2 ^ Suc k dvd p")
  case True
  then show ?thesis using that(1) by (simp add: bud_def)
next
  case False
  note o = odd_multiple [OF assms False]
  then have "p = (p - 2 ^ k) + 2 ^ k" by simp
  with False o show ?thesis using that(2) [of "p - 2 ^ k"] by (simp add: bud_def)
qed

lemma bud_neq: "2 ^ k dvd p \<Longrightarrow> bud p k \<noteq> p"
  by (erule bud_cases) auto

lemma bud_bud:
  assumes "2 ^ k dvd p"
  shows "bud (bud p k) k = p"
  using assms
proof (cases rule: bud_cases)
  case 1
  have "\<not> 2 ^ Suc k dvd p + 2 ^ k"
  proof
    assume "2 ^ Suc k dvd p + 2 ^ k"
    then have "2 ^ Suc k dvd (2::nat) ^ k" using 1(1) dvd_add_right_iff by blast
    then show False by (auto dest: dvd_imp_le)
  qed
  with 1 show ?thesis by (simp add: bud_def)
next
  case (2 b)
  then show ?thesis by (simp add: bud_def)
qed

lemma bud_aligned: "2 ^ k dvd p \<Longrightarrow> 2 ^ k dvd bud p k"
  by (erule bud_cases) (auto dest: dvd_Suc_pow)

lemma blk_halves:
  "blk (Suc k) p = blk k p \<union> blk k (p + 2 ^ k)"
  "blk k p \<inter> blk k (p + 2 ^ k) = {}"
  by (auto simp: blk_def)

lemma blk_min_bud:
  assumes "2 ^ k dvd p"
  shows "blk (Suc k) (min p (bud p k)) = blk k p \<union> blk k (bud p k)"
  using assms by (cases rule: bud_cases) (auto simp: blk_halves)

lemma block_ok_halves:
  assumes "block_ok n (Suc k) p"
  shows "block_ok n k p" and "block_ok n k (p + 2 ^ k)"
  using assms by (auto simp: block_ok_def dvd_Suc_pow)

lemma block_ok_merge:
  assumes "block_ok n k p" and "block_ok n k (bud p k)"
  shows "block_ok n (Suc k) (min p (bud p k))"
proof -
  have "2 ^ k dvd p" using assms(1) by (simp add: block_ok_def)
  then show ?thesis using assms by (cases rule: bud_cases) (auto simp: block_ok_def)
qed

lemma buddy_of_eq:
  assumes "k < MAX_ORDER" and "2 ^ k dvd p"
  shows "buddy_of m p k = (if bud p k > nr_pages m then None else Some (bud p k))"
  using assms by (simp add: buddy_of_def pfn_to_pgd_def bud_def)

section \<open>Splitting\<close>

definition a_split :: "free_lists \<Rightarrow> nat \<Rightarrow> nat \<Rightarrow> free_lists" where
  "a_split fl k p = a_add (a_add (a_del fl (Suc k) p) k p) k (p + 2 ^ k)"

lemma split_steps:
  assumes g: "good n fl" and k: "Suc k < MAX_ORDER" and p: "p \<in> set (fl (Suc k))"
  defines "f1 \<equiv> a_del fl (Suc k) p" and "f2 \<equiv> a_add (a_del fl (Suc k) p) k p"
  shows "good n f1" and "block_ok n k p" and "blk k p \<inter> fpages f1 = {}"
    and "good n f2" and "block_ok n k (p + 2 ^ k)" and "blk k (p + 2 ^ k) \<inter> fpages f2 = {}"
    and "good n (a_split fl k p)" and "fpages (a_split fl k p) = fpages fl"
proof -
  have ok: "block_ok n (Suc k) p" using goodD(3) [OF g k p] .
  have kk: "k < MAX_ORDER" using k by simp
  show b1: "block_ok n k p" and b2: "block_ok n k (p + 2 ^ k)" using block_ok_halves [OF ok] .
  have fp1: "fpages f1 = fpages fl - blk (Suc k) p" unfolding f1_def by (rule fpages_del [OF g k p])
  show g1: "good n f1" unfolding f1_def by (rule good_del [OF g k])
  show d1: "blk k p \<inter> fpages f1 = {}" using fp1 blk_halves(1) [of k p] by blast
  show g2: "good n f2" unfolding f2_def f1_def [symmetric] by (rule good_add [OF g1 kk b1 d1])
  have fp2: "fpages f2 = fpages f1 \<union> blk k p"
    unfolding f2_def f1_def by (rule fpages_add [OF kk])
  show d2: "blk k (p + 2 ^ k) \<inter> fpages f2 = {}"
    using fp2 fp1 blk_halves [of k p] by blast
  have sp: "a_split fl k p = a_add f2 k (p + 2 ^ k)" by (simp add: a_split_def f2_def)
  show "good n (a_split fl k p)" unfolding sp by (rule good_add [OF g2 kk b2 d2])
  have "fpages (a_split fl k p) = fpages f2 \<union> blk k (p + 2 ^ k)"
    unfolding sp by (rule fpages_add [OF kk])
  moreover have "blk (Suc k) p \<subseteq> fpages fl" by (rule fpagesI [of "Suc k" p fl, OF k p])
  ultimately show "fpages (a_split fl k p) = fpages fl"
    using fp2 fp1 blk_halves(1) [of k p] by blast
qed

lemma split_block_sim:
  assumes s: "sim m fl" and k: "Suc k < MAX_ORDER" and p: "p \<in> set (fl (Suc k))"
    and bp: "deref m bp = Some p"
  shows "\<exists>m'. split_block m bp (Suc k) = Inr (deref m' bp, m') \<and> sim m' (a_split fl k p) \<and>
           same_env m m'"
proof -
  note st = split_steps [OF sim_good [OF s] k p]
  have kk: "k < MAX_ORDER" using k by simp
  have al: "2 ^ Suc k dvd p" using goodD(3) [OF sim_good [OF s] k p] by (simp add: block_ok_def)
  from remove_block_sim [OF s k p] obtain m1 where
    m1: "remove_block m (Some p) (Suc k) = Inr m1" "sim m1 (a_del fl (Suc k) p)" "same_env m m1"
    by blast
  have "block_ok (nr_pages m1) k p" using st(2) same_env_nr [OF m1(3)] by simp
  from insert_block_sim [OF m1(2) kk this st(3)] obtain s2 m2 where
    m2: "insert_block m1 p k = Inr (s2, m2)" "sim m2 (a_add (a_del fl (Suc k) p) k p)"
      "same_env m1 m2"
    by blast
  have "block_ok (nr_pages m2) k (p + 2 ^ k)"
    using st(5) same_env_nr [OF m1(3)] same_env_nr [OF m2(3)] by simp
  from insert_block_sim [OF m2(2) kk this st(6)] obtain s3 m3 where
    m3: "insert_block m2 (p + 2 ^ k) k = Inr (s3, m3)" "sim m3 (a_split fl k p)" "same_env m2 m3"
    by (auto simp: a_split_def)
  have "split_block m bp (Suc k) = Inr (deref m3 bp, m3)"
    using al by (simp add: split_block_def bp m1(1) m2(1) m3(1))
  then show ?thesis using m3(2) same_env_trans [OF same_env_trans [OF m1(3) m2(3)] m3(3)] by blast
qed

text \<open>
  The free lists after splitting the first block \<open>h\<close> of order \<open>k + d\<close> down to order \<open>k\<close>, when the
  lists in between are empty.
\<close>

definition after_split :: "free_lists \<Rightarrow> nat \<Rightarrow> nat \<Rightarrow> nat \<Rightarrow> nat list \<Rightarrow> free_lists" where
  "after_split fl k d h t = (\<lambda>j.
     if j = k + d then (if d = 0 then h # t else t)
     else if j = k then [h, h + 2 ^ k]
     else if k < j \<and> j < k + d then [h + 2 ^ j]
     else fl j)"

lemma a_split_first:
  assumes "fl (Suc k) = h # t" and "fl k = []"
  shows "a_split fl k h = fl(Suc k := t, k := [h, h + 2 ^ k])"
  using assms by (auto simp: a_split_def a_add_def a_del_def fun_eq_iff)

lemma split_down_sim:
  "sim m fl \<Longrightarrow> k + d < MAX_ORDER \<Longrightarrow> fl (k + d) = h # t \<Longrightarrow> (\<And>j. k \<le> j \<Longrightarrow> j < k + d \<Longrightarrow> fl j = []) \<Longrightarrow>
     \<exists>m'. split_down m k d = Inr m' \<and> sim m' (after_split fl k d h t) \<and> same_env m m' \<and>
          fpages (after_split fl k d h t) = fpages fl"
proof (induction d arbitrary: m fl t)
  case 0
  then have "after_split fl k 0 h t = fl" by (auto simp: after_split_def fun_eq_iff)
  with 0 show ?case by simp
next
  case (Suc d)
  let ?fl1 = "fl(Suc (k + d) := t, k + d := [h, h + 2 ^ (k + d)])"
  have K: "Suc (k + d) < MAX_ORDER" and in_l: "h \<in> set (fl (Suc (k + d)))"
    using Suc.prems by auto
  have eq: "a_split fl (k + d) h = ?fl1"
    using Suc.prems by (intro a_split_first) auto
  have "deref m (Head (Suc (k + d))) = Some h"
    using sim_chain [OF Suc.prems(1) K] Suc.prems(3) by simp
  from split_block_sim [OF Suc.prems(1) K in_l this] obtain m1 where
    m1: "split_block m (Head (Suc (k + d))) (Suc (k + d)) = Inr (deref m1 (Head (Suc (k + d))), m1)"
      "sim m1 ?fl1" "same_env m m1"
    unfolding eq by blast
  have fp: "fpages ?fl1 = fpages fl"
    using split_steps(8) [OF sim_good [OF Suc.prems(1)] K, of h] in_l eq by simp
  have "\<exists>m'. split_down m1 k d = Inr m' \<and> sim m' (after_split ?fl1 k d h [h + 2 ^ (k + d)]) \<and>
          same_env m1 m' \<and> fpages (after_split ?fl1 k d h [h + 2 ^ (k + d)]) = fpages ?fl1"
    using Suc.prems by (intro Suc.IH m1(2)) auto
  moreover have "after_split ?fl1 k d h [h + 2 ^ (k + d)] = after_split fl k (Suc d) h t"
    using Suc.prems(3) by (auto simp: after_split_def fun_eq_iff)
  ultimately obtain m' where "split_down m1 k d = Inr m'" "sim m' (after_split fl k (Suc d) h t)"
    "same_env m1 m'" "fpages (after_split fl k (Suc d) h t) = fpages fl"
    using fp by auto
  then show ?case using m1 same_env_trans [OF m1(3)] by auto
qed

section \<open>Merging\<close>

definition a_merge :: "free_lists \<Rightarrow> nat \<Rightarrow> nat \<Rightarrow> free_lists" where
  "a_merge fl k p = a_add (a_del (a_del fl k p) k (bud p k)) (Suc k) (min p (bud p k))"

lemma merge_steps:
  assumes g: "good n fl" and k: "Suc k < MAX_ORDER" and p: "p \<in> set (fl k)"
    and b: "bud p k \<in> set (fl k)"
  defines "f2 \<equiv> a_del (a_del fl k p) k (bud p k)"
  shows "bud p k \<in> set (a_del fl k p k)" and "block_ok n (Suc k) (min p (bud p k))"
    and "blk (Suc k) (min p (bud p k)) \<inter> fpages f2 = {}"
    and "good n (a_merge fl k p)" and "fpages (a_merge fl k p) = fpages fl"
proof -
  have kk: "k < MAX_ORDER" using k by simp
  have okp: "block_ok n k p" and okb: "block_ok n k (bud p k)"
    using goodD(3) [OF g kk] p b by blast+
  have al: "2 ^ k dvd p" using okp by (simp add: block_ok_def)
  note g1 = good_del [OF g kk, of p]
  show bin: "bud p k \<in> set (a_del fl k p k)" using b bud_neq [OF al] by (simp add: set_a_del [OF g kk])
  have g2: "good n f2" unfolding f2_def by (rule good_del [OF g1 kk])
  show ok: "block_ok n (Suc k) (min p (bud p k))" by (rule block_ok_merge [OF okp okb])
  have fp2: "fpages f2 = fpages fl - blk (Suc k) (min p (bud p k))"
    unfolding f2_def fpages_del [OF g1 kk bin] fpages_del [OF g kk p] blk_min_bud [OF al] by blast
  then show dis: "blk (Suc k) (min p (bud p k)) \<inter> fpages f2 = {}" by blast
  have mg: "a_merge fl k p = a_add f2 (Suc k) (min p (bud p k))" by (simp add: a_merge_def f2_def)
  show "good n (a_merge fl k p)" unfolding mg by (rule good_add [OF g2 k ok dis])
  have "blk k p \<subseteq> fpages fl" "blk k (bud p k) \<subseteq> fpages fl"
    using fpagesI [of k _ fl, OF kk] p b by blast+
  then show "fpages (a_merge fl k p) = fpages fl"
    unfolding mg fpages_add [OF k] fp2 blk_min_bud [OF al] by blast
qed

lemma merge_block_sim:
  assumes s: "sim m fl" and k: "Suc k < MAX_ORDER" and x: "x \<in> set (fl k)"
    and b: "bud x k \<in> set (fl k)" and bp: "deref m bp = Some x"
  shows "\<exists>sl m'. merge_block m bp k = Inr (sl, m') \<and> sim m' (a_merge fl k x) \<and>
           deref m' sl = Some (min x (bud x k)) \<and> same_env m m'"
proof -
  note g = sim_good [OF s]
  note st = merge_steps [OF g k x b]
  have kk: "k < MAX_ORDER" using k by simp
  have al: "2 ^ k dvd x" using goodD(3) [OF g kk x] by (simp add: block_ok_def)
  have "bud x k < nr_pages m" using goodD(3) [OF g kk b] block_pos by blast
  then have bo: "buddy_of m x k = Some (bud x k)" by (simp add: buddy_of_eq [OF kk al])
  from remove_block_sim [OF s kk x] obtain m1 where
    m1: "remove_block m (Some x) k = Inr m1" "sim m1 (a_del fl k x)" "same_env m m1" by blast
  from remove_block_sim [OF m1(2) kk st(1)] obtain m2 where
    m2: "remove_block m1 (Some (bud x k)) k = Inr m2" "sim m2 (a_del (a_del fl k x) k (bud x k))"
      "same_env m1 m2" by blast
  have "block_ok (nr_pages m2) (Suc k) (min x (bud x k))"
    using st(2) same_env_nr [OF m1(3)] same_env_nr [OF m2(3)] by simp
  from insert_block_sim [OF m2(2) k this st(3)] obtain sl m3 where
    m3: "insert_block m2 (min x (bud x k)) (Suc k) = Inr (sl, m3)" "sim m3 (a_merge fl k x)"
      "deref m3 sl = Some (min x (bud x k))" "same_env m2 m3"
    by (auto simp: a_merge_def)
  have "(if x < bud x k then x else bud x k) = min x (bud x k)" by simp
  then have "merge_block m bp k = Inr (sl, m3)"
    using al m3(1) by (simp add: merge_block_def bp bo m1(1) m2(1) del: min_def)
  then show ?thesis using m3 same_env_trans [OF same_env_trans [OF m1(3) m2(3)] m3(4)] by blast
qed

text \<open>The merging loop on the lists: from a free block, merge with its buddy while it is free.\<close>

function a_merge_up :: "free_lists \<Rightarrow> nat \<Rightarrow> nat \<Rightarrow> free_lists" where
  "a_merge_up fl p k =
     (if Suc k < MAX_ORDER \<and> bud p k \<in> set (fl k)
      then a_merge_up (a_merge fl k p) (min p (bud p k)) (Suc k)
      else fl)"
  by pat_completeness auto
termination
  by (relation "measure (\<lambda>(fl, p, k). MAX_ORDER - k)") auto

declare a_merge_up.simps [simp del]

lemma a_merge_sym:
  assumes "2 ^ k dvd p"
  shows "a_merge fl k (bud p k) = a_merge fl k p"
proof -
  have "remove1 (bud p k) (remove1 p xs) = remove1 p (remove1 (bud p k) xs)" for xs
    by (rule remove1_commute)
  then show ?thesis
    by (simp add: a_merge_def a_del_def bud_bud [OF assms] min.commute)
qed

lemma search_buddy:
  assumes s: "sim m fl" and k: "k < MAX_ORDER"
  shows "\<exists>sl. walk m (\<lambda>q. b \<noteq> Some q) (Head k) = Some sl \<and>
           deref m sl = (case b of None \<Rightarrow> None | Some p \<Rightarrow> if p \<in> set (fl k) then Some p else None)"
proof -
  have ch: "chain m (deref m (Head k)) (fl k)" using sim_chain [OF s k] by simp
  show ?thesis
  proof (cases "\<exists>p. b = Some p \<and> p \<in> set (fl k)")
    case True
    then obtain p where p: "b = Some p" "p \<in> set (fl k)" by blast
    then obtain xs ys where fl: "fl k = xs @ p # ys" "p \<notin> set xs" using split_list_first by fast
    then have "chain m (deref m (Head k)) (xs @ p # ys)" using ch by simp
    from walk_chain [OF this, of "\<lambda>q. b \<noteq> Some q"] fl p show ?thesis by auto
  next
    case False
    then have "walk m (\<lambda>q. b \<noteq> Some q) (Head k) = Some (end_slot (Head k) (fl k)) \<and>
        chain m (deref m (end_slot (Head k) (fl k))) []"
      using ch by (intro walk_chain) auto
    with False show ?thesis by (auto split: option.splits)
  qed
qed

lemma merge_up_sim:
  "sim m fl \<Longrightarrow> k < MAX_ORDER \<Longrightarrow> p \<in> set (fl k) \<Longrightarrow>
     \<exists>m'. merge_up m (buddy_of m p k) k = Inr m' \<and> sim m' (a_merge_up fl p k) \<and> same_env m m' \<and>
          fpages (a_merge_up fl p k) = fpages fl"
proof (induction fl p k arbitrary: m rule: a_merge_up.induct)
  case (1 fl p k)
  note s = "1.prems"(1) and k = "1.prems"(2) and p = "1.prems"(3)
  note g = sim_good [OF s]
  have okp: "block_ok (nr_pages m) k p" by (rule goodD(3) [OF g k p])
  then have al: "2 ^ k dvd p" by (simp add: block_ok_def)
  from search_buddy [OF s k, of "buddy_of m p k"] obtain sl where
    w: "walk m (\<lambda>q. buddy_of m p k \<noteq> Some q) (Head k) = Some sl"
      "deref m sl = (case buddy_of m p k of None \<Rightarrow> None
         | Some b \<Rightarrow> if b \<in> set (fl k) then Some b else None)" by blast
  have in_nr: "bud p k \<in> set (fl k) \<Longrightarrow> buddy_of m p k = Some (bud p k)"
    using goodD(3) [OF g k] block_pos [of "nr_pages m" k "bud p k"] by (auto simp: buddy_of_eq [OF k al])
  show ?case
  proof (cases "Suc k < MAX_ORDER \<and> bud p k \<in> set (fl k)")
    case True
    then have k': "Suc k < MAX_ORDER" and b: "bud p k \<in> set (fl k)" by blast+
    have sl: "deref m sl = Some (bud p k)" using w(2) in_nr [OF b] b by simp
    have bb: "bud (bud p k) k \<in> set (fl k)" using p bud_bud [OF al] by simp
    from merge_block_sim [OF s k' b bb sl] obtain s1 m1 where
      m1: "merge_block m sl k = Inr (s1, m1)" "sim m1 (a_merge fl k p)"
        "deref m1 s1 = Some (min p (bud p k))" "same_env m m1"
      by (auto simp: a_merge_sym [OF al] bud_bud [OF al] min.commute)
    have "min p (bud p k) \<in> set (a_merge fl k p (Suc k))" by (simp add: a_merge_def)
    from "1.IH" [OF True m1(2) k' this] obtain m' where
      m': "merge_up m1 (buddy_of m1 (min p (bud p k)) (Suc k)) (Suc k) = Inr m'"
        "sim m' (a_merge_up (a_merge fl k p) (min p (bud p k)) (Suc k))" "same_env m1 m'"
        "fpages (a_merge_up (a_merge fl k p) (min p (bud p k)) (Suc k)) = fpages (a_merge fl k p)"
      by blast
    have "merge_up m (buddy_of m p k) k = Inr m'"
      using k' w(1) sl m1(1,3) m'(1)
      by (subst merge_up.simps) (simp add: MAX_ORDER_def)
    then show ?thesis
      using True m' merge_steps(5) [OF g k' p b] same_env_trans [OF m1(4) m'(3)]
      by (simp add: a_merge_up.simps [of fl p k])
  next
    case False
    have "merge_up m (buddy_of m p k) k = Inr m"
    proof (cases "k < MAX_ORDER - 1")
      case True
      with False have "bud p k \<notin> set (fl k)" by (simp add: MAX_ORDER_def)
      then have "deref m sl = None" using w(2) by (auto simp: buddy_of_eq [OF k al])
      with True w(1) show ?thesis by (subst merge_up.simps) simp
    next
      case False then show ?thesis by (subst merge_up.simps) simp
    qed
    moreover have "a_merge_up fl p k = fl"
      using False by (subst a_merge_up.simps) (rule if_not_P)
    ultimately show ?thesis using s by simp
  qed
qed

end
