(* ===== verification/Buddy_Alloc.thy ===== *)
theory Buddy_Alloc imports Buddy_Split begin

text \<open>
  The four operations of the buddy allocator on the free lists: allocation, release, reservation of
  a page and initialisation. \<open>coalesced\<close> says that no two buddies of an order below the highest
  are free together, the state the merging loop aims at; allocation, reservation and release keep
  it, and releasing what was just allocated restores the very same lists.
\<close>

definition coalesced :: "free_lists \<Rightarrow> bool" where
  "coalesced fl \<longleftrightarrow> (\<forall>k. Suc k < MAX_ORDER \<longrightarrow> (\<forall>p \<in> set (fl k). bud p k \<notin> set (fl k)))"

section \<open>Allocation\<close>

definition alloc_lists :: "free_lists \<Rightarrow> nat \<Rightarrow> nat \<Rightarrow> free_lists" where
  "alloc_lists fl k d = (\<lambda>j.
     if j = k + d then tl (fl j)
     else if k \<le> j \<and> j < k + d then [hd (fl (k + d)) + 2 ^ j]
     else fl j)"

lemma find_order_None:
  "(\<And>j. k + d \<le> j \<Longrightarrow> j < MAX_ORDER \<Longrightarrow> free_areas m j = None) \<Longrightarrow> find_order m k d = None"
proof (induction m k d rule: find_order.induct)
  case (1 m k d)
  then show ?case by (subst find_order.simps) auto
qed

lemma find_order_Some:
  "d \<le> e \<Longrightarrow> k + e < MAX_ORDER \<Longrightarrow> free_areas m (k + e) \<noteq> None \<Longrightarrow>
     (\<And>i. d \<le> i \<Longrightarrow> i < e \<Longrightarrow> free_areas m (k + i) = None) \<Longrightarrow> find_order m k d = Some e"
proof (induction m k d rule: find_order.induct)
  case (1 m k d)
  show ?case
  proof (cases "d = e")
    case True
    with "1.prems" show ?thesis by (subst find_order.simps) simp
  next
    case False
    with "1.prems" have lt: "k + d < MAX_ORDER" "d + 1 \<le> e" and n: "free_areas m (k + d) = None" by auto
    have "find_order m k (d + 1) = Some e"
      using "1.prems" lt n by (intro "1.IH") auto
    with lt n show ?thesis by (subst find_order.simps) simp
  qed
qed

lemma sim_head: "sim m fl \<Longrightarrow> j < MAX_ORDER \<Longrightarrow> free_areas m j = None \<longleftrightarrow> fl j = []"
  by (drule (1) sim_chain, cases "fl j") auto

lemma alloc_none:
  assumes "sim m fl" and "\<And>j. k \<le> j \<Longrightarrow> j < MAX_ORDER \<Longrightarrow> fl j = []"
  shows "buddy_alloc_pages m k = Inr (None, m)"
proof -
  have "find_order m k 0 = None"
    using assms sim_head [OF assms(1)] by (intro find_order_None) auto
  then show ?thesis by (simp add: buddy_alloc_pages_def)
qed

lemma after_split_del:
  assumes "fl (k + d) = h # t" and "h \<notin> set t"
  shows "a_del (after_split fl k d h t) k h = alloc_lists fl k d"
  using assms by (auto simp: a_del_def after_split_def alloc_lists_def fun_eq_iff)

lemma alloc_some:
  assumes s: "sim m fl" and kd: "k + d < MAX_ORDER" and ne: "fl (k + d) \<noteq> []"
    and low: "\<And>j. k \<le> j \<Longrightarrow> j < k + d \<Longrightarrow> fl j = []"
  defines "h \<equiv> hd (fl (k + d))"
  shows "\<exists>m'. buddy_alloc_pages m k = Inr (Some h, m') \<and> sim m' (alloc_lists fl k d) \<and>
           same_env m m' \<and> fpages (alloc_lists fl k d) = fpages fl - blk k h \<and>
           blk k h \<subseteq> fpages fl \<and> block_ok (nr_pages m) k h"
proof -
  have k: "k < MAX_ORDER" using kd by simp
  obtain t where ht: "fl (k + d) = h # t" using ne by (cases "fl (k + d)") (auto simp: h_def)
  have dist: "h \<notin> set t" using goodD(2) [OF sim_good [OF s] kd] ht by simp
  have fo: "find_order m k 0 = Some d"
    using kd ne low sim_head [OF s] by (intro find_order_Some) auto
  from split_down_sim [OF s kd ht low] obtain m1 where
    m1: "split_down m k d = Inr m1" "sim m1 (after_split fl k d h t)" "same_env m m1"
      "fpages (after_split fl k d h t) = fpages fl" by blast
  have hd: "h \<in> set (after_split fl k d h t k)" "after_split fl k d h t k \<noteq> []"
    "hd (after_split fl k d h t k) = h"
    by (auto simp: after_split_def)
  then have dh: "deref m1 (Head k) = Some h"
    using sim_chain [OF m1(2) k] by (cases "after_split fl k d h t k") auto
  from remove_block_sim [OF m1(2) k hd(1)] obtain m2 where
    m2: "remove_block m1 (Some h) k = Inr m2" "sim m2 (alloc_lists fl k d)" "same_env m1 m2"
    by (auto simp: after_split_del [where fl = fl and k = k and d = d, OF ht dist])
  have "buddy_alloc_pages m k = Inr (Some h, m2)"
    using k fo m1(1) dh m2(1) by (simp add: buddy_alloc_pages_def)
  moreover have "fpages (alloc_lists fl k d) = fpages fl - blk k h"
    using fpages_del [OF sim_good [OF m1(2)] k hd(1)]
    by (simp add: after_split_del [where fl = fl and k = k and d = d, OF ht dist] m1(4))
  moreover have "blk k h \<subseteq> fpages fl"
    using fpagesI [of k h "after_split fl k d h t", OF k hd(1)] m1(4) by simp
  moreover have "block_ok (nr_pages m) k h"
    using goodD(3) [OF sim_good [OF m1(2)] k hd(1)] same_env_nr [OF m1(3)] by simp
  ultimately show ?thesis using m2 same_env_trans [OF m1(3) m2(3)] by blast
qed

lemma alloc_cases:
  assumes "k < MAX_ORDER"
  obtains (none) "\<And>j. k \<le> j \<Longrightarrow> j < MAX_ORDER \<Longrightarrow> (fl :: free_lists) j = []"
  | (some) d where "k + d < MAX_ORDER" "fl (k + d) \<noteq> []" "\<And>j. k \<le> j \<Longrightarrow> j < k + d \<Longrightarrow> fl j = []"
proof (cases "\<exists>d. k + d < MAX_ORDER \<and> fl (k + d) \<noteq> []")
  case True
  define d where "d = (LEAST d. k + d < MAX_ORDER \<and> fl (k + d) \<noteq> [])"
  have d: "k + d < MAX_ORDER \<and> fl (k + d) \<noteq> []" unfolding d_def using True by (rule LeastI_ex)
  moreover have "fl j = []" if "k \<le> j" "j < k + d" for j
  proof -
    have "j - k < d" using that by simp
    then have "\<not> (k + (j - k) < MAX_ORDER \<and> fl (k + (j - k)) \<noteq> [])"
      unfolding d_def by (rule not_less_Least)
    with that d show ?thesis by simp
  qed
  ultimately show ?thesis using some by blast
next
  case False
  then show ?thesis using none by (metis le_Suc_ex)
qed

lemma alloc_coalesced:
  assumes c: "coalesced fl" and g: "good n fl" and kd: "k + d < MAX_ORDER" and ne: "fl (k + d) \<noteq> []"
  shows "coalesced (alloc_lists fl k d)"
proof -
  let ?h = "hd (fl (k + d))"
  have "block_ok n (k + d) ?h" using goodD(3) [OF g kd] ne by simp
  then have al: "2 ^ (k + d) dvd ?h" by (simp add: block_ok_def)
  have "bud p j \<notin> set (alloc_lists fl k d j)" if j: "Suc j < MAX_ORDER" "p \<in> set (alloc_lists fl k d j)" for j p
  proof -
    consider "j = k + d" | "k \<le> j" "j < k + d" | "j < k \<or> k + d < j" by linarith
    then show ?thesis
    proof cases
      case 1
      then have "p \<in> set (fl j)" using j(2) list.set_sel(2) [of "fl j"] ne
        by (auto simp: alloc_lists_def)
      then have "bud p j \<notin> set (fl j)" using c j(1) by (simp add: coalesced_def)
      with 1 ne show ?thesis by (auto simp: alloc_lists_def dest: list.set_sel(2))
    next
      case 2
      then have p: "p = ?h + 2 ^ j" and l: "alloc_lists fl k d j = [?h + 2 ^ j]"
        using j(2) by (auto simp: alloc_lists_def)
      have "2 ^ j dvd ?h" using al 2 by (meson dvd_trans le_imp_power_dvd less_imp_le)
      then have "2 ^ j dvd p" using p by simp
      then show ?thesis using bud_neq p l by auto
    next
      case 3
      then have "alloc_lists fl k d j = fl j" by (auto simp: alloc_lists_def)
      with c j show ?thesis by (simp add: coalesced_def)
    qed
  qed
  then show ?thesis by (simp add: coalesced_def)
qed

section \<open>Release\<close>

lemma chain_hd: "chain m h ys \<Longrightarrow> h = (if ys = [] then None else Some (hd ys))"
  by (cases ys) auto

text \<open>
  The scan asserts exactly where some free block starts below the last page of the block that is
  returned and contains its first or its last page.
\<close>

lemma check_order_eq:
  assumes s: "sim m fl" and j: "j < MAX_ORDER"
  shows "check_order m p k j =
    (if \<exists>q \<in> set (fl j). p + 2 ^ k - 1 > q \<and> overlaps_end p k q j then Inl Assert_Fail else Inr ())"
proof -
  define last where "last = p + 2 ^ k - 1"
  define go where "go = (\<lambda>q. last > q \<and> \<not> overlaps_end p k q j)"
  define xs where "xs = takeWhile go (fl j)"
  define ys where "ys = dropWhile go (fl j)"
  define sl where "sl = end_slot (Head j) xs"
  have fl: "fl j = xs @ ys" by (simp add: xs_def ys_def)
  have xsg: "\<forall>x \<in> set xs. go x" by (auto simp: xs_def dest: set_takeWhileD)
  have ysg: "ys = [] \<or> \<not> go (hd ys)" using hd_dropWhile [of go "fl j"] by (auto simp: ys_def)
  have "chain m (deref m (Head j)) (xs @ ys)" using sim_chain [OF s j] fl by simp
  from walk_chain [OF this xsg ysg] have w: "walk m go (Head j) = Some sl" "chain m (deref m sl) ys"
    by (simp_all add: sl_def)
  have ck: "check_order m p k j = (case deref m sl of None \<Rightarrow> Inr () | Some q \<Rightarrow> assert_that (\<not> last > q))"
    using w(1) unfolding check_order_def ppb go_def last_def by simp
  have so: "sorted_wrt (<) (xs @ ys)" using goodD(1) [OF sim_good [OF s] j] fl by simp
  show ?thesis
  proof (cases ys)
    case Nil
    then have "\<not> (\<exists>q \<in> set (fl j). last > q \<and> overlaps_end p k q j)" using xsg fl by (auto simp: go_def)
    with Nil w(2) ck show ?thesis by (simp add: last_def)
  next
    case (Cons q zs)
    then have q: "deref m sl = Some q" "\<not> go q" using w(2) ysg by auto
    show ?thesis
    proof (cases "last > q")
      case True
      then have "\<exists>q \<in> set (fl j). last > q \<and> overlaps_end p k q j" using q(2) fl Cons by (auto simp: go_def)
      with True q ck show ?thesis by (simp add: last_def)
    next
      case False
      then have "\<forall>y \<in> set ys. \<not> last > y" using so Cons by (auto simp: sorted_wrt_append)
      then have "\<not> (\<exists>q \<in> set (fl j). last > q \<and> overlaps_end p k q j)" using xsg fl by (auto simp: go_def)
      with False q ck show ?thesis by (simp add: last_def)
    qed
  qed
qed

lemma check_orders_eq:
  "sim m fl \<Longrightarrow> n \<le> MAX_ORDER \<Longrightarrow> check_orders m p k n =
     (if \<exists>j < n. \<exists>q \<in> set (fl j). p + 2 ^ k - 1 > q \<and> overlaps_end p k q j then Inl Assert_Fail else Inr ())"
proof (induction n)
  case (Suc n)
  have "(\<exists>j < Suc n. P j) \<longleftrightarrow> P n \<or> (\<exists>j < n. P j)" for P using less_Suc_eq by auto
  then show ?case using Suc by (auto simp: check_order_eq)
qed simp

lemma check_orders_pass:
  assumes "sim m fl" and "blk k p \<inter> fpages fl = {}"
  shows "check_orders m p k MAX_ORDER = Inr ()"
proof -
  have "\<not> overlaps_end p k q j" if "j < MAX_ORDER" "q \<in> set (fl j)" for j q
  proof -
    have "blk j q \<subseteq> fpages fl" using fpagesI [of j q fl] that by blast
    moreover have "(1::nat) \<le> 2 ^ k" by simp
    then have "p \<in> blk k p" "p + 2 ^ k - 1 \<in> blk k p" unfolding mem_blk by linarith+
    ultimately have "p \<notin> blk j q" "p + 2 ^ k - 1 \<notin> blk j q" using assms(2) by blast+
    then show ?thesis by (auto simp: overlaps_end_def mem_blk)
  qed
  then show ?thesis using check_orders_eq [OF assms(1) order_refl] by auto
qed

lemma free_sim:
  assumes s: "sim m fl" and k: "k < MAX_ORDER" and ok: "block_ok (nr_pages m) k p"
    and dis: "blk k p \<inter> fpages fl = {}"
  shows "\<exists>m'. buddy_free_pages m p k = Inr m' \<and> sim m' (a_merge_up (a_add fl k p) p k) \<and>
           same_env m m' \<and> fpages (a_merge_up (a_add fl k p) p k) = fpages fl \<union> blk k p"
proof -
  have al: "2 ^ k dvd p" using ok by (simp add: block_ok_def)
  from insert_block_sim [OF s k ok dis] obtain sl m1 where
    m1: "insert_block m p k = Inr (sl, m1)" "sim m1 (a_add fl k p)" "same_env m m1" by blast
  have "p \<in> set (a_add fl k p k)" by simp
  from merge_up_sim [OF m1(2) k this] obtain m' where
    m': "merge_up m1 (buddy_of m1 p k) k = Inr m'" "sim m' (a_merge_up (a_add fl k p) p k)"
      "same_env m1 m'" "fpages (a_merge_up (a_add fl k p) p k) = fpages (a_add fl k p)" by blast
  have "buddy_free_pages m p k = Inr m'"
    using al m1(1) m'(1) check_orders_pass [OF s dis] by (simp add: buddy_free_pages_def)
  then show ?thesis using m' same_env_trans [OF m1(3) m'(3)] by (auto simp: fpages_add [OF k])
qed

text \<open>The only free pair the merging loop may meet is the one of the block it carries.\<close>

definition coalesced_but :: "free_lists \<Rightarrow> nat \<Rightarrow> nat \<Rightarrow> bool" where
  "coalesced_but fl k p \<longleftrightarrow>
     (\<forall>j. Suc j < MAX_ORDER \<longrightarrow> (\<forall>q \<in> set (fl j). bud q j \<in> set (fl j) \<longrightarrow>
        j = k \<and> (q = p \<or> q = bud p k)))"

lemma coalesced_but_add:
  assumes "coalesced fl" and g: "good n fl" and "k < MAX_ORDER" and "2 ^ k dvd p"
  shows "coalesced_but (a_add fl k p) k p"
proof -
  have "q = p \<or> q = bud p k"
    if k': "Suc k < MAX_ORDER" and q: "q \<in> set (a_add fl k p k)" "bud q k \<in> set (a_add fl k p k)" for q
  proof -
    consider "q = p" | "q \<in> set (fl k)" "bud q k = p" | "q \<in> set (fl k)" "bud q k \<in> set (fl k)"
      using q by auto
    then show ?thesis
    proof cases
      case 2
      have "2 ^ k dvd q" using goodD(3) [OF g assms(3) 2(1)] by (simp add: block_ok_def)
      then have "bud (bud q k) k = q" by (rule bud_bud)
      then show ?thesis using 2(2) by simp
    next
      case 3
      then show ?thesis using assms(1) k' by (simp add: coalesced_def)
    qed simp
  qed
  moreover have "bud q j \<notin> set (a_add fl k p j)"
    if "Suc j < MAX_ORDER" "j \<noteq> k" "q \<in> set (a_add fl k p j)" for q j
    using that assms(1) by (simp add: coalesced_def)
  ultimately show ?thesis unfolding coalesced_but_def by blast
qed

lemma coalesced_but_merge:
  assumes c: "coalesced_but fl k p" and g: "good n fl" and k: "Suc k < MAX_ORDER"
    and p: "p \<in> set (fl k)" and b: "bud p k \<in> set (fl k)"
  shows "coalesced_but (a_merge fl k p) (Suc k) (min p (bud p k))"
proof -
  let ?q = "min p (bud p k)"
  have kk: "k < MAX_ORDER" using k by simp
  note g1 = good_del [OF g kk, of p] and st = merge_steps [OF g k p b]
  have sets: "set (a_merge fl k p j) =
      (if j = Suc k then insert ?q (set (fl j)) else if j = k then set (fl k) - {p, bud p k} else set (fl j))" for j
    by (auto simp: a_merge_def set_a_del [OF g1 kk] set_a_del [OF g kk])
  have "j = Suc k \<and> (x = ?q \<or> x = bud ?q (Suc k))"
    if j: "Suc j < MAX_ORDER" and x: "x \<in> set (a_merge fl k p j)"
      and bx: "bud x j \<in> set (a_merge fl k p j)" for j x
  proof -
    have old: "False" if "x \<in> set (fl j)" "bud x j \<in> set (fl j)" "j = k \<Longrightarrow> x \<noteq> p \<and> x \<noteq> bud p k"
      using c j that unfolding coalesced_but_def by blast
    show ?thesis
    proof (cases "j = Suc k")
      case True
      consider "x = ?q" | "x \<in> set (fl j)" "bud x j = ?q" | "x \<in> set (fl j)" "bud x j \<in> set (fl j)"
        using x bx True unfolding sets by auto
      then show ?thesis
      proof cases
        case 2
        have "2 ^ j dvd x" using goodD(3) [OF g _ 2(1)] j by (simp add: block_ok_def)
        then show ?thesis using 2 True bud_bud by metis
      next
        case 3 then show ?thesis using old True by simp
      qed (simp add: True)
    next
      case False
      then show ?thesis using x bx old unfolding sets by (auto split: if_splits)
    qed
  qed
  then show ?thesis unfolding coalesced_but_def by blast
qed

lemma a_merge_up_coalesced:
  "coalesced_but fl k p \<Longrightarrow> good n fl \<Longrightarrow> k < MAX_ORDER \<Longrightarrow> p \<in> set (fl k) \<Longrightarrow>
     coalesced (a_merge_up fl p k)"
proof (induction fl p k rule: a_merge_up.induct)
  case (1 fl p k)
  show ?case
  proof (cases "Suc k < MAX_ORDER \<and> bud p k \<in> set (fl k)")
    case True
    then have k': "Suc k < MAX_ORDER" and b: "bud p k \<in> set (fl k)" by blast+
    have "coalesced (a_merge_up (a_merge fl k p) (min p (bud p k)) (Suc k))"
      using True "1.prems" k' merge_steps(4) [OF "1.prems"(2) k' "1.prems"(4) b]
      by (intro "1.IH" coalesced_but_merge) (auto simp: a_merge_def)
    with True show ?thesis by (simp add: a_merge_up.simps [of fl p k])
  next
    case False
    have al: "2 ^ k dvd p" using goodD(3) [OF "1.prems"(2,3,4)] by (simp add: block_ok_def)
    have "bud q j \<notin> set (fl j)" if j: "Suc j < MAX_ORDER" "q \<in> set (fl j)" for j q
    proof
      assume bq: "bud q j \<in> set (fl j)"
      with "1.prems"(1) j have "j = k" "q = p \<or> q = bud p k" unfolding coalesced_but_def by blast+
      with False j bq bud_bud [OF al] show False by auto
    qed
    moreover have "a_merge_up fl p k = fl"
      using False by (subst a_merge_up.simps) (rule if_not_P)
    ultimately show ?thesis by (simp add: coalesced_def)
  qed
qed

section \<open>Releasing what was allocated\<close>

lemma free_alloc_lists:
  "good n fl \<Longrightarrow> coalesced fl \<Longrightarrow> k + d < MAX_ORDER \<Longrightarrow> fl (k + d) \<noteq> [] \<Longrightarrow>
     (\<And>j. k \<le> j \<Longrightarrow> j < k + d \<Longrightarrow> fl j = []) \<Longrightarrow>
     a_merge_up (a_add (alloc_lists fl k d) k (hd (fl (k + d)))) (hd (fl (k + d))) k = fl"
proof (induction d arbitrary: k)
  case 0
  obtain h t where ht: "fl k = h # t" using 0 by (cases "fl k") auto
  have "sorted_wrt (<) (h # t)" using goodD(1) [OF 0(1)] 0(3) ht by (metis add_0_right)
  then have "insort h t = h # t" by (cases t) auto
  then have eq: "a_add (alloc_lists fl k 0) k h = fl"
    by (auto simp: a_add_def alloc_lists_def ht fun_eq_iff)
  have "\<not> (Suc k < MAX_ORDER \<and> bud h k \<in> set (fl k))"
    using 0(2) ht by (auto simp: coalesced_def)
  then have "a_merge_up fl h k = fl" by (subst a_merge_up.simps) (rule if_not_P)
  with eq ht show ?case by simp
next
  case (Suc d)
  let ?h = "hd (fl (k + Suc d))" and ?fl = "a_add (alloc_lists fl k (Suc d)) k (hd (fl (k + Suc d)))"
  have "block_ok n (k + Suc d) ?h" using goodD(3) [OF Suc.prems(1,3)] Suc.prems(4) by simp
  then have "2 ^ (k + Suc d) dvd ?h" by (simp add: block_ok_def)
  then have al: "2 ^ Suc k dvd ?h" by (rule dvd_trans [rotated]) (simp add: le_imp_power_dvd)
  then have b: "bud ?h k = ?h + 2 ^ k" by (simp add: bud_def)
  have lk: "?fl k = [?h, ?h + 2 ^ k]" by (simp add: a_add_def alloc_lists_def)
  have lk': "alloc_lists fl k (Suc d) k = [?h + 2 ^ k]" by (simp add: alloc_lists_def)
  have step: "a_merge ?fl k ?h = a_add (alloc_lists fl (Suc k) d) (Suc k) (hd (fl (Suc k + d)))"
  proof
    fix j
    have fk: "fl k = []" using Suc.prems(5) by simp
    show "a_merge ?fl k ?h j = a_add (alloc_lists fl (Suc k) d) (Suc k) (hd (fl (Suc k + d))) j"
      using fk lk b
      by (simp add: a_merge_def a_add_def a_del_def alloc_lists_def min_def)
  qed
  have "a_merge_up ?fl ?h k = a_merge_up (a_merge ?fl k ?h) (min ?h (bud ?h k)) (Suc k)"
    using Suc.prems(3) lk b by (subst a_merge_up.simps) simp
  also have "\<dots> = a_merge_up (a_add (alloc_lists fl (Suc k) d) (Suc k) (hd (fl (Suc k + d)))) (hd (fl (Suc k + d))) (Suc k)"
    using step b by simp
  also have "\<dots> = fl" using Suc.prems by (intro Suc.IH) auto
  finally show ?case .
qed

end
