(* ===== verification/Buddy_Reserve.thy ===== *)
theory Buddy_Reserve imports Buddy_Alloc begin

text \<open>
  Reservation of a single page and initialisation of the buddy allocator on the free lists, with
  the proofs that \<open>reserve_page\<close> and \<open>init\<close> implement them.
\<close>

section \<open>Reservation\<close>

definition a_res_split :: "free_lists \<Rightarrow> nat \<Rightarrow> nat \<Rightarrow> free_lists" where
  "a_res_split fl pgd k =
     (case find (\<lambda>q. pgd \<in> blk (Suc k) q) (fl (Suc k)) of None \<Rightarrow> fl | Some q \<Rightarrow> a_split fl k q)"

fun a_res_loop :: "free_lists \<Rightarrow> nat \<Rightarrow> nat \<Rightarrow> free_lists" where
  "a_res_loop fl pgd 0 = fl"
| "a_res_loop fl pgd (Suc n) = a_res_loop (a_res_split fl pgd n) pgd n"

lemma find_mem: "find P xs = Some x \<Longrightarrow> x \<in> set xs \<and> P x"
  by (auto simp: find_Some_iff)

lemma find_append_first: "\<forall>x \<in> set xs. \<not> P x \<Longrightarrow> find P (xs @ ys) = find P ys"
  by (induction xs) auto

lemma reserve_split_sim:
  assumes s: "sim m fl" and k: "Suc k < MAX_ORDER"
  shows "\<exists>m'. reserve_split m pgd (Suc k) = Inr m' \<and> sim m' (a_res_split fl pgd k) \<and> same_env m m'"
proof -
  define P where "P = (\<lambda>q. pgd \<in> blk (Suc k) q)"
  define go where "go = (\<lambda>q. pgd \<ge> q \<and> \<not> (q \<le> pgd \<and> q + pages_per_block (Suc k) > pgd))"
  define xs where "xs = takeWhile go (fl (Suc k))"
  define ys where "ys = dropWhile go (fl (Suc k))"
  define sl where "sl = end_slot (Head (Suc k)) xs"
  have fl: "fl (Suc k) = xs @ ys" by (simp add: xs_def ys_def)
  have goP: "go q \<longleftrightarrow> pgd \<ge> q \<and> \<not> P q" for q by (auto simp: go_def P_def mem_blk)
  have xsg: "\<forall>x \<in> set xs. go x" by (auto simp: xs_def dest: set_takeWhileD)
  have ysg: "ys = [] \<or> \<not> go (hd ys)" using hd_dropWhile [of go "fl (Suc k)"] by (auto simp: ys_def)
  have ch: "chain m (deref m (Head (Suc k))) (xs @ ys)" using sim_chain [OF s k] fl by simp
  have w: "walk m go (Head (Suc k)) = Some sl" "chain m (deref m sl) ys"
    using walk_chain [OF ch xsg ysg] by (simp_all add: sl_def)
  have rs: "reserve_split m pgd (Suc k) =
      (case deref m sl of None \<Rightarrow> Inr m
       | Some q \<Rightarrow> if pgd \<ge> q then res_bind (split_block m sl (Suc k)) (\<lambda>(_, m1). Inr m1) else Inr m)"
    using w(1) by (simp add: reserve_split_def go_def)
  have fd: "find P (fl (Suc k)) = find P ys" unfolding fl using xsg goP by (intro find_append_first) auto
  show ?thesis
  proof (cases "ys \<noteq> [] \<and> P (hd ys)")
    case True
    then obtain q zs where q: "ys = q # zs" "P q" by (cases ys) auto
    then have d: "deref m sl = Some q" "pgd \<ge> q" "q \<in> set (fl (Suc k))"
      using w(2) fl by (auto simp: P_def mem_blk)
    from split_block_sim [OF s k d(3) d(1)] obtain m' where
      "split_block m sl (Suc k) = Inr (deref m' sl, m')" "sim m' (a_split fl k q)" "same_env m m'" by blast
    moreover have "find P (fl (Suc k)) = Some q" using fd q by simp
    ultimately show ?thesis using d unfolding rs by (simp add: a_res_split_def P_def)
  next
    case False
    have n: "\<forall>y \<in> set ys. \<not> P y"
    proof (cases ys)
      case (Cons q zs)
      then have "pgd < q" using False ysg goP by auto
      moreover have "sorted_wrt (<) (q # zs)"
        using goodD(1) [OF sim_good [OF s] k] fl Cons by (simp add: sorted_wrt_append)
      ultimately have "\<forall>y \<in> set (q # zs). pgd < y" by auto
      then show ?thesis using Cons by (auto simp: P_def mem_blk)
    qed simp
    then have "find P (fl (Suc k)) = None" using fd by (simp add: find_None_iff)
    then have fin: "a_res_split fl pgd k = fl" by (simp add: a_res_split_def P_def)
    have "reserve_split m pgd (Suc k) = Inr m"
    proof (cases ys)
      case Nil
      then show ?thesis using w(2) rs by simp
    next
      case (Cons q zs)
      then have "\<not> pgd \<ge> q" using n ysg goP by auto
      with Cons w(2) rs show ?thesis by simp
    qed
    with fin s show ?thesis by simp
  qed
qed

lemma a_res_split_good:
  assumes g: "good n fl" and k: "Suc k < MAX_ORDER"
  shows "good n (a_res_split fl pgd k)" and "fpages (a_res_split fl pgd k) = fpages fl"
proof -
  consider "a_res_split fl pgd k = fl"
    | q where "a_res_split fl pgd k = a_split fl k q" "q \<in> set (fl (Suc k))"
    using find_mem [of "\<lambda>q. pgd \<in> blk (Suc k) q" "fl (Suc k)"]
    by (cases "find (\<lambda>q. pgd \<in> blk (Suc k) q) (fl (Suc k))") (auto simp: a_res_split_def)
  then show "good n (a_res_split fl pgd k)" and "fpages (a_res_split fl pgd k) = fpages fl"
    using g split_steps(7,8) [OF g k] by (cases; simp)+
qed

lemma reserve_loop_sim:
  "sim m fl \<Longrightarrow> n < MAX_ORDER \<Longrightarrow>
     \<exists>m'. reserve_loop m pgd n = Inr m' \<and> sim m' (a_res_loop fl pgd n) \<and> same_env m m' \<and>
          fpages (a_res_loop fl pgd n) = fpages fl"
proof (induction n arbitrary: m fl)
  case 0
  then show ?case by simp
next
  case (Suc n)
  from reserve_split_sim [OF Suc.prems] obtain m1 where
    m1: "reserve_split m pgd (Suc n) = Inr m1" "sim m1 (a_res_split fl pgd n)" "same_env m m1" by blast
  from Suc.IH [OF m1(2)] Suc.prems(2) obtain m' where
    "reserve_loop m1 pgd n = Inr m'" "sim m' (a_res_loop (a_res_split fl pgd n) pgd n)" "same_env m1 m'"
    "fpages (a_res_loop (a_res_split fl pgd n) pgd n) = fpages (a_res_split fl pgd n)" by auto
  then show ?case
    using m1 same_env_trans [OF m1(3)] a_res_split_good(2) [OF sim_good [OF Suc.prems(1)] Suc.prems(2)] by auto
qed

text \<open>No block of an order above \<open>n\<close> contains the page.\<close>

definition above_clear :: "free_lists \<Rightarrow> nat \<Rightarrow> nat \<Rightarrow> bool" where
  "above_clear fl pgd n \<longleftrightarrow> (\<forall>j. n < j \<and> j < MAX_ORDER \<longrightarrow> (\<forall>q \<in> set (fl j). pgd \<notin> blk j q))"

text \<open>The free pairs of buddies that are left are of order \<open>n\<close> and contain the page.\<close>

definition pairs_at :: "free_lists \<Rightarrow> nat \<Rightarrow> nat \<Rightarrow> bool" where
  "pairs_at fl pgd n \<longleftrightarrow> (\<forall>j. Suc j < MAX_ORDER \<longrightarrow>
     (\<forall>q \<in> set (fl j). bud q j \<in> set (fl j) \<longrightarrow> j = n \<and> pgd \<in> blk j q \<union> blk j (bud q j)))"

lemma good_contains_unique:
  assumes "good n fl" "j < MAX_ORDER" "q \<in> set (fl j)" "q' \<in> set (fl j)" "x \<in> blk j q" "x \<in> blk j q'"
  shows "q = q'"
  using good_disjoint [OF assms(1,2,2,3,4)] assms(5,6) by blast

lemma set_a_split:
  assumes "good n fl" and "Suc k < MAX_ORDER"
  shows "set (a_split fl k q j) =
    (if j = Suc k then set (fl j) - {q} else if j = k then insert q (insert (q + 2 ^ k) (set (fl j))) else set (fl j))"
  by (auto simp: a_split_def set_a_del [OF assms])

lemma a_res_split_above:
  assumes g: "good nr fl" and k: "Suc n < MAX_ORDER" and a: "above_clear fl pgd (Suc n)"
  shows "above_clear (a_res_split fl pgd n) pgd n"
proof (cases "find (\<lambda>q. pgd \<in> blk (Suc n) q) (fl (Suc n))")
  case None
  then have "\<forall>q \<in> set (fl (Suc n)). pgd \<notin> blk (Suc n) q" by (auto simp: find_None_iff)
  with a None show ?thesis
    unfolding above_clear_def a_res_split_def by simp (metis Suc_lessI)
next
  case (Some q)
  then have q: "q \<in> set (fl (Suc n))" "pgd \<in> blk (Suc n) q" using find_mem [OF Some] by simp_all
  have "pgd \<notin> blk j x" if j: "n < j" "j < MAX_ORDER" "x \<in> set (a_split fl n q j)" for j x
  proof (cases "j = Suc n")
    case True
    then have "x \<in> set (fl (Suc n))" "x \<noteq> q" using j(3) by (auto simp: set_a_split [OF g k])
    then show ?thesis using good_contains_unique [OF g k _ q(1) _ q(2)] True by blast
  next
    case False
    then have "x \<in> set (fl j)" using j by (auto simp: set_a_split [OF g k])
    with a j False show ?thesis by (simp add: above_clear_def)
  qed
  with Some show ?thesis by (auto simp: above_clear_def a_res_split_def)
qed

lemma a_res_split_pairs:
  assumes g: "good nr fl" and k: "Suc n < MAX_ORDER" and c: "pairs_at fl pgd (Suc n)"
  shows "pairs_at (a_res_split fl pgd n) pgd n"
proof (cases "find (\<lambda>q. pgd \<in> blk (Suc n) q) (fl (Suc n))")
  case None
  then have "\<forall>q \<in> set (fl (Suc n)). pgd \<notin> blk (Suc n) q" by (auto simp: find_None_iff)
  with c None show ?thesis unfolding pairs_at_def a_res_split_def by simp blast
next
  case (Some q)
  then have q: "q \<in> set (fl (Suc n))" "pgd \<in> blk (Suc n) q" using find_mem [OF Some] by simp_all
  have "block_ok nr (Suc n) q" by (rule goodD(3) [OF g k q(1)])
  then have al: "2 ^ Suc n dvd q" by (simp add: block_ok_def)
  then have bq: "bud q n = q + 2 ^ n" by (simp add: bud_def)
  have bq': "bud (q + 2 ^ n) n = q" using bud_bud [OF dvd_Suc_pow [OF al]] bq by simp
  have "j = n \<and> pgd \<in> blk j x \<union> blk j (bud x j)"
    if j: "Suc j < MAX_ORDER" and x: "x \<in> set (a_split fl n q j)" "bud x j \<in> set (a_split fl n q j)" for j x
  proof -
    have old: "j = Suc n \<and> pgd \<in> blk j x \<union> blk j (bud x j)" if "x \<in> set (fl j)" "bud x j \<in> set (fl j)"
      using c j that unfolding pairs_at_def by blast
    consider "j = Suc n" | "j = n" | "j \<noteq> n" "j \<noteq> Suc n" by blast
    then show ?thesis
    proof cases
      case 1
      then have m: "x \<in> set (fl j)" "bud x j \<in> set (fl j)" "x \<noteq> q" "bud x j \<noteq> q"
        using x by (auto simp: set_a_split [OF g k])
      with old have "pgd \<in> blk j x \<or> pgd \<in> blk j (bud x j)" by blast
      then show ?thesis using good_contains_unique [OF g k _ q(1) _ q(2)] m 1 by blast
    next
      case 2
      have un: "blk n q \<union> blk n (q + 2 ^ n) = blk (Suc n) q" using blk_halves(1) by simp
      have al2: "2 ^ n dvd x" if "x \<in> set (fl n)" for x
        using goodD(3) [OF g _ that] k by (simp add: block_ok_def)
      consider "x = q" | "x = q + 2 ^ n" | "x \<in> set (fl n)" "bud x n = q" | "x \<in> set (fl n)" "bud x n = q + 2 ^ n"
        | "x \<in> set (fl n)" "bud x n \<in> set (fl n)"
        using x 2 by (auto simp: set_a_split [OF g k])
      then show ?thesis
      proof cases
        case 1 then show ?thesis using bq un q(2) 2 by simp
      next
        case c2: 2 then show ?thesis using bq' un q(2) 2 by auto
      next
        case 3
        then have "x = q + 2 ^ n" using bud_bud [OF al2] bq by metis
        then show ?thesis using bq' un q(2) 2 by auto
      next
        case 4
        then have "x = q" using bud_bud [OF al2] bq' by metis
        then show ?thesis using bq un q(2) 2 by simp
      next
        case 5
        then show ?thesis using old 2 by simp
      qed
    next
      case 3
      then have "x \<in> set (fl j)" "bud x j \<in> set (fl j)" using x by (auto simp: set_a_split [OF g k])
      with old 3 show ?thesis by blast
    qed
  qed
  with Some show ?thesis by (auto simp: pairs_at_def a_res_split_def)
qed

lemma a_res_loop_inv:
  "good nr fl \<Longrightarrow> n < MAX_ORDER \<Longrightarrow> above_clear fl pgd n \<Longrightarrow>
     above_clear (a_res_loop fl pgd n) pgd 0 \<and>
     (pairs_at fl pgd n \<longrightarrow> pairs_at (a_res_loop fl pgd n) pgd 0)"
proof (induction n arbitrary: fl)
  case (Suc n)
  then show ?case
    using a_res_split_good(1) [OF Suc.prems(1,2)] a_res_split_above [OF Suc.prems]
      a_res_split_pairs [OF Suc.prems(1,2)] by simp
qed simp

definition a_reserve :: "free_lists \<Rightarrow> nat \<Rightarrow> free_lists" where
  "a_reserve fl pgd = a_del (a_res_loop fl pgd (MAX_ORDER - 1)) 0 pgd"

lemma above_clear_0:
  assumes "above_clear fl pgd 0"
  shows "pgd \<in> fpages fl \<longleftrightarrow> pgd \<in> set (fl 0)"
proof
  assume "pgd \<in> fpages fl"
  then obtain j q where j: "j < MAX_ORDER" "q \<in> set (fl j)" "pgd \<in> blk j q" unfolding mem_fpages by blast
  then have "j = 0" using assms by (auto simp: above_clear_def)
  with j have "q = pgd" "q \<in> set (fl 0)" by (simp_all add: mem_blk)
  then show "pgd \<in> set (fl 0)" by blast
next
  assume "pgd \<in> set (fl 0)"
  then show "pgd \<in> fpages fl" using fpagesI [of 0 pgd fl] by (auto simp: MAX_ORDER_def mem_blk)
qed

lemma above_clear_top: "above_clear fl pgd (MAX_ORDER - 1)"
  by (auto simp: above_clear_def)

lemma walk_neq: "(\<lambda>q. pgd \<noteq> q) = (\<lambda>q. Some pgd \<noteq> Some q)"
  by simp

lemma reserve_sim:
  assumes s: "sim m fl"
  shows "\<exists>m'. buddy_reserve_page m pgd = Inr (pgd \<in> fpages fl, m') \<and> same_env m m' \<and>
           sim m' (a_reserve fl pgd) \<and> fpages (a_reserve fl pgd) = fpages fl - {pgd}"
proof -
  let ?n = "MAX_ORDER - 1" and ?fl = "a_res_loop fl pgd (MAX_ORDER - 1)"
  have n: "?n < MAX_ORDER" "0 < MAX_ORDER" by (simp_all add: MAX_ORDER_def)
  from reserve_loop_sim [OF s n(1)] obtain m1 where
    m1: "reserve_loop m pgd ?n = Inr m1" "sim m1 ?fl" "same_env m m1" "fpages ?fl = fpages fl" by blast
  have "above_clear ?fl pgd 0"
    using a_res_loop_inv [OF sim_good [OF s] n(1) above_clear_top] by blast
  then have "pgd \<in> fpages ?fl \<longleftrightarrow> pgd \<in> set (?fl 0)" by (rule above_clear_0)
  then have mem: "pgd \<in> fpages fl \<longleftrightarrow> pgd \<in> set (?fl 0)" unfolding m1(4) .
  from search_buddy [OF m1(2) n(2), of "Some pgd"] obtain sl where
    w: "walk m1 (\<lambda>q. pgd \<noteq> q) (Head 0) = Some sl"
      "deref m1 sl = (if pgd \<in> set (?fl 0) then Some pgd else None)" by auto
  show ?thesis
  proof (cases "pgd \<in> fpages fl")
    case True
    then have p: "pgd \<in> set (?fl 0)" using mem by simp
    from remove_block_sim [OF m1(2) n(2) p] obtain m2 where
      m2: "remove_block m1 (Some pgd) 0 = Inr m2" "sim m2 (a_reserve fl pgd)" "same_env m1 m2"
      unfolding a_reserve_def by blast
    have "fpages (a_reserve fl pgd) = fpages fl - {pgd}"
      using fpages_del [OF sim_good [OF m1(2)] n(2) p] m1(4) by (simp add: a_reserve_def blk_def)
    then show ?thesis
      using m1 m2 w p True same_env_trans [OF m1(3) m2(3)] by (simp add: buddy_reserve_page_def)
  next
    case False
    then have p: "pgd \<notin> set (?fl 0)" using mem by simp
    then have "a_reserve fl pgd = ?fl" by (simp add: a_reserve_def a_del_def remove1_idem)
    then show ?thesis using m1 w p False by (simp add: buddy_reserve_page_def)
  qed
qed

lemma reserve_coalesced:
  assumes g: "good n fl" and c: "coalesced fl"
  shows "coalesced (a_reserve fl pgd)"
proof -
  let ?n = "MAX_ORDER - 1" and ?fl = "a_res_loop fl pgd (MAX_ORDER - 1)"
  have n: "?n < MAX_ORDER" "0 < MAX_ORDER" by (simp_all add: MAX_ORDER_def)
  have "pairs_at fl pgd ?n" using c by (simp add: coalesced_def pairs_at_def)
  then have pa: "pairs_at ?fl pgd 0"
    using a_res_loop_inv [OF g n(1) above_clear_top] by blast
  have mem: "set (a_reserve fl pgd j) \<subseteq> set (?fl j)" for j
    using set_remove1_subset [of pgd "?fl 0"] by (auto simp: a_reserve_def a_del_def)
  have gl: "m < MAX_ORDER \<Longrightarrow> good n f \<Longrightarrow> good n (a_res_loop f pgd m)" for f m
    by (induction m arbitrary: f) (auto simp: a_res_split_good(1))
  have "pgd \<notin> set (a_reserve fl pgd 0)"
    using goodD(2) [OF gl [OF n(1) g] n(2)] by (simp add: a_reserve_def a_del_def)
  moreover have "j = 0 \<and> (pgd = q \<or> pgd = bud q 0)"
    if "Suc j < MAX_ORDER" "q \<in> set (a_reserve fl pgd j)" "bud q j \<in> set (a_reserve fl pgd j)" for j q
    using that pa mem [of j] unfolding pairs_at_def by (fastforce simp: mem_blk)
  ultimately show ?thesis unfolding coalesced_def by metis
qed

section \<open>Initialisation\<close>

lemma sim_new: "sim (buddy_new m) (\<lambda>_. [])"
  by (auto simp: sim_def buddy_new_def good_def)

lemma fpages_empty [simp]: "fpages (\<lambda>_. []) = {}"
  by (simp add: fpages_def)

lemma init_fill_sim:
  "sim m fl \<Longrightarrow> k < MAX_ORDER \<Longrightarrow> nr = nr_pages m \<Longrightarrow> fpages fl = {0..<off} \<Longrightarrow> 2 ^ k dvd off \<Longrightarrow> off \<le> nr \<Longrightarrow>
     \<exists>off' m' fl'. init_fill m k off nr = Inr (off', m') \<and> sim m' fl' \<and> same_env m m' \<and>
        fpages fl' = {0..<off'} \<and> 2 ^ k dvd off' \<and> off \<le> off' \<and> off' \<le> nr \<and> nr < off' + 2 ^ k \<and>
        (\<forall>j. j \<noteq> k \<longrightarrow> fl' j = fl j) \<and> (\<forall>p \<in> set (fl' k). p \<in> set (fl k) \<or> off \<le> p)"
proof (induction m k off nr arbitrary: fl rule: init_fill.induct)
  case (1 m k off nr)
  note p = "1.prems"
  show ?case
  proof (cases "off + 2 ^ k \<le> nr")
    case False
    then have "init_fill m k off nr = Inr (off, m)" by (subst init_fill.simps) simp
    then show ?thesis
      using p False
      by (intro exI [of _ off] exI [of _ m] exI [of _ fl]) auto
  next
    case True
    have ok: "block_ok (nr_pages m) k off" using p True by (simp add: block_ok_def)
    have dis: "blk k off \<inter> fpages fl = {}" unfolding p(4) by (simp add: disjoint_iff mem_blk)
    from insert_block_sim [OF p(1,2) ok dis] obtain sl m1 where
      m1: "insert_block m off k = Inr (sl, m1)" "sim m1 (a_add fl k off)" "same_env m m1" by blast
    have fp: "fpages (a_add fl k off) = {0..<off + 2 ^ k}"
      unfolding fpages_add [OF p(2)] p(4) blk_def by (rule ivl_disj_un_two(3)) simp_all
    have "\<exists>off' m' fl'. init_fill m1 k (off + pages_per_block k) nr = Inr (off', m') \<and> sim m' fl' \<and>
        same_env m1 m' \<and> fpages fl' = {0..<off'} \<and> 2 ^ k dvd off' \<and> off + pages_per_block k \<le> off' \<and>
        off' \<le> nr \<and> nr < off' + 2 ^ k \<and> (\<forall>j. j \<noteq> k \<longrightarrow> fl' j = a_add fl k off j) \<and>
        (\<forall>p \<in> set (fl' k). p \<in> set (a_add fl k off k) \<or> off + pages_per_block k \<le> p)"
      using p True m1 fp same_env_nr [OF m1(3)] by (intro "1.IH") auto
    then obtain off' m' fl' where
      r: "init_fill m1 k (off + 2 ^ k) nr = Inr (off', m')" "sim m' fl'" "same_env m1 m'"
        "fpages fl' = {0..<off'}" "2 ^ k dvd off'" "off + 2 ^ k \<le> off'" "off' \<le> nr" "nr < off' + 2 ^ k"
        "\<forall>j. j \<noteq> k \<longrightarrow> fl' j = a_add fl k off j"
        "\<forall>p \<in> set (fl' k). p \<in> set (a_add fl k off k) \<or> off + 2 ^ k \<le> p" by auto
    have "init_fill m k off nr = Inr (off', m')"
      using True p(5) m1(1) r(1) by (subst init_fill.simps) simp
    moreover have "\<forall>p \<in> set (fl' k). p \<in> set (fl k) \<or> off \<le> p" using r(10) by auto
    moreover have "\<forall>j. j \<noteq> k \<longrightarrow> fl' j = fl j" using r(9) by simp
    moreover have "off \<le> off'" using r(6) by simp
    ultimately show ?thesis using r same_env_trans [OF m1(3) r(3)] by blast
  qed
qed

definition init_inv :: "nat \<Rightarrow> nat \<Rightarrow> free_lists \<Rightarrow> nat \<Rightarrow> bool" where
  "init_inv n nr fl off \<longleftrightarrow> fpages fl = {0..<off} \<and> off \<le> nr \<and>
     (if n < MAX_ORDER then nr < off + 2 ^ n else True) \<and> 2 ^ n dvd off \<and> (\<forall>j < n. fl j = []) \<and>
     (\<forall>j. n \<le> j \<and> Suc j < MAX_ORDER \<longrightarrow> (\<forall>p \<in> set (fl j). bud p j \<notin> set (fl j)))"

lemma init_fill_inv:
  assumes s: "sim m fl" and k: "k < MAX_ORDER" and nr: "nr = nr_pages m" and i: "init_inv (Suc k) nr fl off"
  shows "\<exists>off' m' fl'. init_fill m k off nr = Inr (off', m') \<and> sim m' fl' \<and> same_env m m' \<and>
           init_inv k nr fl' off'"
proof -
  have i': "fpages fl = {0..<off}" "off \<le> nr" "2 ^ Suc k dvd off" "\<forall>j < Suc k. fl j = []"
    "\<And>j p. Suc k \<le> j \<Longrightarrow> Suc j < MAX_ORDER \<Longrightarrow> p \<in> set (fl j) \<Longrightarrow> bud p j \<notin> set (fl j)"
    "Suc k < MAX_ORDER \<Longrightarrow> nr < off + 2 ^ Suc k"
    using i by (auto simp: init_inv_def)
  from init_fill_sim [OF s k nr i'(1) dvd_Suc_pow [OF i'(3)] i'(2)] obtain off' m' fl' where
    r: "init_fill m k off nr = Inr (off', m')" "sim m' fl'" "same_env m m'" "fpages fl' = {0..<off'}"
      "2 ^ k dvd off'" "off' \<le> nr" "nr < off' + 2 ^ k" "\<forall>j. j \<noteq> k \<longrightarrow> fl' j = fl j"
      "\<forall>p \<in> set (fl' k). p \<in> set (fl k) \<or> off \<le> p" by blast
  have ge: "off \<le> p" "block_ok nr k p" if "p \<in> set (fl' k)" for p
    using that r(9) i'(4) goodD(3) [OF sim_good [OF r(2)] k that] same_env_nr [OF r(3)] nr by auto
  have "bud p j \<notin> set (fl' j)" if j: "k \<le> j" "Suc j < MAX_ORDER" "p \<in> set (fl' j)" for j p
  proof (cases "j = k")
    case True
    show ?thesis
    proof
      assume b: "bud p j \<in> set (fl' j)"
      have "block_ok nr (Suc k) (min p (bud p k))"
        using ge(2) j(3) b True by (intro block_ok_merge) auto
      then have "min p (bud p k) + 2 ^ Suc k \<le> nr" by (simp add: block_ok_def)
      moreover have "off \<le> min p (bud p k)" using ge(1) j(3) b True by simp
      ultimately show False using i'(6) j(2) True by linarith
    qed
  next
    case False
    then have "Suc k \<le> j" "fl' j = fl j" using j(1) r(8) by auto
    with i'(5) j show ?thesis by simp
  qed
  moreover have "\<forall>j < k. fl' j = []" using r(8) i'(4) by simp
  ultimately have "init_inv k nr fl' off'" using r by (auto simp: init_inv_def)
  with r show ?thesis by blast
qed

lemma init_orders_sim:
  "sim m fl \<Longrightarrow> n \<le> MAX_ORDER \<Longrightarrow> nr = nr_pages m \<Longrightarrow> init_inv n nr fl off \<Longrightarrow>
     \<exists>m' fl'. init_orders m n off nr = Inr (nr, m') \<and> sim m' fl' \<and> same_env m m' \<and>
        fpages fl' = {0..<nr} \<and> coalesced fl'"
proof (induction n arbitrary: m fl off)
  case 0
  then have "off = nr" by (auto simp: init_inv_def MAX_ORDER_def)
  with 0 show ?case by (auto simp: init_inv_def coalesced_def)
next
  case (Suc k)
  then have k: "k < MAX_ORDER" by simp
  from init_fill_inv [OF Suc.prems(1) k Suc.prems(3,4)] obtain off' m1 fl1 where
    r: "init_fill m k off nr = Inr (off', m1)" "sim m1 fl1" "same_env m m1" "init_inv k nr fl1 off'" by blast
  show ?case
  proof (cases "off' = nr")
    case True
    have "bud p j \<notin> set (fl1 j)" if "Suc j < MAX_ORDER" "p \<in> set (fl1 j)" for j p
      using r(4) that unfolding init_inv_def by (metis empty_iff empty_set not_less)
    then have "coalesced fl1" by (simp add: coalesced_def)
    with r True show ?thesis by (auto simp: init_inv_def)
  next
    case False
    have "\<exists>m' fl'. init_orders m1 k off' nr = Inr (nr, m') \<and> sim m' fl' \<and> same_env m1 m' \<and>
        fpages fl' = {0..<nr} \<and> coalesced fl'"
      using Suc.prems r k same_env_nr [OF r(3)] by (intro Suc.IH) auto
    with r False same_env_trans [OF r(3)] show ?thesis by auto
  qed
qed

lemma init_sim:
  assumes "nr = nr_pages m"
  shows "\<exists>m' fl'. buddy_init (buddy_new m) nr = Inr (True, m') \<and> sim m' fl' \<and>
           same_env (buddy_new m) m' \<and> fpages fl' = {0..<nr} \<and> coalesced fl'"
proof -
  have "init_inv MAX_ORDER nr (\<lambda>_. []) 0" by (auto simp: init_inv_def)
  moreover have "nr = nr_pages (buddy_new m)" using assms by (simp add: buddy_new_def)
  ultimately show ?thesis
    using init_orders_sim [OF sim_new order_refl, of nr m 0] by (auto simp: buddy_init_def)
qed

end
