(* ===== verification/Buddy.thy ===== *)
theory Buddy imports Buddy_Reserve begin

text \<open>
  What the buddy allocator promises, stated on its memory. \<open>lists_of\<close> reads the free lists off the
  pointers, \<open>buddy_inv\<close> is the invariant of the structure, \<open>free_set\<close> the set of the page frames it
  may hand out. The last part is the allocator as a transition system: the blocks handed out are
  kept beside the memory, and in every state reached from initialisation they and the free blocks
  partition the pages.
\<close>

section \<open>Reading the free lists\<close>

fun chain_list :: "pmem \<Rightarrow> nat option \<Rightarrow> nat \<Rightarrow> nat list" where
  "chain_list m None fuel = []"
| "chain_list m (Some p) 0 = []"
| "chain_list m (Some p) (Suc fuel) = p # chain_list m (next_free (descs m p)) fuel"

definition lists_of :: "pmem \<Rightarrow> free_lists" where
  "lists_of m = (\<lambda>k. if k < MAX_ORDER then chain_list m (free_areas m k) (nr_pages m) else [])"

definition buddy_inv :: "pmem \<Rightarrow> bool" where
  "buddy_inv m \<longleftrightarrow> sim m (lists_of m)"

definition free_set :: "pmem \<Rightarrow> nat set" where
  "free_set m = fpages (lists_of m)"

lemma chain_list_eq: "chain m h xs \<Longrightarrow> length xs \<le> f \<Longrightarrow> chain_list m h f = xs"
proof (induction xs arbitrary: h f)
  case (Cons x xs)
  then show ?case by (cases f) auto
qed simp

lemma fpages_cong: "(\<And>k. k < MAX_ORDER \<Longrightarrow> fl k = fl' k) \<Longrightarrow> fpages fl = fpages fl'"
  by (auto simp: fpages_def)

lemma coalesced_cong: "(\<And>k. k < MAX_ORDER \<Longrightarrow> fl k = fl' k) \<Longrightarrow> coalesced fl = coalesced fl'"
  by (auto simp: coalesced_def)

lemma good_cong: "(\<And>k. k < MAX_ORDER \<Longrightarrow> fl k = fl' k) \<Longrightarrow> good n fl = good n fl'"
  by (simp add: good_def)

lemma sim_lists_of:
  assumes s: "sim m fl"
  shows "k < MAX_ORDER \<Longrightarrow> lists_of m k = fl k" and "buddy_inv m" and "free_set m = fpages fl"
    and "coalesced (lists_of m) = coalesced fl"
proof -
  show eq: "lists_of m k = fl k" if k: "k < MAX_ORDER" for k
  proof -
    have "length (fl k) \<le> nr_pages m"
      using goodD [OF sim_good [OF s] k] block_pos by (intro sorted_wrt_less_length) blast+
    then show ?thesis using chain_list_eq [OF sim_chain [OF s k]] k by (simp add: lists_of_def)
  qed
  then show "free_set m = fpages fl" "coalesced (lists_of m) = coalesced fl"
    using fpages_cong [OF eq] coalesced_cong [OF eq] by (simp_all add: free_set_def)
  have "good (nr_pages m) (lists_of m)" using good_cong [of "lists_of m" fl "nr_pages m", OF eq] sim_good [OF s] by blast
  then show "buddy_inv m" using s eq by (simp add: buddy_inv_def sim_def)
qed

lemma inv_sim: "buddy_inv m \<Longrightarrow> sim m (lists_of m)"
  by (simp add: buddy_inv_def)

section \<open>The operations on the memory\<close>

lemma init_props:
  "\<exists>m'. buddy_init (buddy_new m) (nr_pages m) = Inr (True, m') \<and> buddy_inv m' \<and>
     free_set m' = {0..<nr_pages m} \<and> coalesced (lists_of m') \<and> nr_pages m' = nr_pages m \<and>
     same_env m m'"
  using init_sim [OF refl, of m] sim_lists_of same_env_nr by (fastforce simp: buddy_new_def same_env_def)

lemma alloc_props:
  assumes inv: "buddy_inv m"
  shows "\<exists>r m'. buddy_alloc_pages m k = Inr (r, m') \<and> buddy_inv m' \<and> same_env m m' \<and>
     (coalesced (lists_of m) \<longrightarrow> coalesced (lists_of m')) \<and>
     (case r of
        None \<Rightarrow> m' = m \<and> (\<forall>j. k \<le> j \<and> j < MAX_ORDER \<longrightarrow> lists_of m j = [])
      | Some p \<Rightarrow> k < MAX_ORDER \<and> block_ok (nr_pages m) k p \<and> blk k p \<subseteq> free_set m \<and>
                  free_set m' = free_set m - blk k p)"
proof (cases "k < MAX_ORDER")
  case False
  then have "\<forall>j. k \<le> j \<and> j < MAX_ORDER \<longrightarrow> lists_of m j = []" by auto
  with False show ?thesis using inv by (simp add: buddy_alloc_pages_def)
next
  case k: True
  note s = inv_sim [OF inv]
  show ?thesis
  proof (cases rule: alloc_cases [OF k, of "lists_of m"])
    case 1
    then show ?thesis using alloc_none [OF s, of k] inv by auto
  next
    case (2 d)
    from alloc_some [OF s 2] obtain m' where
      "buddy_alloc_pages m k = Inr (Some (hd (lists_of m (k + d))), m')"
      "sim m' (alloc_lists (lists_of m) k d)" "same_env m m'"
      "fpages (alloc_lists (lists_of m) k d) = free_set m - blk k (hd (lists_of m (k + d)))"
      "blk k (hd (lists_of m (k + d))) \<subseteq> free_set m" "block_ok (nr_pages m) k (hd (lists_of m (k + d)))"
      unfolding free_set_def by blast
    then show ?thesis
      using sim_lists_of(2-4) [of m' "alloc_lists (lists_of m) k d"] k
        alloc_coalesced [OF _ sim_good [OF s] 2(1,2)] by auto
  qed
qed

lemma alloc_None:
  assumes "buddy_inv m" and "buddy_alloc_pages m k = Inr (None, m')"
  shows "m' = m" and "k \<le> j \<Longrightarrow> j < MAX_ORDER \<Longrightarrow> lists_of m j = []"
proof -
  from alloc_props [OF assms(1), of k] obtain r m1 where
    r: "buddy_alloc_pages m k = Inr (r, m1)"
      "case r of None \<Rightarrow> m1 = m \<and> (\<forall>j. k \<le> j \<and> j < MAX_ORDER \<longrightarrow> lists_of m j = [])
       | Some p \<Rightarrow> k < MAX_ORDER \<and> block_ok (nr_pages m) k p \<and> blk k p \<subseteq> free_set m \<and>
                   free_set m1 = free_set m - blk k p" by blast
  with assms(2) have "r = None" "m1 = m'" by simp_all
  with r(2) show "m' = m" "k \<le> j \<Longrightarrow> j < MAX_ORDER \<Longrightarrow> lists_of m j = []" by simp_all
qed

lemma free_props:
  assumes inv: "buddy_inv m" and k: "k < MAX_ORDER" and ok: "block_ok (nr_pages m) k p"
    and dis: "blk k p \<inter> free_set m = {}"
  shows "\<exists>m'. buddy_free_pages m p k = Inr m' \<and> buddy_inv m' \<and> same_env m m' \<and>
     free_set m' = free_set m \<union> blk k p \<and> (coalesced (lists_of m) \<longrightarrow> coalesced (lists_of m'))"
proof -
  note s = inv_sim [OF inv]
  have g: "good (nr_pages m) (a_add (lists_of m) k p)"
    using good_add [OF sim_good [OF s] k ok] dis by (simp add: free_set_def)
  have al: "2 ^ k dvd p" using ok by (simp add: block_ok_def)
  have c: "coalesced (lists_of m) \<Longrightarrow> coalesced (a_merge_up (a_add (lists_of m) k p) p k)"
    using a_merge_up_coalesced [OF coalesced_but_add [OF _ sim_good [OF s] k al] g k] by simp
  from free_sim [OF s k ok] dis obtain m' where
    "buddy_free_pages m p k = Inr m'" "sim m' (a_merge_up (a_add (lists_of m) k p) p k)" "same_env m m'"
    "fpages (a_merge_up (a_add (lists_of m) k p) p k) = free_set m \<union> blk k p"
    unfolding free_set_def by blast
  then show ?thesis using sim_lists_of(2-4) c by auto
qed

lemma reserve_props:
  assumes inv: "buddy_inv m"
  shows "\<exists>m'. buddy_reserve_page m p = Inr (p \<in> free_set m, m') \<and> buddy_inv m' \<and> same_env m m' \<and>
     free_set m' = free_set m - {p} \<and> (coalesced (lists_of m) \<longrightarrow> coalesced (lists_of m'))"
proof -
  note s = inv_sim [OF inv]
  from reserve_sim [OF s] obtain m' where
    "buddy_reserve_page m p = Inr (p \<in> free_set m, m')" "same_env m m'"
    "sim m' (a_reserve (lists_of m) p)" "fpages (a_reserve (lists_of m) p) = free_set m - {p}"
    unfolding free_set_def by blast
  then show ?thesis using sim_lists_of(2-4) reserve_coalesced [OF sim_good [OF s]] by auto
qed

lemma alloc_free_lists:
  assumes inv: "buddy_inv m" and c: "coalesced (lists_of m)"
    and al: "buddy_alloc_pages m k = Inr (Some p, m')"
  shows "\<exists>m''. buddy_free_pages m' p k = Inr m'' \<and> lists_of m'' = lists_of m \<and> buddy_inv m''"
proof -
  note s = inv_sim [OF inv]
  have k: "k < MAX_ORDER" using al by (simp add: buddy_alloc_pages_def split: if_splits)
  show ?thesis
  proof (cases rule: alloc_cases [OF k, of "lists_of m"])
    case 1
    then show ?thesis using alloc_none [OF s, of k] al by simp
  next
    case (2 d)
    from alloc_some [OF s 2] al have p: "p = hd (lists_of m (k + d))"
      and s': "sim m' (alloc_lists (lists_of m) k d)" and e: "same_env m m'"
      and fp: "fpages (alloc_lists (lists_of m) k d) = fpages (lists_of m) - blk k p"
      and ok: "block_ok (nr_pages m) k p" by auto
    have "block_ok (nr_pages m') k p" "blk k p \<inter> fpages (alloc_lists (lists_of m) k d) = {}"
      using ok fp same_env_nr [OF e] by auto
    from free_sim [OF s' k this] obtain m'' where
      m'': "buddy_free_pages m' p k = Inr m''" "sim m'' (lists_of m)"
      using free_alloc_lists [OF sim_good [OF s] c 2] p by auto
    have "lists_of m'' j = lists_of m j" for j
      using sim_lists_of(1) [OF m''(2)] by (cases "j < MAX_ORDER") (auto simp: lists_of_def)
    then show ?thesis using m'' sim_lists_of(2) by blast
  qed
qed

text \<open>With coalesced lists an aligned range of free pages is inside one free block of at least its order.\<close>

lemma aligned_sub_blk:
  assumes "2 ^ j dvd (q :: nat)" and "2 ^ k dvd p" and "k \<le> j" and "x \<in> blk k p" and "x \<in> blk j q"
  shows "blk k p \<subseteq> blk j q"
proof -
  from assms(1,3) obtain a where a: "q = 2 ^ k * a" by (meson dvd_trans le_imp_power_dvd dvdE)
  from assms(2) obtain b where b: "p = 2 ^ k * b" by (elim dvdE)
  obtain c where c: "(2::nat) ^ j = 2 ^ k * c" using assms(3) by (metis le_imp_power_dvd dvdE)
  have x: "2 ^ k * b \<le> x" "x < 2 ^ k * (b + 1)" "2 ^ k * a \<le> x" "x < 2 ^ k * (a + c)"
    using assms(4,5) a b c by (auto simp: mem_blk algebra_simps)
  have "2 ^ k * a < 2 ^ k * (b + 1)" "2 ^ k * b < 2 ^ k * (a + c)" using x by linarith+
  then have "a < b + 1" "b < a + c" by (meson nat_mult_less_cancel_disj)+
  then have "2 ^ k * a \<le> 2 ^ k * b" "2 ^ k * (b + 1) \<le> 2 ^ k * (a + c)"
    by (intro mult_le_mono2; simp)+
  then show ?thesis using a b c by (auto simp: blk_def algebra_simps)
qed

lemma coalesced_covers:
  assumes c: "coalesced fl" and g: "good n fl"
  shows "k < MAX_ORDER \<Longrightarrow> 2 ^ k dvd p \<Longrightarrow> blk k p \<subseteq> fpages fl \<Longrightarrow>
           \<exists>j q. k \<le> j \<and> j < MAX_ORDER \<and> q \<in> set (fl j) \<and> blk k p \<subseteq> blk j q"
proof (induction k arbitrary: p)
  case 0
  then have "p \<in> fpages fl" using blk_nonempty(1) by blast
  then obtain j q where "j < MAX_ORDER" "q \<in> set (fl j)" "p \<in> blk j q" unfolding mem_fpages by blast
  moreover have "blk 0 p = {p}" by (auto simp: blk_def)
  ultimately show ?case by auto
next
  case (Suc k)
  have al: "2 ^ k dvd p" "2 ^ k dvd p + 2 ^ k" using Suc.prems(2) dvd_Suc_pow by auto
  have k: "k < MAX_ORDER" using Suc.prems(1) by simp
  have sub: "blk k p \<subseteq> fpages fl" "blk k (p + 2 ^ k) \<subseteq> fpages fl"
    using Suc.prems(3) blk_halves(1) [of k p] by blast+
  from Suc.IH [OF k al(1) sub(1)] obtain j q where
    j: "k \<le> j" "j < MAX_ORDER" "q \<in> set (fl j)" "blk k p \<subseteq> blk j q" by blast
  from Suc.IH [OF k al(2) sub(2)] obtain j' q' where
    j': "k \<le> j'" "j' < MAX_ORDER" "q' \<in> set (fl j')" "blk k (p + 2 ^ k) \<subseteq> blk j' q'" by blast
  have aq: "2 ^ j dvd q" "2 ^ j' dvd q'"
    using goodD(3) [OF g j(2,3)] goodD(3) [OF g j'(2,3)] by (simp_all add: block_ok_def)
  have up: "\<exists>j q. Suc k \<le> j \<and> j < MAX_ORDER \<and> q \<in> set (fl j) \<and> blk (Suc k) p \<subseteq> blk j q"
    if "Suc k \<le> i" "i < MAX_ORDER" "r \<in> set (fl i)" "2 ^ i dvd r" "x \<in> blk (Suc k) p" "x \<in> blk i r" for i r x
    using aligned_sub_blk [OF that(4) Suc.prems(2) that(1) that(5,6)] that(1-3) by blast
  have mem: "p \<in> blk j q" "p + 2 ^ k \<in> blk j' q'" using j(4) j'(4) blk_nonempty(1) by blast+
  consider "Suc k \<le> j" | "Suc k \<le> j'" | "j = k" "j' = k" using j(1) j'(1) by linarith
  then show ?case
  proof cases
    case 1
    show ?thesis using up [OF 1 j(2,3) aq(1) _ mem(1)] by simp
  next
    case 2
    have "p + 2 ^ k \<in> blk (Suc k) p" by (simp add: mem_blk)
    then show ?thesis using up [OF 2 j'(2,3) aq(2) _ mem(2)] by blast
  next
    case 3
    have "blk k q \<subseteq> blk k p" using aligned_sub_blk [of k p k q p] aq(1) al(1) mem(1) 3(1) by simp
    moreover have "blk k q' \<subseteq> blk k (p + 2 ^ k)"
      using aligned_sub_blk [of k "p + 2 ^ k" k q' "p + 2 ^ k"] aq(2) al(2) mem(2) 3(2) by simp
    ultimately have "q = p" "q' = p + 2 ^ k"
      using mem 3 by (auto simp: blk_def subset_eq dest: bspec [where x = q] bspec [where x = q'])
    moreover have "bud p k = p + 2 ^ k" using Suc.prems(2) by (simp add: bud_def)
    moreover have "bud q k \<notin> set (fl k)" using c Suc.prems(1) j(3) 3 by (simp add: coalesced_def)
    ultimately show ?thesis using j'(3) 3 by simp
  qed
qed

section \<open>Freeing a free page twice\<close>

lemma walk_not_into_self_loop:
  assumes w: "walk m go s = Some y"
  shows "next_free (descs m p) = Some p \<longrightarrow> go p \<longrightarrow> deref m s \<noteq> Some p"
proof (rule walk.raw_induct [where P = "\<lambda>m go s y. next_free (descs m p) = Some p \<longrightarrow> go p \<longrightarrow>
      deref m s \<noteq> Some p", OF _ w], goal_cases)
  case (1 wlk m go s y)
  show ?case using 1(1) [of m go "Next p" y] 1(2) by (auto split: option.splits if_splits)
qed

lemma walk_self_loop:
  "next_free (descs m p) = Some p \<Longrightarrow> go p \<Longrightarrow> deref m s = Some p \<Longrightarrow> walk m go s = None"
  using walk_not_into_self_loop [of m go s _ p] by (cases "walk m go s") auto

lemma walk_into_loop:
  "chain m (deref m s) (xs @ p # ys) \<Longrightarrow> \<forall>x \<in> set xs. go x \<and> x \<noteq> p \<Longrightarrow> go p \<Longrightarrow>
     deref m' s = deref m s \<Longrightarrow>
     (\<And>q. q \<noteq> p \<Longrightarrow> next_free (descs m' q) = next_free (descs m q)) \<Longrightarrow>
     next_free (descs m' p) = Some p \<Longrightarrow> walk m' go s = None"
proof (induction xs arbitrary: s)
  case Nil
  then show ?case by (intro walk_self_loop [of m' p]) auto
next
  case (Cons x xs)
  have "walk m' go (Next x) = None" using Cons.prems by (intro Cons.IH) auto
  with Cons.prems show ?case by (simp add: walk.simps [of m' go s])
qed

lemma free_again_order_0:
  assumes inv: "buddy_inv m" and c: "coalesced (lists_of m)" and p: "p \<in> set (lists_of m 0)"
  shows "buddy_free_pages m p 0 = Inl Diverges"
proof -
  let ?fl = "lists_of m"
  note s = inv_sim [OF inv]
  note g = sim_good [OF s]
  have z: "0 < MAX_ORDER" "Suc 0 < MAX_ORDER" by (simp_all add: MAX_ORDER_def)
  have no: "\<not> (p > q \<and> overlaps_end p 0 q j)" if "j < MAX_ORDER" "q \<in> set (?fl j)" for j q
  proof
    assume q: "p > q \<and> overlaps_end p 0 q j"
    then have "p \<in> blk j q" by (auto simp: overlaps_end_def mem_blk)
    moreover have "(0, p) \<noteq> (j, q)" using q by auto
    then have "blk 0 p \<inter> blk j q = {}" by (rule good_disjoint [OF g z(1) that(1) p that(2)])
    ultimately show False by (auto simp: mem_blk)
  qed
  then have pass: "check_orders m p 0 MAX_ORDER = Inr ()"
    using check_orders_eq [OF s order_refl, of p 0] by auto
  obtain xs ys where fl: "?fl 0 = xs @ p # ys" using p by (meson split_list)
  have so: "sorted_wrt (<) (xs @ p # ys)" "distinct (xs @ p # ys)"
    using goodD(1,2) [OF g z(1)] unfolding fl by blast+
  define sl where "sl = end_slot (Head 0) xs"
  define m' where "m' = store (set_next m p (Some p)) sl (Some p)"
  have ch: "chain m (deref m (Head 0)) (xs @ p # ys)" using sim_chain [OF s z(1)] fl by simp
  have "\<forall>x \<in> set xs. p > x" using so(1) by (auto simp: sorted_wrt_append)
  then have w: "walk m (\<lambda>q. p > q) (Head 0) = Some sl" "deref m sl = Some p"
    using walk_chain [OF ch] by (auto simp: sl_def)
  have pn: "p < nr_pages m" using goodD(3) [OF g z(1) p] block_pos by blast
  have ins: "insert_block m p 0 = Inr (sl, m')"
    using w pn by (simp add: insert_block_def free_area_slot_Inr [OF z(1)] write_next_def m'_def)
  have sl_ne: "sl \<noteq> Next p" using so(2) by (auto simp: sl_def end_slot_def)
  have same: "next_free (descs m' q) = next_free (descs m q)" if "q \<noteq> p" for q
    using that w(2) by (cases sl) (auto simp: m'_def)
  have self: "next_free (descs m' p) = Some p"
    using sl_ne w(2) by (cases sl) (auto simp: m'_def)
  have head: "deref m' (Head 0) = deref m (Head 0)"
    using w(2) by (cases sl) (auto simp: m'_def)
  have al: "2 ^ 0 dvd p" by simp
  have bn: "bud p 0 \<notin> set (?fl 0)" using c z(2) p by (simp add: coalesced_def)
  have "walk m' (\<lambda>q. buddy_of m' p 0 \<noteq> Some q) (Head 0) = None"
    using bn so(2) fl by (intro walk_into_loop [OF ch _ _ head same self])
      (auto simp: buddy_of_eq [OF z(1) al] bud_neq [OF al])
  then have "merge_up m' (buddy_of m' p 0) 0 = Inl Diverges"
    by (subst merge_up.simps) (simp add: MAX_ORDER_def)
  then show ?thesis using pass ins by (simp add: buddy_free_pages_def)
qed

lemma free_again_higher:
  assumes inv: "buddy_inv m" and k: "0 < k" "k < MAX_ORDER" and p: "p \<in> set (lists_of m k)"
  shows "buddy_free_pages m p k = Inl Assert_Fail"
proof -
  note s = inv_sim [OF inv]
  have al: "2 ^ k dvd p" using goodD(3) [OF sim_good [OF s] k(2) p] by (simp add: block_ok_def)
  have "(2::nat) ^ 1 \<le> 2 ^ k" using k(1) by (intro power_increasing) auto
  then have "p + 2 ^ k - 1 > p" by simp
  moreover have "overlaps_end p k p k" by (simp add: overlaps_end_def)
  ultimately have "check_orders m p k MAX_ORDER = Inl Assert_Fail"
    using check_orders_eq [OF s order_refl, of p k] k(2) p by auto
  then show ?thesis using al by (simp add: buddy_free_pages_def)
qed

section \<open>The allocator as a transition system\<close>

text \<open>
  A state is the memory and the set of the blocks handed out, each with its order. A client returns
  only blocks that it holds; a reserved page is held as a block of order 0.
\<close>

inductive buddy_step :: "pmem \<times> (nat \<times> nat) set \<Rightarrow> pmem \<times> (nat \<times> nat) set \<Rightarrow> bool" where
  alloc_ok: "buddy_alloc_pages m k = Inr (Some p, m') \<Longrightarrow> buddy_step (m, H) (m', insert (k, p) H)"
| alloc_fail: "buddy_alloc_pages m k = Inr (None, m') \<Longrightarrow> buddy_step (m, H) (m', H)"
| free: "(k, p) \<in> H \<Longrightarrow> buddy_free_pages m p k = Inr m' \<Longrightarrow> buddy_step (m, H) (m', H - {(k, p)})"
| reserve: "buddy_reserve_page m p = Inr (b, m') \<Longrightarrow>
     buddy_step (m, H) (m', if b then insert (0, p) H else H)"

inductive buddy_reach :: "nat \<Rightarrow> pmem \<times> (nat \<times> nat) set \<Rightarrow> bool" for n where
  start: "nr_pages m = n \<Longrightarrow> buddy_init (buddy_new m) n = Inr (True, m') \<Longrightarrow> buddy_reach n (m', {})"
| step: "buddy_reach n c \<Longrightarrow> buddy_step c c' \<Longrightarrow> buddy_reach n c'"

inductive_cases buddy_stepE: "buddy_step (m, H) c'"

definition held_pages :: "(nat \<times> nat) set \<Rightarrow> nat set" where
  "held_pages H = (\<Union>(k, p) \<in> H. blk k p)"

definition held_disjoint :: "(nat \<times> nat) set \<Rightarrow> bool" where
  "held_disjoint H \<longleftrightarrow> (\<forall>x \<in> H. \<forall>y \<in> H. x = y \<or> blk (fst x) (snd x) \<inter> blk (fst y) (snd y) = {})"

definition buddy_cinv :: "nat \<Rightarrow> pmem \<times> (nat \<times> nat) set \<Rightarrow> bool" where
  "buddy_cinv n = (\<lambda>(m, H). buddy_inv m \<and> coalesced (lists_of m) \<and> nr_pages m = n \<and>
     (\<forall>(k, p) \<in> H. k < MAX_ORDER \<and> block_ok n k p) \<and> held_disjoint H \<and>
     free_set m \<inter> held_pages H = {} \<and> free_set m \<union> held_pages H = {0..<n})"

lemma buddy_cinvD:
  assumes "buddy_cinv n (m, H)"
  shows "buddy_inv m" and "coalesced (lists_of m)" and "nr_pages m = n"
    and "(k, p) \<in> H \<Longrightarrow> k < MAX_ORDER \<and> block_ok n k p" and "held_disjoint H"
    and "free_set m \<inter> held_pages H = {}" and "free_set m \<union> held_pages H = {0..<n}"
  using assms by (auto simp: buddy_cinv_def)

lemma held_pages_insert: "held_pages (insert (k, p) H) = blk k p \<union> held_pages H"
  by (simp add: held_pages_def)

lemma held_pages_remove:
  assumes "held_disjoint H" and "(k, p) \<in> H"
  shows "held_pages (H - {(k, p)}) = held_pages H - blk k p"
proof (rule set_eqI)
  fix x
  have dis: "(j, q) \<in> H \<Longrightarrow> (j, q) \<noteq> (k, p) \<Longrightarrow> blk j q \<inter> blk k p = {}" for j q
    using assms unfolding held_disjoint_def by fastforce
  show "x \<in> held_pages (H - {(k, p)}) \<longleftrightarrow> x \<in> held_pages H - blk k p"
    using dis assms(2) unfolding held_pages_def by fastforce
qed

lemma held_disjoint_insert:
  assumes "held_disjoint H" and "blk k p \<inter> held_pages H = {}"
  shows "held_disjoint (insert (k, p) H)"
proof -
  have "(j, q) \<in> H \<Longrightarrow> blk k p \<inter> blk j q = {}" for j q
    using assms(2) unfolding held_pages_def by blast
  then show ?thesis using assms(1) unfolding held_disjoint_def by fastforce
qed

lemma held_disjoint_remove: "held_disjoint H \<Longrightarrow> held_disjoint (H - X)"
  by (simp add: held_disjoint_def)

text \<open>Handing a block out, and taking one back, keep the invariant.\<close>

lemma cinv_take:
  assumes c: "buddy_cinv n (m, H)" and m': "buddy_inv m'" "coalesced (lists_of m')" "same_env m m'"
    and k: "k < MAX_ORDER" "block_ok n k p" "blk k p \<subseteq> free_set m" "free_set m' = free_set m - blk k p"
  shows "buddy_cinv n (m', insert (k, p) H)"
proof -
  note d = buddy_cinvD [OF c]
  have "blk k p \<inter> held_pages H = {}" using d(6) k(3) by blast
  then have "held_disjoint (insert (k, p) H)" by (rule held_disjoint_insert [OF d(5)])
  moreover have "free_set m' \<inter> held_pages (insert (k, p) H) = {}"
    "free_set m' \<union> held_pages (insert (k, p) H) = {0..<n}"
    unfolding held_pages_insert k(4) using d(6,7) k(3) by blast+
  moreover have "\<forall>(j, q) \<in> insert (k, p) H. j < MAX_ORDER \<and> block_ok n j q" using d(4) k(1,2) by blast
  ultimately show ?thesis using m' d(3) same_env_nr [OF m'(3)] by (simp add: buddy_cinv_def)
qed

lemma cinv_give:
  assumes c: "buddy_cinv n (m, H)" and m': "buddy_inv m'" "coalesced (lists_of m')" "same_env m m'"
    and k: "(k, p) \<in> H" "free_set m' = free_set m \<union> blk k p"
  shows "buddy_cinv n (m', H - {(k, p)})"
proof -
  note d = buddy_cinvD [OF c]
  have sub: "blk k p \<subseteq> held_pages H" using k(1) unfolding held_pages_def by blast
  have "free_set m' \<inter> held_pages (H - {(k, p)}) = {}" "free_set m' \<union> held_pages (H - {(k, p)}) = {0..<n}"
    unfolding held_pages_remove [OF d(5) k(1)] k(2) using d(6,7) sub by blast+
  moreover have "\<forall>(j, q) \<in> H - {(k, p)}. j < MAX_ORDER \<and> block_ok n j q" using d(4) by blast
  ultimately show ?thesis
    using m' d(3) same_env_nr [OF m'(3)] held_disjoint_remove [OF d(5)] by (simp add: buddy_cinv_def)
qed

lemma held_free_ok:
  assumes c: "buddy_cinv n (m, H)" and h: "(k, p) \<in> H"
  shows "\<exists>m'. buddy_free_pages m p k = Inr m' \<and> buddy_cinv n (m', H - {(k, p)})"
proof -
  note d = buddy_cinvD [OF c]
  have "blk k p \<subseteq> held_pages H" using h unfolding held_pages_def by blast
  then have "blk k p \<inter> free_set m = {}" using d(6) by blast
  from free_props [OF d(1) _ _ this] d(3,4) h d(2) obtain m' where
    "buddy_free_pages m p k = Inr m'" "buddy_inv m'" "same_env m m'" "free_set m' = free_set m \<union> blk k p"
    "coalesced (lists_of m')" by blast
  then show ?thesis using cinv_give [OF c _ _ _ h] by blast
qed

lemma buddy_step_cinv:
  assumes c: "buddy_cinv n (m, H)" and st: "buddy_step (m, H) c'"
  shows "buddy_cinv n c'"
  using st
proof (elim buddy_stepE, goal_cases)
  case (1 k p m')
  note d = buddy_cinvD [OF c]
  from alloc_props [OF d(1), of k] 1(2) d(2,3) show ?thesis
    unfolding 1(1) by (intro cinv_take [OF c]) auto
next
  case (2 k m')
  from alloc_props [OF buddy_cinvD(1) [OF c], of k] 2(2) have "m' = m" by auto
  with c 2(1) show ?thesis by simp
next
  case (3 k p m')
  from held_free_ok [OF c 3(2)] 3(1,3) show ?thesis by auto
next
  case (4 p b m')
  note d = buddy_cinvD [OF c]
  from reserve_props [OF d(1), of p] 4(2) d(2) have
    r: "b = (p \<in> free_set m)" "buddy_inv m'" "same_env m m'" "free_set m' = free_set m - {p}"
      "coalesced (lists_of m')" by auto
  show ?thesis
  proof (cases b)
    case True
    have "blk 0 p = {p}" by (auto simp: blk_def)
    moreover have "p < n" using True r(1) d(7) by auto
    ultimately have "buddy_cinv n (m', insert (0, p) H)"
      using r True by (intro cinv_take [OF c]) (auto simp: MAX_ORDER_def block_ok_def)
    with 4(1) True show ?thesis by simp
  next
    case False
    then have "free_set m' = free_set m" using r(1,4) by blast
    then have "buddy_cinv n (m', H)" using c r same_env_nr [OF r(3)] by (simp add: buddy_cinv_def)
    with 4(1) False show ?thesis by simp
  qed
qed

lemma buddy_reach_cinv: "buddy_reach n c \<Longrightarrow> buddy_cinv n c"
proof (induction rule: buddy_reach.induct)
  case (start m m')
  then show ?case using init_props [of m] by (auto simp: buddy_cinv_def held_disjoint_def held_pages_def)
next
  case (step c c')
  then show ?case using buddy_step_cinv by (cases c) blast
qed

end
