(* ===== verification/Buddy_Spec.thy ===== *)
theory Buddy_Spec imports Buddy begin

text \<open>
  The properties of the buddy allocator: the partition of the pages in every reachable state, the
  exact effect of each operation of the interface, completeness of allocation, the round trip of
  allocation and release, and what \<open>free_pages\<close> does with a block that is already free.
\<close>

section \<open>A memory of two pages\<close>

definition two_pages :: pmem where
  "two_pages = \<lparr>descs = (\<lambda>_. \<lparr>next_free = None, pd_type = AVAILABLE\<rparr>), nr_pages = 2,
     free_areas = (\<lambda>_. None)(1 := Some 0)\<rparr>"

definition one_page :: pmem where
  "one_page = \<lparr>descs = (\<lambda>_. \<lparr>next_free = None, pd_type = AVAILABLE\<rparr>), nr_pages = 1,
     free_areas = (\<lambda>_. None)(0 := Some 0)\<rparr>"

lemma two_pages_sim: "sim two_pages ((\<lambda>_. [])(1 := [0]))"
  by (auto simp: sim_def two_pages_def good_def block_ok_def)

lemma one_page_sim: "sim one_page ((\<lambda>_. [])(0 := [0]))"
  by (auto simp: sim_def one_page_def good_def block_ok_def)

lemma two_pages_facts:
  "buddy_inv two_pages" "coalesced (lists_of two_pages)" "free_set two_pages = {0, 1}"
  "lists_of two_pages 1 = [0]" "nr_pages two_pages = 2"
  using sim_lists_of [OF two_pages_sim]
  by (auto simp: coalesced_def bud_def fpages_def blk_def MAX_ORDER_def two_pages_def split: if_splits)

lemma one_page_facts:
  "buddy_inv one_page" "coalesced (lists_of one_page)" "lists_of one_page 0 = [0]"
  using sim_lists_of [OF one_page_sim] by (auto simp: coalesced_def bud_def MAX_ORDER_def)

section \<open>Properties\<close>

text \<open>C1: in every state that a client of the allocator reaches after initialisation by allocating,
  by releasing blocks it holds and by reserving pages, the blocks handed out do not overlap, no page
  of them is free, together with the free pages they are all the pages, and no two buddies below the
  highest order are free unmerged.\<close>

theorem buddy_partition:
  assumes "buddy_reach n (m, H)"
  shows "held_disjoint H \<and> free_set m \<inter> held_pages H = {} \<and> free_set m \<union> held_pages H = {0..<n} \<and>
    coalesced (lists_of m)"
  using buddy_cinvD [OF buddy_reach_cinv [OF assms]] by blast

lemma reach_two_pages: "\<exists>m. buddy_reach 2 (m, {})"
  using init_props [of two_pages] buddy_reach.start [of two_pages 2] two_pages_facts(5) by auto

theorem buddy_partition_witness:
  "\<exists>m. buddy_reach 2 (m, {}) \<and> free_set m = {0..<2}"
proof -
  from reach_two_pages obtain m where m: "buddy_reach 2 (m, {})" by blast
  with buddy_partition [OF m] show ?thesis by (auto simp: held_pages_def)
qed

text \<open>C2: in those states no call fails: an allocation of any order and a reservation of any page
  return, and so does the release of every block that is held; no assertion fails, no null pointer is
  read and no list walk runs forever.\<close>

theorem buddy_never_stuck:
  assumes "buddy_reach n (m, H)"
  shows "(\<exists>r. buddy_alloc_pages m k = Inr r) \<and> (\<exists>r. buddy_reserve_page m q = Inr r) \<and>
    ((k, p) \<in> H \<longrightarrow> (\<exists>m'. buddy_free_pages m p k = Inr m'))"
  using alloc_props [of m k] reserve_props [of m q] held_free_ok [of n m H k p]
    buddy_reach_cinv [OF assms] buddy_cinvD(1) [OF buddy_reach_cinv [OF assms]] by blast

theorem buddy_never_stuck_witness:
  "\<exists>m m' H r. buddy_reach 2 (m, {}) \<and> buddy_alloc_pages m 1 = Inr r \<and>
     (H = {} \<or> H = {(1, 0)}) \<and> buddy_reach 2 (m', H)"
proof -
  from reach_two_pages obtain m where m: "buddy_reach 2 (m, {})" by blast
  from buddy_never_stuck [OF m, of 1] obtain r where "buddy_alloc_pages m 1 = Inr r" by blast
  with m show ?thesis by blast
qed

text \<open>C3: allocation is complete. With coalesced lists \<open>alloc_pages\<close> returns null exactly when no
  aligned range of that many pages is free, and otherwise an aligned range of free pages, which is
  then no longer free while every other page keeps its state.\<close>

theorem buddy_alloc_exact:
  assumes "buddy_inv m" and "coalesced (lists_of m)" and "k < MAX_ORDER"
  shows "\<exists>r m'. buddy_alloc_pages m k = Inr (r, m') \<and> buddy_inv m' \<and>
    (case r of
       None \<Rightarrow> m' = m \<and> \<not> (\<exists>p. 2 ^ k dvd p \<and> blk k p \<subseteq> free_set m)
     | Some p \<Rightarrow> 2 ^ k dvd p \<and> blk k p \<subseteq> free_set m \<and> free_set m' = free_set m - blk k p)"
proof -
  from alloc_props [OF assms(1), of k] obtain r m' where
    r: "buddy_alloc_pages m k = Inr (r, m')" "buddy_inv m'"
      "case r of None \<Rightarrow> m' = m \<and> (\<forall>j. k \<le> j \<and> j < MAX_ORDER \<longrightarrow> lists_of m j = [])
       | Some p \<Rightarrow> k < MAX_ORDER \<and> block_ok (nr_pages m) k p \<and> blk k p \<subseteq> free_set m \<and>
                   free_set m' = free_set m - blk k p" by blast
  have "\<not> (\<exists>p. 2 ^ k dvd p \<and> blk k p \<subseteq> free_set m)" if "\<forall>j. k \<le> j \<and> j < MAX_ORDER \<longrightarrow> lists_of m j = []"
    using coalesced_covers [OF assms(2) sim_good [OF inv_sim [OF assms(1)]] assms(3)] that
    by (fastforce simp: free_set_def)
  with r show ?thesis by (cases r) (auto simp: block_ok_def)
qed

theorem buddy_alloc_exact_witness:
  "\<exists>r m'. buddy_alloc_pages two_pages 1 = Inr (r, m') \<and> buddy_inv m' \<and>
    (case r of
       None \<Rightarrow> m' = two_pages \<and> \<not> (\<exists>p. 2 ^ 1 dvd p \<and> blk 1 p \<subseteq> free_set two_pages)
     | Some p \<Rightarrow> 2 ^ 1 dvd p \<and> blk 1 p \<subseteq> free_set two_pages \<and> free_set m' = free_set two_pages - blk 1 p)"
  by (rule buddy_alloc_exact [OF two_pages_facts(1,2)]) (simp add: MAX_ORDER_def)

text \<open>C4: releasing what was just allocated merges the block all the way back: the free lists of every
  order are again what they were.\<close>

theorem buddy_alloc_free_roundtrip:
  assumes "buddy_inv m" and "coalesced (lists_of m)" and "buddy_alloc_pages m k = Inr (Some p, m')"
  shows "\<exists>m''. buddy_free_pages m' p k = Inr m'' \<and> lists_of m'' = lists_of m \<and> buddy_inv m''"
  by (rule alloc_free_lists [OF assms])

theorem buddy_alloc_free_roundtrip_witness:
  "\<exists>m' m''. buddy_alloc_pages two_pages 0 = Inr (Some 0, m') \<and> buddy_free_pages m' 0 0 = Inr m'' \<and>
     lists_of m'' = lists_of two_pages"
proof -
  have l: "lists_of two_pages 0 = []" "0 + 1 < MAX_ORDER"
    using sim_lists_of(1) [OF two_pages_sim, of 0] by (simp_all add: MAX_ORDER_def)
  obtain m' where m': "buddy_alloc_pages two_pages 0 = Inr (Some 0, m')"
    using alloc_some [OF inv_sim [OF two_pages_facts(1)] l(2)] two_pages_facts(4) l(1) by auto
  from buddy_alloc_free_roundtrip [OF two_pages_facts(1,2) m'] m' show ?thesis by blast
qed

text \<open>C5: \<open>free_pages\<close> of a block that is not free returns it: exactly its pages become free, and no
  two buddies are left unmerged.\<close>

theorem buddy_free_exact:
  assumes "buddy_inv m" and "coalesced (lists_of m)" and "k < MAX_ORDER" and "block_ok (nr_pages m) k p"
    and "blk k p \<inter> free_set m = {}"
  shows "\<exists>m'. buddy_free_pages m p k = Inr m' \<and> buddy_inv m' \<and> coalesced (lists_of m') \<and>
    free_set m' = free_set m \<union> blk k p"
  using free_props [OF assms(1,3,4,5)] assms(2) by blast

theorem buddy_free_exact_witness:
  "\<exists>m m'. buddy_reserve_page two_pages 1 = Inr (True, m) \<and> buddy_free_pages m 1 0 = Inr m' \<and>
     free_set m' = {0, 1}"
proof -
  from reserve_props [OF two_pages_facts(1), of 1] obtain m where
    m: "buddy_reserve_page two_pages 1 = Inr (True, m)" "buddy_inv m" "same_env two_pages m"
      "free_set m = {0}" "coalesced (lists_of m)"
    by (auto simp: two_pages_facts)
  have "\<exists>m'. buddy_free_pages m 1 0 = Inr m' \<and> buddy_inv m' \<and> coalesced (lists_of m') \<and>
      free_set m' = free_set m \<union> blk 0 1"
    using m same_env_nr [OF m(3)] two_pages_facts(5)
    by (intro buddy_free_exact) (auto simp: MAX_ORDER_def block_ok_def blk_def)
  with m show ?thesis by (auto simp: blk_def)
qed

text \<open>C6: \<open>reserve_page\<close> succeeds exactly when the page is free, whatever block it is part of, and takes
  this one page out of the free pages.\<close>

theorem buddy_reserve_exact:
  assumes "buddy_inv m"
  shows "\<exists>m'. buddy_reserve_page m p = Inr (p \<in> free_set m, m') \<and> buddy_inv m' \<and>
    free_set m' = free_set m - {p} \<and> (coalesced (lists_of m) \<longrightarrow> coalesced (lists_of m'))"
  using reserve_props [OF assms] by blast

theorem buddy_reserve_exact_witness:
  "\<exists>m'. buddy_reserve_page two_pages 1 = Inr (True, m') \<and> free_set m' = {0}"
  using buddy_reserve_exact [OF two_pages_facts(1), of 1] by (auto simp: two_pages_facts)

text \<open>the constructor and \<open>init\<close>, for any number of pages, establish the invariant with every page
  free, and \<open>init\<close> reports success.\<close>

theorem buddy_init_exact:
  "\<exists>m'. buddy_init (buddy_new m) (nr_pages m) = Inr (True, m') \<and> buddy_inv m' \<and>
     free_set m' = {0..<nr_pages m} \<and> coalesced (lists_of m')"
  using init_props [of m] by blast

text \<open>the overlap check of \<open>free_pages\<close> rejects a block exactly when some free block starts below
  the last page of it and contains its first or its last page; every free block of order 1 or more
  that is returned a second time is therefore caught by the assertion.\<close>

theorem buddy_check_exact:
  assumes "buddy_inv m"
  shows "check_orders m p k MAX_ORDER =
      (if \<exists>j < MAX_ORDER. \<exists>q \<in> set (lists_of m j). p + 2 ^ k - 1 > q \<and> overlaps_end p k q j
       then Inl Assert_Fail else Inr ()) \<and>
    (0 < k \<and> k < MAX_ORDER \<and> p \<in> set (lists_of m k) \<longrightarrow> buddy_free_pages m p k = Inl Assert_Fail)"
  using check_orders_eq [OF inv_sim [OF assms] order_refl] free_again_higher [OF assms] by blast

theorem buddy_check_exact_witness: "buddy_free_pages two_pages 0 1 = Inl Assert_Fail"
  using buddy_check_exact [OF two_pages_facts(1), of 0 1] two_pages_facts(4) by (simp add: MAX_ORDER_def)

text \<open>C7: the check does not cover single pages: returning a page that is already in the list of order 0
  passes it, links the page to itself, and the search for the buddy then never ends.\<close>

theorem buddy_double_free_diverges:
  assumes "buddy_inv m" and "coalesced (lists_of m)" and "p \<in> set (lists_of m 0)"
  shows "check_orders m p 0 MAX_ORDER = Inr () \<and> buddy_free_pages m p 0 = Inl Diverges"
proof -
  have d: "buddy_free_pages m p 0 = Inl Diverges" by (rule free_again_order_0 [OF assms])
  have "check_orders m p 0 MAX_ORDER = Inr () \<or> check_orders m p 0 MAX_ORDER = Inl Assert_Fail"
    using check_orders_eq [OF inv_sim [OF assms(1)] order_refl] by auto
  with d show ?thesis by (auto simp: buddy_free_pages_def)
qed

theorem buddy_double_free_diverges_witness: "buddy_free_pages one_page 0 0 = Inl Diverges"
  using buddy_double_free_diverges [OF one_page_facts(1,2), of 0] one_page_facts(3) by simp

end
