(* ===== verification/Addresses.thy ===== *)
theory Addresses imports Prelude begin

text \<open>
  The address arithmetic of \<open>infos/include/infos/define.h\<close>: page offsets and bases, the two fixed
  windows of the virtual address space (the kernel image and the direct map of physical memory) and
  the small integer helpers, over 64-bit words as the kernel computes them.
\<close>

unbundle bit_operations_syntax

section \<open>Constants and macros\<close>

definition KERNEL_VMEM_START :: u64 where "KERNEL_VMEM_START = 0xFFFFFFFF80000000"

definition KERNEL_VMEM_END :: u64 where "KERNEL_VMEM_END = 0xFFFFFFFFFFFFFFFF"

definition KERNEL_VMEM_SIZE :: u64 where
  "KERNEL_VMEM_SIZE = KERNEL_VMEM_END - KERNEL_VMEM_START + 1"

definition PMEM_VA_START :: u64 where "PMEM_VA_START = 0xFFFF800000000000"

definition PMEM_VA_END :: u64 where "PMEM_VA_END = 0xFFFF800100000000"

definition PMEM_VA_SIZE :: u64 where "PMEM_VA_SIZE = PMEM_VA_END - PMEM_VA_START"

definition page_size :: u64 where "page_size = 0x1000"

definition page_offset :: "u64 \<Rightarrow> u64" where
  "page_offset a = a AND (page_size - 1)"

definition page_base :: "u64 \<Rightarrow> u64" where
  "page_base a = a AND NOT (page_size - 1)"

definition page_index :: "u64 \<Rightarrow> u64" where
  "page_index a = drop_bit 12 a"

definition align_up :: "u64 \<Rightarrow> u64 \<Rightarrow> u64" where
  "align_up v alignment = v + (if v mod alignment = 0 then 0 else alignment - v mod alignment)"

section \<open>Conversions\<close>

definition pa_to_kva :: "u64 \<Rightarrow> u64 res" where
  "pa_to_kva pa = res_bind (assert_that (pa < KERNEL_VMEM_SIZE)) (\<lambda>_. Inr (KERNEL_VMEM_START + pa))"

definition kva_to_pa :: "u64 \<Rightarrow> u64 res" where
  "kva_to_pa va = res_bind (assert_that (va \<ge> KERNEL_VMEM_START \<and> va \<le> KERNEL_VMEM_END))
     (\<lambda>_. Inr (va - KERNEL_VMEM_START))"

definition pa_to_vpa :: "u64 \<Rightarrow> u64 res" where
  "pa_to_vpa pa = res_bind (assert_that (pa < PMEM_VA_SIZE)) (\<lambda>_. Inr (PMEM_VA_START + pa))"

definition vpa_to_pa :: "u64 \<Rightarrow> u64 res" where
  "vpa_to_pa va = res_bind (assert_that (va \<ge> PMEM_VA_START \<and> va < PMEM_VA_END))
     (\<lambda>_. Inr (va - PMEM_VA_START))"

definition pa_to_pfn :: "u64 \<Rightarrow> u64" where
  "pa_to_pfn pa = drop_bit 12 pa"

definition pfn_to_pa :: "u64 \<Rightarrow> u64" where
  "pfn_to_pa pfn = push_bit 12 pfn"

text \<open>\<open>63 - __builtin_clzll(x)\<close> is the index of the highest bit that is set.\<close>

fun bit_index :: "nat \<Rightarrow> nat" where
  "bit_index x = (if x < 2 then 0 else Suc (bit_index (x div 2)))"

declare bit_index.simps [simp del]

definition log2ceil :: "u64 \<Rightarrow> u64" where
  "log2ceil x = (if x = 0 then 0
     else of_nat (bit_index (unat x)) + (if x AND (x - 1) \<noteq> 0 then 1 else 0))"

definition min_u64 :: "u64 \<Rightarrow> u64 \<Rightarrow> u64" where
  "min_u64 x y = (if x < y then x else y)"

definition max_u64 :: "u64 \<Rightarrow> u64 \<Rightarrow> u64" where
  "max_u64 x y = (if x < y then y else x)"

section \<open>Round trips of the windows\<close>

lemma u64_le_max [simp]: "x \<le> (0xFFFFFFFFFFFFFFFF :: u64)"
  using unsigned_less [of x, where ?'a = nat] by (simp add: word_le_nat_alt)

lemma window_add:
  assumes "unat base + unat x < 2 ^ 64"
  shows "base \<le> base + (x :: u64)" and "unat (base + x) = unat base + unat x"
proof -
  show *: "unat (base + x) = unat base + unat x" using assms by (simp add: unat_word_ariths)
  show "base \<le> base + x" using * by (simp add: word_le_nat_alt)
qed

lemma kva_roundtrip: "pa < KERNEL_VMEM_SIZE \<Longrightarrow> res_bind (pa_to_kva pa) kva_to_pa = Inr pa"
  using window_add(1) [of KERNEL_VMEM_START pa]
  by (simp add: pa_to_kva_def kva_to_pa_def KERNEL_VMEM_SIZE_def KERNEL_VMEM_END_def KERNEL_VMEM_START_def
      word_less_nat_alt)

lemma vpa_roundtrip: "pa < PMEM_VA_SIZE \<Longrightarrow> res_bind (pa_to_vpa pa) vpa_to_pa = Inr pa"
  using window_add [of PMEM_VA_START pa]
  by (simp add: pa_to_vpa_def vpa_to_pa_def PMEM_VA_SIZE_def PMEM_VA_END_def PMEM_VA_START_def
      word_less_nat_alt)

lemma pfn_roundtrip: "pfn < 2 ^ 52 \<Longrightarrow> pa_to_pfn (pfn_to_pa pfn) = pfn"
proof -
  assume "pfn < 2 ^ 52"
  then have u: "unat pfn < 2 ^ 52" by (simp add: word_less_nat_alt)
  have "unat (pfn_to_pa pfn) = unat pfn * 4096"
    using u by (simp add: pfn_to_pa_def push_bit_eq_mult unat_word_ariths mult.commute)
  then have "unat (pa_to_pfn (pfn_to_pa pfn)) = unat pfn"
    unfolding pa_to_pfn_def unat_drop_bit_eq by (simp add: drop_bit_eq_div)
  then show "pa_to_pfn (pfn_to_pa pfn) = pfn" by (simp add: word_unat_eq_iff)
qed

section \<open>The rounded logarithm\<close>

lemma bit_index_bounds: "0 < x \<Longrightarrow> 2 ^ bit_index x \<le> x \<and> x < 2 ^ Suc (bit_index x)"
proof (induction x rule: bit_index.induct)
  case (1 x)
  show ?case
  proof (cases "x < 2")
    case True
    with "1.prems" have "x = 1" by simp
    then show ?thesis by (simp add: bit_index.simps)
  next
    case False
    with "1.IH" have "2 ^ bit_index (x div 2) \<le> x div 2" "x div 2 < 2 ^ Suc (bit_index (x div 2))" by auto
    with False show ?thesis by (subst (1 2) bit_index.simps) auto
  qed
qed

lemma bit_of_range:
  fixes y :: u64
  assumes "2 ^ n \<le> unat y" and "unat y < 2 ^ Suc n"
  shows "bit y n"
proof -
  have "unat y div 2 ^ n = 1"
  proof -
    have "2 ^ n * 1 \<le> unat y" "unat y < 2 ^ n * Suc 1" using assms by simp_all
    then show ?thesis by (rule div_nat_eqI)
  qed
  then have "bit (unat y) n" by (simp add: bit_iff_odd)
  then show ?thesis by (simp add: bit_unsigned_iff)
qed

lemma pow2_test:
  fixes x :: u64
  assumes "2 ^ n \<le> unat x" and "unat x < 2 ^ Suc n"
  shows "x AND (x - 1) = 0 \<longleftrightarrow> unat x = 2 ^ n"
proof
  assume e: "unat x = 2 ^ n"
  have n: "n < 64"
  proof (rule ccontr)
    assume "\<not> n < 64"
    then have "(2::nat) ^ 64 \<le> 2 ^ n" by (intro power_increasing) auto
    then show False using e unsigned_less [of x, where ?'a = nat] by simp
  qed
  have "x = of_nat (unat x)" by simp
  then have "x = 2 ^ n" unfolding e by simp
  moreover have "take_bit n (2 ^ n :: u64) = 0"
    using take_bit_push_bit [of n n "1 :: u64"] by (simp add: push_bit_eq_mult)
  ultimately show "x AND (x - 1) = 0"
    by (simp add: mask_eq_exp_minus_1 [symmetric] take_bit_eq_mask [symmetric])
next
  assume z: "x AND (x - 1) = 0"
  show "unat x = 2 ^ n"
  proof (rule ccontr)
    assume "unat x \<noteq> 2 ^ n"
    then have "2 ^ n \<le> unat x - 1" "x \<noteq> 0" using assms by auto
    then have "unat (x - 1) = unat x - 1" "2 ^ n \<le> unat (x - 1)" "unat (x - 1) < 2 ^ Suc n"
      using assms by (simp_all add: unat_minus_one)
    then have "bit (x AND (x - 1)) n" using bit_of_range assms by (simp add: bit_and_iff)
    with z show False by simp
  qed
qed

text \<open>\<open>log2ceil x\<close> is the least exponent whose power of two is at least \<open>x\<close>.\<close>

lemma log2ceil_least:
  assumes "0 < unat x"
  shows "unat x \<le> 2 ^ unat (log2ceil x)" and "2 ^ e < unat x \<Longrightarrow> e < unat (log2ceil x)"
    and "unat (log2ceil x) \<le> 64"
proof -
  define n where "n = bit_index (unat x)"
  have b: "2 ^ n \<le> unat x" "unat x < 2 ^ Suc n" using bit_index_bounds [OF assms] by (auto simp: n_def)
  have "(2::nat) ^ n < 2 ^ 64" using b(1) unsigned_less [of x, where ?'a = nat] by simp
  then have n: "n < 64" by (rule power_less_imp_less_exp [rotated]) simp
  have l: "log2ceil x = of_nat (n + (if unat x = 2 ^ n then 0 else 1))"
    using assms pow2_test [OF b] by (auto simp: log2ceil_def n_def)
  have u: "unat (log2ceil x) = n + (if unat x = 2 ^ n then 0 else 1)"
    unfolding l using n by (intro unat_of_nat_u64) auto
  show "unat (log2ceil x) \<le> 64" using u n by simp
  show "unat x \<le> 2 ^ unat (log2ceil x)" using u b by simp
  show "e < unat (log2ceil x)" if "2 ^ e < unat x"
  proof (rule ccontr)
    assume "\<not> e < unat (log2ceil x)"
    then have "(2::nat) ^ unat (log2ceil x) \<le> 2 ^ e" by (intro power_increasing) auto
    with that have "2 ^ unat (log2ceil x) < unat x" by linarith
    with u b show False by (simp split: if_splits)
  qed
qed

end
