(* ===== verification/Page_Allocator.thy ===== *)
theory Page_Allocator imports Buddy Addresses begin

text \<open>
  The page allocator of \<open>infos/mm/page-allocator.cpp\<close> and the physical memory bookkeeping of
  \<open>infos/mm/mm.cpp\<close>. The page allocator works through a pluggable algorithm, a record of functions
  (the virtual methods), on the descriptors it shares with it. The locale \<open>page_algorithm\<close> is the
  contract it needs from the algorithm; it is interpreted here for the buddy algorithm and in
  \<open>Simple_Alloc\<close> for the simple one.
\<close>

section \<open>Physical memory blocks\<close>

datatype memory_type = NORMAL | UNUSABLE

record phys_block =
  base_address :: u64
  base_pfn :: u64
  pb_pages :: u32
  pb_type :: memory_type

text \<open>The entries of the array \<open>_phys_mem_blocks\<close> below \<open>_nr_phys_mem_blocks\<close>, which has room for 16.\<close>

record mem_mgr =
  last_pfn :: u64
  phys_blocks :: "phys_block list"

text \<open>\<open>nr_pages * _page_size\<close> is a product of two unsigned 32-bit integers.\<close>

definition pages_bytes :: "u32 \<Rightarrow> u64" where
  "pages_bytes n = ucast (n * 0x1000)"

definition add_physical_memory :: "mem_mgr \<Rightarrow> u64 \<Rightarrow> u32 \<Rightarrow> memory_type \<Rightarrow> mem_mgr" where
  "add_physical_memory mm addr n t =
     (if n = 0 then mm
      else if length (phys_blocks mm) \<ge> 16 then mm
      else
        let mm1 = mm\<lparr>phys_blocks := phys_blocks mm @
              [\<lparr>base_address = addr, base_pfn = drop_bit 12 addr, pb_pages = n, pb_type = t\<rparr>]\<rparr>;
            lp = drop_bit 12 (addr + pages_bytes n) - 1
        in if t = NORMAL \<and> lp > last_pfn mm1 then mm1\<lparr>last_pfn := lp\<rparr> else mm1)"

fun lookup_phys_block :: "phys_block list \<Rightarrow> u64 \<Rightarrow> phys_block option" where
  "lookup_phys_block [] addr = None"
| "lookup_phys_block (b # bs) addr =
     (if addr \<ge> base_address b \<and> addr < base_address b + pages_bytes (pb_pages b) then Some b
      else lookup_phys_block bs addr)"

section \<open>Descriptor types\<close>

definition page_type :: "pmem \<Rightarrow> nat \<Rightarrow> page_descriptor_type" where
  "page_type m p = pd_type (descs m p)"

definition set_type :: "pmem \<Rightarrow> nat \<Rightarrow> page_descriptor_type \<Rightarrow> pmem" where
  "set_type m p t = m\<lparr>descs := (descs m)(p := (descs m p)\<lparr>pd_type := t\<rparr>)\<rparr>"

text \<open>The loops that check the type of each page of a block and change it.\<close>

fun retype_pages :: "pmem \<Rightarrow> nat \<Rightarrow> nat \<Rightarrow> page_descriptor_type \<Rightarrow> page_descriptor_type \<Rightarrow> pmem res" where
  "retype_pages m p 0 old new = Inr m"
| "retype_pages m p (Suc n) old new =
     (if p < nr_pages m then
        res_bind (assert_that (page_type m p = old)) (\<lambda>_. retype_pages (set_type m p new) (Suc p) n old new)
      else Inl Out_Of_Bounds)"

text \<open>\<open>mark_page_range\<close>, which marks without checking.\<close>

fun mark_pages :: "pmem \<Rightarrow> page_descriptor_type \<Rightarrow> nat \<Rightarrow> nat \<Rightarrow> pmem res" where
  "mark_pages m t start 0 = Inr m"
| "mark_pages m t start (Suc n) =
     (if start < nr_pages m then mark_pages (set_type m start t) t (Suc start) n else Inl Out_Of_Bounds)"

section \<open>The allocator over an algorithm\<close>

record page_algo =
  pa_init :: "pmem \<Rightarrow> nat \<Rightarrow> (bool \<times> pmem) res"
  pa_reserve :: "pmem \<Rightarrow> nat \<Rightarrow> (bool \<times> pmem) res"
  pa_alloc :: "pmem \<Rightarrow> nat \<Rightarrow> (nat option \<times> pmem) res"
  pa_free :: "pmem \<Rightarrow> nat \<Rightarrow> nat \<Rightarrow> pmem res"

definition pgalloc_alloc :: "page_algo option \<Rightarrow> pmem \<Rightarrow> nat \<Rightarrow> (nat option \<times> pmem) res" where
  "pgalloc_alloc algo m order =
     (case algo of
        None \<Rightarrow> Inr (None, m)
      | Some A \<Rightarrow>
          res_bind (pa_alloc A m order) (\<lambda>(pgd, m1).
          case pgd of
            None \<Rightarrow> Inl Null_Deref
          | Some p \<Rightarrow> res_bind (retype_pages m1 p (2 ^ order) AVAILABLE ALLOCATED) (\<lambda>m2. Inr (pgd, m2))))"

definition pgalloc_free :: "page_algo option \<Rightarrow> pmem \<Rightarrow> nat \<Rightarrow> nat \<Rightarrow> pmem res" where
  "pgalloc_free algo m pgd order =
     (case algo of
        None \<Rightarrow> Inr m
      | Some A \<Rightarrow>
          res_bind (pa_free A m pgd order) (\<lambda>m1. retype_pages m1 pgd (2 ^ order) ALLOCATED AVAILABLE))"

definition pgalloc_alloc_page :: "page_algo option \<Rightarrow> pmem \<Rightarrow> (nat option \<times> pmem) res" where
  "pgalloc_alloc_page algo m = pgalloc_alloc algo m 0"

definition pgalloc_free_page :: "page_algo option \<Rightarrow> pmem \<Rightarrow> nat \<Rightarrow> pmem res" where
  "pgalloc_free_page algo m pgd = pgalloc_free algo m pgd 0"

definition buddy_algo :: page_algo where
  "buddy_algo = \<lparr>pa_init = buddy_init, pa_reserve = buddy_reserve_page, pa_alloc = buddy_alloc_pages,
     pa_free = buddy_free_pages\<rparr>"

section \<open>Retyping\<close>

definition set_types :: "pmem \<Rightarrow> nat set \<Rightarrow> page_descriptor_type \<Rightarrow> pmem" where
  "set_types m S t = m\<lparr>descs := (\<lambda>p. if p \<in> S then (descs m p)\<lparr>pd_type := t\<rparr> else descs m p)\<rparr>"

lemma set_types_simps [simp]:
  "page_type (set_types m S t) p = (if p \<in> S then t else page_type m p)"
  "next_free (descs (set_types m S t) p) = next_free (descs m p)"
  "nr_pages (set_types m S t) = nr_pages m"
  "free_areas (set_types m S t) = free_areas m"
  by (simp_all add: set_types_def page_type_def)

lemma set_type_simps [simp]:
  "page_type (set_type m p t) q = (if q = p then t else page_type m q)"
  "nr_pages (set_type m p t) = nr_pages m"
  by (simp_all add: set_type_def page_type_def)

lemma set_types_empty [simp]: "set_types m {} t = m"
  by (simp add: set_types_def)

lemma set_types_set_type: "p \<notin> S \<Longrightarrow> set_types (set_type m p t) S t = set_types m (insert p S) t"
  by (simp add: set_types_def set_type_def fun_eq_iff)

lemma atLeastLessThan_insert: "insert p {Suc p..<Suc p + n} = {p..<p + Suc n}"
  by auto

lemma retype_pages_ok:
  "p + n \<le> nr_pages m \<Longrightarrow> (\<And>q. p \<le> q \<Longrightarrow> q < p + n \<Longrightarrow> page_type m q = old) \<Longrightarrow>
     retype_pages m p n old new = Inr (set_types m {p..<p + n} new)"
proof (induction n arbitrary: m p)
  case (Suc n)
  have "retype_pages (set_type m p new) (Suc p) n old new =
      Inr (set_types (set_type m p new) {Suc p..<Suc p + n} new)"
    using Suc.prems by (intro Suc.IH) auto
  with Suc.prems show ?case by (simp add: set_types_set_type atLeastLessThan_insert del: add_Suc add_Suc_right)
qed simp

lemma mark_pages_eq:
  "mark_pages m t s n =
     (if n = 0 \<or> s + n \<le> nr_pages m then Inr (set_types m {s..<s + n} t) else Inl Out_Of_Bounds)"
proof (induction n arbitrary: m s)
  case (Suc n)
  show ?case
    using Suc.IH [of "set_type m s t" "Suc s"]
    by (auto simp: set_types_set_type atLeastLessThan_insert simp del: add_Suc add_Suc_right)
qed simp

lemma same_env_types: "same_env m m' \<Longrightarrow> page_type m' p = page_type m p"
  by (simp add: same_env_def page_type_def)

text \<open>The types do not matter to the lists of the buddy algorithm.\<close>

lemma chain_set_types [simp]: "chain (set_types m S t) h xs = chain m h xs"
  by (intro chain_cong) simp

lemma chain_list_set_types [simp]: "chain_list (set_types m S t) h f = chain_list m h f"
  by (induction m h f rule: chain_list.induct) auto

lemma lists_of_set_types [simp]: "lists_of (set_types m S t) = lists_of m"
  by (simp add: lists_of_def fun_eq_iff)

lemma buddy_inv_set_types [simp]: "buddy_inv (set_types m S t) = buddy_inv m"
  by (simp add: buddy_inv_def sim_def)

lemma free_set_set_types [simp]: "free_set (set_types m S t) = free_set m"
  by (simp add: free_set_def)

section \<open>The contract of an algorithm\<close>

text \<open>
  \<open>inv\<close> relates the algorithm's own state to the types of the pages; \<open>vb m k p\<close> says that \<open>p\<close> is a
  block of order \<open>k\<close> that the algorithm can hand out and take back. The algorithm never changes a
  type; once the page allocator has retyped the pages of the block, the invariant holds again.
\<close>

locale page_algorithm =
  fixes A :: page_algo
    and inv :: "pmem \<Rightarrow> bool"
    and vb :: "pmem \<Rightarrow> nat \<Rightarrow> nat \<Rightarrow> bool"
  assumes vb_bounds: "vb m k p \<Longrightarrow> p + 2 ^ k \<le> nr_pages m"
    and vb_types: "vb (set_types m S t) k p = vb m k p"
    and vb_env: "same_env m m' \<Longrightarrow> vb m' k p = vb m k p"
    and alloc_law: "inv m \<Longrightarrow> \<exists>r m'. pa_alloc A m k = Inr (r, m') \<and> same_env m m' \<and>
          (case r of
             None \<Rightarrow> inv m'
           | Some p \<Rightarrow> vb m k p \<and> (\<forall>q \<in> blk k p. page_type m q = AVAILABLE) \<and>
                       inv (set_types m' (blk k p) ALLOCATED))"
    and free_law: "inv m \<Longrightarrow> vb m k p \<Longrightarrow> \<forall>q \<in> blk k p. page_type m q = ALLOCATED \<Longrightarrow>
          \<exists>m'. pa_free A m p k = Inr m' \<and> same_env m m' \<and> inv (set_types m' (blk k p) AVAILABLE)"
begin

text \<open>
  Allocation either finds no block, and then reads through the null pointer it was given, or marks
  exactly the pages of one block, all available before, as allocated.
\<close>

lemma alloc_marks:
  assumes "inv m"
  obtains (null) "pgalloc_alloc (Some A) m k = Inl Null_Deref" "\<exists>m'. pa_alloc A m k = Inr (None, m')"
  | (block) p m' where "pgalloc_alloc (Some A) m k = Inr (Some p, m')" "inv m'" "vb m' k p"
      "nr_pages m' = nr_pages m" "\<forall>q \<in> blk k p. page_type m q = AVAILABLE"
      "\<And>q. page_type m' q = (if q \<in> blk k p then ALLOCATED else page_type m q)"
proof -
  from alloc_law [OF assms] obtain r m1 where a: "pa_alloc A m k = Inr (r, m1)" "same_env m m1"
    "case r of None \<Rightarrow> inv m1 | Some p \<Rightarrow> vb m k p \<and> (\<forall>q \<in> blk k p. page_type m q = AVAILABLE) \<and>
       inv (set_types m1 (blk k p) ALLOCATED)" by blast
  show ?thesis
  proof (cases r)
    case None
    with a null show ?thesis by (simp add: pgalloc_alloc_def)
  next
    case (Some p)
    then have b: "vb m k p" "\<forall>q \<in> blk k p. page_type m q = AVAILABLE" "inv (set_types m1 (blk k p) ALLOCATED)"
      using a(3) by auto
    have "retype_pages m1 p (2 ^ k) AVAILABLE ALLOCATED = Inr (set_types m1 (blk k p) ALLOCATED)"
      unfolding blk_def using b vb_bounds [OF b(1)] same_env_nr [OF a(2)] same_env_types [OF a(2)]
      by (intro retype_pages_ok) (auto simp: blk_def)
    then have "pgalloc_alloc (Some A) m k = Inr (Some p, set_types m1 (blk k p) ALLOCATED)"
      using a(1) Some by (simp add: pgalloc_alloc_def)
    then show ?thesis
      using block b same_env_nr [OF a(2)] same_env_types [OF a(2)] vb_types vb_env [OF a(2)] by auto
  qed
qed

lemma free_marks:
  assumes "inv m" and "vb m k p" and "\<forall>q \<in> blk k p. page_type m q = ALLOCATED"
  shows "\<exists>m'. pgalloc_free (Some A) m p k = Inr m' \<and> inv m' \<and> nr_pages m' = nr_pages m \<and>
    (\<forall>q. page_type m' q = (if q \<in> blk k p then AVAILABLE else page_type m q))"
proof -
  from free_law [OF assms] obtain m1 where a: "pa_free A m p k = Inr m1" "same_env m m1"
    "inv (set_types m1 (blk k p) AVAILABLE)" by blast
  have "retype_pages m1 p (2 ^ k) ALLOCATED AVAILABLE = Inr (set_types m1 (blk k p) AVAILABLE)"
    unfolding blk_def using assms(3) vb_bounds [OF assms(2)] same_env_nr [OF a(2)] same_env_types [OF a(2)]
    by (intro retype_pages_ok) (auto simp: blk_def)
  then have "pgalloc_free (Some A) m p k = Inr (set_types m1 (blk k p) AVAILABLE)"
    using a(1) by (simp add: pgalloc_free_def)
  then show ?thesis using a(3) same_env_nr [OF a(2)] same_env_types [OF a(2)] by auto
qed

text \<open>Two blocks that are held at the same time do not overlap.\<close>

lemma alloc_twice_disjoint:
  assumes "inv m" and "pgalloc_alloc (Some A) m k = Inr (Some p, m1)"
    and "pgalloc_alloc (Some A) m1 j = Inr (Some q, m2)"
  shows "blk k p \<inter> blk j q = {}"
proof (cases rule: alloc_marks [OF assms(1), of k])
  case 1
  with assms(2) show ?thesis by simp
next
  case (2 p' m')
  then have e: "p' = p" "m' = m1" using assms(2) by auto
  show ?thesis
  proof (cases rule: alloc_marks [OF 2(2), of j])
    case 1
    with assms(3) e show ?thesis by simp
  next
    case b: (2 q' m'')
    then have q: "q' = q" using assms(3) e by auto
    have "x \<notin> blk k p" if "x \<in> blk j q" for x
    proof
      assume "x \<in> blk k p"
      then have "page_type m' x = ALLOCATED" using 2(6) [of x] e(1) by simp
      moreover have "page_type m' x = AVAILABLE" using b(5) that q by blast
      ultimately show False by simp
    qed
    then show ?thesis by blast
  qed
qed

text \<open>An allocation that is released leaves every page as it was.\<close>

lemma alloc_free_types:
  assumes "inv m" and "pgalloc_alloc (Some A) m k = Inr (Some p, m1)"
  shows "\<exists>m2. pgalloc_free (Some A) m1 p k = Inr m2 \<and> inv m2 \<and> (\<forall>q. page_type m2 q = page_type m q)"
proof (cases rule: alloc_marks [OF assms(1), of k])
  case 1
  with assms(2) show ?thesis by simp
next
  case (2 p' m')
  then have e: "p' = p" "m' = m1" using assms(2) by auto
  have "\<forall>q \<in> blk k p. page_type m1 q = ALLOCATED" using 2(6) e by simp
  from free_marks [OF _ _ this] 2(2,3) e obtain m2 where
    m2: "pgalloc_free (Some A) m1 p k = Inr m2" "inv m2"
      "\<forall>q. page_type m2 q = (if q \<in> blk k p then AVAILABLE else page_type m1 q)" by blast
  have "page_type m2 q = page_type m q" for q
    using m2(3) 2(5,6) e by (cases "q \<in> blk k p") auto
  with m2 show ?thesis by blast
qed

end

section \<open>The buddy algorithm under the page allocator\<close>

definition buddy_pinv :: "pmem \<Rightarrow> bool" where
  "buddy_pinv m \<longleftrightarrow> buddy_inv m \<and> coalesced (lists_of m) \<and>
     free_set m = {p. p < nr_pages m \<and> page_type m p = AVAILABLE}"

definition buddy_vb :: "pmem \<Rightarrow> nat \<Rightarrow> nat \<Rightarrow> bool" where
  "buddy_vb m k p \<longleftrightarrow> k < MAX_ORDER \<and> block_ok (nr_pages m) k p"

lemma buddy_algo_sel [simp]:
  "pa_init buddy_algo = buddy_init" "pa_reserve buddy_algo = buddy_reserve_page"
  "pa_alloc buddy_algo = buddy_alloc_pages" "pa_free buddy_algo = buddy_free_pages"
  by (simp_all add: buddy_algo_def)

lemma blk_below: "block_ok n k p \<Longrightarrow> q \<in> blk k p \<Longrightarrow> q < n"
  by (auto simp: block_ok_def blk_def)

interpretation pb: page_algorithm buddy_algo buddy_pinv buddy_vb
proof (unfold_locales, goal_cases)
  case (1 m k p)
  then show ?case by (simp add: buddy_vb_def block_ok_def)
next
  case (2 m S t k p)
  then show ?case by (simp add: buddy_vb_def)
next
  case (3 m m' k p)
  then show ?case by (simp add: buddy_vb_def same_env_nr)
next
  case (4 m k)
  then have i: "buddy_inv m" "coalesced (lists_of m)"
    and f: "free_set m = {p. p < nr_pages m \<and> page_type m p = AVAILABLE}" by (auto simp: buddy_pinv_def)
  from alloc_props [OF i(1), of k] i(2) obtain r m' where
    r: "buddy_alloc_pages m k = Inr (r, m')" "buddy_inv m'" "same_env m m'" "coalesced (lists_of m')"
      "case r of None \<Rightarrow> m' = m \<and> (\<forall>j. k \<le> j \<and> j < MAX_ORDER \<longrightarrow> lists_of m j = [])
       | Some p \<Rightarrow> k < MAX_ORDER \<and> block_ok (nr_pages m) k p \<and> blk k p \<subseteq> free_set m \<and>
                   free_set m' = free_set m - blk k p" by blast
  show ?case
  proof (cases r)
    case None
    with r 4 show ?thesis by simp
  next
    case (Some p)
    then have p: "k < MAX_ORDER" "block_ok (nr_pages m) k p" "blk k p \<subseteq> free_set m"
      "free_set m' = free_set m - blk k p" using r(5) by auto
    have "buddy_pinv (set_types m' (blk k p) ALLOCATED)"
      using r p f same_env_nr [OF r(3)] same_env_types [OF r(3)] by (auto simp: buddy_pinv_def)
    moreover have "\<forall>q \<in> blk k p. page_type m q = AVAILABLE" using p(3) f by blast
    ultimately show ?thesis using r(1,3) p Some by (auto simp: buddy_vb_def)
  qed
next
  case (5 m k p)
  then have i: "buddy_inv m" "coalesced (lists_of m)" and k: "k < MAX_ORDER" "block_ok (nr_pages m) k p"
    and f: "free_set m = {p. p < nr_pages m \<and> page_type m p = AVAILABLE}"
    by (auto simp: buddy_pinv_def buddy_vb_def)
  have "blk k p \<inter> free_set m = {}" using 5(3) f by auto
  from free_props [OF i(1) k this] i(2) obtain m' where
    m': "buddy_free_pages m p k = Inr m'" "buddy_inv m'" "same_env m m'"
      "free_set m' = free_set m \<union> blk k p" "coalesced (lists_of m')" by blast
  have "buddy_pinv (set_types m' (blk k p) AVAILABLE)"
    using m' f same_env_nr [OF m'(3)] same_env_types [OF m'(3)] blk_below [OF k(2)]
    by (auto simp: buddy_pinv_def)
  with m' show ?case by auto
qed

end
