(* ===== verification/Page_Init.thy ===== *)
theory Page_Init imports Page_Allocator begin

text \<open>
  \<open>PageAllocator::init\<close> (infos/mm/page-allocator.cpp): the descriptor array is cleared, the pages of
  the normal memory blocks become available, the pages of the kernel are marked, the algorithm is
  initialised with every page and then told to reserve each page that is not available; and the
  self test it can run in between, as a list of calls. The addresses the linker defines are the
  fields of \<open>kernel_image\<close>.
\<close>

section \<open>The self test\<close>

text \<open>
  The self test is straight-line code over the algorithm: allocations into variables, of which one is
  checked for null, releases of variables, reservations that are asserted and releases of pages by
  number. The variables are numbered in the order in which they appear.
\<close>

datatype st_call =
    Alloc_Checked nat nat
  | Alloc nat nat
  | Free nat nat
  | Reserve nat
  | Free_Pfn nat nat

fun run_calls :: "page_algo \<Rightarrow> st_call list \<Rightarrow> (nat \<Rightarrow> nat option) \<Rightarrow> pmem \<Rightarrow> (bool \<times> pmem) res" where
  "run_calls A [] env m = Inr (True, m)"
| "run_calls A (Alloc_Checked v k # cs) env m =
     res_bind (pa_alloc A m k) (\<lambda>(r, m1).
     if r = None then Inr (False, m1) else run_calls A cs (env(v := r)) m1)"
| "run_calls A (Alloc v k # cs) env m =
     res_bind (pa_alloc A m k) (\<lambda>(r, m1). run_calls A cs (env(v := r)) m1)"
| "run_calls A (Free v k # cs) env m =
     (case env v of
        None \<Rightarrow> Inl Null_Deref
      | Some p \<Rightarrow> res_bind (pa_free A m p k) (\<lambda>m1. run_calls A cs env m1))"
| "run_calls A (Reserve n # cs) env m =
     (case pfn_to_pgd m n of
        None \<Rightarrow> Inl Null_Deref
      | Some p \<Rightarrow> res_bind (pa_reserve A m p) (\<lambda>(b, m1).
                  res_bind (assert_that b) (\<lambda>_. run_calls A cs env m1)))"
| "run_calls A (Free_Pfn n k # cs) env m =
     (case pfn_to_pgd m n of
        None \<Rightarrow> Inl Null_Deref
      | Some p \<Rightarrow> res_bind (pa_free A m p k) (\<lambda>m1. run_calls A cs env m1))"

definition self_test_calls :: "st_call list" where
  "self_test_calls =
    [Alloc_Checked 0 0,
     Free 0 0,
     Alloc 0 1,
     Free 0 1,
     Alloc 1 0, Alloc 2 1, Free 1 0, Alloc 3 0, Free 2 1, Free 3 0,
     Alloc 4 0, Alloc 5 0, Alloc 6 0, Alloc 7 2, Alloc 8 0, Alloc 9 0, Alloc 10 0, Alloc 11 0,
     Free 9 0, Free 7 2, Free 10 0, Free 11 0, Free 6 0, Free 5 0, Free 4 0, Free 8 0,
     Reserve 0x14e, Reserve 0x14f,
     Free_Pfn 0x14f 0,
     Free_Pfn 0x14e 0]"

definition self_test :: "page_algo \<Rightarrow> pmem \<Rightarrow> (bool \<times> pmem) res" where
  "self_test A m = run_calls A self_test_calls (\<lambda>_. None) m"

section \<open>Initialisation\<close>

record kernel_image =
  IMAGE_START :: u64
  IMAGE_END :: u64
  STACK_START :: u64
  STACK_END :: u64
  HEAP_START :: u64

definition setup_page_descriptors :: "mem_mgr \<Rightarrow> kernel_image \<Rightarrow> pmem \<Rightarrow> (bool \<times> pmem) res" where
  "setup_page_descriptors mm ki m =
     (let m1 = m\<lparr>nr_pages := unat (last_pfn mm + 1)\<rparr> in
      res_bind (kva_to_pa (HEAP_START ki)) (\<lambda>pa.
      case lookup_phys_block (phys_blocks mm) pa of
        None \<Rightarrow> Inr (False, m1)
      | Some _ \<Rightarrow> Inr (True, m1\<lparr>descs := (\<lambda>p. if p < nr_pages m1 then \<lparr>next_free = None, pd_type = INVALID\<rparr>
                                              else descs m1 p)\<rparr>)))"

fun mark_present :: "pmem \<Rightarrow> phys_block list \<Rightarrow> pmem res" where
  "mark_present m [] = Inr m"
| "mark_present m (b # bs) =
     (if pb_type b = NORMAL
      then res_bind (mark_pages m AVAILABLE (unat (base_pfn b)) (unat (pb_pages b))) (\<lambda>m1. mark_present m1 bs)
      else mark_present m bs)"

text \<open>\<open>mark_page_range(type, start, last - start + 1)\<close>, the count converted to an unsigned 32-bit integer.\<close>

definition mark_range :: "pmem \<Rightarrow> page_descriptor_type \<Rightarrow> u64 \<Rightarrow> u64 \<Rightarrow> pmem res" where
  "mark_range m t lo hi = mark_pages m t (unat lo) (unat (ucast (hi - lo + 1) :: u32))"

definition mark_kernel :: "kernel_image \<Rightarrow> pmem \<Rightarrow> pmem res" where
  "mark_kernel ki m =
     res_bind (mark_pages m RESERVED 0 1) (\<lambda>m1.
     res_bind (mark_pages m1 ALLOCATED 1 6) (\<lambda>m2.
     res_bind (mark_range m2 RESERVED (pa_to_pfn (IMAGE_START ki)) (pa_to_pfn (IMAGE_END ki))) (\<lambda>m3.
     res_bind (kva_to_pa (STACK_START ki)) (\<lambda>s.
     res_bind (kva_to_pa (STACK_END ki)) (\<lambda>e.
     res_bind (mark_range m3 RESERVED (pa_to_pfn s) (pa_to_pfn e)) (\<lambda>m4.
     res_bind (kva_to_pa (HEAP_START ki)) (\<lambda>h.
     mark_pages m4 RESERVED (unat (pa_to_pfn h))
       (unat (of_nat (nr_pages m4 * 16 div 4096 + 1) :: u32)))))))))"

text \<open>The last loop of \<open>init\<close> over the descriptors \<open>p\<close>, \<open>p + 1\<close>, \dots of which \<open>n\<close> are left.\<close>

fun reserve_marked :: "page_algo \<Rightarrow> pmem \<Rightarrow> nat \<Rightarrow> nat \<Rightarrow> (bool \<times> pmem) res" where
  "reserve_marked A m p 0 = Inr (True, m)"
| "reserve_marked A m p (Suc n) =
     (if page_type m p \<noteq> AVAILABLE
      then res_bind (pa_reserve A m p) (\<lambda>(b, m1).
           if b then reserve_marked A m1 (Suc p) n else Inr (False, m1))
      else reserve_marked A m (Suc p) n)"

definition pgalloc_init ::
  "page_algo option \<Rightarrow> bool \<Rightarrow> mem_mgr \<Rightarrow> kernel_image \<Rightarrow> pmem \<Rightarrow> (bool \<times> pmem) res" where
  "pgalloc_init algo do_self_test mm ki m =
     (case algo of
        None \<Rightarrow> Inr (False, m)
      | Some A \<Rightarrow>
          res_bind (setup_page_descriptors mm ki m) (\<lambda>(ok, m1).
          if \<not> ok then Inr (False, m1)
          else
            res_bind (mark_present m1 (phys_blocks mm)) (\<lambda>m2.
            res_bind (mark_kernel ki m2) (\<lambda>m3.
            res_bind (pa_init A m3 (nr_pages m3)) (\<lambda>(ok, m4).
            if \<not> ok then Inr (False, m4)
            else
              res_bind (if do_self_test then self_test A m4 else Inr (True, m4)) (\<lambda>(ok, m5).
              if \<not> ok then Inl Aborted
              else reserve_marked A m5 0 (nr_pages m5)))))))"

section \<open>The self test passes with the buddy algorithm\<close>

text \<open>While fewer blocks of order at most \<open>K\<close> are held than fit into the memory, one more fits.\<close>

lemma room_for_block:
  assumes c: "buddy_cinv n (m, H)" and fin: "finite H" and small: "\<forall>x \<in> H. fst x \<le> K"
    and card: "card H < n div 2 ^ K"
  shows "\<exists>p. 2 ^ K dvd p \<and> blk K p \<subseteq> free_set m"
proof (rule ccontr)
  assume no: "\<nexists>p. 2 ^ K dvd p \<and> blk K p \<subseteq> free_set m"
  note d = buddy_cinvD [OF c]
  have "{..<n div 2 ^ K} \<subseteq> (\<lambda>(j, p). p div 2 ^ K) ` H"
  proof
    fix i assume i: "i \<in> {..<n div 2 ^ K}"
    have "Suc i \<le> n div 2 ^ K" using i by simp
    then have "Suc i * 2 ^ K \<le> n div 2 ^ K * 2 ^ K" by (rule mult_le_mono1)
    also have "\<dots> \<le> n" by simp
    finally have le: "i * 2 ^ K + 2 ^ K \<le> n" by simp
    have "\<not> blk K (i * 2 ^ K) \<subseteq> free_set m" using no dvd_triv_right by blast
    then obtain x where x: "x \<in> blk K (i * 2 ^ K)" "x \<notin> free_set m" by blast
    then have "x \<in> {0..<n}" using le by (auto simp: mem_blk)
    then have "x \<in> held_pages H" using x(2) d(7) by blast
    then obtain j p where h: "(j, p) \<in> H" "x \<in> blk j p" unfolding held_pages_def by blast
    have "2 ^ j dvd p" using d(4) [OF h(1)] by (simp add: block_ok_def)
    then have "blk j p \<subseteq> blk K (i * 2 ^ K)"
      using small h(1) by (intro aligned_sub_blk [OF _ _ _ h(2) x(1)]) auto
    then have "p \<in> blk K (i * 2 ^ K)" using blk_nonempty(1) by blast
    then have "p div 2 ^ K = i" by (intro div_nat_eqI) (auto simp: mem_blk mult.commute)
    then show "i \<in> (\<lambda>(j, p). p div 2 ^ K) ` H" using h(1) by force
  qed
  then have "card {..<n div 2 ^ K} \<le> card H" using fin by (rule surj_card_le [rotated])
  with card show False by simp
qed

lemma alloc_succeeds:
  assumes c: "buddy_cinv n (m, H)" and fin: "finite H" and small: "\<forall>x \<in> H. fst x \<le> K"
    and card: "card H < n div 2 ^ K" and k: "k \<le> K" "K < MAX_ORDER"
  shows "\<exists>p m'. buddy_alloc_pages m k = Inr (Some p, m') \<and> buddy_cinv n (m', insert (k, p) H) \<and>
    same_env m m' \<and> (k, p) \<notin> H"
proof -
  note d = buddy_cinvD [OF c]
  from room_for_block [OF c fin small card] obtain q where q: "2 ^ K dvd q" "blk K q \<subseteq> free_set m" by blast
  have al: "2 ^ k dvd q" using q(1) k(1) by (meson dvd_trans le_imp_power_dvd)
  have "(2::nat) ^ k \<le> 2 ^ K" using k(1) by (intro power_increasing) auto
  then have "blk k q \<subseteq> blk K q" by (auto simp: blk_def)
  then have "blk k q \<subseteq> fpages (lists_of m)" using q(2) unfolding free_set_def by blast
  moreover have "k < MAX_ORDER" using k by simp
  ultimately obtain j r where j: "k \<le> j" "j < MAX_ORDER" "r \<in> set (lists_of m j)"
    using coalesced_covers [OF d(2) sim_good [OF inv_sim [OF d(1)]] _ al] by blast
  then have ne: "lists_of m j \<noteq> []" by auto
  from alloc_props [OF d(1), of k] obtain r m' where
    r: "buddy_alloc_pages m k = Inr (r, m')" "buddy_inv m'" "same_env m m'" "coalesced (lists_of m')"
      "case r of None \<Rightarrow> m' = m \<and> (\<forall>j. k \<le> j \<and> j < MAX_ORDER \<longrightarrow> lists_of m j = [])
       | Some p \<Rightarrow> k < MAX_ORDER \<and> block_ok (nr_pages m) k p \<and> blk k p \<subseteq> free_set m \<and>
                   free_set m' = free_set m - blk k p" using d(2) by blast
  then obtain p where p: "r = Some p" using ne j by (cases r) auto
  then have b: "block_ok n k p" "blk k p \<subseteq> free_set m" "free_set m' = free_set m - blk k p"
    using r(5) d(3) by auto
  have "(k, p) \<notin> H"
  proof
    assume "(k, p) \<in> H"
    then have "blk k p \<subseteq> held_pages H" unfolding held_pages_def by blast
    then have "blk k p \<subseteq> {}" using b(2) d(6) by blast
    then show False using blk_nonempty(2) by blast
  qed
  moreover have "buddy_cinv n (m', insert (k, p) H)"
    using k by (intro cinv_take [OF c r(2,4,3) _ b]) simp
  ultimately show ?thesis using r p by blast
qed

text \<open>
  A static check of a list of calls: \<open>live\<close> are the variables that hold a block, with its order, and
  \<open>res\<close> the reserved pages. It admits at most \<open>bound\<close> blocks of order at most 2 at a time,
  releases only of what is held, and reservations while no variable holds a block.
\<close>

fun calls_ok :: "nat \<Rightarrow> st_call list \<Rightarrow> (nat \<times> nat) list \<Rightarrow> nat list \<Rightarrow> bool" where
  "calls_ok bound [] live res \<longleftrightarrow> live = [] \<and> res = []"
| "calls_ok bound (Alloc_Checked v k # cs) live res \<longleftrightarrow>
     k \<le> 2 \<and> v \<notin> fst ` set live \<and> length live + length res < bound \<and> calls_ok bound cs ((v, k) # live) res"
| "calls_ok bound (Alloc v k # cs) live res \<longleftrightarrow>
     k \<le> 2 \<and> v \<notin> fst ` set live \<and> length live + length res < bound \<and> calls_ok bound cs ((v, k) # live) res"
| "calls_ok bound (Free v k # cs) live res \<longleftrightarrow>
     (v, k) \<in> set live \<and> calls_ok bound cs (remove1 (v, k) live) res"
| "calls_ok bound (Reserve n # cs) live res \<longleftrightarrow>
     live = [] \<and> n \<notin> set res \<and> n < 4 * bound \<and> calls_ok bound cs live (n # res)"
| "calls_ok bound (Free_Pfn n k # cs) live res \<longleftrightarrow>
     k = 0 \<and> live = [] \<and> n \<in> set res \<and> calls_ok bound cs live (remove1 n res)"

text \<open>The blocks held: the values of the live variables and the reserved pages.\<close>

definition calls_held :: "(nat \<Rightarrow> nat option) \<Rightarrow> (nat \<times> nat) list \<Rightarrow> nat list \<Rightarrow> (nat \<times> nat) list" where
  "calls_held env live res = map (\<lambda>(v, k). (k, the (env v))) live @ map (\<lambda>p. (0, p)) res"

definition calls_inv :: "nat \<Rightarrow> (nat \<Rightarrow> nat option) \<Rightarrow> (nat \<times> nat) list \<Rightarrow> nat list \<Rightarrow> pmem \<Rightarrow> bool" where
  "calls_inv n env live res m \<longleftrightarrow> buddy_cinv n (m, set (calls_held env live res)) \<and>
     distinct (calls_held env live res) \<and> distinct (map fst live) \<and>
     (\<forall>(v, k) \<in> set live. env v \<noteq> None \<and> k \<le> 2)"

lemma calls_held_upd:
  "v \<notin> fst ` set live \<Longrightarrow> calls_held (env(v := r)) live res = calls_held env live res"
  by (force simp: calls_held_def)

lemma calls_held_small:
  "calls_inv n env live res m \<Longrightarrow> (j, p) \<in> set (calls_held env live res) \<Longrightarrow> j \<le> 2"
  by (auto simp: calls_inv_def calls_held_def)

lemma calls_alloc:
  assumes i: "calls_inv n env live res m" and v: "v \<notin> fst ` set live" and k: "k \<le> 2"
    and len: "length live + length res < bound" "4 * bound \<le> n"
  shows "\<exists>p m'. buddy_alloc_pages m k = Inr (Some p, m') \<and> same_env m m' \<and>
    calls_inv n (env(v := Some p)) ((v, k) # live) res m'"
proof -
  let ?H = "calls_held env live res"
  have c: "buddy_cinv n (m, set ?H)" and dist: "distinct ?H" using i by (auto simp: calls_inv_def)
  have "card (set ?H) = length ?H" by (rule distinct_card [OF dist])
  then have "card (set ?H) < bound" using len(1) by (simp add: calls_held_def)
  also have "bound \<le> n div 4" using len(2) by linarith
  finally have "card (set ?H) < n div 2 ^ 2" by simp
  moreover have "\<forall>x \<in> set ?H. fst x \<le> 2" using calls_held_small [OF i] by auto
  ultimately obtain p m' where
    p: "buddy_alloc_pages m k = Inr (Some p, m')" "buddy_cinv n (m', insert (k, p) (set ?H))"
      "same_env m m'" "(k, p) \<notin> set ?H"
    using alloc_succeeds [of n m "set ?H" 2 k, OF c finite_set] k by (auto simp: MAX_ORDER_def)
  have "calls_held (env(v := Some p)) ((v, k) # live) res = (k, p) # ?H"
    using calls_held_upd [OF v, of env "Some p" res] by (simp add: calls_held_def)
  moreover have "\<forall>(w, j) \<in> set ((v, k) # live). (env(v := Some p)) w \<noteq> None \<and> j \<le> 2"
    using i k by (auto simp: calls_inv_def)
  moreover have "distinct (map fst ((v, k) # live))" using i v by (auto simp: calls_inv_def)
  ultimately have "calls_inv n (env(v := Some p)) ((v, k) # live) res m'"
    using p(2,4) dist by (simp add: calls_inv_def)
  with p show ?thesis by blast
qed

lemma calls_held_remove:
  assumes "distinct (calls_held env live res)" and "(v, k) \<in> set live"
  shows "set (calls_held env (remove1 (v, k) live) res) = set (calls_held env live res) - {(k, the (env v))}"
    and "distinct (calls_held env (remove1 (v, k) live) res)"
proof -
  obtain xs ys where l: "live = xs @ (v, k) # ys" "(v, k) \<notin> set xs" using split_list_first [OF assms(2)] by blast
  then have r: "remove1 (v, k) live = xs @ ys" by (simp add: remove1_append)
  show "set (calls_held env (remove1 (v, k) live) res) = set (calls_held env live res) - {(k, the (env v))}"
    "distinct (calls_held env (remove1 (v, k) live) res)"
    using assms(1) unfolding r unfolding l(1) by (auto simp: calls_held_def)
qed

lemma calls_free:
  assumes i: "calls_inv n env live res m" and v: "(v, k) \<in> set live"
  shows "\<exists>p m'. env v = Some p \<and> buddy_free_pages m p k = Inr m' \<and> same_env m m' \<and>
    calls_inv n env (remove1 (v, k) live) res m'"
proof -
  have c: "buddy_cinv n (m, set (calls_held env live res))" and dist: "distinct (calls_held env live res)"
    and e: "env v \<noteq> None" using i v by (auto simp: calls_inv_def)
  then obtain p where p: "env v = Some p" by auto
  have h: "(k, p) \<in> set (calls_held env live res)" using v p by (force simp: calls_held_def)
  note d = buddy_cinvD [OF c]
  have "blk k p \<subseteq> held_pages (set (calls_held env live res))" using h unfolding held_pages_def by blast
  then have "blk k p \<inter> free_set m = {}" using d(6) by blast
  from free_props [OF d(1) _ _ this] d(2,3) d(4) [OF h] obtain m' where
    m': "buddy_free_pages m p k = Inr m'" "buddy_inv m'" "same_env m m'" "free_set m' = free_set m \<union> blk k p"
      "coalesced (lists_of m')" by blast
  have "buddy_cinv n (m', set (calls_held env (remove1 (v, k) live) res))"
    using cinv_give [OF c m'(2,5,3) h m'(4)] calls_held_remove(1) [OF dist v] p by simp
  moreover have "distinct (map fst (remove1 (v, k) live))" using i unfolding calls_inv_def by (metis distinct_map distinct_remove1 inj_on_subset set_remove1_subset)
  moreover have "\<forall>(w, j) \<in> set (remove1 (v, k) live). env w \<noteq> None \<and> j \<le> 2"
    using i set_remove1_subset [of "(v, k)" live] unfolding calls_inv_def by blast
  ultimately show ?thesis
    using m' p calls_held_remove(2) [OF dist v] by (simp add: calls_inv_def)
qed

lemma held_res: "held_pages (set (calls_held env [] res)) = set res"
  by (auto simp: held_pages_def calls_held_def blk_def)

lemma calls_reserve:
  assumes i: "calls_inv n env [] res m" and q: "q \<notin> set res" "q < n"
  shows "\<exists>m'. buddy_reserve_page m q = Inr (True, m') \<and> same_env m m' \<and> calls_inv n env [] (q # res) m'"
proof -
  have c: "buddy_cinv n (m, set (calls_held env [] res))" and dist: "distinct (calls_held env [] res)"
    using i by (auto simp: calls_inv_def)
  note d = buddy_cinvD [OF c]
  have "q \<in> free_set m \<union> set res" using d(7) q(2) unfolding held_res by simp
  then have f: "q \<in> free_set m" using q(1) by blast
  from reserve_props [OF d(1), of q] f d(2) obtain m' where
    m': "buddy_reserve_page m q = Inr (True, m')" "buddy_inv m'" "same_env m m'"
      "free_set m' = free_set m - {q}" "coalesced (lists_of m')" by auto
  have b: "blk 0 q = {q}" by (auto simp: blk_def)
  have "0 < MAX_ORDER" "block_ok n 0 q" "blk 0 q \<subseteq> free_set m" "free_set m' = free_set m - blk 0 q"
    using f m'(4) q(2) b by (simp_all add: MAX_ORDER_def block_ok_def)
  then have "buddy_cinv n (m', insert (0, q) (set (calls_held env [] res)))"
    by (rule cinv_take [OF c m'(2,5,3)])
  then show ?thesis using m' dist q(1) by (auto simp: calls_inv_def calls_held_def)
qed

lemma calls_free_pfn:
  assumes i: "calls_inv n env [] res m" and q: "q \<in> set res"
  shows "\<exists>m'. buddy_free_pages m q 0 = Inr m' \<and> same_env m m' \<and> calls_inv n env [] (remove1 q res) m'"
proof -
  have c: "buddy_cinv n (m, set (calls_held env [] res))" and dist: "distinct res"
    using i by (auto simp: calls_inv_def calls_held_def distinct_map)
  have h: "(0, q) \<in> set (calls_held env [] res)" using q by (auto simp: calls_held_def)
  note d = buddy_cinvD [OF c]
  have "blk 0 q \<inter> free_set m = {}" using d(6) q unfolding held_res by (auto simp: blk_def)
  moreover have "block_ok (nr_pages m) 0 q" "0 < MAX_ORDER" using d(4) [OF h] d(3) by auto
  ultimately obtain m' where
    m': "buddy_free_pages m q 0 = Inr m'" "buddy_inv m'" "same_env m m'" "free_set m' = free_set m \<union> blk 0 q"
      "coalesced (lists_of m')"
    using free_props [OF d(1), of 0 q] d(2) by blast
  have "set (calls_held env [] (remove1 q res)) = set (calls_held env [] res) - {(0, q)}"
    using dist by (auto simp: calls_held_def)
  then have "buddy_cinv n (m', set (calls_held env [] (remove1 q res)))"
    using cinv_give [OF c m'(2,5,3) h m'(4)] by simp
  moreover have "distinct (calls_held env [] (remove1 q res))"
    using dist by (simp add: calls_held_def distinct_map inj_on_def)
  ultimately show ?thesis using m' by (simp add: calls_inv_def)
qed

lemma run_calls_ok:
  "calls_ok bound cs live res \<Longrightarrow> calls_inv n env live res m \<Longrightarrow> 4 * bound \<le> n \<Longrightarrow>
     \<exists>m'. run_calls buddy_algo cs env m = Inr (True, m') \<and> buddy_cinv n (m', {}) \<and> same_env m m'"
proof (induction bound cs live res arbitrary: env m rule: calls_ok.induct)
  case (1 bound live res)
  then show ?case by (simp add: calls_inv_def calls_held_def)
next
  case (2 bound v k cs live res)
  from 2 calls_alloc [of n env live res m v k bound] obtain p m1 where
    p: "buddy_alloc_pages m k = Inr (Some p, m1)" "same_env m m1"
       "calls_inv n (env(v := Some p)) ((v, k) # live) res m1" by auto
  moreover have "calls_ok bound cs ((v, k) # live) res" using 2(2) by simp
  ultimately obtain m' where
    "run_calls buddy_algo cs (env(v := Some p)) m1 = Inr (True, m')" "buddy_cinv n (m', {})" "same_env m1 m'"
    using 2(1) [OF _ p(3)] 2(4) by blast
  with p(1) same_env_trans [OF p(2)] show ?case by simp
next
  case (3 bound v k cs live res)
  from 3 calls_alloc [of n env live res m v k bound] obtain p m1 where
    p: "buddy_alloc_pages m k = Inr (Some p, m1)" "same_env m m1"
       "calls_inv n (env(v := Some p)) ((v, k) # live) res m1" by auto
  moreover have "calls_ok bound cs ((v, k) # live) res" using 3(2) by simp
  ultimately obtain m' where
    "run_calls buddy_algo cs (env(v := Some p)) m1 = Inr (True, m')" "buddy_cinv n (m', {})" "same_env m1 m'"
    using 3(1) [OF _ p(3)] 3(4) by blast
  with p(1) same_env_trans [OF p(2)] show ?case by simp
next
  case (4 bound v k cs live res)
  from 4 calls_free [of n env live res m v k] obtain p m1 where
    p: "env v = Some p" "buddy_free_pages m p k = Inr m1" "same_env m m1"
       "calls_inv n env (remove1 (v, k) live) res m1" by auto
  from 4(1) [OF _ p(4)] 4(2,4) obtain m' where
    "run_calls buddy_algo cs env m1 = Inr (True, m')" "buddy_cinv n (m', {})" "same_env m1 m'" by auto
  with p(1,2) same_env_trans [OF p(3)] show ?case by simp
next
  case (5 bound q cs live res)
  then have l: "live = []" "q \<notin> set res" "q < n" and nr: "nr_pages m = n"
    by (auto simp: calls_inv_def buddy_cinv_def)
  from calls_reserve [OF 5(3) [unfolded l(1)] l(2,3)] obtain m1 where
    p: "buddy_reserve_page m q = Inr (True, m1)" "same_env m m1" "calls_inv n env live (q # res) m1"
    unfolding l(1) by blast
  from 5(1) [OF _ p(3)] 5(2,4) obtain m' where
    "run_calls buddy_algo cs env m1 = Inr (True, m')" "buddy_cinv n (m', {})" "same_env m1 m'" by auto
  with p(1) same_env_trans [OF p(2)] nr l(3) show ?case by (simp add: pfn_to_pgd_def)
next
  case (6 bound q k cs live res)
  then have l: "live = []" "q \<in> set res" "k = 0" and nr: "nr_pages m = n"
    by (auto simp: calls_inv_def buddy_cinv_def)
  have "(0, q) \<in> set (calls_held env live res)" using l by (auto simp: calls_held_def)
  then have "block_ok n 0 q" using 6(3) unfolding calls_inv_def by (auto dest: buddy_cinvD(4))
  then have q: "q < n" by (simp add: block_ok_def)
  from calls_free_pfn [OF 6(3) [unfolded l(1)] l(2)] obtain m1 where
    p: "buddy_free_pages m q 0 = Inr m1" "same_env m m1" "calls_inv n env live (remove1 q res) m1"
    unfolding l(1) by blast
  from 6(1) [OF _ p(3)] 6(2,4) obtain m' where
    "run_calls buddy_algo cs env m1 = Inr (True, m')" "buddy_cinv n (m', {})" "same_env m1 m'" by auto
  with p(1) same_env_trans [OF p(2)] nr q l(3) show ?case by (simp add: pfn_to_pgd_def)
qed

lemma self_test_ok:
  assumes inv: "buddy_inv m" "coalesced (lists_of m)" and free: "free_set m = {0..<nr_pages m}"
    and n: "336 \<le> nr_pages m"
  shows "\<exists>m'. self_test buddy_algo m = Inr (True, m') \<and> buddy_inv m' \<and> coalesced (lists_of m') \<and>
    free_set m' = {0..<nr_pages m} \<and> same_env m m'"
proof -
  have ok: "calls_ok 84 self_test_calls [] []" by (simp add: self_test_calls_def)
  have "calls_inv (nr_pages m) (\<lambda>_. None) [] [] m"
    using inv free by (simp add: calls_inv_def calls_held_def buddy_cinv_def held_disjoint_def held_pages_def)
  from run_calls_ok [OF ok this] n obtain m' where
    m': "self_test buddy_algo m = Inr (True, m')" "buddy_cinv (nr_pages m) (m', {})" "same_env m m'"
    by (auto simp: self_test_def)
  then show ?thesis using buddy_cinvD [OF m'(2)] by (auto simp: held_pages_def)
qed

end
