(* ===== verification/Simple_Alloc.thy ===== *)
theory Simple_Alloc imports Page_Init begin

text \<open>
  The simple page allocation algorithm of \<open>infos/mm/simple-page-alloc.cpp\<close>: it keeps no lists and
  scans the descriptors for the first run of available pages, so what is free is what the page
  allocator has marked available. The scan does not look at the end of the array, so the contract of
  \<open>page_algorithm\<close> holds for it only while the last page is not available; there the locale is
  interpreted.
\<close>

section \<open>The algorithm\<close>

text \<open>
  The inner loop: the first of the \<open>n\<close> descriptors from \<open>sub\<close> on that is not available. A
  descriptor at or above \<open>_nr_pgds\<close> is outside the array.
\<close>

fun scan_run :: "pmem \<Rightarrow> nat \<Rightarrow> nat \<Rightarrow> nat option res" where
  "scan_run m sub 0 = Inr None"
| "scan_run m sub (Suc n) =
     (if sub < nr_pages m then
        (if page_type m sub \<noteq> AVAILABLE then Inr (Some sub) else scan_run m (Suc sub) n)
      else Inl Out_Of_Bounds)"

lemma scan_run_ge: "scan_run m sub n = Inr (Some s) \<Longrightarrow> sub \<le> s"
proof (induction m sub n rule: scan_run.induct)
  case (2 m sub n)
  show ?case
  proof (cases "page_type m sub \<noteq> AVAILABLE")
    case True
    with 2(2) show ?thesis by (auto split: if_splits)
  next
    case False
    then have "scan_run m (Suc sub) n = Inr (Some s)" using 2(2) by (auto split: if_splits)
    with False 2 show ?thesis by (force split: if_splits)
  qed
qed simp

text \<open>The outer loop; after a run that fails at \<open>s\<close> it goes on at \<open>s + 1\<close>.\<close>

function scan_from :: "pmem \<Rightarrow> nat \<Rightarrow> nat \<Rightarrow> nat option res" where
  "scan_from m n idx =
     (if idx < nr_pages m then
        (case scan_run m idx n of
           Inl e \<Rightarrow> Inl e
         | Inr None \<Rightarrow> Inr (Some idx)
         | Inr (Some s) \<Rightarrow> scan_from m n (s + 1))
      else Inr None)"
  by pat_completeness auto
termination
  by (relation "measure (\<lambda>(m, n, idx). nr_pages m - idx)") (auto dest: scan_run_ge)

declare scan_from.simps [simp del]

definition simple_init :: "pmem \<Rightarrow> nat \<Rightarrow> (bool \<times> pmem) res" where
  "simple_init m n = Inr (True, m\<lparr>nr_pages := n\<rparr>)"

definition simple_alloc_pages :: "pmem \<Rightarrow> nat \<Rightarrow> (nat option \<times> pmem) res" where
  "simple_alloc_pages m order = res_bind (scan_from m (2 ^ order) 0) (\<lambda>r. Inr (r, m))"

fun check_allocated :: "pmem \<Rightarrow> nat \<Rightarrow> nat \<Rightarrow> unit res" where
  "check_allocated m p 0 = Inr ()"
| "check_allocated m p (Suc n) =
     (if p < nr_pages m then
        res_bind (assert_that (page_type m p = ALLOCATED)) (\<lambda>_. check_allocated m (Suc p) n)
      else Inl Out_Of_Bounds)"

definition simple_free_pages :: "pmem \<Rightarrow> nat \<Rightarrow> nat \<Rightarrow> pmem res" where
  "simple_free_pages m pgd order = res_bind (check_allocated m pgd (2 ^ order)) (\<lambda>_. Inr m)"

definition simple_reserve_page :: "pmem \<Rightarrow> nat \<Rightarrow> (bool \<times> pmem) res" where
  "simple_reserve_page m pgd =
     res_bind (assert_that (page_type m pgd \<noteq> AVAILABLE)) (\<lambda>_. Inr (True, m))"

definition simple_algo :: page_algo where
  "simple_algo = \<lparr>pa_init = simple_init, pa_reserve = simple_reserve_page, pa_alloc = simple_alloc_pages,
     pa_free = simple_free_pages\<rparr>"

section \<open>What the scan finds\<close>

definition run_at :: "pmem \<Rightarrow> nat \<Rightarrow> nat \<Rightarrow> bool" where
  "run_at m n p \<longleftrightarrow> (\<forall>q \<in> {p..<p + n}. page_type m q = AVAILABLE)"

lemma run_at_Suc: "run_at m (Suc n) p \<longleftrightarrow> page_type m p = AVAILABLE \<and> run_at m n (Suc p)"
  using atLeastLessThan_insert [of p n] by (auto simp: run_at_def)

lemma scan_run_None: "scan_run m sub n = Inr None \<Longrightarrow> run_at m n sub \<and> (n = 0 \<or> sub + n \<le> nr_pages m)"
proof (induction m sub n rule: scan_run.induct)
  case (1 m sub)
  then show ?case by (simp add: run_at_def)
next
  case (2 m sub n)
  have a: "sub < nr_pages m" "page_type m sub = AVAILABLE" "scan_run m (Suc sub) n = Inr None"
    using 2(2) by (auto split: if_splits)
  then have "run_at m n (Suc sub)" "n = 0 \<or> Suc sub + n \<le> nr_pages m" using 2(1) by auto
  with a show ?case by (simp add: run_at_Suc) linarith
qed

lemma scan_run_Some:
  "scan_run m sub n = Inr (Some s) \<Longrightarrow>
     sub \<le> s \<and> s < sub + n \<and> s < nr_pages m \<and> page_type m s \<noteq> AVAILABLE \<and> run_at m (s - sub) sub"
proof (induction m sub n rule: scan_run.induct)
  case (1 m sub)
  then show ?case by simp
next
  case (2 m sub n)
  show ?case
  proof (cases "page_type m sub \<noteq> AVAILABLE")
    case True
    with 2(2) show ?thesis by (auto simp: run_at_def split: if_splits)
  next
    case False
    then have "scan_run m (Suc sub) n = Inr (Some s)" "sub < nr_pages m" using 2(2) by (auto split: if_splits)
    then have r: "Suc sub \<le> s" "s < Suc sub + n" "s < nr_pages m" "page_type m s \<noteq> AVAILABLE"
      "run_at m (s - Suc sub) (Suc sub)" using 2(1) False by auto
    then have "s - sub = Suc (s - Suc sub)" by simp
    with r False show ?thesis by (simp add: run_at_Suc)
  qed
qed

text \<open>The last page, when it is not available, keeps the scan inside the array.\<close>

lemma scan_run_sentinel:
  "z < nr_pages m \<Longrightarrow> page_type m z \<noteq> AVAILABLE \<Longrightarrow> sub \<le> z \<Longrightarrow> \<exists>r. scan_run m sub n = Inr r"
proof (induction m sub n rule: scan_run.induct)
  case (2 m sub n)
  then show ?case by (cases "sub = z") auto
qed simp

lemma scan_from_first:
  "z < nr_pages m \<Longrightarrow> page_type m z \<noteq> AVAILABLE \<Longrightarrow> z + 1 = nr_pages m \<Longrightarrow> 0 < n \<Longrightarrow>
     \<exists>r. scan_from m n idx = Inr r \<and>
       (case r of
          None \<Rightarrow> \<forall>p. idx \<le> p \<and> p + n \<le> nr_pages m \<longrightarrow> \<not> run_at m n p
        | Some p \<Rightarrow> idx \<le> p \<and> p + n \<le> nr_pages m \<and> run_at m n p \<and>
                    (\<forall>p'. idx \<le> p' \<and> p' < p \<longrightarrow> \<not> run_at m n p'))"
proof (induction m n idx rule: scan_from.induct)
  case (1 m n idx)
  show ?case
  proof (cases "idx < nr_pages m")
    case False
    then show ?thesis using "1.prems" by (subst scan_from.simps) auto
  next
    case True
    then have "idx \<le> z" using "1.prems"(3) by simp
    from scan_run_sentinel [OF "1.prems"(1,2) this] obtain r where r: "scan_run m idx n = Inr r" by blast
    show ?thesis
    proof (cases r)
      case None
      then have "scan_from m n idx = Inr (Some idx)" using True r by (subst scan_from.simps) simp
      with scan_run_None r None "1.prems"(4) show ?thesis by fastforce
    next
      case (Some s)
      note st = scan_run_Some [OF r [unfolded Some]]
      have eq: "scan_from m n idx = scan_from m n (s + 1)" using True r Some by (subst scan_from.simps) simp
      have skip: "\<not> run_at m n p" if "idx \<le> p" "p < s + 1" for p
      proof -
        have "s \<in> {p..<p + n}" using that st by auto
        then show ?thesis using st by (auto simp: run_at_def)
      qed
      from "1.IH" [OF True r Some "1.prems"] obtain r' where
        r': "scan_from m n (s + 1) = Inr r'"
          "case r' of None \<Rightarrow> \<forall>p. s + 1 \<le> p \<and> p + n \<le> nr_pages m \<longrightarrow> \<not> run_at m n p
           | Some p \<Rightarrow> s + 1 \<le> p \<and> p + n \<le> nr_pages m \<and> run_at m n p \<and>
                       (\<forall>p'. s + 1 \<le> p' \<and> p' < p \<longrightarrow> \<not> run_at m n p')" by blast
      have "case r' of None \<Rightarrow> \<forall>p. idx \<le> p \<and> p + n \<le> nr_pages m \<longrightarrow> \<not> run_at m n p
         | Some p \<Rightarrow> idx \<le> p \<and> p + n \<le> nr_pages m \<and> run_at m n p \<and>
                     (\<forall>p'. idx \<le> p' \<and> p' < p \<longrightarrow> \<not> run_at m n p')"
        using r'(2) skip st by (auto split: option.splits) (meson not_less)+
      with eq r'(1) show ?thesis by simp
    qed
  qed
qed

lemma check_allocated_ok:
  "p + n \<le> nr_pages m \<Longrightarrow> (\<And>q. p \<le> q \<Longrightarrow> q < p + n \<Longrightarrow> page_type m q = ALLOCATED) \<Longrightarrow>
     check_allocated m p n = Inr ()"
  by (induction m p n rule: check_allocated.induct) auto

section \<open>The contract\<close>

definition simple_inv :: "pmem \<Rightarrow> bool" where
  "simple_inv m \<longleftrightarrow> 0 < nr_pages m \<and> page_type m (nr_pages m - 1) = RESERVED"

definition simple_vb :: "pmem \<Rightarrow> nat \<Rightarrow> nat \<Rightarrow> bool" where
  "simple_vb m k p \<longleftrightarrow> p + 2 ^ k \<le> nr_pages m"

lemma simple_algo_sel [simp]:
  "pa_init simple_algo = simple_init" "pa_reserve simple_algo = simple_reserve_page"
  "pa_alloc simple_algo = simple_alloc_pages" "pa_free simple_algo = simple_free_pages"
  by (simp_all add: simple_algo_def)

lemma simple_alloc_first_fit:
  assumes "simple_inv m"
  shows "\<exists>r. simple_alloc_pages m k = Inr (r, m) \<and>
    (case r of
       None \<Rightarrow> \<forall>p. p + 2 ^ k \<le> nr_pages m \<longrightarrow> \<not> run_at m (2 ^ k) p
     | Some p \<Rightarrow> p + 2 ^ k \<le> nr_pages m \<and> run_at m (2 ^ k) p \<and> (\<forall>p' < p. \<not> run_at m (2 ^ k) p'))"
proof -
  from assms obtain z where l: "nr_pages m = z + 1" "page_type m z = RESERVED"
    by (metis simple_inv_def Suc_eq_plus1 Suc_pred')
  from scan_from_first [of z m "2 ^ k" 0] l obtain r where
    "scan_from m (2 ^ k) 0 = Inr r"
    "case r of None \<Rightarrow> \<forall>p. 0 \<le> p \<and> p + 2 ^ k \<le> nr_pages m \<longrightarrow> \<not> run_at m (2 ^ k) p
     | Some p \<Rightarrow> 0 \<le> p \<and> p + 2 ^ k \<le> nr_pages m \<and> run_at m (2 ^ k) p \<and>
                 (\<forall>p'. 0 \<le> p' \<and> p' < p \<longrightarrow> \<not> run_at m (2 ^ k) p')" by auto
  then show ?thesis by (auto simp: simple_alloc_pages_def split: option.splits)
qed

interpretation ps: page_algorithm simple_algo simple_inv simple_vb
proof (unfold_locales, goal_cases)
  case (1 m k p)
  then show ?case by (simp add: simple_vb_def)
next
  case (2 m S t k p)
  then show ?case by (simp add: simple_vb_def)
next
  case (3 m m' k p)
  then show ?case by (simp add: simple_vb_def same_env_nr)
next
  case (4 m k)
  from simple_alloc_first_fit [OF 4, of k] obtain r where
    r: "simple_alloc_pages m k = Inr (r, m)"
      "case r of None \<Rightarrow> \<forall>p. p + 2 ^ k \<le> nr_pages m \<longrightarrow> \<not> run_at m (2 ^ k) p
       | Some p \<Rightarrow> p + 2 ^ k \<le> nr_pages m \<and> run_at m (2 ^ k) p \<and> (\<forall>p' < p. \<not> run_at m (2 ^ k) p')" by blast
  show ?case
  proof (cases r)
    case None
    with r 4 show ?thesis by simp
  next
    case (Some p)
    then have p: "p + 2 ^ k \<le> nr_pages m" "\<forall>q \<in> blk k p. page_type m q = AVAILABLE"
      using r(2) by (auto simp: run_at_def blk_def)
    then have "simple_inv (set_types m (blk k p) ALLOCATED)" using 4 by (auto simp: simple_inv_def)
    with p r Some show ?thesis by (simp add: simple_vb_def)
  qed
next
  case (5 m k p)
  then have "check_allocated m p (2 ^ k) = Inr ()"
    by (intro check_allocated_ok) (auto simp: simple_vb_def blk_def)
  then have "simple_free_pages m p k = Inr m" by (simp add: simple_free_pages_def)
  moreover have "simple_inv (set_types m (blk k p) AVAILABLE)" using 5 by (auto simp: simple_inv_def)
  ultimately show ?case by simp
qed

end
