(* ===== verification/Page_Spec.thy ===== *)
theory Page_Spec imports Simple_Alloc Buddy_Spec begin

text \<open>
  The properties of the page allocator with its two algorithms, of its initialisation and self test,
  and of the physical memory blocks.
\<close>

section \<open>Initialisation\<close>

definition block_pages :: "phys_block \<Rightarrow> nat set" where
  "block_pages b = {unat (base_pfn b)..<unat (base_pfn b) + unat (pb_pages b)}"

definition normal_pages :: "mem_mgr \<Rightarrow> nat set" where
  "normal_pages mm = (\<Union>b \<in> {b \<in> set (phys_blocks mm). pb_type b = NORMAL}. block_pages b)"

lemma mark_pages_ok:
  "{s..<s + n} \<subseteq> {..<nr_pages m} \<Longrightarrow> mark_pages m t s n = Inr (set_types m {s..<s + n} t)"
proof -
  assume a: "{s..<s + n} \<subseteq> {..<nr_pages m}"
  have "n = 0 \<or> s + n \<le> nr_pages m"
  proof (cases n)
    case (Suc k)
    then have "s + k \<in> {..<nr_pages m}" by (intro subsetD [OF a]) simp
    with Suc show ?thesis by simp
  qed simp
  then show ?thesis unfolding mark_pages_eq by (rule if_P)
qed

lemma mark_present_ok:
  "(\<Union>b \<in> {b \<in> set bs. pb_type b = NORMAL}. block_pages b) \<subseteq> {..<nr_pages m} \<Longrightarrow>
     \<exists>m'. mark_present m bs = Inr m' \<and> nr_pages m' = nr_pages m \<and> free_areas m' = free_areas m \<and>
       (\<forall>p. page_type m' p = (if p \<in> (\<Union>b \<in> {b \<in> set bs. pb_type b = NORMAL}. block_pages b)
                               then AVAILABLE else page_type m p))"
proof (induction m bs rule: mark_present.induct)
  case (2 m b bs)
  show ?case
  proof (cases "pb_type b = NORMAL")
    case True
    then have in_b: "block_pages b \<subseteq> {..<nr_pages m}" using 2(3) by auto
    let ?m1 = "set_types m (block_pages b) AVAILABLE"
    have m1: "mark_pages m AVAILABLE (unat (base_pfn b)) (unat (pb_pages b)) = Inr ?m1"
      using mark_pages_ok [OF in_b [unfolded block_pages_def]] by (simp add: block_pages_def)
    have "(\<Union>b \<in> {b \<in> set bs. pb_type b = NORMAL}. block_pages b) \<subseteq> {..<nr_pages ?m1}" using 2(3) by auto
    from 2(1) [OF True m1 this] show ?thesis using True by (fastforce simp: m1)
  next
    case False
    then have "{b' \<in> set (b # bs). pb_type b' = NORMAL} = {b' \<in> set bs. pb_type b' = NORMAL}" by auto
    with 2 False show ?thesis by simp
  qed
qed simp

text \<open>
  The pages the kernel occupies: the first seven, those of its image and of its stack, and from the
  start of its heap on the array of 16-byte descriptors and one page more.
\<close>

definition in_kernel_window :: "u64 \<Rightarrow> bool" where
  "in_kernel_window va \<longleftrightarrow> KERNEL_VMEM_START \<le> va \<and> va \<le> KERNEL_VMEM_END"

definition kernel_page :: "u64 \<Rightarrow> nat" where
  "kernel_page va = unat (va - KERNEL_VMEM_START) div 4096"

definition nr_all_pages :: "mem_mgr \<Rightarrow> nat" where
  "nr_all_pages mm = unat (last_pfn mm) + 1"

definition image_pages :: "kernel_image \<Rightarrow> nat set" where
  "image_pages ki = {unat (IMAGE_START ki) div 4096..unat (IMAGE_END ki) div 4096}"

definition stack_pages :: "kernel_image \<Rightarrow> nat set" where
  "stack_pages ki = {kernel_page (STACK_START ki)..kernel_page (STACK_END ki)}"

definition descriptor_pages :: "mem_mgr \<Rightarrow> kernel_image \<Rightarrow> nat set" where
  "descriptor_pages mm ki =
     {kernel_page (HEAP_START ki)..kernel_page (HEAP_START ki) + 16 * nr_all_pages mm div 4096}"

definition kernel_pages :: "mem_mgr \<Rightarrow> kernel_image \<Rightarrow> nat set" where
  "kernel_pages mm ki = {0..6} \<union> image_pages ki \<union> stack_pages ki \<union> descriptor_pages mm ki"

definition layout_ok :: "mem_mgr \<Rightarrow> kernel_image \<Rightarrow> bool" where
  "layout_ok mm ki \<longleftrightarrow> nr_all_pages mm < 2 ^ 32 \<and>
     in_kernel_window (STACK_START ki) \<and> in_kernel_window (STACK_END ki) \<and> in_kernel_window (HEAP_START ki) \<and>
     IMAGE_START ki \<le> IMAGE_END ki \<and> STACK_START ki \<le> STACK_END ki \<and>
     normal_pages mm \<union> kernel_pages mm ki \<subseteq> {..<nr_all_pages mm}"

lemma unat_pfn: "unat (pa_to_pfn a) = unat a div 4096"
  unfolding pa_to_pfn_def unat_drop_bit_eq by (simp add: drop_bit_eq_div)

lemma window_pa:
  "in_kernel_window va \<Longrightarrow> kva_to_pa va = Inr (va - KERNEL_VMEM_START)"
  "unat (pa_to_pfn (va - KERNEL_VMEM_START)) = kernel_page va"
  unfolding kernel_page_def unat_pfn by (simp_all add: in_kernel_window_def kva_to_pa_def)

lemma mark_range_ok:
  assumes "unat lo = a" and "unat hi = b" and "a \<le> b" and "{a..b} \<subseteq> {..<nr_pages m}" and "nr_pages m < 2 ^ 32"
  shows "mark_range m t lo hi = Inr (set_types m {a..b} t)"
proof -
  have "b < nr_pages m" using assms(3,4) by auto
  have "lo \<le> hi" using assms(1-3) by (simp add: word_le_nat_alt)
  then have d: "unat (hi - lo) = b - a" using assms(1,2) by (simp add: unat_sub)
  have "unat (hi - lo + 1) = b - a + 1"
    using d \<open>b < nr_pages m\<close> assms(5) by (simp add: unat_word_ariths)
  then have "unat (ucast (hi - lo + 1) :: u32) = b - a + 1"
    using \<open>b < nr_pages m\<close> assms(5) by (simp add: unsigned_ucast_eq take_bit_nat_eq_self)
  moreover have "{a..<a + (b - a + 1)} = {a..b}" using assms(3) by auto
  ultimately show ?thesis using mark_pages_ok [of a "b - a + 1" m t] assms(1,4) by (simp add: mark_range_def)
qed

lemma mark_kernel_ok:
  assumes l: "layout_ok mm ki" and n: "nr_pages m = nr_all_pages mm"
  shows "\<exists>m'. mark_kernel ki m = Inr m' \<and> nr_pages m' = nr_pages m \<and> free_areas m' = free_areas m \<and>
    (\<forall>p. page_type m' p = AVAILABLE \<longleftrightarrow> page_type m p = AVAILABLE \<and> p \<notin> kernel_pages mm ki)"
proof -
  let ?N = "{..<nr_all_pages mm}"
  have sub: "{0..6} \<subseteq> ?N" "image_pages ki \<subseteq> ?N" "stack_pages ki \<subseteq> ?N" "descriptor_pages mm ki \<subseteq> ?N"
    and w: "in_kernel_window (STACK_START ki)" "in_kernel_window (STACK_END ki)" "in_kernel_window (HEAP_START ki)"
    and big: "nr_all_pages mm < 2 ^ 32"
    using l by (auto simp: layout_ok_def kernel_pages_def)
  have p0: "mark_pages m t 0 1 = Inr (set_types m {0..<0 + 1} t)"
    if "nr_pages m = nr_all_pages mm" for m t using sub(1) that by (intro mark_pages_ok) auto
  have p1: "mark_pages m t 1 6 = Inr (set_types m {1..<1 + 6} t)"
    if "nr_pages m = nr_all_pages mm" for m t using sub(1) that by (intro mark_pages_ok) auto
  have im: "mark_range m t (pa_to_pfn (IMAGE_START ki)) (pa_to_pfn (IMAGE_END ki)) = Inr (set_types m (image_pages ki) t)"
    if "nr_pages m = nr_all_pages mm" for m t
    using l sub(2) big that unfolding image_pages_def layout_ok_def
    by (intro mark_range_ok) (auto simp: unat_pfn word_le_nat_alt div_le_mono)
  have le: "STACK_START ki - KERNEL_VMEM_START \<le> STACK_END ki - KERNEL_VMEM_START"
    using l w(1) unfolding layout_ok_def in_kernel_window_def
    by (simp add: word_le_nat_alt unat_sub [unfolded word_le_nat_alt] diff_le_mono)
  have st: "mark_range m t (pa_to_pfn (STACK_START ki - KERNEL_VMEM_START)) (pa_to_pfn (STACK_END ki - KERNEL_VMEM_START)) =
      Inr (set_types m (stack_pages ki) t)" if "nr_pages m = nr_all_pages mm" for m t
    unfolding stack_pages_def using le sub(3) big that
    by (intro mark_range_ok) (auto simp: window_pa kernel_page_def word_le_nat_alt div_le_mono stack_pages_def)
  let ?k = "nr_all_pages mm div 256 + 1"
  have dp: "descriptor_pages mm ki = {kernel_page (HEAP_START ki)..<kernel_page (HEAP_START ki) + ?k}"
    by (auto simp: descriptor_pages_def)
  have "unat (of_nat ?k :: u32) = ?k" by (rule unat_of_nat_u32) (use big in simp)
  then have k: "unat (of_nat (nr_all_pages mm div 256) + 1 :: u32) = ?k" by (simp add: add.commute)
  have hp: "mark_pages m t (kernel_page (HEAP_START ki)) ?k = Inr (set_types m (descriptor_pages mm ki) t)"
    if "nr_pages m = nr_all_pages mm" for m t
    unfolding dp by (rule mark_pages_ok) (use sub(4) dp that in auto)
  show ?thesis
    unfolding mark_kernel_def window_pa(1) [OF w(1)] window_pa(1) [OF w(2)] window_pa(1) [OF w(3)]
    using n by (auto simp: p0 p1 im st k hp [unfolded Suc_eq_plus1] window_pa(2) kernel_pages_def simp del: One_nat_def)
qed

lemma reserve_marked_ok:
  "buddy_inv m \<Longrightarrow> coalesced (lists_of m) \<Longrightarrow> p + n = nr_pages m \<Longrightarrow>
     free_set m = {q. q < nr_pages m \<and> (p \<le> q \<or> page_type m q = AVAILABLE)} \<Longrightarrow>
     \<exists>m'. reserve_marked buddy_algo m p n = Inr (True, m') \<and> buddy_pinv m' \<and> same_env m m'"
proof (induction n arbitrary: m p)
  case 0
  then have "q < nr_pages m \<and> (p \<le> q \<or> page_type m q = AVAILABLE) \<longleftrightarrow> q < nr_pages m \<and> page_type m q = AVAILABLE" for q
    by linarith
  then have "buddy_pinv m" using 0(1,2,4) unfolding buddy_pinv_def by simp
  then show ?case by simp
next
  case (Suc n)
  show ?case
  proof (cases "page_type m p = AVAILABLE")
    case True
    have "p \<le> q \<or> page_type m q = AVAILABLE \<longleftrightarrow> Suc p \<le> q \<or> page_type m q = AVAILABLE" for q
      using True by (cases "q = p") auto
    then have "free_set m = {q. q < nr_pages m \<and> (Suc p \<le> q \<or> page_type m q = AVAILABLE)}"
      using Suc.prems(4) by simp
    with True Suc.IH [of m "Suc p"] Suc.prems show ?thesis by simp
  next
    case False
    have "p \<in> free_set m" using Suc.prems(3,4) by auto
    with reserve_props [OF Suc.prems(1), of p] Suc.prems(2) obtain m1 where
      m1: "buddy_reserve_page m p = Inr (True, m1)" "buddy_inv m1" "same_env m m1"
        "free_set m1 = free_set m - {p}" "coalesced (lists_of m1)" by auto
    have "(p \<le> q \<or> page_type m q = AVAILABLE) \<and> q \<noteq> p \<longleftrightarrow> Suc p \<le> q \<or> page_type m q = AVAILABLE" for q
      using False by (cases "q = p") auto
    then have "free_set m1 = {q. q < nr_pages m1 \<and> (Suc p \<le> q \<or> page_type m1 q = AVAILABLE)}"
      unfolding m1(4) Suc.prems(4) same_env_nr [OF m1(3)] same_env_types [OF m1(3)] by blast
    with Suc.IH [of m1 "Suc p"] m1 Suc.prems(3) same_env_nr [OF m1(3)] obtain m' where
      "reserve_marked buddy_algo m1 (Suc p) n = Inr (True, m')" "buddy_pinv m'" "same_env m1 m'" by auto
    with False m1(1) same_env_trans [OF m1(3)] show ?thesis by auto
  qed
qed

lemma init_rest_buddy:
  assumes fa: "free_areas m = (\<lambda>_. None)" and t: "t \<longrightarrow> 336 \<le> nr_pages m"
  shows "\<exists>m' m4 m5. buddy_init m (nr_pages m) = Inr (True, m4) \<and>
     (if t then self_test buddy_algo m4 else Inr (True, m4)) = Inr (True, m5) \<and>
     nr_pages m5 = nr_pages m \<and>
     reserve_marked buddy_algo m5 0 (nr_pages m5) = Inr (True, m') \<and> buddy_pinv m' \<and> same_env m m'"
proof -
  have "buddy_new m = m" using fa by (simp add: buddy_new_def)
  with init_props [of m] obtain m4 where
    m4: "buddy_init m (nr_pages m) = Inr (True, m4)" "buddy_inv m4" "free_set m4 = {0..<nr_pages m}"
      "coalesced (lists_of m4)" "nr_pages m4 = nr_pages m" "same_env m m4" by auto
  obtain m5 where m5: "(if t then self_test buddy_algo m4 else Inr (True, m4)) = Inr (True, m5)"
    "buddy_inv m5" "free_set m5 = {0..<nr_pages m}" "coalesced (lists_of m5)" "same_env m4 m5"
    using self_test_ok [OF m4(2,4)] m4 t by (cases t) auto
  have "free_set m5 = {q. q < nr_pages m5 \<and> (0 \<le> q \<or> page_type m5 q = AVAILABLE)}"
    using m5(3) m4(5) same_env_nr [OF m5(5)] by (simp add: atLeast0LessThan lessThan_def)
  from reserve_marked_ok [OF m5(2,4) add_0 this] obtain m' where
    "reserve_marked buddy_algo m5 0 (nr_pages m5) = Inr (True, m')" "buddy_pinv m'" "same_env m5 m'" by blast
  moreover have "nr_pages m5 = nr_pages m" using m4(5) same_env_nr [OF m5(5)] by simp
  moreover have "same_env m m5" by (rule same_env_trans [OF m4(6) m5(5)])
  ultimately show ?thesis using m4(1) m5(1) same_env_trans by blast
qed

definition heap_backed :: "mem_mgr \<Rightarrow> kernel_image \<Rightarrow> bool" where
  "heap_backed mm ki \<longleftrightarrow> (let pa = HEAP_START ki - KERNEL_VMEM_START in
     \<exists>b \<in> set (phys_blocks mm). base_address b \<le> pa \<and> pa < base_address b + pages_bytes (pb_pages b))"

lemma lookup_phys_block_None:
  "lookup_phys_block bs a = None \<longleftrightarrow>
     \<not> (\<exists>b \<in> set bs. base_address b \<le> a \<and> a < base_address b + pages_bytes (pb_pages b))"
  by (induction bs) auto

lemma setup_ok:
  assumes l: "layout_ok mm ki"
  shows "\<exists>m1. setup_page_descriptors mm ki m = Inr (heap_backed mm ki, m1) \<and> nr_pages m1 = nr_all_pages mm \<and>
    free_areas m1 = free_areas m \<and> (heap_backed mm ki \<longrightarrow> (\<forall>p < nr_all_pages mm. page_type m1 p = INVALID))"
proof -
  have "unat (last_pfn mm) + 1 < 2 ^ 32" "in_kernel_window (HEAP_START ki)"
    using l by (auto simp: layout_ok_def nr_all_pages_def)
  then have "unat (last_pfn mm + 1) = nr_all_pages mm" "kva_to_pa (HEAP_START ki) = Inr (HEAP_START ki - KERNEL_VMEM_START)"
    by (simp_all add: nr_all_pages_def unat_word_ariths window_pa)
  moreover have "heap_backed mm ki \<longleftrightarrow> lookup_phys_block (phys_blocks mm) (HEAP_START ki - KERNEL_VMEM_START) \<noteq> None"
    by (simp add: lookup_phys_block_None heap_backed_def Let_def)
  ultimately show ?thesis
    by (auto simp: setup_page_descriptors_def Let_def page_type_def split: option.splits)
qed

section \<open>Properties\<close>

text \<open>C8: allocation through the page allocator with the buddy algorithm. When an aligned range of free
  pages exists it returns the first page of one, marks exactly its pages, all available before, as
  allocated, and keeps the agreement of the types with the free lists; when there is none it does not
  return null as documented but reads the descriptors through the null pointer.\<close>

theorem pgalloc_buddy_alloc:
  assumes "buddy_pinv m" and "k < MAX_ORDER"
  shows "if \<exists>p. 2 ^ k dvd p \<and> blk k p \<subseteq> free_set m
    then \<exists>p m'. pgalloc_alloc (Some buddy_algo) m k = Inr (Some p, m') \<and> buddy_pinv m' \<and>
      2 ^ k dvd p \<and> p + 2 ^ k \<le> nr_pages m \<and> (\<forall>q \<in> blk k p. page_type m q = AVAILABLE) \<and>
      (\<forall>q. page_type m' q = (if q \<in> blk k p then ALLOCATED else page_type m q))
    else pgalloc_alloc (Some buddy_algo) m k = Inl Null_Deref"
proof -
  have i: "buddy_inv m" "coalesced (lists_of m)" using assms(1) by (auto simp: buddy_pinv_def)
  show ?thesis
  proof (cases rule: pb.alloc_marks [OF assms(1), of k])
    case 1
    obtain m0 where "buddy_alloc_pages m k = Inr (None, m0)" using 1(2) unfolding buddy_algo_sel by blast
    then have "\<forall>j. k \<le> j \<and> j < MAX_ORDER \<longrightarrow> lists_of m j = []" using alloc_None(2) [OF i(1)] by blast
    then have "\<not> (\<exists>p. 2 ^ k dvd p \<and> blk k p \<subseteq> free_set m)"
    proof -
      have False if "2 ^ k dvd p" "blk k p \<subseteq> free_set m" for p
        using coalesced_covers [OF i(2) sim_good [OF inv_sim [OF i(1)]] assms(2) that(1)] that(2)
          \<open>\<forall>j. k \<le> j \<and> j < MAX_ORDER \<longrightarrow> lists_of m j = []\<close>
        unfolding free_set_def by (metis empty_iff empty_set)
      then show ?thesis by blast
    qed
    with 1(1) show ?thesis by simp
  next
    case (2 p m')
    from 2(3) have "2 ^ k dvd p" "p + 2 ^ k \<le> nr_pages m" using 2(4) by (auto simp: buddy_vb_def block_ok_def)
    moreover have "blk k p \<subseteq> free_set m"
    proof
      fix q assume q: "q \<in> blk k p"
      then have "q < nr_pages m" using calculation(2) by (auto simp: mem_blk)
      then show "q \<in> free_set m" using q 2(5) assms(1) unfolding buddy_pinv_def by blast
    qed
    ultimately have b: "2 ^ k dvd p" "p + 2 ^ k \<le> nr_pages m" "\<exists>p. 2 ^ k dvd p \<and> blk k p \<subseteq> free_set m" by blast+
    have "\<exists>p m'. pgalloc_alloc (Some buddy_algo) m k = Inr (Some p, m') \<and> buddy_pinv m' \<and>
      2 ^ k dvd p \<and> p + 2 ^ k \<le> nr_pages m \<and> (\<forall>q \<in> blk k p. page_type m q = AVAILABLE) \<and>
      (\<forall>q. page_type m' q = (if q \<in> blk k p then ALLOCATED else page_type m q))"
      by (intro exI [of _ p] exI [of _ m'] conjI allI 2(1,2,5,6) b(1,2))
    then show ?thesis by (rule iffD2 [OF if_P [OF b(3)]])
  qed
qed

lemma two_pages_pinv: "buddy_pinv two_pages"
proof -
  have "page_type two_pages p = AVAILABLE" for p by (simp add: page_type_def two_pages_def)
  moreover have "{p. p < (2::nat)} = {0, 1}" by auto
  ultimately show ?thesis by (simp add: buddy_pinv_def two_pages_facts)
qed

theorem pgalloc_buddy_alloc_witness:
  "\<exists>p m'. pgalloc_alloc (Some buddy_algo) two_pages 1 = Inr (Some p, m') \<and> buddy_pinv m'"
proof -
  have "2 ^ 1 dvd (0::nat) \<and> blk 1 0 \<subseteq> free_set two_pages" by (auto simp: two_pages_facts blk_def)
  then have "\<exists>p. 2 ^ 1 dvd p \<and> blk 1 p \<subseteq> free_set two_pages" by blast
  with pgalloc_buddy_alloc [OF two_pages_pinv, of 1] show ?thesis by (auto simp: MAX_ORDER_def)
qed

text \<open>C9: with either algorithm, releasing what was just allocated leaves the type of every page as it
  was, and two blocks held at the same time do not overlap.\<close>

theorem pgalloc_hold_release:
  assumes "(A, J) \<in> {(buddy_algo, buddy_pinv), (simple_algo, simple_inv)}" and "J m"
    and "pgalloc_alloc (Some A) m k = Inr (Some p, m1)"
  shows "(\<exists>m2. pgalloc_free (Some A) m1 p k = Inr m2 \<and> J m2 \<and> (\<forall>q. page_type m2 q = page_type m q)) \<and>
    (\<forall>j q m3. pgalloc_alloc (Some A) m1 j = Inr (Some q, m3) \<longrightarrow> blk k p \<inter> blk j q = {})"
proof -
  from assms(1) consider "A = buddy_algo" "J = buddy_pinv" | "A = simple_algo" "J = simple_inv" by auto
  then show ?thesis
  proof cases
    case 1
    show ?thesis
      using pb.alloc_free_types pb.alloc_twice_disjoint assms(2,3) unfolding 1 by blast
  next
    case 2
    show ?thesis
      using ps.alloc_free_types ps.alloc_twice_disjoint assms(2,3) unfolding 2 by blast
  qed
qed

theorem pgalloc_hold_release_witness:
  "\<exists>p m1 m2. pgalloc_alloc (Some buddy_algo) two_pages 1 = Inr (Some p, m1) \<and>
     pgalloc_free (Some buddy_algo) m1 p 1 = Inr m2 \<and> (\<forall>q. page_type m2 q = page_type two_pages q)"
proof -
  have ne: "\<not> (\<forall>j. 1 \<le> j \<and> j < MAX_ORDER \<longrightarrow> lists_of two_pages j = [])"
    using two_pages_facts(4) by (auto simp: MAX_ORDER_def intro!: exI [of _ 1])
  obtain p m1 where a: "pgalloc_alloc (Some buddy_algo) two_pages 1 = Inr (Some p, m1)"
  proof (cases rule: pb.alloc_marks [OF two_pages_pinv, of 1])
    case 1
    obtain m0 where "buddy_alloc_pages two_pages 1 = Inr (None, m0)" using 1(2) unfolding buddy_algo_sel by blast
    with alloc_None(2) [OF two_pages_facts(1)] ne show ?thesis by blast
  next
    case (2 p m')
    then show ?thesis using that by blast
  qed
  have "(buddy_algo, buddy_pinv) \<in> {(buddy_algo, buddy_pinv), (simple_algo, simple_inv)}" by simp
  from pgalloc_hold_release [OF this two_pages_pinv a] a show ?thesis by blast
qed

text \<open>the simple algorithm is first fit: with the last page of the memory reserved, it returns the
  lowest run of \<open>2 ^ order\<close> available pages, and null exactly when there is none.\<close>

theorem simple_first_fit:
  assumes "simple_inv m"
  shows "\<exists>r. simple_alloc_pages m k = Inr (r, m) \<and>
    (case r of
       None \<Rightarrow> \<forall>p. p + 2 ^ k \<le> nr_pages m \<longrightarrow> \<not> run_at m (2 ^ k) p
     | Some p \<Rightarrow> p + 2 ^ k \<le> nr_pages m \<and> run_at m (2 ^ k) p \<and> (\<forall>p' < p. \<not> run_at m (2 ^ k) p'))"
  by (rule simple_alloc_first_fit [OF assms])

definition three_pages :: pmem where
  "three_pages = \<lparr>descs = (\<lambda>p. \<lparr>next_free = None, pd_type = if p = 2 then RESERVED else AVAILABLE\<rparr>),
     nr_pages = 3, free_areas = (\<lambda>_. None)\<rparr>"

theorem simple_first_fit_witness: "simple_alloc_pages three_pages 1 = Inr (Some 0, three_pages)"
proof -
  have "simple_inv three_pages" by (simp add: simple_inv_def three_pages_def page_type_def)
  from simple_first_fit [OF this, of 1] obtain r where
    r: "simple_alloc_pages three_pages 1 = Inr (r, three_pages)"
      "case r of None \<Rightarrow> \<forall>p. p + 2 ^ 1 \<le> nr_pages three_pages \<longrightarrow> \<not> run_at three_pages (2 ^ 1) p
       | Some p \<Rightarrow> p + 2 ^ 1 \<le> nr_pages three_pages \<and> run_at three_pages (2 ^ 1) p \<and>
                   (\<forall>p' < p. \<not> run_at three_pages (2 ^ 1) p')" by blast
  have "run_at three_pages 2 0" "nr_pages three_pages = 3" by (auto simp: run_at_def three_pages_def page_type_def)
  then have "r = Some 0" using r(2) by (cases r) auto
  with r(1) show ?thesis by simp
qed

text \<open>C10: initialisation with the buddy algorithm never fails an assertion and never leaves the descriptor
  array when the layout is sound: fewer than \<open>2 ^ 32\<close> pages, stack and heap in the kernel's window, the
  normal memory blocks and the pages of the kernel below the last page frame, and with the self test at
  least 336 pages, since the test reserves page 0x14f. It returns true exactly when the start of the
  descriptor array lies in a known memory block; then the free pages are exactly the pages of the normal
  blocks that are not the kernel's (the first seven, its image, its stack and the descriptors), they are
  exactly the available ones, and the free lists satisfy the invariant of the allocator.\<close>

theorem pgalloc_init_buddy:
  assumes "free_areas m = (\<lambda>_. None)" and "layout_ok mm ki" and "t \<longrightarrow> 336 \<le> nr_all_pages mm"
  shows "\<exists>m'. pgalloc_init (Some buddy_algo) t mm ki m = Inr (heap_backed mm ki, m') \<and>
    (heap_backed mm ki \<longrightarrow> buddy_pinv m' \<and> nr_pages m' = nr_all_pages mm \<and>
       free_set m' = normal_pages mm - kernel_pages mm ki)"
proof -
  from setup_ok [OF assms(2)] obtain m1 where
    s: "setup_page_descriptors mm ki m = Inr (heap_backed mm ki, m1)" "nr_pages m1 = nr_all_pages mm"
      "free_areas m1 = free_areas m" "heap_backed mm ki \<Longrightarrow> \<forall>p < nr_all_pages mm. page_type m1 p = INVALID" by blast
  show ?thesis
  proof (cases "heap_backed mm ki")
    case False
    with s(1) show ?thesis by (simp add: pgalloc_init_def)
  next
    case True
    have np: "normal_pages mm \<subseteq> {..<nr_pages m1}" using assms(2) s(2) by (simp add: layout_ok_def)
    from mark_present_ok [OF np [unfolded normal_pages_def]] obtain m2 where
      m2: "mark_present m1 (phys_blocks mm) = Inr m2" "nr_pages m2 = nr_all_pages mm" "free_areas m2 = (\<lambda>_. None)"
        "\<And>p. page_type m2 p = (if p \<in> normal_pages mm then AVAILABLE else page_type m1 p)"
      using s(2,3) assms(1) unfolding normal_pages_def by auto
    from mark_kernel_ok [OF assms(2) m2(2)] obtain m3 where
      m3: "mark_kernel ki m2 = Inr m3" "nr_pages m3 = nr_all_pages mm" "free_areas m3 = (\<lambda>_. None)"
        "\<And>p. page_type m3 p = AVAILABLE \<longleftrightarrow> page_type m2 p = AVAILABLE \<and> p \<notin> kernel_pages mm ki"
      using m2(2,3) by auto
    from init_rest_buddy [OF m3(3), of t] assms(3) m3(2) obtain m4 m5 m' where
      r: "buddy_init m3 (nr_pages m3) = Inr (True, m4)"
        "(if t then self_test buddy_algo m4 else Inr (True, m4)) = Inr (True, m5)"
        "nr_pages m5 = nr_pages m3" "reserve_marked buddy_algo m5 0 (nr_pages m5) = Inr (True, m')"
        "buddy_pinv m'" "same_env m3 m'" by auto
    have "pgalloc_init (Some buddy_algo) t mm ki m = Inr (True, m')"
      unfolding pgalloc_init_def using True by (simp add: s(1) m2(1) m3(1) r(1) r(2) r(4) del: if_split)
    moreover have n: "nr_pages m' = nr_all_pages mm" using same_env_nr [OF r(6)] m3(2) by simp
    moreover have "free_set m' = normal_pages mm - kernel_pages mm ki"
      using r(5) np s(2) s(4) [OF True] unfolding buddy_pinv_def n same_env_types [OF r(6)] m3(4) m2(4) by auto
    ultimately show ?thesis using r(5) True by auto
  qed
qed

definition small_machine :: mem_mgr where
  "small_machine = \<lparr>last_pfn = 511, phys_blocks = [\<lparr>base_address = 0, base_pfn = 0, pb_pages = 512, pb_type = NORMAL\<rparr>]\<rparr>"

definition small_image :: kernel_image where
  "small_image = \<lparr>IMAGE_START = 0x7000, IMAGE_END = 0x8fff, STACK_START = 0xFFFFFFFF80009000,
     STACK_END = 0xFFFFFFFF8000A000, HEAP_START = 0xFFFFFFFF8000B000\<rparr>"

lemma small_layout: "layout_ok small_machine small_image" and small_backed: "heap_backed small_machine small_image"
  by (simp_all add: layout_ok_def small_machine_def small_image_def nr_all_pages_def in_kernel_window_def
      KERNEL_VMEM_START_def KERNEL_VMEM_END_def normal_pages_def block_pages_def kernel_pages_def image_pages_def
      stack_pages_def descriptor_pages_def kernel_page_def heap_backed_def pages_bytes_def Let_def Collect_conv_if
      subset_iff)

theorem pgalloc_init_buddy_witness:
  "\<exists>m'. pgalloc_init (Some buddy_algo) True small_machine small_image (two_pages\<lparr>free_areas := \<lambda>_. None\<rparr>) = Inr (True, m') \<and>
     buddy_pinv m' \<and> nr_pages m' = 512 \<and> 7 \<notin> free_set m' \<and> 511 \<in> free_set m'"
proof -
  have "nr_all_pages small_machine = 512" by (simp add: nr_all_pages_def small_machine_def)
  moreover have "511 \<in> normal_pages small_machine - kernel_pages small_machine small_image"
    "7 \<in> kernel_pages small_machine small_image"
    by (simp_all add: normal_pages_def small_machine_def block_pages_def kernel_pages_def image_pages_def
        stack_pages_def descriptor_pages_def kernel_page_def small_image_def nr_all_pages_def KERNEL_VMEM_START_def
        Collect_conv_if)
  ultimately show ?thesis
    using pgalloc_init_buddy [OF _ small_layout, of "two_pages\<lparr>free_areas := \<lambda>_. None\<rparr>" True] small_backed by auto
qed

lemma lookup_append:
  "lookup_phys_block (bs @ cs) a =
     (case lookup_phys_block bs a of None \<Rightarrow> lookup_phys_block cs a | Some b \<Rightarrow> Some b)"
  by (induction bs) auto

lemma pages_bytes_small: "unat n < 2 ^ 20 \<Longrightarrow> unat (pages_bytes n) = unat n * 4096"
  by (simp add: pages_bytes_def unsigned_ucast_eq unat_word_ariths take_bit_nat_eq_self)

lemma add_block_found:
  assumes "unat n < 2 ^ 20" and "unat addr + unat n * 4096 < 2 ^ 64"
    and "addr \<le> a" and "unat a < unat addr + unat n * 4096"
  shows "a < addr + pages_bytes n"
  using assms window_add(2) [of addr "pages_bytes n"] pages_bytes_small [OF assms(1)]
  by (simp add: word_less_nat_alt)

lemma add_block_pfn:
  assumes "unat n < 2 ^ 20" and "0 < unat n" and "4096 dvd unat addr"
    and "unat addr + unat n * 4096 < 2 ^ 64" and "unat a < unat addr + unat n * 4096"
  shows "pa_to_pfn a \<le> drop_bit 12 (addr + pages_bytes n) - 1"
proof -
  let ?e = "addr + pages_bytes n"
  have e: "unat ?e = unat addr + unat n * 4096"
    using window_add(2) [of addr "pages_bytes n"] pages_bytes_small [OF assms(1)] assms(4) by simp
  obtain c where c: "unat addr = 4096 * c" using assms(3) by (elim dvdE)
  have d: "unat (drop_bit 12 ?e) = c + unat n" unfolding unat_drop_bit_eq e c by (simp add: drop_bit_eq_div)
  then have "drop_bit 12 ?e \<noteq> 0" using assms(2) by auto
  then have "unat (drop_bit 12 ?e - 1) = c + unat n - 1" using d by (simp add: unat_minus_one)
  moreover have "unat (pa_to_pfn a) = unat a div 4096"
    unfolding pa_to_pfn_def unat_drop_bit_eq by (simp add: drop_bit_eq_div)
  moreover have "unat a div 4096 < c + unat n"
    using assms(5) c by (intro less_mult_imp_div_less) (simp add: algebra_simps)
  ultimately show ?thesis by (simp add: word_le_nat_alt)
qed

lemma add_physical_memory_sel:
  assumes "n \<noteq> 0" and "length (phys_blocks mm) < 16"
  shows "phys_blocks (add_physical_memory mm addr n t) =
      phys_blocks mm @ [\<lparr>base_address = addr, base_pfn = drop_bit 12 addr, pb_pages = n, pb_type = t\<rparr>]"
    and "t = NORMAL \<Longrightarrow> drop_bit 12 (addr + pages_bytes n) - 1 \<le> last_pfn (add_physical_memory mm addr n t)"
  using assms by (auto simp: add_physical_memory_def Let_def)

text \<open>a page-aligned physical memory block of fewer than 2^20 pages that is added while there is room
  is found again for each of its addresses and, if it is normal memory, is covered by the last page
  number. The size in bytes is a 32-bit product: a block of 2^20 pages (4 GiB) has size 0 and none
  of its addresses is found.\<close>

theorem phys_block_lookup:
  assumes "length (phys_blocks mm) < 16" and "0 < unat n" and "4096 dvd unat addr"
    and "unat addr + unat n * 4096 < 2 ^ 64" and "addr \<le> a" and "unat a < unat addr + unat n * 4096"
  shows "(unat n < 2 ^ 20 \<longrightarrow> lookup_phys_block (phys_blocks (add_physical_memory mm addr n t)) a \<noteq> None \<and>
      (t = NORMAL \<longrightarrow> pa_to_pfn a \<le> last_pfn (add_physical_memory mm addr n t))) \<and>
    (n = 2 ^ 20 \<longrightarrow> phys_blocks mm = [] \<longrightarrow> lookup_phys_block (phys_blocks (add_physical_memory mm addr n t)) a = None)"
proof -
  have ne: "n \<noteq> 0" using assms(2) by auto
  note sel = add_physical_memory_sel [OF ne assms(1)]
  have "lookup_phys_block (phys_blocks (add_physical_memory mm addr n t)) a \<noteq> None" if "unat n < 2 ^ 20"
    using add_block_found [OF that assms(4,5,6)] assms(5) by (auto simp: sel(1) lookup_append split: option.splits)
  moreover have "pa_to_pfn a \<le> last_pfn (add_physical_memory mm addr n t)" if "unat n < 2 ^ 20" "t = NORMAL"
    using add_block_pfn [OF that(1) assms(2-4,6)] sel(2) [OF that(2)] by (rule order_trans)
  moreover have "lookup_phys_block (phys_blocks (add_physical_memory mm addr n t)) a = None"
    if "n = 2 ^ 20" "phys_blocks mm = []"
    using that(2) assms(5) unfolding sel(1) by (simp add: that(1) pages_bytes_def not_less)
  ultimately show ?thesis by blast
qed

theorem phys_block_lookup_witness:
  "lookup_phys_block (phys_blocks (add_physical_memory \<lparr>last_pfn = 0, phys_blocks = []\<rparr> 0x100000 256 NORMAL)) 0x180000 \<noteq> None \<and>
   lookup_phys_block (phys_blocks (add_physical_memory \<lparr>last_pfn = 0, phys_blocks = []\<rparr> 0x100000 0x100000 NORMAL)) 0x180000 = None"
  using phys_block_lookup [where mm = "\<lparr>last_pfn = 0, phys_blocks = []\<rparr>" and n = 256 and addr = "0x100000" and a = "0x180000" and t = NORMAL]
    phys_block_lookup [where mm = "\<lparr>last_pfn = 0, phys_blocks = []\<rparr>" and n = "0x100000" and addr = "0x100000" and a = "0x180000" and t = NORMAL]
  by simp

end
