(* ===== verification/Time.thy ===== *)
theory Time imports Prelude begin

text \<open>
  Durations and timepoints (\<open>infos/include/infos/util/time.h\<close>) as 64-bit words, and the kernel clock
  of \<open>infos/kernel/kernel.cpp\<close>: the running time and the time of day, which the timer interrupt
  advances through \<open>update_runtime\<close>.
\<close>

section \<open>Durations and timepoints\<close>

definition dur_add :: "u64 \<Rightarrow> u64 \<Rightarrow> u64" where
  "dur_add l r = l + r"

text \<open>\<open>operator-\<close> of \<open>Duration\<close> subtracts its left operand from its right one.\<close>

definition dur_sub :: "u64 \<Rightarrow> u64 \<Rightarrow> u64" where
  "dur_sub l r = r - l"

definition dur_sub_assign :: "u64 \<Rightarrow> u64 \<Rightarrow> u64" where
  "dur_sub_assign l amt = l - amt"

definition dur_less :: "u64 \<Rightarrow> u64 \<Rightarrow> bool" where
  "dur_less l r \<longleftrightarrow> l < r"

definition dur_greater :: "u64 \<Rightarrow> u64 \<Rightarrow> bool" where
  "dur_greater l r \<longleftrightarrow> l > r"

text \<open>\<open>operator-\<close> of \<open>TimepointImpl\<close> is \<open>rhs._val - lhs._val\<close> on durations.\<close>

definition tp_sub :: "u64 \<Rightarrow> u64 \<Rightarrow> u64" where
  "tp_sub lhs rhs = dur_sub rhs lhs"

definition tp_less :: "u64 \<Rightarrow> u64 \<Rightarrow> bool" where
  "tp_less l r \<longleftrightarrow> l < r"

text \<open>\<open>DurationCast\<close> with the translation ratio \<open>num / den\<close>.\<close>

definition duration_cast :: "u64 \<Rightarrow> u64 \<Rightarrow> u64 \<Rightarrow> u64" where
  "duration_cast num den v = v * num div den"

lemma tp_sub_eq [simp]: "tp_sub l r = l - r"
  by (simp add: tp_sub_def dur_sub_def)

section \<open>The time of day\<close>

record time_of_day =
  hours :: u16
  minutes :: u16
  seconds :: u16
  day :: u16
  month :: u16
  year :: u16

record kclock =
  runtime :: u64
  tod :: time_of_day
  ticks_since_tod :: u64

definition increment_tod :: "time_of_day \<Rightarrow> time_of_day" where
  "increment_tod t =
     (let t1 = t\<lparr>seconds := seconds t + 1\<rparr> in
      if seconds t1 > 59 then
        let t2 = t1\<lparr>seconds := 0, minutes := minutes t1 + 1\<rparr> in
        if minutes t2 > 59 then
          let t3 = t2\<lparr>minutes := 0, hours := hours t2 + 1\<rparr> in
          if hours t3 > 23 then t3\<lparr>hours := 0\<rparr> else t3
        else t2
      else t1)"

text \<open>The loop of \<open>update_runtime\<close>, one second at a time.\<close>

function advance_tod :: "u64 \<Rightarrow> time_of_day \<Rightarrow> u64 \<times> time_of_day" where
  "advance_tod ticks t =
     (if dur_greater ticks 1000000000
      then advance_tod (dur_sub_assign ticks 1000000000) (increment_tod t) else (ticks, t))"
  by pat_completeness auto
termination
proof (relation "measure (\<lambda>(ticks, t). unat ticks)", goal_cases)
  case (2 ticks t)
  then have "unat (ticks - 1000000000) = unat ticks - 1000000000" "1000000000 < unat ticks"
    by (simp_all add: dur_greater_def unat_sub_if' word_less_nat_alt)
  then show ?case by (simp add: dur_sub_assign_def)
qed simp

declare advance_tod.simps [simp del]

definition update_runtime :: "kclock \<Rightarrow> u64 \<Rightarrow> kclock" where
  "update_runtime c ticks =
     (let (rest, t) = advance_tod (dur_add (ticks_since_tod c) ticks) (tod c)
      in c\<lparr>runtime := dur_add (runtime c) ticks, ticks_since_tod := rest, tod := t\<rparr>)"

text \<open>
  \<open>resync_tod\<close> with the timepoint of the real-time clock, if there is one; \<open>initialise_tod\<close> sets the
  epoch first.
\<close>

definition resync_tod :: "kclock \<Rightarrow> time_of_day option \<Rightarrow> kclock" where
  "resync_tod c rtc =
     (let c1 = c\<lparr>ticks_since_tod := 0\<rparr> in
      case rtc of None \<Rightarrow> c1 | Some tp \<Rightarrow> c1\<lparr>tod := tp\<rparr>)"

definition initialise_tod :: "kclock \<Rightarrow> time_of_day option \<Rightarrow> kclock" where
  "initialise_tod c rtc =
     resync_tod (c\<lparr>tod := \<lparr>hours = 0, minutes = 0, seconds = 0, day = 1, month = 1, year = 1970\<rparr>\<rparr>) rtc"

section \<open>Correctness of the clock\<close>

definition valid_tod :: "time_of_day \<Rightarrow> bool" where
  "valid_tod t \<longleftrightarrow> hours t < 24 \<and> minutes t < 60 \<and> seconds t < 60"

definition second_of_day :: "time_of_day \<Rightarrow> nat" where
  "second_of_day t = unat (hours t) * 3600 + unat (minutes t) * 60 + unat (seconds t)"

definition same_date :: "time_of_day \<Rightarrow> time_of_day \<Rightarrow> bool" where
  "same_date t t' \<longleftrightarrow> day t' = day t \<and> month t' = month t \<and> year t' = year t"

lemma u16_inc:
  assumes "unat (x :: u16) < 1000"
  shows "unat (x + 1) = unat x + 1"
  using assms by (simp add: unat_word_ariths)

lemma valid_tod_nat:
  "valid_tod t \<longleftrightarrow> unat (hours t) < 24 \<and> unat (minutes t) < 60 \<and> unat (seconds t) < 60"
  by (simp add: valid_tod_def word_less_nat_alt)

lemma increment_tod_correct:
  assumes v: "valid_tod t"
  shows "valid_tod (increment_tod t)"
    and "second_of_day (increment_tod t) = (second_of_day t + 1) mod 86400"
    and "same_date t (increment_tod t)"
proof -
  have b: "unat (hours t) < 24" "unat (minutes t) < 60" "unat (seconds t) < 60"
    using v by (simp_all add: valid_tod_nat)
  have u: "unat (seconds t + 1) = unat (seconds t) + 1" "unat (minutes t + 1) = unat (minutes t) + 1"
    "unat (hours t + 1) = unat (hours t) + 1" using b by (intro u16_inc; simp)+
  have c: "59 < seconds t + 1 \<longleftrightarrow> unat (seconds t) = 59" "59 < minutes t + 1 \<longleftrightarrow> unat (minutes t) = 59"
    "23 < hours t + 1 \<longleftrightarrow> unat (hours t) = 23" using b u by (auto simp: word_less_nat_alt)
  show "valid_tod (increment_tod t)"
    using b u by (auto simp: increment_tod_def valid_tod_nat c Let_def)
  show "same_date t (increment_tod t)" by (simp add: increment_tod_def same_date_def Let_def)
  show "second_of_day (increment_tod t) = (second_of_day t + 1) mod 86400"
  proof (cases "unat (seconds t) = 59")
    case False
    then show ?thesis using b u by (simp add: increment_tod_def second_of_day_def c Let_def)
  next
    case s: True
    show ?thesis
    proof (cases "unat (minutes t) = 59")
      case False
      then show ?thesis using b u s by (simp add: increment_tod_def second_of_day_def c Let_def)
    next
      case m: True
      show ?thesis
        using b u s m by (cases "unat (hours t) = 23") (simp_all add: increment_tod_def second_of_day_def c Let_def)
    qed
  qed
qed

lemma advance_tod_correct:
  "valid_tod t \<Longrightarrow> \<exists>n. advance_tod ticks t = (ticks', t') \<longrightarrow>
     unat ticks = n * 1000000000 + unat ticks' \<and> unat ticks' \<le> 1000000000 \<and>
     (0 < n \<longrightarrow> 0 < unat ticks') \<and> valid_tod t' \<and>
     second_of_day t' = (second_of_day t + n) mod 86400 \<and> same_date t t'"
proof (induction ticks t rule: advance_tod.induct)
  case (1 ticks t)
  show ?case
  proof (cases "dur_greater ticks 1000000000")
    case False
    then have "advance_tod ticks t = (ticks, t)" by (subst advance_tod.simps) simp
    moreover have "unat ticks \<le> 1000000000" using False by (simp add: dur_greater_def word_less_nat_alt)
    moreover have "second_of_day t mod 86400 = second_of_day t"
      using "1.prems" by (auto simp: valid_tod_nat second_of_day_def)
    ultimately show ?thesis using "1.prems" by (intro exI [of _ 0]) (auto simp: same_date_def)
  next
    case True
    let ?r = "dur_sub_assign ticks 1000000000" and ?t = "increment_tod t"
    have u: "unat ticks = 1000000000 + unat ?r" "0 < unat ?r"
      using True by (simp_all add: dur_greater_def dur_sub_assign_def unat_sub_if' word_less_nat_alt)
    note inc = increment_tod_correct [OF "1.prems"]
    from "1.IH" [OF True inc(1)] obtain n where
      n: "advance_tod ?r ?t = (ticks', t') \<longrightarrow> unat ?r = n * 1000000000 + unat ticks' \<and> unat ticks' \<le> 1000000000 \<and>
        (0 < n \<longrightarrow> 0 < unat ticks') \<and> valid_tod t' \<and> second_of_day t' = (second_of_day ?t + n) mod 86400 \<and>
        same_date ?t t'" by blast
    have eq: "advance_tod ticks t = advance_tod ?r ?t" using True by (subst advance_tod.simps) simp
    have "(second_of_day ?t + n) mod 86400 = (second_of_day t + Suc n) mod 86400"
      unfolding inc(2) by (simp add: mod_simps)
    then show ?thesis
      using n u inc(3) unfolding eq by (intro exI [of _ "Suc n"]) (auto simp: same_date_def)
  qed
qed

end
