(* ===== verification/Sched.thy ===== *)
theory Sched imports Kernel_List Time begin

text \<open>
  The scheduler core of \<open>infos/kernel/sched.cpp\<close>: scheduling entities with their state, accounting and
  the wake queue of their \<open>state_changed\<close> event, the scheduling algorithm as a record of functions
  over its run queue, the state changes that the thread operations of \<open>infos/kernel/thread.cpp\<close> make,
  and \<open>schedule\<close>. The locale \<open>scheduling_algorithm\<close> states what the scheduler needs from an algorithm;
  it is interpreted in \<open>Sched_Algos\<close>.
\<close>

section \<open>Interrupt locks\<close>

text \<open>
  The processor's interrupt flag. \<open>IRQLock::lock\<close> remembers the flag and clears it, \<open>unlock\<close> sets it
  again where it was set; \<open>UniqueIRQLock\<close> holds the lock while a method of an algorithm runs.
\<close>

definition irq_lock :: "bool \<Rightarrow> (bool \<times> bool) res" where
  "irq_lock flag =
     (let were_enabled = flag; flag1 = (if were_enabled then False else flag)
      in res_bind (assert_that (\<not> flag1)) (\<lambda>_. Inr (were_enabled, flag1)))"

definition irq_unlock :: "bool \<Rightarrow> bool \<Rightarrow> bool res" where
  "irq_unlock were_enabled flag =
     (if were_enabled then let flag1 = True in res_bind (assert_that flag1) (\<lambda>_. Inr flag1) else Inr flag)"

record runqueue =
  rq :: "nat klist"
  irqs :: bool

definition with_irq_lock :: "(nat klist \<Rightarrow> ('r \<times> nat klist) res) \<Rightarrow> runqueue \<Rightarrow> ('r \<times> runqueue) res" where
  "with_irq_lock f q =
     res_bind (irq_lock (irqs q)) (\<lambda>(were, flag).
     res_bind (f (rq q)) (\<lambda>(r, l).
     res_bind (irq_unlock were flag) (\<lambda>flag1. Inr (r, q\<lparr>rq := l, irqs := flag1\<rparr>))))"

lemma with_irq_lock_eq:
  "with_irq_lock f q = res_bind (f (rq q)) (\<lambda>(r, l). Inr (r, q\<lparr>rq := l\<rparr>))"
  by (cases q; cases "irqs q") (auto simp: with_irq_lock_def irq_lock_def irq_unlock_def Let_def)

section \<open>Entities and the scheduler\<close>

datatype ent_state = STOPPED | SLEEPING | RUNNABLE | RUNNING

record sched_entity =
  cpu_runtime :: u64
  exec_start :: u64
  est :: ent_state
  waiters :: "nat klist"

definition entity_new :: sched_entity where
  "entity_new = \<lparr>cpu_runtime = 0, exec_start = 0, est = STOPPED, waiters = klist_new\<rparr>"

text \<open>An algorithm; \<open>sa_pick\<close> may read the processor time of the entities.\<close>

record sched_algo =
  sa_add :: "nat \<Rightarrow> runqueue \<Rightarrow> runqueue res"
  sa_remove :: "nat \<Rightarrow> runqueue \<Rightarrow> runqueue res"
  sa_pick :: "(nat \<Rightarrow> u64) \<Rightarrow> runqueue \<Rightarrow> (nat option \<times> runqueue) res"

text \<open>\<open>cur_thread\<close> is the thread that the architecture runs, \<open>now\<close> the running time of the kernel.\<close>

record sched =
  active :: bool
  algo :: "sched_algo option"
  curr :: "nat option"
  idle :: nat
  runq :: runqueue
  ents :: "nat \<Rightarrow> sched_entity"
  cur_thread :: "nat option"
  now :: u64

definition upd_ent :: "sched \<Rightarrow> nat \<Rightarrow> (sched_entity \<Rightarrow> sched_entity) \<Rightarrow> sched" where
  "upd_ent s e f = s\<lparr>ents := (ents s)(e := f (ents s e))\<rparr>"

definition increment_cpu_runtime :: "u64 \<Rightarrow> sched_entity \<Rightarrow> sched_entity" where
  "increment_cpu_runtime delta e = e\<lparr>cpu_runtime := dur_add (cpu_runtime e) delta\<rparr>"

definition update_exec_start_time :: "u64 \<Rightarrow> sched_entity \<Rightarrow> sched_entity" where
  "update_exec_start_time t e = e\<lparr>exec_start := t\<rparr>"

section \<open>Changing the state of an entity\<close>

text \<open>The run queue part of \<open>set_entity_state\<close>, before the new state is recorded.\<close>

definition move_in_queue :: "sched_algo \<Rightarrow> sched \<Rightarrow> nat \<Rightarrow> ent_state \<Rightarrow> sched res" where
  "move_in_queue A s e st =
     (let old = est (ents s e) in
      if st = RUNNABLE then
        (if old = STOPPED \<or> old = SLEEPING
         then res_bind (sa_add A e (runq s)) (\<lambda>q. Inr (s\<lparr>runq := q\<rparr>)) else Inr s)
      else if st = STOPPED \<or> st = SLEEPING then
        (if old = RUNNABLE \<or> old = RUNNING
         then res_bind (sa_remove A e (runq s)) (\<lambda>q. Inr (s\<lparr>runq := q\<rparr>)) else Inr s)
      else res_bind (assert_that (old = RUNNABLE)) (\<lambda>_. Inr s))"

text \<open>
  \<open>set_entity_state\<close> ends by triggering the event of the entity, which makes every waiter runnable in
  turn and then clears the wait queue. The waiters may have waiters of their own, so the recursion
  has a depth bound; \<open>enough_fuel\<close> below shows that it is never reached when it exceeds the number of
  entities. A nested trigger of the same event would delete the nodes of the list that is being
  walked, which shows in that the list is not what it was when the walk began.
\<close>

fun set_entity_state :: "nat \<Rightarrow> sched \<Rightarrow> nat \<Rightarrow> ent_state \<Rightarrow> sched res"
  and wake_all :: "nat \<Rightarrow> sched \<Rightarrow> nat list \<Rightarrow> sched res" where
  "set_entity_state 0 s e st = Inl Diverges"
| "set_entity_state (Suc n) s e st =
     (case algo s of
        None \<Rightarrow> Inl Assert_Fail
      | Some A \<Rightarrow>
          if est (ents s e) = st then Inr s
          else
            res_bind (move_in_queue A s e st) (\<lambda>s1.
            let s2 = upd_ent s1 e (\<lambda>x. x\<lparr>est := st\<rparr>); ws = elems (waiters (ents s2 e)) in
            res_bind (wake_all n s2 ws) (\<lambda>s3.
            if elems (waiters (ents s3 e)) = ws
            then Inr (upd_ent s3 e (\<lambda>x. x\<lparr>waiters := klist_clear (waiters x)\<rparr>))
            else Inl Use_After_Free)))"
| "wake_all n s [] = Inr s"
| "wake_all n s (w # ws) =
     res_bind (set_entity_state n s w RUNNABLE) (\<lambda>s1. wake_all n s1 ws)"

section \<open>Threads\<close>

text \<open>\<open>Thread::stop\<close> and \<open>Thread::sleep\<close> yield through the kernel system call when the thread is the
  one that runs; whether they do is the flag in the result.\<close>

definition thread_start :: "nat \<Rightarrow> sched \<Rightarrow> nat \<Rightarrow> sched res" where
  "thread_start n s t = set_entity_state n s t RUNNABLE"

definition thread_wake_up :: "nat \<Rightarrow> sched \<Rightarrow> nat \<Rightarrow> sched res" where
  "thread_wake_up n s t = set_entity_state n s t RUNNABLE"

definition thread_stop :: "nat \<Rightarrow> sched \<Rightarrow> nat \<Rightarrow> (bool \<times> sched) res" where
  "thread_stop n s t = res_bind (set_entity_state n s t STOPPED) (\<lambda>s1. Inr (cur_thread s1 = Some t, s1))"

definition thread_sleep :: "nat \<Rightarrow> sched \<Rightarrow> nat \<Rightarrow> (bool \<times> sched) res" where
  "thread_sleep n s t = res_bind (set_entity_state n s t SLEEPING) (\<lambda>s1. Inr (cur_thread s1 = Some t, s1))"

text \<open>\<open>WakeQueue::sleep\<close> on the event of entity \<open>e\<close>.\<close>

definition wait_state_changed :: "nat \<Rightarrow> sched \<Rightarrow> nat \<Rightarrow> nat \<Rightarrow> (bool \<times> sched) res" where
  "wait_state_changed n s e t =
     thread_sleep n (upd_ent s e (\<lambda>x. x\<lparr>waiters := klist_append (waiters x) t\<rparr>)) t"

definition thread_activate :: "sched \<Rightarrow> nat \<Rightarrow> nat option \<Rightarrow> (bool \<times> sched) res" where
  "thread_activate s t prev =
     res_bind (assert_that (est (ents s t) = RUNNABLE)) (\<lambda>_.
     if prev = Some t then Inr (True, s) else Inr (True, s\<lparr>cur_thread := Some t\<rparr>))"

section \<open>Scheduling\<close>

text \<open>Making \<open>next\<close> the current entity, or the idle one where it refuses to be activated.\<close>

definition switch_to :: "sched \<Rightarrow> nat \<Rightarrow> sched res" where
  "switch_to s next =
     (if Some next \<noteq> curr s then
        res_bind (thread_activate s next (curr s)) (\<lambda>(ok, s1).
        if ok then Inr (s1\<lparr>curr := Some next\<rparr>)
        else res_bind (thread_activate s1 (idle s1) (curr s1)) (\<lambda>(ok, s2).
             if \<not> ok then Inl Aborted else Inr (s2\<lparr>curr := Some (idle s2)\<rparr>)))
      else Inr s)"

definition schedule :: "sched \<Rightarrow> sched res" where
  "schedule s =
     (if \<not> active s then Inr s
      else case algo s of
        None \<Rightarrow> Inr s
      | Some A \<Rightarrow>
          res_bind (sa_pick A (\<lambda>e. cpu_runtime (ents s e)) (runq s)) (\<lambda>(pick, q).
          let s1 = s\<lparr>runq := q\<rparr>; next = (case pick of None \<Rightarrow> idle s1 | Some e \<Rightarrow> e) in
          res_bind (switch_to s1 next) (\<lambda>s2.
          case curr s2 of
            None \<Rightarrow> Inl Null_Deref
          | Some c \<Rightarrow> Inr (upd_ent s2 c (update_exec_start_time (now s2))))))"

definition update_accounting :: "sched \<Rightarrow> sched" where
  "update_accounting s =
     (case curr s of
        None \<Rightarrow> s
      | Some c \<Rightarrow>
          let t = now s; delta = tp_sub t (exec_start (ents s c));
              s1 = upd_ent s c (increment_cpu_runtime delta)
          in upd_ent s1 c (update_exec_start_time t))"

text \<open>\<open>Scheduler::init\<close> from the algorithm found and the idle entity created; \<open>run\<close> activates.\<close>

definition sched_init :: "nat \<Rightarrow> sched \<Rightarrow> sched_algo option \<Rightarrow> nat \<Rightarrow> (bool \<times> sched) res" where
  "sched_init n s A idle_ent =
     (let s1 = s\<lparr>idle := idle_ent\<rparr> in
      case A of
        None \<Rightarrow> Inr (False, s1)
      | Some alg \<Rightarrow>
          let s2 = s1\<lparr>algo := Some alg\<rparr> in
          res_bind (thread_start n s2 idle_ent) (\<lambda>s3.
          res_bind (thread_activate s3 idle_ent None) (\<lambda>(_, s4).
          res_bind (sa_remove alg idle_ent (runq s4)) (\<lambda>q. Inr (True, s4\<lparr>runq := q\<rparr>)))))"

definition sched_run :: "sched \<Rightarrow> sched" where
  "sched_run s = s\<lparr>active := True\<rparr>"

section \<open>The contract of an algorithm\<close>

locale scheduling_algorithm =
  fixes A :: sched_algo
  assumes add_law: "klist_ok (rq q) \<Longrightarrow> klist_room (rq q) \<Longrightarrow>
      \<exists>q'. sa_add A e q = Inr q' \<and> elems (rq q') = elems (rq q) @ [e] \<and> klist_ok (rq q') \<and> irqs q' = irqs q"
    and remove_law: "klist_ok (rq q) \<Longrightarrow>
      \<exists>q'. sa_remove A e q = Inr q' \<and> elems (rq q') = remove1 e (elems (rq q)) \<and> klist_ok (rq q') \<and>
           irqs q' = irqs q"
    and pick_law: "klist_ok (rq q) \<Longrightarrow>
      \<exists>r q'. sa_pick A rt q = Inr (r, q') \<and> klist_ok (rq q') \<and> irqs q' = irqs q \<and>
        set (elems (rq q')) = set (elems (rq q)) \<and> distinct (elems (rq q')) = distinct (elems (rq q)) \<and>
        (case r of None \<Rightarrow> elems (rq q) = [] | Some e \<Rightarrow> e \<in> set (elems (rq q)))"

text \<open>
  The invariant for a finite set of entities: the run queue holds, once each, exactly the runnable
  entities other than the idle one, the idle entity is runnable, no entity is in state \<open>RUNNING\<close>
  (nothing in the kernel sets it), and the waiters are entities other than the idle one.
\<close>

definition sched_inv :: "nat set \<Rightarrow> sched_algo \<Rightarrow> sched \<Rightarrow> bool" where
  "sched_inv E A s \<longleftrightarrow> finite E \<and> card E < 2 ^ 32 \<and> algo s = Some A \<and> klist_ok (rq (runq s)) \<and>
     distinct (elems (rq (runq s))) \<and>
     set (elems (rq (runq s))) = {e \<in> E. est (ents s e) = RUNNABLE \<and> e \<noteq> idle s} \<and>
     idle s \<in> E \<and> est (ents s (idle s)) = RUNNABLE \<and> (\<forall>e. est (ents s e) \<noteq> RUNNING) \<and>
     (\<forall>e. set (elems (waiters (ents s e))) \<subseteq> E)"

lemma upd_ent_simps [simp]:
  "active (upd_ent s e f) = active s" "algo (upd_ent s e f) = algo s" "curr (upd_ent s e f) = curr s"
  "idle (upd_ent s e f) = idle s" "runq (upd_ent s e f) = runq s" "cur_thread (upd_ent s e f) = cur_thread s"
  "now (upd_ent s e f) = now s"
  "ents (upd_ent s e f) x = (if x = e then f (ents s e) else ents s x)"
  by (simp_all add: upd_ent_def)

lemma sched_invD:
  assumes "sched_inv E A s"
  shows "finite E" and "card E < 2 ^ 32" and "algo s = Some A" and "klist_ok (rq (runq s))"
    and "distinct (elems (rq (runq s)))"
    and "x \<in> set (elems (rq (runq s))) \<longleftrightarrow> x \<in> E \<and> est (ents s x) = RUNNABLE \<and> x \<noteq> idle s"
    and "idle s \<in> E" and "est (ents s (idle s)) = RUNNABLE" and "est (ents s x) \<noteq> RUNNING"
    and "x \<in> set (elems (waiters (ents s y))) \<Longrightarrow> x \<in> E"
  using assms by (auto simp: sched_inv_def)

lemma sched_invI:
  assumes "finite E" and "card E < 2 ^ 32" and "algo s = Some A" and "klist_ok (rq (runq s))"
    and "distinct (elems (rq (runq s)))"
    and "\<And>x. x \<in> set (elems (rq (runq s))) \<longleftrightarrow> x \<in> E \<and> est (ents s x) = RUNNABLE \<and> x \<noteq> idle s"
    and "idle s \<in> E" and "est (ents s (idle s)) = RUNNABLE" and "\<And>x. est (ents s x) \<noteq> RUNNING"
    and "\<And>x y. x \<in> set (elems (waiters (ents s y))) \<Longrightarrow> x \<in> E"
  shows "sched_inv E A s"
  using assms by (auto simp: sched_inv_def)

text \<open>What stays as it was in a state change.\<close>

definition same_frame :: "sched \<Rightarrow> sched \<Rightarrow> bool" where
  "same_frame s s' \<longleftrightarrow> idle s' = idle s \<and> active s' = active s \<and> algo s' = algo s \<and> curr s' = curr s \<and>
     cur_thread s' = cur_thread s \<and> now s' = now s \<and>
     (\<forall>x. cpu_runtime (ents s' x) = cpu_runtime (ents s x))"

lemma same_frame_refl: "same_frame s s"
  by (simp add: same_frame_def)

lemma same_frame_trans: "same_frame a b \<Longrightarrow> same_frame b c \<Longrightarrow> same_frame a c"
  by (simp add: same_frame_def)

context scheduling_algorithm
begin

lemma move_ok:
  assumes i: "sched_inv E A s" and e: "e \<in> E" "e \<noteq> idle s" and st: "st \<noteq> RUNNING" "est (ents s e) \<noteq> st"
  shows "\<exists>s1. move_in_queue A s e st = Inr s1 \<and>
    sched_inv E A (upd_ent s1 e (\<lambda>x. x\<lparr>est := st\<rparr>)) \<and> ents s1 = ents s \<and> same_frame s s1"
proof -
  note d = sched_invD [OF i]
  have keep: "sched_inv E A (upd_ent (s\<lparr>runq := q\<rparr>) e (\<lambda>x. x\<lparr>est := st\<rparr>))"
    if "klist_ok (rq q)" "distinct (elems (rq q))"
      "\<And>x. x \<in> set (elems (rq q)) \<longleftrightarrow>
         (if x = e then st = RUNNABLE else x \<in> set (elems (rq (runq s))))" for q
    using that d e st by (intro sched_invI) (auto split: if_splits)
  have fr: "same_frame s (s\<lparr>runq := q\<rparr>)" for q by (simp add: same_frame_def)
  show ?thesis
  proof (cases "st = RUNNABLE")
    case True
    then have old: "est (ents s e) = STOPPED \<or> est (ents s e) = SLEEPING"
      using st(2) d(9) [of e] by (cases "est (ents s e)") auto
    have nin: "e \<notin> set (elems (rq (runq s)))" using d(6) [of e] True st(2) by simp
    have "card (insert e (set (elems (rq (runq s))))) \<le> card E"
      using d(1,6) e(1) by (intro card_mono) auto
    then have "klist_room (rq (runq s))"
      using nin d(2,5) by (simp add: klist_room_def distinct_card)
    from add_law [OF d(4) this, of e] obtain q where
      q: "sa_add A e (runq s) = Inr q" "elems (rq q) = elems (rq (runq s)) @ [e]" "klist_ok (rq q)" by blast
    have "move_in_queue A s e st = Inr (s\<lparr>runq := q\<rparr>)"
      using True old q(1) by (auto simp: move_in_queue_def Let_def)
    moreover have "sched_inv E A (upd_ent (s\<lparr>runq := q\<rparr>) e (\<lambda>x. x\<lparr>est := st\<rparr>))"
      using q d(5) nin True by (intro keep) auto
    ultimately show ?thesis using fr by auto
  next
    case False
    then have st': "st = STOPPED \<or> st = SLEEPING" using st(1) by (cases st) auto
    show ?thesis
    proof (cases "est (ents s e) = RUNNABLE")
      case True
      from remove_law [OF d(4), of e] obtain q where
        q: "sa_remove A e (runq s) = Inr q" "elems (rq q) = remove1 e (elems (rq (runq s)))" "klist_ok (rq q)"
        by blast
      have "move_in_queue A s e st = Inr (s\<lparr>runq := q\<rparr>)"
        using False st' True q(1) by (auto simp: move_in_queue_def Let_def)
      moreover have "sched_inv E A (upd_ent (s\<lparr>runq := q\<rparr>) e (\<lambda>x. x\<lparr>est := st\<rparr>))"
        using q d(5) False by (intro keep) auto
      ultimately show ?thesis using fr by auto
    next
      case nr: False
      then have "e \<notin> set (elems (rq (runq s)))" using d(6) by simp
      moreover have "move_in_queue A s e st = Inr s"
        using False st' nr d(9) [of e] by (auto simp: move_in_queue_def Let_def)
      moreover have "s\<lparr>runq := runq s\<rparr> = s" by simp
      ultimately show ?thesis using keep [of "runq s"] d(4,5) False same_frame_refl by auto
    qed
  qed
qed

end

text \<open>Who waits for a state change of whom, and how many entities are not runnable.\<close>

definition wait_graph :: "sched \<Rightarrow> (nat \<times> nat) set" where
  "wait_graph s = {(e, w). w \<in> set (elems (waiters (ents s e)))}"

definition not_runnable :: "nat set \<Rightarrow> sched \<Rightarrow> nat" where
  "not_runnable E s = card {x \<in> E. est (ents s x) \<noteq> RUNNABLE}"

definition woken :: "sched \<Rightarrow> sched \<Rightarrow> bool" where
  "woken s s' \<longleftrightarrow> (\<forall>x. est (ents s' x) = est (ents s x) \<or> est (ents s' x) = RUNNABLE)"

lemma not_runnable_mono:
  assumes "finite E" and "woken s s'"
  shows "not_runnable E s' \<le> not_runnable E s"
proof -
  have "est (ents s' x) \<noteq> RUNNABLE \<Longrightarrow> est (ents s x) \<noteq> RUNNABLE" for x
    using assms(2) unfolding woken_def by metis
  then show ?thesis unfolding not_runnable_def using assms(1) by (intro card_mono) auto
qed

lemma wait_graph_upd_est [simp]: "wait_graph (upd_ent s e (\<lambda>x. x\<lparr>est := st\<rparr>)) = wait_graph s"
  by (auto simp: wait_graph_def split: if_splits)

text \<open>
  A state change has one way to fail: a nested trigger clears the wait queue that is being walked, and
  that needs a cycle of waits. \<open>uaf_or s P r\<close> says that \<open>r\<close>, started from \<open>s\<close>, returns with \<open>P\<close> or fails in
  this way.
\<close>

definition uaf_or :: "sched \<Rightarrow> ('a \<Rightarrow> bool) \<Rightarrow> 'a res \<Rightarrow> bool" where
  "uaf_or s P r \<longleftrightarrow> r = Inl Use_After_Free \<and> \<not> acyclic (wait_graph s) \<or> (\<exists>x. r = Inr x \<and> P x)"

lemma uaf_orI: "r = Inr x \<Longrightarrow> P x \<Longrightarrow> uaf_or s P r"
  by (simp add: uaf_or_def)

lemma uaf_or_bind:
  assumes "uaf_or s P r" and "\<And>x. r = Inr x \<Longrightarrow> P x \<Longrightarrow> uaf_or s Q (f x)"
  shows "uaf_or s Q (res_bind r f)"
  using assms by (auto simp: uaf_or_def)

lemma uaf_or_mono: "uaf_or s P r \<Longrightarrow> (\<And>x. r = Inr x \<Longrightarrow> P x \<Longrightarrow> Q x) \<Longrightarrow> uaf_or s Q r"
  by (auto simp: uaf_or_def)

lemma uaf_or_sub: "uaf_or s1 P r \<Longrightarrow> wait_graph s1 \<subseteq> wait_graph s \<Longrightarrow> uaf_or s P r"
  unfolding uaf_or_def using acyclic_subset by blast

lemma uaf_or_Inr: "uaf_or s P (Inr x) \<longleftrightarrow> P x"
  by (simp add: uaf_or_def)

lemma uaf_or_acyclic: "uaf_or s P r \<Longrightarrow> acyclic (wait_graph s) \<Longrightarrow> \<exists>x. r = Inr x \<and> P x"
  by (auto simp: uaf_or_def)

text \<open>
  What every state change keeps, and what waking does: an entity that is touched was reached along the
  waits from one of \<open>R\<close>, is runnable, and has triggered its event, so nobody waits for it any more.
\<close>

definition kept :: "nat set \<Rightarrow> sched_algo \<Rightarrow> sched \<Rightarrow> sched \<Rightarrow> bool" where
  "kept E A s s' \<longleftrightarrow> sched_inv E A s' \<and> same_frame s s' \<and> wait_graph s' \<subseteq> wait_graph s"

definition woken_up :: "sched \<Rightarrow> nat \<Rightarrow> bool" where
  "woken_up s x \<longleftrightarrow> est (ents s x) = RUNNABLE \<and> elems (waiters (ents s x)) = []"

definition only_woken :: "nat set \<Rightarrow> sched \<Rightarrow> sched \<Rightarrow> bool" where
  "only_woken R s s' \<longleftrightarrow> (\<forall>x. ents s' x = ents s x \<or> woken_up s' x \<and> (\<exists>w \<in> R. (w, x) \<in> (wait_graph s)\<^sup>*))"

lemma kept_refl: "sched_inv E A s \<Longrightarrow> kept E A s s"
  by (simp add: kept_def same_frame_refl)

lemma kept_trans: "kept E A a b \<Longrightarrow> kept E A b c \<Longrightarrow> kept E A a c"
  unfolding kept_def using same_frame_trans by blast

lemma kept_reach: "kept E A s s' \<Longrightarrow> (wait_graph s')\<^sup>* \<subseteq> (wait_graph s)\<^sup>*"
  unfolding kept_def using rtrancl_mono by blast

lemma only_woken_trans:
  assumes "only_woken R a b" and "only_woken S b c" and "kept E A a b"
  shows "only_woken (R \<union> S) a c"
  unfolding only_woken_def
proof
  fix x
  have sub: "(wait_graph b)\<^sup>* \<subseteq> (wait_graph a)\<^sup>*" by (rule kept_reach [OF assms(3)])
  show "ents c x = ents a x \<or> woken_up c x \<and> (\<exists>w \<in> R \<union> S. (w, x) \<in> (wait_graph a)\<^sup>*)"
  proof (cases "ents c x = ents b x")
    case True
    then show ?thesis using assms(1) unfolding only_woken_def woken_up_def by (metis UnCI)
  next
    case False
    then show ?thesis using assms(2) sub unfolding only_woken_def by blast
  qed
qed

lemma only_woken_woken: "only_woken R s s' \<Longrightarrow> woken s s'"
  unfolding only_woken_def woken_up_def woken_def by metis

lemma woken_runnable: "only_woken R s s' \<Longrightarrow> est (ents s x) = RUNNABLE \<Longrightarrow> est (ents s' x) = RUNNABLE"
  unfolding only_woken_def woken_up_def by metis

context scheduling_algorithm
begin

definition wake_ok :: "nat set \<Rightarrow> nat \<Rightarrow> bool" where
  "wake_ok E n \<longleftrightarrow> (\<forall>s w. sched_inv E A s \<longrightarrow> w \<in> E \<longrightarrow> not_runnable E s < n \<longrightarrow>
     uaf_or s (\<lambda>s'. kept E A s s' \<and> only_woken {w} s s' \<and> est (ents s' w) = RUNNABLE) (set_entity_state n s w RUNNABLE))"

text \<open>Waking a list of entities, given that waking one works.\<close>

lemma wake_all_ok:
  assumes ok: "wake_ok E n"
  shows "sched_inv E A s \<Longrightarrow> set ws \<subseteq> E \<Longrightarrow> not_runnable E s < n \<Longrightarrow>
    uaf_or s (\<lambda>s'. kept E A s s' \<and> only_woken (set ws) s s' \<and> (\<forall>w \<in> set ws. est (ents s' w) = RUNNABLE)) (wake_all n s ws)"
proof (induction ws arbitrary: s)
  case Nil
  then show ?case by (intro uaf_orI [of _ s]) (simp_all add: kept_refl only_woken_def)
next
  case (Cons w ws)
  have one: "uaf_or s (\<lambda>s'. kept E A s s' \<and> only_woken {w} s s' \<and> est (ents s' w) = RUNNABLE) (set_entity_state n s w RUNNABLE)"
    using ok Cons.prems unfolding wake_ok_def by simp
  show ?case unfolding wake_all.simps
  proof (rule uaf_or_bind [OF one])
    fix s1 assume s1: "kept E A s s1 \<and> only_woken {w} s s1 \<and> est (ents s1 w) = RUNNABLE"
    then have k1: "kept E A s s1" and inv: "sched_inv E A s1" by (simp_all add: kept_def)
    have "not_runnable E s1 < n"
      using not_runnable_mono [OF sched_invD(1) [OF Cons.prems(1)] only_woken_woken] s1 Cons.prems(3)
      by (meson le_less_trans)
    from Cons.IH [OF inv _ this] Cons.prems(2)
    have "uaf_or s1 (\<lambda>s'. kept E A s1 s' \<and> only_woken (set ws) s1 s' \<and> (\<forall>w \<in> set ws. est (ents s' w) = RUNNABLE))
        (wake_all n s1 ws)" by simp
    then have "uaf_or s (\<lambda>s'. kept E A s1 s' \<and> only_woken (set ws) s1 s' \<and> (\<forall>w \<in> set ws. est (ents s' w) = RUNNABLE))
        (wake_all n s1 ws)" by (rule uaf_or_sub) (use k1 in \<open>simp add: kept_def\<close>)
    then show "uaf_or s (\<lambda>s'. kept E A s s' \<and> only_woken (set (w # ws)) s s' \<and>
        (\<forall>v \<in> set (w # ws). est (ents s' v) = RUNNABLE)) (wake_all n s1 ws)"
    proof (rule uaf_or_mono)
      fix s' assume s': "kept E A s1 s' \<and> only_woken (set ws) s1 s' \<and> (\<forall>w \<in> set ws. est (ents s' w) = RUNNABLE)"
      then have "est (ents s' w) = RUNNABLE" using s1 woken_runnable by blast
      moreover have "only_woken ({w} \<union> set ws) s s'" using s1 s' k1 only_woken_trans by blast
      ultimately show "kept E A s s' \<and> only_woken (set (w # ws)) s s' \<and> (\<forall>v \<in> set (w # ws). est (ents s' v) = RUNNABLE)"
        using s' kept_trans [OF k1] by simp
    qed
  qed
qed

text \<open>What a state change of \<open>e\<close> to \<open>st\<close> has done when it returns.\<close>

definition changed :: "nat set \<Rightarrow> sched \<Rightarrow> nat \<Rightarrow> ent_state \<Rightarrow> sched \<Rightarrow> bool" where
  "changed E s e st s' \<longleftrightarrow> kept E A s s' \<and> est (ents s' e) = st \<and> elems (waiters (ents s' e)) = [] \<and>
     (\<forall>w. (e, w) \<in> wait_graph s \<longrightarrow> est (ents s' w) = RUNNABLE) \<and>
     (\<forall>x. x \<noteq> e \<longrightarrow> ents s' x = ents s x \<or> woken_up s' x \<and> (e, x) \<in> (wait_graph s)\<^sup>*)"

lemma set_state_step:
  assumes ok: "wake_ok E n" and i: "sched_inv E A s" and e: "e \<in> E" "e \<noteq> idle s" and st: "st \<noteq> RUNNING"
    and ch: "est (ents s e) \<noteq> st" and fuel: "not_runnable E (upd_ent s e (\<lambda>x. x\<lparr>est := st\<rparr>)) < n"
  shows "uaf_or s (changed E s e st) (set_entity_state (Suc n) s e st)"
proof -
  let ?u = "\<lambda>x. x\<lparr>est := st\<rparr>" and ?c = "\<lambda>x. x\<lparr>waiters := klist_clear (waiters x)\<rparr>"
  from move_ok [OF i e st ch] obtain s1 where
    s1: "move_in_queue A s e st = Inr s1" "sched_inv E A (upd_ent s1 e ?u)" "ents s1 = ents s" "same_frame s s1"
    by blast
  define s2 where "s2 = upd_ent s1 e ?u"
  define ws where "ws = elems (waiters (ents s2 e))"
  have ents2: "ents s2 x = (if x = e then ?u (ents s e) else ents s x)" for x by (simp add: s2_def s1(3))
  have wg: "wait_graph s2 = wait_graph s" by (simp add: s2_def) (simp add: wait_graph_def s1(3))
  have ws: "set ws = {w. (e, w) \<in> wait_graph s}" by (simp add: ws_def ents2 wait_graph_def)
  have "not_runnable E s2 = not_runnable E (upd_ent s e ?u)" by (simp add: not_runnable_def s2_def s1(3))
  then have fu: "not_runnable E s2 < n" using fuel by simp
  have "set ws \<subseteq> E" using sched_invD(10) [OF i] ws by (auto simp: wait_graph_def)
  from wake_all_ok [OF ok s1(2) [folded s2_def] this fu]
  have wk: "uaf_or s (\<lambda>s3. kept E A s2 s3 \<and> only_woken (set ws) s2 s3 \<and> (\<forall>w \<in> set ws. est (ents s3 w) = RUNNABLE)) (wake_all n s2 ws)"
    by (rule uaf_or_sub) (simp add: wg)
  have eq: "set_entity_state (Suc n) s e st = res_bind (wake_all n s2 ws) (\<lambda>s3.
      if elems (waiters (ents s3 e)) = ws then Inr (upd_ent s3 e ?c) else Inl Use_After_Free)"
    using ch s1(1) sched_invD(3) [OF i] by (simp add: Let_def s2_def ws_def)
  show ?thesis unfolding eq
  proof (rule uaf_or_bind [OF wk])
    fix s3 assume r3: "wake_all n s2 ws = Inr s3"
      and s3: "kept E A s2 s3 \<and> only_woken (set ws) s2 s3 \<and> (\<forall>w \<in> set ws. est (ents s3 w) = RUNNABLE)"
    let ?s4 = "upd_ent s3 e ?c"
    have touched: "\<exists>w. (e, w) \<in> wait_graph s \<and> (w, x) \<in> (wait_graph s)\<^sup>*" if "ents s3 x \<noteq> ents s2 x" for x
    proof -
      have "\<exists>w \<in> set ws. (w, x) \<in> (wait_graph s2)\<^sup>*" using that s3 unfolding only_woken_def by metis
      then show ?thesis by (simp add: ws wg)
    qed
    have "\<not> acyclic (wait_graph s)" if l: "elems (waiters (ents s3 e)) \<noteq> ws"
    proof -
      have "ents s3 e \<noteq> ents s2 e" using l by (auto simp: ws_def)
      then have "(e, e) \<in> (wait_graph s)\<^sup>+" using touched by (meson rtrancl_into_trancl2)
      then show ?thesis by (auto simp: acyclic_def)
    qed
    moreover have "changed E s e st ?s4" if l: "elems (waiters (ents s3 e)) = ws"
    proof -
      have e3: "est (ents s3 e) = st"
      proof (cases "ents s3 e = ents s2 e")
        case False
        then have "woken_up s3 e" using s3 unfolding only_woken_def by blast
        then have "ws = []" using l by (simp add: woken_up_def)
        then have "s3 = s2" using r3 by simp
        with False show ?thesis by simp
      qed (simp add: ents2)
      have "sched_inv E A ?s4"
        using sched_invD [of E A s3] s3 by (intro sched_invI) (auto simp: kept_def split: if_splits)
      moreover have "same_frame s ?s4"
        using s1(4) s3 by (auto simp: same_frame_def kept_def s2_def s1(3))
      moreover have "wait_graph ?s4 \<subseteq> wait_graph s3" by (auto simp: wait_graph_def split: if_splits)
      moreover have "wait_graph s3 \<subseteq> wait_graph s" using s3 wg by (simp add: kept_def)
      moreover have "ents ?s4 x = ents s x \<or> woken_up ?s4 x \<and> (e, x) \<in> (wait_graph s)\<^sup>*" if "x \<noteq> e" for x
      proof (cases "ents s3 x = ents s2 x")
        case False
        then have "woken_up s3 x" using s3 unfolding only_woken_def by blast
        moreover obtain w where "(e, w) \<in> wait_graph s" "(w, x) \<in> (wait_graph s)\<^sup>*" using touched [OF False] by blast
        ultimately have "woken_up s3 x" "(e, x) \<in> (wait_graph s)\<^sup>*" by (simp_all add: converse_rtrancl_into_rtrancl)
        then show ?thesis using that by (simp add: woken_up_def)
      qed (use that in \<open>simp add: ents2\<close>)
      moreover have "est (ents ?s4 w) = RUNNABLE" if "(e, w) \<in> wait_graph s" for w
        using that s3 ws by (cases "w = e") simp_all
      ultimately show ?thesis using e3 unfolding changed_def kept_def by auto
    qed
    ultimately show "uaf_or s (changed E s e st) (if elems (waiters (ents s3 e)) = ws then Inr ?s4 else Inl Use_After_Free)"
      by (simp add: uaf_or_def)
  qed
qed

lemma wake_ok_all: "wake_ok E n"
proof (induction n)
  case 0
  show ?case by (simp add: wake_ok_def)
next
  case (Suc n)
  show ?case
    unfolding wake_ok_def
  proof (intro allI impI)
    fix s w assume i: "sched_inv E A s" and w: "w \<in> E" and f: "not_runnable E s < Suc n"
    let ?P = "\<lambda>s'. kept E A s s' \<and> only_woken {w} s s' \<and> est (ents s' w) = RUNNABLE"
    show "uaf_or s ?P (set_entity_state (Suc n) s w RUNNABLE)"
    proof (cases "est (ents s w) = RUNNABLE")
      case True
      then show ?thesis
        using i sched_invD(3) [OF i] by (intro uaf_orI [of _ s]) (simp_all add: kept_refl only_woken_def)
    next
      case False
      have wi: "w \<noteq> idle s" using False sched_invD(8) [OF i] by auto
      let ?s = "upd_ent s w (\<lambda>x. x\<lparr>est := RUNNABLE\<rparr>)"
      have "{x \<in> E. est (ents ?s x) \<noteq> RUNNABLE} \<subset> {x \<in> E. est (ents s x) \<noteq> RUNNABLE}"
        using False w by auto
      then have "not_runnable E ?s < not_runnable E s"
        unfolding not_runnable_def using sched_invD(1) [OF i] by (intro psubset_card_mono) auto
      then have "not_runnable E ?s < n" using f by simp
      from set_state_step [OF Suc i w wi _ False this]
      show ?thesis by (rule uaf_or_mono) (auto simp: changed_def only_woken_def woken_up_def)
    qed
  qed
qed

text \<open>A state change of an entity other than the idle one, with enough depth.\<close>

lemma set_state_ok:
  assumes i: "sched_inv E A s" and e: "e \<in> E" "e \<noteq> idle s" and st: "st \<noteq> RUNNING" and fuel: "card E + 1 < n"
  shows "uaf_or s (\<lambda>s'. if est (ents s e) = st then s' = s else changed E s e st s') (set_entity_state n s e st)"
proof (cases "est (ents s e) = st")
  case True
  obtain m where "n = Suc m" using fuel by (cases n) auto
  with True show ?thesis using sched_invD(3) [OF i] by (intro uaf_orI [of _ s]) simp_all
next
  case False
  obtain m where m: "n = Suc m" "card E < m" using fuel by (cases n) auto
  have "not_runnable E (upd_ent s e (\<lambda>x. x\<lparr>est := st\<rparr>)) \<le> card E"
    unfolding not_runnable_def using sched_invD(1) [OF i] by (intro card_mono) auto
  then have "not_runnable E (upd_ent s e (\<lambda>x. x\<lparr>est := st\<rparr>)) < m" using m(2) by simp
  from set_state_step [OF wake_ok_all i e st False this] m(1) False show ?thesis by simp
qed

text \<open>The parts of it that do not depend on whether the state was different before.\<close>

lemma set_state_kept:
  assumes "sched_inv E A s" and "e \<in> E" "e \<noteq> idle s" and "st \<noteq> RUNNING" and "card E + 1 < n"
  shows "uaf_or s (\<lambda>s'. kept E A s s' \<and> est (ents s' e) = st \<and>
      (\<forall>x. x \<noteq> e \<longrightarrow> ents s' x = ents s x \<or> woken_up s' x \<and> (e, x) \<in> (wait_graph s)\<^sup>*)) (set_entity_state n s e st)"
  using set_state_ok [OF assms] by (rule uaf_or_mono) (use assms(1) in \<open>auto simp: changed_def kept_refl split: if_splits\<close>)

text \<open>\<open>schedule\<close> never fails: it runs a runnable entity, the idle one exactly when there is no other.\<close>

lemma schedule_ok:
  assumes i: "sched_inv E A s" and act: "active s"
  shows "\<exists>s' c. schedule s = Inr s' \<and> sched_inv E A s' \<and> curr s' = Some c \<and> est (ents s' c) = RUNNABLE \<and>
    (c = idle s \<longleftrightarrow> elems (rq (runq s)) = []) \<and> exec_start (ents s' c) = now s \<and> idle s' = idle s \<and>
    wait_graph s' = wait_graph s \<and> active s' \<and> now s' = now s \<and>
    (\<forall>x. est (ents s' x) = est (ents s x)) \<and>
    (\<forall>x. cpu_runtime (ents s' x) = cpu_runtime (ents s x)) \<and>
    (\<exists>r. sa_pick A (\<lambda>e. cpu_runtime (ents s e)) (runq s) = Inr (r, runq s') \<and>
         c = (case r of None \<Rightarrow> idle s | Some e \<Rightarrow> e))"
proof -
  note d = sched_invD [OF i]
  let ?rt = "\<lambda>e. cpu_runtime (ents s e)"
  from pick_law [OF d(4), of ?rt] obtain r q where
    r: "sa_pick A ?rt (runq s) = Inr (r, q)" "klist_ok (rq q)" "set (elems (rq q)) = set (elems (rq (runq s)))"
      "distinct (elems (rq q)) = distinct (elems (rq (runq s)))"
      "case r of None \<Rightarrow> elems (rq (runq s)) = [] | Some e \<Rightarrow> e \<in> set (elems (rq (runq s)))" by blast
  define c where "c = (case r of None \<Rightarrow> idle s | Some e \<Rightarrow> e)"
  have run: "est (ents s c) = RUNNABLE" using r(5) d(6,8) by (auto simp: c_def split: option.splits)
  have idle_iff: "c = idle s \<longleftrightarrow> elems (rq (runq s)) = []"
    using r(5) d(6) [of "idle s"] by (auto simp: c_def split: option.splits)
  define s1 where "s1 = s\<lparr>runq := q\<rparr>"
  define s4 where "s4 = (if Some c \<noteq> curr s then s1\<lparr>cur_thread := Some c, curr := Some c\<rparr> else s1)"
  have step: "switch_to s1 c = Inr s4"
    using run by (auto simp: switch_to_def thread_activate_def s1_def s4_def)
  have c4: "curr s4 = Some c" by (auto simp: s4_def s1_def)
  have c4': "(case r of None \<Rightarrow> idle s1 | Some e \<Rightarrow> e) = c" by (simp add: c_def s1_def split: option.splits)
  define s' where "s' = upd_ent s4 c (update_exec_start_time (now s4))"
  have "schedule s = Inr s'"
    using act d(3) r(1) step c4 c4' unfolding schedule_def s1_def by (simp add: s'_def)
  moreover have ents4: "ents s4 = ents s" "idle s4 = idle s" "runq s4 = q" "active s4 = active s" "now s4 = now s"
    "algo s4 = algo s" by (simp_all add: s4_def s1_def)
  moreover have "sched_inv E A s'"
    using d r(2-4) ents4 by (intro sched_invI) (auto simp: s'_def update_exec_start_time_def split: if_splits)
  moreover have ent': "ents s' x = (if x = c then (ents s c)\<lparr>exec_start := now s\<rparr> else ents s x)" for x
    using ents4 by (simp add: s'_def update_exec_start_time_def)
  moreover have "curr s' = Some c" "idle s' = idle s" "active s'" "now s' = now s" "runq s' = q"
    using ents4 c4 act by (simp_all add: s'_def)
  moreover have "wait_graph s' = wait_graph s" by (auto simp: wait_graph_def ent' split: if_splits)
  ultimately show ?thesis
    using run idle_iff r(1) by (intro exI [of _ s'] exI [of _ c]) (simp add: c_def)
qed

end

lemma update_accounting_inv: "sched_inv E A s \<Longrightarrow> sched_inv E A (update_accounting s)"
  by (auto simp: update_accounting_def sched_inv_def Let_def increment_cpu_runtime_def update_exec_start_time_def
      split: option.splits)

lemma update_accounting_graph [simp]: "wait_graph (update_accounting s) = wait_graph s"
  by (auto simp: update_accounting_def wait_graph_def Let_def increment_cpu_runtime_def update_exec_start_time_def
      split: option.splits if_splits)

end
