(* ===== verification/Sched_Algos.thy ===== *)
theory Sched_Algos imports Sched begin

text \<open>
  The three scheduling algorithms: first-in first-out (\<open>coursework/sched-fifo.cpp\<close>), round robin
  (\<open>coursework/sched-rr.cpp\<close>) and the completely fair one (\<open>infos/kernel/sched-cfs.cpp\<close>), their
  interpretation as \<open>scheduling_algorithm\<close>, and the scheduler as a transition system.
\<close>

section \<open>The algorithms\<close>

definition rq_append :: "nat \<Rightarrow> runqueue \<Rightarrow> runqueue res" where
  "rq_append e q = res_bind (with_irq_lock (\<lambda>l. Inr ((), klist_append l e)) q) (\<lambda>(_, q1). Inr q1)"

definition rq_remove :: "nat \<Rightarrow> runqueue \<Rightarrow> runqueue res" where
  "rq_remove e q = res_bind (with_irq_lock (\<lambda>l. Inr ((), klist_remove l e)) q) (\<lambda>(_, q1). Inr q1)"

definition rq_enqueue :: "nat \<Rightarrow> runqueue \<Rightarrow> runqueue res" where
  "rq_enqueue e q = res_bind (with_irq_lock (\<lambda>l. Inr ((), klist_enqueue l e)) q) (\<lambda>(_, q1). Inr q1)"

definition fifo_pick :: "(nat \<Rightarrow> u64) \<Rightarrow> runqueue \<Rightarrow> (nat option \<times> runqueue) res" where
  "fifo_pick rt q =
     (if klist_is_empty (rq q) then Inr (None, q)
      else res_bind (klist_first (rq q)) (\<lambda>e. Inr (Some e, q)))"

definition rr_pick :: "(nat \<Rightarrow> u64) \<Rightarrow> runqueue \<Rightarrow> (nat option \<times> runqueue) res" where
  "rr_pick rt q =
     (if klist_is_empty (rq q) then Inr (None, q)
      else with_irq_lock (\<lambda>l. res_bind (klist_dequeue l) (\<lambda>(next, l1). Inr (Some next, klist_append l1 next))) q)"

text \<open>The loop over the run queue: the entity found so far and its processor time.\<close>

fun cfs_min :: "(nat \<Rightarrow> u64) \<Rightarrow> nat list \<Rightarrow> nat option \<Rightarrow> u64 \<Rightarrow> nat option" where
  "cfs_min rt [] best min_runtime = best"
| "cfs_min rt (e # es) best min_runtime =
     (if best = None \<or> dur_less (rt e) min_runtime then cfs_min rt es (Some e) (rt e)
      else cfs_min rt es best min_runtime)"

definition cfs_pick :: "(nat \<Rightarrow> u64) \<Rightarrow> runqueue \<Rightarrow> (nat option \<times> runqueue) res" where
  "cfs_pick rt q =
     (if klist_count (rq q) = 0 then Inr (None, q)
      else if klist_count (rq q) = 1 then res_bind (klist_first (rq q)) (\<lambda>e. Inr (Some e, q))
      else Inr (cfs_min rt (klist_iter (rq q)) None 0, q))"

definition fifo_algo :: sched_algo where
  "fifo_algo = \<lparr>sa_add = rq_append, sa_remove = rq_remove, sa_pick = fifo_pick\<rparr>"

definition rr_algo :: sched_algo where
  "rr_algo = \<lparr>sa_add = rq_append, sa_remove = rq_remove, sa_pick = rr_pick\<rparr>"

definition cfs_algo :: sched_algo where
  "cfs_algo = \<lparr>sa_add = rq_enqueue, sa_remove = rq_remove, sa_pick = cfs_pick\<rparr>"

section \<open>The contract\<close>

lemma algo_sel [simp]:
  "sa_add fifo_algo = rq_append" "sa_remove fifo_algo = rq_remove" "sa_pick fifo_algo = fifo_pick"
  "sa_add rr_algo = rq_append" "sa_remove rr_algo = rq_remove" "sa_pick rr_algo = rr_pick"
  "sa_add cfs_algo = rq_enqueue" "sa_remove cfs_algo = rq_remove" "sa_pick cfs_algo = cfs_pick"
  by (simp_all add: fifo_algo_def rr_algo_def cfs_algo_def)

lemma rq_append_eq: "rq_append e q = Inr (q\<lparr>rq := klist_append (rq q) e\<rparr>)"
  by (simp add: rq_append_def with_irq_lock_eq)

lemma rq_enqueue_eq: "rq_enqueue e q = Inr (q\<lparr>rq := klist_append (rq q) e\<rparr>)"
  by (simp add: rq_enqueue_def with_irq_lock_eq klist_enqueue_def)

lemma rq_remove_eq: "rq_remove e q = Inr (q\<lparr>rq := klist_remove (rq q) e\<rparr>)"
  by (simp add: rq_remove_def with_irq_lock_eq)

lemma fifo_pick_eq:
  assumes "klist_ok (rq q)"
  shows "fifo_pick rt q = (case elems (rq q) of [] \<Rightarrow> Inr (None, q) | e # _ \<Rightarrow> Inr (Some e, q))"
  using assms by (auto simp: fifo_pick_def klist_is_empty_iff klist_first_def split: list.splits)

lemma rr_pick_eq:
  assumes "klist_ok (rq q)"
  shows "elems (rq q) = [] \<Longrightarrow> rr_pick rt q = Inr (None, q)"
    and "elems (rq q) = e # es \<Longrightarrow>
      \<exists>q'. rr_pick rt q = Inr (Some e, q') \<and> elems (rq q') = es @ [e] \<and> klist_ok (rq q') \<and> irqs q' = irqs q"
proof -
  show "elems (rq q) = [] \<Longrightarrow> rr_pick rt q = Inr (None, q)"
    using assms by (simp add: rr_pick_def klist_is_empty_iff)
  assume e: "elems (rq q) = e # es"
  from kq.rotate [OF assms e] obtain l where
    l: "klist_dequeue (rq q) = Inr (e, l)" "klist_ok (klist_append l e)" "elems (klist_append l e) = es @ [e]"
    unfolding klist_enqueue_def by blast
  have "rr_pick rt q = Inr (Some e, q\<lparr>rq := klist_append l e\<rparr>)"
    using e l(1) assms by (simp add: rr_pick_def klist_is_empty_iff with_irq_lock_eq)
  with l(2,3) show "\<exists>q'. rr_pick rt q = Inr (Some e, q') \<and> elems (rq q') = es @ [e] \<and> klist_ok (rq q') \<and>
      irqs q' = irqs q" by auto
qed

lemma cfs_min_Some:
  "\<exists>e. cfs_min rt es (Some b) (rt b) = Some e \<and> e \<in> insert b (set es) \<and> (\<forall>x \<in> insert b (set es). rt e \<le> rt x)"
proof (induction es arbitrary: b)
  case (Cons a es)
  show ?case
  proof (cases "rt a < rt b")
    case True
    with Cons.IH [of a] show ?thesis by (fastforce simp: dur_less_def)
  next
    case False
    with Cons.IH [of b] show ?thesis by (fastforce simp: dur_less_def not_less)
  qed
qed simp

lemma cfs_pick_min:
  assumes ok: "klist_ok (rq q)"
  shows "elems (rq q) = [] \<Longrightarrow> cfs_pick rt q = Inr (None, q)"
    and "elems (rq q) \<noteq> [] \<Longrightarrow>
      \<exists>e. cfs_pick rt q = Inr (Some e, q) \<and> e \<in> set (elems (rq q)) \<and> (\<forall>x \<in> set (elems (rq q)). rt e \<le> rt x)"
proof -
  have c: "klist_count (rq q) = of_nat (length (elems (rq q)))" and len: "length (elems (rq q)) < 2 ^ 32"
    using ok by (simp_all add: klist_ok_def klist_wf_def klist_count_def)
  show "elems (rq q) = [] \<Longrightarrow> cfs_pick rt q = Inr (None, q)" by (simp add: cfs_pick_def c)
  assume "elems (rq q) \<noteq> []"
  then obtain a es where e: "elems (rq q) = a # es" by (cases "elems (rq q)") auto
  have n0: "klist_count (rq q) \<noteq> 0"
    using klist_is_empty_iff [OF ok] e by (simp add: klist_is_empty_def klist_count_def)
  show "\<exists>e. cfs_pick rt q = Inr (Some e, q) \<and> e \<in> set (elems (rq q)) \<and> (\<forall>x \<in> set (elems (rq q)). rt e \<le> rt x)"
  proof (cases "klist_count (rq q) = 1")
    case True
    then have "unat (klist_count (rq q)) = 1" by simp
    then have "length (elems (rq q)) = 1" using klist_count_eq [OF ok] by simp
    then have "es = []" using e by simp
    with True e n0 show ?thesis by (simp add: cfs_pick_def klist_first_def)
  next
    case False
    with n0 e have "cfs_pick rt q = Inr (cfs_min rt es (Some a) (rt a), q)" by (simp add: cfs_pick_def)
    with cfs_min_Some [of rt es a] e show ?thesis by auto
  qed
qed

lemma klist_append_room: "klist_ok l \<Longrightarrow> klist_room l \<Longrightarrow> klist_ok (klist_append l x)"
  by (simp add: klist_ok_append klist_room_def)

lemmas algo_laws = rq_append_eq rq_enqueue_eq rq_remove_eq klist_append_room klist_ok_remove

interpretation fifo: scheduling_algorithm fifo_algo
  by unfold_locales (auto simp: algo_laws fifo_pick_eq split: list.splits)

interpretation rr: scheduling_algorithm rr_algo
proof (unfold_locales, goal_cases)
  case (3 q rt)
  show ?case
  proof (cases "elems (rq q)")
    case Nil
    with 3 rr_pick_eq(1) show ?thesis by auto
  next
    case (Cons e es)
    from rr_pick_eq(2) [OF 3 Cons] obtain q' where
      "rr_pick rt q = Inr (Some e, q')" "elems (rq q') = es @ [e]" "klist_ok (rq q')" "irqs q' = irqs q" by blast
    with Cons show ?thesis by auto
  qed
qed (auto simp: algo_laws)

interpretation cfs: scheduling_algorithm cfs_algo
proof (unfold_locales, goal_cases)
  case (3 q rt)
  show ?case
  proof (cases "elems (rq q) = []")
    case True
    with 3 cfs_pick_min(1) show ?thesis by auto
  next
    case False
    from cfs_pick_min(2) [OF 3 False] obtain e where "cfs_pick rt q = Inr (Some e, q)" "e \<in> set (elems (rq q))"
      by blast
    with 3 show ?thesis by auto
  qed
qed (auto simp: algo_laws)

section \<open>The scheduler as a transition system\<close>

text \<open>
  What threads and interrupts do to the scheduler: threads are woken, put to sleep, stopped, wait for a
  state change of any thread, also of one that waits for them, time passes and is accounted for, and the
  timer or a yield reschedules. An operation that fails ends the run.
\<close>

inductive sched_step :: "nat set \<Rightarrow> sched \<Rightarrow> sched \<Rightarrow> bool" for E where
  wake: "e \<in> E \<Longrightarrow> e \<noteq> idle s \<Longrightarrow> thread_wake_up (card E + 2) s e = Inr s' \<Longrightarrow> sched_step E s s'"
| sleep: "e \<in> E \<Longrightarrow> e \<noteq> idle s \<Longrightarrow> thread_sleep (card E + 2) s e = Inr (y, s') \<Longrightarrow> sched_step E s s'"
| stop: "e \<in> E \<Longrightarrow> e \<noteq> idle s \<Longrightarrow> thread_stop (card E + 2) s e = Inr (y, s') \<Longrightarrow> sched_step E s s'"
| wait: "e \<in> E \<Longrightarrow> t \<in> E \<Longrightarrow> t \<noteq> idle s \<Longrightarrow>
     wait_state_changed (card E + 2) s e t = Inr (y, s') \<Longrightarrow> sched_step E s s'"
| tick: "sched_step E s (update_accounting (s\<lparr>now := now s + d\<rparr>))"
| resched: "schedule s = Inr s' \<Longrightarrow> sched_step E s s'"

inductive sched_reach :: "nat set \<Rightarrow> sched_algo \<Rightarrow> sched \<Rightarrow> bool" for E A where
  start: "finite E \<Longrightarrow> card E < 2 ^ 32 \<Longrightarrow> i \<in> E \<Longrightarrow> (\<And>e. ents s e = entity_new) \<Longrightarrow>
     rq (runq s) = klist_new \<Longrightarrow> sched_init (card E + 2) s (Some A) i = Inr (True, s') \<Longrightarrow>
     sched_reach E A (sched_run s')"
| step: "sched_reach E A s \<Longrightarrow> sched_step E s s' \<Longrightarrow> sched_reach E A s'"

definition sched_good :: "nat set \<Rightarrow> sched_algo \<Rightarrow> sched \<Rightarrow> bool" where
  "sched_good E A s \<longleftrightarrow> sched_inv E A s \<and> active s"

lemma wait_graph_append:
  "wait_graph (upd_ent s e (\<lambda>x. x\<lparr>waiters := klist_append (waiters x) t\<rparr>)) = insert (e, t) (wait_graph s)"
  by (auto simp: wait_graph_def split: if_splits)

text \<open>\<open>t\<close> in the wait queue of \<open>e\<close>.\<close>

definition enlisted :: "sched \<Rightarrow> nat \<Rightarrow> nat \<Rightarrow> sched" where
  "enlisted s e t = upd_ent s e (\<lambda>x. x\<lparr>waiters := klist_append (waiters x) t\<rparr>)"

lemma enlisted_graph: "wait_graph (enlisted s e t) = insert (e, t) (wait_graph s)"
  by (simp add: enlisted_def wait_graph_append)

lemma enlisted_acyclic:
  "acyclic (wait_graph s) \<Longrightarrow> (t, e) \<notin> (wait_graph s)\<^sup>* \<Longrightarrow> acyclic (wait_graph (enlisted s e t))"
  by (simp add: enlisted_graph)

lemma now_upd_inv [simp]: "sched_inv E A (s\<lparr>now := x\<rparr>) = sched_inv E A s"
  "wait_graph (s\<lparr>now := x\<rparr>) = wait_graph s"
  by (simp_all add: sched_inv_def wait_graph_def)

lemma active_update_accounting [simp]:
  "active (update_accounting s) = active s" "idle (update_accounting s) = idle s"
  by (simp_all add: update_accounting_def Let_def split: option.splits)

context scheduling_algorithm
begin

lemma kept_good: "kept E A s s' \<Longrightarrow> active s \<Longrightarrow> sched_good E A s'"
  by (simp add: kept_def sched_good_def same_frame_def)

lemma set_state_good:
  assumes g: "sched_good E A s" and e: "e \<in> E" "e \<noteq> idle s" and st: "st \<noteq> RUNNING"
  shows "uaf_or s (\<lambda>s'. sched_good E A s' \<and> kept E A s s') (set_entity_state (card E + 2) s e st)"
proof -
  have i: "sched_inv E A s" "active s" using g by (simp_all add: sched_good_def)
  from set_state_kept [OF i(1) e st, of "card E + 2"] show ?thesis
    by (rule uaf_or_mono) (use i kept_good in auto)
qed

lemma enlisted_good: "sched_good E A s \<Longrightarrow> t \<in> E \<Longrightarrow> sched_good E A (enlisted s e t)"
  using sched_invD [of E A s] unfolding sched_good_def enlisted_def
  by (intro conjI sched_invI) (auto split: if_splits)

text \<open>A wait, which fails only when it closes a cycle or there was one.\<close>

lemma wait_good:
  assumes g: "sched_good E A s" and e: "t \<in> E" "t \<noteq> idle s"
  shows "uaf_or (enlisted s e t) (\<lambda>(y, s'). sched_good E A s' \<and> same_frame s s' \<and>
      wait_graph s' \<subseteq> insert (e, t) (wait_graph s)) (wait_state_changed (card E + 2) s e t)"
proof -
  have fr: "same_frame s (enlisted s e t)" by (simp add: same_frame_def enlisted_def)
  have "uaf_or (enlisted s e t) (\<lambda>s'. sched_good E A s' \<and> kept E A (enlisted s e t) s')
      (set_entity_state (card E + 2) (enlisted s e t) t SLEEPING)"
    by (rule set_state_good [OF enlisted_good [OF g e(1)] e(1)]) (use e(2) in \<open>simp_all add: enlisted_def\<close>)
  then show ?thesis unfolding wait_state_changed_def thread_sleep_def enlisted_def [symmetric]
    by (rule uaf_or_bind)
      (use same_frame_trans [OF fr] in \<open>auto simp: uaf_or_Inr kept_def enlisted_graph\<close>)
qed

lemma schedule_good:
  assumes "sched_good E A s"
  shows "\<exists>s'. schedule s = Inr s' \<and> sched_good E A s' \<and> idle s' = idle s"
proof -
  have i: "sched_inv E A s" "active s" using assms by (simp_all add: sched_good_def)
  from schedule_ok [OF i] obtain s' c where
    "schedule s = Inr s'" "sched_inv E A s'" "active s'" "idle s' = idle s" by blast
  then show ?thesis by (simp add: sched_good_def)
qed

lemma step_good:
  assumes g: "sched_good E A s" and st: "sched_step E s s'"
  shows "sched_good E A s' \<and> idle s' = idle s"
  using st
proof cases
  case (wake e)
  with set_state_good [OF g wake(1,2), of RUNNABLE] show ?thesis
    by (auto simp: thread_wake_up_def uaf_or_def kept_def same_frame_def)
next
  case (sleep e y)
  with set_state_good [OF g sleep(1,2), of SLEEPING] show ?thesis
    by (auto simp: thread_sleep_def uaf_or_def kept_def same_frame_def)
next
  case (stop e y)
  with set_state_good [OF g stop(1,2), of STOPPED] show ?thesis
    by (auto simp: thread_stop_def uaf_or_def kept_def same_frame_def)
next
  case (wait e t y)
  with wait_good [OF g wait(2,3), of e] show ?thesis by (auto simp: uaf_or_def same_frame_def)
next
  case (tick d)
  with g show ?thesis by (simp add: sched_good_def update_accounting_inv)
next
  case resched
  with schedule_good [OF g] show ?thesis by auto
qed

lemma init_good:
  assumes E: "finite E" "card E < 2 ^ 32" "i \<in> E" and new: "\<And>e. ents s e = entity_new" "rq (runq s) = klist_new"
  shows "\<exists>s'. sched_init (card E + 2) s (Some A) i = Inr (True, s') \<and> sched_good E A (sched_run s')"
proof -
  let ?s2 = "s\<lparr>idle := i, algo := Some A\<rparr>"
  have ok: "klist_ok (rq (runq ?s2))" "klist_room (rq (runq ?s2))"
    using new by (simp_all add: klist_room_def)
  from add_law [OF ok, of i] obtain q where
    q: "sa_add A i (runq s) = Inr q" "elems (rq q) = [i]" "klist_ok (rq q)" using new(2) by auto
  from remove_law [OF q(3), of i] q(2) obtain q' where
    q': "sa_remove A i q = Inr q'" "elems (rq q') = []" "klist_ok (rq q')" by auto
  define s3 where "s3 = upd_ent (upd_ent (?s2\<lparr>runq := q\<rparr>) i (\<lambda>x. x\<lparr>est := RUNNABLE\<rparr>)) i
     (\<lambda>x. x\<lparr>waiters := klist_clear (waiters x)\<rparr>)"
  have st: "set_entity_state (card E + 2) ?s2 i RUNNABLE = Inr s3"
    using q(1) new(1) by (simp add: numeral_2_eq_2 move_in_queue_def Let_def entity_new_def s3_def klist_new_def)
  have r: "est (ents s3 i) = RUNNABLE" "runq s3 = q" by (simp_all add: s3_def)
  define s5 where "s5 = s3\<lparr>cur_thread := Some i, runq := q'\<rparr>"
  have "sched_init (card E + 2) s (Some A) i = Inr (True, s5)"
    using st r q'(1) by (simp add: sched_init_def thread_start_def thread_activate_def Let_def s5_def)
  moreover have "sched_inv E A (sched_run s5)"
    using E q' new(1)
    by (auto simp: sched_inv_def sched_run_def s5_def s3_def entity_new_def klist_new_def upd_ent_def)
  ultimately show ?thesis by (simp add: sched_good_def sched_run_def)
qed

lemma reach_good: "sched_reach E A s \<Longrightarrow> sched_good E A s"
proof (induction rule: sched_reach.induct)
  case (start i s s')
  with init_good [OF start(1-5)] show ?case by auto
next
  case (step s s')
  then show ?case using step_good by blast
qed

end

end
