(* ===== verification/Sched_Spec.thy ===== *)
theory Sched_Spec imports Sched_Algos begin

text \<open>
  The properties of the scheduler with its three algorithms and of the kernel clock: the run queue
  invariant and progress in every reachable state, what a sleeping thread and its waiters can rely
  on, the service orders of round robin and first-in first-out, and the fairness bound of the
  completely fair algorithm.
\<close>

section \<open>Running the scheduler several times\<close>

fun sched_times :: "nat \<Rightarrow> sched \<Rightarrow> (nat list \<times> sched) res" where
  "sched_times 0 s = Inr ([], s)"
| "sched_times (Suc n) s =
     res_bind (schedule s) (\<lambda>s1.
     res_bind (sched_times n s1) (\<lambda>(cs, s2). Inr (the (curr s1) # cs, s2)))"

definition queue :: "sched \<Rightarrow> nat list" where
  "queue s = elems (rq (runq s))"

lemma rr_schedule:
  assumes i: "sched_inv E rr_algo s" "active s" and q: "queue s = e # es"
  shows "\<exists>s'. schedule s = Inr s' \<and> sched_inv E rr_algo s' \<and> active s' \<and> curr s' = Some e \<and>
    queue s' = es @ [e]"
proof -
  from rr.schedule_ok [OF i] obtain s' c where
    s': "schedule s = Inr s'" "sched_inv E rr_algo s'" "curr s' = Some c" "active s'"
      "\<exists>r. rr_pick (\<lambda>e. cpu_runtime (ents s e)) (runq s) = Inr (r, runq s') \<and>
           c = (case r of None \<Rightarrow> idle s | Some e \<Rightarrow> e)" by auto
  from rr_pick_eq(2) [OF sched_invD(4) [OF i(1)] q [unfolded queue_def], of "\<lambda>e. cpu_runtime (ents s e)"] s'(5)
  have "c = e" "elems (rq (runq s')) = es @ [e]" by auto
  with s' show ?thesis by (simp add: queue_def)
qed

lemma rr_times:
  "sched_inv E rr_algo s \<Longrightarrow> active s \<Longrightarrow> queue s = xs @ ys \<Longrightarrow>
     \<exists>s'. sched_times (length xs) s = Inr (xs, s') \<and> sched_inv E rr_algo s' \<and> queue s' = ys @ xs"
proof (induction xs arbitrary: s ys)
  case (Cons x xs)
  from rr_schedule [OF Cons.prems(1,2)] Cons.prems(3) obtain s1 where
    s1: "schedule s = Inr s1" "sched_inv E rr_algo s1" "active s1" "curr s1 = Some x"
      "queue s1 = xs @ (ys @ [x])" by auto
  from Cons.IH [OF s1(2,3,5)] s1 show ?case by auto
qed simp

lemma fifo_schedule:
  assumes i: "sched_inv E fifo_algo s" "active s" and q: "queue s = e # es"
  shows "\<exists>s'. schedule s = Inr s' \<and> sched_inv E fifo_algo s' \<and> active s' \<and> curr s' = Some e \<and>
    queue s' = queue s"
proof -
  from fifo.schedule_ok [OF i] obtain s' c where
    s': "schedule s = Inr s'" "sched_inv E fifo_algo s'" "curr s' = Some c" "active s'"
      "\<exists>r. fifo_pick (\<lambda>e. cpu_runtime (ents s e)) (runq s) = Inr (r, runq s') \<and>
           c = (case r of None \<Rightarrow> idle s | Some e \<Rightarrow> e)" by auto
  have "fifo_pick (\<lambda>e. cpu_runtime (ents s e)) (runq s) = Inr (Some e, runq s)"
    using fifo_pick_eq [OF sched_invD(4) [OF i(1)]] q by (simp add: queue_def)
  with s' show ?thesis by (auto simp: queue_def)
qed

lemma fifo_times:
  "sched_inv E fifo_algo s \<Longrightarrow> active s \<Longrightarrow> queue s = e # es \<Longrightarrow>
     \<exists>s'. sched_times n s = Inr (replicate n e, s') \<and> queue s' = queue s"
proof (induction n arbitrary: s)
  case (Suc n)
  from fifo_schedule [OF Suc.prems] obtain s1 where
    s1: "schedule s = Inr s1" "sched_inv E fifo_algo s1" "active s1" "curr s1 = Some e" "queue s1 = queue s" by blast
  from Suc.IH [OF s1(2,3)] s1 Suc.prems(3) show ?case by auto
qed simp

text \<open>One quantum: schedule, let time pass, account for it.\<close>

definition quantum :: "sched \<Rightarrow> u64 \<Rightarrow> sched res" where
  "quantum s d = res_bind (schedule s) (\<lambda>s1. Inr (update_accounting (s1\<lparr>now := now s1 + d\<rparr>)))"

definition spread :: "nat \<Rightarrow> sched \<Rightarrow> bool" where
  "spread D s \<longleftrightarrow> (\<forall>x \<in> set (queue s). \<forall>y \<in> set (queue s).
     unat (cpu_runtime (ents s x)) \<le> unat (cpu_runtime (ents s y)) + D)"

lemma cfs_quantum:
  assumes i: "sched_inv E cfs_algo s" "active s" and ne: "queue s \<noteq> []"
  shows "\<exists>s' c. quantum s d = Inr s' \<and> sched_inv E cfs_algo s' \<and> active s' \<and> queue s' = queue s \<and>
    curr s' = Some c \<and> c \<in> set (queue s) \<and>
    (\<forall>x \<in> set (queue s). cpu_runtime (ents s c) \<le> cpu_runtime (ents s x)) \<and>
    (\<forall>x. cpu_runtime (ents s' x) = cpu_runtime (ents s x) + (if x = c then d else 0))"
proof -
  let ?rt = "\<lambda>e. cpu_runtime (ents s e)"
  from cfs.schedule_ok [OF i] obtain s1 c where
    s1: "schedule s = Inr s1" "sched_inv E cfs_algo s1" "curr s1 = Some c" "active s1"
      "exec_start (ents s1 c) = now s" "now s1 = now s" "\<forall>x. cpu_runtime (ents s1 x) = ?rt x"
      "\<exists>r. cfs_pick ?rt (runq s) = Inr (r, runq s1) \<and> c = (case r of None \<Rightarrow> idle s | Some e \<Rightarrow> e)" by auto
  from cfs_pick_min(2) [OF sched_invD(4) [OF i(1)] ne [unfolded queue_def], of ?rt] obtain e where
    e: "cfs_pick ?rt (runq s) = Inr (Some e, runq s)" "e \<in> set (queue s)"
      "\<forall>x \<in> set (queue s). ?rt e \<le> ?rt x" unfolding queue_def by blast
  then have c: "c = e" "runq s1 = runq s" using s1(8) by auto
  define s' where "s' = update_accounting (s1\<lparr>now := now s1 + d\<rparr>)"
  have rt: "cpu_runtime (ents s' x) = ?rt x + (if x = c then d else 0)" for x
    using s1(3,5,6,7)
    by (simp add: s'_def update_accounting_def Let_def increment_cpu_runtime_def update_exec_start_time_def dur_add_def)
  have "curr s' = Some c" "queue s' = queue s"
    using s1(3) c by (simp_all add: s'_def update_accounting_def Let_def queue_def)
  moreover have "quantum s d = Inr s'" using s1(1) by (simp add: quantum_def s'_def)
  moreover have "sched_inv E cfs_algo s'" "active s'"
    using s1(2,4) by (simp_all add: s'_def update_accounting_inv)
  ultimately show ?thesis using e c rt by (intro exI [of _ s'] exI [of _ c]) simp
qed

section \<open>A small machine\<close>

text \<open>Two threads, 1 and 2, and the idle thread 0, with the given algorithm.\<close>

definition fresh :: sched where
  "fresh = \<lparr>active = False, algo = None, curr = None, idle = 0, runq = \<lparr>rq = klist_new, irqs = True\<rparr>,
     ents = (\<lambda>_. entity_new), cur_thread = None, now = 0\<rparr>"

definition two_threads :: "sched_algo \<Rightarrow> sched" where
  "two_threads A = fresh\<lparr>active := True, algo := Some A,
     runq := \<lparr>rq = \<lparr>elems = [1, 2], cnt = 2\<rparr>, irqs = True\<rparr>,
     ents := (\<lambda>e. if e \<le> 2 then entity_new\<lparr>est := RUNNABLE\<rparr> else entity_new)\<rparr>"

lemma two_threads_inv: "sched_inv {0, 1, 2} A (two_threads A)"
  by (auto simp: sched_inv_def two_threads_def fresh_def entity_new_def klist_ok_def klist_wf_def klist_new_def)

lemma two_threads_facts [simp]:
  "active (two_threads A)" "queue (two_threads A) = [1, 2]" "wait_graph (two_threads A) = {}"
  "now (two_threads A) = 0" "idle (two_threads A) = 0" "cpu_runtime (ents (two_threads A) x) = 0"
  by (auto simp: two_threads_def fresh_def queue_def wait_graph_def entity_new_def klist_new_def split: if_splits)

section \<open>Properties\<close>

lemma algorithms: "A \<in> {fifo_algo, rr_algo, cfs_algo} \<Longrightarrow> scheduling_algorithm A"
  using fifo.scheduling_algorithm_axioms rr.scheduling_algorithm_axioms cfs.scheduling_algorithm_axioms by auto

text \<open>C11: with each of the three algorithms, in every state the scheduler reaches after initialisation,
  whatever threads wait for each other, the run queue holds, each once, exactly the runnable threads other
  than the idle one, and rescheduling returns. Waking, putting to sleep or stopping a thread, and making one
  wait for another, never fail an assertion, abort, or run forever: they return, or a nested trigger clears
  the wait queue that an outer one is walking. The latter needs threads that wait for each other in a
  cycle: as long as there is none every operation returns, and a wait for a thread that does not itself
  wait for the caller creates none.\<close>

theorem sched_reach_safe:
  assumes "A \<in> {fifo_algo, rr_algo, cfs_algo}" and "sched_reach E A s"
  shows "distinct (queue s) \<and> set (queue s) = {e \<in> E. est (ents s e) = RUNNABLE \<and> e \<noteq> idle s} \<and>
    (\<exists>s'. schedule s = Inr s') \<and>
    (\<forall>e \<in> E. e \<noteq> idle s \<longrightarrow> (\<forall>st \<in> {RUNNABLE, SLEEPING, STOPPED}.
       let r = set_entity_state (card E + 2) s e st in
       (r = Inl Use_After_Free \<or> (\<exists>s'. r = Inr s')) \<and> (acyclic (wait_graph s) \<longrightarrow> (\<exists>s'. r = Inr s' \<and> acyclic (wait_graph s'))))) \<and>
    (\<forall>e \<in> E. \<forall>t \<in> E. t \<noteq> idle s \<longrightarrow> (let r = wait_state_changed (card E + 2) s e t in
       (r = Inl Use_After_Free \<or> (\<exists>y s'. r = Inr (y, s'))) \<and>
       (acyclic (wait_graph s) \<and> (t, e) \<notin> (wait_graph s)\<^sup>* \<longrightarrow> (\<exists>y s'. r = Inr (y, s') \<and> acyclic (wait_graph s')))))"
proof -
  note alg = algorithms [OF assms(1)]
  have g: "sched_good E A s" by (rule scheduling_algorithm.reach_good [OF alg assms(2)])
  then have i: "sched_inv E A s" by (simp add: sched_good_def)
  show ?thesis
  proof (intro conjI ballI impI)
    show "distinct (queue s)" "set (queue s) = {e \<in> E. est (ents s e) = RUNNABLE \<and> e \<noteq> idle s}"
      using i by (simp_all add: sched_inv_def queue_def)
    show "\<exists>s'. schedule s = Inr s'" using scheduling_algorithm.schedule_good [OF alg g] by blast
  next
    fix e st assume e: "e \<in> E" "e \<noteq> idle s" and "st \<in> {RUNNABLE, SLEEPING, STOPPED}"
    then have st: "st \<noteq> RUNNING" by auto
    show "let r = set_entity_state (card E + 2) s e st in (r = Inl Use_After_Free \<or> (\<exists>s'. r = Inr s')) \<and>
        (acyclic (wait_graph s) \<longrightarrow> (\<exists>s'. r = Inr s' \<and> acyclic (wait_graph s')))"
      using scheduling_algorithm.set_state_good [OF alg g e st] acyclic_subset
      unfolding Let_def uaf_or_def kept_def by blast
  next
    fix e t assume t: "t \<in> E" "t \<noteq> idle s"
    note w = scheduling_algorithm.wait_good [OF alg g t, of e]
    have "\<exists>y s'. wait_state_changed (card E + 2) s e t = Inr (y, s') \<and> acyclic (wait_graph s')"
      if "acyclic (wait_graph s)" "(t, e) \<notin> (wait_graph s)\<^sup>*"
    proof -
      have ac: "acyclic (wait_graph (enlisted s e t))" by (rule enlisted_acyclic [OF that])
      from uaf_or_acyclic [OF w ac] obtain y s' where
        "wait_state_changed (card E + 2) s e t = Inr (y, s')" "wait_graph s' \<subseteq> wait_graph (enlisted s e t)"
        by (auto simp: enlisted_graph)
      then show ?thesis using acyclic_subset [OF ac] by blast
    qed
    then show "let r = wait_state_changed (card E + 2) s e t in (r = Inl Use_After_Free \<or> (\<exists>y s'. r = Inr (y, s'))) \<and>
        (acyclic (wait_graph s) \<and> (t, e) \<notin> (wait_graph s)\<^sup>* \<longrightarrow> (\<exists>y s'. r = Inr (y, s') \<and> acyclic (wait_graph s')))"
      using w unfolding Let_def uaf_or_def by auto
  qed
qed

theorem sched_reach_safe_witness:
  "\<exists>s s'. sched_reach {0, 1} rr_algo s \<and> schedule s = Inr s' \<and> queue s = []"
proof -
  from rr.init_good [of "{0, 1}" 0 fresh] obtain s where
    s: "sched_init (card {0::nat, 1} + 2) fresh (Some rr_algo) 0 = Inr (True, s)"
      "sched_good {0, 1} rr_algo (sched_run s)" by (auto simp: fresh_def)
  have r: "sched_reach {0, 1} rr_algo (sched_run s)"
    using s(1) by (intro sched_reach.start [of "{0, 1}" 0 fresh]) (auto simp: fresh_def)
  have "queue (sched_run s) = []"
    using s(1)
    by (simp add: sched_init_def thread_start_def numeral_2_eq_2 move_in_queue_def fresh_def entity_new_def
        rq_append_eq rq_remove_eq thread_activate_def sched_run_def queue_def klist_new_def Let_def)
      (auto simp: queue_def)
  with sched_reach_safe [of rr_algo, OF _ r] r show ?thesis by auto
qed

text \<open>
  Two threads that wait for each other: the second one to wait triggers its own event when it goes to
  sleep, the wake-up of the first one triggers the event of the first, and the second, woken in turn,
  triggers its own event again, which clears the queue whose walk is not over.
\<close>

definition waiting_for_first :: "sched res" where
  "waiting_for_first =
     res_bind (sched_init 5 fresh (Some rr_algo) 0) (\<lambda>(ok, s0).
     res_bind (thread_wake_up 5 (sched_run s0) 1) (\<lambda>s1.
     res_bind (thread_wake_up 5 s1 2) (\<lambda>s2.
     res_bind (wait_state_changed 5 s2 1 2) (\<lambda>(y, s3). Inr s3))))"

lemma wait_cycle_use_after_free:
  "\<exists>s. sched_reach {0, 1, 2} rr_algo s \<and> wait_state_changed 5 s 2 1 = Inl Use_After_Free"
proof -
  let ?E = "{0, 1, 2} :: nat set"
  have c: "card ?E + 2 = 5" by simp
  have "case waiting_for_first of Inr s \<Rightarrow>
      (case wait_state_changed 5 s 2 1 of Inl Use_After_Free \<Rightarrow> True | _ \<Rightarrow> False) | _ \<Rightarrow> False" by code_simp
  then obtain s where s: "waiting_for_first = Inr s" "wait_state_changed 5 s 2 1 = Inl Use_After_Free"
    by (auto split: sum.splits kerror.splits)
  then obtain ok s0 s1 s2 y where
    r: "sched_init (card ?E + 2) fresh (Some rr_algo) 0 = Inr (ok, s0)"
      "set_entity_state (card ?E + 2) (sched_run s0) 1 RUNNABLE = Inr s1"
      "set_entity_state (card ?E + 2) s1 2 RUNNABLE = Inr s2" "wait_state_changed (card ?E + 2) s2 1 2 = Inr (y, s)"
    unfolding c by (auto simp: waiting_for_first_def thread_wake_up_def res_bind_Inr_iff)
  have "case sched_init 5 fresh (Some rr_algo) 0 of Inr (b, s) \<Rightarrow> b \<and> idle s = 0 | _ \<Rightarrow> False" by code_simp
  with r(1) have ok: "ok" "idle (sched_run s0) = 0" unfolding c by (simp_all add: sched_run_def)
  have r0: "sched_reach ?E rr_algo (sched_run s0)"
    using r(1) ok by (intro sched_reach.start [of ?E 0 fresh]) (auto simp: fresh_def)
  have st1: "sched_step ?E (sched_run s0) s1"
    by (rule sched_step.wake [of 1]) (use r(2) ok(2) in \<open>simp_all add: thread_wake_up_def\<close>)
  have r1: "sched_reach ?E rr_algo s1" by (rule sched_reach.step [OF r0 st1])
  have i1: "idle s1 = 0" using rr.step_good [OF rr.reach_good [OF r0] st1] ok(2) by simp
  have st2: "sched_step ?E s1 s2"
    by (rule sched_step.wake [of 2]) (use r(3) i1 in \<open>simp_all add: thread_wake_up_def\<close>)
  have r2: "sched_reach ?E rr_algo s2" by (rule sched_reach.step [OF r1 st2])
  have i2: "idle s2 = 0" using rr.step_good [OF rr.reach_good [OF r1] st2] i1 by simp
  have "sched_reach ?E rr_algo s"
    by (rule sched_reach.step [OF r2 sched_step.wait [OF _ _ _ r(4)]]) (use i2 in simp_all)
  with s(2) show ?thesis by blast
qed

text \<open>C12: putting to sleep or stopping a thread other than the idle one, whatever threads wait for each
  other: when the call returns, the thread is in its new state, it is not the one that runs after the next
  scheduling decision, every thread that waited for it is runnable, and its wait queue is empty. The call
  returns unless threads wait for each other in a cycle; then it may instead go on walking a wait queue
  that a nested trigger has cleared.\<close>

theorem sched_state_change:
  assumes "A \<in> {fifo_algo, rr_algo, cfs_algo}" and "sched_inv E A s" and "active s"
    and "e \<in> E" and "e \<noteq> idle s" and "st \<in> {STOPPED, SLEEPING}" and "est (ents s e) \<noteq> st"
  shows "(\<exists>s1 s2 c. set_entity_state (card E + 2) s e st = Inr s1 \<and> est (ents s1 e) = st \<and>
      (\<forall>w. (e, w) \<in> wait_graph s \<longrightarrow> est (ents s1 w) = RUNNABLE) \<and> elems (waiters (ents s1 e)) = [] \<and>
      schedule s1 = Inr s2 \<and> curr s2 = Some c \<and> c \<noteq> e) \<or>
    (set_entity_state (card E + 2) s e st = Inl Use_After_Free \<and> \<not> acyclic (wait_graph s))"
proof -
  note alg = algorithms [OF assms(1)]
  have "st \<noteq> RUNNING" using assms(6) by auto
  from scheduling_algorithm.set_state_ok [OF alg assms(2,4,5) this, of "card E + 2"] assms(7)
  consider "set_entity_state (card E + 2) s e st = Inl Use_After_Free" "\<not> acyclic (wait_graph s)"
    | s1 where "set_entity_state (card E + 2) s e st = Inr s1" "scheduling_algorithm.changed A E s e st s1"
    by (auto simp: uaf_or_def)
  then show ?thesis
  proof cases
    case (2 s1)
    note ch = 2(2) [unfolded scheduling_algorithm.changed_def [OF alg] kept_def]
    have "active s1" using ch assms(3) by (simp add: same_frame_def)
    then obtain s2 c where
      s2: "schedule s1 = Inr s2" "curr s2 = Some c" "est (ents s2 c) = RUNNABLE" "\<forall>x. est (ents s2 x) = est (ents s1 x)"
      using scheduling_algorithm.schedule_ok [OF alg, of E s1] ch by blast
    then have "c \<noteq> e" using ch assms(6) by auto
    with 2(1) ch s2 show ?thesis by blast
  qed blast
qed

theorem sched_state_change_witness:
  "\<exists>s1 s2 c. set_entity_state 5 (two_threads fifo_algo) 1 SLEEPING = Inr s1 \<and> schedule s1 = Inr s2 \<and>
     curr s2 = Some c \<and> c \<noteq> 1"
proof -
  have "est (ents (two_threads fifo_algo) 1) \<noteq> SLEEPING" by (simp add: two_threads_def fresh_def)
  then obtain s1 s2 c where
    r: "set_entity_state (card {0 :: nat, 1, 2} + 2) (two_threads fifo_algo) 1 SLEEPING = Inr s1"
      "schedule s1 = Inr s2" "curr s2 = Some c" "c \<noteq> 1"
    using sched_state_change [OF _ two_threads_inv, of fifo_algo 1 SLEEPING]
    by (simp add: acyclic_def del: One_nat_def set_entity_state.simps) blast
  have "card {0 :: nat, 1, 2} + 2 = 5" by simp
  with r show ?thesis by metis
qed

text \<open>C13: round robin serves the run queue in order, each thread once per round, and after the round the
  queue is what it was; so while the set of runnable threads stays the same, a thread waits at most
  for all the others to run once.\<close>

theorem rr_round:
  assumes "sched_inv E rr_algo s" and "active s"
  shows "\<exists>s'. sched_times (length (queue s)) s = Inr (queue s, s') \<and> queue s' = queue s"
  using rr_times [OF assms, of "queue s" "[]"] by auto

theorem rr_round_witness:
  "\<exists>s'. sched_times 2 (two_threads rr_algo) = Inr ([1, 2], s') \<and> queue s' = [1, 2]"
  using rr_round [OF two_threads_inv [of rr_algo]] by (simp add: numeral_2_eq_2)

text \<open>first-in first-out keeps running the thread at the head of the run queue, however often it
  schedules, as long as that thread stays runnable.\<close>

theorem fifo_head_runs:
  assumes "sched_inv E fifo_algo s" and "active s" and "queue s = e # es"
  shows "\<exists>s'. sched_times n s = Inr (replicate n e, s') \<and> queue s' = queue s"
  by (rule fifo_times [OF assms])

theorem fifo_head_runs_witness: "\<exists>s'. sched_times 3 (two_threads fifo_algo) = Inr ([1, 1, 1], s')"
  using fifo_head_runs [OF two_threads_inv [of fifo_algo], of 1 "[2]" 3] by (auto simp: numeral_3_eq_3)

text \<open>C14: the completely fair algorithm runs a runnable thread with the least processor time, charges it
  exactly the time it ran, and keeps the processor times of the runnable threads within the longest
  quantum of each other, while the 64-bit counters do not wrap.\<close>

theorem cfs_fair:
  assumes "sched_inv E cfs_algo s" and "active s" and "queue s \<noteq> []" and "spread D s" and "unat d \<le> D"
    and "\<And>x. x \<in> set (queue s) \<Longrightarrow> unat (cpu_runtime (ents s x)) + unat d < 2 ^ 64"
  shows "\<exists>s' c. quantum s d = Inr s' \<and> curr s' = Some c \<and> c \<in> set (queue s) \<and>
    (\<forall>x \<in> set (queue s). cpu_runtime (ents s c) \<le> cpu_runtime (ents s x)) \<and>
    cpu_runtime (ents s' c) = cpu_runtime (ents s c) + d \<and> spread D s' \<and> queue s' = queue s"
proof -
  from cfs_quantum [OF assms(1-3), of d] obtain s' c where
    s': "quantum s d = Inr s'" "queue s' = queue s" "curr s' = Some c" "c \<in> set (queue s)"
      "\<forall>x \<in> set (queue s). cpu_runtime (ents s c) \<le> cpu_runtime (ents s x)"
      "\<forall>x. cpu_runtime (ents s' x) = cpu_runtime (ents s x) + (if x = c then d else 0)" by blast
  have rt: "unat (cpu_runtime (ents s' x)) = unat (cpu_runtime (ents s x)) + (if x = c then unat d else 0)"
    if "x \<in> set (queue s)" for x
    using assms(6) [OF that] s'(6) by (cases "x = c") (auto simp: unat_word_ariths)
  have "spread D s'"
    unfolding spread_def s'(2)
  proof (intro ballI)
    fix x y assume x: "x \<in> set (queue s)" and y: "y \<in> set (queue s)"
    have "unat (cpu_runtime (ents s c)) \<le> unat (cpu_runtime (ents s y))"
      using s'(5) y by (simp add: word_le_nat_alt)
    moreover have "unat (cpu_runtime (ents s x)) \<le> unat (cpu_runtime (ents s y)) + D"
      using assms(4) x y by (simp add: spread_def)
    ultimately show "unat (cpu_runtime (ents s' x)) \<le> unat (cpu_runtime (ents s' y)) + D"
      using rt [OF x] rt [OF y] assms(5) by auto
  qed
  with s' show ?thesis by auto
qed

theorem cfs_fair_witness:
  "\<exists>s' c. quantum (two_threads cfs_algo) 5 = Inr s' \<and> curr s' = Some c \<and> c \<in> {1, 2} \<and> spread 5 s'"
  using cfs_fair [OF two_threads_inv [of cfs_algo], of 5 5] by (auto simp: spread_def)

text \<open>\<open>update_runtime\<close> advances the time of day by the whole seconds that have passed, modulo a day,
  carries the rest over (between 0 and one second, one second included), and keeps the time valid;
  the date never changes, not even at midnight.\<close>

theorem update_runtime_tod:
  assumes "valid_tod (tod c)" and "unat (ticks_since_tod c) + unat ticks < 2 ^ 64"
  shows "\<exists>n. unat (ticks_since_tod c) + unat ticks =
        n * 1000000000 + unat (ticks_since_tod (update_runtime c ticks)) \<and>
      unat (ticks_since_tod (update_runtime c ticks)) \<le> 1000000000 \<and>
      valid_tod (tod (update_runtime c ticks)) \<and>
      second_of_day (tod (update_runtime c ticks)) = (second_of_day (tod c) + n) mod 86400 \<and>
      same_date (tod c) (tod (update_runtime c ticks))"
proof -
  obtain rest t where a: "advance_tod (ticks_since_tod c + ticks) (tod c) = (rest, t)" by fastforce
  have u: "unat (ticks_since_tod c + ticks) = unat (ticks_since_tod c) + unat ticks"
    using assms(2) by (simp add: unat_word_ariths)
  from advance_tod_correct [OF assms(1), of "ticks_since_tod c + ticks" rest t] a u show ?thesis
    by (auto simp: update_runtime_def dur_add_def)
qed

definition one_to_midnight :: kclock where
  "one_to_midnight = \<lparr>runtime = 0, tod = \<lparr>hours = 23, minutes = 59, seconds = 59, day = 31, month = 12, year = 2020\<rparr>,
     ticks_since_tod = 0\<rparr>"

theorem update_runtime_tod_witness:
  "\<exists>n. 2500000000 = n * 1000000000 + unat (ticks_since_tod (update_runtime one_to_midnight 2500000000)) \<and>
     second_of_day (tod (update_runtime one_to_midnight 2500000000)) = (86399 + n) mod 86400 \<and>
     day (tod (update_runtime one_to_midnight 2500000000)) = 31"
proof -
  have "valid_tod (tod one_to_midnight)" "unat (ticks_since_tod one_to_midnight) + unat (2500000000 :: u64) < 2 ^ 64"
    by (simp_all add: one_to_midnight_def valid_tod_def)
  from update_runtime_tod [OF this] show ?thesis
    by (auto simp: one_to_midnight_def second_of_day_def same_date_def)
qed

end
