(* ===== verification/KString.thy ===== *)
theory KString imports Prelude begin

text \<open>
  Strings (infos/include/infos/util/string.h, infos/util/string.cpp and the two routines of
  infos-user/lib/string.cpp).  A C string is the list of the bytes from the pointer to the end of
  its memory, terminator included; a read past the end is an error.  A \<open>String\<close> object is a record
  with the source's fields, its buffer a list of bytes or the null pointer.
\<close>

section \<open>C strings\<close>

fun strlen_loop :: "u8 list \<Rightarrow> u64 \<Rightarrow> u64 res" where
  "strlen_loop [] counter = Inl Out_Of_Bounds"
| "strlen_loop (c # cs) counter = (if c = 0 then Inr counter else strlen_loop cs (counter + 1))"

definition kstrlen :: "u8 list option \<Rightarrow> u64 res" where
  "kstrlen str = (case str of None \<Rightarrow> Inr 0 | Some s \<Rightarrow> strlen_loop s 0)"

fun strncmp_loop :: "u8 list \<Rightarrow> u8 list \<Rightarrow> u64 \<Rightarrow> int res" where
  "strncmp_loop (a # as) (b # bs) n =
     (if a = 0 \<or> b = 0 \<or> n = 0 then Inr 0
      else if a \<noteq> b then Inr (- 1)
      else strncmp_loop as bs (n - 1))"
| "strncmp_loop as bs n = Inl Out_Of_Bounds"

definition kstrncmp :: "u8 list \<Rightarrow> u8 list \<Rightarrow> u64 \<Rightarrow> int res" where
  "kstrncmp str1 str2 n =
     res_bind (kstrlen (Some str1)) (\<lambda>n1. res_bind (kstrlen (Some str2)) (\<lambda>n2.
       if n1 \<noteq> n2 then Inr (- 1) else strncmp_loop str1 str2 n))"

text \<open>
  \<open>strncpy\<close> decrements the count before it tests it and returns the position of the terminator;
  the result holds the destination and this position.
\<close>

function strncpy_loop :: "u8 list \<Rightarrow> nat \<Rightarrow> u8 list \<Rightarrow> u64 \<Rightarrow> (u8 list \<times> nat) res" where
  "strncpy_loop dest d src n =
     (let n = n - 1 in
      if n = 0 then (if d < length dest then Inr (dest[d := 0], d) else Inl Out_Of_Bounds)
      else (case src of
          [] \<Rightarrow> Inl Out_Of_Bounds
        | c # cs \<Rightarrow>
            if d \<ge> length dest then Inl Out_Of_Bounds
            else if c = 0 then Inr (dest[d := 0], d)
            else strncpy_loop (dest[d := c]) (d + 1) cs n))"
  by pat_completeness auto

termination strncpy_loop
  by (relation "measure (\<lambda>(dest, d, src, n). length src)") auto

declare strncpy_loop.simps [simp del]

definition kstrncpy :: "u8 list \<Rightarrow> u8 list \<Rightarrow> u64 \<Rightarrow> (u8 list \<times> nat) res" where
  "kstrncpy dest src n = strncpy_loop dest 0 src n"

text \<open>The two routines of the user library: the comparison stops at the end of the shorter string.\<close>

fun ustrcmp :: "u8 list \<Rightarrow> u8 list \<Rightarrow> int res" where
  "ustrcmp [] rs = Inl Out_Of_Bounds"
| "ustrcmp (l # ls) rs =
     (if l = 0 then Inr 0
      else (case rs of
          [] \<Rightarrow> Inl Out_Of_Bounds
        | r # rs' \<Rightarrow>
            if r = 0 then Inr 0 else if l \<noteq> r then Inr (- 1) else ustrcmp ls rs'))"

fun ustrlen_loop :: "u8 list \<Rightarrow> i32 \<Rightarrow> i32 res" where
  "ustrlen_loop [] count = Inl Out_Of_Bounds"
| "ustrlen_loop (c # cs) count = (if c = 0 then Inr count else ustrlen_loop cs (count + 1))"

definition ustrlen :: "u8 list \<Rightarrow> i32 res" where
  "ustrlen s = ustrlen_loop s 0"

subsection \<open>What the routines compute\<close>

definition cstr :: "u8 list \<Rightarrow> u8 list" where
  "cstr s = takeWhile (\<lambda>c. c \<noteq> 0) s"

definition is_cstr :: "u8 list \<Rightarrow> bool" where
  "is_cstr s \<longleftrightarrow> 0 \<in> set s"

lemma cstr_simps [simp]:
  "cstr [] = []"
  "cstr (c # cs) = (if c = 0 then [] else c # cstr cs)"
  by (simp_all add: cstr_def)

lemma is_cstr_simps [simp]:
  "\<not> is_cstr []"
  "is_cstr (c # cs) \<longleftrightarrow> c = 0 \<or> is_cstr cs"
  by (auto simp: is_cstr_def)

lemma cstr_length_less: "is_cstr s \<Longrightarrow> length (cstr s) < length s"
  by (induction s) (auto split: if_splits)

lemma cstr_nonzero: "0 \<notin> set (cstr s)"
  by (induction s) auto

lemma strlen_loop_eq:
  "strlen_loop s n = (if is_cstr s then Inr (n + of_nat (length (cstr s))) else Inl Out_Of_Bounds)"
  by (induction s arbitrary: n) (auto simp: algebra_simps)

lemma kstrlen_eq:
  "kstrlen (Some s) = (if is_cstr s then Inr (of_nat (length (cstr s))) else Inl Out_Of_Bounds)"
  by (simp add: kstrlen_def strlen_loop_eq)

lemma strncmp_loop_eq:
  assumes "is_cstr s" "is_cstr t" "length (cstr s) = length (cstr t)"
  shows "strncmp_loop s t n =
    Inr (if take (unat n) (cstr s) = take (unat n) (cstr t) then 0 else - 1)"
  using assms
proof (induction s t n rule: strncmp_loop.induct)
  case (1 a as b bs n)
  show ?case
  proof (cases "a = 0 \<or> b = 0 \<or> n = 0")
    case True
    then show ?thesis using 1(4) by (auto split: if_splits)
  next
    case False
    then obtain k where k: "unat n = Suc k" and k': "unat (n - 1) = k"
      by (metis not0_implies_Suc unat_eq_0 unat_minus_one diff_Suc_1)
    show ?thesis
      using False 1 k k' by auto
  qed
qed auto

text \<open>Within one length the comparison is equality of the first n characters.\<close>

lemma kstrncmp_eq:
  assumes "is_cstr s" "is_cstr t" "length s < 2 ^ 64" "length t < 2 ^ 64"
  shows "kstrncmp s t n = Inr (if length (cstr s) = length (cstr t) \<and>
           take (unat n) (cstr s) = take (unat n) (cstr t) then 0 else - 1)"
proof -
  have l: "length (cstr s) < 2 ^ 64" "length (cstr t) < 2 ^ 64"
    using cstr_length_less [OF assms(1)] cstr_length_less [OF assms(2)] assms(3,4) by simp_all
  have "(of_nat (length (cstr s)) :: u64) = of_nat (length (cstr t)) \<longleftrightarrow>
        length (cstr s) = length (cstr t)"
    using l unat_of_nat_u64 by metis
  then show ?thesis
    using assms(1,2) by (simp add: kstrncmp_def kstrlen_eq strncmp_loop_eq)
qed

lemma kstrncmp_0_iff_equal:
  assumes "is_cstr s" "is_cstr t" "length s < 2 ^ 64" "length t < 2 ^ 64"
    and "length (cstr s) \<le> unat n"
  shows "kstrncmp s t n = Inr 0 \<longleftrightarrow> cstr s = cstr t"
  using assms by (auto simp: kstrncmp_eq)

lemma ustrcmp_eq:
  assumes "is_cstr s" "is_cstr t"
  shows "ustrcmp s t = Inr (if take (length (cstr t)) (cstr s) = take (length (cstr s)) (cstr t)
                            then 0 else - 1)"
  using assms by (induction s arbitrary: t) (auto split: list.splits)

text \<open>
  \<open>strncpy\<close> with a positive count copies at most \<open>n - 1\<close> characters and terminates the destination.
\<close>

lemma strncpy_loop_eq:
  assumes "is_cstr src" "0 < n" "d + min (unat n - 1) (length (cstr src)) < length dest"
  shows "strncpy_loop dest d src n =
    (let k = min (unat n - 1) (length (cstr src)) in
     Inr (take d dest @ take k (cstr src) @ [0] @ drop (d + k + 1) dest, d + k))"
  using assms
proof (induction src arbitrary: dest d n)
  case Nil
  then show ?case by simp
next
  case (Cons c cs)
  let ?k = "min (unat n - 1) (length (cstr (c # cs)))"
  have n1: "unat (n - 1) = unat n - 1"
    using Cons.prems(2) by (simp add: unat_minus_one word_neq_0_conv)
  show ?case
  proof (cases "n - 1 = 0 \<or> c = 0")
    case True
    then have k: "?k = 0" using n1 by (auto simp: unat_eq_0)
    then have "d < length dest" using Cons.prems(3) by simp
    then show ?thesis
      using True k by (subst strncpy_loop.simps) (auto simp: Let_def upd_conv_take_nth_drop)
  next
    case False
    let ?dest = "dest[d := c]"
    let ?m = "min (unat (n - 1) - 1) (length (cstr cs))"
    have u: "unat (n - 1) \<noteq> 0" using False by (simp add: unat_eq_0)
    have k: "?k = Suc ?m" using False n1 u by auto
    have d: "d < length dest" using Cons.prems(3) by simp
    have cs: "is_cstr cs" using Cons.prems(1) False by simp
    have n0: "0 < n - 1" using u by (simp add: word_less_nat_alt)
    have len: "d + 1 + ?m < length ?dest" using Cons.prems(3) k by simp
    have ih: "strncpy_loop ?dest (d + 1) cs (n - 1) =
        Inr (take (d + 1) ?dest @ take ?m (cstr cs) @ [0] @ drop (d + 1 + ?m + 1) ?dest, d + 1 + ?m)"
      using Cons.IH [OF cs n0 len] by (simp add: Let_def)
    have step: "strncpy_loop dest d (c # cs) n = strncpy_loop ?dest (d + 1) cs (n - 1)"
      using False d by (subst strncpy_loop.simps) (simp add: Let_def)
    have t1: "take (d + 1) ?dest = take d dest @ [c]"
      using d by (simp add: take_Suc_conv_app_nth)
    have t2: "drop (d + 1 + ?m + 1) ?dest = drop (d + ?k + 1) dest"
      using k by simp
    have t3: "take ?k (cstr (c # cs)) = [c] @ take ?m (cstr cs)"
      unfolding k using False by simp
    have t4: "d + 1 + ?m = d + ?k" using k by simp
    show ?thesis
      unfolding Let_def step ih t1 t2 t3 t4 by simp
  qed
qed

lemma kstrncpy_eq:
  assumes "is_cstr src" "0 < n" "min (unat n - 1) (length (cstr src)) < length dest"
  shows "kstrncpy dest src n =
    (let k = min (unat n - 1) (length (cstr src)) in
     Inr (take k (cstr src) @ [0] @ drop (k + 1) dest, k))"
  using strncpy_loop_eq [of src n 0 dest] assms by (simp add: kstrncpy_def Let_def)

end
