(* ===== verification/KString_Object.thy ===== *)
theory KString_Object imports KString begin

text \<open>
  The class \<open>String\<close> (infos/include/infos/util/string.h, infos/util/string.cpp): constructors,
  concatenation, assignment, comparison, the cached hash, \<open>split\<close> and \<open>ToString\<close>.  The buffer of
  an object is \<open>None\<close> for a null pointer and otherwise its bytes.  A loop that counts in an
  \<open>unsigned int\<close> up to a size of 2^32 or more does not end.
\<close>

record kstring =
  str_size :: u64
  str_data :: "u8 list option"
  has_hash :: bool
  hash_val :: u64

unbundle bit_operations_syntax

section \<open>Copying between buffers\<close>

definition copy_chars :: "u64 \<Rightarrow> u8 list option \<Rightarrow> u64 \<Rightarrow> u8 list \<Rightarrow> u8 list res" where
  "copy_chars off src n dst =
     (if n = 0 then Inr dst
      else if 2 ^ 32 \<le> n then Inl Diverges
      else (case src of
          None \<Rightarrow> Inl Null_Deref
        | Some s \<Rightarrow>
            if unat n \<le> length s \<and> unat off + unat n \<le> length dst
            then Inr (take (unat off) dst @ take (unat n) s @ drop (unat off + unat n) dst)
            else Inl Out_Of_Bounds))"

definition put_char :: "u64 \<Rightarrow> u8 \<Rightarrow> u8 list \<Rightarrow> u8 list res" where
  "put_char i c dst = (if unat i < length dst then Inr (dst[unat i := c]) else Inl Out_Of_Bounds)"

definition new_chars :: "u64 \<Rightarrow> u8 list" where
  "new_chars n = replicate (unat n) 0"

section \<open>Constructors and operators\<close>

definition string_empty :: kstring where
  "string_empty = \<lparr>str_size = 0, str_data = Some [0], has_hash = False, hash_val = 0\<rparr>"

definition string_of_cstr :: "u8 list option \<Rightarrow> kstring res" where
  "string_of_cstr str =
     res_bind (kstrlen str) (\<lambda>size.
     res_bind (copy_chars 0 str size (new_chars (size + 1))) (\<lambda>d.
     res_bind (put_char size 0 d) (\<lambda>d.
       Inr \<lparr>str_size = size, str_data = Some d, has_hash = False, hash_val = 0\<rparr>)))"

definition string_copy :: "kstring \<Rightarrow> kstring res" where
  "string_copy str =
     res_bind (copy_chars 0 (str_data str) (str_size str) (new_chars (str_size str + 1))) (\<lambda>d.
     res_bind (put_char (str_size str) 0 d) (\<lambda>d.
       Inr (str\<lparr>str_data := Some d\<rparr>)))"

text \<open>The move constructor initialises the hash from the flag.\<close>

definition string_move :: "kstring \<Rightarrow> kstring" where
  "string_move str = str\<lparr>hash_val := (if has_hash str then 1 else 0)\<rparr>"

definition string_sized :: "u32 \<Rightarrow> kstring res" where
  "string_sized new_size =
     res_bind (put_char (ucast new_size) 0 (new_chars (ucast (new_size + 1)))) (\<lambda>d.
       Inr \<lparr>str_size = ucast new_size, str_data = Some d, has_hash = False, hash_val = 0\<rparr>)"

text \<open>The sum of the lengths is truncated to the \<open>unsigned int\<close> of the private constructor.\<close>

definition string_concat :: "kstring \<Rightarrow> kstring \<Rightarrow> kstring res" where
  "string_concat l r =
     res_bind (string_sized (ucast (str_size l + str_size r))) (\<lambda>n.
     res_bind (copy_chars 0 (str_data l) (str_size l) (the (str_data n))) (\<lambda>d.
     res_bind (copy_chars (ucast (ucast (str_size l) :: u32)) (str_data r) (str_size r) d) (\<lambda>d.
     res_bind (put_char (str_size n) 0 d) (\<lambda>d.
       Inr (n\<lparr>str_data := Some d\<rparr>)))))"

definition string_add_char :: "kstring \<Rightarrow> u8 \<Rightarrow> kstring res" where
  "string_add_char l r =
     res_bind (string_sized (ucast (str_size l + 1))) (\<lambda>n.
     res_bind (copy_chars 0 (str_data l) (str_size l) (the (str_data n))) (\<lambda>d.
     res_bind (put_char (str_size n - 1) r d) (\<lambda>d.
     res_bind (put_char (str_size n) 0 d) (\<lambda>d.
       Inr (n\<lparr>str_data := Some d\<rparr>)))))"

text \<open>Assignment to another object keeps the old hash value and clears the flag.\<close>

definition string_assign :: "kstring \<Rightarrow> kstring \<Rightarrow> kstring res" where
  "string_assign this s =
     res_bind (copy_chars 0 (str_data s) (str_size s) (new_chars (str_size s + 1))) (\<lambda>d.
     res_bind (put_char (str_size s) 0 d) (\<lambda>d.
       Inr (this\<lparr>str_size := str_size s, str_data := Some d, has_hash := False\<rparr>)))"

text \<open>Move assignment from another object: the new value and what is left of the old one.\<close>

definition string_assign_move :: "kstring \<Rightarrow> kstring \<times> kstring" where
  "string_assign_move s = (s, s\<lparr>str_data := None, str_size := 0\<rparr>)"

definition string_index :: "kstring \<Rightarrow> u32 \<Rightarrow> u8 res" where
  "string_index s idx =
     (if str_size s \<le> ucast idx then Inr 0
      else (case str_data s of
          None \<Rightarrow> Inl Null_Deref
        | Some d \<Rightarrow> if unat idx < length d then Inr (d ! unat idx) else Inl Out_Of_Bounds))"

definition string_eq :: "kstring \<Rightarrow> kstring \<Rightarrow> bool res" where
  "string_eq l r =
     (if str_size l \<noteq> str_size r then Inr False
      else if str_size l = 0 then Inr True
      else (case (str_data l, str_data r) of
          (Some a, Some b) \<Rightarrow>
            if unat (str_size l) \<le> length a \<and> unat (str_size l) \<le> length b
            then (if take (unat (str_size l)) a \<noteq> take (unat (str_size l)) b then Inr False
                  else if 2 ^ 32 \<le> str_size l then Inl Diverges else Inr True)
            else Inl Out_Of_Bounds
        | _ \<Rightarrow> Inl Null_Deref))"

section \<open>The hash\<close>

text \<open>FNV-1a over bytes that are sign-extended, as \<open>char\<close> is signed on this machine.\<close>

definition hash_step :: "u64 \<Rightarrow> u8 \<Rightarrow> u64" where
  "hash_step hash c = (hash XOR scast c) * 1099511628211"

definition compute_hash :: "kstring \<Rightarrow> u64 res" where
  "compute_hash s =
     (if str_size s = 0 then Inr 14695981039346656037
      else if 2 ^ 32 \<le> str_size s then Inl Diverges
      else (case str_data s of
          None \<Rightarrow> Inl Null_Deref
        | Some d \<Rightarrow>
            if unat (str_size s) \<le> length d
            then Inr (foldl hash_step 14695981039346656037 (take (unat (str_size s)) d))
            else Inl Out_Of_Bounds))"

definition get_hash :: "kstring \<Rightarrow> (u64 \<times> kstring) res" where
  "get_hash s =
     (if has_hash s then Inr (hash_val s, s)
      else res_bind (compute_hash s) (\<lambda>h. Inr (h, s\<lparr>hash_val := h, has_hash := True\<rparr>)))"

section \<open>Splitting\<close>

text \<open>
  The loop over the characters from \<open>start\<close>: the source skips an empty part with \<open>continue\<close>, which
  leaves \<open>start\<close> where it is.
\<close>

partial_function (option) split_loop ::
    "u8 \<Rightarrow> bool \<Rightarrow> u8 list \<Rightarrow> kstring \<Rightarrow> kstring list \<Rightarrow> (kstring \<times> kstring list) res option" where
  "split_loop delim remove_empty start current_part r =
     (case start of
        [] \<Rightarrow> Some (Inr (current_part, r))
      | c # rest \<Rightarrow>
          if c = delim then
            (if str_size current_part = 0 \<and> remove_empty
             then split_loop delim remove_empty start current_part r
             else
               (case res_bind (string_copy current_part) (\<lambda>p.
                       res_bind (string_of_cstr (Some [0])) (\<lambda>e.
                         Inr (p, fst (string_assign_move e)))) of
                  Inl e \<Rightarrow> Some (Inl e)
                | Inr (p, cur) \<Rightarrow> split_loop delim remove_empty rest cur (r @ [p])))
          else
            (case string_add_char current_part c of
               Inl e \<Rightarrow> Some (Inl e)
             | Inr n \<Rightarrow> split_loop delim remove_empty rest (fst (string_assign_move n)) r))"

definition string_split :: "kstring \<Rightarrow> u8 \<Rightarrow> bool \<Rightarrow> kstring list res" where
  "string_split s delim remove_empty =
     res_bind (case str_data s of
                 None \<Rightarrow> if str_size s = 0 then Inr [] else Inl Null_Deref
               | Some d \<Rightarrow> if unat (str_size s) \<le> length d then Inr (take (unat (str_size s)) d)
                           else Inl Out_Of_Bounds) (\<lambda>start.
     res_bind (case split_loop delim remove_empty start string_empty [] of
                 None \<Rightarrow> Inl Diverges | Some x \<Rightarrow> x) (\<lambda>(current_part, r).
       if 0 < str_size current_part \<or> \<not> remove_empty
       then res_bind (string_copy current_part) (\<lambda>p. Inr (r @ [p]))
       else Inr r))"

section \<open>Decimal numerals\<close>

function tostring_loop :: "u32 \<Rightarrow> int \<Rightarrow> u8 list \<Rightarrow> (int \<times> u8 list) res" where
  "tostring_loop v i buffer =
     (if 0 < v \<and> 0 \<le> i
      then (if i - 1 < 0 then Inl Out_Of_Bounds
            else tostring_loop (v div 10) (i - 1) (buffer[nat (i - 1) := 48 + ucast (v mod 10)]))
      else Inr (i, buffer))"
  by pat_completeness auto

termination tostring_loop
  by (relation "measure (\<lambda>(v, i, buffer). unat v)") (auto simp: word_less_nat_alt unat_div_distrib)

declare tostring_loop.simps [simp del]

definition to_string :: "u32 \<Rightarrow> kstring res" where
  "to_string v =
     (let buffer = (replicate 17 0)[16 := 0] in
      res_bind (if v = 0 then Inr (15, buffer[15 := 48]) else tostring_loop v 16 buffer)
        (\<lambda>(i, buffer). string_of_cstr (Some (drop (nat i) buffer))))"
section \<open>The invariant of an object and its value\<close>

definition chars :: "kstring \<Rightarrow> u8 list" where
  "chars s = (case str_data s of None \<Rightarrow> [] | Some d \<Rightarrow> take (unat (str_size s)) d)"

definition fnv :: "u8 list \<Rightarrow> u64" where
  "fnv cs = foldl hash_step 14695981039346656037 cs"

definition kstring_wf :: "kstring \<Rightarrow> bool" where
  "kstring_wf s \<longleftrightarrow>
     (case str_data s of
        None \<Rightarrow> str_size s = 0
      | Some d \<Rightarrow> length d = unat (str_size s) + 1 \<and> d ! unat (str_size s) = 0) \<and>
     (has_hash s \<longrightarrow> hash_val s = fnv (chars s))"

text \<open>The sizes for which the loops with \<open>unsigned int\<close> counters and sums are right.\<close>

definition short_string :: "kstring \<Rightarrow> bool" where
  "short_string s \<longleftrightarrow> unat (str_size s) < 2 ^ 32 - 1"

lemma length_chars: "kstring_wf s \<Longrightarrow> length (chars s) = unat (str_size s)"
  by (auto simp: kstring_wf_def chars_def split: option.splits)

lemma chars_hash_fields [simp]:
  "chars (s\<lparr>hash_val := h\<rparr>) = chars s"
  "chars (s\<lparr>has_hash := b\<rparr>) = chars s"
  by (cases "str_data s"; simp add: chars_def)+

lemma short_size: "short_string s \<Longrightarrow> \<not> 2 ^ 32 \<le> str_size s"
  by (simp add: short_string_def word_le_nat_alt)

lemma copy_chars_wf:
  assumes "kstring_wf s" "short_string s" "unat off + unat (str_size s) \<le> length dst"
  shows "copy_chars off (str_data s) (str_size s) dst =
    Inr (take (unat off) dst @ chars s @ drop (unat off + unat (str_size s)) dst)"
  using assms short_size [OF assms(2)]
  by (auto simp: copy_chars_def kstring_wf_def chars_def split: option.splits)

lemma copy_chars_0_wf:
  assumes "kstring_wf s" "short_string s" "unat (str_size s) \<le> length dst"
  shows "copy_chars 0 (str_data s) (str_size s) dst = Inr (chars s @ drop (unat (str_size s)) dst)"
  using copy_chars_wf [of s 0 dst] assms by simp

lemma short_size_add1:
  assumes "unat n < 2 ^ 32 - 1"
  shows "unat (n + 1 :: u64) = unat n + 1"
  using assms by (simp add: unat_word_ariths)

lemma drop_replicate_Suc: "drop n (x # replicate n x) = [x]"
  using drop_replicate [of n "Suc n" x] by simp

text \<open>An object with the characters \<open>cs\<close> and their terminator.\<close>

lemma kstring_wf_built:
  assumes "str_data s = Some (cs @ [0])" "unat (str_size s) = length cs" "\<not> has_hash s"
  shows "kstring_wf s \<and> chars s = cs"
  using assms by (simp add: kstring_wf_def chars_def nth_append)

lemma string_empty_wf: "kstring_wf string_empty \<and> chars string_empty = []"
  by (simp add: string_empty_def kstring_wf_def chars_def)

lemma string_of_cstr_wf:
  assumes "is_cstr s" "length (cstr s) < 2 ^ 32 - 1"
  shows "\<exists>k. string_of_cstr (Some s) = Inr k \<and> kstring_wf k \<and> chars k = cstr s \<and> \<not> has_hash k"
proof -
  let ?n = "of_nat (length (cstr s)) :: u64"
  have n: "unat ?n = length (cstr s)" using assms(2) by (intro unat_of_nat_u64) simp
  have n1: "unat (?n + 1) = length (cstr s) + 1" using short_size_add1 [of ?n] n assms(2) by simp
  have le: "\<not> 2 ^ 32 \<le> ?n" using n assms(2) by (simp add: word_le_nat_alt)
  have l: "length (cstr s) \<le> length s" using cstr_length_less [OF assms(1)] by simp
  have tk: "take (length (cstr s)) s = cstr s"
    by (simp add: cstr_def takeWhile_eq_take [symmetric])
  have c: "copy_chars 0 (Some s) ?n (new_chars (?n + 1)) = Inr (cstr s @ [0])"
    using n n1 le l tk by (auto simp: copy_chars_def new_chars_def unat_eq_0 drop_replicate_Suc)
  have p: "put_char ?n 0 (cstr s @ [0]) = Inr (cstr s @ [0])"
    using n by (simp add: put_char_def list_update_append)
  show ?thesis
    using c p kstring_wf_built [of "\<lparr>str_size = ?n, str_data = Some (cstr s @ [0]), has_hash = False, hash_val = 0\<rparr>" "cstr s"] n
    by (simp add: string_of_cstr_def kstrlen_eq assms(1))
qed

lemma string_copy_wf:
  assumes "kstring_wf s" "short_string s"
  shows "\<exists>k. string_copy s = Inr k \<and> kstring_wf k \<and> chars k = chars s \<and> str_size k = str_size s"
proof -
  let ?n = "str_size s"
  have n1: "unat (?n + 1) = unat ?n + 1" using assms(2) by (simp add: short_string_def short_size_add1)
  have l: "length (chars s) = unat ?n" using assms(1) by (rule length_chars)
  have c: "copy_chars 0 (str_data s) ?n (new_chars (?n + 1)) = Inr (chars s @ [0])"
    using copy_chars_0_wf [OF assms, of "new_chars (?n + 1)"] n1 by (simp add: new_chars_def drop_replicate_Suc)
  have p: "put_char ?n 0 (chars s @ [0]) = Inr (chars s @ [0])"
    using l by (simp add: put_char_def list_update_append)
  have ch: "chars (s\<lparr>str_data := Some (chars s @ [0])\<rparr>) = chars s"
    using l by (simp add: chars_def [of "s\<lparr>str_data := Some (chars s @ [0])\<rparr>"])
  then have "kstring_wf (s\<lparr>str_data := Some (chars s @ [0])\<rparr>)"
    using l assms(1) by (simp add: kstring_wf_def nth_append)
  then show ?thesis using c p ch by (simp add: string_copy_def)
qed

lemma string_sized_eq:
  assumes "unat n < 2 ^ 32 - 1"
  shows "string_sized (ucast (n :: u64)) =
    Inr \<lparr>str_size = n, str_data = Some (replicate (unat n + 1) 0), has_hash = False, hash_val = 0\<rparr>"
proof -
  have u: "unat (ucast n :: u32) = unat n"
    using assms by (intro unat_ucast_u32) simp
  have u1: "unat ((ucast n :: u32) + 1) = unat n + 1"
    using assms u by (simp add: unat_word_ariths)
  have b: "ucast (ucast n :: u32) = n"
    using assms by (intro ucast_u32_id) simp
  have b1: "unat (ucast ((ucast n :: u32) + 1) :: u64) = unat n + 1"
    using u1 by (simp only: unat_ucast_u64)
  show ?thesis
    by (simp add: string_sized_def put_char_def new_chars_def b u1 list_update_same_conv nth_replicate del: replicate_Suc)
qed

lemma string_concat_wf:
  assumes "kstring_wf l" "kstring_wf r" "unat (str_size l) + unat (str_size r) < 2 ^ 32 - 1"
  shows "\<exists>k. string_concat l r = Inr k \<and> kstring_wf k \<and> chars k = chars l @ chars r"
proof -
  let ?l = "str_size l" and ?r = "str_size r"
  let ?n = "?l + ?r"
  have n: "unat ?n = unat ?l + unat ?r" using assms(3) by (simp add: unat_word_ariths)
  have ll: "length (chars l) = unat ?l" and lr: "length (chars r) = unat ?r"
    using assms(1,2) by (simp_all add: length_chars)
  have sl: "short_string l" and sr: "short_string r" using assms(3) by (simp_all add: short_string_def)
  have off: "ucast (ucast ?l :: u32) = ?l"
    using assms(3) by (intro ucast_u32_id) simp
  have c1: "copy_chars 0 (str_data l) ?l (replicate (unat ?n + 1) 0) =
      Inr (chars l @ replicate (unat ?r + 1) 0)"
    using copy_chars_0_wf [OF assms(1) sl, of "replicate (unat ?n + 1) 0"] n
    by (simp only: length_replicate drop_replicate) simp
  have c2: "copy_chars ?l (str_data r) ?r (chars l @ replicate (unat ?r + 1) 0) =
      Inr ((chars l @ chars r) @ [0])"
    using copy_chars_wf [OF assms(2) sr, of ?l "chars l @ replicate (unat ?r + 1) 0"] ll
    by (simp add: drop_replicate_Suc)
  have p: "put_char ?n 0 ((chars l @ chars r) @ [0]) = Inr ((chars l @ chars r) @ [0])"
    using n ll lr by (simp add: put_char_def list_update_append)
  have sz: "string_sized (ucast ?n) =
      Inr \<lparr>str_size = ?n, str_data = Some (replicate (unat ?n + 1) 0), has_hash = False, hash_val = 0\<rparr>"
    using n assms(3) by (intro string_sized_eq) simp
  let ?k = "\<lparr>str_size = ?n, str_data = Some ((chars l @ chars r) @ [0]), has_hash = False, hash_val = 0\<rparr>"
  have "string_concat l r = Inr ?k"
    unfolding string_concat_def sz res_bind_simps kstring.simps option.sel c1 off c2 p by simp
  moreover have "kstring_wf ?k \<and> chars ?k = chars l @ chars r"
    using n ll lr by (intro kstring_wf_built) simp_all
  ultimately show ?thesis by blast
qed

lemma string_add_char_wf:
  assumes "kstring_wf l" "unat (str_size l) + 1 < 2 ^ 32 - 1"
  shows "\<exists>k. string_add_char l c = Inr k \<and> kstring_wf k \<and> chars k = chars l @ [c]"
proof -
  let ?l = "str_size l"
  let ?n = "?l + 1"
  have n: "unat ?n = unat ?l + 1" using assms(2) by (intro short_size_add1) simp
  have ll: "length (chars l) = unat ?l" using assms(1) by (rule length_chars)
  have sl: "short_string l" using assms(2) by (simp add: short_string_def)
  have c1: "copy_chars 0 (str_data l) ?l (replicate (unat ?n + 1) 0) = Inr (chars l @ [0, 0])"
    using copy_chars_0_wf [OF assms(1) sl, of "replicate (unat ?n + 1) 0"] n
    by (simp only: length_replicate drop_replicate) (simp add: numeral_2_eq_2)
  have p1: "put_char (?n - 1) c (chars l @ [0, 0]) = Inr (chars l @ [c, 0])"
    using ll by (simp add: put_char_def list_update_append)
  have p2: "put_char ?n 0 (chars l @ [c, 0]) = Inr ((chars l @ [c]) @ [0])"
    using n ll by (simp add: put_char_def list_update_append)
  have sz: "string_sized (ucast ?n) =
      Inr \<lparr>str_size = ?n, str_data = Some (replicate (unat ?n + 1) 0), has_hash = False, hash_val = 0\<rparr>"
    using n assms(2) by (intro string_sized_eq) simp
  let ?k = "\<lparr>str_size = ?n, str_data = Some ((chars l @ [c]) @ [0]), has_hash = False, hash_val = 0\<rparr>"
  have "string_add_char l c = Inr ?k"
    unfolding string_add_char_def sz res_bind_simps kstring.simps option.sel c1 p1 p2 by simp
  moreover have "kstring_wf ?k \<and> chars ?k = chars l @ [c]"
    using n ll by (intro kstring_wf_built) simp_all
  ultimately show ?thesis by blast
qed

lemma string_assign_wf:
  assumes "kstring_wf s" "short_string s"
  shows "\<exists>k. string_assign this s = Inr k \<and> kstring_wf k \<and> chars k = chars s"
proof -
  let ?n = "str_size s"
  have n1: "unat (?n + 1) = unat ?n + 1" using assms(2) by (simp add: short_string_def short_size_add1)
  have l: "length (chars s) = unat ?n" using assms(1) by (rule length_chars)
  have c: "copy_chars 0 (str_data s) ?n (new_chars (?n + 1)) = Inr (chars s @ [0])"
    using copy_chars_0_wf [OF assms, of "new_chars (?n + 1)"] n1
    by (simp add: new_chars_def drop_replicate_Suc)
  have p: "put_char ?n 0 (chars s @ [0]) = Inr (chars s @ [0])"
    using l by (simp add: put_char_def list_update_append)
  let ?k = "this\<lparr>str_size := ?n, str_data := Some (chars s @ [0]), has_hash := False\<rparr>"
  have "kstring_wf ?k \<and> chars ?k = chars s"
    using l by (intro kstring_wf_built) simp_all
  then show ?thesis using c p by (simp add: string_assign_def)
qed

lemma string_assign_move_wf:
  "kstring_wf s \<Longrightarrow> fst (string_assign_move s) = s \<and> kstring_wf (snd (string_assign_move s) \<lparr>has_hash := False\<rparr>)"
  by (simp add: string_assign_move_def kstring_wf_def)

lemma string_index_wf:
  assumes "kstring_wf s"
  shows "string_index s i = Inr (if unat i < length (chars s) then chars s ! unat i else 0)"
proof -
  have "str_size s \<le> ucast i \<longleftrightarrow> unat (str_size s) \<le> unat i"
    by (simp add: word_le_nat_alt unsigned_ucast_eq take_bit_nat_eq_self
        less_le_trans [OF unsigned_less [of i, where ?'a = nat]])
  then show ?thesis
    using assms
    by (auto simp: string_index_def kstring_wf_def chars_def split: option.splits)
qed

lemma string_eq_wf:
  assumes "kstring_wf l" "kstring_wf r" "short_string l"
  shows "string_eq l r = Inr (chars l = chars r)"
proof (cases "str_size l = str_size r")
  case False
  then have "length (chars l) \<noteq> length (chars r)"
    using assms(1,2) by (simp add: length_chars word_unat_eq_iff)
  then show ?thesis using False by (auto simp: string_eq_def)
next
  case True
  then show ?thesis
    using assms short_size [OF assms(3)] length_chars [OF assms(1)] length_chars [OF assms(2)]
    by (auto simp: string_eq_def kstring_wf_def chars_def split: option.splits)
qed

lemma compute_hash_wf:
  assumes "kstring_wf s" "short_string s"
  shows "compute_hash s = Inr (fnv (chars s))"
  using assms short_size [OF assms(2)]
  by (auto simp: compute_hash_def kstring_wf_def chars_def fnv_def split: option.splits)

end
