(* ===== verification/KString_Spec.thy ===== *)
theory KString_Spec imports KString_Object begin

text \<open>
  What the string operations promise: the value of concatenation, comparison and hash, the parts
  that \<open>split\<close> returns and when it does not return, the numeral of \<open>ToString\<close> and the exact
  results of the C string routines.
\<close>

section \<open>Splitting\<close>

fun parts :: "u8 \<Rightarrow> u8 list \<Rightarrow> u8 list \<Rightarrow> u8 list list" where
  "parts d [] cur = [cur]"
| "parts d (c # cs) cur = (if c = d then cur # parts d cs [] else parts d cs (cur @ [c]))"

fun join_parts :: "u8 \<Rightarrow> u8 list list \<Rightarrow> u8 list" where
  "join_parts d [] = []"
| "join_parts d [p] = p"
| "join_parts d (p # q # ps) = p @ d # join_parts d (q # ps)"

lemma parts_not_Nil [simp]: "parts d cs cur \<noteq> []"
  by (induction d cs cur rule: parts.induct) auto

lemma join_parts_Cons: "ps \<noteq> [] \<Longrightarrow> join_parts d (p # ps) = p @ d # join_parts d ps"
  by (cases ps) auto

lemma join_parts_parts: "join_parts d (parts d cs cur) = cur @ cs"
  by (induction d cs cur rule: parts.induct) (auto simp: join_parts_Cons)

lemma parts_no_delim: "d \<notin> set cur \<Longrightarrow> \<forall>p \<in> set (parts d cs cur). d \<notin> set p"
  by (induction d cs cur rule: parts.induct) auto

lemma split_step_parts:
  assumes "kstring_wf cur" "short_string cur"
  obtains p e where "string_copy cur = Inr p" "string_of_cstr (Some [0]) = Inr e"
    "kstring_wf p" "chars p = chars cur" "kstring_wf e" "chars e = []" "str_size e = 0"
proof -
  obtain p where p: "string_copy cur = Inr p" "kstring_wf p" "chars p = chars cur"
    using string_copy_wf [OF assms] by blast
  obtain e where e: "string_of_cstr (Some [0]) = Inr e" "kstring_wf e" "chars e = []"
    using string_of_cstr_wf [of "[0]"] by auto
  have "str_size e = 0" using length_chars [OF e(2)] e(3) by (simp add: unat_eq_0)
  then show thesis using that p e by blast
qed

lemma split_loop_returns:
  assumes "kstring_wf cur" "length (chars cur) + length start + 1 < 2 ^ 32 - 1"
    and "\<not> (remove_empty \<and> [] \<in> set (butlast (parts delim start (chars cur))))"
  shows "\<exists>cur' r'. split_loop delim remove_empty start cur r = Some (Inr (cur', r')) \<and>
    kstring_wf cur' \<and> short_string cur' \<and>
    map chars r' @ [chars cur'] = map chars r @ parts delim start (chars cur)"
  using assms
proof (induction start arbitrary: cur r)
  case Nil
  then show ?case
    using length_chars [OF Nil.prems(1)] by (subst split_loop.simps) (simp add: short_string_def)
next
  case (Cons c cs)
  have len: "length (chars cur) = unat (str_size cur)" using Cons.prems(1) by (rule length_chars)
  show ?case
  proof (cases "c = delim")
    case True
    have ne: "\<not> (str_size cur = 0 \<and> remove_empty)"
      using Cons.prems(3) True len by auto
    have sh: "short_string cur" using Cons.prems(2) len by (simp add: short_string_def)
    obtain p e where pe: "string_copy cur = Inr p" "string_of_cstr (Some [0]) = Inr e"
      "kstring_wf p" "chars p = chars cur" "kstring_wf e" "chars e = []" "str_size e = 0"
      using split_step_parts [OF Cons.prems(1) sh] .
    have "\<exists>cur' r'. split_loop delim remove_empty cs e (r @ [p]) = Some (Inr (cur', r')) \<and>
        kstring_wf cur' \<and> short_string cur' \<and>
        map chars r' @ [chars cur'] = map chars (r @ [p]) @ parts delim cs (chars e)"
      using Cons.prems pe True by (intro Cons.IH) auto
    moreover have "split_loop delim remove_empty (c # cs) cur r =
        split_loop delim remove_empty cs e (r @ [p])"
      using True ne pe by (subst split_loop.simps) (auto simp: string_assign_move_def)
    ultimately show ?thesis using True pe by simp
  next
    case False
    obtain n where n: "string_add_char cur c = Inr n" "kstring_wf n" "chars n = chars cur @ [c]"
      using string_add_char_wf [OF Cons.prems(1), of c] Cons.prems(2) len by auto
    have "\<exists>cur' r'. split_loop delim remove_empty cs n r = Some (Inr (cur', r')) \<and>
        kstring_wf cur' \<and> short_string cur' \<and>
        map chars r' @ [chars cur'] = map chars r @ parts delim cs (chars n)"
      using Cons.prems n False by (intro Cons.IH) auto
    then show ?thesis
      using False n by (subst split_loop.simps) (simp add: string_assign_move_def)
  qed
qed

lemma split_loop_Some:
  assumes "split_loop delim remove_empty start cur r = Some res"
  shows "kstring_wf cur \<longrightarrow> length (chars cur) + length start + 1 < 2 ^ 32 - 1 \<longrightarrow>
    \<not> (remove_empty \<and> [] \<in> set (butlast (parts delim start (chars cur))))"
proof (rule split_loop.raw_induct [where P = "\<lambda>delim remove_empty start cur r res.
      kstring_wf cur \<longrightarrow> length (chars cur) + length start + 1 < 2 ^ 32 - 1 \<longrightarrow>
      \<not> (remove_empty \<and> [] \<in> set (butlast (parts delim start (chars cur))))", OF _ assms], goal_cases)
  case (1 f delim remove_empty start cur r res)
  note IH = 1(1) and eq = 1(2)
  show ?case
  proof (intro impI)
    assume wf: "kstring_wf cur" and b: "length (chars cur) + length start + 1 < 2 ^ 32 - 1"
    have len: "length (chars cur) = unat (str_size cur)" using wf by (rule length_chars)
    show "\<not> (remove_empty \<and> [] \<in> set (butlast (parts delim start (chars cur))))"
    proof (cases start)
      case Nil
      then show ?thesis by simp
    next
      case (Cons c cs)
      have sh: "short_string cur" using b len by (simp add: short_string_def)
      obtain p e where pe: "string_copy cur = Inr p" "string_of_cstr (Some [0]) = Inr e"
        "kstring_wf e" "chars e = []"
        using split_step_parts [OF wf sh] by blast
      obtain n where n: "string_add_char cur c = Inr n" "kstring_wf n" "chars n = chars cur @ [c]"
        using string_add_char_wf [OF wf, of c] b len Cons by auto
      consider "c = delim" "str_size cur = 0 \<and> remove_empty"
        | "c = delim" "\<not> (str_size cur = 0 \<and> remove_empty)" | "c \<noteq> delim" by blast
      then show ?thesis
      proof cases
        case 1
        then have "f delim remove_empty start cur r = Some res" using eq Cons by simp
        then show ?thesis using IH wf b by blast
      next
        case 2
        then have "f delim remove_empty cs e (r @ [p]) = Some res"
          using eq Cons pe by (auto simp: string_assign_move_def)
        then have "\<not> (remove_empty \<and> [] \<in> set (butlast (parts delim cs (chars e))))"
          using IH [OF \<open>f delim remove_empty cs e (r @ [p]) = Some res\<close>] pe b Cons by auto
        moreover have "chars cur \<noteq> [] \<or> \<not> remove_empty" using 2 len by (auto simp: unat_eq_0)
        ultimately show ?thesis using 2 Cons pe by auto
      next
        case 3
        then have "f delim remove_empty cs n r = Some res"
          using eq Cons n by (auto simp: string_assign_move_def)
        then have "\<not> (remove_empty \<and> [] \<in> set (butlast (parts delim cs (chars n))))"
          using IH [OF \<open>f delim remove_empty cs n r = Some res\<close>] n b Cons by auto
        then show ?thesis using 3 Cons n by auto
      qed
    qed
  qed
qed

section \<open>Numerals\<close>

definition digit_char :: "nat \<Rightarrow> u8" where
  "digit_char d = 48 + of_nat d"

lemma tostring_loop_eq:
  assumes "0 < v" "unat v < 10 ^ nat i" "0 < i" "nat i \<le> length buffer"
  shows "\<exists>j. tostring_loop v i buffer =
    Inr (int j, take j buffer @ map digit_char (digits_of 10 (unat v)) @ drop (nat i) buffer) \<and>
    j + length (digits_of 10 (unat v)) = nat i"
  using assms
proof (induction v i buffer rule: tostring_loop.induct)
  case (1 v i buffer)
  let ?b = "buffer[nat (i - 1) := 48 + ucast (v mod 10)]"
  have "ucast (v mod 10) = (of_nat (unat (v mod 10)) :: u8)" by (simp only: of_nat_unat)
  then have ch: "48 + ucast (v mod 10) = digit_char (unat v mod 10)"
    by (simp add: digit_char_def unat_mod)
  have step: "tostring_loop v i buffer = tostring_loop (v div 10) (i - 1) ?b"
    using 1(2,4) by (subst tostring_loop.simps) simp
  have i: "nat (i - 1) < length buffer" "nat i = Suc (nat (i - 1))" using 1(4,5) by simp_all
  have upd: "drop (nat (i - 1)) ?b = digit_char (unat v mod 10) # drop (nat i) buffer"
    "take (nat (i - 1)) ?b = take (nat (i - 1)) buffer"
    using i ch by (simp_all add: drop_update_swap Cons_nth_drop_Suc [symmetric])
  have b: "?b = take (nat (i - 1)) buffer @ digit_char (unat v mod 10) # drop (nat i) buffer"
    using upd append_take_drop_id [of "nat (i - 1)" ?b] by simp
  show ?case
  proof (cases "unat v < 10")
    case True
    then have "v div 10 = 0" by (simp add: word_unat_eq_iff unat_div)
    then have "tostring_loop v i buffer = Inr (i - 1, ?b)"
      unfolding step by (subst tostring_loop.simps) simp
    moreover have "digits_of 10 (unat v) = [unat v]" using True by (subst digits_of.simps) simp
    ultimately show ?thesis
      unfolding b using True 1(4) by (intro exI [of _ "nat (i - 1)"]) simp
  next
    case False
    then have ds: "digits_of 10 (unat v) = digits_of 10 (unat (v div 10)) @ [unat v mod 10]"
      by (subst digits_of.simps) (simp add: unat_div)
    have v: "0 < v div 10" using False by (simp add: word_less_nat_alt unat_div)
    have lt: "unat (v div 10) < 10 ^ nat (i - 1)"
      using 1(3) i by (simp add: unat_div less_mult_imp_div_less mult.commute)
    have i1: "0 < i - 1"
      using lt v by (cases "nat (i - 1)") (auto simp: word_less_nat_alt)
    have len: "nat (i - 1) \<le> length ?b" using 1(5) by simp
    have c: "0 < v \<and> 0 \<le> i" "\<not> i - 1 < 0" using 1(2,4) by simp_all
    obtain j where j: "tostring_loop (v div 10) (i - 1) ?b =
        Inr (int j, take j ?b @ map digit_char (digits_of 10 (unat (v div 10))) @ drop (nat (i - 1)) ?b)"
      "j + length (digits_of 10 (unat (v div 10))) = nat (i - 1)"
      using 1(1) [OF c v lt i1 len] by blast
    have "take j ?b = take j buffer" using j(2) i by simp
    then have "tostring_loop v i buffer =
        Inr (int j, take j buffer @ map digit_char (digits_of 10 (unat v)) @ drop (nat i) buffer)"
      unfolding step j(1) ds upd by simp
    moreover have "j + length (digits_of 10 (unat v)) = nat i" using j(2) ds i by simp
    ultimately show ?thesis by blast
  qed
qed

lemma digit_char_nonzero: "d < 10 \<Longrightarrow> unat (digit_char d) = 48 + d"
  by (simp add: digit_char_def unat_word_ariths unsigned_of_nat take_bit_nat_eq_self)

lemma cstr_append_terminator:
  "0 \<notin> set xs \<Longrightarrow> cstr (xs @ 0 # ys) = xs \<and> is_cstr (xs @ 0 # ys)"
  by (induction xs) auto

lemma to_string_eq:
  "\<exists>s. to_string v = Inr s \<and> kstring_wf s \<and> chars s = map digit_char (digits_of 10 (unat v))"
proof -
  let ?ds = "digits_of 10 (unat v)"
  have lt: "\<forall>d \<in> set ?ds. d < 10" by (rule digits_of_less) simp
  have v: "unat v < 10 ^ 10" using unsigned_less [of v, where ?'a = nat] by simp
  have len: "length ?ds \<le> 10" by (rule digits_of_length) (use v in simp_all)
  have nz: "0 \<notin> set (map digit_char ?ds)"
  proof
    assume "0 \<in> set (map digit_char ?ds)"
    then obtain d where "d \<in> set ?ds" "digit_char d = 0" by auto
    then show False using lt digit_char_nonzero [of d] by simp
  qed
  have "\<exists>j b. (if v = 0 then Inr (15, (replicate 17 0)[15 := 48]) else tostring_loop v 16 (replicate 17 0)) =
      Inr (j, b) \<and> drop (nat j) b = map digit_char ?ds @ [0]"
  proof (cases "v = 0")
    case True
    have "digits_of 10 0 = [0]" by (subst digits_of.simps) simp
    then show ?thesis using True by (simp add: digit_char_def numeral_eq_Suc)
  next
    case False
    then have "0 < v" by (simp add: word_neq_0_conv)
    moreover have "unat v < 10 ^ nat 16" using v by simp
    ultimately obtain j where j: "tostring_loop v 16 (replicate 17 0) =
        Inr (int j, take j (replicate 17 0) @ map digit_char ?ds @ drop 16 (replicate 17 0))"
      "j + length ?ds = 16"
      using tostring_loop_eq [of v 16 "replicate 17 0"] by auto
    have "drop j (take j (replicate 17 0) @ map digit_char ?ds @ drop 16 (replicate 17 0)) =
        map digit_char ?ds @ [0]"
      using j(2) by (simp add: numeral_eq_Suc)
    then show ?thesis using False j(1) by (simp del: drop_append)
  qed
  then obtain j b where jb: "(if v = 0 then Inr (15, (replicate 17 0)[15 := 48])
      else tostring_loop v 16 (replicate 17 0)) = Inr (j, b)"
    "drop (nat j) b = map digit_char ?ds @ [0]" by blast
  have cs: "cstr (map digit_char ?ds @ [0]) = map digit_char ?ds" "is_cstr (map digit_char ?ds @ [0])"
    using cstr_append_terminator [OF nz, of "[]"] by simp_all
  have "(replicate 17 0)[16 := 0] = (replicate 17 0 :: u8 list)" by (simp add: list_update_same_conv)
  then have "to_string v = string_of_cstr (Some (map digit_char ?ds @ [0]))"
    unfolding to_string_def Let_def by (simp only: jb res_bind_simps prod.case)
  then show ?thesis
    using string_of_cstr_wf [OF cs(2)] cs(1) len by auto
qed

section \<open>The properties\<close>

text \<open>C15: Two well-formed strings whose sizes add up to less than 2^32 - 1 are concatenated to a
  well-formed string with the characters of both, and are equal exactly when their characters
  are; hashing returns the FNV-1a value of the characters, caches it and changes nothing else, so
  equal strings have equal hashes.  The move constructor breaks the cache: it sets the hash of a
  string with a cached hash to 1.\<close>

theorem string_value:
  assumes "kstring_wf l" "kstring_wf r" "unat (str_size l) + unat (str_size r) < 2 ^ 32 - 1"
  shows "(\<exists>k. string_concat l r = Inr k \<and> kstring_wf k \<and> chars k = chars l @ chars r) \<and>
    string_eq l r = Inr (chars l = chars r) \<and>
    (\<exists>l' r'. get_hash l = Inr (fnv (chars l), l') \<and> get_hash r = Inr (fnv (chars r), r') \<and>
       kstring_wf l' \<and> chars l' = chars l \<and> has_hash l' \<and>
       (kstring_wf (string_move l') \<longleftrightarrow> fnv (chars l) = 1))"
proof -
  have sh: "short_string l" "short_string r" using assms(3) by (simp_all add: short_string_def)
  have gh: "\<exists>s'. get_hash s = Inr (fnv (chars s), s') \<and> kstring_wf s' \<and> chars s' = chars s \<and> has_hash s'"
    if "kstring_wf s" "short_string s" for s
    using that compute_hash_wf [OF that]
    by (cases "has_hash s"; cases "str_data s") (auto simp: get_hash_def kstring_wf_def)
  obtain l' where l': "get_hash l = Inr (fnv (chars l), l')" "kstring_wf l'" "chars l' = chars l" "has_hash l'"
    using gh [OF assms(1) sh(1)] by blast
  obtain r' where r': "get_hash r = Inr (fnv (chars r), r')" using gh [OF assms(2) sh(2)] by blast
  have "chars (string_move l') = chars l'" by (simp add: string_move_def)
  then have "kstring_wf (string_move l') \<longleftrightarrow> fnv (chars l) = 1"
    using l' by (cases "str_data l'") (auto simp: kstring_wf_def string_move_def)
  then show ?thesis
    using string_concat_wf [OF assms] string_eq_wf [OF assms(1,2) sh(1)] l' r' by blast
qed

lemma string_value_witness:
  "let l = \<lparr>str_size = 1, str_data = Some [97, 0], has_hash = False, hash_val = 0\<rparr>;
       r = \<lparr>str_size = 2, str_data = Some [98, 99, 0], has_hash = False, hash_val = 0\<rparr>
   in kstring_wf l \<and> kstring_wf r \<and>
      (\<exists>k. string_concat l r = Inr k \<and> kstring_wf k \<and> chars k = [97, 98, 99]) \<and>
      string_eq l r = Inr False \<and> (\<exists>l'. get_hash l = Inr (fnv [97], l') \<and> has_hash l')"
proof -
  let ?l = "\<lparr>str_size = 1, str_data = Some [97, 0], has_hash = False, hash_val = 0\<rparr>"
  let ?r = "\<lparr>str_size = 2, str_data = Some [98, 99, 0], has_hash = False, hash_val = 0\<rparr>"
  have wf: "kstring_wf ?l" "kstring_wf ?r" "chars ?l = [97]" "chars ?r = [98, 99]"
    by (simp_all add: kstring_wf_def chars_def)
  show ?thesis
    using string_value [of ?l ?r] wf unfolding Let_def by auto
qed

text \<open>C16: Without the removal of empty parts \<open>split\<close> returns the parts whose concatenation with
  the delimiter between them is the string; with it, it returns the parts that are not empty, except
  that it never returns when a part before the last one is empty.\<close>

theorem string_split_exact:
  assumes "kstring_wf s" "length (chars s) + 1 < 2 ^ 32 - 1"
  shows "\<exists>ps. join_parts d ps = chars s \<and> (\<forall>p \<in> set ps. d \<notin> set p) \<and> ps \<noteq> [] \<and>
    (\<exists>r. string_split s d False = Inr r \<and> map chars r = ps) \<and>
    (if [] \<in> set (butlast ps) then string_split s d True = Inl Diverges
     else \<exists>r. string_split s d True = Inr r \<and> map chars r = filter (\<lambda>p. p \<noteq> []) ps)"
proof -
  let ?ps = "parts d (chars s) []"
  have st: "(case str_data s of None \<Rightarrow> if str_size s = 0 then Inr [] else Inl Null_Deref
      | Some d \<Rightarrow> if unat (str_size s) \<le> length d then Inr (take (unat (str_size s)) d)
        else Inl Out_Of_Bounds) = Inr (chars s)"
    using assms(1) by (auto simp: kstring_wf_def chars_def split: option.splits)
  have last_copy: "\<exists>p. string_copy cur = Inr p \<and> chars p = chars cur"
    if "kstring_wf cur" "short_string cur" for cur using string_copy_wf [OF that] by blast
  have loop: "\<exists>cur' r'. split_loop d rm (chars s) string_empty [] = Some (Inr (cur', r')) \<and>
      kstring_wf cur' \<and> short_string cur' \<and> map chars r' @ [chars cur'] = ?ps"
    if "\<not> (rm \<and> [] \<in> set (butlast ?ps))" for rm
    using split_loop_returns [of string_empty "chars s" rm d "[]"] that assms(2) string_empty_wf by simp
  have "\<exists>r. string_split s d False = Inr r \<and> map chars r = ?ps"
    using loop [of False] last_copy by (force simp: string_split_def st)
  moreover have "string_split s d True = Inl Diverges" if e: "[] \<in> set (butlast ?ps)"
  proof -
    have "split_loop d True (chars s) string_empty [] = None"
      using split_loop_Some [of d True "chars s" string_empty "[]"] e assms(2) string_empty_wf
      by (cases "split_loop d True (chars s) string_empty []") auto
    then show ?thesis by (simp add: string_split_def st)
  qed
  moreover have "\<exists>r. string_split s d True = Inr r \<and> map chars r = filter (\<lambda>p. p \<noteq> []) ?ps"
    if e: "[] \<notin> set (butlast ?ps)"
  proof -
    obtain cur' r' where l: "split_loop d True (chars s) string_empty [] = Some (Inr (cur', r'))"
      "kstring_wf cur'" "short_string cur'" "map chars r' @ [chars cur'] = ?ps"
      using loop [of True] e by blast
    have ne: "[] \<notin> set (map chars r')" using e l(4) [symmetric] by simp
    then have f: "filter (\<lambda>p. p \<noteq> []) (map chars r') = map chars r'"
      by (simp add: filter_id_conv) (metis imageI)
    have z: "0 < str_size cur' \<longleftrightarrow> chars cur' \<noteq> []"
      using length_chars [OF l(2)] by (simp add: word_less_nat_alt flip: length_greater_0_conv)
    obtain p where p: "string_copy cur' = Inr p" "chars p = chars cur'"
      using last_copy [OF l(2,3)] by blast
    have "string_split s d True = Inr (if chars cur' \<noteq> [] then r' @ [p] else r')"
      unfolding string_split_def st using l(1) z p by simp
    then show ?thesis using l(4) [symmetric] f p by simp
  qed
  ultimately show ?thesis
    using join_parts_parts [of d "chars s" "[]"] parts_no_delim [of d "[]" "chars s"]
    by (intro exI [of _ ?ps]) simp
qed

lemma string_split_exact_witness:
  "let s = \<lparr>str_size = 3, str_data = Some [97, 47, 98, 0], has_hash = False, hash_val = 0\<rparr>
   in kstring_wf s \<and> (\<exists>r. string_split s 47 False = Inr r \<and> join_parts 47 (map chars r) = [97, 47, 98])"
proof -
  let ?s = "\<lparr>str_size = 3, str_data = Some [97, 47, 98, 0], has_hash = False, hash_val = 0\<rparr>"
  have wf: "kstring_wf ?s" "chars ?s = [97, 47, 98]"
    by (simp_all add: kstring_wf_def chars_def)
  show ?thesis
    using string_split_exact [of ?s 47] wf unfolding Let_def by auto
qed

text \<open>\<open>ToString\<close> returns the decimal numeral of every 32-bit number, without leading zeros.\<close>

theorem to_string_numeral:
  "\<exists>s. to_string v = Inr s \<and> kstring_wf s \<and>
    digits_value 10 (map (\<lambda>c. unat c - 48) (chars s)) = unat v \<and>
    (\<forall>c \<in> set (chars s). 48 \<le> c \<and> c \<le> 57) \<and> (v \<noteq> 0 \<longrightarrow> hd (chars s) \<noteq> 48)"
proof -
  let ?ds = "digits_of 10 (unat v)"
  obtain s where s: "to_string v = Inr s" "kstring_wf s" "chars s = map digit_char ?ds"
    using to_string_eq [of v] by blast
  have lt: "\<forall>d \<in> set ?ds. d < 10" by (rule digits_of_less) simp
  have "map (\<lambda>c. unat c - 48) (chars s) = ?ds"
    unfolding s(3) map_map using lt by (intro map_idI) (simp add: digit_char_nonzero)
  moreover have "\<forall>c \<in> set (chars s). 48 \<le> c \<and> c \<le> 57"
    unfolding s(3) using lt by (force simp: digit_char_nonzero word_le_nat_alt)
  moreover have "hd (chars s) \<noteq> 48" if "v \<noteq> 0"
  proof -
    have "hd ?ds \<noteq> 0" "hd ?ds \<in> set ?ds"
      using that digits_of_hd [of "unat v" 10] digits_of_not_Nil [of 10 "unat v"]
      by (auto simp: unat_gt_0)
    then have "unat (digit_char (hd ?ds)) \<noteq> 48" using lt digit_char_nonzero [of "hd ?ds"] by auto
    then show ?thesis
      unfolding s(3) using digits_of_not_Nil [of 10 "unat v"] by (auto simp: hd_map)
  qed
  ultimately show ?thesis
    using s digits_value_digits_of [of 10 "unat v"] by auto
qed

lemma to_string_numeral_witness:
  "\<exists>s. to_string 120 = Inr s \<and> digits_value 10 (map (\<lambda>c. unat c - 48) (chars s)) = 120 \<and>
    hd (chars s) \<noteq> 48"
  using to_string_numeral [of 120] by auto

text \<open>On terminated strings shorter than 2^64 the kernel's \<open>strncmp\<close> returns 0 exactly when the
  strings have the same length and the same first n characters, so for n at least the length
  exactly when they are equal; \<open>strncpy\<close> with a positive count and room in the destination writes the
  first n - 1 characters and a terminator; the user library's \<open>strcmp\<close> returns 0 exactly when one
  string is a prefix of the other.\<close>

theorem cstring_routines:
  assumes "is_cstr s" "is_cstr t" "length s < 2 ^ 64" "length t < 2 ^ 64"
  shows "kstrncmp s t n = Inr (if length (cstr s) = length (cstr t) \<and>
           take (unat n) (cstr s) = take (unat n) (cstr t) then 0 else - 1) \<and>
    (0 < n \<longrightarrow> length (cstr s) < length dest \<longrightarrow>
      (\<exists>dest' k. kstrncpy dest s n = Inr (dest', k) \<and> cstr dest' = take (unat n - 1) (cstr s) \<and>
         k = length (cstr dest') \<and> length dest' = length dest)) \<and>
    (ustrcmp s t = Inr 0 \<longleftrightarrow> (\<exists>u. cstr s @ u = cstr t \<or> cstr t @ u = cstr s))"
proof (intro conjI impI)
  show "kstrncmp s t n = Inr (if length (cstr s) = length (cstr t) \<and>
      take (unat n) (cstr s) = take (unat n) (cstr t) then 0 else - 1)"
    using assms by (rule kstrncmp_eq)
  show "\<exists>dest' k. kstrncpy dest s n = Inr (dest', k) \<and> cstr dest' = take (unat n - 1) (cstr s) \<and>
      k = length (cstr dest') \<and> length dest' = length dest"
    if n: "0 < n" and d: "length (cstr s) < length dest"
  proof -
    let ?k = "min (unat n - 1) (length (cstr s))"
    have e: "kstrncpy dest s n = Inr (take ?k (cstr s) @ 0 # drop (?k + 1) dest, ?k)"
      using kstrncpy_eq [OF assms(1) n, of dest] d by (simp add: Let_def)
    have "0 \<notin> set (take ?k (cstr s))" using cstr_nonzero [of s] by (meson in_set_takeD)
    then have "cstr (take ?k (cstr s) @ 0 # drop (?k + 1) dest) = take ?k (cstr s)"
      using cstr_append_terminator by blast
    moreover have "take ?k (cstr s) = take (unat n - 1) (cstr s)"
      by (metis min.commute take_all take_take order_refl)
    ultimately show ?thesis using e d by auto
  qed
  show "ustrcmp s t = Inr 0 \<longleftrightarrow> (\<exists>u. cstr s @ u = cstr t \<or> cstr t @ u = cstr s)"
  proof -
    have "take (length b) a = take (length a) b \<longleftrightarrow> (\<exists>u. a @ u = b \<or> b @ u = a)" for a b :: "u8 list"
      by (metis append_eq_conv_conj append_take_drop_id nat_le_linear take_all)
    then show ?thesis using ustrcmp_eq [OF assms(1,2)] by simp
  qed
qed

lemma cstring_routines_witness:
  "kstrncmp [97, 98, 0] [97, 99, 0] 1 = Inr 0 \<and>
   (\<exists>dest k. kstrncpy [1, 2, 3, 4] [97, 98, 0] 2 = Inr (dest, k) \<and> cstr dest = [97]) \<and>
   ustrcmp [97, 98, 0] [97, 0] = Inr 0"
  using cstring_routines [of "[97, 98, 0]" "[97, 99, 0]" 1 "[]"]
    cstring_routines [of "[97, 98, 0]" "[97, 0]" 2 "[1, 2, 3, 4]"]
  by auto

end
