(* ===== verification/KMap.thy ===== *)
theory KMap imports Prelude begin

text \<open>
  The ordered map of the kernel (infos/include/infos/util/map.h), a red-black tree whose nodes have
  a parent pointer.  A node with the chain of its parents is a subtree together with a path: one
  frame per parent, the nearest first, with the parent's fields, the side on which it was left and
  its other child.  Moving \<open>x\<close> to its parent plugs the subtree into the first frame.
\<close>

section \<open>Nodes, parents and the map\<close>

datatype colour = RED | BLACK

datatype ('k, 'v) node = Null
  | Node (node_key: 'k) (node_value: 'v) (node_colour: colour) (node_left: "('k, 'v) node")
      (node_right: "('k, 'v) node")
  where
    "node_left Null = Null"
  | "node_right Null = Null"

datatype side = SLeft | SRight

datatype ('k, 'v) frame =
  Frame (frame_side: side) (frame_key: 'k) (frame_value: 'v) (frame_colour: colour)
    (frame_sibling: "('k, 'v) node")

record ('k, 'v) kmap =
  map_root :: "('k, 'v) node"
  map_count :: u32

definition is_red :: "('k, 'v) node \<Rightarrow> bool" where
  "is_red n = (case n of Null \<Rightarrow> False | Node _ _ c _ _ \<Rightarrow> c = RED)"

definition plug :: "('k, 'v) frame \<Rightarrow> ('k, 'v) node \<Rightarrow> ('k, 'v) node" where
  "plug f n = (case f of Frame d k v c s \<Rightarrow> (if d = SLeft then Node k v c n s else Node k v c s n))"

fun up :: "('k, 'v) node \<Rightarrow> ('k, 'v) frame list \<Rightarrow> ('k, 'v) node" where
  "up x [] = x"
| "up x (f # fs) = up (plug f x) fs"

definition set_colour :: "colour \<Rightarrow> ('k, 'v) node \<Rightarrow> ('k, 'v) node res" where
  "set_colour c n = (case n of Null \<Rightarrow> Inl Null_Deref | Node k v _ l r \<Rightarrow> Inr (Node k v c l r))"

definition colour_frame :: "colour \<Rightarrow> ('k, 'v) frame \<Rightarrow> ('k, 'v) frame" where
  "colour_frame c f = (case f of Frame d k v _ s \<Rightarrow> Frame d k v c s)"

section \<open>Rotations\<close>

text \<open>The rotation of the subtree at \<open>n\<close>; the pivot takes its place under the parent of \<open>n\<close>.\<close>

definition rotate_right :: "('k, 'v) node \<Rightarrow> ('k, 'v) node res" where
  "rotate_right n =
     (case n of
        Null \<Rightarrow> Inl Assert_Fail
      | Node k v c left r \<Rightarrow>
          (case left of
             Null \<Rightarrow> Inl Assert_Fail
           | Node pk pv pc pl pr \<Rightarrow> Inr (Node pk pv pc pl (Node k v c pr r))))"

definition rotate_left :: "('k, 'v) node \<Rightarrow> ('k, 'v) node res" where
  "rotate_left n =
     (case n of
        Null \<Rightarrow> Inl Assert_Fail
      | Node k v c l right \<Rightarrow>
          (case right of
             Null \<Rightarrow> Inl Assert_Fail
           | Node pk pv pc pl pr \<Rightarrow> Inr (Node pk pv pc (Node k v c l pl) pr)))"

section \<open>Insertion\<close>

text \<open>
  An inner grandchild is first rotated to the outside: \<open>x\<close> becomes its old parent, which is now the
  child of the old \<open>x\<close>.
\<close>

definition straighten_left ::
    "('k, 'v) node \<Rightarrow> ('k, 'v) frame \<Rightarrow> (('k, 'v) node \<times> ('k, 'v) frame) res" where
  "straighten_left x p =
     (if frame_side p = SRight
      then res_bind (rotate_left (plug p x)) (\<lambda>t.
             case t of Null \<Rightarrow> Inl Null_Deref | Node k v c l r \<Rightarrow> Inr (l, Frame SLeft k v c r))
      else Inr (x, p))"

definition straighten_right ::
    "('k, 'v) node \<Rightarrow> ('k, 'v) frame \<Rightarrow> (('k, 'v) node \<times> ('k, 'v) frame) res" where
  "straighten_right x p =
     (if frame_side p = SLeft
      then res_bind (rotate_right (plug p x)) (\<lambda>t.
             case t of Null \<Rightarrow> Inl Null_Deref | Node k v c l r \<Rightarrow> Inr (r, Frame SRight k v c l))
      else Inr (x, p))"

fun rebalance_loop :: "('k, 'v) node \<Rightarrow> ('k, 'v) frame list \<Rightarrow> ('k, 'v) node res" where
  "rebalance_loop x [] = Inr x"
| "rebalance_loop x [p] = (if frame_colour p = RED then Inl Null_Deref else Inr (up x [p]))"
| "rebalance_loop x (p # g # rest) =
     (if frame_colour p = BLACK then Inr (up x (p # g # rest))
      else if is_red (frame_sibling g) then
        res_bind (set_colour BLACK (frame_sibling g)) (\<lambda>y.
          rebalance_loop
            (plug (Frame (frame_side g) (frame_key g) (frame_value g) RED y)
              (plug (colour_frame BLACK p) x)) rest)
      else if frame_side g = SLeft then
        res_bind (straighten_left x p) (\<lambda>(x, p).
        res_bind (rotate_right (plug (colour_frame RED g) (plug (colour_frame BLACK p) x))) (\<lambda>t.
          case t of
            Null \<Rightarrow> Inl Null_Deref
          | Node k v c l r \<Rightarrow> rebalance_loop l (Frame SLeft k v c r # rest)))
      else
        res_bind (straighten_right x p) (\<lambda>(x, p).
        res_bind (rotate_left (plug (colour_frame RED g) (plug (colour_frame BLACK p) x))) (\<lambda>t.
          case t of
            Null \<Rightarrow> Inl Null_Deref
          | Node k v c l r \<Rightarrow> rebalance_loop r (Frame SRight k v c l # rest))))"

definition rebalance_insert :: "('k, 'v) node \<Rightarrow> ('k, 'v) frame list \<Rightarrow> ('k, 'v) node res" where
  "rebalance_insert nw path =
     res_bind (set_colour RED nw) (\<lambda>x. res_bind (rebalance_loop x path) (set_colour BLACK))"

fun find_owner ::
    "'k :: linorder \<Rightarrow> ('k, 'v) node \<Rightarrow> ('k, 'v) frame list \<Rightarrow> ('k, 'v) node \<times> ('k, 'v) frame list" where
  "find_owner key Null path = (Null, path)"
| "find_owner key (Node k v c l r) path =
     (if key < k then
        (if l = Null then (Node k v c l r, path) else find_owner key l (Frame SLeft k v c r # path))
      else if key > k then
        (if r = Null then (Node k v c l r, path) else find_owner key r (Frame SRight k v c l # path))
      else (Node k v c l r, path))"

definition kmap_empty :: "('k, 'v) kmap" where
  "kmap_empty = \<lparr>map_root = Null, map_count = 0\<rparr>"

definition kmap_add :: "'k :: linorder \<Rightarrow> 'v \<Rightarrow> ('k, 'v) kmap \<Rightarrow> ('k, 'v) kmap res" where
  "kmap_add key val m =
     (let (owner, path) = find_owner key (map_root m) [] in
      case owner of
        Null \<Rightarrow>
          Inr (m\<lparr>map_root := Node key val BLACK Null Null, map_count := map_count m + 1\<rparr>)
      | Node k v c l r \<Rightarrow>
          if key = k then Inr (m\<lparr>map_root := up (Node k val c l r) path\<rparr>)
          else
            let nw = Node key val RED Null Null;
                path' = (if key < k then Frame SLeft k v c r # path else Frame SRight k v c l # path)
            in res_bind (rebalance_insert nw path') (\<lambda>root.
                 Inr (m\<lparr>map_root := root, map_count := map_count m + 1\<rparr>)))"

section \<open>Queries and iteration\<close>

fun node_contains :: "'k :: linorder \<Rightarrow> ('k, 'v) node \<Rightarrow> bool" where
  "node_contains key Null = False"
| "node_contains key (Node k v c l r) =
     (if key < k then node_contains key l else if key > k then node_contains key r else True)"

definition kmap_contains_key :: "'k :: linorder \<Rightarrow> ('k, 'v) kmap \<Rightarrow> bool" where
  "kmap_contains_key key m = node_contains key (map_root m)"

fun node_lookup :: "'k :: linorder \<Rightarrow> ('k, 'v) node \<Rightarrow> 'v option" where
  "node_lookup key Null = None"
| "node_lookup key (Node k v c l r) =
     (if key < k then node_lookup key l else if key > k then node_lookup key r else Some v)"

definition kmap_try_get :: "'k :: linorder \<Rightarrow> ('k, 'v) kmap \<Rightarrow> 'v option" where
  "kmap_try_get key m = node_lookup key (map_root m)"

text \<open>\<open>remove\<close> has an empty body in the source.\<close>

definition kmap_remove :: "'k \<Rightarrow> ('k, 'v) kmap \<Rightarrow> ('k, 'v) kmap" where
  "kmap_remove key m = m"

definition kmap_clear :: "('k, 'v) kmap \<Rightarrow> ('k, 'v) kmap" where
  "kmap_clear m = m\<lparr>map_root := Null, map_count := 0\<rparr>"

text \<open>An iterator is the current node and the queue of the nodes to visit.\<close>

type_synonym ('k, 'v) iter = "('k, 'v) node \<times> ('k, 'v) node list"

definition iter_advance :: "('k, 'v) iter \<Rightarrow> ('k, 'v) iter" where
  "iter_advance it =
     (case snd it of
        [] \<Rightarrow> (Null, [])
      | n # q \<Rightarrow>
          (n, q @ (if node_left n \<noteq> Null then [node_left n] else []) @
              (if node_right n \<noteq> Null then [node_right n] else [])))"

definition iter_begin :: "('k, 'v) kmap \<Rightarrow> ('k, 'v) iter" where
  "iter_begin m = (if map_root m = Null then (Null, []) else iter_advance (map_root m, [map_root m]))"

text \<open>The entries that a range loop sees: it runs until the current node is null.\<close>

function iter_entries :: "('k, 'v) iter \<Rightarrow> ('k \<times> 'v) list" where
  "iter_entries it =
     (case fst it of
        Null \<Rightarrow> []
      | Node k v c l r \<Rightarrow> (k, v) # iter_entries (iter_advance it))"
  by pat_completeness auto

termination iter_entries
proof (relation "measure (\<lambda>it. (if fst it = Null then 0 else 1) + 2 * sum_list (map size (snd it)))", goal_cases)
  case 1
  then show ?case by simp
next
  case (2 it k v c l r)
  obtain cur q where it: "it = (cur, q)" by (cases it)
  show ?case
  proof (cases q)
    case Nil
    then show ?thesis using 2 it by (simp add: iter_advance_def)
  next
    case (Cons n q')
    then show ?thesis using 2 it by (cases n) (auto simp: iter_advance_def)
  qed
qed

declare iter_entries.simps [simp del]

end
