(* ===== verification/KMap_Props.thy ===== *)
theory KMap_Props imports KMap begin

text \<open>
  Correctness of the map: the entries in key order, the red-black conditions split between a
  subtree and its path, insertion and lookup, the iterator, and the interface \<open>key_map\<close> through
  which the other components use a map.
\<close>

section \<open>Entries\<close>

fun entries :: "('k, 'v) node \<Rightarrow> ('k \<times> 'v) list" where
  "entries Null = []"
| "entries (Node k v c l r) = entries l @ (k, v) # entries r"

fun lefts :: "('k, 'v) frame list \<Rightarrow> ('k \<times> 'v) list" where
  "lefts [] = []"
| "lefts (Frame d k v c s # fs) = lefts fs @ (if d = SLeft then [] else entries s @ [(k, v)])"

fun rights :: "('k, 'v) frame list \<Rightarrow> ('k \<times> 'v) list" where
  "rights [] = []"
| "rights (Frame d k v c s # fs) = (if d = SLeft then (k, v) # entries s else []) @ rights fs"

definition sorted_keys :: "('k :: linorder \<times> 'v) list \<Rightarrow> bool" where
  "sorted_keys es \<longleftrightarrow> sorted_wrt (<) (map fst es)"

lemma entries_up: "entries (up x fs) = lefts fs @ entries x @ rights fs"
proof (induction fs arbitrary: x)
  case (Cons f fs)
  then show ?case by (cases f) (auto simp: plug_def)
qed simp

lemma sorted_keys_append:
  "sorted_keys (xs @ ys) \<longleftrightarrow> sorted_keys xs \<and> sorted_keys ys \<and>
    (\<forall>a \<in> fst ` set xs. \<forall>b \<in> fst ` set ys. a < b)"
  by (auto simp: sorted_keys_def sorted_wrt_append)

lemma sorted_keys_Cons:
  "sorted_keys ((k, v) # ys) \<longleftrightarrow> sorted_keys ys \<and> (\<forall>b \<in> fst ` set ys. k < b)"
  by (auto simp: sorted_keys_def)

lemma sorted_keys_Nil [simp]: "sorted_keys []"
  by (simp add: sorted_keys_def)

lemmas sorted_keys_simps = sorted_keys_append sorted_keys_Cons ball_Un image_Un

lemma map_of_outside: "k \<notin> fst ` set xs \<Longrightarrow> map_of (xs @ ys) k = map_of ys k"
  by (induction xs) auto

lemma map_of_outside': "k \<notin> fst ` set ys \<Longrightarrow> map_of (xs @ ys) k = map_of xs k"
  by (induction xs) (auto simp: map_of_eq_None_iff)

lemma node_lookup_entries:
  "sorted_keys (entries t) \<Longrightarrow> node_lookup key t = map_of (entries t) key"
proof (induction t)
  case (Node k v c l r)
  then have s: "sorted_keys (entries l)" "sorted_keys (entries r)"
    "\<forall>a \<in> fst ` set (entries l). a < k" "\<forall>b \<in> fst ` set (entries r). k < b"
    by (auto simp: sorted_keys_simps)
  consider "key < k" | "key > k" | "key = k" by force
  then show ?case
  proof cases
    case 1
    then have "key \<notin> fst ` set ((k, v) # entries r)" using s(4) by force
    then have "map_of (entries l @ (k, v) # entries r) key = map_of (entries l) key"
      by (rule map_of_outside')
    then show ?thesis using 1 Node.IH(1) s(1) by (simp del: map_of_append)
  next
    case 2
    then have "key \<notin> fst ` set (entries l)" using s(3) by force
    then have "map_of (entries l @ (k, v) # entries r) key = map_of ((k, v) # entries r) key"
      by (rule map_of_outside)
    then show ?thesis using 2 Node.IH(2) s(2) by (auto simp del: map_of_append)
  next
    case 3
    then have "key \<notin> fst ` set (entries l)" using s(3) by force
    then have "map_of (entries l @ (k, v) # entries r) key = map_of ((k, v) # entries r) key"
      by (rule map_of_outside)
    then show ?thesis using 3 by (auto simp del: map_of_append)
  qed
qed simp

lemma node_contains_lookup: "node_contains key t \<longleftrightarrow> node_lookup key t \<noteq> None"
  by (induction t) auto

text \<open>Where the search for the owner of a key ends.\<close>

lemma find_owner_spec:
  assumes "find_owner key t path = (owner, path')" "t \<noteq> Null"
    and "sorted_keys (entries t)"
    and "\<forall>a \<in> fst ` set (lefts path). a < key" "\<forall>b \<in> fst ` set (rights path). key < b"
  shows "up owner path' = up t path \<and> sorted_keys (entries owner) \<and>
    (\<forall>a \<in> fst ` set (lefts path'). a < key) \<and> (\<forall>b \<in> fst ` set (rights path'). key < b) \<and>
    (\<exists>k v c l r. owner = Node k v c l r \<and> (key < k \<longrightarrow> l = Null) \<and> (k < key \<longrightarrow> r = Null))"
  using assms
proof (induction key t path rule: find_owner.induct)
  case (2 key k v c l r path)
  have s: "sorted_keys (entries l)" "sorted_keys (entries r)"
    "\<forall>a \<in> fst ` set (entries l). a < k" "\<forall>b \<in> fst ` set (entries r). k < b"
    using 2(5) by (auto simp: sorted_keys_simps)
  consider (left) "key < k" "l \<noteq> Null" | (right) "k < key" "r \<noteq> Null"
    | (stop) "(owner, path') = (Node k v c l r, path)" "key < k \<longrightarrow> l = Null" "k < key \<longrightarrow> r = Null"
    using 2(3) by (cases "key < k"; cases "k < key"; cases "l = Null"; cases "r = Null") auto
  then show ?case
  proof cases
    case left
    have rg: "\<forall>b \<in> fst ` set (rights (Frame SLeft k v c r # path)). key < b"
      using left(1) s(4) 2(7) by (auto dest: less_trans)
    have fo: "find_owner key l (Frame SLeft k v c r # path) = (owner, path')"
      using 2(3) left by simp
    show ?thesis
      using 2(1) [OF left fo left(2) s(1) _ rg] 2(6) by (simp add: plug_def)
  next
    case right
    have lf: "\<forall>a \<in> fst ` set (lefts (Frame SRight k v c l # path)). a < key"
      using right(1) s(3) 2(6) by (auto dest: less_trans)
    have nl: "\<not> key < k" using right(1) by simp
    have fo: "find_owner key r (Frame SRight k v c l # path) = (owner, path')"
      using 2(3) right nl by simp
    show ?thesis
      using 2(2) [OF nl right fo right(2) s(2) lf] 2(7) by (simp add: plug_def)
  next
    case stop
    then show ?thesis using 2(5,6,7) by simp
  qed
qed simp

section \<open>The red-black conditions\<close>

fun bh_ok :: "nat \<Rightarrow> ('k, 'v) node \<Rightarrow> bool" where
  "bh_ok n Null = (n = 0)"
| "bh_ok n (Node k v c l r) =
     (if c = BLACK then 0 < n \<and> bh_ok (n - 1) l \<and> bh_ok (n - 1) r else bh_ok n l \<and> bh_ok n r)"

fun no_rr :: "('k, 'v) node \<Rightarrow> bool" where
  "no_rr Null = True"
| "no_rr (Node k v c l r) = ((c = RED \<longrightarrow> \<not> is_red l \<and> \<not> is_red r) \<and> no_rr l \<and> no_rr r)"

fun path_bh :: "nat \<Rightarrow> ('k, 'v) frame list \<Rightarrow> bool" where
  "path_bh n [] = True"
| "path_bh n (f # fs) =
     (bh_ok n (frame_sibling f) \<and> path_bh (if frame_colour f = BLACK then Suc n else n) fs)"

fun path_rr :: "('k, 'v) frame list \<Rightarrow> bool" where
  "path_rr [] = True"
| "path_rr (f # fs) =
     (no_rr (frame_sibling f) \<and>
      (frame_colour f = RED \<longrightarrow> \<not> is_red (frame_sibling f) \<and> fs \<noteq> [] \<and> frame_colour (hd fs) = BLACK) \<and>
      path_rr fs)"

definition red_black :: "('k, 'v) node \<Rightarrow> bool" where
  "red_black t \<longleftrightarrow> no_rr t \<and> \<not> is_red t \<and> (\<exists>n. bh_ok n t)"

lemma is_red_simps [simp]: "\<not> is_red Null" "is_red (Node k v c l r) \<longleftrightarrow> c = RED"
  by (simp_all add: is_red_def)

lemma colour_not [simp]: "c \<noteq> RED \<longleftrightarrow> c = BLACK" "c \<noteq> BLACK \<longleftrightarrow> c = RED"
  by (cases c; simp)+

lemma bh_up: "(\<exists>m. bh_ok m (up x fs)) \<longleftrightarrow> (\<exists>n. bh_ok n x \<and> path_bh n fs)"
proof (induction fs arbitrary: x)
  case (Cons f fs)
  have "bh_ok n (plug f x) \<longleftrightarrow> (\<exists>m. n = (if frame_colour f = BLACK then Suc m else m) \<and>
      bh_ok m x \<and> bh_ok m (frame_sibling f))" for n
    by (cases f; cases n) (auto simp: plug_def)
  then have "(\<exists>n. bh_ok n (plug f x) \<and> path_bh n fs) \<longleftrightarrow> (\<exists>n. bh_ok n x \<and> path_bh n (f # fs))"
    by (cases "frame_colour f = BLACK") auto
  then show ?case using Cons.IH [of "plug f x"] by simp
qed simp

lemma rr_up: "no_rr (up x fs) \<and> \<not> is_red (up x fs) \<longleftrightarrow>
  no_rr x \<and> path_rr fs \<and> (is_red x \<longrightarrow> fs \<noteq> [] \<and> frame_colour (hd fs) = BLACK)"
proof (induction fs arbitrary: x)
  case (Cons f fs)
  show ?case using Cons.IH [of "plug f x"] by (cases f) (auto simp: plug_def)
qed simp

lemma red_black_up:
  "red_black (up x fs) \<longleftrightarrow> no_rr x \<and> path_rr fs \<and>
    (is_red x \<longrightarrow> fs \<noteq> [] \<and> frame_colour (hd fs) = BLACK) \<and> (\<exists>n. bh_ok n x \<and> path_bh n fs)"
  using rr_up [of x fs] bh_up [of x fs] by (auto simp: red_black_def)

text \<open>A node with its colour set to black.\<close>

fun blacken :: "('k, 'v) node \<Rightarrow> ('k, 'v) node" where
  "blacken Null = Null"
| "blacken (Node k v c l r) = Node k v BLACK l r"

lemma blacken_simps [simp]:
  "entries (blacken t) = entries t" "\<not> is_red (blacken t)" "no_rr t \<Longrightarrow> no_rr (blacken t)"
  "blacken t = Null \<longleftrightarrow> t = Null"
  by (cases t; simp)+

lemma blacken_not_red: "\<not> is_red t \<Longrightarrow> blacken t = t"
  by (cases t) auto

lemma blacken_bh: "bh_ok n t \<Longrightarrow> \<exists>m. bh_ok m (blacken t)"
proof (cases t)
  case (Node k v c l r)
  assume "bh_ok n t"
  then show ?thesis
    using Node by (cases "c = BLACK") (auto intro: exI [of _ "Suc n"] exI [of _ n])
qed auto

lemma set_colour_BLACK: "t \<noteq> Null \<Longrightarrow> set_colour BLACK t = Inr (blacken t)"
  by (cases t) (simp_all add: set_colour_def)

lemma up_not_Null: "x \<noteq> Null \<or> fs \<noteq> [] \<Longrightarrow> up x fs \<noteq> Null"
  by (induction fs arbitrary: x) (auto simp: plug_def split: frame.splits)

section \<open>Rebalancing\<close>

text \<open>
  The loop is entered with a red node whose subtree is well formed and a path that is well formed;
  the only possible violation is between the node and its parent.
\<close>

definition red_sub :: "('k, 'v) node \<Rightarrow> bool" where
  "red_sub x \<longleftrightarrow> is_red x \<and> no_rr x"

lemma loop_exit:
  assumes "no_rr x" "path_rr fs" "bh_ok n x" "path_bh n fs" "x \<noteq> Null"
    and "fs = [] \<or> frame_colour (hd fs) = BLACK"
  shows "red_black (blacken (up x fs)) \<and> up x fs \<noteq> Null"
proof (cases "fs = []")
  case True
  then show ?thesis using assms blacken_bh [of n x] by (auto simp: red_black_def)
next
  case False
  then have "red_black (up x fs)" using assms by (auto simp: red_black_up)
  then show ?thesis
    using up_not_Null [of x fs] assms(5) by (auto simp: blacken_not_red red_black_def)
qed

lemma red_sub_Node:
  assumes "red_sub x"
  obtains k v l r where "x = Node k v RED l r" "no_rr l" "no_rr r" "\<not> is_red l" "\<not> is_red r"
  using assms by (cases x) (auto simp: red_sub_def)

lemma rebalance_loop_black:
  "frame_colour f = BLACK \<Longrightarrow> rebalance_loop x (f # rest) = Inr (up x (f # rest))"
  by (cases rest) auto

lemma black_parent_done:
  assumes "no_rr x" "path_rr (f # rest)" "bh_ok n x" "path_bh n (f # rest)" "x \<noteq> Null"
    and "frame_colour f = BLACK" "entries (up x (f # rest)) = es"
  shows "\<exists>t. rebalance_loop x (f # rest) = Inr t \<and> entries t = es \<and> t \<noteq> Null \<and>
    red_black (blacken t)"
  using assms loop_exit [OF assms(1-5)] rebalance_loop_black [of f x rest] by auto

lemma rebalance_loop_ok:
  assumes "red_sub x" "path_rr fs" "bh_ok n x" "path_bh n fs"
  shows "\<exists>t. rebalance_loop x fs = Inr t \<and> entries t = entries (up x fs) \<and> t \<noteq> Null \<and>
    red_black (blacken t)"
  using assms
proof (induction x fs arbitrary: n rule: rebalance_loop.induct)
  case (1 x)
  then show ?case using loop_exit [of x "[]" n] by (auto elim: red_sub_Node)
next
  case (2 x p)
  then have "frame_colour p = BLACK" by auto
  then show ?case using 2 by (intro black_parent_done) (auto elim: red_sub_Node)
next
  case (3 x p g rest)
  show ?case
  proof (cases "frame_colour p = BLACK")
    case True
    then show ?thesis using 3(4-7) by (intro black_parent_done) (auto elim: red_sub_Node)
  next
    case False
    then obtain pd pk pv ps where p: "p = Frame pd pk pv RED ps" by (cases p) auto
    obtain gd gk gv gs where g: "g = Frame gd gk gv BLACK gs" using 3(5) p by (cases g) auto
    obtain xk xv xl xr where x: "x = Node xk xv RED xl xr"
      "no_rr xl" "no_rr xr" "\<not> is_red xl" "\<not> is_red xr"
      using red_sub_Node [OF 3(4)] .
    have ps: "no_rr ps" "\<not> is_red ps" "bh_ok n ps" using 3(5,7) p by auto
    have gs: "no_rr gs" "bh_ok n gs" using 3(5,7) p g by auto
    have rest: "path_rr rest" "path_bh (Suc n) rest" using 3(5,7) p g by auto
    have xb: "bh_ok n xl" "bh_ok n xr" using 3(6) x by auto
    show ?thesis
    proof (cases "is_red gs")
      case True
      then obtain yk yv yl yr where y: "gs = Node yk yv RED yl yr" by (cases gs) auto
      let ?x = "plug (Frame gd gk gv RED (Node yk yv BLACK yl yr)) (plug (Frame pd pk pv BLACK ps) x)"
      have y_ok: "no_rr (Node yk yv BLACK yl yr)" "bh_ok (Suc n) (Node yk yv BLACK yl yr)"
        using gs y by auto
      have x_ok: "red_sub ?x" "bh_ok (Suc n) ?x"
        using y_ok x xb ps by (auto simp: plug_def red_sub_def)
      have sc: "set_colour BLACK gs = Inr (Node yk yv BLACK yl yr)" using y by (simp add: set_colour_def)
      have ih: "\<exists>t. rebalance_loop ?x rest = Inr t \<and> entries t = entries (up ?x rest) \<and> t \<noteq> Null \<and>
          red_black (blacken t)"
        using 3(1) [of "Node yk yv BLACK yl yr" "Suc n"] x_ok rest True sc p g
        by (simp add: colour_frame_def)
      have "rebalance_loop x (p # g # rest) = rebalance_loop ?x rest"
        using True sc p g by (simp add: colour_frame_def)
      moreover have "entries (up ?x rest) = entries (up x (p # g # rest))"
        unfolding entries_up using p g y by (simp add: plug_def)
      ultimately show ?thesis using ih by metis
    next
      case False
      let ?goal = "\<lambda>y f. rebalance_loop x (p # g # rest) = rebalance_loop y (f # rest) \<and>
        no_rr y \<and> path_rr (f # rest) \<and> bh_ok n y \<and> path_bh n (f # rest) \<and> y \<noteq> Null \<and>
        frame_colour f = BLACK \<and> entries (up y (f # rest)) = entries (up x (p # g # rest))"
      note defs = straighten_left_def straighten_right_def rotate_left_def rotate_right_def
        plug_def colour_frame_def entries_up
      have "\<exists>y f. ?goal y f"
      proof (cases gd; cases pd)
        assume "gd = SLeft" "pd = SLeft"
        then have "?goal x (Frame SLeft pk pv BLACK (Node gk gv RED ps gs))"
          using False x ps gs rest xb by (simp add: p g defs)
        then show ?thesis by blast
      next
        assume "gd = SLeft" "pd = SRight"
        then have "?goal (Node pk pv RED ps xl) (Frame SLeft xk xv BLACK (Node gk gv RED xr gs))"
          using False x ps gs rest xb by (simp add: p g defs)
        then show ?thesis by blast
      next
        assume "gd = SRight" "pd = SLeft"
        then have "?goal (Node pk pv RED xr ps) (Frame SRight xk xv BLACK (Node gk gv RED gs xl))"
          using False x ps gs rest xb by (simp add: p g defs)
        then show ?thesis by blast
      next
        assume "gd = SRight" "pd = SRight"
        then have "?goal x (Frame SRight pk pv BLACK (Node gk gv RED gs ps))"
          using False x ps gs rest xb by (simp add: p g defs)
        then show ?thesis by blast
      qed
      then obtain y f where "?goal y f" by blast
      then show ?thesis using black_parent_done [of y f rest n] by metis
    qed
  qed
qed

lemma rebalance_insert_ok:
  assumes "red_black (up Null fs)" "fs \<noteq> []"
  shows "\<exists>t. rebalance_insert (Node k v RED Null Null) fs = Inr t \<and> red_black t \<and>
    entries t = lefts fs @ (k, v) # rights fs"
proof -
  have ok: "path_rr fs" "path_bh 0 fs" using assms by (auto simp: red_black_up)
  obtain t where "rebalance_loop (Node k v RED Null Null) fs = Inr t" "t \<noteq> Null"
    "entries t = entries (up (Node k v RED Null Null) fs)" "red_black (blacken t)"
    using rebalance_loop_ok [of "Node k v RED Null Null" fs 0] ok by (auto simp: red_sub_def)
  then have "rebalance_insert (Node k v RED Null Null) fs = Inr (blacken t)"
    using set_colour_BLACK [of t] by (simp add: rebalance_insert_def set_colour_def)
  then show ?thesis
    using \<open>entries t = _\<close> \<open>red_black (blacken t)\<close> by (simp add: entries_up)
qed

section \<open>Insertion and lookup\<close>

definition map_inv :: "('k :: linorder, 'v) kmap \<Rightarrow> bool" where
  "map_inv m \<longleftrightarrow> sorted_keys (entries (map_root m)) \<and> red_black (map_root m) \<and>
     map_count m = of_nat (length (entries (map_root m)))"

lemma kmap_try_get_entries: "map_inv m \<Longrightarrow> kmap_try_get key m = map_of (entries (map_root m)) key"
  by (simp add: map_inv_def kmap_try_get_def node_lookup_entries)

lemma kmap_contains_try_get: "kmap_contains_key key m \<longleftrightarrow> kmap_try_get key m \<noteq> None"
  by (simp add: kmap_contains_key_def kmap_try_get_def node_contains_lookup)

lemma kmap_empty_inv: "map_inv kmap_empty"
  by (simp add: map_inv_def kmap_empty_def red_black_def)

lemma sorted_keys_replace:
  assumes "\<forall>a \<in> fst ` set xs. a < k" "\<forall>b \<in> fst ` set ys. k < b"
    and "sorted_keys (xs @ zs @ ys)" and "zs = [] \<or> (\<exists>w. zs = [(k, w)])"
  shows "sorted_keys (xs @ (k, v) # ys) \<and> map_of (xs @ (k, v) # ys) = (map_of (xs @ zs @ ys))(k \<mapsto> v)"
proof
  show "sorted_keys (xs @ (k, v) # ys)"
    using assms by (fastforce simp: sorted_keys_simps)
  have nx: "k \<notin> fst ` set xs" using assms(1) by force
  show "map_of (xs @ (k, v) # ys) = (map_of (xs @ zs @ ys))(k \<mapsto> v)"
  proof
    fix k'
    show "map_of (xs @ (k, v) # ys) k' = ((map_of (xs @ zs @ ys))(k \<mapsto> v)) k'"
    proof (cases "k' = k")
      case True
      then show ?thesis using nx map_of_outside [of k xs "(k, v) # ys"] by (simp del: map_of_append)
    next
      case False
      then show ?thesis using assms(4) by (auto simp: map_add_def split: option.splits)
    qed
  qed
qed

lemma kmap_add_entries:
  assumes "map_inv m"
  shows "\<exists>m'. kmap_add key val m = Inr m' \<and> map_inv m' \<and>
    map_of (entries (map_root m')) = (map_of (entries (map_root m)))(key \<mapsto> val) \<and>
    length (entries (map_root m')) =
      length (entries (map_root m)) + (if kmap_try_get key m = None then 1 else 0)"
proof (cases "map_root m = Null")
  case True
  have "map_count m = 0" using assms True by (simp add: map_inv_def)
  moreover have "red_black (Node key val BLACK Null Null)"
    by (auto simp: red_black_def intro: exI [of _ 1])
  ultimately show ?thesis
    using True by (simp add: kmap_add_def map_inv_def kmap_try_get_def sorted_keys_Cons)
next
  case False
  obtain owner path where fo: "find_owner key (map_root m) [] = (owner, path)" by force
  have inv: "sorted_keys (entries (map_root m))" "red_black (map_root m)"
    "map_count m = of_nat (length (entries (map_root m)))"
    using assms by (simp_all add: map_inv_def)
  have spec: "up owner path = map_root m"
    "\<forall>a \<in> fst ` set (lefts path). a < key" "\<forall>b \<in> fst ` set (rights path). key < b"
    and "\<exists>k v c l r. owner = Node k v c l r \<and> (key < k \<longrightarrow> l = Null) \<and> (k < key \<longrightarrow> r = Null)"
    using find_owner_spec [OF fo False inv(1)] by auto
  then obtain k v c l r where o: "owner = Node k v c l r" "key < k \<Longrightarrow> l = Null" "k < key \<Longrightarrow> r = Null"
    by blast
  have old: "entries (map_root m) = lefts path @ (entries l @ (k, v) # entries r) @ rights path"
    unfolding spec(1) [symmetric] entries_up using o(1) by simp
  have srt: "sorted_keys (entries l @ (k, v) # entries r)"
    using inv(1) unfolding old by (auto simp: sorted_keys_append sorted_keys_Cons)
  have get: "kmap_try_get key m = map_of (entries (map_root m)) key"
    by (rule kmap_try_get_entries [OF assms])
  show ?thesis
  proof (cases "key = k")
    case True
    let ?t = "up (Node k val c l r) path"
    have e: "entries ?t = (lefts path @ entries l) @ (key, val) # (entries r @ rights path)"
      using True by (simp add: entries_up)
    have b: "\<forall>a \<in> fst ` set (lefts path @ entries l). a < key"
      "\<forall>b \<in> fst ` set (entries r @ rights path). key < b"
      using spec(2,3) srt True by (auto simp: sorted_keys_append sorted_keys_Cons)
    have upd: "sorted_keys (entries ?t) \<and>
        map_of (entries ?t) = (map_of (entries (map_root m)))(key \<mapsto> val)"
      unfolding e using sorted_keys_replace [OF b, of "[(key, v)]" val] inv(1) old True by simp
    have rb: "red_black ?t"
      using inv(2) o(1) unfolding spec(1) [symmetric] red_black_up by simp
    have "map_of (entries (map_root m)) key \<noteq> None"
      unfolding map_of_eq_None_iff old using True by simp
    moreover have "kmap_add key val m = Inr (m\<lparr>map_root := ?t\<rparr>)"
      using fo o(1) True by (simp add: kmap_add_def)
    moreover have "length (entries ?t) = length (entries (map_root m))" unfolding e old by simp
    ultimately show ?thesis using upd rb get inv(3) by (simp add: map_inv_def)
  next
    case False
    let ?f = "if key < k then Frame SLeft k v c r else Frame SRight k v c l"
    have pf: "up Null (?f # path) = map_root m"
      using o False spec(1) by (auto simp: plug_def neq_iff)
    have "red_black (up Null (?f # path))" using inv(2) pf by simp
    then obtain t where t: "rebalance_insert (Node key val RED Null Null) (?f # path) = Inr t"
      "red_black t" "entries t = lefts (?f # path) @ (key, val) # rights (?f # path)"
      using rebalance_insert_ok [of "?f # path" key val] by auto
    define L R where LR: "L = lefts (?f # path)" "R = rights (?f # path)"
    have b: "\<forall>a \<in> fst ` set L. a < key" "\<forall>b \<in> fst ` set R. key < b"
      using spec(2,3) srt o False unfolding LR
      by (auto simp: sorted_keys_append sorted_keys_Cons dest: less_trans)
    have old': "entries (map_root m) = L @ [] @ R"
      using entries_up [of Null "?f # path"] pf LR by simp
    have te: "entries t = L @ (key, val) # R" using t(3) LR by simp
    have "sorted_keys (L @ (key, val) # R) \<and>
        map_of (L @ (key, val) # R) = (map_of (L @ [] @ R))(key \<mapsto> val)"
      using inv(1) unfolding old' by (intro sorted_keys_replace [OF b]) simp_all
    then have upd: "sorted_keys (entries t)"
      "map_of (entries t) = (map_of (entries (map_root m)))(key \<mapsto> val)"
      unfolding te old' by simp_all
    have "key \<notin> fst ` set (entries (map_root m))" unfolding old' using b by auto
    then have "map_of (entries (map_root m)) key = None" by (simp add: map_of_eq_None_iff)
    moreover have "kmap_add key val m = Inr (m\<lparr>map_root := t, map_count := map_count m + 1\<rparr>)"
      using fo o(1) False t(1) by (simp add: kmap_add_def Let_def split: if_splits)
    moreover have "length (entries t) = length (entries (map_root m)) + 1"
      unfolding te old' by simp
    ultimately show ?thesis using upd t(2) get inv(3) by (simp add: map_inv_def)
  qed
qed

lemma kmap_add_ok:
  assumes "map_inv m"
  shows "\<exists>m'. kmap_add key val m = Inr m' \<and> map_inv m' \<and>
    (\<forall>k. kmap_try_get k m' = (if k = key then Some val else kmap_try_get k m))"
  using kmap_add_entries [OF assms, of key val] assms by (auto simp: kmap_try_get_entries)

end
