(* ===== verification/KMap_Spec.thy ===== *)
theory KMap_Spec imports KMap_Props "HOL-Library.Multiset" begin

text \<open>
  The interface \<open>key_map\<close> of a map, its interpretation on the red-black tree, and the properties of
  the map: its contents after any sequence of insertions, the length of a search, and the iterator.
\<close>

section \<open>The interface of a map\<close>

fun add_all :: "('k \<Rightarrow> 'v \<Rightarrow> 'm \<Rightarrow> 'm res) \<Rightarrow> ('k \<times> 'v) list \<Rightarrow> 'm \<Rightarrow> 'm res" where
  "add_all add [] m = Inr m"
| "add_all add ((k, v) # kvs) m = res_bind (add k v m) (add_all add kvs)"

locale key_map =
  fixes empty :: 'm
    and add :: "'k \<Rightarrow> 'v \<Rightarrow> 'm \<Rightarrow> 'm res"
    and get :: "'k \<Rightarrow> 'm \<Rightarrow> 'v option"
    and ok :: "'m \<Rightarrow> bool"
  assumes empty_ok: "ok empty"
    and get_empty: "get k empty = None"
    and add_ok: "ok m \<Longrightarrow> \<exists>m'. add k v m = Inr m' \<and> ok m' \<and>
      (\<forall>k'. get k' m' = (if k' = k then Some v else get k' m))"
begin

lemma add_total: "ok m \<Longrightarrow> \<exists>m'. add k v m = Inr m'"
  using add_ok by blast

lemma add_keeps: "ok m \<Longrightarrow> add k v m = Inr m' \<Longrightarrow> ok m'"
  using add_ok [of m k v] by auto

lemma get_add: "ok m \<Longrightarrow> add k v m = Inr m' \<Longrightarrow> get k' m' = (if k' = k then Some v else get k' m)"
  using add_ok [of m k v] by auto

lemma add_all_get:
  "ok m \<Longrightarrow> \<exists>m'. add_all add kvs m = Inr m' \<and> ok m' \<and>
    (\<forall>k. get k m' = (case map_of (rev kvs) k of None \<Rightarrow> get k m | Some v \<Rightarrow> Some v))"
proof (induction kvs arbitrary: m)
  case (Cons kv kvs)
  obtain k v where kv: "kv = (k, v)" by (cases kv)
  obtain m1 where m1: "add k v m = Inr m1" "ok m1"
    "\<forall>k'. get k' m1 = (if k' = k then Some v else get k' m)"
    using add_ok [OF Cons.prems] by blast
  obtain m2 where m2: "add_all add kvs m1 = Inr m2" "ok m2"
    "\<forall>k. get k m2 = (case map_of (rev kvs) k of None \<Rightarrow> get k m1 | Some v \<Rightarrow> Some v)"
    using Cons.IH [OF m1(2)] by blast
  have "get k' m2 = (case map_of (rev (kv # kvs)) k' of None \<Rightarrow> get k' m | Some v \<Rightarrow> Some v)" for k'
    using m2(3) m1(3) kv by (auto simp: map_add_def split: option.splits)
  then show ?case using m1(1) m2(1,2) kv by auto
qed simp

end

interpretation km: key_map kmap_empty kmap_add kmap_try_get map_inv
proof (unfold_locales, goal_cases)
  case 1
  show ?case by (rule kmap_empty_inv)
next
  case (2 k)
  show ?case by (simp add: kmap_try_get_def kmap_empty_def)
next
  case (3 m k v)
  then show ?case by (rule kmap_add_ok)
qed

section \<open>The length of a search\<close>

text \<open>The number of nodes that the search loop of \<open>try_get_value\<close> visits.\<close>

fun search_visits :: "'k :: linorder \<Rightarrow> ('k, 'v) node \<Rightarrow> nat" where
  "search_visits key Null = 0"
| "search_visits key (Node k v c l r) =
     1 + (if key < k then search_visits key l else if key > k then search_visits key r else 0)"

lemma search_visits_bh:
  "bh_ok n t \<Longrightarrow> no_rr t \<Longrightarrow> search_visits key t \<le> 2 * n + (if is_red t then 1 else 0)"
proof (induction n t rule: bh_ok.induct)
  case (2 n k v c l r)
  show ?case
  proof (cases "c = BLACK")
    case True
    then have "search_visits key l \<le> 2 * (n - 1) + 1" "search_visits key r \<le> 2 * (n - 1) + 1"
      using 2 by (auto split: if_splits)
    then show ?thesis using True 2 by auto
  next
    case False
    then have "search_visits key l \<le> 2 * n" "search_visits key r \<le> 2 * n"
      using 2 by auto
    then show ?thesis using False by auto
  qed
qed simp

lemma bh_entries: "bh_ok n t \<Longrightarrow> 2 ^ n \<le> length (entries t) + 1"
proof (induction n t rule: bh_ok.induct)
  case (2 n k v c l r)
  show ?case
  proof (cases "c = BLACK")
    case True
    then have "2 ^ (n - 1) \<le> length (entries l) + 1" "2 ^ (n - 1) \<le> length (entries r) + 1" "0 < n"
      using 2 by auto
    then show ?thesis by (cases n) auto
  next
    case False
    then show ?thesis using 2 by auto
  qed
qed simp

lemma search_visits_inv:
  assumes "map_inv m"
  shows "2 ^ search_visits key (map_root m) \<le> (length (entries (map_root m)) + 1) ^ 2"
proof -
  obtain n where n: "bh_ok n (map_root m)" "no_rr (map_root m)" "\<not> is_red (map_root m)"
    using assms by (auto simp: map_inv_def red_black_def)
  have "search_visits key (map_root m) \<le> 2 * n" using search_visits_bh [OF n(1,2)] n(3) by simp
  then have "(2::nat) ^ search_visits key (map_root m) \<le> (2 ^ n) ^ 2"
    by (simp add: power_mult [symmetric] mult.commute)
  also have "\<dots> \<le> (length (entries (map_root m)) + 1) ^ 2"
    using bh_entries [OF n(1)] by (rule power_mono) simp
  finally show ?thesis .
qed

section \<open>The iterator\<close>

lemma iter_advance_entries:
  "Null \<notin> set q \<Longrightarrow> mset (iter_entries (iter_advance (cur, q))) = mset (concat (map entries q))"
proof (induction "sum_list (map size q)" arbitrary: cur q rule: less_induct)
  case less
  show ?case
  proof (cases q)
    case Nil
    then show ?thesis by (subst iter_entries.simps) (simp add: iter_advance_def)
  next
    case (Cons n q')
    then obtain k v c l r where n: "n = Node k v c l r" using less.prems by (cases n) auto
    let ?q = "q' @ (if l \<noteq> Null then [l] else []) @ (if r \<noteq> Null then [r] else [])"
    have adv: "iter_advance (cur, q) = (n, ?q)" using Cons n by (simp add: iter_advance_def)
    have "sum_list (map size ?q) < sum_list (map size q)" using Cons n by auto
    moreover have "Null \<notin> set ?q" using less.prems Cons by auto
    ultimately have "mset (iter_entries (iter_advance (n, ?q))) = mset (concat (map entries ?q))"
      using less.hyps by blast
    moreover have "mset (concat (map entries ?q)) + {#(k, v)#} = mset (concat (map entries q))"
      using Cons n by (cases "l = Null"; cases "r = Null") auto
    ultimately show ?thesis
      unfolding adv by (subst iter_entries.simps) (simp add: n)
  qed
qed

lemma iter_begin_entries: "mset (iter_entries (iter_begin m)) = mset (entries (map_root m))"
proof (cases "map_root m = Null")
  case True
  then show ?thesis by (subst iter_entries.simps) (simp add: iter_begin_def)
next
  case False
  then show ?thesis
    using iter_advance_entries [of "[map_root m]" "map_root m"] by (simp add: iter_begin_def)
qed

lemma sorted_keys_distinct: "sorted_keys es \<Longrightarrow> distinct (map fst es)"
  by (simp add: sorted_keys_def strict_sorted_iff)

lemma add_all_kmap:
  "\<exists>m. add_all kmap_add kvs kmap_empty = Inr m \<and> map_inv m \<and>
    (\<forall>k. kmap_try_get k m = map_of (rev kvs) k)"
proof -
  obtain m where m: "add_all kmap_add kvs kmap_empty = Inr m" "map_inv m"
    "\<forall>k. kmap_try_get k m = (case map_of (rev kvs) k of None \<Rightarrow> kmap_try_get k kmap_empty | Some v \<Rightarrow> Some v)"
    using km.add_all_get [OF km.empty_ok, of kvs] by (elim exE conjE)
  have "kmap_try_get k m = map_of (rev kvs) k" for k
    using m(3) by (simp add: km.get_empty split: option.splits)
  then show ?thesis using m(1,2) by blast
qed

section \<open>The properties\<close>

text \<open>C17: From an empty map every sequence of insertions succeeds (no rotation fails an assertion or
  reads a null pointer), and a key is found exactly when it was inserted, with the value that was
  inserted last.\<close>

theorem map_contents:
  "\<exists>m. add_all kmap_add kvs kmap_empty = Inr m \<and> map_inv m \<and>
    (\<forall>k. kmap_try_get k m = map_of (rev kvs) k \<and> (kmap_contains_key k m \<longleftrightarrow> k \<in> fst ` set kvs))"
proof -
  obtain m where m: "add_all kmap_add kvs kmap_empty = Inr m" "map_inv m"
    "\<forall>k. kmap_try_get k m = map_of (rev kvs) k"
    using add_all_kmap [of kvs] by (elim exE conjE)
  have "kmap_contains_key k m \<longleftrightarrow> k \<in> fst ` set kvs" for k
    using m(3) by (simp add: kmap_contains_try_get map_of_eq_None_iff)
  then show ?thesis using m by blast
qed

text \<open>C18: After any sequence of insertions a search visits at most twice the binary logarithm of the
  number of keys plus one nodes, and the count of the map is the number of its keys modulo 2^32.\<close>

theorem map_balanced:
  assumes "add_all kmap_add kvs kmap_empty = Inr m"
  shows "2 ^ search_visits key (map_root m) \<le> (card (fst ` set kvs) + 1) ^ 2 \<and>
    map_count m = of_nat (card (fst ` set kvs))"
proof -
  have inv: "map_inv m" and get: "kmap_try_get k m = map_of (rev kvs) k" for k
    using add_all_kmap [of kvs] assms by auto
  let ?es = "entries (map_root m)"
  have "dom (map_of ?es) = dom (map_of (rev kvs))"
    using get kmap_try_get_entries [OF inv] by (simp add: dom_def)
  then have "fst ` set ?es = fst ` set kvs" by (simp add: dom_map_of_conv_image_fst)
  moreover have "card (fst ` set ?es) = length ?es"
    using inv distinct_card [OF sorted_keys_distinct, of ?es] by (simp add: map_inv_def)
  ultimately have len: "length ?es = card (fst ` set kvs)" by simp
  have "map_count m = of_nat (length ?es)" using inv by (simp add: map_inv_def)
  then show ?thesis using search_visits_inv [OF inv, of key] unfolding len by simp
qed

lemma map_balanced_witness:
  "let m = (case add_all kmap_add [(1::int, ''a''), (2, ''b''), (3, ''c''), (4, ''d'')] kmap_empty of
              Inr m \<Rightarrow> m | Inl e \<Rightarrow> kmap_empty)
   in 2 ^ search_visits 4 (map_root m) \<le> ((4::nat) + 1) ^ 2 \<and> map_count m = 4"
proof -
  obtain m where m: "add_all kmap_add [(1::int, ''a''), (2, ''b''), (3, ''c''), (4, ''d'')] kmap_empty = Inr m"
    using add_all_kmap [of "[(1::int, ''a''), (2, ''b''), (3, ''c''), (4, ''d'')]"] by (elim exE conjE)
  show ?thesis using map_balanced [OF m, of 4] unfolding m Let_def by (auto simp: power2_eq_square)
qed

text \<open>A range loop over a map that satisfies its invariant ends and sees every entry of the map
  exactly once.\<close>

theorem map_iteration:
  assumes "map_inv m"
  shows "set (iter_entries (iter_begin m)) = {(k, v). kmap_try_get k m = Some v} \<and>
    distinct (map fst (iter_entries (iter_begin m))) \<and>
    map_count m = of_nat (length (iter_entries (iter_begin m)))"
proof -
  let ?it = "iter_entries (iter_begin m)" and ?es = "entries (map_root m)"
  have ms: "mset ?it = mset ?es" by (rule iter_begin_entries)
  have d: "distinct (map fst ?es)" using assms by (simp add: map_inv_def sorted_keys_distinct)
  have "mset (map fst ?it) = mset (map fst ?es)" using ms by (metis mset_map)
  then have "distinct (map fst ?it)" using d by (metis mset_eq_imp_distinct_iff)
  moreover have "set ?it = {(k, v). kmap_try_get k m = Some v}"
    unfolding mset_eq_setD [OF ms] kmap_try_get_entries [OF assms] map_of_eq_Some_iff [OF d] by blast
  moreover have "map_count m = of_nat (length ?it)"
    using assms mset_eq_length [OF ms] by (simp add: map_inv_def)
  ultimately show ?thesis by blast
qed

lemma map_iteration_witness:
  "\<exists>m. add_all kmap_add [(5::int, True), (3, False), (5, False)] kmap_empty = Inr m \<and>
    set (iter_entries (iter_begin m)) = {(5, False), (3, False)}"
proof -
  obtain m where m: "add_all kmap_add [(5::int, True), (3, False), (5, False)] kmap_empty = Inr m" "map_inv m"
    "\<forall>k. kmap_try_get k m = map_of (rev [(5, True), (3, False), (5, False)]) k"
    using add_all_kmap [of "[(5::int, True), (3, False), (5, False)]"] by (elim exE conjE)
  have "{(k, v). kmap_try_get k m = Some v} = {(5, False), (3, False)}"
    using m(3) by (simp add: set_eq_iff)
  moreover have "set (iter_entries (iter_begin m)) = {(k, v). kmap_try_get k m = Some v}"
    using map_iteration [OF m(2)] by (rule conjunct1)
  ultimately show ?thesis using m(1) by metis
qed

end
