(* ===== verification/VMA.thy ===== *)
theory VMA imports Page_Allocator Kernel_List begin

unbundle bit_operations_syntax

text \<open>
  Address spaces (infos/mm/vma.cpp): the four levels of page tables that a VMA builds in pages of
  the page allocator.  The physical memory that holds tables is a function from the address of a
  64-bit entry to its bits.  Accesses go through the window \<open>pa_to_vpa\<close>, whose assertion is checked
  where the source applies it.
\<close>

section \<open>State\<close>

record machine =
  mem_pages :: pmem
  phys_mem :: "u64 \<Rightarrow> u64"

record vma =
  page_allocations :: "(nat \<times> nat) klist"
  pgt_phys_base :: u64

definition pgd_to_pa :: "nat \<Rightarrow> u64" where
  "pgd_to_pa pgd = pfn_to_pa (of_nat pgd)"

definition pgd_to_vpa :: "nat \<Rightarrow> u64 res" where
  "pgd_to_vpa pgd = pa_to_vpa (pgd_to_pa pgd)"

text \<open>\<open>pnzero\<close> on the pages of a block.\<close>

definition pnzero :: "(u64 \<Rightarrow> u64) \<Rightarrow> u64 \<Rightarrow> nat \<Rightarrow> u64 \<Rightarrow> u64" where
  "pnzero mem pa n = (\<lambda>a. if unat pa \<le> unat a \<and> unat a < unat pa + 4096 * n then 0 else mem a)"

section \<open>Table indices and entries\<close>

definition BITS :: "u64 \<Rightarrow> nat \<Rightarrow> nat \<Rightarrow> u64" where
  "BITS val start end = drop_bit start val AND (2 ^ (end - start + 1) - 1)"

definition va_table_indicies :: "u64 \<Rightarrow> u16 \<times> u16 \<times> u16 \<times> u16" where
  "va_table_indicies va =
     (ucast (BITS va 39 47), ucast (BITS va 30 38), ucast (BITS va 21 29), ucast (BITS va 12 20))"

definition entry_addr :: "u64 \<Rightarrow> u16 \<Rightarrow> u64" where
  "entry_addr table idx = table + 8 * ucast idx"

definition entry_base :: "u64 \<Rightarrow> u64" where
  "entry_base bits = bits AND NOT 0xfff"

definition set_base :: "u64 \<Rightarrow> u64 \<Rightarrow> u64" where
  "set_base addr bits = (bits AND 0xfff) OR (addr AND NOT 0xfff)"

definition entry_flags :: "u64 \<Rightarrow> u16" where
  "entry_flags bits = ucast (bits AND 0xfff)"

definition set_flags :: "u16 \<Rightarrow> u64 \<Rightarrow> u64" where
  "set_flags fl bits = (bits AND NOT 0xfff) OR (ucast (fl AND 0xfff))"

definition get_flag :: "nat \<Rightarrow> u64 \<Rightarrow> bool" where
  "get_flag idx bits \<longleftrightarrow> entry_flags bits AND push_bit idx 1 \<noteq> 0"

definition set_flag :: "nat \<Rightarrow> bool \<Rightarrow> u64 \<Rightarrow> u64" where
  "set_flag idx v bits =
     (if \<not> v then set_flags (entry_flags bits AND NOT (push_bit idx 1)) bits
      else set_flags (entry_flags bits OR push_bit idx 1) bits)"

definition PRESENT :: nat where "PRESENT = 0"
definition WRITABLE :: nat where "WRITABLE = 1"
definition ALLOW_USER :: nat where "ALLOW_USER = 2"
definition HUGE :: nat where "HUGE = 7"

text \<open>The flags of a mapping.\<close>

definition MF_PRESENT :: u64 where "MF_PRESENT = 1"
definition MF_USER :: u64 where "MF_USER = 2"
definition MF_WRITABLE :: u64 where "MF_WRITABLE = 4"

section \<open>Operations\<close>

text \<open>
  \<open>allocate_phys\<close> records the block and clears its pages; it returns the descriptor or null.
\<close>

definition allocate_phys ::
    "page_algo option \<Rightarrow> nat \<Rightarrow> vma \<times> machine \<Rightarrow> (nat option \<times> vma \<times> machine) res" where
  "allocate_phys algo order s =
     (let (v, m) = s in
      res_bind (pgalloc_alloc algo (mem_pages m) order) (\<lambda>(pgd, pm).
      let m1 = m\<lparr>mem_pages := pm\<rparr> in
      case pgd of
        None \<Rightarrow> Inr (None, v, m1)
      | Some p \<Rightarrow>
          let v1 = v\<lparr>page_allocations := klist_append (page_allocations v) (p, order)\<rparr> in
          res_bind (pgd_to_vpa p) (\<lambda>_.
            Inr (Some p, v1, m1\<lparr>phys_mem := pnzero (phys_mem m1) (pgd_to_pa p) (2 ^ order)\<rparr>))))"

definition vma_new :: "page_algo option \<Rightarrow> machine \<Rightarrow> (vma \<times> machine) res" where
  "vma_new algo m =
     res_bind (allocate_phys algo 0 (\<lparr>page_allocations = klist_new, pgt_phys_base = 0\<rparr>, m)) (\<lambda>(pgd, v, m1).
     case pgd of
       None \<Rightarrow> Inl Assert_Fail
     | Some p \<Rightarrow> res_bind (pgd_to_vpa p) (\<lambda>_. Inr (v\<lparr>pgt_phys_base := pgd_to_pa p\<rparr>, m1)))"

definition install_default_kernel_mapping :: "(u64 \<Rightarrow> u64) option \<Rightarrow> vma \<times> machine \<Rightarrow> machine res" where
  "install_default_kernel_mapping template_pml4 s =
     (let (v, m) = s; pgt = pgt_phys_base v in
      case template_pml4 of
        None \<Rightarrow> Inl Assert_Fail
      | Some tpl \<Rightarrow>
          Inr (m\<lparr>phys_mem := (phys_mem m)(entry_addr pgt 0x1ff := tpl 0x1ff, entry_addr pgt 0x100 := tpl 0x100)\<rparr>))"

text \<open>One level of \<open>insert_mapping\<close>: the entry gets a new table when it has none.\<close>

definition ensure_table :: "page_algo option \<Rightarrow> u64 \<Rightarrow> vma \<times> machine \<Rightarrow> (vma \<times> machine) res" where
  "ensure_table algo e s =
     (if entry_base (phys_mem (snd s) e) = 0 then
        res_bind (allocate_phys algo 0 s) (\<lambda>(pgd, v, m).
        case pgd of
          None \<Rightarrow> Inl Assert_Fail
        | Some p \<Rightarrow>
            let bits = set_base (pgd_to_pa p) (phys_mem m e);
                bits = set_flag PRESENT True bits;
                bits = set_flag WRITABLE True bits;
                bits = set_flag ALLOW_USER True bits
            in Inr (v, m\<lparr>phys_mem := (phys_mem m)(e := bits)\<rparr>))
      else Inr s)"

text \<open>The new bits of a leaf entry: the flags are only ever set.\<close>

definition leaf_bits :: "u64 \<Rightarrow> u64 \<Rightarrow> u64 \<Rightarrow> u64" where
  "leaf_bits pa flags bits =
     (let bits = set_base pa bits;
          bits = (if flags AND MF_PRESENT \<noteq> 0 then set_flag PRESENT True bits else bits);
          bits = (if flags AND MF_WRITABLE \<noteq> 0 then set_flag WRITABLE True bits else bits)
      in (if flags AND MF_USER \<noteq> 0 then set_flag ALLOW_USER True bits else bits))"

definition insert_mapping ::
    "page_algo option \<Rightarrow> u64 \<Rightarrow> u64 \<Rightarrow> u64 \<Rightarrow> vma \<times> machine \<Rightarrow> (vma \<times> machine) res" where
  "insert_mapping algo va pa flags s =
     (let (i1, i2, i3, i4) = va_table_indicies va;
          pml4 = entry_addr (pgt_phys_base (fst s)) i1
      in res_bind (ensure_table algo pml4 s) (\<lambda>s.
         let t2 = entry_base (phys_mem (snd s) pml4); pdp = entry_addr t2 i2 in
         res_bind (pa_to_vpa t2) (\<lambda>_.
         res_bind (ensure_table algo pdp s) (\<lambda>s.
         let t3 = entry_base (phys_mem (snd s) pdp); pd = entry_addr t3 i3 in
         res_bind (pa_to_vpa t3) (\<lambda>_.
         res_bind (ensure_table algo pd s) (\<lambda>(v, m).
         let t4 = entry_base (phys_mem m pd); pt = entry_addr t4 i4 in
         res_bind (pa_to_vpa t4) (\<lambda>_.
           Inr (v, m\<lparr>phys_mem := (phys_mem m)(pt := leaf_bits pa flags (phys_mem m pt))\<rparr>))))))))"

definition get_mapping :: "u64 \<Rightarrow> vma \<times> machine \<Rightarrow> u64 option res" where
  "get_mapping va s =
     (let (i1, i2, i3, i4) = va_table_indicies va; mem = phys_mem (snd s);
          pml4 = mem (entry_addr (pgt_phys_base (fst s)) i1)
      in if \<not> get_flag PRESENT pml4 then Inr None
         else res_bind (pa_to_vpa (entry_base pml4)) (\<lambda>_.
           let pdp = mem (entry_addr (entry_base pml4) i2) in
           if \<not> get_flag PRESENT pdp then Inr None
           else res_bind (pa_to_vpa (entry_base pdp)) (\<lambda>_.
             let pd = mem (entry_addr (entry_base pdp) i3) in
             if \<not> get_flag PRESENT pd then Inr None
             else res_bind (pa_to_vpa (entry_base pd)) (\<lambda>_.
               let pt = mem (entry_addr (entry_base pd) i4) in
               if \<not> get_flag PRESENT pt then Inr None
               else Inr (Some (entry_base pt OR page_offset va))))))"

definition is_mapped :: "u64 \<Rightarrow> vma \<times> machine \<Rightarrow> bool res" where
  "is_mapped va s = res_bind (get_mapping va s) (\<lambda>r. Inr (r \<noteq> None))"

text \<open>\<open>copy_to\<close>: the physical bytes it writes, in order, or nothing when the address is not mapped.\<close>

definition copy_to :: "u64 \<Rightarrow> u8 list \<Rightarrow> vma \<times> machine \<Rightarrow> (u64 \<times> u8) list option res" where
  "copy_to dest_va src s =
     res_bind (get_mapping dest_va s) (\<lambda>r.
     case r of
       None \<Rightarrow> Inr None
     | Some pa \<Rightarrow>
         res_bind (pa_to_vpa pa) (\<lambda>_. Inr (Some (map (\<lambda>i. (pa + of_nat i, src ! i)) [0..<length src]))))"

text \<open>The loop of \<open>allocate_virt\<close> over \<open>n\<close> pages, and the operation.\<close>

fun map_pages :: "page_algo option \<Rightarrow> nat \<Rightarrow> u64 \<Rightarrow> u64 \<Rightarrow> vma \<times> machine \<Rightarrow> (vma \<times> machine) res" where
  "map_pages algo 0 vbase pbase s = Inr s"
| "map_pages algo (Suc n) vbase pbase s =
     res_bind (insert_mapping algo vbase pbase (MF_PRESENT OR MF_USER OR MF_WRITABLE) s)
       (map_pages algo n (vbase + 0x1000) (pbase + 0x1000))"

definition allocate_virt ::
    "page_algo option \<Rightarrow> u64 \<Rightarrow> i32 \<Rightarrow> vma \<times> machine \<Rightarrow> (bool \<times> vma \<times> machine) res" where
  "allocate_virt algo va nr s =
     (if nr = 0 then Inr (False, s)
      else let order = unat (log2ceil (scast nr)) in
        res_bind (allocate_phys algo order s) (\<lambda>(pgd, s1).
        case pgd of
          None \<Rightarrow> Inr (False, s1)
        | Some p \<Rightarrow> res_bind (map_pages algo (2 ^ order) va (pgd_to_pa p) s1) (\<lambda>s2. Inr (True, s2))))"

definition allocate_virt_any :: "i32 \<Rightarrow> bool" where
  "allocate_virt_any nr = False"

section \<open>The listing of the mappings\<close>

text \<open>
  \<open>dump\<close> walks the tables and logs each mapping; it shifts the indices by 36, 28, 20 and 12 bits,
  where the tables are indexed from bit 39, 30, 21 and 12.
\<close>

definition dump_va :: "u16 \<Rightarrow> u16 \<Rightarrow> u16 \<Rightarrow> u16 \<Rightarrow> u64" where
  "dump_va pml4 pdp pd pt =
     push_bit 36 (ucast pml4) OR push_bit 28 (ucast pdp) OR push_bit 20 (ucast pd) OR push_bit 12 (ucast pt)"

definition present_entries :: "(u64 \<Rightarrow> u64) \<Rightarrow> u64 \<Rightarrow> (u16 \<times> u64) list" where
  "present_entries mem table =
     filter (\<lambda>(i, e). get_flag PRESENT e)
       (map (\<lambda>i. (of_nat i, mem (entry_addr table (of_nat i)))) [0..<0x200])"

fun concat_res :: "('a \<Rightarrow> 'b list res) \<Rightarrow> 'a list \<Rightarrow> 'b list res" where
  "concat_res f [] = Inr []"
| "concat_res f (x # xs) = res_bind (f x) (\<lambda>ys. res_bind (concat_res f xs) (\<lambda>zs. Inr (ys @ zs)))"

definition dump_pt :: "(u64 \<Rightarrow> u64) \<Rightarrow> u16 \<Rightarrow> u16 \<Rightarrow> u16 \<Rightarrow> u64 \<Rightarrow> (u64 \<times> u64) list" where
  "dump_pt mem pml4 pdp pd table =
     map (\<lambda>(i, e). (dump_va pml4 pdp pd i, entry_base e)) (present_entries mem table)"

definition dump_pd :: "(u64 \<Rightarrow> u64) \<Rightarrow> u16 \<Rightarrow> u16 \<Rightarrow> u64 \<Rightarrow> (u64 \<times> u64) list res" where
  "dump_pd mem pml4 pdp table =
     concat_res (\<lambda>(i, e).
         if get_flag HUGE e then Inr [(dump_va pml4 pdp i 0, entry_base e)]
         else res_bind (pa_to_vpa (entry_base e)) (\<lambda>_. Inr (dump_pt mem pml4 pdp i (entry_base e))))
       (present_entries mem table)"

definition dump_pdp :: "(u64 \<Rightarrow> u64) \<Rightarrow> u16 \<Rightarrow> u64 \<Rightarrow> (u64 \<times> u64) list res" where
  "dump_pdp mem pml4 table =
     concat_res (\<lambda>(i, e).
         if get_flag HUGE e then Inr [(dump_va pml4 i 0 0, entry_base e)]
         else res_bind (pa_to_vpa (entry_base e)) (\<lambda>_. dump_pd mem pml4 i (entry_base e)))
       (present_entries mem table)"

definition vma_dump :: "vma \<times> machine \<Rightarrow> (u64 \<times> u64) list res" where
  "vma_dump s =
     concat_res (\<lambda>(i, e).
         if get_flag HUGE e then Inr [(dump_va i 0 0 0, entry_base e)]
         else res_bind (pa_to_vpa (entry_base e)) (\<lambda>_. dump_pdp (phys_mem (snd s)) i (entry_base e)))
       (present_entries (phys_mem (snd s)) (pgt_phys_base (fst s)))"

end
