(* ===== verification/VMA_Bits.thy ===== *)
theory VMA_Bits imports VMA begin

text \<open>
  The words of the page tables: which bits the accessors of an entry read and write, the addresses
  of pages and entries, and the table indices of an address.
\<close>

section \<open>Entries\<close>

lemma low12: "(0xfff :: u64) = mask 12" "(0xfff :: u16) = mask 12"
  by (simp_all add: mask_eq_exp_minus_1)

lemma bit_entry_base: "bit (entry_base b) n \<longleftrightarrow> bit b n \<and> 12 \<le> n \<and> n < 64"
  unfolding entry_base_def low12
  using bit_imp_le_length [of b n] by (auto simp: bit_and_iff bit_not_iff bit_mask_iff)

lemma bit_set_base: "bit (set_base a b) n \<longleftrightarrow> (if n < 12 then bit b n else bit a n)"
  unfolding set_base_def low12
  using bit_imp_le_length [of a n] bit_imp_le_length [of b n]
  by (auto simp: bit_and_iff bit_or_iff bit_not_iff bit_mask_iff)

lemma bit_entry_flags: "bit (entry_flags b) n \<longleftrightarrow> bit b n \<and> n < 12"
  unfolding entry_flags_def low12
  by (auto simp: bit_and_iff bit_mask_iff bit_ucast_iff)

lemma bit_set_flags: "bit (set_flags f b) n \<longleftrightarrow> (if n < 12 then bit f n else bit b n)"
  unfolding set_flags_def low12
  using bit_imp_le_length [of b n]
  by (auto simp: bit_and_iff bit_or_iff bit_not_iff bit_mask_iff bit_ucast_iff)

lemma bit_flag: "bit ((2 :: u16) ^ i) n \<longleftrightarrow> n = i \<and> i < 16"
  by (auto simp: bit_exp_iff)

lemma get_flag_bit: "i < 12 \<Longrightarrow> get_flag i b \<longleftrightarrow> bit b i"
proof -
  assume i: "i < 12"
  have "bit (entry_flags b AND push_bit i 1) n \<longleftrightarrow> n = i \<and> bit b i" for n
    using i by (auto simp: bit_and_iff bit_entry_flags bit_flag)
  then have "entry_flags b AND push_bit i 1 \<noteq> 0 \<longleftrightarrow> bit b i"
    by (metis bit_word_eqI bit_0_eq bot_apply bot_bool_def)
  then show ?thesis by (simp add: get_flag_def)
qed

lemma bit_set_flag:
  "i < 12 \<Longrightarrow> bit (set_flag i v b) n \<longleftrightarrow> (if n = i then v else bit b n)"
  by (auto simp: set_flag_def bit_set_flags bit_entry_flags bit_and_iff bit_or_iff bit_not_iff bit_flag)

lemma entry_base_set_base [simp]: "entry_base (set_base a b) = entry_base a"
  by (intro bit_word_eqI) (simp add: bit_entry_base bit_set_base)

lemma entry_base_set_flag [simp]: "i < 12 \<Longrightarrow> entry_base (set_flag i v b) = entry_base b"
  by (intro bit_word_eqI) (auto simp: bit_entry_base bit_set_flag)

lemma get_flag_set_flag [simp]:
  "i < 12 \<Longrightarrow> j < 12 \<Longrightarrow> get_flag i (set_flag j v b) \<longleftrightarrow> (if i = j then v else get_flag i b)"
  by (simp add: get_flag_bit bit_set_flag)

lemma get_flag_set_base [simp]: "i < 12 \<Longrightarrow> get_flag i (set_base a b) \<longleftrightarrow> get_flag i b"
  by (simp add: get_flag_bit bit_set_base)

lemma flag_numbers [simp]:
  "PRESENT < 12" "WRITABLE < 12" "ALLOW_USER < 12" "PRESENT \<noteq> WRITABLE" "PRESENT \<noteq> ALLOW_USER"
  "WRITABLE \<noteq> ALLOW_USER" "WRITABLE \<noteq> PRESENT" "ALLOW_USER \<noteq> PRESENT" "ALLOW_USER \<noteq> WRITABLE"
  by (simp_all add: PRESENT_def WRITABLE_def ALLOW_USER_def)

lemma entry_zero [simp]: "entry_base 0 = 0" "i < 12 \<Longrightarrow> \<not> get_flag i 0"
  by (simp_all add: entry_base_def get_flag_bit)

lemma entry_base_idem [simp]: "entry_base (entry_base b) = entry_base b"
  by (intro bit_word_eqI) (simp add: bit_entry_base)

lemma entry_base_leaf_bits [simp]: "entry_base (leaf_bits pa flags b) = entry_base pa"
  by (simp add: leaf_bits_def Let_def)

lemma get_flag_leaf_bits [simp]:
  "get_flag PRESENT (leaf_bits pa flags b) \<longleftrightarrow> flags AND MF_PRESENT \<noteq> 0 \<or> get_flag PRESENT b"
  "get_flag WRITABLE (leaf_bits pa flags b) \<longleftrightarrow> flags AND MF_WRITABLE \<noteq> 0 \<or> get_flag WRITABLE b"
  "get_flag ALLOW_USER (leaf_bits pa flags b) \<longleftrightarrow> flags AND MF_USER \<noteq> 0 \<or> get_flag ALLOW_USER b"
  by (simp_all add: leaf_bits_def Let_def)

section \<open>Addresses of pages and entries\<close>

lemma unat_pgd_to_pa: "p < 2 ^ 52 \<Longrightarrow> unat (pgd_to_pa p) = 4096 * p"
proof -
  assume p: "p < 2 ^ 52"
  then have u: "unat (of_nat p :: u64) = p" by (intro unat_of_nat_u64) simp
  show ?thesis
    using p by (simp add: pgd_to_pa_def pfn_to_pa_def push_bit_eq_mult unat_word_ariths u mult.commute)
qed

lemma entry_base_pgd_to_pa: "entry_base (pgd_to_pa p) = pgd_to_pa p"
  by (intro bit_word_eqI)
    (auto simp: bit_entry_base pgd_to_pa_def pfn_to_pa_def bit_push_bit_iff)

lemma pgd_to_pa_inj: "p < 2 ^ 52 \<Longrightarrow> q < 2 ^ 52 \<Longrightarrow> pgd_to_pa p = pgd_to_pa q \<longleftrightarrow> p = q"
  by (metis unat_pgd_to_pa mult_cancel1 zero_neq_numeral)

lemma pgd_to_pa_zero: "p < 2 ^ 52 \<Longrightarrow> pgd_to_pa p = 0 \<longleftrightarrow> p = 0"
  using pgd_to_pa_inj [of p 0] by (simp add: pgd_to_pa_def pfn_to_pa_def)

lemma pgd_window: "p < 2 ^ 20 \<Longrightarrow> pa_to_vpa (pgd_to_pa p) = Inr (PMEM_VA_START + pgd_to_pa p)"
  by (simp add: pa_to_vpa_def word_less_nat_alt unat_pgd_to_pa PMEM_VA_SIZE_def PMEM_VA_START_def
      PMEM_VA_END_def)

lemma unat_entry_addr:
  assumes "p < 2 ^ 50" "unat i < 512"
  shows "unat (entry_addr (pgd_to_pa p) i) = 4096 * p + 8 * unat i"
proof -
  have "unat (ucast i :: u64) = unat i"
    by (simp add: unsigned_ucast_eq take_bit_nat_eq_self less_le_trans [OF unsigned_less [of i, where ?'a = nat]])
  then show ?thesis
    using assms unat_pgd_to_pa [of p] by (simp add: entry_addr_def unat_word_ariths)
qed

lemma entry_addr_inj:
  assumes "p < 2 ^ 50" "q < 2 ^ 50" "unat i < 512" "unat j < 512"
  shows "entry_addr (pgd_to_pa p) i = entry_addr (pgd_to_pa q) j \<longleftrightarrow> p = q \<and> i = j"
proof
  assume "entry_addr (pgd_to_pa p) i = entry_addr (pgd_to_pa q) j"
  then have e: "4096 * p + 8 * unat i = 4096 * q + 8 * unat j"
    using unat_entry_addr assms by metis
  then have "p = q" using assms(3,4) by linarith
  with e show "p = q \<and> i = j" by (simp add: word_unat_eq_iff)
qed simp

lemma pnzero_entry:
  assumes "q < 2 ^ 50" "p < 2 ^ 50" "unat i < 512"
  shows "pnzero mem (pgd_to_pa p) n (entry_addr (pgd_to_pa q) i) =
    (if p \<le> q \<and> q < p + n then 0 else mem (entry_addr (pgd_to_pa q) i))"
proof -
  have "4096 * p \<le> 4096 * q + 8 * unat i \<longleftrightarrow> p \<le> q" using assms(3) by linarith
  moreover have "4096 * q + 8 * unat i < 4096 * p + 4096 * n \<longleftrightarrow> q < p + n" using assms(3) by linarith
  ultimately show ?thesis
    using assms unat_pgd_to_pa [of p] by (simp add: pnzero_def unat_entry_addr)
qed

section \<open>Table indices\<close>

lemma unat_BITS:
  assumes "start \<le> end" "end < 64"
  shows "unat (BITS va start end) = unat va div 2 ^ start mod 2 ^ (end - start + 1)"
proof -
  have "BITS va start end = take_bit (end - start + 1) (drop_bit start va)"
    by (simp add: BITS_def take_bit_eq_mask mask_eq_exp_minus_1)
  then have "unat (BITS va start end) = take_bit (end - start + 1) (drop_bit start (unat va))"
    by (simp only: unsigned_take_bit_eq unat_drop_bit_eq)
  then show ?thesis by (simp add: take_bit_eq_mod drop_bit_eq_div)
qed

lemma unat_index:
  assumes "start \<le> end" "end - start = 8" "end < 64"
  shows "unat (ucast (BITS va start end) :: u16) = unat va div 2 ^ start mod 512"
proof -
  have "unat (BITS va start end) = unat va div 2 ^ start mod 512"
    using unat_BITS [of start "end" va] assms by simp
  moreover have "unat va div 2 ^ start mod 512 < 512" by simp
  ultimately show ?thesis by (simp add: unsigned_ucast_eq take_bit_nat_eq_self)
qed

lemma va_indices:
  assumes "va_table_indicies va = (i1, i2, i3, i4)"
  shows "unat i1 = unat va div 2 ^ 39 mod 512" "unat i2 = unat va div 2 ^ 30 mod 512"
    "unat i3 = unat va div 2 ^ 21 mod 512" "unat i4 = unat va div 2 ^ 12 mod 512"
  using assms by (auto simp: va_table_indicies_def unat_index)

text \<open>The four indices are the digits of the page number modulo 2^36.\<close>

lemma four_digits:
  "n mod 2 ^ 36 = (((n div 2 ^ 27 mod 512) * 512 + n div 2 ^ 18 mod 512) * 512 + n div 2 ^ 9 mod 512) * 512 + n mod 512"
  for n :: nat
proof -
  have step: "n mod (512 * m) = 512 * (n div 512 mod m) + n mod 512" for n m :: nat
    by (simp add: mod_mult2_eq)
  have "n mod 2 ^ 36 = 512 * (n div 512 mod 2 ^ 27) + n mod 512"
    using step [of n "2 ^ 27"] by simp
  also have "n div 512 mod 2 ^ 27 = 512 * (n div 512 div 512 mod 2 ^ 18) + n div 512 mod 512"
    using step [of "n div 512" "2 ^ 18"] by simp
  also have "n div 512 div 512 mod 2 ^ 18 = 512 * (n div 512 div 512 div 512 mod 512) + n div 512 div 512 mod 512"
    using step [of "n div 512 div 512" 512] by simp
  finally show ?thesis by (simp add: div_mult2_eq [symmetric] algebra_simps)
qed

lemma va_indices_page:
  assumes "va_table_indicies va = (i1, i2, i3, i4)"
  shows "unat va div 4096 mod 2 ^ 36 = ((unat i1 * 512 + unat i2) * 512 + unat i3) * 512 + unat i4"
  unfolding va_indices [OF assms] four_digits by (simp add: div_mult2_eq [symmetric])

lemma digit_eq:
  assumes "a * 512 + b = c * 512 + d" "b < 512" "d < 512"
  shows "a = c \<and> b = (d :: nat)"
proof -
  have "(a * 512 + b) div 512 = (c * 512 + d) div 512" "(a * 512 + b) mod 512 = (c * 512 + d) mod 512"
    using assms(1) by simp_all
  then show ?thesis using assms(2,3) by simp
qed

lemma va_indices_eq_iff:
  "va_table_indicies va = va_table_indicies wa \<longleftrightarrow> unat va div 4096 mod 2 ^ 36 = unat wa div 4096 mod 2 ^ 36"
proof
  obtain i1 i2 i3 i4 where i: "va_table_indicies va = (i1, i2, i3, i4)" by (cases "va_table_indicies va")
  obtain j1 j2 j3 j4 where j: "va_table_indicies wa = (j1, j2, j3, j4)" by (cases "va_table_indicies wa")
  { assume "va_table_indicies va = va_table_indicies wa"
    then show "unat va div 4096 mod 2 ^ 36 = unat wa div 4096 mod 2 ^ 36"
      using va_indices_page [OF i] va_indices_page [OF j] i j by simp }
  assume e: "unat va div 4096 mod 2 ^ 36 = unat wa div 4096 mod 2 ^ 36"
  have lt: "unat i1 < 512" "unat i2 < 512" "unat i3 < 512" "unat i4 < 512"
    "unat j1 < 512" "unat j2 < 512" "unat j3 < 512" "unat j4 < 512"
    unfolding va_indices [OF i] va_indices [OF j] by simp_all
  have "((unat i1 * 512 + unat i2) * 512 + unat i3) * 512 + unat i4 =
      ((unat j1 * 512 + unat j2) * 512 + unat j3) * 512 + unat j4"
    using e unfolding va_indices_page [OF i] va_indices_page [OF j] .
  from digit_eq [OF this lt(4,8)]
  have d3: "(unat i1 * 512 + unat i2) * 512 + unat i3 = (unat j1 * 512 + unat j2) * 512 + unat j3"
    and d4: "unat i4 = unat j4" by simp_all
  from digit_eq [OF d3 lt(3,7)] have d2: "unat i1 * 512 + unat i2 = unat j1 * 512 + unat j2"
    and "unat i3 = unat j3" by simp_all
  with digit_eq [OF d2 lt(2,6)] d4
  have "unat i1 = unat j1 \<and> unat i2 = unat j2 \<and> unat i3 = unat j3 \<and> unat i4 = unat j4" by simp
  then show "va_table_indicies va = va_table_indicies wa" using i j by (simp add: word_unat_eq_iff)
qed

end
