(* ===== verification/VMA_Props.thy ===== *)
theory VMA_Props imports VMA_Bits begin

text \<open>
  The page tables of a VMA as a tree: the table at a path of indices, the invariant that tables are
  allocated frames reached by one path only, and the abstract view \<open>leaf\<close>, the entry bits per path
  and index, on which the operations act as updates of a function.
\<close>

section \<open>Tables along a path\<close>

definition child :: "(u64 \<Rightarrow> u64) \<Rightarrow> u64 \<Rightarrow> u16 \<Rightarrow> u64 option" where
  "child mem t i = (let b = entry_base (mem (entry_addr t i)) in if b = 0 then None else Some b)"

fun table_at :: "(u64 \<Rightarrow> u64) \<Rightarrow> u64 \<Rightarrow> u16 list \<Rightarrow> u64 option" where
  "table_at mem root [] = Some root"
| "table_at mem root (i # ix) = (case table_at mem root ix of None \<Rightarrow> None | Some t \<Rightarrow> child mem t i)"

text \<open>
  A path lists the indices from the last level to the first.  Paths of user addresses avoid the two
  entries of the top level that hold the kernel's own tables.
\<close>

definition upath :: "u16 list \<Rightarrow> bool" where
  "upath ix \<longleftrightarrow> length ix \<le> 3 \<and> (\<forall>i \<in> set ix. unat i < 512) \<and>
     (ix \<noteq> [] \<longrightarrow> last ix \<noteq> 0x100 \<and> last ix \<noteq> 0x1ff)"

definition is_frame :: "pmem \<Rightarrow> u64 \<Rightarrow> bool" where
  "is_frame m t \<longleftrightarrow> (\<exists>p. t = pgd_to_pa p \<and> p < nr_pages m \<and> 0 < p \<and> page_type m p = ALLOCATED)"

text \<open>Machines whose page 0 is never handed out and whose frames lie in the 4 GiB window.\<close>

definition frames_ok :: "pmem \<Rightarrow> bool" where
  "frames_ok m \<longleftrightarrow> buddy_pinv m \<and> nr_pages m \<le> 2 ^ 20 \<and> page_type m 0 \<noteq> AVAILABLE"

definition vma_inv :: "vma \<times> machine \<Rightarrow> bool" where
  "vma_inv s \<longleftrightarrow> (case s of (v, m) \<Rightarrow>
     frames_ok (mem_pages m) \<and>
     (\<forall>ix t. upath ix \<longrightarrow> table_at (phys_mem m) (pgt_phys_base v) ix = Some t \<longrightarrow> is_frame (mem_pages m) t) \<and>
     (\<forall>ix jx t. upath ix \<longrightarrow> upath jx \<longrightarrow> table_at (phys_mem m) (pgt_phys_base v) ix = Some t \<longrightarrow>
        table_at (phys_mem m) (pgt_phys_base v) jx = Some t \<longrightarrow> ix = jx) \<and>
     (\<forall>ix i t. upath (i # ix) \<longrightarrow> table_at (phys_mem m) (pgt_phys_base v) ix = Some t \<longrightarrow>
        (get_flag PRESENT (phys_mem m (entry_addr t i)) \<longleftrightarrow> entry_base (phys_mem m (entry_addr t i)) \<noteq> 0)))"

text \<open>The bits of a leaf entry, zero where there is no table.\<close>

definition leaf :: "vma \<times> machine \<Rightarrow> u16 list \<Rightarrow> u16 \<Rightarrow> u64" where
  "leaf s ix i =
     (case table_at (phys_mem (snd s)) (pgt_phys_base (fst s)) ix of
        None \<Rightarrow> 0
      | Some t \<Rightarrow> phys_mem (snd s) (entry_addr t i))"

lemma upath_tail: "upath (i # ix) \<Longrightarrow> upath ix"
  by (auto simp: upath_def split: if_splits)

lemma upath_idx: "upath (i # ix) \<Longrightarrow> unat i < 512"
  by (simp add: upath_def)

lemma vma_invD:
  assumes "vma_inv (v, m)"
  shows "frames_ok (mem_pages m)"
    and "upath ix \<Longrightarrow> table_at (phys_mem m) (pgt_phys_base v) ix = Some t \<Longrightarrow> is_frame (mem_pages m) t"
    and "upath ix \<Longrightarrow> upath jx \<Longrightarrow> table_at (phys_mem m) (pgt_phys_base v) ix = Some t \<Longrightarrow>
        table_at (phys_mem m) (pgt_phys_base v) jx = Some t \<Longrightarrow> ix = jx"
    and "upath (i # ix) \<Longrightarrow> table_at (phys_mem m) (pgt_phys_base v) ix = Some t \<Longrightarrow>
        get_flag PRESENT (phys_mem m (entry_addr t i)) \<longleftrightarrow> entry_base (phys_mem m (entry_addr t i)) \<noteq> 0"
  using assms unfolding vma_inv_def prod.case by blast+

lemma is_frameE:
  assumes "is_frame m t" "nr_pages m \<le> 2 ^ 20"
  obtains p where "t = pgd_to_pa p" "p < 2 ^ 20" "0 < p" "p < nr_pages m" "page_type m p = ALLOCATED"
  using assms unfolding is_frame_def by fastforce

section \<open>Allocation of frames\<close>

text \<open>What an allocation for a VMA does when it succeeds: the frames of a fresh block, cleared.\<close>

definition fresh_block :: "pmem \<Rightarrow> nat \<Rightarrow> nat \<Rightarrow> bool" where
  "fresh_block m k p \<longleftrightarrow> (\<forall>q \<in> blk k p. 0 < q \<and> q < nr_pages m \<and> page_type m q = AVAILABLE)"

lemma fresh_block_base: "fresh_block m k p \<Longrightarrow> 0 < p \<and> p < nr_pages m"
  using bspec [of "blk k p" _ p] by (simp add: fresh_block_def mem_blk)

lemma allocate_phys_cases:
  assumes "frames_ok (mem_pages m)"
  obtains (null) "allocate_phys (Some buddy_algo) k (v, m) = Inl Null_Deref"
      "\<forall>p. \<not> (2 ^ k dvd p \<and> blk k p \<subseteq> free_set (mem_pages m)) \<or> MAX_ORDER \<le> k"
  | (block) p v1 m1 where "allocate_phys (Some buddy_algo) k (v, m) = Inr (Some p, v1, m1)"
      "frames_ok (mem_pages m1)" "nr_pages (mem_pages m1) = nr_pages (mem_pages m)"
      "fresh_block (mem_pages m) k p"
      "\<forall>q. page_type (mem_pages m1) q = (if q \<in> blk k p then ALLOCATED else page_type (mem_pages m) q)"
      "pgt_phys_base v1 = pgt_phys_base v"
      "phys_mem m1 = pnzero (phys_mem m) (pgd_to_pa p) (2 ^ k)"
      "free_set (mem_pages m1) = free_set (mem_pages m) - blk k p"
proof -
  have pinv: "buddy_pinv (mem_pages m)" and n: "nr_pages (mem_pages m) \<le> 2 ^ 20"
    and z: "page_type (mem_pages m) 0 \<noteq> AVAILABLE"
    using assms by (simp_all add: frames_ok_def)
  have free_eq: "free_set pm = {q. q < nr_pages pm \<and> page_type pm q = AVAILABLE}" if "buddy_pinv pm" for pm
    using that by (simp add: buddy_pinv_def)
  show thesis
  proof (cases rule: pb.alloc_marks [OF pinv, of k])
    case 1
    obtain m0 where "buddy_alloc_pages (mem_pages m) k = Inr (None, m0)"
      using 1(2) unfolding buddy_algo_sel by blast
    then have e: "\<forall>j. k \<le> j \<and> j < MAX_ORDER \<longrightarrow> lists_of (mem_pages m) j = []"
      using alloc_None(2) pinv unfolding buddy_pinv_def by blast
    have "\<not> (2 ^ k dvd p \<and> blk k p \<subseteq> free_set (mem_pages m)) \<or> MAX_ORDER \<le> k" for p
    proof (rule ccontr)
      assume a: "\<not> ?thesis"
      have i: "buddy_inv (mem_pages m)" "coalesced (lists_of (mem_pages m))"
        using pinv by (simp_all add: buddy_pinv_def)
      show False
        using coalesced_covers [OF i(2) sim_good [OF inv_sim [OF i(1)]], of k p] a e
        unfolding free_set_def by (metis empty_iff empty_set not_le)
    qed
    then show thesis using null 1(1) by (simp add: allocate_phys_def)
  next
    case (2 p m')
    have b: "p + 2 ^ k \<le> nr_pages (mem_pages m)" using 2(3,4) by (simp add: buddy_vb_def block_ok_def)
    have "q \<noteq> 0" if "q \<in> blk k p" for q using 2(5) z that by metis
    then have fr: "fresh_block (mem_pages m) k p"
      using 2(5) b by (auto simp: fresh_block_def mem_blk)
    have p: "0 < p" "p < 2 ^ 20" using fresh_block_base [OF fr] n by linarith+
    have z': "page_type m' 0 \<noteq> AVAILABLE" using 2(6) z by simp
    have fs: "free_set m' = free_set (mem_pages m) - blk k p"
      unfolding free_eq [OF 2(2)] free_eq [OF pinv] using 2(4,6) by auto
    have vpa: "pgd_to_vpa p = Inr (PMEM_VA_START + pgd_to_pa p)"
      using pgd_window [OF p(2)] by (simp add: pgd_to_vpa_def)
    have "allocate_phys (Some buddy_algo) k (v, m) =
        Inr (Some p, v\<lparr>page_allocations := klist_append (page_allocations v) (p, k)\<rparr>,
          m\<lparr>mem_pages := m', phys_mem := pnzero (phys_mem m) (pgd_to_pa p) (2 ^ k)\<rparr>)"
      using 2(1) vpa by (simp add: allocate_phys_def Let_def)
    then show thesis
      using block [of p] 2(2,4,6) fr fs z' n by (simp add: frames_ok_def)
  qed
qed

text \<open>Entries in frames outside the block keep their bits.\<close>

lemma pnzero_frame:
  assumes "is_frame m t" "nr_pages m \<le> 2 ^ 20" "fresh_block m k p" "unat i < 512"
  shows "pnzero mem (pgd_to_pa p) (2 ^ k) (entry_addr t i) = mem (entry_addr t i)"
proof -
  obtain q where q: "t = pgd_to_pa q" "q < 2 ^ 20" "page_type m q = ALLOCATED"
    using is_frameE [OF assms(1,2)] by blast
  have p: "p < 2 ^ 20" using fresh_block_base [OF assms(3)] assms(2) by linarith
  have "q \<notin> blk k p" using q(3) assms(3) by (auto simp: fresh_block_def)
  then have "\<not> (p \<le> q \<and> q < p + 2 ^ k)" by (simp add: mem_blk)
  then show ?thesis using pnzero_entry [of q p i mem "2 ^ k"] p q(2) assms(4) unfolding q(1) by auto
qed

lemma child_pnzero:
  assumes "is_frame m t" "nr_pages m \<le> 2 ^ 20" "fresh_block m k p" "unat i < 512"
  shows "child (pnzero mem (pgd_to_pa p) (2 ^ k)) t i = child mem t i"
  using pnzero_frame [OF assms] by (simp add: child_def)

lemma table_at_pnzero:
  assumes "vma_inv (v, m)" "fresh_block (mem_pages m) k p" "upath ix"
  shows "table_at (pnzero (phys_mem m) (pgd_to_pa p) (2 ^ k)) (pgt_phys_base v) ix =
    table_at (phys_mem m) (pgt_phys_base v) ix"
  using assms(3)
proof (induction ix)
  case (Cons i ix)
  note ih = Cons.IH [OF upath_tail [OF Cons.prems]]
  have n: "nr_pages (mem_pages m) \<le> 2 ^ 20" using vma_invD(1) [OF assms(1)] by (simp add: frames_ok_def)
  show ?case
  proof (cases "table_at (phys_mem m) (pgt_phys_base v) ix")
    case None
    then show ?thesis using ih by simp
  next
    case (Some t)
    have "is_frame (mem_pages m) t" using vma_invD(2) [OF assms(1) upath_tail [OF Cons.prems] Some] .
    then show ?thesis
      using ih Some child_pnzero [OF _ n assms(2) upath_idx [OF Cons.prems]] by simp
  qed
qed simp

lemma is_frame_mono:
  assumes "\<forall>q. page_type m' q = (if q \<in> B then ALLOCATED else page_type m q)" "nr_pages m' = nr_pages m"
    and "is_frame m t"
  shows "is_frame m' t"
  using assms by (auto simp: is_frame_def)

text \<open>An allocation leaves every table and leaf of the address space as it was.\<close>

lemma allocate_keeps:
  assumes inv: "vma_inv (v, m)"
    and a: "frames_ok (mem_pages m1)" "nr_pages (mem_pages m1) = nr_pages (mem_pages m)"
      "fresh_block (mem_pages m) k p"
      "\<forall>q. page_type (mem_pages m1) q = (if q \<in> blk k p then ALLOCATED else page_type (mem_pages m) q)"
      "pgt_phys_base v1 = pgt_phys_base v"
      "phys_mem m1 = pnzero (phys_mem m) (pgd_to_pa p) (2 ^ k)"
  shows "vma_inv (v1, m1)"
    and "upath ix \<Longrightarrow> table_at (phys_mem m1) (pgt_phys_base v1) ix = table_at (phys_mem m) (pgt_phys_base v) ix"
    and "is_frame (mem_pages m) t \<Longrightarrow> unat i < 512 \<Longrightarrow> phys_mem m1 (entry_addr t i) = phys_mem m (entry_addr t i)"
proof -
  have n: "nr_pages (mem_pages m) \<le> 2 ^ 20" using vma_invD(1) [OF inv] by (simp add: frames_ok_def)
  have tab: "table_at (phys_mem m1) (pgt_phys_base v1) ix = table_at (phys_mem m) (pgt_phys_base v) ix"
    if "upath ix" for ix
    using table_at_pnzero [OF inv a(3) that] a(5,6) by simp
  have ent: "phys_mem m1 (entry_addr t i) = phys_mem m (entry_addr t i)"
    if "is_frame (mem_pages m) t" "unat i < 512" for t i
    using pnzero_frame [OF that(1) n a(3) that(2)] a(6) by simp
  have fr: "is_frame (mem_pages m1) t" if "is_frame (mem_pages m) t" for t
    using is_frame_mono [OF a(4,2) that] .
  show "vma_inv (v1, m1)"
    unfolding vma_inv_def prod.case
  proof (intro conjI allI impI)
    show "frames_ok (mem_pages m1)" by (rule a(1))
    show "is_frame (mem_pages m1) t" if "upath ix" "table_at (phys_mem m1) (pgt_phys_base v1) ix = Some t" for ix t
      using fr vma_invD(2) [OF inv that(1)] that(2) unfolding tab [OF that(1)] by blast
    show "ix = jx" if "upath ix" "upath jx" "table_at (phys_mem m1) (pgt_phys_base v1) ix = Some t"
      "table_at (phys_mem m1) (pgt_phys_base v1) jx = Some t" for ix jx t
      using vma_invD(3) [OF inv that(1,2)] that(3,4) unfolding tab [OF that(1)] tab [OF that(2)] by blast
    show "get_flag PRESENT (phys_mem m1 (entry_addr t i)) \<longleftrightarrow> entry_base (phys_mem m1 (entry_addr t i)) \<noteq> 0"
      if u: "upath (i # ix)" and t: "table_at (phys_mem m1) (pgt_phys_base v1) ix = Some t" for ix i t
    proof -
      have t': "table_at (phys_mem m) (pgt_phys_base v) ix = Some t" using t tab [OF upath_tail [OF u]] by simp
      have "is_frame (mem_pages m) t" by (rule vma_invD(2) [OF inv upath_tail [OF u] t'])
      then show ?thesis using ent upath_idx [OF u] vma_invD(4) [OF inv u t'] by simp
    qed
  qed
  show "upath ix \<Longrightarrow> table_at (phys_mem m1) (pgt_phys_base v1) ix = table_at (phys_mem m) (pgt_phys_base v) ix"
    by (rule tab)
  show "is_frame (mem_pages m) t \<Longrightarrow> unat i < 512 \<Longrightarrow> phys_mem m1 (entry_addr t i) = phys_mem m (entry_addr t i)"
    by (rule ent)
qed

section \<open>A new table\<close>

text \<open>
  \<open>linked\<close> describes the state after the entry \<open>i\<close> of the table at \<open>ix\<close>, empty before, was given a
  fresh frame \<open>p\<close>.
\<close>

definition linked :: "vma \<times> machine \<Rightarrow> u16 \<Rightarrow> u16 list \<Rightarrow> nat \<Rightarrow> vma \<times> machine \<Rightarrow> bool" where
  "linked s i ix p s' \<longleftrightarrow>
     vma_inv s' \<and> pgt_phys_base (fst s') = pgt_phys_base (fst s) \<and>
     (\<forall>jx. upath jx \<longrightarrow> table_at (phys_mem (snd s')) (pgt_phys_base (fst s')) jx =
        (if jx = i # ix then Some (pgd_to_pa p)
         else table_at (phys_mem (snd s)) (pgt_phys_base (fst s)) jx)) \<and>
     (\<forall>jx j. upath jx \<longrightarrow> length jx = 3 \<longrightarrow> unat j < 512 \<longrightarrow> leaf s' jx j = leaf s jx j)"

lemma linkedI:
  assumes inv: "vma_inv (v, m)" and u: "upath (i # ix)"
    and t: "table_at (phys_mem m) (pgt_phys_base v) ix = Some t"
    and e: "entry_base (phys_mem m (entry_addr t i)) = 0"
    and a: "frames_ok (mem_pages m1)" "nr_pages (mem_pages m1) = nr_pages (mem_pages m)"
      "fresh_block (mem_pages m) 0 p"
      "\<forall>q. page_type (mem_pages m1) q = (if q \<in> blk 0 p then ALLOCATED else page_type (mem_pages m) q)"
      "pgt_phys_base v1 = pgt_phys_base v"
      "phys_mem m1 = pnzero (phys_mem m) (pgd_to_pa p) (2 ^ 0)"
    and b: "entry_base bits = pgd_to_pa p" "get_flag PRESENT bits"
    and m2: "m2 = m1\<lparr>phys_mem := (phys_mem m1)(entry_addr t i := bits)\<rparr>"
  shows "linked (v, m) i ix p (v1, m2)"
proof -
  let ?r = "pgt_phys_base v" and ?f = "pgd_to_pa p"
  note keep = allocate_keeps [OF inv a]
  have n: "nr_pages (mem_pages m) \<le> 2 ^ 20" using vma_invD(1) [OF inv] by (simp add: frames_ok_def)
  have p: "0 < p" "p < 2 ^ 20" using fresh_block_base [OF a(3)] n by linarith+
  have pav: "page_type (mem_pages m) p = AVAILABLE" using a(3) by (simp add: fresh_block_def mem_blk)
  have f_new: "t' \<noteq> ?f" if fr: "is_frame (mem_pages m) t'" for t'
  proof
    assume "t' = ?f"
    obtain q where q: "t' = pgd_to_pa q" "q < 2 ^ 20" "page_type (mem_pages m) q = ALLOCATED"
      using is_frameE [OF fr n] by blast
    have "pgd_to_pa q = pgd_to_pa p" using q(1) \<open>t' = ?f\<close> by (rule subst)
    then have "q = p" using pgd_to_pa_inj [of q p] q(2) p(2) by simp
    then show False using q(3) pav by simp
  qed
  have f0: "?f \<noteq> 0" using pgd_to_pa_zero [of p] p by simp
  have frt: "is_frame (mem_pages m) t" by (rule vma_invD(2) [OF inv upath_tail [OF u] t])
  have addr: "entry_addr t' j = entry_addr t'' k \<longleftrightarrow> t' = t'' \<and> j = k"
    if fr: "is_frame (mem_pages m1) t'" "is_frame (mem_pages m1) t''" and "unat j < 512" "unat k < 512"
    for t' t'' j k
  proof -
    have n1: "nr_pages (mem_pages m1) \<le> 2 ^ 20" using n a(2) by simp
    obtain q where q: "t' = pgd_to_pa q" "q < 2 ^ 20" using is_frameE [OF fr(1) n1] by blast
    obtain q' where q': "t'' = pgd_to_pa q'" "q' < 2 ^ 20" using is_frameE [OF fr(2) n1] by blast
    show ?thesis
      using entry_addr_inj [of q q' j k] pgd_to_pa_inj [of q q'] q q' that(3,4) by simp
  qed
  have mono: "is_frame (mem_pages m1) t'" if "is_frame (mem_pages m) t'" for t'
    using is_frame_mono [OF a(4,2) that] .
  have frf: "is_frame (mem_pages m1) ?f"
    unfolding is_frame_def using p a(2,4) fresh_block_base [OF a(3)] by (intro exI [of _ p]) (simp add: mem_blk)
  have ui: "unat i < 512" by (rule upath_idx [OF u])
  have zero: "phys_mem m2 (entry_addr ?f j) = 0" if j: "unat j < 512" for j
  proof -
    have "entry_addr ?f j \<noteq> entry_addr t i"
      using addr [OF frf mono [OF frt] j ui] f_new [OF frt] by auto
    moreover have "phys_mem m1 (entry_addr ?f j) = 0"
      using pnzero_entry [of p p j "phys_mem m" 1] p j a(6) by simp
    ultimately show ?thesis using m2 by simp
  qed
  have same: "phys_mem m2 (entry_addr t' j) = (if t' = t \<and> j = i then bits else phys_mem m (entry_addr t' j))"
    if "is_frame (mem_pages m) t'" "unat j < 512" for t' j
    using keep(3) [OF that] addr [OF mono [OF that(1)] mono [OF frt] that(2) ui] m2 by simp
  have tab: "table_at (phys_mem m2) ?r jx = (if jx = i # ix then Some ?f else table_at (phys_mem m) ?r jx)"
    if "upath jx" for jx
    using that
  proof (induction jx)
    case (Cons j js)
    note ih = Cons.IH [OF upath_tail [OF Cons.prems]]
    have uj: "unat j < 512" by (rule upath_idx [OF Cons.prems])
    show ?case
    proof (cases "js = i # ix")
      case True
      have "table_at (phys_mem m) ?r js = None" using True t e by (simp add: child_def)
      moreover have "child (phys_mem m2) ?f j = None" using zero [OF uj] by (simp add: child_def)
      ultimately show ?thesis using True ih by simp
    next
      case False
      show ?thesis
      proof (cases "table_at (phys_mem m) ?r js")
        case None
        then have "js \<noteq> ix" using t by auto
        then show ?thesis using None ih False by simp
      next
        case (Some t')
        have fr: "is_frame (mem_pages m) t'" by (rule vma_invD(2) [OF inv upath_tail [OF Cons.prems] Some])
        have "t' = t \<longleftrightarrow> js = ix"
          using vma_invD(3) [OF inv upath_tail [OF Cons.prems] upath_tail [OF u]] Some t by auto
        then have "child (phys_mem m2) t' j = (if js = ix \<and> j = i then Some ?f else child (phys_mem m) t' j)"
          using same [OF fr uj] b(1) f0 by (simp add: child_def)
        then show ?thesis using Some ih False by auto
      qed
    qed
  qed simp
  have inv2: "vma_inv (v1, m2)"
    unfolding vma_inv_def prod.case a(5)
  proof (intro conjI allI impI)
    show "frames_ok (mem_pages m2)" using a(1) m2 by simp
    have mp: "mem_pages m2 = mem_pages m1" using m2 by simp
    have old: "jx = i # ix \<and> t' = ?f \<or> table_at (phys_mem m) ?r jx = Some t' \<and> is_frame (mem_pages m) t'"
      if "upath jx" "table_at (phys_mem m2) ?r jx = Some t'" for jx t'
    proof (cases "jx = i # ix")
      case True
      then show ?thesis using that(2) tab [OF that(1)] by simp
    next
      case False
      then have "table_at (phys_mem m) ?r jx = Some t'" using that(2) tab [OF that(1)] by simp
      then show ?thesis using vma_invD(2) [OF inv that(1)] by simp
    qed
    show "is_frame (mem_pages m2) t'" if "upath jx" "table_at (phys_mem m2) ?r jx = Some t'" for jx t'
      using old [OF that] frf mono unfolding mp by blast
    show "jx = kx" if "upath jx" "upath kx" "table_at (phys_mem m2) ?r jx = Some t'"
      "table_at (phys_mem m2) ?r kx = Some t'" for jx kx t'
      using old [OF that(1,3)] old [OF that(2,4)] f_new vma_invD(3) [OF inv that(1,2)] by metis
    show "get_flag PRESENT (phys_mem m2 (entry_addr t' j)) \<longleftrightarrow> entry_base (phys_mem m2 (entry_addr t' j)) \<noteq> 0"
      if uj: "upath (j # jx)" and tj: "table_at (phys_mem m2) ?r jx = Some t'" for jx j t'
    proof (cases "jx = i # ix")
      case True
      then show ?thesis using tj tab [OF upath_tail [OF uj]] zero [OF upath_idx [OF uj]] by simp
    next
      case False
      then have t': "table_at (phys_mem m) ?r jx = Some t'" using tj tab [OF upath_tail [OF uj]] by simp
      have fr: "is_frame (mem_pages m) t'" by (rule vma_invD(2) [OF inv upath_tail [OF uj] t'])
      show ?thesis
        using same [OF fr upath_idx [OF uj]] b f0 vma_invD(4) [OF inv uj t'] by simp
    qed
  qed
  have lf: "leaf (v1, m2) jx j = leaf (v, m) jx j" if "upath jx" "length jx = 3" "unat j < 512" for jx j
  proof (cases "jx = i # ix")
    case True
    have "table_at (phys_mem m) ?r jx = None" using True t e by (simp add: child_def)
    then show ?thesis using tab [OF that(1)] True zero [OF that(3)] a(5) by (simp add: leaf_def)
  next
    case False
    show ?thesis
    proof (cases "table_at (phys_mem m) ?r jx")
      case None
      then show ?thesis using tab [OF that(1)] False a(5) by (simp add: leaf_def)
    next
      case (Some t')
      have fr: "is_frame (mem_pages m) t'" by (rule vma_invD(2) [OF inv that(1) Some])
      have "length ix \<le> 2" using u by (simp add: upath_def)
      then have "jx \<noteq> ix" using that(2) by auto
      then have "t' \<noteq> t" using vma_invD(3) [OF inv that(1) upath_tail [OF u]] Some t by auto
      then show ?thesis using tab [OF that(1)] Some False same [OF fr that(3)] a(5) by (simp add: leaf_def)
    qed
  qed
  show ?thesis unfolding linked_def using inv2 a(5) tab lf by simp
qed

end
