(* ===== verification/VMA_Spec.thy ===== *)
theory VMA_Spec imports VMA_Props begin

text \<open>
  The operations of a VMA on its abstract view: creation, insertion of a mapping, lookup, the
  allocation of a range and the copy into an address space.
\<close>

section \<open>One level of the walk\<close>

definition free_count :: "vma \<times> machine \<Rightarrow> nat" where
  "free_count s = card (free_set (mem_pages (snd s)))"

definition tab :: "vma \<times> machine \<Rightarrow> u16 list \<Rightarrow> u64 option" where
  "tab s ix = table_at (phys_mem (snd s)) (pgt_phys_base (fst s)) ix"

text \<open>A state that extends another one by tables only.\<close>

definition extends :: "vma \<times> machine \<Rightarrow> vma \<times> machine \<Rightarrow> nat \<Rightarrow> bool" where
  "extends s s' k \<longleftrightarrow> vma_inv s' \<and> pgt_phys_base (fst s') = pgt_phys_base (fst s) \<and>
     (\<forall>ix t. upath ix \<longrightarrow> tab s ix = Some t \<longrightarrow> tab s' ix = Some t) \<and>
     (\<forall>ix i. upath ix \<longrightarrow> length ix = 3 \<longrightarrow> unat i < 512 \<longrightarrow> leaf s' ix i = leaf s ix i) \<and>
     free_count s \<le> free_count s' + k"

lemma extends_refl: "vma_inv s \<Longrightarrow> extends s s k"
  by (simp add: extends_def)

lemma extends_trans: "extends s s1 j \<Longrightarrow> extends s1 s2 k \<Longrightarrow> extends s s2 (j + k)"
  unfolding extends_def by (auto simp: add.assoc)

lemma finite_free: "frames_ok m \<Longrightarrow> finite (free_set m)"
  by (simp add: frames_ok_def buddy_pinv_def)

lemma tab_window:
  assumes "vma_inv s" "upath ix" "tab s ix = Some t"
  shows "pa_to_vpa t = Inr (PMEM_VA_START + t)"
proof -
  obtain v m where s: "s = (v, m)" by (cases s)
  have "is_frame (mem_pages m) t" using vma_invD(2) [of v m ix t] assms by (simp add: s tab_def)
  moreover have "nr_pages (mem_pages m) \<le> 2 ^ 20" using vma_invD(1) [of v m] assms(1) by (simp add: s frames_ok_def)
  ultimately obtain p where "t = pgd_to_pa p" "p < 2 ^ 20" using is_frameE by blast
  then show ?thesis using pgd_window by simp
qed

lemma ensure_table_ok:
  assumes inv: "vma_inv s" and u: "upath (i # ix)" and t: "tab s ix = Some t"
    and f: "0 < free_count s"
  shows "\<exists>s'. ensure_table (Some buddy_algo) (entry_addr t i) s = Inr s' \<and> extends s s' 1 \<and>
    tab s' (i # ix) = Some (entry_base (phys_mem (snd s') (entry_addr t i)))"
proof -
  obtain v m where s: "s = (v, m)" by (cases s)
  have t': "table_at (phys_mem m) (pgt_phys_base v) ix = Some t" using t by (simp add: s tab_def)
  have inv': "vma_inv (v, m)" using inv s by simp
  show ?thesis
  proof (cases "entry_base (phys_mem m (entry_addr t i)) = 0")
    case False
    then have "ensure_table (Some buddy_algo) (entry_addr t i) s = Inr s"
      by (simp add: ensure_table_def s)
    moreover have "tab s (i # ix) = Some (entry_base (phys_mem m (entry_addr t i)))"
      using t' False by (simp add: tab_def s child_def)
    ultimately show ?thesis using extends_refl [OF inv] by (auto simp: s)
  next
    case True
    have "free_set (mem_pages m) \<noteq> {}" using f by (auto simp: free_count_def s)
    then obtain q where "q \<in> free_set (mem_pages m)" by blast
    then have q: "2 ^ 0 dvd q \<and> blk 0 q \<subseteq> free_set (mem_pages m)" by (auto simp: blk_def)
    show ?thesis
    proof (cases rule: allocate_phys_cases [OF vma_invD(1) [OF inv'], of 0 v])
      case 1
      then show ?thesis using q by (auto simp: MAX_ORDER_def)
    next
      case (2 p v1 m1)
      define bits where "bits = set_flag ALLOW_USER True (set_flag WRITABLE True (set_flag PRESENT True
        (set_base (pgd_to_pa p) (phys_mem m1 (entry_addr t i)))))"
      define m2 where "m2 = m1\<lparr>phys_mem := (phys_mem m1)(entry_addr t i := bits)\<rparr>"
      have ens: "ensure_table (Some buddy_algo) (entry_addr t i) s = Inr (v1, m2)"
        using True 2(1) by (simp add: ensure_table_def s bits_def m2_def Let_def)
      have b: "entry_base bits = pgd_to_pa p" "get_flag PRESENT bits"
        by (simp_all add: bits_def entry_base_pgd_to_pa)
      have lk: "linked (v, m) i ix p (v1, m2)"
        by (rule linkedI [OF inv' u t' True 2(2-7) b m2_def])
      then have "\<forall>jx. upath jx \<longrightarrow> tab (v1, m2) jx = (if jx = i # ix then Some (pgd_to_pa p) else tab s jx)"
        unfolding linked_def tab_def s by blast
      then have ti: "tab (v1, m2) (i # ix) = Some (pgd_to_pa p)" using u by presburger
      have none: "tab s (i # ix) = None" using t' True by (simp add: tab_def s child_def)
      have "free_count s \<le> free_count (v1, m2) + 1"
        using 2(8) by (simp add: free_count_def s m2_def blk_def card_Diff_singleton_if) linarith
      then have "extends s (v1, m2) 1"
        using lk none unfolding extends_def linked_def s tab_def by auto
      moreover have "phys_mem m2 (entry_addr t i) = bits" by (simp add: m2_def)
      ultimately show ?thesis using ens ti b(1) by auto
    qed
  qed
qed

section \<open>Writing a leaf\<close>

lemma leaf_update:
  assumes inv: "vma_inv (v, m)" and u: "upath ix" "length ix = 3" "unat i < 512"
    and t: "tab (v, m) ix = Some t"
  shows "vma_inv (v, m\<lparr>phys_mem := (phys_mem m)(entry_addr t i := bits)\<rparr>)"
    and "upath jx \<Longrightarrow> length jx = 3 \<Longrightarrow> unat j < 512 \<Longrightarrow>
      leaf (v, m\<lparr>phys_mem := (phys_mem m)(entry_addr t i := bits)\<rparr>) jx j =
        (if jx = ix \<and> j = i then bits else leaf (v, m) jx j)"
proof -
  let ?m = "m\<lparr>phys_mem := (phys_mem m)(entry_addr t i := bits)\<rparr>" and ?r = "pgt_phys_base v"
  have n: "nr_pages (mem_pages m) \<le> 2 ^ 20" using vma_invD(1) [OF inv] by (simp add: frames_ok_def)
  have t': "table_at (phys_mem m) ?r ix = Some t" using t by (simp add: tab_def)
  have fr: "is_frame (mem_pages m) t'" if "upath jx" "table_at (phys_mem m) ?r jx = Some t'" for jx t'
    by (rule vma_invD(2) [OF inv that])
  have addr: "entry_addr t' j = entry_addr t i \<longleftrightarrow> jx = ix \<and> j = i"
    if a: "upath jx" "table_at (phys_mem m) ?r jx = Some t'" "unat j < 512" for jx t' j
  proof -
    obtain q where q: "t' = pgd_to_pa q" "q < 2 ^ 20" using is_frameE [OF fr [OF a(1,2)] n] by blast
    obtain p where p: "t = pgd_to_pa p" "p < 2 ^ 20" using is_frameE [OF fr [OF u(1) t'] n] by blast
    have "t' = t \<longleftrightarrow> jx = ix" using vma_invD(3) [OF inv a(1) u(1)] a(2) t' by auto
    moreover have "t' = t \<longleftrightarrow> q = p" unfolding q(1) p(1) using pgd_to_pa_inj [of q p] q(2) p(2) by simp
    moreover have "entry_addr t' j = entry_addr t i \<longleftrightarrow> q = p \<and> j = i"
      unfolding q(1) p(1) using entry_addr_inj [of q p j i] q(2) p(2) a(3) u(3) by simp
    ultimately show ?thesis by blast
  qed
  have tabs: "table_at (phys_mem ?m) ?r jx = table_at (phys_mem m) ?r jx" if "upath jx" for jx
    using that
  proof (induction jx)
    case (Cons j js)
    note us = upath_tail [OF Cons.prems]
    show ?case
    proof (cases "table_at (phys_mem m) ?r js")
      case None
      then show ?thesis using Cons.IH [OF us] by simp
    next
      case (Some t')
      have "js \<noteq> ix" using Cons.prems u(2) by (auto simp: upath_def)
      then have "entry_addr t' j \<noteq> entry_addr t i" using addr [OF us Some upath_idx [OF Cons.prems]] by simp
      then show ?thesis using Cons.IH [OF us] Some by (simp add: child_def)
    qed
  qed simp
  show "vma_inv (v, ?m)"
    unfolding vma_inv_def prod.case
  proof (intro conjI allI impI)
    show "frames_ok (mem_pages ?m)" using vma_invD(1) [OF inv] by simp
    show "is_frame (mem_pages ?m) t'" if "upath jx" "table_at (phys_mem ?m) ?r jx = Some t'" for jx t'
      using fr [OF that(1)] that(2) tabs [OF that(1)] by simp
    show "jx = kx" if "upath jx" "upath kx" "table_at (phys_mem ?m) ?r jx = Some t'"
      "table_at (phys_mem ?m) ?r kx = Some t'" for jx kx t'
      using vma_invD(3) [OF inv that(1,2)] that(3,4) unfolding tabs [OF that(1)] tabs [OF that(2)] by blast
    show "get_flag PRESENT (phys_mem ?m (entry_addr t' j)) \<longleftrightarrow> entry_base (phys_mem ?m (entry_addr t' j)) \<noteq> 0"
      if uj: "upath (j # jx)" and tj: "table_at (phys_mem ?m) ?r jx = Some t'" for jx j t'
    proof -
      note us = upath_tail [OF uj]
      have tj': "table_at (phys_mem m) ?r jx = Some t'" using tj tabs [OF us] by simp
      have "jx \<noteq> ix" using uj u(2) by (auto simp: upath_def)
      then have "entry_addr t' j \<noteq> entry_addr t i" using addr [OF us tj' upath_idx [OF uj]] by simp
      then show ?thesis using vma_invD(4) [OF inv uj tj'] by simp
    qed
  qed
  show "leaf (v, ?m) jx j = (if jx = ix \<and> j = i then bits else leaf (v, m) jx j)"
    if uj: "upath jx" "length jx = 3" "unat j < 512"
  proof (cases "table_at (phys_mem m) ?r jx")
    case None
    then have "jx \<noteq> ix" using t' by auto
    then show ?thesis using None tabs [OF uj(1)] by (simp add: leaf_def)
  next
    case (Some t')
    then show ?thesis
      using tabs [OF uj(1)] addr [OF uj(1) Some uj(3)] by (simp add: leaf_def)
  qed
qed

section \<open>Addresses, paths and the view\<close>

definition va_path :: "u64 \<Rightarrow> u16 list" where
  "va_path va = (case va_table_indicies va of (i1, i2, i3, i4) \<Rightarrow> [i3, i2, i1])"

definition va_idx :: "u64 \<Rightarrow> u16" where
  "va_idx va = (case va_table_indicies va of (i1, i2, i3, i4) \<Rightarrow> i4)"

text \<open>The addresses outside the two top-level entries that belong to the kernel.\<close>

definition user_va :: "u64 \<Rightarrow> bool" where
  "user_va va \<longleftrightarrow> unat va div 2 ^ 39 mod 512 \<notin> {0x100, 0x1ff}"

definition same_page :: "u64 \<Rightarrow> u64 \<Rightarrow> bool" where
  "same_page va wa \<longleftrightarrow> unat va div 4096 mod 2 ^ 36 = unat wa div 4096 mod 2 ^ 36"

text \<open>What the hardware sees of a page: its base address and whether it is present, writable and open to users.\<close>

definition vma_view :: "vma \<times> machine \<Rightarrow> u64 \<Rightarrow> u64 \<times> bool \<times> bool \<times> bool" where
  "vma_view s va =
     (let b = leaf s (va_path va) (va_idx va)
      in (entry_base b, get_flag PRESENT b, get_flag WRITABLE b, get_flag ALLOW_USER b))"

definition view_insert :: "u64 \<Rightarrow> u64 \<Rightarrow> u64 \<times> bool \<times> bool \<times> bool \<Rightarrow> u64 \<times> bool \<times> bool \<times> bool" where
  "view_insert pa flags e =
     (case e of (b, p, w, us) \<Rightarrow>
        (entry_base pa, flags AND MF_PRESENT \<noteq> 0 \<or> p, flags AND MF_WRITABLE \<noteq> 0 \<or> w,
         flags AND MF_USER \<noteq> 0 \<or> us))"

lemma va_path_upath:
  assumes "user_va va" "va_table_indicies va = (i1, i2, i3, i4)"
  shows "upath [i3, i2, i1]" "upath [i2, i1]" "upath [i1]" "unat i4 < 512"
proof -
  note ix = va_indices [OF assms(2)]
  have lt: "unat i1 < 512" "unat i2 < 512" "unat i3 < 512" "unat i4 < 512"
    unfolding ix by simp_all
  have "unat i1 \<noteq> 0x100" "unat i1 \<noteq> 0x1ff" using assms(1) unfolding ix(1) user_va_def by auto
  then have "i1 \<noteq> 0x100" "i1 \<noteq> 0x1ff" by auto
  then show "upath [i3, i2, i1]" "upath [i2, i1]" "upath [i1]" "unat i4 < 512"
    using lt by (simp_all add: upath_def)
qed

lemma same_page_path:
  "same_page va wa \<longleftrightarrow> va_path va = va_path wa \<and> va_idx va = va_idx wa"
proof -
  have "va_table_indicies va = va_table_indicies wa \<longleftrightarrow> va_path va = va_path wa \<and> va_idx va = va_idx wa"
    by (cases "va_table_indicies va"; cases "va_table_indicies wa") (auto simp: va_path_def va_idx_def)
  then show ?thesis unfolding same_page_def va_indices_eq_iff by simp
qed

lemma va_path_ok:
  assumes "user_va va"
  shows "upath (va_path va)" "length (va_path va) = 3" "unat (va_idx va) < 512"
  using va_path_upath [OF assms]
  by (cases "va_table_indicies va"; simp add: va_path_def va_idx_def)+

section \<open>Insertion and lookup\<close>

text \<open>The three levels of the walk, one after the other, when three frames are left.\<close>

lemma insert_walk:
  assumes inv: "vma_inv s" and f: "3 \<le> free_count s" and u: "user_va va"
    and ix: "va_table_indicies va = (i1, i2, i3, i4)"
  shows "\<exists>v m t. insert_mapping (Some buddy_algo) va pa flags s =
      Inr (v, m\<lparr>phys_mem := (phys_mem m)(entry_addr t i4 := leaf_bits pa flags (phys_mem m (entry_addr t i4)))\<rparr>) \<and>
    extends s (v, m) 3 \<and> tab (v, m) [i3, i2, i1] = Some t"
proof -
  note up = va_path_upath [OF u ix]
  have t1: "tab s [] = Some (pgt_phys_base (fst s))" by (simp add: tab_def)
  obtain s1 where s1: "ensure_table (Some buddy_algo) (entry_addr (pgt_phys_base (fst s)) i1) s = Inr s1"
    "extends s s1 1" "tab s1 [i1] = Some (entry_base (phys_mem (snd s1) (entry_addr (pgt_phys_base (fst s)) i1)))"
    using ensure_table_ok [OF inv up(3) t1] f by auto
  define t2 where "t2 = entry_base (phys_mem (snd s1) (entry_addr (pgt_phys_base (fst s)) i1))"
  have inv1: "vma_inv s1" and f1: "2 \<le> free_count s1" using s1(2) f by (simp_all add: extends_def)
  obtain s2 where s2: "ensure_table (Some buddy_algo) (entry_addr t2 i2) s1 = Inr s2"
    "extends s1 s2 1" "tab s2 [i2, i1] = Some (entry_base (phys_mem (snd s2) (entry_addr t2 i2)))"
    using ensure_table_ok [OF inv1 up(2) s1(3)] f1 unfolding t2_def by auto
  define t3 where "t3 = entry_base (phys_mem (snd s2) (entry_addr t2 i2))"
  have inv2: "vma_inv s2" and f2: "1 \<le> free_count s2" using s2(2) f1 by (simp_all add: extends_def)
  obtain s3 where s3: "ensure_table (Some buddy_algo) (entry_addr t3 i3) s2 = Inr s3"
    "extends s2 s3 1" "tab s3 [i3, i2, i1] = Some (entry_base (phys_mem (snd s3) (entry_addr t3 i3)))"
    using ensure_table_ok [OF inv2 up(1) s2(3)] f2 unfolding t3_def by auto
  define t4 where "t4 = entry_base (phys_mem (snd s3) (entry_addr t3 i3))"
  have inv3: "vma_inv s3" using s3(2) by (simp add: extends_def)
  obtain v m where vm: "s3 = (v, m)" by (cases s3)
  note w2 = tab_window [OF inv1 up(3) s1(3), folded t2_def]
  note w3 = tab_window [OF inv2 up(2) s2(3), folded t3_def]
  note w4 = tab_window [OF inv3 up(1) s3(3), folded t4_def]
  have t4': "t4 = entry_base (phys_mem m (entry_addr t3 i3))" by (simp add: t4_def vm)
  have e: "insert_mapping (Some buddy_algo) va pa flags s =
      Inr (v, m\<lparr>phys_mem := (phys_mem m)(entry_addr t4 i4 := leaf_bits pa flags (phys_mem m (entry_addr t4 i4)))\<rparr>)"
    unfolding insert_mapping_def ix Let_def prod.case s1(1) res_bind_simps t2_def [symmetric] w2
      s2(1) t3_def [symmetric] w3 s3(1) vm t4' [symmetric] w4 by simp
  have "extends s s3 3"
    using extends_trans [OF extends_trans [OF s1(2) s2(2)] s3(2)] by (simp add: numeral_3_eq_3)
  then show ?thesis using e s3(3) vm unfolding t4_def by auto
qed

lemma insert_mapping_view:
  assumes inv: "vma_inv s" and f: "3 \<le> free_count s" and u: "user_va va"
  shows "\<exists>s'. insert_mapping (Some buddy_algo) va pa flags s = Inr s' \<and> vma_inv s' \<and>
    pgt_phys_base (fst s') = pgt_phys_base (fst s) \<and> free_count s \<le> free_count s' + 3 \<and>
    (\<forall>wa. user_va wa \<longrightarrow> vma_view s' wa =
       (if same_page va wa then view_insert pa flags (vma_view s wa) else vma_view s wa))"
proof -
  obtain i1 i2 i3 i4 where ix: "va_table_indicies va = (i1, i2, i3, i4)" by (cases "va_table_indicies va")
  have pth: "va_path va = [i3, i2, i1]" "va_idx va = i4" using ix by (simp_all add: va_path_def va_idx_def)
  note up = va_path_ok [OF u]
  obtain v m t where w: "insert_mapping (Some buddy_algo) va pa flags s =
      Inr (v, m\<lparr>phys_mem := (phys_mem m)(entry_addr t i4 := leaf_bits pa flags (phys_mem m (entry_addr t i4)))\<rparr>)"
    "extends s (v, m) 3" "tab (v, m) [i3, i2, i1] = Some t"
    using insert_walk [OF inv f u ix] by blast
  define bits where "bits = leaf_bits pa flags (phys_mem m (entry_addr t i4))"
  define m' where "m' = m\<lparr>phys_mem := (phys_mem m)(entry_addr t i4 := bits)\<rparr>"
  have inv': "vma_inv (v, m)" using w(2) by (simp add: extends_def)
  note lu = leaf_update(1) [OF inv' up [unfolded pth] w(3), of bits, folded m'_def]
    leaf_update(2) [OF inv' up [unfolded pth] w(3), where bits = bits, folded m'_def]
  have lf: "leaf (v, m') (va_path wa) (va_idx wa) =
      (if same_page va wa then leaf_bits pa flags (leaf s (va_path wa) (va_idx wa))
       else leaf s (va_path wa) (va_idx wa))" if "user_va wa" for wa
  proof -
    have "leaf (v, m) (va_path wa) (va_idx wa) = leaf s (va_path wa) (va_idx wa)"
      using w(2) va_path_ok [OF that] by (simp add: extends_def)
    moreover have "same_page va wa \<longleftrightarrow> va_path wa = [i3, i2, i1] \<and> va_idx wa = i4"
      unfolding same_page_path pth by auto
    moreover have "phys_mem m (entry_addr t i4) = leaf (v, m) [i3, i2, i1] i4"
      using w(3) by (simp add: leaf_def tab_def)
    ultimately show ?thesis using lu(2) [OF va_path_ok [OF that]] by (auto simp: bits_def)
  qed
  have "vma_view (v, m') wa = (if same_page va wa then view_insert pa flags (vma_view s wa) else vma_view s wa)"
    if "user_va wa" for wa
    by (simp add: vma_view_def lf [OF that] view_insert_def Let_def)
  moreover have "free_count (v, m') = free_count (v, m)" by (simp add: free_count_def m'_def)
  moreover have "insert_mapping (Some buddy_algo) va pa flags s = Inr (v, m')"
    using w(1) by (simp add: m'_def bits_def)
  ultimately show ?thesis using lu(1) w(2) by (auto simp: extends_def)
qed

text \<open>The lookup returns what the view says.\<close>

lemma get_mapping_view:
  assumes inv: "vma_inv s" and u: "user_va va"
  shows "get_mapping va s = (case vma_view s va of (b, p, w, us) \<Rightarrow>
    Inr (if p then Some (b OR page_offset va) else None))"
proof -
  obtain i1 i2 i3 i4 where ix: "va_table_indicies va = (i1, i2, i3, i4)" by (cases "va_table_indicies va")
  obtain v m where s: "s = (v, m)" by (cases s)
  note up = va_path_upath [OF u ix]
  note inv' = inv [unfolded s]
  let ?mem = "phys_mem m" and ?r = "pgt_phys_base v"
  have p0: "get_flag PRESENT (?mem (entry_addr t i)) \<longleftrightarrow> tab s (i # jx) \<noteq> None"
    "tab s (i # jx) = Some t' \<Longrightarrow> t' = entry_base (?mem (entry_addr t i))"
    if "upath (i # jx)" "tab s jx = Some t" for i jx t t'
    using vma_invD(4) [OF inv' that(1)] that(2) by (auto simp: tab_def s child_def Let_def split: if_splits)
  have t1: "tab s [] = Some ?r" by (simp add: tab_def s)
  have vw: "vma_view s va = (let b = leaf s [i3, i2, i1] i4
      in (entry_base b, get_flag PRESENT b, get_flag WRITABLE b, get_flag ALLOW_USER b))"
    by (simp add: vma_view_def va_path_def va_idx_def ix)
  have nil: "leaf s [i3, i2, i1] i4 = 0" if "tab s [i3, i2, i1] = None"
    using that by (simp add: leaf_def tab_def)
  have none: "vma_view s va = (0, False, False, False)" if "tab s [i3, i2, i1] = None"
    unfolding vw nil [OF that] by simp
  have up2: "tab s [i3, i2, i1] = None" if "tab s [i2, i1] = None" using that by (simp add: tab_def)
  have up1: "tab s [i2, i1] = None" if "tab s [i1] = None" using that by (simp add: tab_def)
  show ?thesis
  proof (cases "tab s [i1]")
    case None
    then have "get_mapping va s = Inr None"
      using p0(1) [OF up(3) t1] by (simp add: get_mapping_def ix s Let_def)
    then show ?thesis using none [OF up2 [OF up1 [OF None]]] by simp
  next
    case t2: (Some t2)
    note e2 = p0(2) [OF up(3) t1 t2] and g2 = p0(1) [OF up(3) t1]
    show ?thesis
    proof (cases "tab s [i2, i1]")
      case None
      then have "get_mapping va s = Inr None"
        using p0(1) [OF up(2) t2] g2 t2 tab_window [OF inv up(3) t2] e2
        by (simp add: get_mapping_def ix s Let_def)
      then show ?thesis using none [OF up2 [OF None]] by simp
    next
      case t3: (Some t3)
      note e3 = p0(2) [OF up(2) t2 t3] and g3 = p0(1) [OF up(2) t2]
      show ?thesis
      proof (cases "tab s [i3, i2, i1]")
        case None
        then have "get_mapping va s = Inr None"
          using p0(1) [OF up(1) t3] g2 g3 t2 t3 tab_window [OF inv up(3) t2] tab_window [OF inv up(2) t3] e2 e3
          by (simp add: get_mapping_def ix s Let_def)
        then show ?thesis using none [OF None] by simp
      next
        case t4: (Some t4)
        note e4 = p0(2) [OF up(1) t3 t4] and g4 = p0(1) [OF up(1) t3]
        have "leaf s [i3, i2, i1] i4 = ?mem (entry_addr t4 i4)"
          using t4 by (simp add: leaf_def tab_def s)
        then show ?thesis
          using g2 g3 g4 t2 t3 t4 e2 e3 e4
            tab_window [OF inv up(3) t2] tab_window [OF inv up(2) t3] tab_window [OF inv up(1) t4] vw
          by (simp add: get_mapping_def ix s Let_def)
      qed
    qed
  qed
qed

section \<open>Ranges and new address spaces\<close>

lemma page_of_step:
  "unat (va + of_nat (4096 * j)) div 4096 mod 2 ^ 36 = (unat va div 4096 + j) mod 2 ^ 36" for va :: u64
proof -
  have "unat (va + of_nat (4096 * j)) = (unat va + 4096 * j) mod 2 ^ 64"
    by (simp add: unat_word_ariths unsigned_of_nat take_bit_nat_def mod_simps)
  also have "\<dots> div 4096 mod 2 ^ 36 = (unat va + 4096 * j) div 4096 mod 2 ^ 36"
  proof -
    have "x mod (4096 * 2 ^ 52) div 4096 = x div 4096 mod 2 ^ 52" for x :: nat
      by (simp add: mod_mult2_eq [of x 4096 "2 ^ 52", simplified])
    moreover have "y mod 2 ^ 52 mod 2 ^ 36 = y mod 2 ^ 36" for y :: nat
      by (rule mod_mod_cancel) (simp add: le_imp_power_dvd)
    ultimately show ?thesis by simp
  qed
  finally show ?thesis by (simp add: add.commute)
qed

lemma mod_add_inj:
  assumes "(c + j) mod n = (c + k) mod n" "j < n" "k < (n :: nat)"
  shows "j = k"
proof -
  have "a = b" if "(c + a) mod n = (c + b) mod n" "a < n" "a \<ge> b" for a b
  proof -
    have "n dvd (c + a) - (c + b)" using that mod_eq_dvd_iff_nat [of "c + b" "c + a" n] by simp
    then have "n dvd a - b" by simp
    then show ?thesis using that(2,3) by (meson dvd_imp_le diff_is_0_eq le_antisym less_imp_diff_less not_gr_zero not_le)
  qed
  then show ?thesis using assms by (metis nle_le)
qed

lemma same_page_step_inj:
  assumes "same_page (va + of_nat (4096 * j)) wa" "same_page (va + of_nat (4096 * k)) wa"
    and "j < 2 ^ 36" "k < 2 ^ 36"
  shows "j = k"
proof -
  have "(unat va div 4096 + j) mod 2 ^ 36 = (unat va div 4096 + k) mod 2 ^ 36"
    using assms(1,2) unfolding same_page_def page_of_step by simp
  then show ?thesis using mod_add_inj [of _ j "2 ^ 36" k] assms(3,4) by blast
qed

lemma step_Suc: "va + 0x1000 + of_nat (4096 * j) = va + of_nat (4096 * Suc j)" for va :: u64
  by (simp add: algebra_simps)

text \<open>The pages mapped by \<open>n\<close> rounds of the loop of \<open>allocate_virt\<close>, and the others.\<close>

abbreviation MF_RWU :: u64 where "MF_RWU \<equiv> MF_PRESENT OR MF_USER OR MF_WRITABLE"

lemma map_pages_view:
  assumes "vma_inv s" "3 * n \<le> free_count s" "\<forall>j < n. user_va (va + of_nat (4096 * j))" "n \<le> 2 ^ 36"
  shows "\<exists>s'. map_pages (Some buddy_algo) n va pa s = Inr s' \<and> vma_inv s' \<and>
    (\<forall>wa j. user_va wa \<longrightarrow> j < n \<longrightarrow> same_page (va + of_nat (4096 * j)) wa \<longrightarrow>
       vma_view s' wa = view_insert (pa + of_nat (4096 * j)) MF_RWU (vma_view s wa)) \<and>
    (\<forall>wa. user_va wa \<longrightarrow> (\<forall>j < n. \<not> same_page (va + of_nat (4096 * j)) wa) \<longrightarrow>
       vma_view s' wa = vma_view s wa)"
  using assms
proof (induction n arbitrary: va pa s)
  case (Suc n)
  have u: "user_va va" using Suc.prems(3) by auto
  obtain s1 where s1: "insert_mapping (Some buddy_algo) va pa MF_RWU s = Inr s1" "vma_inv s1"
    "free_count s \<le> free_count s1 + 3"
    "\<forall>wa. user_va wa \<longrightarrow> vma_view s1 wa =
       (if same_page va wa then view_insert pa MF_RWU (vma_view s wa) else vma_view s wa)"
    using insert_mapping_view [OF Suc.prems(1) _ u, of pa MF_RWU] Suc.prems(2) by auto
  have us: "\<forall>j < n. user_va (va + 0x1000 + of_nat (4096 * j))"
    unfolding step_Suc using Suc.prems(3) by blast
  have f1: "3 * n \<le> free_count s1" using s1(3) Suc.prems(2) by simp
  have n: "n \<le> 2 ^ 36" using Suc.prems(4) by simp
  obtain s' where s': "map_pages (Some buddy_algo) n (va + 0x1000) (pa + 0x1000) s1 = Inr s'" "vma_inv s'"
    "\<forall>wa j. user_va wa \<longrightarrow> j < n \<longrightarrow> same_page (va + of_nat (4096 * Suc j)) wa \<longrightarrow>
       vma_view s' wa = view_insert (pa + of_nat (4096 * Suc j)) MF_RWU (vma_view s1 wa)"
    "\<forall>wa. user_va wa \<longrightarrow> (\<forall>j < n. \<not> same_page (va + of_nat (4096 * Suc j)) wa) \<longrightarrow>
       vma_view s' wa = vma_view s1 wa"
    using Suc.IH [OF s1(2) f1 us n, of "pa + 0x1000"] unfolding step_Suc by (elim exE conjE)
  have inj: "\<not> same_page (va + of_nat (4096 * Suc j)) wa" if "same_page va wa" "j < n" for wa j
    using same_page_step_inj [of va 0 wa "Suc j"] that Suc.prems(4) by auto
  have "vma_view s' wa = view_insert (pa + of_nat (4096 * j)) MF_RWU (vma_view s wa)"
    if w: "user_va wa" "j < Suc n" "same_page (va + of_nat (4096 * j)) wa" for wa j
  proof (cases j)
    case 0
    then have sp: "same_page va wa" using w(3) by simp
    then have "vma_view s' wa = vma_view s1 wa" using s'(4) w(1) inj by blast
    then show ?thesis using s1(4) w(1) sp 0 by simp
  next
    case (Suc k)
    then have "\<not> same_page va wa" using inj w(2,3) by auto
    then have "vma_view s1 wa = vma_view s wa" using s1(4) w(1) by simp
    moreover have "vma_view s' wa = view_insert (pa + of_nat (4096 * Suc k)) MF_RWU (vma_view s1 wa)"
      using s'(3) w Suc by blast
    ultimately show ?thesis using Suc by simp
  qed
  moreover have "vma_view s' wa = vma_view s wa"
    if w: "user_va wa" "\<forall>j < Suc n. \<not> same_page (va + of_nat (4096 * j)) wa" for wa
  proof -
    have "\<not> same_page va wa" using spec [OF w(2), of 0] by simp
    moreover have "\<forall>j < n. \<not> same_page (va + of_nat (4096 * Suc j)) wa" using w(2) by blast
    ultimately show ?thesis using s'(4) s1(4) w(1) by simp
  qed
  ultimately show ?case using s1(1) s'(1,2) by simp
qed simp

lemma pgd_to_pa_add: "pgd_to_pa p + of_nat (4096 * j) = pgd_to_pa (p + j)"
  by (simp add: pgd_to_pa_def pfn_to_pa_def push_bit_eq_mult algebra_simps)

lemma get_flags_RWU:
  "MF_RWU AND MF_PRESENT \<noteq> 0" "MF_RWU AND MF_USER \<noteq> 0" "MF_RWU AND MF_WRITABLE \<noteq> 0"
  by (simp_all add: MF_PRESENT_def MF_USER_def MF_WRITABLE_def)

lemma view_insert_RWU: "view_insert (pgd_to_pa p) MF_RWU e = (pgd_to_pa p, True, True, True)"
  unfolding view_insert_def entry_base_pgd_to_pa by (cases e) (simp only: prod.case get_flags_RWU simp_thms)

text \<open>A new address space maps nothing.\<close>

lemma vma_new_view:
  assumes ok: "frames_ok (mem_pages m)" and f: "free_set (mem_pages m) \<noteq> {}"
  shows "\<exists>s. vma_new (Some buddy_algo) m = Inr s \<and> vma_inv s \<and>
    (\<forall>wa. user_va wa \<longrightarrow> vma_view s wa = (0, False, False, False)) \<and>
    (\<exists>q \<in> free_set (mem_pages m). free_set (mem_pages (snd s)) = free_set (mem_pages m) - {q})"
proof -
  let ?v = "\<lparr>page_allocations = klist_new, pgt_phys_base = 0\<rparr>"
  have n: "nr_pages (mem_pages m) \<le> 2 ^ 20" using ok by (simp add: frames_ok_def)
  obtain q where "q \<in> free_set (mem_pages m)" using f by blast
  then have q: "2 ^ 0 dvd q \<and> blk 0 q \<subseteq> free_set (mem_pages m)" by (auto simp: blk_def)
  show ?thesis
  proof (cases rule: allocate_phys_cases [OF ok, of 0 ?v])
    case 1
    then show ?thesis using q by (auto simp: MAX_ORDER_def)
  next
    case (2 p v1 m1)
    have p: "0 < p" "p < 2 ^ 20" using fresh_block_base [OF 2(4)] n by linarith+
    have vpa: "pgd_to_vpa p = Inr (PMEM_VA_START + pgd_to_pa p)" using pgd_window [OF p(2)] by (simp add: pgd_to_vpa_def)
    define s where "s = (v1\<lparr>pgt_phys_base := pgd_to_pa p\<rparr>, m1)"
    have new: "vma_new (Some buddy_algo) m = Inr s" by (simp add: vma_new_def 2(1) vpa s_def)
    have zero: "phys_mem m1 (entry_addr (pgd_to_pa p) i) = 0" if "unat i < 512" for i
      using pnzero_entry [of p p i "phys_mem m" 1] that p 2(7) by simp
    have tabs: "table_at (phys_mem m1) (pgd_to_pa p) ix = (if ix = [] then Some (pgd_to_pa p) else None)"
      if "upath ix" for ix
      using that
    proof (induction ix)
      case (Cons i ix)
      then show ?case
        using Cons.IH [OF upath_tail [OF Cons.prems]] zero [OF upath_idx [OF Cons.prems]]
        by (auto simp: child_def)
    qed simp
    have "is_frame (mem_pages m1) (pgd_to_pa p)"
      unfolding is_frame_def using p 2(3,5) fresh_block_base [OF 2(4)]
      by (intro exI [of _ p]) (simp add: mem_blk)
    note fr = this
    have inv: "vma_inv s"
      unfolding vma_inv_def s_def prod.case
    proof (intro conjI allI impI)
      show "frames_ok (mem_pages m1)" by (rule 2(2))
      show "is_frame (mem_pages m1) t"
        if "upath ix" "table_at (phys_mem m1) (pgt_phys_base (v1\<lparr>pgt_phys_base := pgd_to_pa p\<rparr>)) ix = Some t" for ix t
        using that tabs [OF that(1)] fr by (simp split: if_splits)
      show "ix = jx" if "upath ix" "upath jx"
        "table_at (phys_mem m1) (pgt_phys_base (v1\<lparr>pgt_phys_base := pgd_to_pa p\<rparr>)) ix = Some t"
        "table_at (phys_mem m1) (pgt_phys_base (v1\<lparr>pgt_phys_base := pgd_to_pa p\<rparr>)) jx = Some t" for ix jx t
        using that tabs [OF that(1)] tabs [OF that(2)] by (simp split: if_splits)
      show "get_flag PRESENT (phys_mem m1 (entry_addr t i)) \<longleftrightarrow> entry_base (phys_mem m1 (entry_addr t i)) \<noteq> 0"
        if u: "upath (i # ix)"
          and t: "table_at (phys_mem m1) (pgt_phys_base (v1\<lparr>pgt_phys_base := pgd_to_pa p\<rparr>)) ix = Some t" for ix i t
      proof -
        have "t = pgd_to_pa p" using t tabs [OF upath_tail [OF u]] by (simp split: if_splits)
        then show ?thesis using zero [OF upath_idx [OF u]] by simp
      qed
    qed
    have "leaf s (va_path wa) (va_idx wa) = 0" if "user_va wa" for wa
      using tabs [OF va_path_ok(1) [OF that]] va_path_ok(2) [OF that] by (auto simp: leaf_def s_def)
    then have "\<forall>wa. user_va wa \<longrightarrow> vma_view s wa = (0, False, False, False)"
      by (simp add: vma_view_def)
    moreover have "\<exists>q \<in> free_set (mem_pages m). free_set (mem_pages m1) = free_set (mem_pages m) - {q}"
    proof -
      have "p \<in> free_set (mem_pages m)"
        using 2(4) ok by (auto simp: fresh_block_def mem_blk frames_ok_def buddy_pinv_def)
      then show ?thesis using 2(8) by (auto simp: blk_def)
    qed
    ultimately show ?thesis using new inv by (auto simp: s_def)
  qed
qed

text \<open>A machine of eight pages, seven of them free.\<close>

lemma eight_pages: "\<exists>pm. frames_ok pm \<and> free_set pm = {1..<8}"
proof -
  define m0 where "m0 = \<lparr>descs = (\<lambda>p. \<lparr>next_free = None, pd_type = if p = 0 then RESERVED else AVAILABLE\<rparr>),
    nr_pages = 8, free_areas = (\<lambda>_. None)\<rparr>"
  have "buddy_new m0 = m0" by (simp add: buddy_new_def m0_def)
  with init_props [of m0] obtain m4 where
    m4: "buddy_init m0 (nr_pages m0) = Inr (True, m4)" "buddy_inv m4" "free_set m4 = {0..<nr_pages m0}"
      "coalesced (lists_of m4)" "nr_pages m4 = nr_pages m0" "same_env m0 m4" by auto
  have "0 \<in> free_set m4" using m4(3) by (simp add: m0_def)
  with reserve_props [OF m4(2), of 0] m4(4) obtain m5 where
    m5: "buddy_inv m5" "same_env m4 m5" "free_set m5 = free_set m4 - {0}" "coalesced (lists_of m5)"
    by auto
  have env: "same_env m0 m5" by (rule same_env_trans [OF m4(6) m5(2)])
  have nr: "nr_pages m5 = 8" using same_env_nr [OF env] by (simp add: m0_def)
  have ty: "page_type m5 q = (if q = 0 then RESERVED else AVAILABLE)" for q
    using same_env_types [OF env] by (simp add: page_type_def m0_def)
  have n0: "nr_pages m0 = 8" by (simp add: m0_def)
  have "{0..<8} - {0} = {1..<(8 :: nat)}" by auto
  then have fs: "free_set m5 = {1..<8}" unfolding m5(3) m4(3) n0 .
  have "q \<in> {1..<8} \<longleftrightarrow> q < nr_pages m5 \<and> page_type m5 q = AVAILABLE" for q
    unfolding nr ty by auto
  then have "free_set m5 = {p. p < nr_pages m5 \<and> page_type m5 p = AVAILABLE}" unfolding fs by blast
  then have "buddy_pinv m5" using m5(1,4) unfolding buddy_pinv_def by blast
  then have "frames_ok m5" by (simp add: frames_ok_def nr ty)
  then show ?thesis using fs by blast
qed

section \<open>Offsets within a page\<close>

lemma unat_page_offset: "unat (page_offset a) = unat a mod 4096"
proof -
  have "page_offset a = take_bit 12 a" by (simp add: page_offset_def page_size_def take_bit_eq_mask low12)
  then show ?thesis by (simp only: unsigned_take_bit_eq) (simp add: take_bit_eq_mod)
qed

lemma base_or_offset: "entry_base b OR page_offset a = entry_base b + page_offset a"
proof -
  have "page_offset a = take_bit 12 a" by (simp add: page_offset_def page_size_def take_bit_eq_mask low12)
  then have "\<not> bit (entry_base b) n \<or> \<not> bit (page_offset a) n" for n
    by (auto simp: bit_entry_base bit_take_bit_iff)
  then show ?thesis by (simp add: disjunctive_add)
qed

lemma within_page:
  fixes va :: u64
  assumes "unat (page_offset va) + i < 4096"
  shows "unat (va + of_nat i) = unat va + i" "same_page va (va + of_nat i)"
    "page_offset (va + of_nat i) = page_offset va + of_nat i"
proof -
  have i: "unat va mod 4096 + i < 4096" using assms by (simp add: unat_page_offset)
  have "unat va < 2 ^ 52 * 4096" using unsigned_less [of va, where ?'a = nat] by simp
  then have "unat va div 4096 < 2 ^ 52" by (rule less_mult_imp_div_less)
  then have "unat va div 4096 * 4096 + 4096 \<le> 2 ^ 64" by simp
  moreover have "unat va = unat va div 4096 * 4096 + unat va mod 4096" by simp
  ultimately have lt: "unat va + i < 2 ^ 64" using i by linarith
  have oi: "unat (of_nat i :: u64) = i" using i by (intro unat_of_nat_u64) simp
  show u: "unat (va + of_nat i) = unat va + i" using lt by (simp add: unat_word_ariths oi)
  have d: "(unat va + i) div 4096 = unat va div 4096" "(unat va + i) mod 4096 = unat va mod 4096 + i"
  proof -
    have e: "unat va + i = (unat va mod 4096 + i) + unat va div 4096 * 4096" by simp
    show "(unat va + i) div 4096 = unat va div 4096" unfolding e using i by (subst div_mult_self1) simp_all
    show "(unat va + i) mod 4096 = unat va mod 4096 + i" unfolding e using i by (subst mod_mult_self1) simp
  qed
  show "same_page va (va + of_nat i)" unfolding same_page_def u d by simp
  have "unat (page_offset (va + of_nat i)) = unat (page_offset va + of_nat i)"
    unfolding unat_page_offset u d using i by (simp add: unat_word_ariths unat_page_offset oi)
  then show "page_offset (va + of_nat i) = page_offset va + of_nat i" by (simp add: word_unat_eq_iff)
qed

lemma user_va_page:
  assumes "same_page va wa"
  shows "user_va wa = user_va va"
proof -
  obtain i1 i2 i3 i4 where i: "va_table_indicies va = (i1, i2, i3, i4)" by (cases "va_table_indicies va")
  have "va_table_indicies wa = (i1, i2, i3, i4)" using assms i unfolding same_page_def va_indices_eq_iff [symmetric] by simp
  then show ?thesis using va_indices(1) [OF i] va_indices(1) [of wa] by (simp add: user_va_def)
qed

section \<open>The properties\<close>

text \<open>C19: With three free frames left, inserting a mapping for a user address refines the update of one
  page in the abstract view: the entry of the page gets the new base and the new flags in addition
  to the flags it had (a mapping never loses a permission), every other user page keeps its entry,
  and a lookup returns the base with the offset exactly for the pages that are present.\<close>

theorem vma_insert_refines:
  assumes "vma_inv s" and "3 \<le> free_count s" and "user_va va"
  shows "\<exists>s'. insert_mapping (Some buddy_algo) va pa flags s = Inr s' \<and> vma_inv s' \<and>
    (\<forall>wa. user_va wa \<longrightarrow>
       vma_view s' wa = (if same_page va wa then view_insert pa flags (vma_view s wa) else vma_view s wa) \<and>
       get_mapping wa s' = (case vma_view s' wa of (b, p, w, us) \<Rightarrow>
         Inr (if p then Some (b OR page_offset wa) else None)))"
proof -
  obtain s' where s': "insert_mapping (Some buddy_algo) va pa flags s = Inr s'" "vma_inv s'"
    "\<forall>wa. user_va wa \<longrightarrow> vma_view s' wa =
       (if same_page va wa then view_insert pa flags (vma_view s wa) else vma_view s wa)"
    using insert_mapping_view [OF assms] by blast
  then show ?thesis using get_mapping_view [OF s'(2)] by blast
qed

theorem vma_insert_refines_witness:
  "\<exists>m s s'. vma_new (Some buddy_algo) m = Inr s \<and>
    insert_mapping (Some buddy_algo) 0x401000 0x5000 (MF_PRESENT OR MF_USER) s = Inr s' \<and>
    get_mapping 0x401234 s' = Inr (Some 0x5234) \<and> get_mapping 0x402234 s' = Inr None"
proof -
  obtain pm where pm: "frames_ok pm" "free_set pm = {1..<8}" using eight_pages by blast
  define m where "m = \<lparr>mem_pages = pm, phys_mem = (\<lambda>_. 0)\<rparr>"
  obtain s q where s: "vma_new (Some buddy_algo) m = Inr s" "vma_inv s"
    "\<forall>wa. user_va wa \<longrightarrow> vma_view s wa = (0, False, False, False)"
    "q \<in> {1..<8}" "free_set (mem_pages (snd s)) = {1..<8} - {q}"
    using vma_new_view [of m] pm by (auto simp: m_def)
  have f: "3 \<le> free_count s" using s(4,5) by (simp add: free_count_def card_Diff_singleton_if)
  have u: "user_va 0x401000" "user_va 0x401234" "user_va 0x402234" by (simp_all add: user_va_def)
  have sp: "same_page 0x401000 0x401234" "\<not> same_page 0x401000 0x402234" by (simp_all add: same_page_def)
  obtain s' where s': "insert_mapping (Some buddy_algo) 0x401000 0x5000 (MF_PRESENT OR MF_USER) s = Inr s'"
    "\<forall>wa. user_va wa \<longrightarrow>
       vma_view s' wa = (if same_page 0x401000 wa then view_insert 0x5000 (MF_PRESENT OR MF_USER) (vma_view s wa)
         else vma_view s wa) \<and>
       get_mapping wa s' = (case vma_view s' wa of (b, p, w, us) \<Rightarrow>
         Inr (if p then Some (b OR page_offset wa) else None))"
    using vma_insert_refines [OF s(2) f u(1), of "0x5000" "MF_PRESENT OR MF_USER"] by blast
  have "get_mapping 0x401234 s' = Inr (Some 0x5234)"
    using s'(2) u(2) sp(1) s(3)
    by (simp add: view_insert_def entry_base_def page_offset_def page_size_def MF_PRESENT_def MF_USER_def)
  moreover have "get_mapping 0x402234 s' = Inr None"
    using s'(2) u(3) sp(2) s(3) by simp
  ultimately show ?thesis using s(1) s'(1) by blast
qed

text \<open>C20: Allocating \<open>nr\<close> pages of virtual memory rounds up to the next power of two, takes one fresh
  block of that many frames, and maps page j of the range to frame j of the block; the other user
  pages keep their mappings.\<close>

theorem vma_allocate_virt:
  assumes "vma_inv s" and "0 < unat nr" "unat nr < 2 ^ 31" and "k = unat (log2ceil (scast nr))"
    and "k < MAX_ORDER" "2 ^ k dvd q" "blk k q \<subseteq> free_set (mem_pages (snd s))"
    and "4 * 2 ^ k \<le> free_count s" and "\<forall>j < 2 ^ k. user_va (va + of_nat (4096 * j))"
  shows "\<exists>s' p. allocate_virt (Some buddy_algo) va nr s = Inr (True, s') \<and> vma_inv s' \<and>
    unat nr \<le> 2 ^ k \<and> (\<forall>e. 2 ^ e < unat nr \<longrightarrow> e < k) \<and> fresh_block (mem_pages (snd s)) k p \<and>
    (\<forall>wa j. user_va wa \<longrightarrow> j < 2 ^ k \<longrightarrow> same_page (va + of_nat (4096 * j)) wa \<longrightarrow>
       get_mapping wa s' = Inr (Some (pgd_to_pa (p + j) OR page_offset wa))) \<and>
    (\<forall>wa. user_va wa \<longrightarrow> (\<forall>j < 2 ^ k. \<not> same_page (va + of_nat (4096 * j)) wa) \<longrightarrow>
       get_mapping wa s' = get_mapping wa s)"
proof -
  obtain v m where s: "s = (v, m)" by (cases s)
  have inv: "vma_inv (v, m)" using assms(1) s by simp
  have ok: "frames_ok (mem_pages m)" by (rule vma_invD(1) [OF inv])
  have sc: "unat (scast nr :: u64) = unat nr" by (rule scast_u64_pos [OF assms(3)])
  note l2 = log2ceil_least [of "scast nr", unfolded sc, OF assms(2), folded assms(4)]
  have nz: "nr \<noteq> 0" using assms(2) by auto
  show ?thesis
  proof (cases rule: allocate_phys_cases [OF ok, of k v])
    case 1
    then show ?thesis using assms(5-7) s by auto
  next
    case (2 p v1 m1)
    note keep = allocate_keeps [OF inv 2(2-7)]
    have vw: "vma_view (v1, m1) wa = vma_view s wa" if "user_va wa" for wa
    proof -
      note up = va_path_ok [OF that]
      have "leaf (v1, m1) (va_path wa) (va_idx wa) = leaf s (va_path wa) (va_idx wa)"
        using keep(2) [OF up(1)] keep(3) [OF vma_invD(2) [OF inv up(1)] up(3)]
        by (auto simp: leaf_def s split: option.splits)
      then show ?thesis by (simp add: vma_view_def)
    qed
    have "finite (blk k p)" "card (blk k p) = 2 ^ k" by (simp_all add: blk_def)
    then have "card (free_set (mem_pages m) - blk k p) \<ge> card (free_set (mem_pages m)) - 2 ^ k"
      using diff_card_le_card_Diff [of "blk k p" "free_set (mem_pages m)"] by simp
    then have f1: "3 * 2 ^ k \<le> free_count (v1, m1)"
      using assms(8) 2(8) s by (simp add: free_count_def)
    have k36: "(2::nat) ^ k \<le> 2 ^ 36" using assms(5) by (intro power_increasing) (simp_all add: MAX_ORDER_def)
    obtain s' where s': "map_pages (Some buddy_algo) (2 ^ k) va (pgd_to_pa p) (v1, m1) = Inr s'" "vma_inv s'"
      "\<forall>wa j. user_va wa \<longrightarrow> j < 2 ^ k \<longrightarrow> same_page (va + of_nat (4096 * j)) wa \<longrightarrow>
         vma_view s' wa = view_insert (pgd_to_pa p + of_nat (4096 * j)) MF_RWU (vma_view (v1, m1) wa)"
      "\<forall>wa. user_va wa \<longrightarrow> (\<forall>j < 2 ^ k. \<not> same_page (va + of_nat (4096 * j)) wa) \<longrightarrow>
         vma_view s' wa = vma_view (v1, m1) wa"
      using map_pages_view [OF keep(1) f1 assms(9) k36, of "pgd_to_pa p"] by (elim exE conjE)
    have al: "allocate_virt (Some buddy_algo) va nr s = Inr (True, s')"
      using nz 2(1) s'(1) by (simp add: allocate_virt_def s assms(4) [symmetric] Let_def)
    have "get_mapping wa s' = Inr (Some (pgd_to_pa (p + j) OR page_offset wa))"
      if "user_va wa" "j < 2 ^ k" "same_page (va + of_nat (4096 * j)) wa" for wa j
    proof -
      have "vma_view s' wa = view_insert (pgd_to_pa (p + j)) MF_RWU (vma_view (v1, m1) wa)"
        using s'(3) that unfolding pgd_to_pa_add [symmetric] by blast
      then show ?thesis unfolding get_mapping_view [OF s'(2) that(1)] view_insert_RWU by simp
    qed
    moreover have "get_mapping wa s' = get_mapping wa s"
      if "user_va wa" "\<forall>j < 2 ^ k. \<not> same_page (va + of_nat (4096 * j)) wa" for wa
      unfolding get_mapping_view [OF s'(2) that(1)] get_mapping_view [OF assms(1) that(1)]
      using s'(4) that vw [OF that(1)] by simp
    ultimately show ?thesis using al s'(2) l2(1,2) 2(4) s by (intro exI [of _ s'] exI [of _ p]) auto
  qed
qed

theorem vma_allocate_virt_witness:
  "\<exists>m s s' p. vma_new (Some buddy_algo) m = Inr s \<and> allocate_virt (Some buddy_algo) 0x400000 1 s = Inr (True, s') \<and>
    get_mapping 0x400123 s' = Inr (Some (pgd_to_pa p OR 0x123))"
proof -
  obtain pm where pm: "frames_ok pm" "free_set pm = {1..<8}" using eight_pages by blast
  define m where "m = \<lparr>mem_pages = pm, phys_mem = (\<lambda>_. 0)\<rparr>"
  obtain s q where s: "vma_new (Some buddy_algo) m = Inr s" "vma_inv s"
    "q \<in> {1..<8}" "free_set (mem_pages (snd s)) = {1..<8} - {q}"
    using vma_new_view [of m] pm by (auto simp: m_def)
  have f: "4 * 2 ^ 0 \<le> free_count s" using s(3,4) by (simp add: free_count_def card_Diff_singleton_if)
  then obtain r where "r \<in> free_set (mem_pages (snd s))"
    by (metis card.empty ex_in_conv free_count_def le_zero_eq mult_eq_0_iff power_0 zero_neq_numeral zero_neq_one)
  then have r: "2 ^ 0 dvd r" "blk 0 r \<subseteq> free_set (mem_pages (snd s))" by (auto simp: blk_def)
  have l: "0 = unat (log2ceil (scast (1 :: i32)))" by (simp add: log2ceil_def bit_index.simps)
  have u: "\<forall>j < 2 ^ 0. user_va (0x400000 + of_nat (4096 * j))" "user_va 0x400123"
    by (simp_all add: user_va_def)
  have sp: "same_page (0x400000 + of_nat (4096 * 0)) 0x400123" by (simp add: same_page_def)
  have "page_offset 0x400123 = 0x123" by (simp add: page_offset_def page_size_def)
  note po = this
  have k: "0 < MAX_ORDER" "0 < unat (1 :: i32)" "unat (1 :: i32) < 2 ^ 31" by (simp_all add: MAX_ORDER_def)
  obtain s' p where s': "allocate_virt (Some buddy_algo) 0x400000 1 s = Inr (True, s')"
    "\<forall>wa j. user_va wa \<longrightarrow> j < 2 ^ 0 \<longrightarrow> same_page (0x400000 + of_nat (4096 * j)) wa \<longrightarrow>
       get_mapping wa s' = Inr (Some (pgd_to_pa (p + j) OR page_offset wa))"
    using vma_allocate_virt [OF s(2) k(2,3) l k(1) r f u(1)] by (elim exE conjE)
  have "get_mapping 0x400123 s' = Inr (Some (pgd_to_pa (p + 0) OR page_offset 0x400123))"
    by (rule s'(2) [rule_format, OF u(2) _ sp]) simp
  then have "get_mapping 0x400123 s' = Inr (Some (pgd_to_pa p OR 0x123))" unfolding po by simp
  then show ?thesis using s(1) s'(1) by blast
qed

text \<open>\<open>copy_to\<close> of a mapped address writes the bytes to consecutive physical addresses from the one
  mapped for the first byte.  As long as the data stay within the page this is where each byte
  belongs; beyond the end of the page the following physical page is written, whatever the
  address space maps there.\<close>

theorem vma_copy_to:
  assumes "vma_inv s" and "user_va va" and "get_mapping va s = Inr (Some pa)" and "pa < PMEM_VA_SIZE"
  shows "\<exists>ws. copy_to va src s = Inr (Some ws) \<and> length ws = length src \<and>
    (\<forall>i < length src. ws ! i = (pa + of_nat i, src ! i) \<and>
       (unat (page_offset va) + i < 4096 \<longrightarrow> get_mapping (va + of_nat i) s = Inr (Some (pa + of_nat i))))"
proof -
  let ?ws = "map (\<lambda>i. (pa + of_nat i, src ! i)) [0..<length src]"
  have c: "copy_to va src s = Inr (Some ?ws)"
    using assms(3,4) by (simp add: copy_to_def pa_to_vpa_def)
  have "get_mapping (va + of_nat i) s = Inr (Some (pa + of_nat i))"
    if "unat (page_offset va) + i < 4096" for i
  proof -
    note w = within_page [OF that]
    have u: "user_va (va + of_nat i)" using user_va_page [OF w(2)] assms(2) by simp
    have v: "vma_view s (va + of_nat i) = vma_view s va"
      using w(2) by (simp add: vma_view_def same_page_path)
    obtain e where e: "vma_view s va = (entry_base e, get_flag PRESENT e, get_flag WRITABLE e, get_flag ALLOW_USER e)"
      by (simp add: vma_view_def Let_def)
    have "get_flag PRESENT e" "pa = entry_base e OR page_offset va"
      using assms(3) unfolding get_mapping_view [OF assms(1,2)] e by (simp_all split: if_splits)
    then show ?thesis
      unfolding get_mapping_view [OF assms(1) u] v e prod.case w(3)
      by (simp add: base_or_offset w(3) [symmetric])
  qed
  then show ?thesis using c by (intro exI [of _ ?ws]) simp
qed

theorem vma_copy_to_witness:
  "\<exists>s ws. vma_inv s \<and> copy_to 0x401ffe [1, 2, 3] s = Inr (Some ws) \<and> ws ! 2 = (0x6000, 3)"
proof -
  obtain pm where pm: "frames_ok pm" "free_set pm = {1..<8}" using eight_pages by blast
  define m where "m = \<lparr>mem_pages = pm, phys_mem = (\<lambda>_. 0)\<rparr>"
  obtain s q where s: "vma_inv s" "\<forall>wa. user_va wa \<longrightarrow> vma_view s wa = (0, False, False, False)"
    "q \<in> {1..<8}" "free_set (mem_pages (snd s)) = {1..<8} - {q}"
    using vma_new_view [of m] pm by (auto simp: m_def)
  have f: "3 \<le> free_count s" using s(3,4) by (simp add: free_count_def card_Diff_singleton_if)
  have u: "user_va 0x401000" "user_va 0x401ffe" by (simp_all add: user_va_def)
  have sp: "same_page 0x401000 0x401ffe" by (simp add: same_page_def)
  obtain s' where s': "vma_inv s'" "\<forall>wa. user_va wa \<longrightarrow>
       vma_view s' wa = (if same_page 0x401000 wa then view_insert 0x5000 1 (vma_view s wa) else vma_view s wa)"
    using insert_mapping_view [OF s(1) f u(1), of "0x5000" 1] by blast
  have "get_mapping 0x401ffe s' = Inr (Some 0x5ffe)"
    unfolding get_mapping_view [OF s'(1) u(2)] using s'(2) u(2) sp s(2)
    by (simp add: view_insert_def entry_base_def page_offset_def page_size_def MF_PRESENT_def)
  note gm = this
  have "(0x5ffe :: u64) < PMEM_VA_SIZE" by (simp add: PMEM_VA_SIZE_def PMEM_VA_START_def PMEM_VA_END_def)
  from vma_copy_to [OF s'(1) u(2) gm this, of "[1, 2, 3]"] obtain ws where
    ws: "copy_to 0x401ffe [1, 2, 3] s' = Inr (Some ws)"
      "\<forall>i < length [1, 2, 3 :: u8]. ws ! i = (0x5ffe + of_nat i, [1, 2, 3] ! i)" by blast
  have "ws ! 2 = (0x6000, 3)" using spec [OF ws(2), of 2] by simp
  then show ?thesis using s'(1) ws(1) by blast
qed

end
