(* ===== verification/Process.thy ===== *)
theory Process imports VMA Sched begin

text \<open>
  Processes and threads (infos/kernel/process.cpp, infos/kernel/thread.cpp) and the loader of ELF
  images (infos/fs/exec/elf-loader.cpp).  A thread is also an entity of the scheduler, under the
  same number.  Kernel stacks are written through the window of the physical memory.
\<close>

section \<open>State\<close>

datatype privilege = Kernel_Priv | User_Priv

record thread =
  t_process :: nat
  t_priv :: privilege
  t_entry :: u64
  t_args :: u32
  native_context :: u64
  kernel_stack :: u64

record process =
  p_kernel :: bool
  p_terminated :: bool
  p_vma :: vma
  p_threads :: "nat klist"
  p_main :: nat
  p_waiters :: "nat klist"

record kstate =
  k_procs :: "nat \<Rightarrow> process"
  k_threads :: "nat \<Rightarrow> thread"
  k_mach :: machine
  k_sched :: sched
  k_next :: nat

text \<open>The registers of \<open>X86Context\<close>, in the order of the structure.\<close>

datatype ctx_reg =
  Previous_Context | R15 | R14 | R13 | R12 | R11 | R10 | R9 | R8 | RBP | RDI | RSI | RDX | RCX | RBX | RAX
  | EXTRA | RIP | CS | RFLAGS | RSP | SS

definition ctx_order :: "ctx_reg list" where
  "ctx_order = [Previous_Context, R15, R14, R13, R12, R11, R10, R9, R8, RBP, RDI, RSI, RDX, RCX, RBX, RAX,
     EXTRA, RIP, CS, RFLAGS, RSP, SS]"

fun index_of :: "'a list \<Rightarrow> 'a \<Rightarrow> nat" where
  "index_of [] x = 0"
| "index_of (y # ys) x = (if x = y then 0 else Suc (index_of ys x))"

definition ctx_addr :: "u64 \<Rightarrow> ctx_reg \<Rightarrow> u64" where
  "ctx_addr nc r = nc + of_nat (8 * index_of ctx_order r)"

text \<open>Memory behind an address of the window.\<close>

definition win_read :: "machine \<Rightarrow> u64 \<Rightarrow> u64" where
  "win_read m va = phys_mem m (va - PMEM_VA_START)"

definition win_write :: "u64 \<Rightarrow> u64 \<Rightarrow> machine \<Rightarrow> machine" where
  "win_write va w m = m\<lparr>phys_mem := (phys_mem m)(va - PMEM_VA_START := w)\<rparr>"

section \<open>Threads\<close>

definition push_word :: "u64 \<Rightarrow> u64 \<times> machine \<Rightarrow> u64 \<times> machine" where
  "push_word w st = (let sp = fst st - 8 in (sp, win_write sp w (snd st)))"

definition initial_words :: "privilege \<Rightarrow> u64 \<Rightarrow> u64 list" where
  "initial_words priv entry =
     [(if priv = Kernel_Priv then 0x10 else 0x23), 0, 0x202, (if priv = Kernel_Priv then 0x8 else 0x1b), entry, 0,
      0, 0, 0, 0, 0, 0, 0, 0, 0, 0, 0, 0, 0, 0, 0, 0]"

definition prepare_initial_stack :: "thread \<Rightarrow> machine \<Rightarrow> thread \<times> machine" where
  "prepare_initial_stack t m =
     (let (sp, m1) = fold push_word (initial_words (t_priv t) (t_entry t)) (kernel_stack t, m);
          t1 = t\<lparr>native_context := sp\<rparr>
      in (t1, win_write (ctx_addr sp RSP) (kernel_stack t) m1))"

definition KERNEL_STACK_SIZE :: u64 where
  "KERNEL_STACK_SIZE = 2 * 0x1000"

text \<open>The constructor: a stack of two pages from the address space of the owner.\<close>

definition thread_new ::
    "page_algo option \<Rightarrow> nat \<Rightarrow> privilege \<Rightarrow> u64 \<Rightarrow> vma \<times> machine \<Rightarrow> (thread \<times> vma \<times> machine) res" where
  "thread_new pal owner priv entry s =
     res_bind (allocate_phys pal 1 s) (\<lambda>(pgd, v, m).
     case pgd of
       None \<Rightarrow> Inl Assert_Fail
     | Some p \<Rightarrow>
         res_bind (pgd_to_vpa p) (\<lambda>base.
         let t = \<lparr>t_process = owner, t_priv = priv, t_entry = entry, t_args = 0, native_context = 0,
                  kernel_stack = base + KERNEL_STACK_SIZE\<rparr>;
             (t1, m1) = prepare_initial_stack t m
         in Inr (t1, v, m1)))"

definition add_entry_argument :: "u64 \<Rightarrow> thread \<times> machine \<Rightarrow> thread \<times> machine" where
  "add_entry_argument arg s =
     (let (t, m) = s; put = (\<lambda>r. win_write (ctx_addr (native_context t) r) arg m);
          t1 = t\<lparr>t_args := t_args t + 1\<rparr>
      in if t_args t = 0 then (t1, put RDI)
         else if t_args t = 1 then (t1, put RSI)
         else if t_args t = 2 then (t1, put RDX)
         else if t_args t = 3 then (t1, put RCX)
         else s)"

section \<open>Processes\<close>

definition set_proc :: "nat \<Rightarrow> process \<Rightarrow> kstate \<Rightarrow> kstate" where
  "set_proc p P k = k\<lparr>k_procs := (k_procs k)(p := P)\<rparr>"

definition create_thread ::
    "page_algo option \<Rightarrow> nat \<Rightarrow> privilege \<Rightarrow> u64 \<Rightarrow> kstate \<Rightarrow> (nat \<times> kstate) res" where
  "create_thread pal pid priv entry k =
     (let P = k_procs k pid in
      res_bind (assert_that (\<not> (p_kernel P \<and> priv = User_Priv))) (\<lambda>_.
      res_bind (thread_new pal pid priv entry (p_vma P, k_mach k)) (\<lambda>(t, v, m).
      let tid = k_next k in
      Inr (tid, (set_proc pid (P\<lparr>p_vma := v, p_threads := klist_append (p_threads P) tid\<rparr>) k)
             \<lparr>k_threads := (k_threads k)(tid := t), k_mach := m, k_next := tid + 1,
              k_sched := upd_ent (k_sched k) tid (\<lambda>_. entity_new)\<rparr>))))"

definition process_new ::
    "page_algo option \<Rightarrow> (u64 \<Rightarrow> u64) option \<Rightarrow> nat \<Rightarrow> bool \<Rightarrow> u64 \<Rightarrow> kstate \<Rightarrow> kstate res" where
  "process_new pal template_pml4 pid kern entry k =
     res_bind (vma_new pal (k_mach k)) (\<lambda>(v, m).
     res_bind (install_default_kernel_mapping template_pml4 (v, m)) (\<lambda>m1.
     let P = \<lparr>p_kernel = kern, p_terminated = False, p_vma = v, p_threads = klist_new, p_main = 0,
              p_waiters = klist_new\<rparr>
     in res_bind (create_thread pal pid (if kern then Kernel_Priv else User_Priv) entry
             ((set_proc pid P k)\<lparr>k_mach := m1\<rparr>)) (\<lambda>(tid, k1).
          Inr (set_proc pid ((k_procs k1 pid)\<lparr>p_main := tid\<rparr>) k1))))"

definition process_start :: "nat \<Rightarrow> nat \<Rightarrow> kstate \<Rightarrow> kstate res" where
  "process_start n pid k =
     res_bind (thread_start n (k_sched k) (p_main (k_procs k pid))) (\<lambda>s. Inr (k\<lparr>k_sched := s\<rparr>))"

text \<open>
  \<open>terminate\<close> stops the threads in the order of the list.  Stopping the running thread yields for
  good: a stopped thread is never scheduled, so the rest of the list is not reached.  The flag in
  the result says that this happened.
\<close>

fun stop_threads :: "nat \<Rightarrow> sched \<Rightarrow> nat list \<Rightarrow> (bool \<times> sched) res" where
  "stop_threads n s [] = Inr (False, s)"
| "stop_threads n s (t # ts) =
     res_bind (thread_stop n s t) (\<lambda>(yields, s1).
       if yields then Inr (True, s1) else stop_threads n s1 ts)"

definition process_terminate :: "nat \<Rightarrow> nat \<Rightarrow> kstate \<Rightarrow> (bool \<times> kstate) res" where
  "process_terminate n pid k =
     (let P = k_procs k pid; k1 = set_proc pid (P\<lparr>p_terminated := True\<rparr>) k in
      res_bind (wake_all n (k_sched k1) (elems (p_waiters P))) (\<lambda>s1.
      let k2 = (set_proc pid ((k_procs k1 pid)\<lparr>p_waiters := klist_clear (p_waiters P)\<rparr>) k1)\<lparr>k_sched := s1\<rparr> in
      res_bind (stop_threads n s1 (elems (p_threads P))) (\<lambda>(yields, s2).
        Inr (yields, k2\<lparr>k_sched := s2\<rparr>))))"

text \<open>\<open>allocate_user_stack\<close> ignores whether the allocation succeeded.\<close>

definition allocate_user_stack ::
    "page_algo option \<Rightarrow> u64 \<Rightarrow> u64 \<Rightarrow> nat \<Rightarrow> kstate \<Rightarrow> kstate res" where
  "allocate_user_stack pal vaddr sz tid k =
     (let t = k_threads k tid; P = k_procs k (t_process t);
          nr = (ucast (drop_bit 12 (align_up sz 0x1000)) :: i32)
      in res_bind (allocate_virt pal vaddr nr (p_vma P, k_mach k)) (\<lambda>(_, v, m).
         Inr ((set_proc (t_process t) (P\<lparr>p_vma := v\<rparr>) k)
           \<lparr>k_mach := win_write (ctx_addr (native_context t) RSP) (vaddr + sz) m\<rparr>)))"

definition entry_argument :: "u64 \<Rightarrow> nat \<Rightarrow> kstate \<Rightarrow> kstate" where
  "entry_argument arg tid k =
     (let (t, m) = add_entry_argument arg (k_threads k tid, k_mach k)
      in k\<lparr>k_threads := (k_threads k)(tid := t), k_mach := m\<rparr>)"

section \<open>The ELF loader\<close>

text \<open>
  A file is what \<open>pread\<close> delivers for a size and an offset, at most as many bytes as asked for; the
  loader's first read comes after a seek to offset 0.  Numbers are little-endian.
\<close>

type_synonym vfile = "u64 \<Rightarrow> u64 \<Rightarrow> u8 list"

fun le_val :: "u8 list \<Rightarrow> nat" where
  "le_val [] = 0"
| "le_val (b # bs) = unat b + 256 * le_val bs"

definition field :: "nat \<Rightarrow> nat \<Rightarrow> u8 list \<Rightarrow> nat" where
  "field off n bs = le_val (take n (drop off bs))"

record elf_header =
  eh_magic :: u32
  eh_class :: u8
  eh_data :: u8
  eh_type :: u16
  eh_machine :: u16
  eh_version :: u32
  eh_entry :: u64
  eh_phoff :: u64
  eh_phentsize :: u16
  eh_phnum :: u16

definition parse_header :: "u8 list \<Rightarrow> elf_header" where
  "parse_header bs =
     \<lparr>eh_magic = of_nat (field 0 4 bs), eh_class = of_nat (field 4 1 bs), eh_data = of_nat (field 5 1 bs),
      eh_type = of_nat (field 16 2 bs), eh_machine = of_nat (field 18 2 bs),
      eh_version = of_nat (field 20 4 bs), eh_entry = of_nat (field 24 8 bs),
      eh_phoff = of_nat (field 32 8 bs), eh_phentsize = of_nat (field 54 2 bs),
      eh_phnum = of_nat (field 56 2 bs)\<rparr>"

record elf_segment =
  es_type :: u32
  es_offset :: u64
  es_vaddr :: u64
  es_filesz :: u64
  es_memsz :: u64

definition parse_segment :: "u8 list \<Rightarrow> elf_segment" where
  "parse_segment bs =
     \<lparr>es_type = of_nat (field 0 4 bs), es_offset = of_nat (field 8 8 bs), es_vaddr = of_nat (field 16 8 bs),
      es_filesz = of_nat (field 32 8 bs), es_memsz = of_nat (field 40 8 bs)\<rparr>"

definition header_ok :: "elf_header \<Rightarrow> bool" where
  "header_ok h \<longleftrightarrow> eh_magic h = 0x464c457f \<and> eh_class h = 2 \<and> eh_data h = 1 \<and> eh_type h = 2 \<and>
     eh_machine h = 0x3e \<and> eh_version h = 1"

text \<open>
  A segment of type 1 gets its pages unless its first address is mapped already.  The buffer comes
  from the heap, whose old contents \<open>heap\<close> remain where the file delivers less than asked for.
  The bytes written to user memory are collected in \<open>ws\<close>.
\<close>

definition load_segment ::
    "page_algo option \<Rightarrow> (nat \<Rightarrow> u8) \<Rightarrow> vfile \<Rightarrow> elf_segment \<Rightarrow> (vma \<times> machine) \<times> (u64 \<times> u8) list \<Rightarrow>
      ((vma \<times> machine) \<times> (u64 \<times> u8) list) res" where
  "load_segment pal heap f e st =
     (let (s, ws) = st in
      if es_type e = 1 then
        res_bind (is_mapped (es_vaddr e) s) (\<lambda>mapped.
        res_bind (if mapped then Inr s
                  else res_bind (allocate_virt pal (es_vaddr e)
                           (ucast (drop_bit 12 (align_up (es_memsz e) 0x1000))) s) (\<lambda>(_, s1). Inr s1)) (\<lambda>s1.
        let bs = f (es_filesz e) (es_offset e);
            buffer = map (\<lambda>i. if i < length bs then bs ! i else heap i) [0..<unat (es_filesz e)]
        in res_bind (copy_to (es_vaddr e) buffer s1) (\<lambda>w.
             Inr (s1, ws @ (case w of None \<Rightarrow> [] | Some l \<Rightarrow> l)))))
      else Inr st)"

text \<open>The loop over the program headers: \<open>None\<close> when an entry cannot be read.\<close>

fun load_segments ::
    "page_algo option \<Rightarrow> (nat \<Rightarrow> u8) \<Rightarrow> vfile \<Rightarrow> elf_header \<Rightarrow> nat list \<Rightarrow> (vma \<times> machine) \<times> (u64 \<times> u8) list \<Rightarrow>
      ((vma \<times> machine) \<times> (u64 \<times> u8) list) option res" where
  "load_segments pal heap f h [] st = Inr (Some st)"
| "load_segments pal heap f h (i # rest) st =
     (let off = eh_phoff h + ucast ((of_nat i :: u32) * ucast (eh_phentsize h)); ent = f 56 off in
      if length ent \<noteq> 56 then Inr None
      else res_bind (load_segment pal heap f (parse_segment ent) st)
             (load_segments pal heap f h rest))"

definition elf_load ::
    "page_algo option \<Rightarrow> (u64 \<Rightarrow> u64) option \<Rightarrow> (nat \<Rightarrow> u8) \<Rightarrow> vfile \<Rightarrow> u8 list \<Rightarrow> nat \<Rightarrow> kstate \<Rightarrow>
      (bool \<times> kstate \<times> (u64 \<times> u8) list) res" where
  "elf_load pal tpl heap f cmdline pid k =
     (let bytes = f 64 0; h = parse_header bytes in
      if length bytes \<noteq> 64 then Inr (False, k, [])
      else if \<not> header_ok h then Inr (False, k, [])
      else
        res_bind (process_new pal tpl pid False (eh_entry h) k) (\<lambda>k1.
        res_bind (load_segments pal heap f h [0..<unat (eh_phnum h)] ((p_vma (k_procs k1 pid), k_mach k1), []))
          (\<lambda>r. case r of
             None \<Rightarrow> Inr (False, k1, [])
           | Some ((v, m), ws) \<Rightarrow>
               let k2 = (set_proc pid ((k_procs k1 pid)\<lparr>p_vma := v\<rparr>) k1)\<lparr>k_mach := m\<rparr>;
                   tid = p_main (k_procs k2 pid)
               in res_bind (allocate_user_stack pal 0x100000 0x2000 tid k2) (\<lambda>k3.
                  if cmdline = [] then Inr (True, entry_argument 0 tid k3, ws)
                  else
                    let P = k_procs k3 pid in
                    res_bind (allocate_virt pal 0x102000 1 (p_vma P, k_mach k3)) (\<lambda>(_, v, m).
                    let k4 = (set_proc pid (P\<lparr>p_vma := v\<rparr>) k3)\<lparr>k_mach := m\<rparr> in
                    res_bind (copy_to 0x102000 cmdline (v, m)) (\<lambda>w.
                    case w of
                      None \<Rightarrow> Inr (False, k4, ws)
                    | Some l \<Rightarrow> Inr (True, entry_argument 0x102000 tid k4, ws @ l)))))))"

text \<open>\<open>Kernel::launch_process\<close> on an opened image, after the check of the first four bytes.\<close>

definition launch_image ::
    "page_algo option \<Rightarrow> (u64 \<Rightarrow> u64) option \<Rightarrow> (nat \<Rightarrow> u8) \<Rightarrow> vfile \<Rightarrow> u8 list \<Rightarrow> nat \<Rightarrow> nat \<Rightarrow> kstate \<Rightarrow>
      (bool \<times> kstate) res" where
  "launch_image pal tpl heap f cmdline n pid k =
     (let hdr = f 16 0; at = (\<lambda>i. if i < length hdr then hdr ! i else heap i) in
      if at 0 = 0x7f \<and> at 1 = 0x45 \<and> at 2 = 0x4c \<and> at 3 = 0x46 then
        res_bind (elf_load pal tpl heap f cmdline pid k) (\<lambda>(ok, k1, _).
        if \<not> ok then Inr (False, k1)
        else res_bind (process_start n pid k1) (\<lambda>k2. Inr (True, k2)))
      else Inr (False, k))"

end
