(* ===== verification/Process_Spec.thy ===== *)
theory Process_Spec imports Process Sched_Spec begin

text \<open>
  The properties of processes and threads: the register context a new thread starts with, what
  terminating a process stops, and what the loader accepts.
\<close>

section \<open>The initial context\<close>

lemma fold_push_word:
  "fold push_word ws (sp, m) =
     (sp - of_nat (8 * length ws), fold (\<lambda>i. win_write (sp - of_nat (8 * Suc i)) (ws ! i)) [0..<length ws] m)"
proof (induction ws rule: rev_induct)
  case (snoc w ws)
  have "fold (\<lambda>i. win_write (sp - of_nat (8 * Suc i)) ((ws @ [w]) ! i)) [0..<length ws] m =
      fold (\<lambda>i. win_write (sp - of_nat (8 * Suc i)) (ws ! i)) [0..<length ws] m"
    by (rule fold_cong) (auto simp: nth_append)
  then show ?case using snoc by (simp add: push_word_def Let_def algebra_simps)
qed simp

lemma stack_slots_distinct:
  assumes "i < 2 ^ 60" and "j < 2 ^ 60"
  shows "sp - (of_nat (8 * Suc i) :: u64) - b = sp - of_nat (8 * Suc j) - b \<longleftrightarrow> i = j"
proof
  assume "sp - (of_nat (8 * Suc i) :: u64) - b = sp - of_nat (8 * Suc j) - b"
  then have "(of_nat (8 * Suc i) :: u64) = of_nat (8 * Suc j)" by (simp del: of_nat_Suc of_nat_mult)
  then have "unat (of_nat (8 * Suc i) :: u64) = unat (of_nat (8 * Suc j) :: u64)" by (rule arg_cong)
  moreover have "8 * Suc i < 2 ^ 64" "8 * Suc j < 2 ^ 64" using assms by simp_all
  ultimately have "8 * Suc i = 8 * Suc j" by (simp only: unat_of_nat_u64)
  then show "i = j" by simp
qed simp

lemma fold_writes_read:
  assumes "n \<le> 2 ^ 60" and "i < n"
  shows "phys_mem (fold (\<lambda>i. win_write (sp - of_nat (8 * Suc i)) (f i)) [0..<n] m)
    (sp - of_nat (8 * Suc i) - PMEM_VA_START) = f i"
  using assms
proof (induction n)
  case (Suc n)
  then show ?case
    using stack_slots_distinct [of i n sp PMEM_VA_START] by (auto simp: win_write_def simp del: of_nat_Suc of_nat_mult)
qed simp

lemma fold_writes_frame:
  "(\<And>i. i < n \<Longrightarrow> a \<noteq> sp - of_nat (8 * Suc i) - PMEM_VA_START) \<Longrightarrow>
     phys_mem (fold (\<lambda>i. win_write (sp - of_nat (8 * Suc i)) (f i)) [0..<n] m) a = phys_mem m a"
  by (induction n) (auto simp: win_write_def simp del: of_nat_Suc of_nat_mult)

lemma index_of_nth: "x \<in> set xs \<Longrightarrow> xs ! index_of xs x = x \<and> index_of xs x < length xs"
  by (induction xs) auto

lemma index_of_distinct: "distinct xs \<Longrightarrow> i < length xs \<Longrightarrow> index_of xs (xs ! i) = i"
proof (induction xs arbitrary: i)
  case (Cons x xs)
  then show ?case by (cases i) (auto simp: nth_mem)
qed simp

lemma in_ctx_order: "r \<in> set ctx_order"
  by (cases r) (simp_all add: ctx_order_def)

lemma ctx_index_less: "index_of ctx_order r < 22"
  using index_of_nth [OF in_ctx_order, of r] by (simp add: ctx_order_def)

lemma ctx_index_inj: "index_of ctx_order r = index_of ctx_order r' \<longleftrightarrow> r = r'"
  using index_of_nth [OF in_ctx_order, of r] index_of_nth [OF in_ctx_order, of r'] by metis

lemma ctx_addr_slot:
  "ctx_addr (sp - 176) r = sp - of_nat (8 * Suc (21 - index_of ctx_order r))"
proof -
  define i where "i = index_of ctx_order r"
  have "8 * i + 8 * Suc (21 - i) = (176 :: nat)" using ctx_index_less [of r] by (simp add: i_def)
  then have "of_nat (8 * i) + of_nat (8 * Suc (21 - i)) = (176 :: u64)"
    by (metis of_nat_add of_nat_numeral)
  then show ?thesis unfolding ctx_addr_def i_def [symmetric] by (simp add: algebra_simps del: of_nat_Suc of_nat_mult)
qed

lemma ctx_addr_inj:
  "ctx_addr (sp - 176) r - PMEM_VA_START = ctx_addr (sp - 176) r' - PMEM_VA_START \<longleftrightarrow> r = r'"
proof -
  have "21 - index_of ctx_order r = 21 - index_of ctx_order r' \<longleftrightarrow> r = r'"
    using ctx_index_less [of r] ctx_index_less [of r'] ctx_index_inj [of r r'] by linarith
  then show ?thesis
    unfolding ctx_addr_slot using stack_slots_distinct by simp
qed

text \<open>What the registers of a new thread hold.\<close>

definition initial_reg :: "privilege \<Rightarrow> u64 \<Rightarrow> u64 \<Rightarrow> ctx_reg \<Rightarrow> u64" where
  "initial_reg priv entry sp r =
     (if r = SS then (if priv = Kernel_Priv then 0x10 else 0x23)
      else if r = CS then (if priv = Kernel_Priv then 0x8 else 0x1b)
      else if r = RFLAGS then 0x202 else if r = RIP then entry else if r = RSP then sp else 0)"

definition arg_regs :: "ctx_reg list" where
  "arg_regs = [RDI, RSI, RDX, RCX]"

lemma length_initial_words: "length (initial_words p e) = 22"
  by (simp add: initial_words_def)

lemma initial_words_reg:
  "r \<noteq> RSP \<Longrightarrow> initial_words p e ! (21 - index_of ctx_order r) = initial_reg p e sp r"
  by (cases r) (simp_all add: initial_words_def initial_reg_def ctx_order_def)

lemma prepare_context:
  assumes "prepare_initial_stack t m = (t1, m1)"
  shows "t1 = t\<lparr>native_context := kernel_stack t - 176\<rparr>"
    and "win_read m1 (ctx_addr (kernel_stack t - 176) r) = initial_reg (t_priv t) (t_entry t) (kernel_stack t) r"
    and "(\<And>r. a \<noteq> ctx_addr (kernel_stack t - 176) r - PMEM_VA_START) \<Longrightarrow> phys_mem m1 a = phys_mem m a"
proof -
  let ?sp = "kernel_stack t" and ?ws = "initial_words (t_priv t) (t_entry t)"
  let ?m = "fold (\<lambda>i. win_write (?sp - of_nat (8 * Suc i)) (?ws ! i)) [0..<22] m"
  have eq: "t1 = t\<lparr>native_context := ?sp - 176\<rparr>" "m1 = win_write (ctx_addr (?sp - 176) RSP) ?sp ?m"
    using assms by (simp_all add: prepare_initial_stack_def fold_push_word length_initial_words Let_def del: upt_Suc)
  show "t1 = t\<lparr>native_context := ?sp - 176\<rparr>" by (fact eq)
  show "win_read m1 (ctx_addr (?sp - 176) r) = initial_reg (t_priv t) (t_entry t) ?sp r"
  proof (cases "r = RSP")
    case True
    then show ?thesis by (simp add: eq win_read_def win_write_def initial_reg_def)
  next
    case False
    have "win_read ?m (ctx_addr (?sp - 176) r) = ?ws ! (21 - index_of ctx_order r)"
      unfolding win_read_def ctx_addr_slot by (rule fold_writes_read) auto
    moreover have "win_read m1 (ctx_addr (?sp - 176) r) = win_read ?m (ctx_addr (?sp - 176) r)"
      using False ctx_addr_inj [of ?sp r RSP] by (simp add: eq(2) win_read_def win_write_def)
    ultimately show ?thesis using initial_words_reg [OF False] by simp
  qed
  show "phys_mem m1 a = phys_mem m a" if "\<And>r. a \<noteq> ctx_addr (?sp - 176) r - PMEM_VA_START"
  proof -
    have "a \<noteq> ?sp - of_nat (8 * Suc i) - PMEM_VA_START" if "i < 22" for i
    proof -
      have "index_of ctx_order (ctx_order ! (21 - i)) = 21 - i"
        by (rule index_of_distinct) (simp_all add: ctx_order_def)
      then have "i = 21 - index_of ctx_order (ctx_order ! (21 - i))" using that by simp
      with \<open>\<And>r. a \<noteq> ctx_addr (?sp - 176) r - PMEM_VA_START\<close> [of "ctx_order ! (21 - i)"] show ?thesis
        unfolding ctx_addr_slot by simp
    qed
    then have "phys_mem ?m a = phys_mem m a" by (rule fold_writes_frame)
    with that [of RSP] show ?thesis by (simp add: eq(2) win_write_def)
  qed
qed

lemma add_entry_argument_eq:
  "add_entry_argument a (t, m) =
    (if t_args t < 4 then (t\<lparr>t_args := t_args t + 1\<rparr>,
        win_write (ctx_addr (native_context t) (arg_regs ! unat (t_args t))) a m) else (t, m))"
proof (cases "t_args t < 4")
  case True
  then have "unat (t_args t) < 4" by (simp add: word_less_nat_alt)
  then have "t_args t = 0 \<or> t_args t = 1 \<or> t_args t = 2 \<or> t_args t = 3"
    by (simp add: word_unat_eq_iff) linarith
  with True show ?thesis by (auto simp: add_entry_argument_def arg_regs_def Let_def)
next
  case False
  then show ?thesis by (auto simp: add_entry_argument_def Let_def)
qed

lemma fold_add_entry_argument:
  assumes "native_context t = sp - 176" and "t_args t = 0" and "fold add_entry_argument args (t, m) = (t2, m2)"
  shows "t2 = t\<lparr>t_args := of_nat (min 4 (length args))\<rparr> \<and>
    win_read m2 (ctx_addr (sp - 176) r) =
      (if index_of arg_regs r < min 4 (length args) then args ! index_of arg_regs r
       else win_read m (ctx_addr (sp - 176) r))"
  using assms(3)
proof (induction args arbitrary: t2 m2 rule: rev_induct)
  case Nil
  then show ?case using assms(2) by (cases t) simp
next
  case (snoc a args)
  obtain t1 m1 where f: "fold add_entry_argument args (t, m) = (t1, m1)" by fastforce
  note IH = snoc.IH [OF f]
  let ?k = "min 4 (length args)"
  have k: "unat (of_nat ?k :: u32) = ?k" by (rule unat_of_nat_u32) simp
  have last: "add_entry_argument a (t1, m1) = (t2, m2)" using snoc.prems f by simp
  have less: "t_args t1 < 4 \<longleftrightarrow> length args < 4"
    using IH k by (simp add: word_less_nat_alt min_less_iff_disj)
  show ?case
  proof (cases "length args < 4")
    case True
    then have eq: "t2 = t1\<lparr>t_args := t_args t1 + 1\<rparr>" "m2 = win_write (ctx_addr (sp - 176) (arg_regs ! ?k)) a m1"
      using last less IH k assms(1) by (simp_all add: add_entry_argument_eq del: of_nat_min)
    have reg: "r = arg_regs ! length args \<longleftrightarrow> index_of arg_regs r = length args"
      using True index_of_nth [of r arg_regs] index_of_distinct [of arg_regs "length args"]
      by (auto simp: arg_regs_def)
    have mn: "min 4 (length (args @ [a])) = Suc (length args)" "min 4 (length args) = length args"
      using True by simp_all
    show ?thesis
      using IH eq reg ctx_addr_inj [of sp r "arg_regs ! length args"]
      unfolding mn by (auto simp: win_read_def win_write_def nth_append add.commute split: if_splits)
  next
    case False
    then show ?thesis using last less IH by (auto simp: add_entry_argument_eq nth_append min_def)
  qed
qed

section \<open>Properties\<close>

text \<open>C21: a new thread starts with a register context of 22 words below the top of its kernel stack that
  is laid out as \<open>X86Context\<close>: it begins at the entry point with interrupts enabled, on its kernel
  stack, with the segments of its privilege, its first four entry arguments in RDI, RSI, RDX and RCX
  (further ones are ignored) and zero in every other register; no other memory changes.\<close>

theorem thread_entry_context:
  "let (t1, m1) = prepare_initial_stack (t\<lparr>t_args := 0\<rparr>) m;
       (t2, m2) = fold add_entry_argument args (t1, m1)
   in native_context t2 = kernel_stack t - 176 \<and> t_args t2 = of_nat (min 4 (length args)) \<and>
      (\<forall>r. win_read m2 (ctx_addr (native_context t2) r) =
         (if index_of arg_regs r < min 4 (length args) then args ! index_of arg_regs r
          else initial_reg (t_priv t) (t_entry t) (kernel_stack t) r)) \<and>
      t_process t2 = t_process t \<and> t_entry t2 = t_entry t \<and> kernel_stack t2 = kernel_stack t"
proof -
  obtain t1 m1 where p: "prepare_initial_stack (t\<lparr>t_args := 0\<rparr>) m = (t1, m1)" by fastforce
  obtain t2 m2 where f: "fold add_entry_argument args (t1, m1) = (t2, m2)" by fastforce
  note c = prepare_context [OF p]
  have "native_context t1 = kernel_stack t - 176" "t_args t1 = 0" using c(1) by simp_all
  from fold_add_entry_argument [OF this f] c(1,2) p f show ?thesis by (simp add: Let_def)
qed

section \<open>Stopping the threads of a process\<close>

fun stopped_part :: "nat option \<Rightarrow> nat list \<Rightarrow> nat list" where
  "stopped_part c [] = []"
| "stopped_part c (t # ts) = t # (if c = Some t then [] else stopped_part c ts)"

lemma stopped_part_subset: "set (stopped_part c ts) \<subseteq> set ts"
  by (induction ts) auto

lemma stopped_part_all: "c \<notin> Some ` set ts \<Longrightarrow> stopped_part c ts = ts"
  by (induction ts) auto

text \<open>
  What stopping the threads of \<open>P\<close> in some order does: each is stopped, unless the stop of another one
  woke it, because it waited for that one, directly or not; any other entity is left alone or woken by
  the stop of an entity it waited for.
\<close>

definition stopped_all :: "nat set \<Rightarrow> sched \<Rightarrow> sched \<Rightarrow> bool" where
  "stopped_all P s s' \<longleftrightarrow>
     (\<forall>t \<in> P. est (ents s' t) = STOPPED \<or>
        est (ents s' t) = RUNNABLE \<and> (\<exists>u \<in> P. u \<noteq> t \<and> (u, t) \<in> (wait_graph s)\<^sup>*)) \<and>
     (\<forall>x. x \<notin> P \<longrightarrow> ents s' x = ents s x \<or> est (ents s' x) = RUNNABLE \<and> (\<exists>u \<in> P. (u, x) \<in> (wait_graph s)\<^sup>*))"

lemma stopped_all_step:
  assumes t: "est (ents s1 t) = STOPPED"
      "\<And>x. x \<noteq> t \<Longrightarrow> ents s1 x = ents s x \<or> woken_up s1 x \<and> (t, x) \<in> (wait_graph s)\<^sup>*"
    and sub: "(wait_graph s1)\<^sup>* \<subseteq> (wait_graph s)\<^sup>*" and P: "stopped_all P s1 s2"
  shows "stopped_all (insert t P) s s2"
  unfolding stopped_all_def
proof (intro conjI ballI allI impI)
  fix v assume v: "v \<in> insert t P"
  show "est (ents s2 v) = STOPPED \<or>
      est (ents s2 v) = RUNNABLE \<and> (\<exists>u \<in> insert t P. u \<noteq> v \<and> (u, v) \<in> (wait_graph s)\<^sup>*)"
  proof (cases "v \<in> P")
    case True
    then show ?thesis using P sub unfolding stopped_all_def by blast
  next
    case False
    then have "v = t" using v by simp
    then show ?thesis using P False t(1) sub unfolding stopped_all_def by (metis insertCI subsetD)
  qed
next
  fix x assume x: "x \<notin> insert t P"
  show "ents s2 x = ents s x \<or> est (ents s2 x) = RUNNABLE \<and> (\<exists>u \<in> insert t P. (u, x) \<in> (wait_graph s)\<^sup>*)"
  proof (cases "ents s2 x = ents s1 x")
    case True
    then show ?thesis using t(2) [of x] x unfolding woken_up_def by auto
  next
    case False
    then show ?thesis using P x sub unfolding stopped_all_def by blast
  qed
qed

lemma stop_threads_Cons:
  "stop_threads n s (t # ts) = res_bind (set_entity_state n s t STOPPED) (\<lambda>s1.
     if cur_thread s1 = Some t then Inr (True, s1) else stop_threads n s1 ts)"
  by (cases "set_entity_state n s t STOPPED") (simp_all add: thread_stop_def)

context scheduling_algorithm
begin

lemma stop_threads_ok:
  "sched_inv E A s \<Longrightarrow> set ts \<subseteq> E - {idle s} \<Longrightarrow> card E + 1 < n \<Longrightarrow>
   uaf_or s (\<lambda>(y, s'). y = (cur_thread s \<in> Some ` set ts) \<and> kept E A s s' \<and>
     stopped_all (set (stopped_part (cur_thread s) ts)) s s') (stop_threads n s ts)"
proof (induction ts arbitrary: s)
  case Nil
  then show ?case by (simp add: uaf_or_Inr kept_refl stopped_all_def)
next
  case (Cons t ts)
  have "t \<in> E" "t \<noteq> idle s" using Cons.prems(2) by auto
  then have "uaf_or s (\<lambda>s1. kept E A s s1 \<and> est (ents s1 t) = STOPPED \<and>
      (\<forall>x. x \<noteq> t \<longrightarrow> ents s1 x = ents s x \<or> woken_up s1 x \<and> (t, x) \<in> (wait_graph s)\<^sup>*)) (set_entity_state n s t STOPPED)"
    by (rule set_state_kept [OF Cons.prems(1) _ _ _ Cons.prems(3)]) simp
  then show ?case
    unfolding stop_threads_Cons
  proof (rule uaf_or_bind)
    fix s1 assume s1: "kept E A s s1 \<and> est (ents s1 t) = STOPPED \<and>
        (\<forall>x. x \<noteq> t \<longrightarrow> ents s1 x = ents s x \<or> woken_up s1 x \<and> (t, x) \<in> (wait_graph s)\<^sup>*)"
    then have fr: "cur_thread s1 = cur_thread s" "idle s1 = idle s" and i1: "sched_inv E A s1"
      and wg: "wait_graph s1 \<subseteq> wait_graph s" and sub: "(wait_graph s1)\<^sup>* \<subseteq> (wait_graph s)\<^sup>*"
      using kept_reach [of E A s s1] by (simp_all add: kept_def same_frame_def)
    show "uaf_or s (\<lambda>(y, s'). y = (cur_thread s \<in> Some ` set (t # ts)) \<and> kept E A s s' \<and>
        stopped_all (set (stopped_part (cur_thread s) (t # ts))) s s')
        (if cur_thread s1 = Some t then Inr (True, s1) else stop_threads n s1 ts)"
    proof (cases "cur_thread s = Some t")
      case True
      have "stopped_all (insert t {}) s s1"
        by (rule stopped_all_step [of s1]) (use s1 sub in \<open>auto simp: stopped_all_def\<close>)
      then show ?thesis using True s1 by (simp add: uaf_or_Inr fr)
    next
      case False
      have "uaf_or s1 (\<lambda>(y, s'). y = (cur_thread s1 \<in> Some ` set ts) \<and> kept E A s1 s' \<and>
          stopped_all (set (stopped_part (cur_thread s1) ts)) s1 s') (stop_threads n s1 ts)"
        using Cons.IH [OF i1] Cons.prems(2,3) fr by auto
      from uaf_or_sub [OF this wg] have "uaf_or s (\<lambda>(y, s'). y = (cur_thread s \<in> Some ` set (t # ts)) \<and> kept E A s s' \<and>
          stopped_all (set (stopped_part (cur_thread s) (t # ts))) s s') (stop_threads n s1 ts)"
      proof (rule uaf_or_mono)
        fix r assume r: "case r of (y, s') \<Rightarrow> y = (cur_thread s1 \<in> Some ` set ts) \<and> kept E A s1 s' \<and>
            stopped_all (set (stopped_part (cur_thread s1) ts)) s1 s'"
        obtain y s2 where yr: "r = (y, s2)" by fastforce
        have "stopped_all (insert t (set (stopped_part (cur_thread s) ts))) s s2"
          by (rule stopped_all_step [of s1]) (use s1 sub r yr fr in auto)
        then show "case r of (y, s') \<Rightarrow> y = (cur_thread s \<in> Some ` set (t # ts)) \<and> kept E A s s' \<and>
            stopped_all (set (stopped_part (cur_thread s) (t # ts))) s s'"
          using r yr fr False s1 kept_trans by auto
      qed
      then show ?thesis using False fr by simp
    qed
  qed
qed

end

text \<open>The threads that \<open>terminate\<close> is about, and those that wait for the process.\<close>

definition term_threads :: "nat \<Rightarrow> kstate \<Rightarrow> nat list" where
  "term_threads pid k = elems (p_threads (k_procs k pid))"

definition term_waiters :: "nat \<Rightarrow> kstate \<Rightarrow> nat list" where
  "term_waiters pid k = elems (p_waiters (k_procs k pid))"

lemma terminate_eq:
  "process_terminate n pid k =
     res_bind (wake_all n (k_sched k) (term_waiters pid k)) (\<lambda>s1.
     res_bind (stop_threads n s1 (term_threads pid k)) (\<lambda>(y, s2).
       Inr (y, (set_proc pid ((k_procs k pid)\<lparr>p_terminated := True, p_waiters := klist_clear (p_waiters (k_procs k pid))\<rparr>) k)
                 \<lparr>k_sched := s2\<rparr>)))"
  by (simp add: process_terminate_def set_proc_def Let_def term_waiters_def term_threads_def)

context scheduling_algorithm
begin

text \<open>What a termination has done when it returns.\<close>

definition term_done :: "nat set \<Rightarrow> nat \<Rightarrow> kstate \<Rightarrow> bool \<times> kstate \<Rightarrow> bool" where
  "term_done E pid k r \<longleftrightarrow> (case r of (y, k') \<Rightarrow>
     y = (cur_thread (k_sched k) \<in> Some ` set (term_threads pid k)) \<and>
     k_procs k' = (k_procs k)(pid :=
       (k_procs k pid)\<lparr>p_terminated := True, p_waiters := klist_clear (p_waiters (k_procs k pid))\<rparr>) \<and>
     kept E A (k_sched k) (k_sched k') \<and>
     (let sp = set (stopped_part (cur_thread (k_sched k)) (term_threads pid k)) in
       (\<forall>w \<in> set (term_waiters pid k) - sp. est (ents (k_sched k') w) = RUNNABLE) \<and>
       (\<forall>t \<in> sp. est (ents (k_sched k') t) = STOPPED \<or>
          est (ents (k_sched k') t) = RUNNABLE \<and> (\<exists>u \<in> sp. u \<noteq> t \<and> (u, t) \<in> (wait_graph (k_sched k))\<^sup>*)) \<and>
       (\<forall>x. x \<notin> sp \<longrightarrow> ents (k_sched k') x = ents (k_sched k) x \<or> est (ents (k_sched k') x) = RUNNABLE \<and>
          (\<exists>u \<in> set (term_waiters pid k) \<union> sp. (u, x) \<in> (wait_graph (k_sched k))\<^sup>*))))"

lemma terminate_ok:
  assumes i: "sched_inv E A (k_sched k)" and ts: "set (term_threads pid k) \<subseteq> E - {idle (k_sched k)}"
    and ws: "set (term_waiters pid k) \<subseteq> E"
  shows "uaf_or (k_sched k) (term_done E pid k) (process_terminate (card E + 2) pid k)"
proof -
  let ?s = "k_sched k" and ?ts = "term_threads pid k" and ?ws = "term_waiters pid k"
  let ?sp = "set (stopped_part (cur_thread ?s) ?ts)"
  have "not_runnable E ?s \<le> card E"
    unfolding not_runnable_def using sched_invD(1) [OF i] by (intro card_mono) auto
  then have "not_runnable E ?s < card E + 2" by simp
  from wake_all_ok [OF wake_ok_all i ws this] show ?thesis unfolding terminate_eq
  proof (rule uaf_or_bind)
    fix s1 assume s1: "kept E A ?s s1 \<and> only_woken (set ?ws) ?s s1 \<and> (\<forall>w \<in> set ?ws. est (ents s1 w) = RUNNABLE)"
    then have k1: "kept E A ?s s1" and i1: "sched_inv E A s1" and fr: "cur_thread s1 = cur_thread ?s" "idle s1 = idle ?s"
      by (simp_all add: kept_def same_frame_def)
    have "card E + 1 < card E + 2" by simp
    from stop_threads_ok [OF i1 ts [folded fr(2)] this]
    have "uaf_or ?s (\<lambda>(y, s'). y = (cur_thread ?s \<in> Some ` set ?ts) \<and> kept E A s1 s' \<and> stopped_all ?sp s1 s')
        (stop_threads (card E + 2) s1 ?ts)"
      unfolding fr by (rule uaf_or_sub) (use k1 in \<open>simp add: kept_def\<close>)
    then show "uaf_or ?s (term_done E pid k) (res_bind (stop_threads (card E + 2) s1 ?ts) (\<lambda>(y, s2).
        Inr (y, (set_proc pid ((k_procs k pid)\<lparr>p_terminated := True, p_waiters := klist_clear (p_waiters (k_procs k pid))\<rparr>) k)
          \<lparr>k_sched := s2\<rparr>)))"
    proof (rule uaf_or_bind, clarsimp simp: uaf_or_Inr)
      fix s2 assume st: "kept E A s1 s2" "stopped_all ?sp s1 s2"
      have sub: "(wait_graph s1)\<^sup>* \<subseteq> (wait_graph ?s)\<^sup>*" by (rule kept_reach [OF k1])
      have w: "est (ents s2 w) = RUNNABLE" if "w \<in> set ?ws - ?sp" for w
        using that s1 st(2) unfolding stopped_all_def by (metis DiffD1 DiffD2)
      have t: "est (ents s2 t) = STOPPED \<or> est (ents s2 t) = RUNNABLE \<and> (\<exists>u \<in> ?sp. u \<noteq> t \<and> (u, t) \<in> (wait_graph ?s)\<^sup>*)"
        if "t \<in> ?sp" for t using that st(2) sub unfolding stopped_all_def by blast
      have x: "ents s2 x = ents ?s x \<or> est (ents s2 x) = RUNNABLE \<and> (\<exists>u \<in> set ?ws \<union> ?sp. (u, x) \<in> (wait_graph ?s)\<^sup>*)"
        if "x \<notin> ?sp" for x
      proof (cases "ents s2 x = ents s1 x")
        case True
        then show ?thesis using s1 unfolding only_woken_def woken_up_def by (metis UnI1)
      next
        case False
        then show ?thesis using that st(2) sub unfolding stopped_all_def by blast
      qed
      show "term_done E pid k (cur_thread ?s \<in> Some ` set ?ts,
          set_proc pid ((k_procs k pid)\<lparr>p_terminated := True, p_waiters := klist_clear (p_waiters (k_procs k pid))\<rparr>) k
            \<lparr>k_sched := s2\<rparr>)"
        unfolding term_done_def Let_def split
        using w t x kept_trans [OF k1 st(1)] by (simp add: set_proc_def)
    qed
  qed
qed

end

text \<open>C22: terminating a process, whatever threads wait for each other or for the process. When the call
  returns, the process is marked terminated, no thread waits for it any more, and every thread that did is
  runnable, unless it was itself stopped. The threads of the process up to the running one, in the order of
  their creation, have been stopped; all of them when the running thread is none of the process. Each is
  left stopped, except one that waits, directly or not, for another of them: the stop of that one has made it
  runnable again. Every other thread, those of the process behind the running one included, is as it was or
  was woken because it waited for the process or for one that was stopped. The call returns unless threads
  wait for each other in a cycle; then it may instead go on walking a wait queue that a nested trigger has
  cleared.\<close>

theorem process_terminate_stops:
  assumes "A \<in> {fifo_algo, rr_algo, cfs_algo}" and "sched_inv E A (k_sched k)"
    and "set (term_threads pid k) \<subseteq> E - {idle (k_sched k)}" and "set (term_waiters pid k) \<subseteq> E"
    and "sp = set (stopped_part (cur_thread (k_sched k)) (term_threads pid k))"
  shows "(\<exists>k'. process_terminate (card E + 2) pid k =
        Inr (cur_thread (k_sched k) \<in> Some ` set (term_threads pid k), k') \<and>
      p_terminated (k_procs k' pid) \<and> term_waiters pid k' = [] \<and> sched_inv E A (k_sched k') \<and>
      (\<forall>w \<in> set (term_waiters pid k) - sp. est (ents (k_sched k') w) = RUNNABLE) \<and>
      (cur_thread (k_sched k) \<notin> Some ` set (term_threads pid k) \<longrightarrow> sp = set (term_threads pid k)) \<and>
      (\<forall>t \<in> sp. est (ents (k_sched k') t) = STOPPED \<or> est (ents (k_sched k') t) = RUNNABLE \<and>
         (\<exists>u \<in> sp. u \<noteq> t \<and> (u, t) \<in> (wait_graph (k_sched k))\<^sup>*)) \<and>
      (\<forall>x. x \<notin> sp \<longrightarrow> ents (k_sched k') x = ents (k_sched k) x \<or> est (ents (k_sched k') x) = RUNNABLE \<and>
         (\<exists>u \<in> set (term_waiters pid k) \<union> sp. (u, x) \<in> (wait_graph (k_sched k))\<^sup>*))) \<or>
    (process_terminate (card E + 2) pid k = Inl Use_After_Free \<and> \<not> acyclic (wait_graph (k_sched k)))"
proof -
  note alg = algorithms [OF assms(1)]
  from scheduling_algorithm.terminate_ok [OF alg assms(2-4)]
  consider "process_terminate (card E + 2) pid k = Inl Use_After_Free" "\<not> acyclic (wait_graph (k_sched k))"
    | y k' where "process_terminate (card E + 2) pid k = Inr (y, k')" "scheduling_algorithm.term_done A E pid k (y, k')"
    by (auto simp: uaf_or_def)
  then show ?thesis
  proof cases
    case (2 y k')
    note d = 2(2) [unfolded scheduling_algorithm.term_done_def [OF alg] split Let_def assms(5) [symmetric] kept_def]
    have "p_terminated (k_procs k' pid)" "term_waiters pid k' = []" using d by (simp_all add: term_waiters_def)
    moreover have "sp = set (term_threads pid k)" if "cur_thread (k_sched k) \<notin> Some ` set (term_threads pid k)"
      using that assms(5) stopped_part_all by simp
    ultimately show ?thesis using 2(1) d by (intro disjI1 exI [of _ k']) blast
  qed blast
qed

text \<open>Threads 1 and 2 are the threads of process 0, and thread 1 runs.\<close>

definition exiting :: "machine \<Rightarrow> kstate" where
  "exiting m =
     \<lparr>k_procs = (\<lambda>_. \<lparr>p_kernel = False, p_terminated = False, p_vma = \<lparr>page_allocations = klist_new, pgt_phys_base = 0\<rparr>,
        p_threads = \<lparr>elems = [1, 2], cnt = 2\<rparr>, p_main = 1, p_waiters = klist_new\<rparr>),
      k_threads = (\<lambda>_. \<lparr>t_process = 0, t_priv = User_Priv, t_entry = 0, t_args = 0, native_context = 0, kernel_stack = 0\<rparr>),
      k_mach = m, k_sched = (two_threads rr_algo)\<lparr>cur_thread := Some 1\<rparr>, k_next = 3\<rparr>"

definition blank_machine :: machine where
  "blank_machine = \<lparr>mem_pages = \<lparr>descs = (\<lambda>_. \<lparr>next_free = None, pd_type = RESERVED\<rparr>), nr_pages = 0,
     free_areas = (\<lambda>_. None)\<rparr>, phys_mem = (\<lambda>_. 0)\<rparr>"

theorem process_terminate_stops_witness:
  "\<exists>k'. process_terminate 5 0 (exiting blank_machine) = Inr (True, k') \<and> p_terminated (k_procs k' 0) \<and>
     est (ents (k_sched k') 1) = STOPPED \<and> est (ents (k_sched k') 2) = RUNNABLE"
proof -
  let ?k = "exiting blank_machine"
  have inv: "sched_inv {0, 1, 2} rr_algo (k_sched ?k)"
    using two_threads_inv [of rr_algo] by (simp add: exiting_def sched_inv_def)
  have wg: "wait_graph (k_sched ?k) = {}"
    using two_threads_facts(3) [of rr_algo] by (simp add: exiting_def wait_graph_def)
  have t: "term_threads 0 ?k = [1, 2]" "term_waiters 0 ?k = []" "idle (k_sched ?k) = 0"
    "cur_thread (k_sched ?k) = Some 1" "est (ents (k_sched ?k) 2) = RUNNABLE"
    by (simp_all add: term_threads_def term_waiters_def exiting_def klist_new_def two_threads_def fresh_def)
  have c: "card {0 :: nat, 1, 2} + 2 = 5" by simp
  have sp: "{1} = set (stopped_part (cur_thread (k_sched ?k)) (term_threads 0 ?k))" by (simp add: t)
  have "acyclic (wait_graph (k_sched ?k))" by (simp add: wg acyclic_def)
  with process_terminate_stops [OF _ inv _ _ sp, unfolded c] t obtain k' where
    k': "process_terminate 5 0 ?k = Inr (True, k')" "p_terminated (k_procs k' 0)"
      "est (ents (k_sched k') 1) = STOPPED"
      "\<forall>x. x \<noteq> 1 \<longrightarrow> ents (k_sched k') x = ents (k_sched ?k) x \<or> est (ents (k_sched k') x) = RUNNABLE"
    by (auto simp del: One_nat_def)
  have "est (ents (k_sched k') 2) = RUNNABLE" using spec [OF k'(4), of 2] t(5) by auto
  with k' show ?thesis by blast
qed

text \<open>
  The main thread 1 waits for thread 2 of the same process when thread 3 ends the process: the stop of
  thread 2 wakes thread 1, which goes on running in a process that is terminated.
\<close>

definition main_joins :: kstate where
  "main_joins =
     (let k = exiting blank_machine; s = two_threads rr_algo in
      (set_proc 0 ((k_procs k 0)\<lparr>p_threads := \<lparr>elems = [1, 2, 3], cnt = 3\<rparr>\<rparr>) k)
        \<lparr>k_sched := s\<lparr>runq := \<lparr>rq = \<lparr>elems = [2, 3], cnt = 2\<rparr>, irqs = True\<rparr>, cur_thread := Some 3,
           ents := (\<lambda>e. if e = 1 then entity_new\<lparr>est := SLEEPING\<rparr>
                        else if e = 2 then entity_new\<lparr>est := RUNNABLE, waiters := \<lparr>elems = [1], cnt = 1\<rparr>\<rparr>
                        else if e \<le> 3 then entity_new\<lparr>est := RUNNABLE\<rparr> else entity_new)\<rparr>, k_next := 4\<rparr>)"

lemma main_survives_termination:
  "\<exists>k'. process_terminate 6 0 main_joins = Inr (True, k') \<and> p_terminated (k_procs k' 0) \<and>
     map (\<lambda>t. est (ents (k_sched k') t)) [1, 2, 3] = [RUNNABLE, STOPPED, STOPPED]"
proof -
  have "case process_terminate 6 0 main_joins of Inr (y, k') \<Rightarrow> y \<and> p_terminated (k_procs k' 0) \<and>
      map (\<lambda>t. est (ents (k_sched k') t)) [1, 2, 3] = [RUNNABLE, STOPPED, STOPPED] | _ \<Rightarrow> False" by code_simp
  then show ?thesis by (auto split: sum.splits)
qed

end
