(* ===== verification/Paths.thy ===== *)
theory Paths imports KString_Spec "HOL-Library.Sublist" begin

text \<open>
  The components of a path: the inner loop that \<open>VirtualFilesystem::lookup_node\<close> (infos/fs/vfs.cpp)
  and \<open>TarFS::build_tree\<close> (coursework/tarfs.cpp) have in common, and what it computes.
\<close>

text \<open>
  The loop takes the next component into an array of 256 characters.  The result is the component
  and the rest of the path, behind the slash if there is one.
\<close>

fun component_loop :: "u8 list \<Rightarrow> u8 list \<Rightarrow> (u8 list \<times> u8 list) res" where
  "component_loop component [] = Inl Out_Of_Bounds"
| "component_loop component (c # path) =
     (if length component \<ge> 256 then Inl Out_Of_Bounds
      else if c = 0 then Inr (component, c # path)
      else if c = 47 then Inr (component, path)
      else component_loop (component @ [c]) path)"

lemma component_loop_length:
  "component_loop a path = Inr (component, rest) \<Longrightarrow>
     length component + length rest \<le> length a + length path"
  by (induction a path rule: component_loop.induct) (auto split: if_splits)

lemma component_rest_shorter:
  "component_loop [] path = Inr (component, rest) \<Longrightarrow> component \<noteq> [] \<Longrightarrow> length rest < length path"
  using component_loop_length [of "[]" path component rest] by (cases component) auto

text \<open>The components up to the first empty one; \<open>good_path\<close> says that each fits into the array.\<close>

definition path_names :: "u8 list \<Rightarrow> u8 list list" where
  "path_names path = takeWhile (\<lambda>p. p \<noteq> []) (parts 47 (cstr path) [])"

definition good_path :: "u8 list \<Rightarrow> bool" where
  "good_path path \<longleftrightarrow> is_cstr path \<and> (\<forall>p \<in> set (parts 47 (cstr path) []). length p < 256)"

lemma component_loop_parts:
  assumes "is_cstr path" and "\<forall>p \<in> set (parts 47 (cstr path) a). length p < 256"
  shows "\<exists>component rest. component_loop a path = Inr (component, rest) \<and> is_cstr rest \<and>
    (parts 47 (cstr path) a = component # parts 47 (cstr rest) [] \<or>
     parts 47 (cstr path) a = [component] \<and> cstr rest = [])"
  using assms
proof (induction a path rule: component_loop.induct)
  case (2 a c path)
  have "length a < 256"
  proof -
    have "\<exists>p \<in> set (parts 47 cs a). length a \<le> length p" for cs
      by (induction "47 :: u8" cs a rule: parts.induct) (auto dest: Suc_leD)
    then show ?thesis using 2(3) by (meson le_less_trans)
  qed
  then show ?case using 2 by auto
qed simp

lemma good_path_step:
  assumes "good_path path"
  shows "\<exists>component rest. component_loop [] path = Inr (component, rest) \<and>
    path_names path = (if component = [] then [] else component # path_names rest) \<and> good_path rest"
proof -
  from component_loop_parts [of path "[]"] assms obtain component rest where
    r: "component_loop [] path = Inr (component, rest)" "is_cstr rest"
      "parts 47 (cstr path) [] = component # parts 47 (cstr rest) [] \<or>
       parts 47 (cstr path) [] = [component] \<and> cstr rest = []"
    unfolding good_path_def by blast
  then have "path_names path = (if component = [] then [] else component # path_names rest)"
    by (auto simp: path_names_def)
  moreover have "good_path rest" using r(2,3) assms by (auto simp: good_path_def)
  ultimately show ?thesis using r(1) by blast
qed

end
