(* ===== verification/Tarfs.thy ===== *)
theory Tarfs imports KMap_Spec Paths begin

text \<open>
  Block devices (drivers/block/block-device.h, block-device-partition.cpp) and the file system on tar
  archives (coursework/tarfs.cpp, coursework/tarfs.h).  A name is the list of the bytes of a \<open>String\<close>,
  and \<open>fnv\<close> its hash, which is the key of every map of children.  The nodes of the tree are numbered.
\<close>

section \<open>Block devices\<close>

text \<open>
  What a driver behind the class \<open>BlockDevice\<close> delivers: the size of a block, the number of blocks and,
  for a first block and a count, the bytes of the blocks, or nothing where \<open>read_blocks\<close> returns false.
\<close>

record block_dev =
  bd_size :: u64
  bd_count :: u64
  bd_read :: "u64 \<Rightarrow> u64 \<Rightarrow> u8 list option"

definition partition_dev :: "u64 \<Rightarrow> u64 \<Rightarrow> block_dev \<Rightarrow> block_dev" where
  "partition_dev block_offset block_count d =
     d\<lparr>bd_count := block_count, bd_read := (\<lambda>off count. bd_read d (block_offset + off) count)\<rparr>"

section \<open>Headers\<close>

text \<open>
  \<open>octal2ui\<close> runs from the last character down to the second one: the first is left out.
\<close>

function octal_loop :: "u8 list \<Rightarrow> nat \<Rightarrow> nat \<Rightarrow> i32 \<Rightarrow> u32 \<Rightarrow> u32" where
  "octal_loop data len i factor val =
     (if i < len
      then octal_loop data len (i + 1) (factor * 8) (val + factor * (scast (data ! (len - i)) - 48))
      else val)"
  by pat_completeness auto

termination octal_loop
  by (relation "measure (\<lambda>(data, len, i, factor, val). len - i)") auto

declare octal_loop.simps [simp del]

definition octal2ui :: "u8 list \<Rightarrow> u32 res" where
  "octal2ui data = res_bind (kstrlen (Some data)) (\<lambda>len. Inr (octal_loop data (unat len) 1 1 0))"

text \<open>
  A header block by the offsets of \<open>posix_header\<close>.  The structure has 500 bytes and a block 512; the
  12 bytes behind the structure are taken to be there.
\<close>

definition hdr_name :: "u8 list \<Rightarrow> u8 list" where "hdr_name h = h"
definition hdr_size :: "u8 list \<Rightarrow> u8 list" where "hdr_size h = drop 124 h"
definition hdr_typeflag :: "u8 list \<Rightarrow> u8" where "hdr_typeflag h = h ! 156"

fun is_zero_block :: "u8 list \<Rightarrow> nat \<Rightarrow> bool res" where
  "is_zero_block b 0 = Inr True"
| "is_zero_block [] (Suc n) = Inl Out_Of_Bounds"
| "is_zero_block (c # b) (Suc n) = (if c \<noteq> 0 then Inr False else is_zero_block b n)"

section \<open>Nodes\<close>

record tar_node =
  tn_parent :: "nat option"
  tn_name :: "u8 list"
  tn_size :: u32
  tn_has_offset :: bool
  tn_block_offset :: u32
  tn_children :: "(u64, nat) kmap"

record tarfs =
  tar_nodes :: "nat \<Rightarrow> tar_node"
  tar_next :: nat

definition tar_new_node :: "nat option \<Rightarrow> u8 list \<Rightarrow> tarfs \<Rightarrow> nat \<times> tarfs" where
  "tar_new_node parent nm fs =
     (tar_next fs,
      fs\<lparr>tar_nodes := (tar_nodes fs)(tar_next fs := \<lparr>tn_parent = parent, tn_name = nm, tn_size = 0,
             tn_has_offset = False, tn_block_offset = 0, tn_children = kmap_empty\<rparr>),
         tar_next := tar_next fs + 1\<rparr>)"

definition tar_set :: "nat \<Rightarrow> (tar_node \<Rightarrow> tar_node) \<Rightarrow> tarfs \<Rightarrow> tarfs" where
  "tar_set n f fs = fs\<lparr>tar_nodes := (tar_nodes fs)(n := f (tar_nodes fs n))\<rparr>"

definition tar_get_child :: "nat \<Rightarrow> u8 list \<Rightarrow> tarfs \<Rightarrow> nat option" where
  "tar_get_child n nm fs = kmap_try_get (fnv nm) (tn_children (tar_nodes fs n))"

definition tar_add_child :: "nat \<Rightarrow> u8 list \<Rightarrow> nat \<Rightarrow> tarfs \<Rightarrow> tarfs res" where
  "tar_add_child n nm child fs =
     res_bind (kmap_add (fnv nm) child (tn_children (tar_nodes fs n))) (\<lambda>m.
       Inr (tar_set n (\<lambda>x. x\<lparr>tn_children := m\<rparr>) fs))"

definition tar_set_size :: "nat \<Rightarrow> u32 \<Rightarrow> tarfs \<Rightarrow> tarfs" where
  "tar_set_size n sz fs = tar_set n (\<lambda>x. x\<lparr>tn_size := sz\<rparr>) fs"

definition tar_set_block_offset :: "nat \<Rightarrow> u32 \<Rightarrow> tarfs \<Rightarrow> tarfs" where
  "tar_set_block_offset n off fs = tar_set n (\<lambda>x. x\<lparr>tn_has_offset := True, tn_block_offset := off\<rparr>) fs"

section \<open>Building the tree\<close>

text \<open>The search for the node of a path, which creates the nodes that are missing on its way.\<close>

function tar_insert_path :: "u8 list \<Rightarrow> nat \<Rightarrow> nat option \<Rightarrow> tarfs \<Rightarrow> (nat option \<times> tarfs) res" where
  "tar_insert_path path current last_node fs =
     (case component_loop [] path of
        Inl e \<Rightarrow> Inl e
      | Inr (component, rest) \<Rightarrow>
          if component = [] then Inr (last_node, fs)
          else
            (case tar_get_child current component fs of
               Some nd \<Rightarrow> tar_insert_path rest nd (Some nd) fs
             | None \<Rightarrow>
                 (let (nd, fs1) = tar_new_node (Some current) component fs in
                  case tar_add_child current component nd fs1 of
                    Inl e \<Rightarrow> Inl e
                  | Inr fs2 \<Rightarrow> tar_insert_path rest nd (Some nd) fs2)))"
  by pat_completeness auto

termination tar_insert_path
  by (relation "measure (\<lambda>(path, current, last_node, fs). length path)") (auto dest: component_rest_shorter)

declare tar_insert_path.simps [simp del]

text \<open>The node of an entry; \<open>last_node\<close> is not initialised when the path has no component.\<close>

definition tar_add_entry :: "u8 list \<Rightarrow> u32 \<Rightarrow> u8 \<Rightarrow> u32 \<Rightarrow> nat \<Rightarrow> tarfs \<Rightarrow> tarfs res" where
  "tar_add_entry path sz typeflag offset root fs =
     res_bind (tar_insert_path path root None fs) (\<lambda>(last_node, fs1).
     case last_node of
       None \<Rightarrow> Inl Uninit_Read
     | Some nd \<Rightarrow>
         let fs2 = tar_set_size nd sz fs1
         in Inr (if typeflag \<noteq> 53 then tar_set_block_offset nd offset fs2 else fs2))"

text \<open>The number of blocks of a file of size \<open>sz\<close>.\<close>

definition file_blocks :: "u64 \<Rightarrow> u32 \<Rightarrow> i32" where
  "file_blocks block_size sz =
     (if ucast sz mod block_size \<noteq> 0 then ucast (ucast sz div block_size + 1) else ucast (ucast sz div block_size))"

text \<open>
  The loop over the headers.  A header that cannot be read leaves the old one in place.  The count \<open>n\<close>
  bounds the iterations; as many as there are blocks are enough.
\<close>

fun build_loop ::
    "nat \<Rightarrow> block_dev \<Rightarrow> nat \<Rightarrow> i32 \<Rightarrow> u8 list option \<Rightarrow> bool \<Rightarrow> tarfs \<Rightarrow> tarfs res" where
  "build_loop 0 d root offset head zero_seen fs = Inl Diverges"
| "build_loop (Suc n) d root offset head zero_seen fs =
     (if \<not> scast offset < bd_count d then Inr fs
      else
        (case (case bd_read d (scast offset) 1 of None \<Rightarrow> head | Some b \<Rightarrow> Some b) of
           None \<Rightarrow> Inl Uninit_Read
         | Some h \<Rightarrow>
             res_bind (is_zero_block h 512) (\<lambda>z.
             if z then
               (if zero_seen then Inr fs else build_loop n d root (offset + 1) (Some h) True fs)
             else
               res_bind (octal2ui (hdr_size h)) (\<lambda>sz.
               if bd_size d = 0 then Inl Aborted
               else
                 res_bind (tar_add_entry (hdr_name h) sz (hdr_typeflag h) offset root fs)
                   (build_loop n d root (offset + (1 + file_blocks (bd_size d) sz)) (Some h) False)))))"

definition tar_build_tree :: "nat \<Rightarrow> block_dev \<Rightarrow> tarfs \<Rightarrow> (nat \<times> tarfs) res" where
  "tar_build_tree n d fs =
     (let (root, fs1) = tar_new_node None [] fs
      in res_bind (build_loop n d root 0 None False fs1) (\<lambda>fs2. Inr (root, fs2)))"

definition tar_mount :: "nat \<Rightarrow> block_dev \<Rightarrow> nat option \<times> tarfs \<Rightarrow> (nat \<times> nat option \<times> tarfs) res" where
  "tar_mount n d s =
     (case s of
        (Some r, fs) \<Rightarrow> Inr (r, Some r, fs)
      | (None, fs) \<Rightarrow> res_bind (tar_build_tree n d fs) (\<lambda>(r, fs1). Inr (r, Some r, fs1)))"

section \<open>Files\<close>

record tar_file =
  tf_hdr :: "u8 list"
  tf_start_block :: u32
  tf_pos :: u32

datatype seek_type = Seek_Absolute | Seek_Relative

definition tar_file_new :: "block_dev \<Rightarrow> u32 \<Rightarrow> tar_file res" where
  "tar_file_new d file_header_block =
     (case bd_read d (ucast file_header_block) 1 of
        None \<Rightarrow> Inl Uninit_Read
      | Some h \<Rightarrow> Inr \<lparr>tf_hdr = h, tf_start_block = file_header_block + 1, tf_pos = 0\<rparr>)"

definition tar_file_size :: "tar_file \<Rightarrow> u32 res" where
  "tar_file_size f = octal2ui (hdr_size (tf_hdr f))"

text \<open>The number of blocks that \<open>pread\<close> asks for, one byte more than the part it copies.\<close>

definition blocks_to_read :: "u64 \<Rightarrow> u64 \<Rightarrow> u64 \<Rightarrow> i32" where
  "blocks_to_read block_size sz off =
     (let m = sz + 1 + off mod block_size
      in if m mod block_size \<noteq> 0 then ucast (m div block_size + 1) else ucast (m div block_size))"

text \<open>
  The bytes that \<open>pread\<close> copies into the buffer of the caller; it returns their number.  A failed read
  would copy what was in the fresh buffer.
\<close>

definition tar_pread :: "block_dev \<Rightarrow> tar_file \<Rightarrow> u64 \<Rightarrow> u64 \<Rightarrow> u8 list res" where
  "tar_pread d f size0 off =
     res_bind (tar_file_size f) (\<lambda>fsz.
     let file_size = (ucast fsz :: u64);
         sz = (if off + size0 > file_size then size0 - (off + size0 - file_size) else size0);
         block_size = (scast (ucast (bd_size d) :: i32) :: u64)
     in if off \<ge> file_size \<or> sz = 0 then Inr []
        else if block_size = 0 then Inl Aborted
        else
          (case bd_read d (ucast (tf_start_block f) + off div block_size) (scast (blocks_to_read block_size sz off)) of
             None \<Rightarrow> Inl Uninit_Read
           | Some block_buffer \<Rightarrow>
               if unat (off mod block_size) + unat sz \<le> length block_buffer
               then Inr (take (unat sz) (drop (unat (off mod block_size)) block_buffer))
               else Inl Out_Of_Bounds))"

definition tar_read :: "block_dev \<Rightarrow> u64 \<Rightarrow> tar_file \<Rightarrow> (u8 list \<times> tar_file) res" where
  "tar_read d sz f =
     res_bind (tar_pread d f sz (ucast (tf_pos f))) (\<lambda>bytes.
       Inr (bytes, f\<lparr>tf_pos := tf_pos f + of_nat (length bytes)\<rparr>))"

definition tar_seek :: "u64 \<Rightarrow> seek_type \<Rightarrow> tar_file \<Rightarrow> tar_file res" where
  "tar_seek offset ty f =
     (let pos = (if ty = Seek_Absolute then ucast offset else tf_pos f + ucast offset) in
      res_bind (tar_file_size f) (\<lambda>sz. Inr (f\<lparr>tf_pos := (if pos \<ge> sz then sz - 1 else pos)\<rparr>)))"

section \<open>Opening nodes\<close>

definition tar_open :: "block_dev \<Rightarrow> nat \<Rightarrow> tarfs \<Rightarrow> tar_file option res" where
  "tar_open d n fs =
     (let x = tar_nodes fs n in
      if \<not> tn_has_offset x then Inr None
      else res_bind (tar_file_new d (tn_block_offset x)) (\<lambda>f. Inr (Some f)))"

text \<open>A directory is the list of its entries, name and size, the number of the next one, and whether
  it is a \<open>SimpleDirectory\<close>.\<close>

record directory =
  dir_entries :: "(u8 list \<times> u32) list"
  dir_cur :: nat
  dir_simple :: bool

definition tar_opendir :: "nat \<Rightarrow> tarfs \<Rightarrow> directory option" where
  "tar_opendir n fs =
     (if tn_has_offset (tar_nodes fs n) then None
      else Some \<lparr>dir_entries = map (\<lambda>(h, c). (tn_name (tar_nodes fs c), tn_size (tar_nodes fs c)))
                   (iter_entries (iter_begin (tn_children (tar_nodes fs n)))),
                 dir_cur = 0, dir_simple = False\<rparr>)"

definition tar_read_entry :: "directory \<Rightarrow> (u8 list \<times> u32) option \<times> directory" where
  "tar_read_entry dir =
     (if dir_cur dir < length (dir_entries dir)
      then (Some (dir_entries dir ! dir_cur dir), dir\<lparr>dir_cur := dir_cur dir + 1\<rparr>)
      else (None, dir))"

end
