(* ===== verification/Node_Tree.thy ===== *)
theory Node_Tree imports Prelude begin

text \<open>
  Trees of numbered nodes whose children are found by a key, as the file systems keep them: walking
  along keys, the invariant that every node has one path from the root, and adding a child.  \<open>ch n k\<close>
  is the child of node \<open>n\<close> under key \<open>k\<close>.
\<close>

fun kwalk :: "(nat \<Rightarrow> 'k \<Rightarrow> nat option) \<Rightarrow> nat \<Rightarrow> 'k list \<Rightarrow> nat option" where
  "kwalk ch n [] = Some n"
| "kwalk ch n (k # ks) = (case ch n k of None \<Rightarrow> None | Some c \<Rightarrow> kwalk ch c ks)"

lemma walk_append: "kwalk ch n (ps @ qs) = (case kwalk ch n ps of None \<Rightarrow> None | Some m \<Rightarrow> kwalk ch m qs)"
  by (induction ps arbitrary: n) (auto split: option.splits)

text \<open>Every node below \<open>nxt\<close> has one path \<open>pth\<close> from the root, and its children theirs.\<close>

definition tree_inv :: "(nat \<Rightarrow> 'k list) \<Rightarrow> nat \<Rightarrow> nat \<Rightarrow> (nat \<Rightarrow> 'k \<Rightarrow> nat option) \<Rightarrow> bool" where
  "tree_inv pth root nxt ch \<longleftrightarrow> root < nxt \<and> pth root = [] \<and>
     (\<forall>n < nxt. \<forall>k c. ch n k = Some c \<longrightarrow> c < nxt \<and> pth c = pth n @ [k])"

lemma tree_inv_walk:
  assumes "tree_inv pth root nxt ch"
  shows "n < nxt \<Longrightarrow> kwalk ch n ps = Some m \<Longrightarrow> m < nxt \<and> pth m = pth n @ ps"
proof (induction ps arbitrary: n)
  case (Cons h hs)
  from Cons.prems(2) obtain c where c: "ch n h = Some c" "kwalk ch c hs = Some m"
    by (auto split: option.splits)
  with assms Cons.prems(1) have "c < nxt" "pth c = pth n @ [h]" by (auto simp: tree_inv_def)
  with Cons.IH [OF this(1) c(2)] show ?case by simp
qed simp

lemma tree_inv_root:
  assumes "tree_inv pth root nxt ch" and "kwalk ch root ps = Some m"
  shows "m < nxt" and "pth m = ps"
  using tree_inv_walk [OF assms(1) _ assms(2)] assms(1) by (simp_all add: tree_inv_def)

lemma walk_unique:
  assumes "tree_inv pth root nxt ch" and "kwalk ch root hs = Some n"
  shows "kwalk ch root ps = Some n \<longleftrightarrow> ps = hs"
  using tree_inv_root [OF assms] tree_inv_root [OF assms(1), of ps n] assms(2) by auto

section \<open>A new child\<close>

definition with_child :: "nat \<Rightarrow> 'k \<Rightarrow> nat \<Rightarrow> (nat \<Rightarrow> 'k \<Rightarrow> nat option) \<Rightarrow> nat \<Rightarrow> 'k \<Rightarrow> nat option" where
  "with_child cur h nd ch n k = (if n = nd then None else if n = cur \<and> k = h then Some nd else ch n k)"

lemma tree_inv_new:
  assumes inv: "tree_inv pth root nxt ch" and cur: "cur < nxt"
  shows "tree_inv (pth(nxt := pth cur @ [h])) root (nxt + 1) (with_child cur h nxt ch)"
  unfolding tree_inv_def
proof (intro conjI allI impI)
  fix n k c assume n: "n < nxt + 1" and c: "with_child cur h nxt ch n k = Some c"
  then have "n < nxt" by (auto simp: with_child_def split: if_splits)
  then show "c < nxt + 1" "(pth(nxt := pth cur @ [h])) c = (pth(nxt := pth cur @ [h])) n @ [k]"
    using c inv cur by (auto simp: with_child_def tree_inv_def less_SucI split: if_splits)
qed (use inv in \<open>auto simp: tree_inv_def\<close>)

text \<open>The walks after a new child: the old ones, and the one that ends at the new node.\<close>

lemma walk_new:
  assumes inv: "tree_inv pth root nxt ch" and cur: "kwalk ch root base = Some cur" and no: "ch cur h = None"
  shows "kwalk (with_child cur h nxt ch) root ps = (if ps = base @ [h] then Some nxt else kwalk ch root ps)"
proof (induction ps rule: rev_induct)
  case Nil
  then show ?case by simp
next
  case (snoc k ps)
  let ?ch = "with_child cur h nxt ch"
  note eqv = walk_unique [OF inv cur, of ps]
  have nnd: "kwalk ch root ps \<noteq> Some nxt" using tree_inv_root(1) [OF inv, of ps nxt] by auto
  have last: "kwalk ch root (base @ h # qs) = None" for qs
    using cur no by (simp add: walk_append)
  show ?case
  proof (cases "ps = base @ [h]")
    case True
    have "kwalk ?ch root (ps @ [k]) = None"
      unfolding walk_append snoc using True by (simp add: with_child_def)
    then show ?thesis using True last [of "[k]"] by simp
  next
    case False
    show ?thesis
      using snoc False eqv nnd no by (auto simp: walk_append with_child_def split: option.splits)
  qed
qed

end
