(* ===== verification/Tarfs_Props.thy ===== *)
theory Tarfs_Props imports Tarfs Node_Tree begin

text \<open>
  The tree of a tar archive: walking along the hashes of names, the invariant of the tree, what
  inserting a path does to it, and the octal numbers of a header.
\<close>

section \<open>Walking the tree\<close>

definition child :: "tarfs \<Rightarrow> nat \<Rightarrow> u64 \<Rightarrow> nat option" where
  "child fs n h = kmap_try_get h (tn_children (tar_nodes fs n))"

abbreviation tar_walk :: "tarfs \<Rightarrow> nat \<Rightarrow> u64 list \<Rightarrow> nat option" where
  "tar_walk fs \<equiv> kwalk (child fs)"

definition tar_inv :: "(nat \<Rightarrow> u64 list) \<Rightarrow> nat \<Rightarrow> tarfs \<Rightarrow> bool" where
  "tar_inv pth root fs \<longleftrightarrow> tree_inv pth root (tar_next fs) (child fs) \<and>
     (\<forall>n < tar_next fs. map_inv (tn_children (tar_nodes fs n)))"

text \<open>What a path leads to: the size of the node and, for a file, the block of its header.\<close>

definition node_data :: "tarfs \<Rightarrow> nat \<Rightarrow> u32 \<times> u32 option" where
  "node_data fs n =
     (tn_size (tar_nodes fs n), if tn_has_offset (tar_nodes fs n) then Some (tn_block_offset (tar_nodes fs n)) else None)"

definition tar_view :: "nat \<Rightarrow> tarfs \<Rightarrow> u64 list \<Rightarrow> (u32 \<times> u32 option) option" where
  "tar_view root fs ps = map_option (node_data fs) (tar_walk fs root ps)"

section \<open>A new child\<close>

lemma tar_new_child:
  assumes inv: "tar_inv pth root fs" and cur: "cur < tar_next fs" and no: "tar_get_child cur nm fs = None"
    and new: "tar_new_node (Some cur) nm fs = (nd, fs1)"
  shows "\<exists>fs2. tar_add_child cur nm nd fs1 = Inr fs2 \<and> nd = tar_next fs \<and> tar_next fs2 = tar_next fs + 1 \<and>
    child fs2 = with_child cur (fnv nm) nd (child fs) \<and>
    (\<forall>n. node_data fs2 n = (if n = nd then (0, None) else node_data fs n)) \<and>
    tar_inv (pth(nd := pth cur @ [fnv nm])) root fs2"
proof -
  have nd: "nd = tar_next fs" "tar_next fs1 = tar_next fs + 1"
    "tar_nodes fs1 = (tar_nodes fs)(nd := \<lparr>tn_parent = Some cur, tn_name = nm, tn_size = 0,
       tn_has_offset = False, tn_block_offset = 0, tn_children = kmap_empty\<rparr>)"
    using new by (auto simp: tar_new_node_def)
  have neq: "cur \<noteq> nd" using cur nd(1) by simp
  have mi: "map_inv (tn_children (tar_nodes fs cur))" using inv cur by (simp add: tar_inv_def)
  from km.add_ok [OF mi, of "fnv nm" nd] obtain m where
    m: "kmap_add (fnv nm) nd (tn_children (tar_nodes fs cur)) = Inr m" "map_inv m"
      "\<forall>k. kmap_try_get k m = (if k = fnv nm then Some nd else kmap_try_get k (tn_children (tar_nodes fs cur)))" by blast
  let ?fs2 = "tar_set cur (\<lambda>x. x\<lparr>tn_children := m\<rparr>) fs1"
  have add: "tar_add_child cur nm nd fs1 = Inr ?fs2"
    using m(1) neq by (simp add: tar_add_child_def nd(3))
  have nx: "tar_next ?fs2 = tar_next fs + 1" by (simp add: tar_set_def nd(2))
  have ch: "child ?fs2 = with_child cur (fnv nm) nd (child fs)"
    using m(3) neq by (auto simp: fun_eq_iff with_child_def child_def tar_set_def nd(3) km.get_empty)
  have dat: "node_data ?fs2 n = (if n = nd then (0, None) else node_data fs n)" for n
    using neq by (auto simp: node_data_def tar_set_def nd(3))
  have mp: "map_inv (tn_children (tar_nodes ?fs2 n))" if "n < tar_next fs + 1" for n
    using that inv m(2) neq by (auto simp: tar_set_def nd kmap_empty_inv tar_inv_def)
  have "tar_inv (pth(nd := pth cur @ [fnv nm])) root ?fs2"
    using tree_inv_new [of pth root "tar_next fs" "child fs" cur "fnv nm"] inv cur mp
    unfolding tar_inv_def nx ch nd(1) by simp
  with add nd(1) nx ch dat show ?thesis by blast
qed

section \<open>Inserting a path\<close>

lemma tar_insert_path_nil:
  "good_path path \<Longrightarrow> path_names path = [] \<Longrightarrow> tar_insert_path path current last_node fs = Inr (last_node, fs)"
  using good_path_step [of path] by (subst tar_insert_path.simps) (auto split: if_splits)

lemma tar_insert_path_ok:
  "tar_inv pth root fs \<Longrightarrow> good_path path \<Longrightarrow> tar_walk fs root base = Some current \<Longrightarrow>
   \<exists>nd fs' pth'. tar_insert_path path current last_node fs =
       Inr (if path_names path = [] then last_node else Some nd, fs') \<and> tar_inv pth' root fs' \<and>
     tar_walk fs' root (base @ map fnv (path_names path)) = Some nd \<and>
     (\<forall>ps. tar_view root fs' ps =
        (if tar_view root fs ps = None \<and> prefix ps (base @ map fnv (path_names path)) then Some (0, None)
         else tar_view root fs ps))"
proof (induction "length path" arbitrary: path current last_node fs base pth rule: less_induct)
  case less
  note inv = less.prems(1) and cur = less.prems(3)
  from good_path_step [OF less.prems(2)] obtain component rest where
    c: "component_loop [] path = Inr (component, rest)" "good_path rest"
      "path_names path = (if component = [] then [] else component # path_names rest)" by blast
  show ?case
  proof (cases "component = []")
    case True
    have "tar_view root fs ps \<noteq> None" if "prefix ps base" for ps
      using that cur by (auto simp: tar_view_def prefix_def walk_append split: option.splits)
    then show ?thesis using True c cur inv by (subst tar_insert_path.simps) auto
  next
    case False
    let ?h = "fnv component"
    have shorter: "length rest < length path" using component_rest_shorter [OF c(1) False] .
    have names: "path_names path = component # path_names rest" using c(3) False by simp
    have ti: "tree_inv pth root (tar_next fs) (child fs)" using inv by (simp add: tar_inv_def)
    have bound: "current < tar_next fs" by (rule tree_inv_root(1) [OF ti cur])
    show ?thesis
    proof (cases "tar_get_child current component fs")
      case (Some m)
      have kwalk: "tar_walk fs root (base @ [?h]) = Some m"
        using cur Some by (simp add: walk_append child_def tar_get_child_def)
      from less.hyps [OF shorter inv c(2) this, of "Some m"] obtain nd fs' pth' where
        r: "tar_insert_path rest m (Some m) fs = Inr (if path_names rest = [] then Some m else Some nd, fs')"
          "tar_inv pth' root fs'" "tar_walk fs' root (base @ map fnv (path_names path)) = Some nd"
          "\<forall>ps. tar_view root fs' ps =
            (if tar_view root fs ps = None \<and> prefix ps (base @ map fnv (path_names path)) then Some (0, None)
             else tar_view root fs ps)" by (auto simp: names)
      have "nd = m" if "path_names rest = []"
        using tar_insert_path_nil [OF c(2) that, of m "Some m" fs] r(1,3) kwalk that names by simp
      then have "tar_insert_path path current last_node fs = Inr (Some nd, fs')"
        using Some c(1) False r(1) by (subst tar_insert_path.simps) auto
      with r(2-4) names show ?thesis by (intro exI [of _ nd] exI [of _ fs'] exI [of _ pth']) simp
    next
      case None
      obtain nd fs1 where new: "tar_new_node (Some current) component fs = (nd, fs1)" by fastforce
      from tar_new_child [OF inv bound None new] obtain fs2 where
        fs2: "tar_add_child current component nd fs1 = Inr fs2" "nd = tar_next fs"
          "child fs2 = with_child current ?h nd (child fs)"
          "\<forall>n. node_data fs2 n = (if n = nd then (0, None) else node_data fs n)"
          "tar_inv (pth(nd := pth current @ [?h])) root fs2" by blast
      have no: "child fs current ?h = None" using None by (simp add: tar_get_child_def child_def)
      have kwalk: "tar_walk fs2 root ps = (if ps = base @ [?h] then Some nd else tar_walk fs root ps)" for ps
        unfolding fs2(2,3) by (rule walk_new [OF ti cur no])
      have "tar_walk fs2 root (base @ [?h]) = Some nd" by (simp add: kwalk)
      from less.hyps [OF shorter fs2(5) c(2) this, of "Some nd"] obtain nd' fs' pth' where
        r: "tar_insert_path rest nd (Some nd) fs2 = Inr (if path_names rest = [] then Some nd else Some nd', fs')"
          "tar_inv pth' root fs'" "tar_walk fs' root (base @ [?h] @ map fnv (path_names rest)) = Some nd'"
          "\<forall>ps. tar_view root fs' ps =
            (if tar_view root fs2 ps = None \<and> prefix ps (base @ [?h] @ map fnv (path_names rest)) then Some (0, None)
             else tar_view root fs2 ps)" by auto
      have v2: "tar_view root fs2 ps = (if ps = base @ [?h] then Some (0, None) else tar_view root fs ps)" for ps
      proof -
        have "tar_walk fs root ps \<noteq> Some nd" using tree_inv_root(1) [OF ti, of ps nd] fs2(2) by auto
        then show ?thesis using fs2(4) by (auto simp: tar_view_def kwalk map_option_case split: option.splits)
      qed
      have "tar_view root fs (base @ [?h]) = None"
        using cur no by (simp add: tar_view_def walk_append)
      then have v': "tar_view root fs' ps =
          (if tar_view root fs ps = None \<and> prefix ps (base @ map fnv (path_names path)) then Some (0, None)
           else tar_view root fs ps)" for ps
        using r(4) by (simp add: v2 names)
      have last_eq: "nd' = nd" if "path_names rest = []"
        using tar_insert_path_nil [OF c(2) that, of nd "Some nd" fs2] r(1,3) kwalk that by simp
      have "tar_insert_path path current last_node fs = Inr (Some nd', fs')"
        using None c(1) False new fs2(1) r(1) last_eq by (subst tar_insert_path.simps) auto
      then show ?thesis using r(2,3) v' names by auto
    qed
  qed
qed

section \<open>Adding an entry\<close>

type_synonym tar_spec = "u64 list \<Rightarrow> (u32 \<times> u32 option) option"

text \<open>An entry of an archive, as the path, the size, the type and the block of its header.\<close>

type_synonym tar_entry = "u8 list list \<times> u32 \<times> u8 \<times> u32"

definition spec_entry :: "tar_entry \<Rightarrow> tar_spec \<Rightarrow> tar_spec" where
  "spec_entry e v = (case e of (names, sz, ty, off) \<Rightarrow>
     \<lambda>ps. if ps = map fnv names
          then Some (sz, if ty \<noteq> 53 then Some off else Option.bind (v ps) snd)
          else if v ps = None \<and> prefix ps (map fnv names) then Some (0, None) else v ps)"

lemma tar_set_view:
  assumes inv: "tar_inv pth root fs" and w: "tar_walk fs root hs = Some nd"
    and ch: "\<And>x. tn_children (f x) = tn_children x"
  shows "tar_inv pth root (tar_set nd f fs) \<and> tar_walk (tar_set nd f fs) root ps = tar_walk fs root ps \<and>
    tar_view root (tar_set nd f fs) ps =
      (if ps = hs then Some (node_data (tar_set nd f fs) nd) else tar_view root fs ps)"
proof -
  have c: "child (tar_set nd f fs) n h = child fs n h" for n h
    by (simp add: child_def tar_set_def ch)
  then have ceq: "child (tar_set nd f fs) = child fs" by (simp add: fun_eq_iff)
  have "tar_inv pth root (tar_set nd f fs)"
    using inv unfolding tar_inv_def ceq by (auto simp: tar_set_def ch)
  moreover have eqv: "tar_walk fs root ps = Some nd \<longleftrightarrow> ps = hs"
    using walk_unique [OF _ w] inv unfolding tar_inv_def by blast
  have "node_data (tar_set nd f fs) m = node_data fs m" if "m \<noteq> nd" for m
    using that by (simp add: node_data_def tar_set_def)
  then have "tar_view root (tar_set nd f fs) ps =
      (if ps = hs then Some (node_data (tar_set nd f fs) nd) else tar_view root fs ps)"
    using eqv w by (auto simp: tar_view_def ceq map_option_case split: option.splits)
  ultimately show ?thesis unfolding ceq by blast
qed

lemma tar_add_entry_ok:
  assumes inv: "tar_inv pth root fs" and path: "good_path path" "path_names path \<noteq> []"
  shows "\<exists>fs' pth'. tar_add_entry path sz ty off root fs = Inr fs' \<and> tar_inv pth' root fs' \<and>
    tar_view root fs' = spec_entry (path_names path, sz, ty, off) (tar_view root fs)"
proof -
  let ?hs = "map fnv (path_names path)"
  have "tar_walk fs root [] = Some root" by simp
  from tar_insert_path_ok [OF inv path(1) this, of None] path(2) obtain nd fs1 pth1 where
    r: "tar_insert_path path root None fs = Inr (Some nd, fs1)" "tar_inv pth1 root fs1"
      "tar_walk fs1 root ?hs = Some nd"
      "\<forall>ps. tar_view root fs1 ps =
        (if tar_view root fs ps = None \<and> prefix ps ?hs then Some (0, None) else tar_view root fs ps)" by auto
  let ?f = "\<lambda>x. x\<lparr>tn_size := sz\<rparr>" and ?g = "\<lambda>x. x\<lparr>tn_has_offset := True, tn_block_offset := off\<rparr>"
  let ?fs2 = "tar_set nd ?f fs1"
  have s: "tar_inv pth1 root ?fs2 \<and> tar_walk ?fs2 root ps = tar_walk fs1 root ps \<and> tar_view root ?fs2 ps =
      (if ps = ?hs then Some (node_data ?fs2 nd) else tar_view root fs1 ps)" for ps
    by (rule tar_set_view [OF r(2,3)]) simp
  then have w2: "tar_walk ?fs2 root ?hs = Some nd" and i2: "tar_inv pth1 root ?fs2" using r(3) by simp_all
  have t: "tar_inv pth1 root (tar_set nd ?g ?fs2) \<and> tar_view root (tar_set nd ?g ?fs2) ps =
      (if ps = ?hs then Some (node_data (tar_set nd ?g ?fs2) nd) else tar_view root ?fs2 ps)" for ps
    using tar_set_view [OF i2 w2, of ?g ps] by simp
  have d1: "node_data fs1 nd = (case tar_view root fs ?hs of None \<Rightarrow> (0, None) | Some d \<Rightarrow> d)"
    using r(4) [rule_format, of ?hs] r(3) by (auto simp: tar_view_def split: option.splits)
  have d2: "node_data ?fs2 nd = (sz, snd (node_data fs1 nd))" by (simp add: node_data_def tar_set_def)
  have d3: "node_data (tar_set nd ?g ?fs2) nd = (sz, Some off)" by (simp add: node_data_def tar_set_def)
  have eq: "tar_add_entry path sz ty off root fs = Inr (if ty \<noteq> 53 then tar_set nd ?g ?fs2 else ?fs2)"
    using r(1) by (simp add: tar_add_entry_def tar_set_size_def tar_set_block_offset_def Let_def)
  show ?thesis
  proof (intro exI [of _ "if ty \<noteq> 53 then tar_set nd ?g ?fs2 else ?fs2"] exI [of _ pth1] conjI ext)
    show "tar_view root (if ty \<noteq> 53 then tar_set nd ?g ?fs2 else ?fs2) ps =
        spec_entry (path_names path, sz, ty, off) (tar_view root fs) ps" for ps
      using s [of ps] t [of ps] r(4) d1 d2 d3
      by (auto simp: spec_entry_def split: option.splits)
  qed (use eq s t in auto)
qed

end
