(* ===== verification/Tarfs_Spec.thy ===== *)
theory Tarfs_Spec imports Tarfs_Props begin

text \<open>
  The properties of the tar file system: the octal numbers, the tree of an archive, which is described by
  the bytes of its format, and reading a file from its blocks.
\<close>

section \<open>Octal numbers\<close>

definition octal_char :: "nat \<Rightarrow> u8" where
  "octal_char d = 48 + of_nat d"

lemma octal_digit_cases:
  "d < 8 \<Longrightarrow> d = 0 \<or> d = 1 \<or> d = 2 \<or> d = 3 \<or> d = 4 \<or> d = 5 \<or> d = 6 \<or> (d :: nat) = 7"
  by arith

lemma octal_char_value:
  assumes "d < 8"
  shows "(scast (octal_char d) :: i32) - 48 = of_nat d" and "octal_char d \<noteq> 0"
  using octal_digit_cases [OF assms] by (elim disjE; simp add: octal_char_def)+

lemma octal_loop_digits:
  assumes "\<forall>d \<in> set ds. d < 8" and "0 < i" and "i \<le> length ds"
  shows "octal_loop (map octal_char ds @ rest) (length ds) i (8 ^ (i - 1)) v =
    v + 8 ^ (i - 1) * of_nat (digits_value 8 (take (length ds - i) (tl ds)))"
  using assms
proof (induction "length ds - i" arbitrary: i v)
  case 0
  then show ?case by (subst octal_loop.simps) (simp add: digits_value_def)
next
  case (Suc k)
  let ?n = "length ds"
  have i: "i < ?n" "?n - (i + 1) = k" "?n - i = Suc k" using Suc.hyps(2) by simp_all
  obtain j where j: "i = Suc j" using Suc.prems(2) by (cases i) auto
  have "?n - i < ?n" using i(1) Suc.prems(2) by simp
  then have nth: "(map octal_char ds @ rest) ! (?n - i) = octal_char (ds ! (?n - i))" "ds ! (?n - i) < 8"
    using Suc.prems(1) by (simp_all add: nth_append)
  have tk: "take (?n - i) (tl ds) = take k (tl ds) @ [ds ! (?n - i)]"
  proof -
    have "k < length (tl ds)" using i(1,3) Suc.prems(2) by simp
    then show ?thesis using i(3) by (simp add: take_Suc_conv_app_nth nth_tl)
  qed
  have "octal_loop (map octal_char ds @ rest) ?n (i + 1) (8 ^ (i + 1 - 1))
      (v + 8 ^ (i - 1) * of_nat (ds ! (?n - i))) =
      v + 8 ^ (i - 1) * of_nat (ds ! (?n - i)) + 8 ^ (i + 1 - 1) * of_nat (digits_value 8 (take (?n - (i + 1)) (tl ds)))"
    using Suc.hyps(1) [of "i + 1"] i Suc.prems by simp
  then show ?case
    using i(1) nth octal_char_value(1) [OF nth(2)] i(2) unfolding tk
    by (subst octal_loop.simps) (simp add: j algebra_simps)
qed

lemma octal2ui_digits:
  assumes "\<forall>d \<in> set ds. d < 8" and "ds \<noteq> []" and "length ds < 2 ^ 64"
  shows "octal2ui (map octal_char ds @ 0 # rest) = Inr (of_nat (digits_value 8 (tl ds)))"
proof -
  let ?s = "map octal_char ds @ 0 # rest"
  have nz: "0 \<notin> set (map octal_char ds)" using assms(1) octal_char_value(2) by force
  then have c: "cstr ?s = map octal_char ds" by (auto simp: cstr_def image_iff intro!: takeWhile_append2 [THEN trans])
  have "is_cstr ?s" by (simp add: is_cstr_def)
  then have "octal2ui ?s = Inr (octal_loop ?s (length ds) 1 1 0)"
    using c unat_of_nat_u64 [OF assms(3)] by (simp add: octal2ui_def kstrlen_eq)
  moreover have "octal_loop ?s (length ds) 1 (8 ^ (1 - 1)) 0 =
      0 + 8 ^ (1 - 1) * of_nat (digits_value 8 (take (length ds - 1) (tl ds)))"
    by (rule octal_loop_digits) (use assms in \<open>auto simp: Suc_le_eq\<close>)
  ultimately show ?thesis by simp
qed

section \<open>Archives\<close>

text \<open>
  \<open>archive_at d off z es\<close>: from block \<open>off\<close>, behind a zero block if \<open>z\<close>, device \<open>d\<close> holds the entries
  \<open>es\<close>; each header can be read and names a path.  The archive ends with two zero blocks or with the
  device.
\<close>

inductive archive_at :: "block_dev \<Rightarrow> i32 \<Rightarrow> bool \<Rightarrow> tar_entry list \<Rightarrow> bool" where
  arch_end: "\<not> scast off < bd_count d \<Longrightarrow> archive_at d off z []"
| arch_stop: "scast off < bd_count d \<Longrightarrow> bd_read d (scast off) 1 = Some h \<Longrightarrow> is_zero_block h 512 = Inr True \<Longrightarrow>
    archive_at d off True []"
| arch_zero: "scast off < bd_count d \<Longrightarrow> bd_read d (scast off) 1 = Some h \<Longrightarrow> is_zero_block h 512 = Inr True \<Longrightarrow>
    archive_at d (off + 1) True es \<Longrightarrow> archive_at d off False es"
| arch_entry: "scast off < bd_count d \<Longrightarrow> bd_read d (scast off) 1 = Some h \<Longrightarrow> is_zero_block h 512 = Inr False \<Longrightarrow>
    octal2ui (hdr_size h) = Inr sz \<Longrightarrow> bd_size d \<noteq> 0 \<Longrightarrow> good_path (hdr_name h) \<Longrightarrow>
    path_names (hdr_name h) \<noteq> [] \<Longrightarrow> archive_at d (off + (1 + file_blocks (bd_size d) sz)) False es \<Longrightarrow>
    archive_at d off z ((path_names (hdr_name h), sz, hdr_typeflag h, off) # es)"

lemma build_loop_archive:
  "archive_at d off z es \<Longrightarrow> tar_inv pth root fs \<Longrightarrow>
   \<exists>n fs' pth'. (\<forall>k \<ge> n. build_loop k d root off head z fs = Inr fs') \<and> tar_inv pth' root fs' \<and>
     tar_view root fs' = fold spec_entry es (tar_view root fs)"
proof (induction arbitrary: fs pth head rule: archive_at.induct)
  case (arch_end off d z)
  have "build_loop k d root off head z fs = Inr fs" if "k \<ge> 1" for k
    using that arch_end(1) by (cases k) auto
  then show ?case using arch_end(2) by auto
next
  case (arch_stop off d h)
  have "build_loop k d root off head True fs = Inr fs" if "k \<ge> 1" for k
    using that arch_stop(1-3) by (cases k) auto
  then show ?case using arch_stop(4) by auto
next
  case (arch_zero off d h es)
  from arch_zero.IH [OF arch_zero.prems, of "Some h"] obtain n fs' pth' where
    n: "\<forall>k \<ge> n. build_loop k d root (off + 1) (Some h) True fs = Inr fs'" "tar_inv pth' root fs'"
      "tar_view root fs' = fold spec_entry es (tar_view root fs)" by blast
  have "build_loop k d root off head False fs = Inr fs'" if "k \<ge> Suc n" for k
    using that arch_zero.hyps(1-3) n(1) by (cases k) auto
  then show ?case using n(2,3) by blast
next
  case (arch_entry off d h sz es z)
  from tar_add_entry_ok [OF arch_entry.prems arch_entry.hyps(6,7), of sz "hdr_typeflag h" off] obtain fs1 pth1 where
    f1: "tar_add_entry (hdr_name h) sz (hdr_typeflag h) off root fs = Inr fs1" "tar_inv pth1 root fs1"
      "tar_view root fs1 = spec_entry (path_names (hdr_name h), sz, hdr_typeflag h, off) (tar_view root fs)" by blast
  from arch_entry.IH [OF f1(2), of "Some h"] obtain n fs' pth' where
    n: "\<forall>k \<ge> n. build_loop k d root (off + (1 + file_blocks (bd_size d) sz)) (Some h) False fs1 = Inr fs'"
      "tar_inv pth' root fs'" "tar_view root fs' = fold spec_entry es (tar_view root fs1)" by blast
  have "build_loop k d root off head z fs = Inr fs'" if "k \<ge> Suc n" for k
    using that arch_entry.hyps(1-5) f1(1) n(1) by (cases k) auto
  then show ?case using n(2,3) f1(3) by auto
qed

lemma tar_new_root:
  assumes "tar_new_node None [] fs = (root, fs1)" and "tar_next fs = 0"
  shows "tar_inv (\<lambda>n. []) root fs1" and "tar_view root fs1 = (\<lambda>ps. if ps = [] then Some (0, None) else None)"
proof -
  have r: "root = 0" "tar_next fs1 = 1" "\<And>h. child fs1 0 h = None" "node_data fs1 0 = (0, None)"
    using assms by (auto simp: tar_new_node_def child_def node_data_def km.get_empty)
  have "map_inv (tn_children (tar_nodes fs1 0))"
    using assms by (auto simp: tar_new_node_def kmap_empty_inv)
  then show "tar_inv (\<lambda>n. []) root fs1" using r by (simp add: tar_inv_def tree_inv_def)
  have "tar_view root fs1 ps = (if ps = [] then Some (0, None) else None)" for ps
    using r by (cases ps) (simp_all add: tar_view_def)
  then show "tar_view root fs1 = (\<lambda>ps. if ps = [] then Some (0, None) else None)" by (rule ext)
qed

section \<open>Reading\<close>

text \<open>
  The bytes of a device: \<open>serves d bs D\<close> says that reads of whole blocks within \<open>D\<close> deliver its bytes.
\<close>

definition serves :: "block_dev \<Rightarrow> nat \<Rightarrow> u8 list \<Rightarrow> bool" where
  "serves d bs D \<longleftrightarrow> bd_size d = of_nat bs \<and> 0 < bs \<and> bs < 2 ^ 31 \<and>
     (\<forall>off n. (unat off + unat n) * bs \<le> length D \<longrightarrow>
        bd_read d off n = Some (take (unat n * bs) (drop (unat off * bs) D)))"

lemma scast_ucast_small:
  assumes "unat w < 2 ^ 31"
  shows "(scast (ucast (w :: u64) :: i32) :: u64) = w"
proof -
  have "unat (ucast w :: i32) = unat w" using assms by (intro unat_ucast_u32) simp
  then have "unat (scast (ucast w :: i32) :: u64) = unat w" using assms scast_u64_pos by metis
  then show ?thesis by (simp only: word_unat_eq_iff)
qed

lemma unat_inc: "unat w + 1 < 2 ^ 64 \<Longrightarrow> unat (w + 1 :: u64) = unat w + 1"
  by (simp add: unat_word_ariths)

text \<open>The number of blocks for \<open>m\<close> bytes, as the source computes it, covers them with less than a block to spare.\<close>

lemma ceil_blocks:
  fixes m b :: nat
  assumes "0 < b" and "nb = (if m mod b \<noteq> 0 then m div b + 1 else m div b)"
  shows "m \<le> nb * b" and "nb * b < m + b"
proof -
  define q where "q = m div b"
  define r where "r = m mod b"
  have "m = q * b + r" "r < b" using assms(1) by (simp_all add: q_def r_def)
  moreover have "nb = (if r \<noteq> 0 then q + 1 else q)" using assms(2) by (simp add: q_def r_def)
  ultimately show "m \<le> nb * b" "nb * b < m + b" by (auto split: if_splits)
qed

lemma blocks_to_read_eq:
  assumes "unat bs = b" and "0 < b" and "unat sz + 2 + b < 2 ^ 31"
  shows "\<exists>nb. unat (scast (blocks_to_read bs sz off) :: u64) = nb \<and>
    unat sz + 1 + unat off mod b \<le> nb * b \<and> nb * b < unat sz + 1 + unat off mod b + b"
proof -
  let ?m = "sz + 1 + off mod bs" and ?M = "unat sz + 1 + unat off mod b"
  have md: "unat (off mod bs) = unat off mod b" using assms(1) by (simp add: unat_mod_distrib)
  have lt: "unat off mod b < b" using assms(2) by simp
  have "unat (sz + 1) = unat sz + 1" using assms(3) by (simp add: unat_word_ariths)
  then have M: "unat ?m = ?M" using assms(3) lt md by (simp add: unat_word_ariths)
  define nb where "nb = (if ?M mod b \<noteq> 0 then ?M div b + 1 else ?M div b)"
  define w where "w = (if ?m mod bs \<noteq> 0 then ?m div bs + 1 else ?m div bs)"
  have c: "?M \<le> nb * b" "nb * b < ?M + b" using ceil_blocks [OF assms(2) nb_def] by simp_all
  have dv: "unat (?m div bs) = ?M div b" "unat (?m mod bs) = ?M mod b"
    using M assms(1) by (simp_all add: unat_div_distrib unat_mod_distrib)
  have le: "?M div b \<le> ?M" by simp
  have "?M + 1 < 2 ^ 64" using assms(3) lt by simp
  then have "unat (?m div bs) + 1 < 2 ^ 64" unfolding dv(1) using le by (meson add_le_mono1 le_less_trans)
  then have "unat (?m div bs + 1) = ?M div b + 1" unfolding dv(1) [symmetric] by (rule unat_inc)
  moreover have "?m mod bs = 0 \<longleftrightarrow> ?M mod b = 0" unfolding dv(2) [symmetric] by (rule unat_eq_0 [symmetric])
  ultimately have w: "unat w = nb" using dv(1) by (cases "?m mod bs = 0") (simp_all only: w_def nb_def simp_thms if_False if_True)
  have "nb \<le> ?M div b + 1" by (simp add: nb_def)
  also have "\<dots> \<le> ?M + 1" using le by (rule add_right_mono)
  finally have "nb \<le> ?M + 1" .
  moreover have "?M + 1 < 2 ^ 31" using assms(3) lt by simp
  ultimately have "nb < 2 ^ 31" by (rule le_less_trans)
  then have "(scast (ucast w :: i32) :: u64) = w" using w by (intro scast_ucast_small) simp
  moreover have "blocks_to_read bs sz off = ucast w" by (simp add: blocks_to_read_def w_def Let_def)
  ultimately show ?thesis using w c by simp
qed

lemma tar_pread_slice:
  assumes dev: "serves d bs D" and fsz: "tar_file_size f = Inr fsz"
    and small: "unat fsz + 2 + 2 * bs < 2 ^ 31" and nw: "unat off + unat size0 < 2 ^ 64"
    and room: "(unat (tf_start_block f) + unat fsz div bs + 2) * bs \<le> length D"
  shows "tar_pread d f size0 off =
    Inr (take (unat size0) (drop (unat off) (take (unat fsz) (drop (unat (tf_start_block f) * bs) D))))"
proof -
  let ?N = "unat fsz" and ?o = "unat off" and ?s0 = "unat size0" and ?sb = "unat (tf_start_block f)"
  define sz where "sz = (if off + size0 > ucast fsz then size0 - (off + size0 - ucast fsz) else size0)"
  have bs: "bd_size d = of_nat bs" "0 < bs" "bs < 2 ^ 31" using dev by (simp_all add: serves_def)
  have ub: "unat (of_nat bs :: u64) = bs" using bs(3) by (intro unat_of_nat_u64) simp
  have blk: "(scast (ucast (bd_size d) :: i32) :: u64) = of_nat bs"
    unfolding bs(1) by (rule scast_ucast_small) (use ub bs(3) in simp)
  have bz: "(of_nat bs :: u64) \<noteq> 0" using ub bs(2) by (metis unat_0 less_irrefl)
  show ?thesis
  proof (cases "?o < ?N")
    case False
    then have "off \<ge> ucast fsz" by (simp add: word_le_nat_alt)
    then show ?thesis using fsz False by (simp add: tar_pread_def Let_def)
  next
    case True
    then have lt: "\<not> off \<ge> ucast fsz" by (simp add: word_le_nat_alt)
    have sum: "unat (off + size0) = ?o + ?s0" using nw by (simp add: unat_word_ariths)
    have sz: "unat sz = min ?s0 (?N - ?o)"
    proof (cases "?o + ?s0 > ?N")
      case True
      have "sz = ucast fsz - off" using True sum by (simp add: sz_def word_less_nat_alt)
      moreover have "unat (ucast fsz - off) = ?N - ?o"
        using lt by (subst unat_sub) (simp_all add: word_le_nat_alt)
      ultimately show ?thesis using True \<open>?o < ?N\<close> by simp
    next
      case False
      then show ?thesis using sum by (simp add: sz_def word_less_nat_alt)
    qed
    show ?thesis
    proof (cases "sz = 0")
      case True
      then have "?s0 = 0" using sz \<open>?o < ?N\<close> by simp
      then show ?thesis using True fsz by (simp add: tar_pread_def sz_def [symmetric] Let_def)
    next
      case False
      have szN: "unat sz \<le> ?N - ?o" using sz by simp
      then have "unat sz + 2 + bs < 2 ^ 31" using small by linarith
      from blocks_to_read_eq [OF ub bs(2) this, of off] obtain nb where
        nb: "unat (scast (blocks_to_read (of_nat bs) sz off) :: u64) = nb"
          "unat sz + 1 + ?o mod bs \<le> nb * bs" "nb * bs < unat sz + 1 + ?o mod bs + bs" by blast
      have om: "?o = ?o div bs * bs + ?o mod bs" "?N < ?N div bs * bs + bs"
        using bs(2) div_mult_mod_eq [of ?N bs] mod_less_divisor [of bs ?N] by (simp, linarith)
      let ?b = "ucast (tf_start_block f) + off div of_nat bs :: u64"
      have dv: "unat (off div of_nat bs) = ?o div bs" "unat (off mod of_nat bs) = ?o mod bs"
        using ub by (simp_all add: unat_div_distrib unat_mod_distrib)
      have "?sb < 2 ^ 32" using unsigned_less [of "tf_start_block f", where ?'a = nat] by simp
      then have "?sb + ?o < 2 ^ 64" using \<open>?o < ?N\<close> small by simp
      then have "unat (ucast (tf_start_block f) :: u64) + unat (off div of_nat bs) < 2 ^ 64"
        unfolding dv(1) unat_ucast_u64 using div_le_dividend [of ?o bs] by (meson add_left_mono le_less_trans)
      then have b: "unat ?b = ?sb + ?o div bs"
        unfolding dv(1) [symmetric] by (simp add: unat_plus_if')
      have "(?sb + ?o div bs + nb) * bs \<le> (?sb + ?N div bs + 2) * bs"
        using nb(3) om szN \<open>?o < ?N\<close> by (simp only: distrib_right)
      then have fits: "(unat ?b + nb) * bs \<le> length D" using room b by simp
      then have rd: "bd_read d ?b (scast (blocks_to_read (of_nat bs) sz off)) =
          Some (take (nb * bs) (drop ((?sb + ?o div bs) * bs) D))"
        using dev nb(1) b by (simp add: serves_def)
      have len: "unat sz + ?o mod bs \<le> nb * bs" using nb(2) by simp
      have "length D - (?sb + ?o div bs) * bs \<ge> nb * bs"
        using fits b by (simp add: distrib_right)
      then have lb: "length (take (nb * bs) (drop ((?sb + ?o div bs) * bs) D)) = nb * bs" by simp
      have "take (unat sz) (drop (?o mod bs) (take (nb * bs) (drop ((?sb + ?o div bs) * bs) D))) =
          take (unat sz) (drop (?sb * bs + ?o) D)"
      proof -
        have "?o mod bs + (?sb + ?o div bs) * bs = ?sb * bs + ?o" using om(1) by (simp add: distrib_right)
        then show ?thesis using len by (simp add: drop_take min_def)
      qed
      moreover have "take ?s0 (drop ?o (take ?N (drop (?sb * bs) D))) = take (unat sz) (drop (?sb * bs + ?o) D)"
        using sz by (simp add: drop_take add.commute)
      ultimately show ?thesis
        using fsz lt False rd lb len bz
        by (simp add: tar_pread_def sz_def [symmetric] blk dv Let_def add.commute)
    qed
  qed
qed

section \<open>A device in memory\<close>

definition mem_dev :: "nat \<Rightarrow> u8 list \<Rightarrow> block_dev" where
  "mem_dev bs D = \<lparr>bd_size = of_nat bs, bd_count = of_nat (length D div bs),
     bd_read = (\<lambda>off n. if (unat off + unat n) * bs \<le> length D
                        then Some (take (unat n * bs) (drop (unat off * bs) D)) else None)\<rparr>"

lemma serves_mem_dev: "0 < bs \<Longrightarrow> bs < 2 ^ 31 \<Longrightarrow> serves (mem_dev bs D) bs D"
  by (simp add: serves_def mem_dev_def)

text \<open>An archive of one file \<open>a\<close> of eight bytes.\<close>

definition small_header :: "u8 list" where
  "small_header = 97 # replicate 123 0 @ map octal_char [0, 1, 0] @ 0 # replicate 384 0"

definition small_archive :: block_dev where
  "small_archive = mem_dev 512 (small_header @ replicate 512 65)"

lemma small_header_facts:
  "length small_header = 512" "is_zero_block small_header 512 = Inr False"
  "octal2ui (hdr_size small_header) = Inr 8" "path_names (hdr_name small_header) = [[97]]"
  "good_path (hdr_name small_header)" "hdr_typeflag small_header = 0"
proof -
  show "length small_header = 512" by (simp add: small_header_def)
  have "is_zero_block (97 # b) (Suc 511) = Inr False" for b by (subst is_zero_block.simps) simp
  then show "is_zero_block small_header 512 = Inr False" by (simp add: small_header_def)
  have d: "hdr_size small_header = map octal_char [0, 1, 0] @ 0 # replicate 384 0"
    by (simp add: hdr_size_def small_header_def drop_Cons' )
  show "octal2ui (hdr_size small_header) = Inr 8"
    unfolding d by (subst octal2ui_digits) (simp_all add: digits_value_def)
  have "replicate 123 (0 :: u8) = 0 # replicate 122 0" by (simp add: replicate_Suc [symmetric] del: replicate_Suc)
  then have c: "cstr (hdr_name small_header) = [97]" by (simp add: hdr_name_def small_header_def)
  show "path_names (hdr_name small_header) = [[97]]" by (simp add: path_names_def c)
  show "good_path (hdr_name small_header)"
    by (simp add: good_path_def c) (simp add: is_cstr_def hdr_name_def small_header_def)
  show "hdr_typeflag small_header = 0"
    by (simp add: hdr_typeflag_def small_header_def nth_append nth_Cons')
qed

lemma small_archive_at: "archive_at small_archive 0 False [([[97]], 8, 0, 0)]"
proof -
  have fb: "file_blocks (bd_size small_archive) 8 = 1" by (simp add: file_blocks_def small_archive_def mem_dev_def)
  have c: "bd_count small_archive = 2" "bd_size small_archive = 512"
    by (simp_all add: small_archive_def mem_dev_def small_header_facts(1))
  have rd: "bd_read small_archive 0 1 = Some small_header"
    by (simp add: small_archive_def mem_dev_def small_header_facts(1))
  have "archive_at small_archive (0 + (1 + file_blocks (bd_size small_archive) 8)) False []"
    unfolding fb by (rule arch_end) (simp add: c)
  from arch_entry [OF _ _ small_header_facts(2,3) _ small_header_facts(5) _ this, of False] show ?thesis
    by (simp add: c rd small_header_facts)
qed

section \<open>Archives as bytes\<close>

text \<open>
  A tar archive by its format alone: each member is a header of 512 bytes followed by its data, filled
  up with zeros to a multiple of 512, and two blocks of zeros end the archive. In the header the name
  takes 100 bytes, the mode and the owners 24, the size 12, the time and the checksum 20, the type one
  and the fields from the link name on 355. The size is written with eleven octal digits, filled up
  with zeros on the left, and a zero byte.
\<close>

record tar_member =
  tm_path :: "u8 list"
  tm_type :: u8
  tm_data :: "u8 list"
  tm_owner :: "u8 list"
  tm_time :: "u8 list"
  tm_tail :: "u8 list"

definition octal_digits :: "nat \<Rightarrow> nat list" where
  "octal_digits n = map (\<lambda>i. n div 8 ^ i mod 8) (rev [0..<11])"

definition octal_field :: "nat \<Rightarrow> u8 list" where
  "octal_field n = map octal_char (octal_digits n) @ [0]"

definition header_bytes :: "tar_member \<Rightarrow> u8 list" where
  "header_bytes m = tm_path m @ replicate (100 - length (tm_path m)) 0 @ tm_owner m @
     octal_field (length (tm_data m)) @ tm_time m @ [tm_type m] @ tm_tail m"

definition member_bytes :: "tar_member \<Rightarrow> u8 list" where
  "member_bytes m = header_bytes m @ tm_data m @ replicate ((512 - length (tm_data m) mod 512) mod 512) 0"

definition tar_bytes :: "tar_member list \<Rightarrow> u8 list" where
  "tar_bytes ms = concat (map member_bytes ms) @ replicate 1024 0"

definition member_ok :: "tar_member \<Rightarrow> bool" where
  "member_ok m \<longleftrightarrow> tm_path m \<noteq> [] \<and> hd (tm_path m) \<noteq> 47 \<and> 0 \<notin> set (tm_path m) \<and> length (tm_path m) < 100 \<and>
     length (tm_data m) < 8 ^ 10 \<and> length (tm_owner m) = 24 \<and> length (tm_time m) = 20 \<and> length (tm_tail m) = 355"

text \<open>The components of the name, up to an empty one.\<close>

definition member_names :: "tar_member \<Rightarrow> u8 list list" where
  "member_names m = takeWhile (\<lambda>p. p \<noteq> []) (parts 47 (tm_path m) [])"

text \<open>The members as entries, each with the number of the block where its bytes begin.\<close>

fun tar_entries :: "nat \<Rightarrow> tar_member list \<Rightarrow> tar_entry list" where
  "tar_entries k [] = []"
| "tar_entries k (m # ms) =
     (member_names m, of_nat (length (tm_data m)), tm_type m, of_nat k) #
     tar_entries (k + length (member_bytes m) div 512) ms"

text \<open>A device with blocks of 512 bytes that holds an archive, and anything behind it.\<close>

definition tar_device :: "block_dev \<Rightarrow> tar_member list \<Rightarrow> bool" where
  "tar_device d ms \<longleftrightarrow> (\<forall>m \<in> set ms. member_ok m) \<and> (\<exists>rest. serves d 512 (tar_bytes ms @ rest)) \<and>
     length (tar_bytes ms) div 512 \<le> unat (bd_count d) \<and> length (tar_bytes ms) < 512 * 2 ^ 31"

lemma digits_value_positions:
  "0 < b \<Longrightarrow> digits_value b (map (\<lambda>i. n div b ^ i mod b) (rev [0..<k])) = n mod b ^ k"
proof (induction k)
  case 0
  then show ?case by (simp add: digits_value_def)
next
  case (Suc k)
  have "digits_value b (x # xs) = x * b ^ length xs + digits_value b xs" for x and xs :: "nat list"
  proof (induction xs rule: rev_induct)
    case (snoc y ys)
    have "digits_value b (x # ys @ [y]) = digits_value b (x # ys) * b + y"
      using digits_value_snoc [of b "x # ys" y] by simp
    then show ?case using snoc by (simp add: algebra_simps)
  qed (simp add: digits_value_def)
  then show ?case
    using Suc mod_mult2_eq [of n "b ^ k" b] by (simp add: mult.commute)
qed

lemma octal_digits_less: "x \<in> set (octal_digits n) \<Longrightarrow> x < 8"
  by (auto simp: octal_digits_def)

lemma octal_digits_tl: "tl (octal_digits n) = map (\<lambda>i. n div 8 ^ i mod 8) (rev [0..<10])"
proof -
  have "rev [0..<11] = 10 # rev [0..<(10 :: nat)]" using upt_Suc_append [of 0 10] by simp
  then show ?thesis by (simp add: octal_digits_def)
qed

lemma octal_field_value: "octal2ui (octal_field n @ rest) = Inr (of_nat (n mod 8 ^ 10))"
proof -
  have l: "length (octal_digits n) = 11" by (simp add: octal_digits_def)
  then have "octal2ui (map octal_char (octal_digits n) @ 0 # rest) = Inr (of_nat (digits_value 8 (tl (octal_digits n))))"
    by (intro octal2ui_digits) (auto dest: octal_digits_less)
  then show ?thesis unfolding octal_digits_tl by (simp add: octal_field_def digits_value_positions)
qed

lemma parts_hd: "cur \<noteq> [] \<Longrightarrow> takeWhile (\<lambda>p. p \<noteq> []) (parts d cs cur) \<noteq> []"
  by (induction d cs cur rule: parts.induct) auto

lemma parts_lengths: "p \<in> set (parts d cs cur) \<Longrightarrow> length p \<le> length cur + length cs"
  by (induction d cs cur rule: parts.induct) (auto split: if_splits)

lemma member_names_ne: "member_ok m \<Longrightarrow> member_names m \<noteq> []"
  by (cases "tm_path m") (simp_all add: member_ok_def member_names_def parts_hd)

lemma header_facts:
  assumes "member_ok m"
  shows "length (header_bytes m) = 512" and "is_zero_block (header_bytes m) 512 = Inr False"
    and "octal2ui (hdr_size (header_bytes m)) = Inr (of_nat (length (tm_data m)))"
    and "path_names (hdr_name (header_bytes m)) = member_names m" and "good_path (hdr_name (header_bytes m))"
    and "hdr_typeflag (header_bytes m) = tm_type m"
proof -
  note ok = assms [unfolded member_ok_def]
  let ?name = "tm_path m @ replicate (100 - length (tm_path m)) 0"
  have ln: "length ?name = 100" and lf: "length (octal_field n) = 12" for n
    using ok by (simp_all add: octal_field_def octal_digits_def)
  show "length (header_bytes m) = 512" using ok lf by (simp add: header_bytes_def)
  obtain c cs where c: "header_bytes m = c # cs" "c \<noteq> 0"
    using ok by (cases "tm_path m") (auto simp: header_bytes_def)
  then show "is_zero_block (header_bytes m) 512 = Inr False"
    using is_zero_block.simps(3) [of c cs 511] by simp
  have "hdr_size (header_bytes m) = octal_field (length (tm_data m)) @ tm_time m @ [tm_type m] @ tm_tail m"
  proof -
    have "header_bytes m = (?name @ tm_owner m) @ octal_field (length (tm_data m)) @ tm_time m @ [tm_type m] @ tm_tail m"
      by (simp add: header_bytes_def)
    moreover have "length (?name @ tm_owner m) = 124" using ln ok by simp
    ultimately show ?thesis unfolding hdr_size_def by (metis append_eq_conv_conj)
  qed
  then show "octal2ui (hdr_size (header_bytes m)) = Inr (of_nat (length (tm_data m)))"
    using ok by (simp add: octal_field_value)
  obtain j where "100 - length (tm_path m) = Suc j" using ok by (cases "100 - length (tm_path m)") auto
  then have h: "hdr_name (header_bytes m) = tm_path m @ 0 # replicate j 0 @ tm_owner m @
      octal_field (length (tm_data m)) @ tm_time m @ [tm_type m] @ tm_tail m"
    by (simp add: hdr_name_def header_bytes_def)
  then have cs: "cstr (hdr_name (header_bytes m)) = tm_path m"
    using ok by (auto simp: cstr_def intro!: takeWhile_append2 [THEN trans])
  then show "path_names (hdr_name (header_bytes m)) = member_names m" by (simp add: path_names_def member_names_def)
  show "good_path (hdr_name (header_bytes m))"
    unfolding good_path_def cs using ok parts_lengths [of _ 47 "tm_path m" "[]"] by (force simp: is_cstr_def h)
  have "header_bytes m = (?name @ tm_owner m @ octal_field (length (tm_data m)) @ tm_time m) @ tm_type m # tm_tail m"
    by (simp add: header_bytes_def)
  moreover have "length (?name @ tm_owner m @ octal_field (length (tm_data m)) @ tm_time m) = 156"
    using ln lf ok by simp
  ultimately show "hdr_typeflag (header_bytes m) = tm_type m" unfolding hdr_typeflag_def by (metis nth_append_length)
qed

text \<open>The blocks of a member, and the number of blocks the code skips.\<close>

definition data_blocks :: "tar_member \<Rightarrow> nat" where
  "data_blocks m = (length (tm_data m) + 511) div 512"

lemma data_blocks_eq:
  "data_blocks m = length (tm_data m) div 512 + (if length (tm_data m) mod 512 = 0 then 0 else 1)"
proof -
  define q where "q = length (tm_data m) div 512"
  define r where "r = length (tm_data m) mod 512"
  have "length (tm_data m) = 512 * q + r" "r < 512" by (simp_all add: q_def r_def)
  moreover from this have "data_blocks m = q + (r + 511) div 512" unfolding data_blocks_def by simp
  moreover have "(r + 511) div 512 = (if r = 0 then 0 else 1)" if "r < 512" for r :: nat
    using that by (simp add: div_nat_eqI)
  ultimately show ?thesis by (simp add: q_def [symmetric] r_def [symmetric])
qed

lemma member_bytes_length: "member_ok m \<Longrightarrow> length (member_bytes m) = 512 * (1 + data_blocks m)"
proof -
  assume ok: "member_ok m"
  define q where "q = length (tm_data m) div 512"
  define r where "r = length (tm_data m) mod 512"
  have "length (tm_data m) = 512 * q + r" "r < 512" by (simp_all add: q_def r_def)
  moreover from this have "data_blocks m = q + (if r = 0 then 0 else 1)" by (simp add: data_blocks_eq)
  ultimately show ?thesis
    using header_facts(1) [OF ok] by (cases "r = 0") (simp_all add: member_bytes_def)
qed

lemma file_blocks_data:
  assumes "length (tm_data m) < 8 ^ 10"
  shows "file_blocks 512 (of_nat (length (tm_data m))) = of_nat (data_blocks m)"
proof -
  let ?L = "length (tm_data m)"
  let ?w = "ucast (of_nat ?L :: u32) :: u64"
  have w: "unat ?w = ?L" using assms by (simp add: unat_of_nat_u32)
  have q: "unat (?w div 512) = ?L div 512" "unat (?w mod 512) = ?L mod 512"
    using w by (simp_all add: unat_div_distrib unat_mod_distrib)
  have le: "?L div 512 + 1 < 2 ^ 32" using assms by simp
  have q1: "unat (?w div 512 + 1) = ?L div 512 + 1" using q(1) le by (subst unat_inc) simp_all
  have z: "?w mod 512 = 0 \<longleftrightarrow> ?L mod 512 = 0" unfolding q(2) [symmetric] by (rule unat_eq_0 [symmetric])
  have u: "(ucast x :: i32) = of_nat n" if "unat x = n" "n < 2 ^ 32" for x :: u64 and n
    using that by (simp only: word_unat_eq_iff unat_ucast_u32 unat_of_nat_u32)
  have "data_blocks m = (if ?L mod 512 = 0 then ?L div 512 else ?L div 512 + 1)" by (simp add: data_blocks_eq)
  then show ?thesis
    using u [OF q(1)] u [OF q1] le z by (simp add: file_blocks_def)
qed

text \<open>A block of a device, by its bytes.\<close>

lemma tar_block:
  assumes s: "serves d 512 (pre @ b @ rest)" and l: "length pre = 512 * k" "length b = 512"
    and k: "k < 2 ^ 31" "k < unat (bd_count d)"
  shows "(scast (of_nat k :: i32) :: u64) < bd_count d" and "bd_read d (scast (of_nat k :: i32)) 1 = Some b"
    and "bd_read d (ucast (of_nat k :: u32)) 1 = Some b"
proof -
  have u: "unat (of_nat k :: i32) = k" using k(1) by (intro unat_of_nat_u32) simp
  then have sc: "unat (scast (of_nat k :: i32) :: u64) = k" using k(1) scast_u64_pos [of "of_nat k"] by simp
  then show "(scast (of_nat k :: i32) :: u64) < bd_count d" using k(2) by (simp add: word_less_nat_alt)
  have rd: "bd_read d off 1 = Some b" if "unat off = k" for off
  proof -
    have "(unat off + unat (1 :: u64)) * 512 \<le> length (pre @ b @ rest)" using l that by simp
    then have "bd_read d off 1 = Some (take (unat (1 :: u64) * 512) (drop (unat off * 512) (pre @ b @ rest)))"
      using s unfolding serves_def by blast
    then show ?thesis using l that by simp
  qed
  show "bd_read d (scast (of_nat k :: i32)) 1 = Some b" by (rule rd [OF sc])
  show "bd_read d (ucast (of_nat k :: u32)) 1 = Some b" by (rule rd) (use u in simp)
qed

lemma zero_block: "is_zero_block (replicate n 0) n = Inr True"
  by (induction n) auto

lemma archive_end:
  assumes s: "serves d 512 (pre @ replicate 1024 0 @ rest)" and l: "length pre = 512 * k"
    and k: "k + 2 \<le> 2 ^ 31" "k + 2 \<le> unat (bd_count d)"
  shows "archive_at d (of_nat k) z []"
proof -
  have two: "replicate 1024 (0 :: u8) = replicate 512 0 @ replicate 512 0" by (simp add: replicate_add [symmetric])
  have s1: "serves d 512 (pre @ replicate 512 0 @ replicate 512 0 @ rest)"
    and s2: "serves d 512 ((pre @ replicate 512 0) @ replicate 512 0 @ rest)" using s by (simp_all add: two)
  note b1 = tar_block [OF s1 l] and b2 = tar_block [OF s2, of "k + 1"]
  have stop: "archive_at d (of_nat (k + 1)) True []" using b2 k l by (intro arch_stop [OF _ _ zero_block]) simp_all
  show ?thesis
  proof (cases z)
    case True
    then show ?thesis using b1 k arch_stop [OF _ _ zero_block] by simp
  next
    case False
    have "archive_at d (of_nat k + 1) True []" using stop by (simp add: add.commute)
    with False b1 k show ?thesis using arch_zero [OF _ _ zero_block] by simp
  qed
qed

lemma archive_members:
  "serves d 512 (pre @ tar_bytes ms @ rest) \<Longrightarrow> length pre = 512 * k \<Longrightarrow> \<forall>m \<in> set ms. member_ok m \<Longrightarrow>
     length (pre @ tar_bytes ms) \<le> 512 * 2 ^ 31 \<Longrightarrow> length (pre @ tar_bytes ms) div 512 \<le> unat (bd_count d) \<Longrightarrow>
     archive_at d (of_nat k) z (tar_entries k ms)"
proof (induction ms arbitrary: pre k z)
  case Nil
  then show ?case unfolding tar_entries.simps by (intro archive_end [of d pre rest]) (simp_all add: tar_bytes_def)
next
  case (Cons m ms)
  have ok: "member_ok m" using Cons.prems(3) by simp
  note h = header_facts [OF ok]
  have lm: "length (member_bytes m) = 512 * (1 + data_blocks m)" by (rule member_bytes_length [OF ok])
  have bytes: "tar_bytes (m # ms) = member_bytes m @ tar_bytes ms" by (simp add: tar_bytes_def)
  obtain body where body: "member_bytes m = header_bytes m @ body" by (simp add: member_bytes_def)
  have "512 * k + 512 * (1 + data_blocks m) + 1024 \<le> length (pre @ tar_bytes (m # ms))"
    using Cons.prems(2) lm by (simp add: bytes tar_bytes_def)
  then have k: "k < 2 ^ 31" "k < unat (bd_count d)" using Cons.prems(4,5) by linarith+
  have s: "serves d 512 (pre @ header_bytes m @ body @ tar_bytes ms @ rest)" using Cons.prems(1) by (simp add: bytes body)
  note b = tar_block [OF s Cons.prems(2) h(1) k]
  have fs: "bd_size d = 512" using s by (simp add: serves_def)
  have "archive_at d (of_nat (k + 1 + data_blocks m)) False (tar_entries (k + 1 + data_blocks m) ms)"
    using Cons.IH [of "pre @ member_bytes m" "k + 1 + data_blocks m"] Cons.prems lm by (simp add: bytes)
  moreover have "of_nat (k + 1 + data_blocks m) =
      (of_nat k :: i32) + (1 + file_blocks (bd_size d) (of_nat (length (tm_data m))))"
    using ok by (simp add: fs file_blocks_data member_ok_def)
  ultimately have "archive_at d (of_nat k + (1 + file_blocks (bd_size d) (of_nat (length (tm_data m))))) False
      (tar_entries (k + 1 + data_blocks m) ms)" by (simp only:)
  from arch_entry [OF b(1,2) h(2,3) _ h(5) _ this] have
    "archive_at d (of_nat k) z ((member_names m, of_nat (length (tm_data m)), tm_type m, of_nat k) #
       tar_entries (k + 1 + data_blocks m) ms)"
    using h(4,6) member_names_ne [OF ok] fs by simp
  then show ?case by (simp add: lm)
qed

lemma tar_device_archive: "tar_device d ms \<Longrightarrow> archive_at d 0 False (tar_entries 0 ms)"
  using archive_members [of d "[]" ms _ 0 False] by (auto simp: tar_device_def)

text \<open>The view keeps what a later entry does not touch, and reading a member gives its data.\<close>

lemma spec_entries_keep:
  "v ps = Some x \<Longrightarrow> \<forall>(names, sz, ty, off) \<in> set es. map fnv names \<noteq> ps \<Longrightarrow> fold spec_entry es v ps = Some x"
  by (induction es arbitrary: v) (auto simp: spec_entry_def split: prod.splits)

lemma tar_entries_names: "(\<lambda>(names, sz, ty, off). names) ` set (tar_entries k ms) = member_names ` set ms"
  by (induction k ms rule: tar_entries.induct) auto

definition blocks_before :: "tar_member list \<Rightarrow> nat" where
  "blocks_before ms = (\<Sum>m \<leftarrow> ms. length (member_bytes m) div 512)"

lemma tar_entries_append: "tar_entries k (as @ bs) = tar_entries k as @ tar_entries (k + blocks_before as) bs"
  by (induction as arbitrary: k) (simp_all add: blocks_before_def add.assoc)

lemma tar_view_last:
  assumes "tm_type m \<noteq> 53" and "\<forall>m' \<in> set bs. map fnv (member_names m') \<noteq> map fnv (member_names m)"
  shows "fold spec_entry (tar_entries 0 (as @ m # bs)) v (map fnv (member_names m)) =
    Some (of_nat (length (tm_data m)), Some (of_nat (blocks_before as)))"
proof -
  have "\<forall>(names, sz, ty, off) \<in> set (tar_entries k bs). map fnv names \<noteq> map fnv (member_names m)" for k
    using assms(2) tar_entries_names [of k bs] by force
  from spec_entries_keep [OF _ this] show ?thesis
    using assms(1) by (simp add: tar_entries_append spec_entry_def)
qed

lemma concat_members_length:
  "\<forall>m \<in> set ms. member_ok m \<Longrightarrow> length (concat (map member_bytes ms)) = 512 * blocks_before ms"
  by (induction ms) (simp_all add: blocks_before_def member_bytes_length algebra_simps)

lemma tar_read_member:
  assumes dev: "tar_device d (as @ m # bs)"
  shows "\<exists>f. tar_file_new d (of_nat (blocks_before as)) = Inr f \<and> tar_file_size f = Inr (of_nat (length (tm_data m))) \<and>
    (\<forall>off n. unat off + unat n < 2 ^ 64 \<longrightarrow>
       tar_pread d f n off = Inr (take (unat n) (drop (unat off) (tm_data m))))"
proof -
  let ?k = "blocks_before as" and ?L = "length (tm_data m)"
  let ?A = "concat (map member_bytes as)" and ?B = "concat (map member_bytes bs)"
  let ?z = "replicate ((512 - ?L mod 512) mod 512) 0"
  obtain rest where s: "serves d 512 (tar_bytes (as @ m # bs) @ rest)" and ok: "member_ok m" "\<forall>m \<in> set as. member_ok m"
    and big: "length (tar_bytes (as @ m # bs)) < 512 * 2 ^ 31"
    and cnt: "length (tar_bytes (as @ m # bs)) div 512 \<le> unat (bd_count d)" using dev by (auto simp: tar_device_def)
  note h = header_facts [OF ok(1)] and lm = member_bytes_length [OF ok(1)]
  have lA: "length ?A = 512 * ?k" by (rule concat_members_length [OF ok(2)])
  define D where "D = ?A @ header_bytes m @ tm_data m @ ?z @ ?B @ replicate 1024 0 @ rest"
  have D: "tar_bytes (as @ m # bs) @ rest = D" by (simp add: D_def tar_bytes_def member_bytes_def)
  have lt: "length (tar_bytes (as @ m # bs)) = 512 * (?k + 1 + data_blocks m) + length ?B + 1024"
    using lA lm by (simp add: tar_bytes_def)
  have "512 * ?k + 512 \<le> length (tar_bytes (as @ m # bs))" unfolding lt by (simp add: distrib_left)
  then have k: "?k < 2 ^ 31" "?k < unat (bd_count d)" using big cnt by linarith+
  have s': "serves d 512 (?A @ header_bytes m @ (tm_data m @ ?z @ ?B @ replicate 1024 0 @ rest))"
    using s D by (simp add: D_def)
  let ?f = "\<lparr>tf_hdr = header_bytes m, tf_start_block = of_nat ?k + 1, tf_pos = 0\<rparr>"
  have f: "tar_file_new d (of_nat ?k) = Inr ?f"
    using tar_block(3) [OF s' lA h(1) k] by (simp add: tar_file_new_def)
  have sz: "tar_file_size ?f = Inr (of_nat ?L)" using h(3) by (simp add: tar_file_size_def)
  have L: "?L < 8 ^ 10" using ok(1) by (simp add: member_ok_def)
  then have uL: "unat (of_nat ?L :: u32) = ?L" by (intro unat_of_nat_u32) simp
  have "unat (of_nat (?k + 1) :: u32) = ?k + 1" using k(1) by (intro unat_of_nat_u32) simp
  then have st: "unat (tf_start_block ?f) = ?k + 1" by (simp add: add.commute)
  have "?L div 512 \<le> data_blocks m" by (simp add: data_blocks_eq)
  then have room: "(unat (tf_start_block ?f) + unat (of_nat ?L :: u32) div 512 + 2) * 512 \<le> length D"
    unfolding st uL using lt D [symmetric] by simp
  have "take ?L (drop ((?k + 1) * 512) D) = tm_data m"
    using lA h(1) by (simp add: D_def)
  then have "tar_pread d ?f n off = Inr (take (unat n) (drop (unat off) (tm_data m)))"
    if "unat off + unat n < 2 ^ 64" for off n
    using tar_pread_slice [OF s [unfolded D] sz _ that room] L unfolding st uL by simp
  with f sz show ?thesis by blast
qed

section \<open>Properties\<close>

lemma digits_value_less: "\<forall>x \<in> set ds. x < b \<Longrightarrow> digits_value b ds < b ^ length ds"
proof (induction ds rule: rev_induct)
  case (snoc d ds)
  then have "digits_value b ds + 1 \<le> b ^ length ds" "d < b" by simp_all
  then have "(digits_value b ds + 1) * b \<le> b ^ length ds * b" by (simp only: mult_le_mono1)
  with \<open>d < b\<close> show ?case by (simp add: algebra_simps)
qed (simp add: digits_value_def)

text \<open>C23: the size field of a header, any octal digits up to a zero byte, is read as the number that its
  digits behind the first one denote, leading zeros included, when these are at most ten: the first digit
  is lost. So the eleven digits of a size, filled up with zeros on the left, are read as the size modulo
  \<open>8 ^ 10\<close>, which is the size of every file below 1 GiB.\<close>

theorem octal_size_field:
  assumes "d < 8" and "\<forall>x \<in> set ds. x < 8" and "length ds \<le> 10"
  shows "(\<exists>v. octal2ui (map octal_char (d # ds) @ 0 # rest) = Inr v \<and> unat v = digits_value 8 ds) \<and>
    (\<exists>v. octal2ui (octal_field n @ rest) = Inr v \<and> unat v = n mod 8 ^ 10)"
proof (intro conjI)
  have "digits_value 8 ds < 8 ^ length ds" by (rule digits_value_less [OF assms(2)])
  also have "\<dots> \<le> (8 :: nat) ^ 10" using assms(3) by (intro power_increasing) simp_all
  finally have "digits_value 8 ds < 2 ^ 32" by simp
  moreover have "octal2ui (map octal_char (d # ds) @ 0 # rest) = Inr (of_nat (digits_value 8 (tl (d # ds))))"
    using assms by (intro octal2ui_digits) simp_all
  ultimately show "\<exists>v. octal2ui (map octal_char (d # ds) @ 0 # rest) = Inr v \<and> unat v = digits_value 8 ds"
    by (simp add: unat_of_nat_u32)
  have "n mod 8 ^ 10 < 8 ^ 10" by simp
  then show "\<exists>v. octal2ui (octal_field n @ rest) = Inr v \<and> unat v = n mod 8 ^ 10"
    by (simp add: octal_field_value unat_of_nat_u32)
qed

theorem octal_size_field_witness:
  "octal2ui (map octal_char [0, 0, 0, 0, 0, 0, 0, 1, 0, 0, 0] @ [0]) = Inr 512"
proof -
  obtain v where v: "octal2ui (map octal_char [0, 0, 0, 0, 0, 0, 0, 1, 0, 0, 0] @ [0]) = Inr v"
    "unat v = digits_value 8 [0, 0, 0, 0, 0, 0, 1, 0, 0, 0]"
    using octal_size_field [of 0 "[0, 0, 0, 0, 0, 0, 1, 0, 0, 0]" "[]"] by auto
  then have "unat v = unat (512 :: u32)" by (simp add: digits_value_def)
  then show ?thesis using v(1) by (simp only: word_unat_eq_iff [symmetric])
qed

text \<open>Mounting a device with an archive, with a bound for the search that is large enough.\<close>

lemma tar_mount_archive:
  assumes "archive_at d 0 False es" and "tar_next fs = 0"
  shows "\<exists>n root fs'. (\<forall>k \<ge> n. tar_mount k d (None, fs) = Inr (root, Some root, fs')) \<and>
    tar_view root fs' = fold spec_entry es (\<lambda>ps. if ps = [] then Some (0, None) else None)"
proof -
  obtain root fs1 where r: "tar_new_node None [] fs = (root, fs1)" by fastforce
  note t = tar_new_root [OF r assms(2)]
  from build_loop_archive [OF assms(1) t(1), of None] obtain n fs' where
    n: "\<forall>k \<ge> n. build_loop k d root 0 None False fs1 = Inr fs'"
      "tar_view root fs' = fold spec_entry es (tar_view root fs1)" by blast
  have "\<forall>k \<ge> n. tar_mount k d (None, fs) = Inr (root, Some root, fs')"
    using n(1) r by (simp add: tar_mount_def tar_build_tree_def)
  then show ?thesis using n(2) t(2) by auto
qed

text \<open>C24: mounting a device that holds the bytes of a tar archive returns and builds the tree of its
  members: a path leads to a node exactly when it is a prefix of the path of a member, and the node has
  the size and, for a file, the header block of the last member with that path (names are told apart by
  their hashes). Opening the node of a file that no later member replaces and reading it gives the data
  of the member. The archive is described by its format alone: headers with the size in eleven octal
  digits, data filled up to a multiple of 512 bytes, two blocks of zeros at the end; members smaller
  than 1 GiB, names of fewer than 100 bytes that neither are empty nor start with a slash.\<close>

theorem tar_tree:
  assumes "tar_device d ms" and "tar_next fs = 0"
  shows "\<exists>n root fs'. (\<forall>k \<ge> n. tar_mount k d (None, fs) = Inr (root, Some root, fs')) \<and>
    tar_view root fs' = fold spec_entry (tar_entries 0 ms) (\<lambda>ps. if ps = [] then Some (0, None) else None) \<and>
    (\<forall>as m bs. ms = as @ m # bs \<and> tm_type m \<noteq> 53 \<and>
       (\<forall>m' \<in> set bs. map fnv (member_names m') \<noteq> map fnv (member_names m)) \<longrightarrow>
       (\<exists>nd f. tar_walk fs' root (map fnv (member_names m)) = Some nd \<and> tar_open d nd fs' = Inr (Some f) \<and>
          tar_file_size f = Inr (of_nat (length (tm_data m))) \<and>
          (\<forall>off n. unat off + unat n < 2 ^ 64 \<longrightarrow>
             tar_pread d f n off = Inr (take (unat n) (drop (unat off) (tm_data m))))))"
proof -
  let ?v = "\<lambda>ps. if ps = [] then Some (0, None) else None"
  from tar_mount_archive [OF tar_device_archive [OF assms(1)] assms(2)] obtain n root fs' where
    n: "\<forall>k \<ge> n. tar_mount k d (None, fs) = Inr (root, Some root, fs')"
      "tar_view root fs' = fold spec_entry (tar_entries 0 ms) ?v" by blast
  have rd: "\<exists>nd f. tar_walk fs' root (map fnv (member_names m)) = Some nd \<and> tar_open d nd fs' = Inr (Some f) \<and>
      tar_file_size f = Inr (of_nat (length (tm_data m))) \<and>
      (\<forall>off n. unat off + unat n < 2 ^ 64 \<longrightarrow> tar_pread d f n off = Inr (take (unat n) (drop (unat off) (tm_data m))))"
    if ms: "ms = as @ m # bs" and t: "tm_type m \<noteq> 53"
      "\<forall>m' \<in> set bs. map fnv (member_names m') \<noteq> map fnv (member_names m)" for as m bs
  proof -
    have "tar_view root fs' (map fnv (member_names m)) =
        Some (of_nat (length (tm_data m)), Some (of_nat (blocks_before as)))"
      unfolding n(2) ms by (rule tar_view_last [OF t])
    then obtain nd where nd: "tar_walk fs' root (map fnv (member_names m)) = Some nd"
      "tn_has_offset (tar_nodes fs' nd)" "tn_block_offset (tar_nodes fs' nd) = of_nat (blocks_before as)"
      by (auto simp: tar_view_def node_data_def split: if_splits)
    from tar_read_member [OF assms(1) [unfolded ms]] nd show ?thesis by (auto simp: tar_open_def Let_def)
  qed
  show ?thesis using n rd by (intro exI [of _ n] exI [of _ root] exI [of _ fs']) blast
qed

definition no_nodes :: tarfs where
  "no_nodes = \<lparr>tar_nodes = (\<lambda>_. \<lparr>tn_parent = None, tn_name = [], tn_size = 0, tn_has_offset = False,
     tn_block_offset = 0, tn_children = kmap_empty\<rparr>), tar_next = 0\<rparr>"

text \<open>An archive of a file \<open>a\<close> of exactly one block and a file \<open>b/c\<close> of eight bytes.\<close>

definition two_members :: "tar_member list" where
  "two_members =
    [\<lparr>tm_path = [97], tm_type = 48, tm_data = replicate 512 65, tm_owner = replicate 24 48,
      tm_time = replicate 20 48, tm_tail = replicate 355 0\<rparr>,
     \<lparr>tm_path = [98, 47, 99], tm_type = 48, tm_data = [1, 2, 3, 4, 5, 6, 7, 8], tm_owner = replicate 24 48,
      tm_time = replicate 20 48, tm_tail = replicate 355 0\<rparr>]"

lemma two_members_ok: "\<forall>m \<in> set two_members. member_ok m"
  by (simp add: two_members_def member_ok_def)

lemma two_members_device: "tar_device (mem_dev 512 (tar_bytes two_members)) two_members"
proof -
  have "length (tar_bytes two_members) = 3072"
    using two_members_ok by (simp add: tar_bytes_def two_members_def member_bytes_length data_blocks_def)
  then show ?thesis
    using two_members_ok serves_mem_dev [of 512 "tar_bytes two_members"]
    by (auto simp: tar_device_def mem_dev_def intro!: exI [of _ "[]"])
qed

theorem tar_tree_witness:
  "\<exists>n root fs' nd f. let d = mem_dev 512 (tar_bytes two_members) in
     tar_mount n d (None, no_nodes) = Inr (root, Some root, fs') \<and>
     tar_view root fs' [fnv [97]] = Some (512, Some 0) \<and> tar_walk fs' root [fnv [98], fnv [99]] = Some nd \<and>
     tar_open d nd fs' = Inr (Some f) \<and> tar_pread d f 3 2 = Inr [3, 4, 5]"
proof -
  let ?d = "mem_dev 512 (tar_bytes two_members)"
  let ?m = "\<lparr>tm_path = [98, 47, 99], tm_type = 48, tm_data = [1, 2, 3, 4, 5, 6, 7, 8], tm_owner = replicate 24 48,
      tm_time = replicate 20 48, tm_tail = replicate 355 0\<rparr> :: tar_member"
  have "tar_next no_nodes = 0" by (simp add: no_nodes_def)
  from tar_tree [OF two_members_device this] obtain n root fs' where
    r: "\<forall>k \<ge> n. tar_mount k ?d (None, no_nodes) = Inr (root, Some root, fs')"
      "tar_view root fs' = fold spec_entry (tar_entries 0 two_members) (\<lambda>ps. if ps = [] then Some (0, None) else None)"
      "\<forall>as m bs. two_members = as @ m # bs \<and> tm_type m \<noteq> 53 \<and>
         (\<forall>m' \<in> set bs. map fnv (member_names m') \<noteq> map fnv (member_names m)) \<longrightarrow>
         (\<exists>nd f. tar_walk fs' root (map fnv (member_names m)) = Some nd \<and> tar_open ?d nd fs' = Inr (Some f) \<and>
            tar_file_size f = Inr (of_nat (length (tm_data m))) \<and>
            (\<forall>off n. unat off + unat n < 2 ^ 64 \<longrightarrow>
               tar_pread ?d f n off = Inr (take (unat n) (drop (unat off) (tm_data m)))))" by blast
  have m: "two_members = [hd two_members] @ ?m # []" by (simp add: two_members_def)
  have nm: "member_names ?m = [[98], [99]]" by (simp add: member_names_def)
  obtain nd f where f: "tar_walk fs' root [fnv [98], fnv [99]] = Some nd" "tar_open ?d nd fs' = Inr (Some f)"
    "\<forall>off n. unat off + unat n < 2 ^ 64 \<longrightarrow> tar_pread ?d f n off = Inr (take (unat n) (drop (unat off) (tm_data ?m)))"
    using r(3) [rule_format, OF conjI [OF m]] nm by auto
  then have "tar_pread ?d f 3 2 = Inr [3, 4, 5]" by simp
  moreover have "tar_view root fs' [fnv [97]] = Some (512, Some 0)"
    unfolding r(2) by (simp add: two_members_def spec_entry_def member_names_def fnv_def)
  ultimately show ?thesis using r(1) f(1,2) unfolding Let_def by blast
qed

text \<open>C25: a read of a file at any offset returns the bytes of the file from there, as many as were asked for
  and are left, and a sequence of reads returns consecutive parts; a seek to or behind the end moves
  to the last byte.  The device must hold a block beyond the file.\<close>

theorem tar_file_reads:
  assumes "serves d bs D" and "tar_file_size f = Inr fsz" and "unat fsz + 2 + 2 * bs < 2 ^ 31"
    and "(unat (tf_start_block f) + unat fsz div bs + 2) * bs \<le> length D"
    and "F = take (unat fsz) (drop (unat (tf_start_block f) * bs) D)"
    and "unat off + unat n < 2 ^ 64" and "unat (tf_pos f) + unat n < 2 ^ 64" and "tf_pos f \<le> fsz"
  shows "tar_pread d f n off = Inr (take (unat n) (drop (unat off) F)) \<and>
    (\<exists>f'. tar_read d n f = Inr (take (unat n) (drop (unat (tf_pos f)) F), f') \<and> tf_hdr f' = tf_hdr f \<and>
       tf_start_block f' = tf_start_block f \<and> unat (tf_pos f') = min (unat (tf_pos f) + unat n) (unat fsz)) \<and>
    (unat fsz \<le> unat off \<longrightarrow> unat off < 2 ^ 32 \<longrightarrow> tar_seek off Seek_Absolute f = Inr (f\<lparr>tf_pos := fsz - 1\<rparr>))"
proof (intro conjI impI)
  let ?N = "unat fsz" and ?p = "unat (tf_pos f)"
  show "tar_pread d f n off = Inr (take (unat n) (drop (unat off) F))"
    unfolding assms(5) by (rule tar_pread_slice [OF assms(1-3,6,4)])
  have rd: "tar_pread d f n (ucast (tf_pos f)) = Inr (take (unat n) (drop ?p F))"
    using tar_pread_slice [OF assms(1-3) _ assms(4), of "ucast (tf_pos f)" n] assms(5,7) by simp
  have pos: "?p \<le> ?N" using assms(8) by (simp add: word_le_nat_alt)
  have "0 < bs" using assms(1) by (simp add: serves_def)
  then have "?N mod bs < bs" by simp
  then have "?N \<le> (?N div bs + 2) * bs"
    using div_mult_mod_eq [of ?N bs] by (simp only: distrib_right)
  then have "?N + unat (tf_start_block f) * bs \<le> length D" using assms(4) by (simp add: distrib_right)
  then have "length F = ?N" by (simp add: assms(5))
  then have len: "length (take (unat n) (drop ?p F)) = min (unat n) (?N - ?p)" by simp
  have "?p + min (unat n) (?N - ?p) < 2 ^ 32" using pos assms(3) by simp
  then have "unat (tf_pos f + of_nat (min (unat n) (?N - ?p))) = ?p + min (unat n) (?N - ?p)"
    by (simp add: unat_word_ariths unat_of_nat)
  also have "\<dots> = min (?p + unat n) ?N" using pos by simp
  finally show "\<exists>f'. tar_read d n f = Inr (take (unat n) (drop ?p F), f') \<and> tf_hdr f' = tf_hdr f \<and>
       tf_start_block f' = tf_start_block f \<and> unat (tf_pos f') = min (?p + unat n) ?N"
    using rd len by (simp add: tar_read_def)
  show "tar_seek off Seek_Absolute f = Inr (f\<lparr>tf_pos := fsz - 1\<rparr>)" if "?N \<le> unat off" "unat off < 2 ^ 32"
    using that assms(2) by (simp add: tar_seek_def Let_def word_le_nat_alt unat_ucast_u32)
qed

definition small_file :: tar_file where
  "small_file = \<lparr>tf_hdr = small_header, tf_start_block = 1, tf_pos = 6\<rparr>"

theorem tar_file_reads_witness:
  "\<exists>f'. tar_read (mem_dev 512 (small_header @ replicate 1024 65)) 4 small_file = Inr ([65, 65], f')"
proof -
  let ?D = "small_header @ replicate 1024 65"
  have s: "serves (mem_dev 512 ?D) 512 ?D" by (rule serves_mem_dev) simp_all
  have z: "tar_file_size small_file = Inr 8"
    using small_header_facts(3) by (simp add: tar_file_size_def small_file_def)
  have f: "unat (tf_start_block small_file) = 1" "unat (tf_pos small_file) = 6" "tf_pos small_file \<le> 8"
    by (simp_all add: small_file_def)
  have two: "replicate 2 (65 :: u8) = [65, 65]" by (simp add: numeral_2_eq_2)
  have d: "drop 512 ?D = replicate 1024 65" by (simp add: small_header_facts(1))
  have "\<exists>f'. tar_read (mem_dev 512 ?D) 4 small_file =
      Inr (take (unat (4 :: u64)) (drop (unat (tf_pos small_file)) (take (unat (8 :: u32))
        (drop (unat (tf_start_block small_file) * 512) ?D))), f')"
    using tar_file_reads [OF s z _ _ refl, of 0 4] f small_header_facts(1) by auto
  moreover have "take (unat (4 :: u64)) (drop (unat (tf_pos small_file)) (take (unat (8 :: u32))
      (drop (unat (tf_start_block small_file) * 512) ?D))) = [65, 65]"
    unfolding f using d two by simp
  ultimately show ?thesis by simp
qed

end
