(* ===== verification/Devices.thy ===== *)
theory Devices imports KMap_Spec KString_Spec Tarfs begin

text \<open>
  Device classes and devices (drivers/device.h, drivers/device.cpp) and the device manager
  (kernel/device-manager.cpp, kernel/device-manager.h).  Devices and classes are numbered; the class
  of a device is the chain from its class to the root class.
\<close>

record device =
  dv_name :: "u8 list"
  dv_class :: "nat list"
  dv_file :: bool
  dv_block :: "block_dev option"

text \<open>\<open>dm_class\<close> and \<open>dm_instance\<close> are the name of a class and its counter of instances.\<close>

record devmgr =
  dm_devices :: "(u64, nat) kmap"
  dm_device :: "nat \<Rightarrow> device"
  dm_class :: "nat \<Rightarrow> u8 list"
  dm_instance :: "nat \<Rightarrow> u64"

fun class_is :: "nat list \<Rightarrow> nat \<Rightarrow> bool" where
  "class_is [] type = False"
| "class_is (c # parents) type = (if c = type then True else class_is parents type)"

definition acquire_instance :: "nat \<Rightarrow> devmgr \<Rightarrow> u64 \<times> devmgr" where
  "acquire_instance c dm = (dm_instance dm c, dm\<lparr>dm_instance := (dm_instance dm)(c := dm_instance dm c + 1)\<rparr>)"

definition assign_name :: "nat \<Rightarrow> u8 list \<Rightarrow> devmgr \<Rightarrow> devmgr" where
  "assign_name d nm dm = dm\<lparr>dm_device := (dm_device dm)(d := (dm_device dm d)\<lparr>dv_name := nm\<rparr>)\<rparr>"

definition add_device_alias :: "u8 list \<Rightarrow> nat \<Rightarrow> devmgr \<Rightarrow> (bool \<times> devmgr) res" where
  "add_device_alias nm d dm =
     res_bind (kmap_add (fnv nm) d (dm_devices dm)) (\<lambda>m. Inr (True, dm\<lparr>dm_devices := m\<rparr>))"

text \<open>
  The instance number goes through the \<open>unsigned int\<close> of \<open>ToString\<close>.  \<open>init\<close> is the virtual
  initialisation of the device, which may register further devices.
\<close>

definition register_device :: "(nat \<Rightarrow> devmgr \<Rightarrow> (bool \<times> devmgr) res) \<Rightarrow> nat \<Rightarrow> devmgr \<Rightarrow> (bool \<times> devmgr) res" where
  "register_device init d dm =
     (let c = hd (dv_class (dm_device dm d)); (inst, dm1) = acquire_instance c dm in
      res_bind (to_string (ucast inst)) (\<lambda>number.
      let nm = dm_class dm1 c @ chars number; dm2 = assign_name d nm dm1 in
      res_bind (kmap_add (fnv nm) d (dm_devices dm2)) (\<lambda>m.
      res_bind (init d (dm2\<lparr>dm_devices := m\<rparr>)) (\<lambda>(ok, dm3).
        if \<not> ok then Inr (False, dm3) else Inr (True, dm3)))))"

definition try_get_device_by_class :: "nat \<Rightarrow> devmgr \<Rightarrow> nat option" where
  "try_get_device_by_class c dm =
     map_option snd (find (\<lambda>(h, d). class_is (dv_class (dm_device dm d)) c) (iter_entries (iter_begin (dm_devices dm))))"

definition try_get_device_by_name :: "u8 list \<Rightarrow> devmgr \<Rightarrow> nat option" where
  "try_get_device_by_name nm dm = kmap_try_get (fnv nm) (dm_devices dm)"

section \<open>Facts\<close>

lemma class_is_set: "class_is cs c \<longleftrightarrow> c \<in> set cs"
  by (induction cs) auto

text \<open>An alias is found from then on, and other names with other hashes as before.\<close>

lemma device_alias:
  assumes "map_inv (dm_devices dm)"
  shows "\<exists>dm'. add_device_alias nm d dm = Inr (True, dm') \<and> map_inv (dm_devices dm') \<and>
    try_get_device_by_name nm' dm' = (if fnv nm' = fnv nm then Some d else try_get_device_by_name nm' dm)"
  using km.add_ok [OF assms, of "fnv nm" d]
  by (auto simp: add_device_alias_def try_get_device_by_name_def)

lemma iterated_devices:
  assumes "map_inv (dm_devices dm)"
  shows "(h, d) \<in> set (iter_entries (iter_begin (dm_devices dm))) \<longleftrightarrow> kmap_try_get h (dm_devices dm) = Some d"
proof -
  let ?es = "iter_entries (iter_begin (dm_devices dm))"
  have "mset ?es = mset (entries (map_root (dm_devices dm)))" by (rule iter_begin_entries)
  then have "set ?es = set (entries (map_root (dm_devices dm)))" by (rule mset_eq_setD)
  moreover have "distinct (map fst (entries (map_root (dm_devices dm))))"
    using assms by (simp add: map_inv_def sorted_keys_distinct)
  ultimately show ?thesis by (simp add: kmap_try_get_entries [OF assms] map_of_eq_Some_iff)
qed

text \<open>Looking for a class yields a registered device of that class, if there is one.\<close>

lemma device_by_class:
  assumes "map_inv (dm_devices dm)"
  shows "case try_get_device_by_class c dm of
      None \<Rightarrow> \<forall>h d. kmap_try_get h (dm_devices dm) = Some d \<longrightarrow> c \<notin> set (dv_class (dm_device dm d))
    | Some d \<Rightarrow> c \<in> set (dv_class (dm_device dm d)) \<and> (\<exists>h. kmap_try_get h (dm_devices dm) = Some d)"
proof -
  let ?es = "iter_entries (iter_begin (dm_devices dm))"
  note es = iterated_devices [OF assms]
  show ?thesis
  proof (cases "find (\<lambda>(h, d). class_is (dv_class (dm_device dm d)) c) ?es")
    case None
    then have "c \<notin> set (dv_class (dm_device dm d))" if "(h, d) \<in> set ?es" for h d
      using that by (auto simp: find_None_iff class_is_set)
    then show ?thesis using None es by (simp add: try_get_device_by_class_def)
  next
    case (Some e)
    then obtain h d where e: "e = (h, d)" "(h, d) \<in> set ?es" "class_is (dv_class (dm_device dm d)) c"
      by (cases e) (auto simp: find_Some_iff dest: nth_mem)
    then show ?thesis using Some es by (auto simp: try_get_device_by_class_def class_is_set)
  qed
qed

end
