(* ===== verification/VFS.thy ===== *)
theory VFS imports Devices begin

text \<open>
  The virtual file system (infos/fs/vfs.cpp, vfs-node.cpp) over the physical ones: the root file
  system, tmpfs, devfs, vfat and the tar file system.  Nodes are numbered; a physical node is a value
  of the datatype below, one constructor per class of nodes.
\<close>

section \<open>State\<close>

datatype pnode = P_Root | P_Tmp nat | P_Dev_Root | P_Dev nat | P_Vfat | P_Tar nat nat

datatype fs_type = T_Root | T_Tmp | T_Dev | T_Vfat | T_Tar

record vnode =
  vn_parent :: "nat option"
  vn_pn :: "pnode option"
  vn_children :: "(u64, nat) kmap"

record tmp_node =
  tp_name :: "u8 list"
  tp_children :: "(u64, nat) kmap"

text \<open>\<open>tar_fs\<close> are the tar file systems: the device, the root if it is built, and the nodes.\<close>

record vfs =
  v_nodes :: "nat \<Rightarrow> vnode"
  v_next :: nat
  v_root :: nat
  v_filesystems :: "(u8 list \<times> fs_type) list"
  tmp_nodes :: "nat \<Rightarrow> tmp_node"
  tmp_next :: nat
  tar_fs :: "nat \<Rightarrow> block_dev \<times> nat option \<times> tarfs"
  tar_count :: nat
  v_devices :: devmgr

section \<open>Directories\<close>

text \<open>\<open>SimpleDirectory\<close>; closing it clears the entries, whereas a tar directory keeps them.\<close>

definition add_entry :: "u8 list \<times> u32 \<Rightarrow> directory \<Rightarrow> directory" where
  "add_entry e dir = dir\<lparr>dir_entries := dir_entries dir @ [e]\<rparr>"

definition read_entry :: "directory \<Rightarrow> (u8 list \<times> u32) option \<times> directory" where
  "read_entry dir =
     (if dir_cur dir < length (dir_entries dir)
      then (Some (dir_entries dir ! dir_cur dir), dir\<lparr>dir_cur := dir_cur dir + 1\<rparr>)
      else (None, dir))"

definition close_directory :: "directory \<Rightarrow> directory" where
  "close_directory dir = (if dir_simple dir then dir\<lparr>dir_entries := []\<rparr> else dir)"

definition new_directory :: "(u8 list \<times> u32) list \<Rightarrow> directory" where
  "new_directory es = fold add_entry es \<lparr>dir_entries = [], dir_cur = 0, dir_simple = True\<rparr>"

section \<open>Physical nodes\<close>

definition tmp_new_node :: "u8 list \<Rightarrow> vfs \<Rightarrow> nat \<times> vfs" where
  "tmp_new_node nm v =
     (tmp_next v, v\<lparr>tmp_nodes := (tmp_nodes v)(tmp_next v := \<lparr>tp_name = nm, tp_children = kmap_empty\<rparr>),
                    tmp_next := tmp_next v + 1\<rparr>)"

definition pfs_get_child :: "pnode \<Rightarrow> u8 list \<Rightarrow> vfs \<Rightarrow> pnode option" where
  "pfs_get_child p nm v =
     (case p of
        P_Tmp n \<Rightarrow> map_option P_Tmp (kmap_try_get (fnv nm) (tp_children (tmp_nodes v n)))
      | P_Dev_Root \<Rightarrow> map_option P_Dev (try_get_device_by_name nm (v_devices v))
      | P_Tar f n \<Rightarrow> map_option (P_Tar f) (tar_get_child n nm (snd (snd (tar_fs v f))))
      | _ \<Rightarrow> None)"

text \<open>Only tmpfs has directories that can be made; a directory of the same name is replaced.\<close>

definition pfs_mkdir :: "pnode \<Rightarrow> u8 list \<Rightarrow> vfs \<Rightarrow> (pnode option \<times> vfs) res" where
  "pfs_mkdir p nm v =
     (case p of
        P_Tmp n \<Rightarrow>
          (let (dir, v1) = tmp_new_node nm v in
           res_bind (kmap_add (fnv nm) dir (tp_children (tmp_nodes v1 n))) (\<lambda>m.
             Inr (Some (P_Tmp dir),
                  v1\<lparr>tmp_nodes := (tmp_nodes v1)(n := (tmp_nodes v1 n)\<lparr>tp_children := m\<rparr>)\<rparr>)))
      | _ \<Rightarrow> Inr (None, v))"

datatype kfile = F_Dev nat | F_Tar nat tar_file

definition pfs_open :: "pnode \<Rightarrow> vfs \<Rightarrow> kfile option res" where
  "pfs_open p v =
     (case p of
        P_Dev d \<Rightarrow> Inr (if dv_file (dm_device (v_devices v) d) then Some (F_Dev d) else None)
      | P_Tar f n \<Rightarrow> res_bind (tar_open (fst (tar_fs v f)) n (snd (snd (tar_fs v f)))) (\<lambda>r. Inr (map_option (F_Tar f) r))
      | _ \<Rightarrow> Inr None)"

definition pfs_opendir :: "pnode \<Rightarrow> vfs \<Rightarrow> directory option" where
  "pfs_opendir p v =
     (case p of
        P_Tmp n \<Rightarrow> Some (new_directory (map (\<lambda>(h, c). (tp_name (tmp_nodes v c), 0))
                     (iter_entries (iter_begin (tp_children (tmp_nodes v n))))))
      | P_Dev_Root \<Rightarrow> Some (new_directory (map (\<lambda>(h, d). (dv_name (dm_device (v_devices v) d), 0))
                     (iter_entries (iter_begin (dm_devices (v_devices v))))))
      | P_Tar f n \<Rightarrow> tar_opendir n (snd (snd (tar_fs v f)))
      | _ \<Rightarrow> None)"

section \<open>Mounting\<close>

text \<open>Names are compared with \<open>strncmp\<close> up to 16 characters.\<close>

definition lookup_fs :: "u8 list \<Rightarrow> vfs \<Rightarrow> (u8 list \<times> fs_type) option" where
  "lookup_fs fstype v =
     find (\<lambda>(nm, k). kstrncmp (nm @ [0]) (fstype @ [0]) 16 = Inr 0) (v_filesystems v)"

text \<open>
  The creation function of a type and the \<open>mount\<close> of the file system: the root node.  The last number
  of \<open>dev\<close> is the class of block devices, \<open>n\<close> bounds the search of an archive.
\<close>

definition is_block_device :: "nat \<Rightarrow> nat option \<Rightarrow> vfs \<Rightarrow> bool res" where
  "is_block_device block_class dev v =
     (case dev of
        None \<Rightarrow> Inl Null_Deref
      | Some d \<Rightarrow> Inr (class_is (dv_class (dm_device (v_devices v) d)) block_class))"

text \<open>The boot sector of a vfat volume: block size 512 and the signature in the last two bytes.\<close>

definition vfat_mount :: "block_dev \<Rightarrow> pnode option res" where
  "vfat_mount d =
     (if bd_size d \<noteq> 512 then Inr None
      else (case bd_read d 0 1 of
              None \<Rightarrow> Inr None
            | Some b \<Rightarrow> if length b < 512 then Inl Uninit_Read
                        else if b ! 510 = 0x55 \<and> b ! 511 = 0xaa then Inr (Some P_Vfat) else Inr None))"

definition fs_mount :: "nat \<Rightarrow> nat \<Rightarrow> fs_type \<Rightarrow> nat option \<Rightarrow> vfs \<Rightarrow> (pnode option \<times> vfs) res" where
  "fs_mount n block_class k dev v =
     (case k of
        T_Root \<Rightarrow> Inr (Some P_Root, v)
      | T_Tmp \<Rightarrow> (let (r, v1) = tmp_new_node [] v in Inr (Some (P_Tmp r), v1))
      | T_Dev \<Rightarrow> Inr (Some P_Dev_Root, v)
      | T_Vfat \<Rightarrow>
          res_bind (is_block_device block_class dev v) (\<lambda>b.
          if \<not> b then Inr (None, v)
          else (case dv_block (dm_device (v_devices v) (the dev)) of
                  None \<Rightarrow> Inl Aborted
                | Some d \<Rightarrow> res_bind (vfat_mount d) (\<lambda>p. Inr (p, v))))
      | T_Tar \<Rightarrow>
          res_bind (is_block_device block_class dev v) (\<lambda>b.
          if \<not> b then Inr (None, v)
          else (case dv_block (dm_device (v_devices v) (the dev)) of
                  None \<Rightarrow> Inl Aborted
                | Some d \<Rightarrow>
                    res_bind (tar_mount n d (None, snd (snd (tar_fs v (tar_count v))))) (\<lambda>(r, rt, fs).
                      Inr (Some (P_Tar (tar_count v) r),
                           v\<lparr>tar_fs := (tar_fs v)(tar_count v := (d, rt, fs)), tar_count := tar_count v + 1\<rparr>)))))"

definition set_vnode :: "nat \<Rightarrow> (vnode \<Rightarrow> vnode) \<Rightarrow> vfs \<Rightarrow> vfs" where
  "set_vnode n f v = v\<lparr>v_nodes := (v_nodes v)(n := f (v_nodes v n))\<rparr>"

definition vnode_mount :: "nat \<Rightarrow> nat \<Rightarrow> nat \<Rightarrow> u8 list \<Rightarrow> nat option \<Rightarrow> vfs \<Rightarrow> (bool \<times> vfs) res" where
  "vnode_mount k block_class n fstype dev v =
     (case lookup_fs fstype v of
        None \<Rightarrow> Inr (False, v)
      | Some (_, ty) \<Rightarrow>
          res_bind (fs_mount k block_class ty dev v) (\<lambda>(pn, v1).
          case pn of
            None \<Rightarrow> Inr (False, v1)
          | Some p \<Rightarrow> Inr (True, set_vnode n (\<lambda>x. x\<lparr>vn_pn := Some p, vn_children := kmap_clear (vn_children x)\<rparr>) v1)))"

section \<open>Virtual nodes\<close>

definition new_vnode :: "nat option \<Rightarrow> pnode \<Rightarrow> vfs \<Rightarrow> nat \<times> vfs" where
  "new_vnode parent p v =
     (v_next v, v\<lparr>v_nodes := (v_nodes v)(v_next v := \<lparr>vn_parent = parent, vn_pn = Some p, vn_children = kmap_empty\<rparr>),
                  v_next := v_next v + 1\<rparr>)"

definition vnode_get_child :: "nat \<Rightarrow> u8 list \<Rightarrow> vfs \<Rightarrow> (nat option \<times> vfs) res" where
  "vnode_get_child n nm v =
     (case vn_pn (v_nodes v n) of
        None \<Rightarrow> Inr (None, v)
      | Some p \<Rightarrow>
          (case kmap_try_get (fnv nm) (vn_children (v_nodes v n)) of
             Some c \<Rightarrow> Inr (Some c, v)
           | None \<Rightarrow>
               (case pfs_get_child p nm v of
                  None \<Rightarrow> Inr (None, v)
                | Some a \<Rightarrow>
                    (let (c, v1) = new_vnode (Some n) a v in
                     res_bind (kmap_add (fnv nm) c (vn_children (v_nodes v1 n))) (\<lambda>m.
                       Inr (Some c, set_vnode n (\<lambda>x. x\<lparr>vn_children := m\<rparr>) v1))))))"

definition vnode_mkdir :: "nat \<Rightarrow> u8 list \<Rightarrow> vfs \<Rightarrow> (nat option \<times> vfs) res" where
  "vnode_mkdir n nm v =
     (case vn_pn (v_nodes v n) of
        None \<Rightarrow> Inr (None, v)
      | Some p \<Rightarrow>
          res_bind (pfs_mkdir p nm v) (\<lambda>(dir, v1).
          case dir of None \<Rightarrow> Inr (None, v1) | Some _ \<Rightarrow> vnode_get_child n nm v1))"

section \<open>Lookup\<close>

function lookup_loop :: "u8 list \<Rightarrow> nat \<Rightarrow> vfs \<Rightarrow> (nat option \<times> vfs) res" where
  "lookup_loop path current v =
     (case component_loop [] path of
        Inl e \<Rightarrow> Inl e
      | Inr (component, rest) \<Rightarrow>
          if component = [] then Inr (Some current, v)
          else
            (case vnode_get_child current component v of
               Inl e \<Rightarrow> Inl e
             | Inr (None, v1) \<Rightarrow> Inr (None, v1)
             | Inr (Some c, v1) \<Rightarrow> lookup_loop rest c v1))"
  by pat_completeness auto

termination lookup_loop
  by (relation "measure (\<lambda>(path, current, v). length path)") (auto dest: component_rest_shorter)

declare lookup_loop.simps [simp del]

definition lookup_node :: "u8 list \<Rightarrow> vfs \<Rightarrow> (nat option \<times> vfs) res" where
  "lookup_node path v =
     (case path of
        [] \<Rightarrow> Inl Out_Of_Bounds
      | c # rest \<Rightarrow>
          if c = 0 then Inr (None, v)
          else if c \<noteq> 47 then Inr (None, v)
          else (case rest of
                  [] \<Rightarrow> Inl Out_Of_Bounds
                | c1 # _ \<Rightarrow> if c1 = 0 then Inr (Some (v_root v), v) else lookup_loop rest (v_root v) v))"

definition vfs_open :: "u8 list \<Rightarrow> vfs \<Rightarrow> (kfile option \<times> vfs) res" where
  "vfs_open path v =
     res_bind (lookup_node path v) (\<lambda>(nd, v1).
     case nd of
       None \<Rightarrow> Inr (None, v1)
     | Some n \<Rightarrow>
         (case vn_pn (v_nodes v1 n) of
            None \<Rightarrow> Inr (None, v1)
          | Some p \<Rightarrow> res_bind (pfs_open p v1) (\<lambda>f. Inr (f, v1))))"

definition vfs_opendir :: "u8 list \<Rightarrow> vfs \<Rightarrow> (directory option \<times> vfs) res" where
  "vfs_opendir path v =
     res_bind (lookup_node path v) (\<lambda>(nd, v1).
     case nd of
       None \<Rightarrow> Inr (None, v1)
     | Some n \<Rightarrow>
         (case vn_pn (v_nodes v1 n) of
            None \<Rightarrow> Inr (None, v1)
          | Some p \<Rightarrow> Inr (pfs_opendir p v1, v1)))"

text \<open>The file systems registered by the linker are \<open>regs\<close>; the root is of type \<open>rootfs\<close>.\<close>

definition vfs_init :: "(u8 list \<times> fs_type) list \<Rightarrow> nat \<Rightarrow> vfs \<Rightarrow> (bool \<times> vfs) res" where
  "vfs_init regs block_class v =
     (let v1 = v\<lparr>v_filesystems := v_filesystems v @ regs\<rparr> in
      case lookup_fs [114, 111, 111, 116, 102, 115] v1 of
        None \<Rightarrow> Inl Null_Deref
      | Some (_, ty) \<Rightarrow>
          res_bind (fs_mount 0 block_class ty None v1) (\<lambda>(pn, v2).
          case pn of
            None \<Rightarrow> Inr (False, v2)
          | Some p \<Rightarrow> (let (r, v3) = new_vnode None p v2 in Inr (True, v3\<lparr>v_root := r\<rparr>))))"

end
