(* ===== verification/Syscalls.thy ===== *)
theory Syscalls imports Process VFS Time begin

text \<open>
  The object manager (kernel/om.cpp, om.h) and the system calls (kernel/syscall.cpp, syscall.h).  An
  object is a number with its class; a cast of a handle to another class is an error.  A call gets
  its strings and buffers as byte lists, since the calls check no user address.
\<close>

section \<open>The object manager\<close>

datatype kobject = O_File nat | O_Directory nat | O_Process nat | O_Thread nat

record object_desc =
  od_owner :: nat
  od_object :: kobject

record object_mgr =
  om_next :: u64
  om_objects :: "(u64, object_desc) kmap"

definition om_new :: object_mgr where
  "om_new = \<lparr>om_next = 1, om_objects = kmap_empty\<rparr>"

definition register_object :: "nat \<Rightarrow> kobject \<Rightarrow> object_mgr \<Rightarrow> (u64 \<times> object_mgr) res" where
  "register_object owner obj om =
     (let handle = om_next om in
      res_bind (kmap_add handle \<lparr>od_owner = owner, od_object = obj\<rparr> (om_objects om)) (\<lambda>m.
        Inr (handle, \<lparr>om_next = handle + 1, om_objects = m\<rparr>)))"

text \<open>\<open>proc\<close> is the process of a thread.\<close>

definition get_object_secure :: "(nat \<Rightarrow> nat) \<Rightarrow> nat \<Rightarrow> u64 \<Rightarrow> object_mgr \<Rightarrow> kobject option" where
  "get_object_secure proc owner handle om =
     (case kmap_try_get handle (om_objects om) of
        None \<Rightarrow> None
      | Some obj \<Rightarrow> if proc (od_owner obj) \<noteq> proc owner then None else Some (od_object obj))"

definition object_error :: u64 where
  "object_error = - 1"

section \<open>State\<close>

text \<open>
  \<open>'d\<close> is the state of the devices, and the record below their files, which are reached through the
  virtual functions of \<open>File\<close>.
\<close>

record 'd dev_ops =
  do_read :: "nat \<Rightarrow> u64 \<Rightarrow> 'd \<Rightarrow> (u8 list \<times> 'd) res"
  do_write :: "nat \<Rightarrow> u8 list \<Rightarrow> 'd \<Rightarrow> (i32 \<times> 'd) res"

record 'd sys =
  y_kernel :: kstate
  y_vfs :: vfs
  y_om :: object_mgr
  y_files :: "nat \<Rightarrow> kfile"
  y_dirs :: "nat \<Rightarrow> directory"
  y_next :: nat
  y_tod :: time_of_day
  y_dev :: 'd

text \<open>What the calls depend on: bounds, the page allocator, the page table of the kernel, old contents of the heap.\<close>

record 'd env =
  e_fuel :: nat
  e_palgo :: "page_algo option"
  e_template :: "(u64 \<Rightarrow> u64) option"
  e_heap :: "nat \<Rightarrow> u8"
  e_devs :: "'d dev_ops"

definition current_thread :: "'d sys \<Rightarrow> nat" where
  "current_thread y = the (cur_thread (k_sched (y_kernel y)))"

definition thread_proc :: "'d sys \<Rightarrow> nat \<Rightarrow> nat" where
  "thread_proc y t = t_process (k_threads (y_kernel y) t)"

definition secure_object :: "u64 \<Rightarrow> 'd sys \<Rightarrow> kobject option" where
  "secure_object h y = get_object_secure (thread_proc y) (current_thread y) h (y_om y)"

definition register_for_current :: "kobject \<Rightarrow> 'd sys \<Rightarrow> (u64 \<times> 'd sys) res" where
  "register_for_current obj y =
     res_bind (register_object (current_thread y) obj (y_om y)) (\<lambda>(h, om). Inr (h, y\<lparr>y_om := om\<rparr>))"

text \<open>The cast of an object to the class of the call: 0 for a file, 1 directory, 2 process, 3 thread.\<close>

definition as_file :: "kobject \<Rightarrow> nat res" where
  "as_file obj = (case obj of O_File f \<Rightarrow> Inr f | _ \<Rightarrow> Inl Bad_Cast)"

definition as_directory :: "kobject \<Rightarrow> nat res" where
  "as_directory obj = (case obj of O_Directory d \<Rightarrow> Inr d | _ \<Rightarrow> Inl Bad_Cast)"

definition as_process :: "kobject \<Rightarrow> nat res" where
  "as_process obj = (case obj of O_Process p \<Rightarrow> Inr p | _ \<Rightarrow> Inl Bad_Cast)"

definition as_thread :: "kobject \<Rightarrow> nat res" where
  "as_thread obj = (case obj of O_Thread t \<Rightarrow> Inr t | _ \<Rightarrow> Inl Bad_Cast)"

section \<open>Files and directories\<close>

definition sys_open :: "u8 list \<Rightarrow> 'd sys \<Rightarrow> (u64 \<times> 'd sys) res" where
  "sys_open filename y =
     res_bind (vfs_open filename (y_vfs y)) (\<lambda>(f, v).
     let y1 = y\<lparr>y_vfs := v\<rparr> in
     case f of
       None \<Rightarrow> Inr (object_error, y1)
     | Some file \<Rightarrow>
         register_for_current (O_File (y_next y1))
           (y1\<lparr>y_files := (y_files y1)(y_next y1 := file), y_next := y_next y1 + 1\<rparr>))"

definition sys_close :: "u64 \<Rightarrow> 'd sys \<Rightarrow> (u32 \<times> 'd sys) res" where
  "sys_close h y =
     (case secure_object h y of
        None \<Rightarrow> Inr (- 1, y)
      | Some obj \<Rightarrow> res_bind (as_file obj) (\<lambda>f. Inr (0, y)))"

definition file_read :: "'d dev_ops \<Rightarrow> nat \<Rightarrow> u64 \<Rightarrow> 'd sys \<Rightarrow> (u8 list \<times> 'd sys) res" where
  "file_read D f sz y =
     (case y_files y f of
        F_Tar i t \<Rightarrow>
          res_bind (tar_read (fst (tar_fs (y_vfs y) i)) sz t) (\<lambda>(bytes, t1).
            Inr (bytes, y\<lparr>y_files := (y_files y)(f := F_Tar i t1)\<rparr>))
      | F_Dev d \<Rightarrow> res_bind (do_read D d sz (y_dev y)) (\<lambda>(bytes, s). Inr (bytes, y\<lparr>y_dev := s\<rparr>)))"

definition sys_read :: "'d dev_ops \<Rightarrow> u64 \<Rightarrow> u64 \<Rightarrow> 'd sys \<Rightarrow> ((u32 \<times> u8 list) \<times> 'd sys) res" where
  "sys_read D h sz y =
     (case secure_object h y of
        None \<Rightarrow> Inr ((- 1, []), y)
      | Some obj \<Rightarrow>
          res_bind (as_file obj) (\<lambda>f.
          res_bind (file_read D f sz y) (\<lambda>(bytes, y1). Inr ((of_nat (length bytes), bytes), y1))))"

definition sys_write :: "'d dev_ops \<Rightarrow> u64 \<Rightarrow> u8 list \<Rightarrow> 'd sys \<Rightarrow> (u32 \<times> 'd sys) res" where
  "sys_write D h buffer y =
     (case secure_object h y of
        None \<Rightarrow> Inr (- 1, y)
      | Some obj \<Rightarrow>
          res_bind (as_file obj) (\<lambda>f.
          case y_files y f of
            F_Tar i t \<Rightarrow> Inr (0, y)
          | F_Dev d \<Rightarrow> res_bind (do_write D d buffer (y_dev y)) (\<lambda>(n, s). Inr (n, y\<lparr>y_dev := s\<rparr>))))"

definition sys_opendir :: "u8 list \<Rightarrow> 'd sys \<Rightarrow> (u64 \<times> 'd sys) res" where
  "sys_opendir path y =
     res_bind (vfs_opendir path (y_vfs y)) (\<lambda>(d, v).
     let y1 = y\<lparr>y_vfs := v\<rparr> in
     case d of
       None \<Rightarrow> Inr (object_error, y1)
     | Some dir \<Rightarrow>
         register_for_current (O_Directory (y_next y1))
           (y1\<lparr>y_dirs := (y_dirs y1)(y_next y1 := dir), y_next := y_next y1 + 1\<rparr>))"

definition sys_closedir :: "u64 \<Rightarrow> 'd sys \<Rightarrow> (u32 \<times> 'd sys) res" where
  "sys_closedir h y =
     (case secure_object h y of
        None \<Rightarrow> Inr (- 1, y)
      | Some obj \<Rightarrow>
          res_bind (as_directory obj) (\<lambda>d.
          Inr (0, y\<lparr>y_dirs := (y_dirs y)(d := close_directory (y_dirs y d))\<rparr>)))"

text \<open>The name goes through \<open>strncpy\<close> with a count of 63 into the 64 bytes of the user's entry.\<close>

definition sys_readdir :: "u64 \<Rightarrow> u8 list \<Rightarrow> 'd sys \<Rightarrow> ((u32 \<times> (u8 list \<times> u32) option) \<times> 'd sys) res" where
  "sys_readdir h user_name y =
     (case secure_object h y of
        None \<Rightarrow> Inr ((0, None), y)
      | Some obj \<Rightarrow>
          res_bind (as_directory obj) (\<lambda>d.
          let (e, dir1) = read_entry (y_dirs y d);
              y1 = y\<lparr>y_dirs := (y_dirs y)(d := dir1)\<rparr>
          in case e of
               None \<Rightarrow> Inr ((0, None), y1)
             | Some (nm, sz) \<Rightarrow>
                 res_bind (kstrncpy user_name (nm @ [0]) 63) (\<lambda>(buf, _). Inr ((1, Some (buf, sz)), y1))))"

section \<open>Processes and threads\<close>

definition sys_exit :: "'d env \<Rightarrow> 'd sys \<Rightarrow> (bool \<times> 'd sys) res" where
  "sys_exit E y =
     res_bind (process_terminate (e_fuel E) (thread_proc y (current_thread y)) (y_kernel y)) (\<lambda>(yields, k).
       Inr (yields, y\<lparr>y_kernel := k\<rparr>))"

text \<open>What reads of an opened file deliver to the loader.\<close>

definition file_image :: "kfile \<Rightarrow> vfs \<Rightarrow> vfile" where
  "file_image f v sz off =
     (case f of
        F_Dev d \<Rightarrow> []
      | F_Tar i t \<Rightarrow> (case tar_pread (fst (tar_fs v i)) t sz off of Inl _ \<Rightarrow> [] | Inr bytes \<Rightarrow> bytes))"

text \<open>\<open>Kernel::launch_process\<close>: the number of the new process, or null.\<close>

definition launch_process :: "'d env \<Rightarrow> u8 list \<Rightarrow> u8 list \<Rightarrow> 'd sys \<Rightarrow> (nat option \<times> 'd sys) res" where
  "launch_process E path cmdline y =
     res_bind (vfs_open path (y_vfs y)) (\<lambda>(image, v).
     let y1 = y\<lparr>y_vfs := v\<rparr> in
     case image of
       None \<Rightarrow> Inr (None, y1)
     | Some f \<Rightarrow>
         res_bind (launch_image (e_palgo E) (e_template E) (e_heap E) (file_image f v) cmdline
             (e_fuel E) (y_next y1) (y_kernel y1)) (\<lambda>(ok, k).
         Inr (if ok then Some (y_next y1) else None, y1\<lparr>y_kernel := k, y_next := y_next y1 + 1\<rparr>)))"

definition sys_exec :: "'d env \<Rightarrow> u8 list \<Rightarrow> u8 list \<Rightarrow> 'd sys \<Rightarrow> (u64 \<times> 'd sys) res" where
  "sys_exec E program args y =
     res_bind (launch_process E program (cstr args) y) (\<lambda>(p, y1).
     case p of
       None \<Rightarrow> Inr (object_error, y1)
     | Some pid \<Rightarrow> register_for_current (O_Process pid) y1)"

definition sys_create_thread :: "'d env \<Rightarrow> u64 \<Rightarrow> u64 \<Rightarrow> 'd sys \<Rightarrow> (u64 \<times> 'd sys) res" where
  "sys_create_thread E entry arg y =
     res_bind (create_thread (e_palgo E) (thread_proc y (current_thread y)) User_Priv entry (y_kernel y)) (\<lambda>(t, k).
     res_bind (register_for_current (O_Thread t) (y\<lparr>y_kernel := k\<rparr>)) (\<lambda>(h, y1).
     let stack_addr = 0x7fff00000000 + ucast (0x2000 * (ucast h :: u32)) in
     res_bind (allocate_user_stack (e_palgo E) stack_addr 0x2000 t (y_kernel y1)) (\<lambda>k1.
     let k2 = entry_argument arg t k1 in
     res_bind (thread_start (e_fuel E) (k_sched k2) t) (\<lambda>s.
       Inr (h, y1\<lparr>y_kernel := k2\<lparr>k_sched := s\<rparr>\<rparr>)))))"

text \<open>The flag says that the stopped thread was the running one.\<close>

definition sys_stop_thread :: "'d env \<Rightarrow> u64 \<Rightarrow> 'd sys \<Rightarrow> ((u32 \<times> bool) \<times> 'd sys) res" where
  "sys_stop_thread E h y =
     (case (if h = - 1 then Some (O_Thread (current_thread y)) else secure_object h y) of
        None \<Rightarrow> Inr ((- 1, False), y)
      | Some obj \<Rightarrow>
          res_bind (as_thread obj) (\<lambda>t.
          res_bind (thread_stop (e_fuel E) (k_sched (y_kernel y)) t) (\<lambda>(yields, s).
            Inr ((0, yields), y\<lparr>y_kernel := (y_kernel y)\<lparr>k_sched := s\<rparr>\<rparr>))))"

text \<open>
  The two loops that wait, a step at a time: the test of the condition, and the wait on the event,
  after which the thread runs again when it is woken.  Other threads may run between two steps.
\<close>

datatype wait_pc = At_Test | At_Wait | Returned

definition wait_proc_step :: "nat \<Rightarrow> nat \<Rightarrow> nat \<Rightarrow> wait_pc \<times> kstate \<Rightarrow> (wait_pc \<times> kstate) res" where
  "wait_proc_step n p t st =
     (case st of (pc, k) \<Rightarrow>
        (case pc of
           At_Test \<Rightarrow> Inr (if p_terminated (k_procs k p) then Returned else At_Wait, k)
         | At_Wait \<Rightarrow>
             (let P = k_procs k p; k1 = set_proc p (P\<lparr>p_waiters := klist_append (p_waiters P) t\<rparr>) k in
              res_bind (thread_sleep n (k_sched k1) t) (\<lambda>(_, s). Inr (At_Test, k1\<lparr>k_sched := s\<rparr>)))
         | Returned \<Rightarrow> Inr (Returned, k)))"

definition join_thread_step :: "nat \<Rightarrow> nat \<Rightarrow> nat \<Rightarrow> wait_pc \<times> kstate \<Rightarrow> (wait_pc \<times> kstate) res" where
  "join_thread_step n e t st =
     (case st of (pc, k) \<Rightarrow>
        (case pc of
           At_Test \<Rightarrow> Inr (if est (ents (k_sched k) e) = STOPPED then Returned else At_Wait, k)
         | At_Wait \<Rightarrow> res_bind (wait_state_changed n (k_sched k) e t) (\<lambda>(_, s). Inr (At_Test, k\<lparr>k_sched := s\<rparr>))
         | Returned \<Rightarrow> Inr (Returned, k)))"

text \<open>The call up to its loop: the object that it waits for, or the error.\<close>

definition sys_wait_proc :: "u64 \<Rightarrow> 'd sys \<Rightarrow> (u32 + nat) res" where
  "sys_wait_proc h y =
     (case secure_object h y of None \<Rightarrow> Inr (Inl (- 1)) | Some obj \<Rightarrow> res_bind (as_process obj) (\<lambda>p. Inr (Inr p)))"

definition sys_join_thread :: "u64 \<Rightarrow> 'd sys \<Rightarrow> (u32 + nat) res" where
  "sys_join_thread h y =
     (case secure_object h y of None \<Rightarrow> Inr (Inl (- 1)) | Some obj \<Rightarrow> res_bind (as_thread obj) (\<lambda>t. Inr (Inr t)))"

definition sys_usleep :: "u64 \<Rightarrow> u64" where
  "sys_usleep us = us"

text \<open>The fields of the user's buffer: seconds, minutes, hours, day of the month, month and year.\<close>

definition sys_get_tod :: "'d sys \<Rightarrow> u32 \<times> u16 list" where
  "sys_get_tod y = (let t = y_tod y in (0, [seconds t, minutes t, hours t, day t, month t, year t]))"

section \<open>The table of system calls\<close>

datatype syscall =
  Nop | Yield | Exit | Open | Close | Read | Write | Opendir | Readdir | Closedir | Exec | Wait_Proc
  | Create_Thread | Stop_Thread | Join_Thread | Usleep | Get_Tod

type_synonym syscall_table = "syscall option list"

definition MAX_SYSCALLS :: nat where
  "MAX_SYSCALLS = 256"

definition syscall_mgr_new :: syscall_table where
  "syscall_mgr_new = replicate MAX_SYSCALLS None"

definition register_syscall :: "i32 \<Rightarrow> syscall \<Rightarrow> syscall_table \<Rightarrow> syscall_table" where
  "register_syscall nr fn tbl =
     (if sint nr < 0 \<or> sint nr \<ge> int MAX_SYSCALLS then tbl else tbl[nat (sint nr) := Some fn])"

text \<open>\<open>run\<close> calls the function; the result is the value for the user's register.\<close>

definition invoke_syscall :: "(syscall \<Rightarrow> 's \<Rightarrow> (u64 \<times> 's) res) \<Rightarrow> i32 \<Rightarrow> syscall_table \<Rightarrow> 's \<Rightarrow> (u64 \<times> 's) res" where
  "invoke_syscall run nr tbl s =
     (if sint nr < 0 \<or> sint nr \<ge> int MAX_SYSCALLS then Inr (- 1, s)
      else (case tbl ! nat (sint nr) of None \<Rightarrow> Inr (- 1, s) | Some fn \<Rightarrow> run fn s))"

definition default_syscalls :: "(i32 \<times> syscall) list" where
  "default_syscalls =
     [(0, Nop), (1, Yield), (2, Exit), (3, Open), (4, Close), (5, Read), (6, Write), (7, Opendir), (8, Readdir),
      (9, Closedir), (10, Exec), (11, Wait_Proc), (12, Create_Thread), (13, Stop_Thread), (14, Join_Thread),
      (15, Usleep), (16, Get_Tod)]"

definition register_default_syscalls :: "syscall_table \<Rightarrow> syscall_table" where
  "register_default_syscalls tbl = fold (\<lambda>(nr, fn). register_syscall nr fn) default_syscalls tbl"

text \<open>The handler of the user interrupt takes the number from the register RAX as an \<open>int\<close>.\<close>

definition user_syscall_handler :: "(syscall \<Rightarrow> 's \<Rightarrow> (u64 \<times> 's) res) \<Rightarrow> u64 \<Rightarrow> syscall_table \<Rightarrow> 's \<Rightarrow> (u64 \<times> 's) res" where
  "user_syscall_handler run rax tbl s = invoke_syscall run (ucast rax) tbl s"

definition kernel_syscall_handler :: "u64 \<Rightarrow> sched \<Rightarrow> sched res" where
  "kernel_syscall_handler rax s = (if (ucast rax :: i32) = 1 then schedule s else Inr s)"

end
