(* ===== verification/VFS_Spec.thy ===== *)
theory VFS_Spec imports VFS Node_Tree Tarfs_Spec begin

text \<open>
  What a lookup in the virtual file system yields: the physical node that walking the mounted file
  systems along the components of the path yields, whatever is in the caches of children.
\<close>

section \<open>The specification\<close>

definition pfs_child :: "pnode \<Rightarrow> u64 \<Rightarrow> vfs \<Rightarrow> pnode option" where
  "pfs_child p h v =
     (case p of
        P_Tmp n \<Rightarrow> map_option P_Tmp (kmap_try_get h (tp_children (tmp_nodes v n)))
      | P_Dev_Root \<Rightarrow> map_option P_Dev (kmap_try_get h (dm_devices (v_devices v)))
      | P_Tar f n \<Rightarrow> map_option (P_Tar f) (kmap_try_get h (tn_children (tar_nodes (snd (snd (tar_fs v f))) n)))
      | _ \<Rightarrow> None)"

lemma pfs_get_child_hash: "pfs_get_child p nm v = pfs_child p (fnv nm) v"
  by (simp add: pfs_get_child_def pfs_child_def try_get_device_by_name_def tar_get_child_def split: pnode.split)

text \<open>
  \<open>mnt\<close> gives the file system mounted at a path, by its root node.  The path is a list of hashes,
  here from its end to its beginning.
\<close>

fun spec_rev :: "vfs \<Rightarrow> (u64 list \<Rightarrow> pnode option) \<Rightarrow> u64 list \<Rightarrow> pnode option" where
  "spec_rev v mnt [] = mnt []"
| "spec_rev v mnt (h # hs) =
     (case mnt (rev (h # hs)) of
        Some p \<Rightarrow> Some p
      | None \<Rightarrow> Option.bind (spec_rev v mnt hs) (\<lambda>p. pfs_child p h v))"

definition vfs_spec :: "vfs \<Rightarrow> (u64 list \<Rightarrow> pnode option) \<Rightarrow> u64 list \<Rightarrow> pnode option" where
  "vfs_spec v mnt hs = spec_rev v mnt (rev hs)"

lemma vfs_spec_snoc:
  "vfs_spec v mnt (hs @ [h]) =
     (case mnt (hs @ [h]) of Some p \<Rightarrow> Some p | None \<Rightarrow> Option.bind (vfs_spec v mnt hs) (\<lambda>p. pfs_child p h v))"
  by (simp add: vfs_spec_def split: option.split)

text \<open>A lookup leaves the physical file systems alone.\<close>

definition same_phys :: "vfs \<Rightarrow> vfs \<Rightarrow> bool" where
  "same_phys v v' \<longleftrightarrow> tmp_nodes v' = tmp_nodes v \<and> tmp_next v' = tmp_next v \<and> tar_fs v' = tar_fs v \<and>
     tar_count v' = tar_count v \<and> v_devices v' = v_devices v \<and> v_root v' = v_root v \<and>
     v_filesystems v' = v_filesystems v"

lemma same_phys_refl: "same_phys v v"
  by (simp add: same_phys_def)

lemma same_phys_trans: "same_phys a b \<Longrightarrow> same_phys b c \<Longrightarrow> same_phys a c"
  by (simp add: same_phys_def)

lemma same_phys_spec:
  assumes "same_phys v v'"
  shows "vfs_spec v' mnt hs = vfs_spec v mnt hs"
proof -
  have c: "pfs_child p h v' = pfs_child p h v" for p h
    using assms by (simp add: pfs_child_def same_phys_def split: pnode.split)
  have "spec_rev v' mnt rs = spec_rev v mnt rs" for rs
    by (induction rs) (simp_all add: c split: option.split)
  then show ?thesis by (simp add: vfs_spec_def)
qed

section \<open>The invariant of the caches\<close>

definition vchild :: "vfs \<Rightarrow> nat \<Rightarrow> u64 \<Rightarrow> nat option" where
  "vchild v n h = kmap_try_get h (vn_children (v_nodes v n))"

text \<open>
  Every node in the caches has the physical node that its path specifies, and every mount point is in
  the caches.
\<close>

definition vfs_inv :: "(nat \<Rightarrow> u64 list) \<Rightarrow> (u64 list \<Rightarrow> pnode option) \<Rightarrow> vfs \<Rightarrow> bool" where
  "vfs_inv pth mnt v \<longleftrightarrow> tree_inv pth (v_root v) (v_next v) (vchild v) \<and>
     (\<forall>n < v_next v. map_inv (vn_children (v_nodes v n))) \<and>
     (\<forall>hs n. kwalk (vchild v) (v_root v) hs = Some n \<longrightarrow>
        vn_pn (v_nodes v n) = vfs_spec v mnt hs \<and> vfs_spec v mnt hs \<noteq> None) \<and>
     (\<forall>hs. mnt hs \<noteq> None \<longrightarrow> kwalk (vchild v) (v_root v) hs \<noteq> None)"

lemma vnode_get_child_ok:
  assumes inv: "vfs_inv pth mnt v" and cur: "kwalk (vchild v) (v_root v) base = Some current"
  shows "\<exists>r v' pth'. vnode_get_child current nm v = Inr (r, v') \<and> vfs_inv pth' mnt v' \<and> same_phys v v' \<and>
    (case vfs_spec v mnt (base @ [fnv nm]) of
       None \<Rightarrow> r = None
     | Some p \<Rightarrow> \<exists>c. r = Some c \<and> kwalk (vchild v') (v_root v') (base @ [fnv nm]) = Some c)"
proof -
  let ?h = "fnv nm" and ?r = "v_root v"
  have ti: "tree_inv pth ?r (v_next v) (vchild v)" using inv by (simp add: vfs_inv_def)
  have bound: "current < v_next v" by (rule tree_inv_root(1) [OF ti cur])
  obtain p where p: "vn_pn (v_nodes v current) = Some p" "vfs_spec v mnt base = Some p"
    using inv cur unfolding vfs_inv_def by (metis not_None_eq)
  show ?thesis
  proof (cases "vchild v current ?h")
    case (Some c)
    have w: "kwalk (vchild v) ?r (base @ [?h]) = Some c" using cur Some by (simp add: walk_append)
    then have "vfs_spec v mnt (base @ [?h]) \<noteq> None" using inv by (simp add: vfs_inv_def)
    moreover have "vnode_get_child current nm v = Inr (Some c, v)"
      using p(1) Some by (simp add: vnode_get_child_def vchild_def)
    ultimately show ?thesis using inv w same_phys_refl by (auto split: option.splits)
  next
    case None
    have nm: "mnt (base @ [?h]) = None"
    proof (rule ccontr)
      assume "mnt (base @ [?h]) \<noteq> None"
      then have "kwalk (vchild v) ?r (base @ [?h]) \<noteq> None" using inv unfolding vfs_inv_def by blast
      then show False using cur None by (simp add: walk_append)
    qed
    have spec: "vfs_spec v mnt (base @ [?h]) = pfs_child p ?h v" using nm p(2) by (simp add: vfs_spec_snoc)
    show ?thesis
    proof (cases "pfs_child p ?h v")
      case no: None
      then have "vnode_get_child current nm v = Inr (None, v)"
        using p(1) None by (simp add: vnode_get_child_def vchild_def pfs_get_child_hash)
      then show ?thesis using inv no spec same_phys_refl by auto
    next
      case (Some a)
      let ?c = "v_next v"
      obtain v1 where new: "new_vnode (Some current) a v = (?c, v1)" by (simp add: new_vnode_def)
      have neq: "current \<noteq> ?c" using bound by simp
      have n1: "v_nodes v1 = (v_nodes v)(?c := \<lparr>vn_parent = Some current, vn_pn = Some a, vn_children = kmap_empty\<rparr>)"
        "v_next v1 = ?c + 1" "same_phys v v1"
        using new by (auto simp: new_vnode_def same_phys_def)
      have "map_inv (vn_children (v_nodes v current))" using inv bound by (simp add: vfs_inv_def)
      from km.add_ok [OF this, of ?h ?c] obtain m where
        m: "kmap_add ?h ?c (vn_children (v_nodes v current)) = Inr m" "map_inv m"
          "\<forall>k. kmap_try_get k m = (if k = ?h then Some ?c else kmap_try_get k (vn_children (v_nodes v current)))" by blast
      define v2 where "v2 = set_vnode current (\<lambda>x. x\<lparr>vn_children := m\<rparr>) v1"
      have eq: "vnode_get_child current nm v = Inr (Some ?c, v2)"
        using p(1) None Some new n1(1) neq m(1)
        by (simp add: vnode_get_child_def vchild_def pfs_get_child_hash v2_def)
      have ph: "same_phys v v2" using n1(3) by (simp add: v2_def set_vnode_def same_phys_def)
      have nx: "v_next v2 = ?c + 1" by (simp add: v2_def set_vnode_def n1(2))
      have root: "v_root v2 = ?r" using ph by (simp add: same_phys_def)
      have ch: "vchild v2 = with_child current ?h ?c (vchild v)"
        using m(3) neq by (auto simp: fun_eq_iff with_child_def vchild_def v2_def set_vnode_def n1(1) km.get_empty)
      have pn: "vn_pn (v_nodes v2 n) = (if n = ?c then Some a else vn_pn (v_nodes v n))" for n
        using neq by (simp add: v2_def set_vnode_def n1(1))
      have wk: "kwalk (vchild v2) ?r hs = (if hs = base @ [?h] then Some ?c else kwalk (vchild v) ?r hs)" for hs
        unfolding ch by (rule walk_new [OF ti cur None])
      have mi: "map_inv (vn_children (v_nodes v2 n))" if "n < v_next v2" for n
        using that inv m(2) neq nx by (auto simp: v2_def set_vnode_def n1(1) kmap_empty_inv vfs_inv_def)
      have "vfs_inv (pth(?c := pth current @ [?h])) mnt v2"
        unfolding vfs_inv_def root
      proof (intro conjI allI impI)
        show "tree_inv (pth(?c := pth current @ [?h])) ?r (v_next v2) (vchild v2)"
          unfolding nx ch by (rule tree_inv_new [OF ti bound])
        show "map_inv (vn_children (v_nodes v2 n))" if "n < v_next v2" for n by (rule mi [OF that])
        show "vn_pn (v_nodes v2 n) = vfs_spec v2 mnt hs" "vfs_spec v2 mnt hs \<noteq> None"
          if "kwalk (vchild v2) ?r hs = Some n" for hs n
        proof -
          have "vn_pn (v_nodes v2 n) = vfs_spec v mnt hs \<and> vfs_spec v mnt hs \<noteq> None"
          proof (cases "hs = base @ [?h]")
            case True
            then show ?thesis using that Some spec by (simp add: wk pn)
          next
            case False
            then have w: "kwalk (vchild v) ?r hs = Some n" using that by (simp add: wk)
            then have "n \<noteq> ?c" using tree_inv_root(1) [OF ti w] by simp
            then show ?thesis using inv w by (simp add: pn vfs_inv_def)
          qed
          then show "vn_pn (v_nodes v2 n) = vfs_spec v2 mnt hs" "vfs_spec v2 mnt hs \<noteq> None"
            by (simp_all add: same_phys_spec [OF ph])
        qed
        show "kwalk (vchild v2) ?r hs \<noteq> None" if "mnt hs \<noteq> None" for hs
          using that inv by (simp add: wk vfs_inv_def)
      qed
      then show ?thesis using eq ph spec Some wk root by auto
    qed
  qed
qed

lemma vfs_spec_prefix:
  assumes inv: "vfs_inv pth mnt v"
  shows "vfs_spec v mnt (ps @ qs) \<noteq> None \<Longrightarrow> vfs_spec v mnt ps \<noteq> None"
proof (induction qs rule: rev_induct)
  case (snoc h qs)
  have "vfs_spec v mnt (ps @ qs) \<noteq> None"
  proof (cases "mnt ((ps @ qs) @ [h])")
    case None
    then show ?thesis using snoc.prems vfs_spec_snoc [of v mnt "ps @ qs" h] by (auto simp: bind_eq_Some_conv)
  next
    case (Some p)
    then have "kwalk (vchild v) (v_root v) ((ps @ qs) @ [h]) \<noteq> None" using inv unfolding vfs_inv_def by blast
    then obtain n where "kwalk (vchild v) (v_root v) (ps @ qs) = Some n"
      unfolding walk_append [of _ _ "ps @ qs"] by (auto split: option.splits)
    then show ?thesis using inv unfolding vfs_inv_def by blast
  qed
  then show ?case by (rule snoc.IH)
qed simp

lemma lookup_loop_ok:
  "vfs_inv pth mnt v \<Longrightarrow> good_path path \<Longrightarrow> kwalk (vchild v) (v_root v) base = Some current \<Longrightarrow>
   \<exists>r v' pth'. lookup_loop path current v = Inr (r, v') \<and> vfs_inv pth' mnt v' \<and> same_phys v v' \<and>
     (case vfs_spec v mnt (base @ map fnv (path_names path)) of
        None \<Rightarrow> r = None
      | Some p \<Rightarrow> \<exists>n. r = Some n \<and>
          kwalk (vchild v') (v_root v') (base @ map fnv (path_names path)) = Some n)"
proof (induction "length path" arbitrary: path current v base pth rule: less_induct)
  case less
  note inv = less.prems(1) and cur = less.prems(3)
  from good_path_step [OF less.prems(2)] obtain component rest where
    c: "component_loop [] path = Inr (component, rest)" "good_path rest"
      "path_names path = (if component = [] then [] else component # path_names rest)" by blast
  show ?case
  proof (cases "component = []")
    case True
    have "vfs_spec v mnt base \<noteq> None" using inv cur unfolding vfs_inv_def by blast
    then show ?thesis
      using True c cur inv same_phys_refl by (subst lookup_loop.simps) (auto split: option.splits)
  next
    case False
    let ?h = "fnv component"
    have shorter: "length rest < length path" using component_rest_shorter [OF c(1) False] .
    have names: "base @ map fnv (path_names path) = (base @ [?h]) @ map fnv (path_names rest)"
      using c(3) False by simp
    from vnode_get_child_ok [OF inv cur, of component] obtain r v1 pth1 where
      r: "vnode_get_child current component v = Inr (r, v1)" "vfs_inv pth1 mnt v1" "same_phys v v1"
        "case vfs_spec v mnt (base @ [?h]) of None \<Rightarrow> r = None
         | Some p \<Rightarrow> \<exists>c. r = Some c \<and> kwalk (vchild v1) (v_root v1) (base @ [?h]) = Some c" by blast
    show ?thesis
    proof (cases "vfs_spec v mnt (base @ [?h])")
      case None
      then have "vfs_spec v mnt (base @ map fnv (path_names path)) = None"
        using vfs_spec_prefix [OF inv, of "base @ [?h]"] names by metis
      then show ?thesis
        using None r c(1) False by (subst lookup_loop.simps) auto
    next
      case (Some p)
      then obtain m where m: "r = Some m" "kwalk (vchild v1) (v_root v1) (base @ [?h]) = Some m" using r(4) by auto
      have step: "lookup_loop path current v = lookup_loop rest m v1"
        using c(1) False r(1) m(1) by (subst lookup_loop.simps) simp
      from less.hyps [OF shorter r(2) c(2) m(2)] obtain r' v' pth' where
        r': "lookup_loop rest m v1 = Inr (r', v')" "vfs_inv pth' mnt v'" "same_phys v1 v'"
          "case vfs_spec v1 mnt ((base @ [?h]) @ map fnv (path_names rest)) of
             None \<Rightarrow> r' = None
           | Some p \<Rightarrow> \<exists>n. r' = Some n \<and>
               kwalk (vchild v') (v_root v') ((base @ [?h]) @ map fnv (path_names rest)) = Some n" by blast
      show ?thesis
        unfolding names step
        using r' same_phys_trans [OF r(3) r'(3)] same_phys_spec [OF r(3)] by auto
    qed
  qed
qed

lemma lookup_node_ok:
  assumes inv: "vfs_inv pth mnt v" and path: "good_path path"
  shows "\<exists>r v' pth'. lookup_node (47 # path) v = Inr (r, v') \<and> vfs_inv pth' mnt v' \<and> same_phys v v' \<and>
     (case vfs_spec v mnt (map fnv (path_names path)) of
        None \<Rightarrow> r = None
      | Some p \<Rightarrow> \<exists>n. r = Some n \<and> vn_pn (v_nodes v' n) = Some p)"
proof -
  obtain c rest where p: "path = c # rest" using path by (cases path) (auto simp: good_path_def)
  have w0: "kwalk (vchild v) (v_root v) [] = Some (v_root v)" by simp
  show ?thesis
  proof (cases "c = 0")
    case True
    then have "path_names path = []" using p by (simp add: path_names_def)
    moreover have "vn_pn (v_nodes v (v_root v)) = vfs_spec v mnt [] \<and> vfs_spec v mnt [] \<noteq> None"
      using inv w0 unfolding vfs_inv_def by blast
    ultimately show ?thesis
      using True p inv same_phys_refl by (auto simp: lookup_node_def split: option.splits)
  next
    case False
    from lookup_loop_ok [OF inv path w0, unfolded append_Nil] obtain r v' pth' where
      r: "lookup_loop path (v_root v) v = Inr (r, v')" "vfs_inv pth' mnt v'" "same_phys v v'"
        "case vfs_spec v mnt (map fnv (path_names path)) of
           None \<Rightarrow> r = None
         | Some p \<Rightarrow> \<exists>n. r = Some n \<and> kwalk (vchild v') (v_root v') (map fnv (path_names path)) = Some n" by blast
    have "lookup_node (47 # path) v = Inr (r, v')" using False p r(1) by (simp add: lookup_node_def)
    moreover have "vn_pn (v_nodes v' n) = vfs_spec v mnt hs" if "kwalk (vchild v') (v_root v') hs = Some n" for n hs
      using r(2) that same_phys_spec [OF r(3), of mnt hs] unfolding vfs_inv_def by metis
    ultimately show ?thesis
      using r(2-4) by (auto split: option.splits)
  qed
qed

text \<open>A path without a leading slash names nothing.\<close>

lemma lookup_relative: "path \<noteq> [] \<Longrightarrow> hd path \<noteq> 47 \<Longrightarrow> lookup_node path v = Inr (None, v)"
  by (cases path) (auto simp: lookup_node_def)

section \<open>A file system in memory\<close>

text \<open>The root is a tmpfs with the directory \<open>a\<close>.\<close>

definition small_vfs :: vfs where
  "small_vfs =
     \<lparr>v_nodes = (\<lambda>_. \<lparr>vn_parent = None, vn_pn = Some (P_Tmp 0), vn_children = kmap_empty\<rparr>), v_next = 1, v_root = 0,
      v_filesystems = [], tmp_nodes = (\<lambda>n. \<lparr>tp_name = [], tp_children =
         (if n = 0 then \<lparr>map_root = Node (fnv [97]) 1 BLACK Null Null, map_count = 1\<rparr> else kmap_empty)\<rparr>),
      tmp_next = 2, tar_fs = (\<lambda>_. (small_archive, None, no_nodes)), tar_count = 0,
      v_devices = \<lparr>dm_devices = kmap_empty, dm_device = (\<lambda>_. \<lparr>dv_name = [], dv_class = [0], dv_file = False, dv_block = None\<rparr>),
        dm_class = (\<lambda>_. []), dm_instance = (\<lambda>_. 0)\<rparr>\<rparr>"

lemma small_vfs_inv: "vfs_inv (\<lambda>_. []) (\<lambda>hs. if hs = [] then Some (P_Tmp 0) else None) small_vfs"
proof -
  have ch: "vchild small_vfs n h = None" for n h
    by (simp add: vchild_def small_vfs_def km.get_empty)
  have w: "kwalk (vchild small_vfs) 0 hs = (if hs = [] then Some 0 else None)" for hs
    by (cases hs) (simp_all add: ch)
  have f: "v_root small_vfs = 0" "v_next small_vfs = 1" "vn_pn (v_nodes small_vfs n) = Some (P_Tmp 0)"
    "map_inv (vn_children (v_nodes small_vfs n))" for n
    by (simp_all add: small_vfs_def kmap_empty_inv)
  show ?thesis
    by (auto simp: vfs_inv_def tree_inv_def ch vfs_spec_def f w split: if_splits)
qed

section \<open>Property\<close>

text \<open>C26: looking up an absolute path returns the node whose physical node is the one reached through the
  mounted file systems along the components of the path up to the first empty one (names are told
  apart by their hashes), or null exactly when there is none; the caches of children that a lookup
  fills do not change the physical file systems or what later lookups find.\<close>

theorem vfs_lookup:
  assumes "vfs_inv pth mnt v" and "good_path p" and "good_path q"
  shows "\<exists>r v1 s v2 pth'. lookup_node (47 # p) v = Inr (r, v1) \<and> lookup_node (47 # q) v1 = Inr (s, v2) \<and>
    vfs_inv pth' mnt v2 \<and> same_phys v v2 \<and>
    Option.bind r (\<lambda>n. vn_pn (v_nodes v1 n)) = vfs_spec v mnt (map fnv (path_names p)) \<and>
    (r = None \<longleftrightarrow> vfs_spec v mnt (map fnv (path_names p)) = None) \<and>
    Option.bind s (\<lambda>n. vn_pn (v_nodes v2 n)) = vfs_spec v mnt (map fnv (path_names q)) \<and>
    (s = None \<longleftrightarrow> vfs_spec v mnt (map fnv (path_names q)) = None)"
proof -
  from lookup_node_ok [OF assms(1,2)] obtain r v1 pth1 where
    r: "lookup_node (47 # p) v = Inr (r, v1)" "vfs_inv pth1 mnt v1" "same_phys v v1"
      "case vfs_spec v mnt (map fnv (path_names p)) of None \<Rightarrow> r = None
       | Some p \<Rightarrow> \<exists>n. r = Some n \<and> vn_pn (v_nodes v1 n) = Some p" by blast
  from lookup_node_ok [OF r(2) assms(3)] obtain s v2 pth2 where
    s: "lookup_node (47 # q) v1 = Inr (s, v2)" "vfs_inv pth2 mnt v2" "same_phys v1 v2"
      "case vfs_spec v1 mnt (map fnv (path_names q)) of None \<Rightarrow> s = None
       | Some p \<Rightarrow> \<exists>n. s = Some n \<and> vn_pn (v_nodes v2 n) = Some p" by blast
  have "same_phys v v2" using r(3) s(3) by (rule same_phys_trans)
  with r s same_phys_spec [OF r(3), of mnt] show ?thesis
    by (intro exI [of _ r] exI [of _ v1] exI [of _ s] exI [of _ v2] exI [of _ pth2])
      (auto split: option.splits)
qed

theorem vfs_lookup_witness:
  "\<exists>r v1 s v2. lookup_node [47, 97, 0] small_vfs = Inr (r, v1) \<and> lookup_node [47, 98, 0] v1 = Inr (s, v2) \<and>
     Option.bind r (\<lambda>n. vn_pn (v_nodes v1 n)) = Some (P_Tmp 1) \<and> s = None"
proof -
  have g: "good_path [97, 0]" "good_path [98, 0]" by (simp_all add: good_path_def)
  have n: "path_names [97, 0] = [[97]]" "path_names [98, 0] = [[98]]" by (simp_all add: path_names_def)
  have f: "fnv [97] \<noteq> fnv [98]" by (simp add: fnv_def hash_step_def)
  have a: "vfs_spec small_vfs (\<lambda>hs. if hs = [] then Some (P_Tmp 0) else None) (map fnv [[97]]) = Some (P_Tmp 1)"
    by (simp add: vfs_spec_def pfs_child_def small_vfs_def kmap_try_get_def)
  have b: "vfs_spec small_vfs (\<lambda>hs. if hs = [] then Some (P_Tmp 0) else None) (map fnv [[98]]) = None"
    using f by (simp add: vfs_spec_def pfs_child_def small_vfs_def kmap_try_get_def)
  from vfs_lookup [OF small_vfs_inv g] n a b show ?thesis by auto
qed

end
