(* ===== verification/Syscalls_Spec.thy ===== *)
theory Syscalls_Spec imports Syscalls Process_Spec VFS_Spec begin

text \<open>
  The properties of object handles, of the table of system calls and of waiting for a process.
\<close>

section \<open>Handles\<close>

fun register_all :: "('o \<Rightarrow> 'm \<Rightarrow> (u64 \<times> 'm) res) \<Rightarrow> 'o list \<Rightarrow> 'm \<Rightarrow> (u64 list \<times> 'm) res" where
  "register_all reg [] m = Inr ([], m)"
| "register_all reg (x # xs) m =
     res_bind (reg x m) (\<lambda>(h, m1). res_bind (register_all reg xs m1) (\<lambda>(hs, m2). Inr (h # hs, m2)))"

text \<open>The interface that hands out handles; \<open>room\<close> is the number of handles that are left.\<close>

locale handle_registry =
  fixes reg :: "'o \<Rightarrow> 'm \<Rightarrow> (u64 \<times> 'm) res"
    and get :: "u64 \<Rightarrow> 'm \<Rightarrow> 'o option"
    and ok :: "'m \<Rightarrow> bool"
    and room :: "'m \<Rightarrow> nat"
  assumes reg_ok: "ok m \<Longrightarrow> 0 < room m \<Longrightarrow> \<exists>h m'. reg x m = Inr (h, m') \<and> ok m' \<and> Suc (room m') = room m \<and>
      h \<noteq> - 1 \<and> get h m = None \<and> (\<forall>h'. get h' m' = (if h' = h then Some x else get h' m))"
begin

lemma register_all_ok:
  "ok m \<Longrightarrow> length xs \<le> room m \<Longrightarrow>
   \<exists>hs m'. register_all reg xs m = Inr (hs, m') \<and> ok m' \<and> length hs = length xs \<and> distinct hs \<and> - 1 \<notin> set hs \<and>
     (\<forall>h \<in> set hs. get h m = None) \<and>
     (\<forall>h. get h m' = (case map_of (zip hs xs) h of None \<Rightarrow> get h m | Some x \<Rightarrow> Some x))"
proof (induction xs arbitrary: m)
  case (Cons x xs)
  then have "0 < room m" by simp
  from reg_ok [OF Cons.prems(1) this, of x] obtain h m1 where
    h: "reg x m = Inr (h, m1)" "ok m1" "Suc (room m1) = room m" "h \<noteq> - 1" "get h m = None"
      "\<forall>h'. get h' m1 = (if h' = h then Some x else get h' m)" by blast
  have "length xs \<le> room m1" using Cons.prems(2) h(3) by simp
  from Cons.IH [OF h(2) this] obtain hs m2 where
    hs: "register_all reg xs m1 = Inr (hs, m2)" "ok m2" "length hs = length xs" "distinct hs" "- 1 \<notin> set hs"
      "\<forall>h \<in> set hs. get h m1 = None"
      "\<forall>h. get h m2 = (case map_of (zip hs xs) h of None \<Rightarrow> get h m1 | Some x \<Rightarrow> Some x)" by blast
  have nin: "h \<notin> set hs" using hs(6) h(6) by auto
  then have "map_of (zip hs xs) h = None" using hs(3) by (simp add: map_of_zip_is_None)
  then have "get h' m2 = (case map_of (zip (h # hs) (x # xs)) h' of None \<Rightarrow> get h' m | Some x \<Rightarrow> Some x)" for h'
    using hs(7) h(6) by (auto split: option.split)
  moreover have "register_all reg (x # xs) m = Inr (h # hs, m2)" using h(1) hs(1) by simp
  moreover have "\<forall>h' \<in> set (h # hs). get h' m = None" using hs(6) h(5,6) nin by (auto split: if_splits)
  ultimately show ?case
    using hs(2-5) h(4) nin by (intro exI [of _ "h # hs"] exI [of _ m2]) simp
qed simp

end

definition om_inv :: "object_mgr \<Rightarrow> bool" where
  "om_inv om \<longleftrightarrow> map_inv (om_objects om) \<and> (\<forall>h d. kmap_try_get h (om_objects om) = Some d \<longrightarrow> h < om_next om)"

definition om_room :: "object_mgr \<Rightarrow> nat" where
  "om_room om = 2 ^ 64 - 1 - unat (om_next om)"

definition om_register :: "object_desc \<Rightarrow> object_mgr \<Rightarrow> (u64 \<times> object_mgr) res" where
  "om_register d om = register_object (od_owner d) (od_object d) om"

definition om_get :: "u64 \<Rightarrow> object_mgr \<Rightarrow> object_desc option" where
  "om_get h om = kmap_try_get h (om_objects om)"

interpretation om: handle_registry om_register om_get om_inv om_room
proof (unfold_locales, goal_cases)
  case (1 m x)
  let ?h = "om_next m"
  have lt: "unat ?h < 2 ^ 64 - 1" using 1(2) by (simp add: om_room_def)
  then have inc: "unat (?h + 1) = unat ?h + 1" by (simp add: unat_word_ariths)
  have none: "kmap_try_get ?h (om_objects m) = None" using 1(1) by (auto simp: om_inv_def)
  have "map_inv (om_objects m)" using 1(1) by (simp add: om_inv_def)
  from km.add_ok [OF this, of ?h x] obtain q where
    q: "kmap_add ?h x (om_objects m) = Inr q" "map_inv q"
      "\<forall>k. kmap_try_get k q = (if k = ?h then Some x else kmap_try_get k (om_objects m))" by blast
  have "om_register x m = Inr (?h, \<lparr>om_next = ?h + 1, om_objects = q\<rparr>)"
    using q(1) by (cases x) (simp add: om_register_def register_object_def Let_def)
  moreover have "om_inv \<lparr>om_next = ?h + 1, om_objects = q\<rparr>"
    using 1(1) q(2,3) inc by (fastforce simp: om_inv_def word_less_nat_alt split: if_splits)
  moreover have "Suc (om_room \<lparr>om_next = ?h + 1, om_objects = q\<rparr>) = om_room m"
    using inc lt by (simp add: om_room_def)
  moreover have "?h \<noteq> - 1"
  proof
    assume "?h = - 1"
    then have "unat ?h = 2 ^ 64 - 1" by (simp add: unsigned_minus_1_eq_mask mask_eq_exp_minus_1)
    then show False using lt by simp
  qed
  ultimately show ?case using none q(3) by (auto simp: om_get_def)
qed

lemma om_new_ok: "om_inv om_new" and om_new_room: "om_room om_new = 2 ^ 64 - 2"
  by (simp_all add: om_inv_def om_new_def om_room_def kmap_empty_inv km.get_empty)

lemma get_object_secure_get:
  "get_object_secure proc t h om =
     (case om_get h om of None \<Rightarrow> None | Some d \<Rightarrow> if proc (od_owner d) \<noteq> proc t then None else Some (od_object d))"
  by (simp add: get_object_secure_def om_get_def)

text \<open>What the calls answer to a handle that the process of the running thread does not hold.\<close>

lemma foreign_handle:
  assumes "secure_object h y = None"
  shows "sys_close h y = Inr (- 1, y)" and "sys_read D h sz y = Inr ((- 1, []), y)"
    and "sys_write D h buf y = Inr (- 1, y)" and "sys_closedir h y = Inr (- 1, y)"
    and "sys_readdir h nm y = Inr ((0, None), y)" and "sys_wait_proc h y = Inr (Inl (- 1))"
    and "sys_join_thread h y = Inr (Inl (- 1))" and "h \<noteq> - 1 \<Longrightarrow> sys_stop_thread E h y = Inr ((- 1, False), y)"
  using assms by (simp_all add: sys_close_def sys_read_def sys_write_def sys_closedir_def sys_readdir_def
      sys_wait_proc_def sys_join_thread_def sys_stop_thread_def)

section \<open>The table\<close>

lemma register_syscall_small:
  assumes "n < 256" and "length tbl = 256"
  shows "register_syscall (of_nat n) fn tbl = tbl[n := Some fn]"
proof -
  have "unat (of_nat n :: i32) = n" by (rule unat_of_nat_u32) (use assms(1) in simp)
  then have "sint (of_nat n :: i32) = int n" using assms(1) sint_i32_pos [of "of_nat n"] by simp
  then show ?thesis using assms(1) by (simp add: register_syscall_def MAX_SYSCALLS_def)
qed

section \<open>Waiting for a process\<close>

text \<open>
  What may happen in the kernel while a thread waits for process \<open>p\<close>: anything the scheduler does to the
  threads of \<open>E\<close>, waits of any thread for any process, and terminations of other processes. No thread is
  created and no process is deleted.
\<close>

inductive other_step :: "nat set \<Rightarrow> nat \<Rightarrow> kstate \<Rightarrow> kstate \<Rightarrow> bool" for E p where
  by_sched: "sched_step E (k_sched k) s \<Longrightarrow> other_step E p k (k\<lparr>k_sched := s\<rparr>)"
| by_wait: "u \<in> E \<Longrightarrow> u \<noteq> idle (k_sched k) \<Longrightarrow>
    wait_proc_step (card E + 2) q u (At_Wait, k) = Inr (pc, k') \<Longrightarrow> other_step E p k k'"
| by_termination: "q \<noteq> p \<Longrightarrow> set (term_threads q k) \<subseteq> E - {idle (k_sched k)} \<Longrightarrow> set (term_waiters q k) \<subseteq> E \<Longrightarrow>
    process_terminate (card E + 2) q k = Inr (y, k') \<Longrightarrow> other_step E p k k'"

definition with_waiter :: "nat \<Rightarrow> nat \<Rightarrow> kstate \<Rightarrow> nat \<Rightarrow> process" where
  "with_waiter p t k = (k_procs k)(p := (k_procs k p)\<lparr>p_waiters := klist_append (p_waiters (k_procs k p)) t\<rparr>)"

lemma wait_proc_step_eq:
  "wait_proc_step n p t (At_Wait, k) = res_bind (set_entity_state n (k_sched k) t SLEEPING) (\<lambda>s.
     Inr (At_Test, k\<lparr>k_procs := with_waiter p t k, k_sched := s\<rparr>))"
  by (cases "set_entity_state n (k_sched k) t SLEEPING")
    (simp_all add: wait_proc_step_def with_waiter_def set_proc_def thread_sleep_def Let_def)

context scheduling_algorithm
begin

text \<open>The wait of thread \<open>t\<close> on the event of process \<open>p\<close>.\<close>

lemma wait_step_ok:
  assumes g: "sched_good E A (k_sched k)" and t: "t \<in> E" "t \<noteq> idle (k_sched k)"
  shows "uaf_or (k_sched k) (\<lambda>(pc, k'). pc = At_Test \<and> sched_good E A (k_sched k') \<and> kept E A (k_sched k) (k_sched k') \<and>
      est (ents (k_sched k') t) = SLEEPING \<and> k_procs k' = with_waiter p t k)
    (wait_proc_step (card E + 2) p t (At_Wait, k))"
proof -
  have i: "sched_inv E A (k_sched k)" "active (k_sched k)" using g by (simp_all add: sched_good_def)
  have "card E + 1 < card E + 2" by simp
  from set_state_kept [OF i(1) t _ this, of SLEEPING] show ?thesis unfolding wait_proc_step_eq
    by (rule uaf_or_bind) (use i(2) kept_good in \<open>auto simp: uaf_or_Inr\<close>)
qed

text \<open>What holds while \<open>t\<close> is on the wait queue of \<open>p\<close>.\<close>

definition enqueued :: "nat set \<Rightarrow> nat \<Rightarrow> nat \<Rightarrow> kstate \<Rightarrow> bool" where
  "enqueued E p t k \<longleftrightarrow> sched_good E A (k_sched k) \<and> t \<in> set (term_waiters p k) \<and> set (term_waiters p k) \<subseteq> E \<and>
     set (term_threads p k) \<subseteq> E - {idle (k_sched k)} \<and> t \<notin> set (term_threads p k)"

lemma enqueued_step:
  assumes q: "enqueued E p t k" and st: "other_step E p k k'"
  shows "enqueued E p t k'"
  using st
proof cases
  case (by_sched s)
  then show ?thesis using q step_good [of E "k_sched k" s] by (simp add: enqueued_def term_waiters_def term_threads_def)
next
  case (by_wait u q' pc)
  have "sched_good E A (k_sched k)" using q by (simp add: enqueued_def)
  from wait_step_ok [OF this by_wait(1,2), of q'] by_wait(3) have
    r: "sched_good E A (k_sched k')" "kept E A (k_sched k) (k_sched k')" "k_procs k' = with_waiter q' u k"
    by (auto simp: uaf_or_def)
  then show ?thesis
    using q by_wait(1) by (auto simp: enqueued_def term_waiters_def term_threads_def with_waiter_def kept_def same_frame_def)
next
  case (by_termination q' y)
  have i: "sched_inv E A (k_sched k)" "active (k_sched k)" using q by (simp_all add: enqueued_def sched_good_def)
  from terminate_ok [OF i(1) by_termination(2,3)] by_termination(4) have
    r: "term_done E q' k (y, k')" by (auto simp: uaf_or_def)
  then have "k_procs k' p = k_procs k p" "kept E A (k_sched k) (k_sched k')"
    using by_termination(1) by (simp_all add: term_done_def)
  then show ?thesis
    using q kept_good [OF _ i(2)] by (auto simp: enqueued_def term_waiters_def term_threads_def kept_def same_frame_def)
qed

lemma enqueued_steps: "(other_step E p)\<^sup>*\<^sup>* k k' \<Longrightarrow> enqueued E p t k \<Longrightarrow> enqueued E p t k'"
  by (induction rule: rtranclp_induct) (auto intro: enqueued_step)

lemma enqueued_terminate:
  assumes "enqueued E p t k"
  shows "uaf_or (k_sched k) (\<lambda>(c, k'). p_terminated (k_procs k' p) \<and> est (ents (k_sched k') t) = RUNNABLE)
    (process_terminate (card E + 2) p k)"
proof -
  have i: "sched_inv E A (k_sched k)" "set (term_threads p k) \<subseteq> E - {idle (k_sched k)}" "set (term_waiters p k) \<subseteq> E"
    and t: "t \<in> set (term_waiters p k)" "t \<notin> set (term_threads p k)"
    using assms by (simp_all add: enqueued_def sched_good_def)
  have "t \<notin> set (stopped_part (cur_thread (k_sched k)) (term_threads p k))"
    using t(2) stopped_part_subset by blast
  with t(1) show ?thesis
    by (intro uaf_or_mono [OF terminate_ok [OF i]]) (auto simp: term_done_def Let_def)
qed

text \<open>Both orders of a wait and a termination.\<close>

lemma wait_then_terminate:
  assumes g: "sched_good E A (k_sched k)" and t: "t \<in> E" "t \<noteq> idle (k_sched k)" "t \<notin> set (term_threads p k)"
    and p: "set (term_threads p k) \<subseteq> E - {idle (k_sched k)}" "set (term_waiters p k) \<subseteq> E"
    and r: "wait_proc_step (card E + 2) p t (At_Wait, k) = Inr (pc, k1)" "(other_step E p)\<^sup>*\<^sup>* k1 k2"
  shows "pc = At_Test \<and> est (ents (k_sched k1) t) = SLEEPING \<and>
    uaf_or (k_sched k2) (\<lambda>(c, k'). p_terminated (k_procs k' p) \<and> est (ents (k_sched k') t) = RUNNABLE)
      (process_terminate (card E + 2) p k2)"
proof -
  from wait_step_ok [OF g t(1,2), of p] r(1) have w: "pc = At_Test" "sched_good E A (k_sched k1)"
    "kept E A (k_sched k) (k_sched k1)" "est (ents (k_sched k1) t) = SLEEPING" "k_procs k1 = with_waiter p t k"
    by (auto simp: uaf_or_def)
  have "enqueued E p t k1"
    using w(2,3,5) t p unfolding enqueued_def
    by (auto simp: with_waiter_def term_waiters_def term_threads_def kept_def same_frame_def)
  from enqueued_terminate [OF enqueued_steps [OF r(2) this]] w(1,4) show ?thesis by blast
qed

lemma terminate_then_wait:
  assumes g: "sched_good E A (k_sched k)" and t: "t \<in> E" "t \<noteq> idle (k_sched k)"
    and p: "set (term_threads p k) \<subseteq> E - {idle (k_sched k)}" "set (term_waiters p k) \<subseteq> E"
    and r: "process_terminate (card E + 2) p k = Inr (c, k1)"
  shows "uaf_or (k_sched k) (\<lambda>(pc, k2). pc = At_Test \<and> est (ents (k_sched k2) t) = SLEEPING \<and>
      p_terminated (k_procs k2 p) \<and> term_waiters p k2 = [t]) (wait_proc_step (card E + 2) p t (At_Wait, k1))"
proof -
  have i: "sched_inv E A (k_sched k)" "active (k_sched k)" using g by (simp_all add: sched_good_def)
  have "term_done E p k (c, k1)" using terminate_ok [OF i(1) p] unfolding r uaf_or_Inr .
  then have d: "kept E A (k_sched k) (k_sched k1)" "p_terminated (k_procs k1 p)" "elems (p_waiters (k_procs k1 p)) = []"
    by (simp_all add: term_done_def)
  have g1: "sched_good E A (k_sched k1)" "t \<noteq> idle (k_sched k1)" "wait_graph (k_sched k1) \<subseteq> wait_graph (k_sched k)"
    using d(1) i(2) t(2) kept_good by (simp_all add: kept_def same_frame_def)
  from wait_step_ok [OF g1(1) t(1) g1(2), of p]
  have "uaf_or (k_sched k1) (\<lambda>(pc, k2). pc = At_Test \<and> est (ents (k_sched k2) t) = SLEEPING \<and>
      p_terminated (k_procs k2 p) \<and> term_waiters p k2 = [t]) (wait_proc_step (card E + 2) p t (At_Wait, k1))"
    by (rule uaf_or_mono) (use d(2,3) in \<open>auto simp: with_waiter_def term_waiters_def\<close>)
  then show ?thesis using g1(3) by (rule uaf_or_sub)
qed

end

section \<open>Properties\<close>

text \<open>C27: objects that are registered get distinct handles, none of them the error value, as long as there
  are handles left; each handle gives its object to the threads of the process that registered it and
  null to all others, older handles keep their meaning, and a system call on a handle of another
  process returns its error code and changes nothing.\<close>

theorem object_handles:
  assumes "om_inv om" and "length ds \<le> om_room om"
  shows "\<exists>hs om'. register_all om_register ds om = Inr (hs, om') \<and> om_inv om' \<and> length hs = length ds \<and>
    distinct hs \<and> object_error \<notin> set hs \<and>
    (\<forall>proc u. (\<forall>i < length ds. get_object_secure proc u (hs ! i) om' =
         (if proc (od_owner (ds ! i)) = proc u then Some (od_object (ds ! i)) else None)) \<and>
       (\<forall>h. h \<notin> set hs \<longrightarrow> get_object_secure proc u h om' = get_object_secure proc u h om)) \<and>
    (\<forall>y i. y_om y = om' \<and> i < length ds \<and> thread_proc y (od_owner (ds ! i)) \<noteq> thread_proc y (current_thread y) \<longrightarrow>
       sys_close (hs ! i) y = Inr (- 1, y) \<and> sys_read D (hs ! i) sz y = Inr ((- 1, []), y) \<and>
       sys_write D (hs ! i) buf y = Inr (- 1, y) \<and> sys_closedir (hs ! i) y = Inr (- 1, y) \<and>
       sys_wait_proc (hs ! i) y = Inr (Inl (- 1)) \<and> sys_stop_thread X (hs ! i) y = Inr ((- 1, False), y))"
proof -
  from om.register_all_ok [OF assms] obtain hs om' where
    r: "register_all om_register ds om = Inr (hs, om')" "om_inv om'" "length hs = length ds" "distinct hs"
      "- 1 \<notin> set hs" "\<forall>h. om_get h om' = (case map_of (zip hs ds) h of None \<Rightarrow> om_get h om | Some x \<Rightarrow> Some x)"
    by blast
  have in1: "om_get (hs ! i) om' = Some (ds ! i)" if "i < length ds" for i
    using r(3,4,6) that by (simp add: map_of_zip_nth)
  have out: "om_get h om' = om_get h om" if "h \<notin> set hs" for h
    using r(3,6) that by (simp add: map_of_zip_is_None [THEN iffD2])
  have calls: "sys_close (hs ! i) y = Inr (- 1, y) \<and> sys_read D (hs ! i) sz y = Inr ((- 1, []), y) \<and>
      sys_write D (hs ! i) buf y = Inr (- 1, y) \<and> sys_closedir (hs ! i) y = Inr (- 1, y) \<and>
      sys_wait_proc (hs ! i) y = Inr (Inl (- 1)) \<and> sys_stop_thread X (hs ! i) y = Inr ((- 1, False), y)"
    if "y_om y = om'" "i < length ds" "thread_proc y (od_owner (ds ! i)) \<noteq> thread_proc y (current_thread y)" for y i
  proof -
    have "hs ! i \<in> set hs" using that(2) r(3) by simp
    then have "hs ! i \<noteq> - 1" using r(5) by metis
    moreover have "secure_object (hs ! i) y = None"
      using that in1 [OF that(2)] by (simp add: secure_object_def get_object_secure_get)
    ultimately show ?thesis by (simp add: foreign_handle)
  qed
  show ?thesis
    using r(1-5) in1 out calls
    by (intro exI [of _ hs] exI [of _ om']) (simp add: object_error_def get_object_secure_get)
qed

theorem object_handles_witness:
  "\<exists>h om. register_object 1 (O_File 0) om_new = Inr (h, om) \<and> h \<noteq> object_error \<and>
     get_object_secure (\<lambda>t. t div 10) 5 h om = Some (O_File 0) \<and> get_object_secure (\<lambda>t. t div 10) 15 h om = None"
proof -
  let ?d = "\<lparr>od_owner = 1, od_object = O_File 0\<rparr>"
  have "length [?d] \<le> om_room om_new" by (simp add: om_new_room)
  from object_handles [OF om_new_ok this, where D = "D :: unit dev_ops" and sz = 0 and buf = "[]" and X = X for D X]
  obtain hs om where
    r: "register_all om_register [?d] om_new = Inr (hs, om)" "length hs = length [?d]" "object_error \<notin> set hs"
      "\<forall>proc u. (\<forall>i < length [?d]. get_object_secure proc u (hs ! i) om =
        (if proc (od_owner ([?d] ! i)) = proc u then Some (od_object ([?d] ! i)) else None)) \<and>
        (\<forall>h. h \<notin> set hs \<longrightarrow> get_object_secure proc u h om = get_object_secure proc u h om_new)"
    by blast
  obtain h where h: "hs = [h]" using r(2) by (cases hs) auto
  have "register_object 1 (O_File 0) om_new = Inr (h, om)"
    using r(1) h by (cases "register_object 1 (O_File 0) om_new") (auto simp: om_register_def split: prod.splits)
  moreover have "get_object_secure proc u h om = (if proc 1 = proc u then Some (O_File 0) else None)" for proc u
    using spec [OF spec [OF r(4), of proc], of u] h by simp
  ultimately show ?thesis using r(3) h by auto
qed

text \<open>C28: a thread that waits for a process of which it is no thread itself, whatever else threads wait for.
  The test of the loop goes on to the wait while the process is not terminated. The wait puts the thread to
  sleep on the event of the process, and any termination of the process after it, with any steps of other
  threads in between, makes the thread runnable, and its next test returns. But a termination between the
  test and the wait is lost: the thread goes to sleep, alone on the queue of a process that is already
  terminated. The wait and the termination return unless threads wait for each other in a cycle.\<close>

theorem wait_proc_order:
  assumes "A \<in> {fifo_algo, rr_algo, cfs_algo}" and "sched_inv E A (k_sched k)" and "active (k_sched k)"
    and "t \<in> E" and "t \<noteq> idle (k_sched k)" and "t \<notin> set (term_threads p k)"
    and "set (term_threads p k) \<subseteq> E - {idle (k_sched k)}" and "set (term_waiters p k) \<subseteq> E"
    and "\<not> p_terminated (k_procs k p)" and "n = card E + 2"
  shows "wait_proc_step n p t (At_Test, k) = Inr (At_Wait, k) \<and>
    (\<forall>pc k1 k2. wait_proc_step n p t (At_Wait, k) = Inr (pc, k1) \<and> (other_step E p)\<^sup>*\<^sup>* k1 k2 \<longrightarrow>
       pc = At_Test \<and> est (ents (k_sched k1) t) = SLEEPING \<and>
       (\<forall>c k3. process_terminate n p k2 = Inr (c, k3) \<longrightarrow>
          est (ents (k_sched k3) t) = RUNNABLE \<and> wait_proc_step n p t (At_Test, k3) = Inr (Returned, k3)) \<and>
       (acyclic (wait_graph (k_sched k2)) \<longrightarrow> (\<exists>c k3. process_terminate n p k2 = Inr (c, k3)))) \<and>
    (\<forall>c k1 pc k2. process_terminate n p k = Inr (c, k1) \<and> wait_proc_step n p t (At_Wait, k1) = Inr (pc, k2) \<longrightarrow>
       est (ents (k_sched k2) t) = SLEEPING \<and> p_terminated (k_procs k2 p) \<and> term_waiters p k2 = [t]) \<and>
    (acyclic (wait_graph (k_sched k)) \<longrightarrow> (\<exists>k1. wait_proc_step n p t (At_Wait, k) = Inr (At_Test, k1)) \<and>
       (\<exists>c k1 k2. process_terminate n p k = Inr (c, k1) \<and> wait_proc_step n p t (At_Wait, k1) = Inr (At_Test, k2)))"
proof -
  note alg = algorithms [OF assms(1)]
  have g: "sched_good E A (k_sched k)" using assms(2,3) by (simp add: sched_good_def)
  have test: "wait_proc_step n p t (At_Test, k') = Inr (if p_terminated (k_procs k' p) then Returned else At_Wait, k')" for k'
    by (simp add: wait_proc_step_def)
  note wait = scheduling_algorithm.wait_step_ok [OF alg g assms(4,5), of p, folded assms(10)]
  note ends = scheduling_algorithm.terminate_ok [OF alg assms(2,7,8), folded assms(10)]
  note woken = scheduling_algorithm.wait_then_terminate [OF alg g assms(4-8), folded assms(10)]
  note lost = scheduling_algorithm.terminate_then_wait [OF alg g assms(4,5,7,8), folded assms(10)]
  show ?thesis
  proof (intro conjI allI impI)
    show "wait_proc_step n p t (At_Test, k) = Inr (At_Wait, k)" using assms(9) by (simp add: test)
  next
    fix pc k1 k2 assume "wait_proc_step n p t (At_Wait, k) = Inr (pc, k1) \<and> (other_step E p)\<^sup>*\<^sup>* k1 k2"
    then show "pc = At_Test" "est (ents (k_sched k1) t) = SLEEPING" using woken by blast+
  next
    fix pc k1 k2 c k3 assume a: "wait_proc_step n p t (At_Wait, k) = Inr (pc, k1) \<and> (other_step E p)\<^sup>*\<^sup>* k1 k2"
      and "process_terminate n p k2 = Inr (c, k3)"
    then have "p_terminated (k_procs k3 p) \<and> est (ents (k_sched k3) t) = RUNNABLE"
      using woken [of pc k1 k2] by (simp add: uaf_or_Inr)
    then show "est (ents (k_sched k3) t) = RUNNABLE" "wait_proc_step n p t (At_Test, k3) = Inr (Returned, k3)"
      by (simp_all add: test)
  next
    fix pc k1 k2 assume a: "wait_proc_step n p t (At_Wait, k) = Inr (pc, k1) \<and> (other_step E p)\<^sup>*\<^sup>* k1 k2"
      and "acyclic (wait_graph (k_sched k2))"
    then show "\<exists>c k3. process_terminate n p k2 = Inr (c, k3)" using woken [of pc k1 k2] uaf_or_acyclic by fastforce
  next
    fix c k1 pc k2
    assume "process_terminate n p k = Inr (c, k1) \<and> wait_proc_step n p t (At_Wait, k1) = Inr (pc, k2)"
    then show "est (ents (k_sched k2) t) = SLEEPING" "p_terminated (k_procs k2 p)" "term_waiters p k2 = [t]"
      using lost [of c k1] by (auto simp: uaf_or_Inr)
  next
    assume ac: "acyclic (wait_graph (k_sched k))"
    show "\<exists>k1. wait_proc_step n p t (At_Wait, k) = Inr (At_Test, k1)" using uaf_or_acyclic [OF wait ac] by auto
    obtain c k1 where k1: "process_terminate n p k = Inr (c, k1)" using uaf_or_acyclic [OF ends ac] by auto
    with uaf_or_acyclic [OF lost [OF k1] ac]
    show "\<exists>c k1 k2. process_terminate n p k = Inr (c, k1) \<and> wait_proc_step n p t (At_Wait, k1) = Inr (At_Test, k2)" by auto
  qed
qed

text \<open>Process 0 has thread 1, and thread 2 waits for it.\<close>

definition waiting :: kstate where
  "waiting = set_proc 0 ((k_procs (exiting blank_machine) 0)\<lparr>p_threads := \<lparr>elems = [1], cnt = 1\<rparr>\<rparr>) (exiting blank_machine)"

theorem wait_proc_order_witness:
  "\<exists>c k1 k2. process_terminate 5 0 waiting = Inr (c, k1) \<and> wait_proc_step 5 0 2 (At_Wait, k1) = Inr (At_Test, k2) \<and>
     est (ents (k_sched k2) 2) = SLEEPING \<and> p_terminated (k_procs k2 0)"
proof -
  have inv: "sched_inv {0, 1, 2} rr_algo (k_sched waiting)"
    using two_threads_inv [of rr_algo] by (simp add: waiting_def set_proc_def exiting_def sched_inv_def)
  have wg: "wait_graph (k_sched waiting) = {}"
    using two_threads_facts(3) [of rr_algo] by (simp add: waiting_def set_proc_def exiting_def wait_graph_def)
  have f: "term_threads 0 waiting = [1]" "term_waiters 0 waiting = []" "idle (k_sched waiting) = 0"
    "\<not> p_terminated (k_procs waiting 0)"
    by (simp_all add: term_threads_def term_waiters_def waiting_def set_proc_def exiting_def klist_new_def
        two_threads_def fresh_def)
  have ac: "acyclic (wait_graph (k_sched waiting))" by (simp add: wg acyclic_def)
  have act: "active (k_sched waiting)"
    using two_threads_facts(1) [of rr_algo] by (simp add: waiting_def set_proc_def exiting_def)
  have c: "5 = card {0 :: nat, 1, 2} + 2" by simp
  from wait_proc_order [OF _ inv act _ _ _ _ _ f(4) c, of 2] ac f(1-3)
  show ?thesis by (auto simp: One_nat_def [symmetric] simp del: One_nat_def)
qed

end
