(* ===== verification/Cmos_RTC.thy ===== *)
theory Cmos_RTC imports Prelude begin

text \<open>
  The real-time clock: the CMOS driver (coursework/cmos-rtc.cpp) and the file through which user
  programs read it (infos/drivers/timer/rtc.cpp). The CMOS chip is hardware: it is a function
  that gives the value of each register at each access, counted from the first one, so a register
  may change between any two reads. Interrupts are disabled during \<open>read_timepoint\<close>, so nothing
  else accesses the two ports in between.
\<close>

section \<open>The time points\<close>

record rtc_tp =
  rt_seconds :: u16
  rt_minutes :: u16
  rt_hours :: u16
  rt_day_of_month :: u16
  rt_month :: u16
  rt_year :: u16

section \<open>The chip\<close>

type_synonym cmos = "nat \<Rightarrow> u8 \<Rightarrow> u8"

unbundle bit_operations_syntax

definition bcd_to_short :: "u8 \<Rightarrow> u16" where
  "bcd_to_short b = ucast (b AND 0x0F) + ucast (drop_bit 4 b AND 0x0F) * 10"

definition read_cmos_offset :: "cmos \<Rightarrow> nat \<Rightarrow> u8 \<Rightarrow> u8 \<times> nat" where
  "read_cmos_offset c t off = (c t off, Suc t)"

definition read_cmos_time :: "cmos \<Rightarrow> nat \<Rightarrow> rtc_tp \<times> nat" where
  "read_cmos_time c t0 =
     (let (s, t1) = read_cmos_offset c t0 0x00;
          (m, t2) = read_cmos_offset c t1 0x02;
          (h, t3) = read_cmos_offset c t2 0x04;
          (d, t4) = read_cmos_offset c t3 0x07;
          (n, t5) = read_cmos_offset c t4 0x08;
          (y, t6) = read_cmos_offset c t5 0x09
      in (\<lparr>rt_seconds = ucast s, rt_minutes = ucast m, rt_hours = ucast h,
           rt_day_of_month = ucast d, rt_month = ucast n, rt_year = ucast y\<rparr>, t6))"

section \<open>Reading the time\<close>

definition updating :: "u8 \<Rightarrow> bool" where
  "updating stat_a \<longleftrightarrow> stat_a AND 0x80 \<noteq> 0"

partial_function (option) first_read_loop :: "cmos \<Rightarrow> nat \<Rightarrow> (rtc_tp \<times> nat) option" where
  "first_read_loop c t =
     (let (a, t1) = read_cmos_offset c t 0x0A
      in if \<not> updating a then Some (read_cmos_time c t1) else first_read_loop c t1)"

text \<open>
  One turn of the second loop: the last values are kept in 8 bits, the new ones are read only when
  no update is in progress, and the loop goes on while a value changed and the read took place.
\<close>

definition last_differs :: "rtc_tp \<Rightarrow> rtc_tp \<Rightarrow> bool" where
  "last_differs l tp \<longleftrightarrow>
     ucast (ucast (rt_seconds l) :: u8) \<noteq> rt_seconds tp \<or>
     ucast (ucast (rt_minutes l) :: u8) \<noteq> rt_minutes tp \<or>
     ucast (ucast (rt_hours l) :: u8) \<noteq> rt_hours tp \<or>
     ucast (ucast (rt_day_of_month l) :: u8) \<noteq> rt_day_of_month tp \<or>
     ucast (ucast (rt_month l) :: u8) \<noteq> rt_month tp \<or>
     ucast (ucast (rt_year l) :: u8) \<noteq> rt_year tp"

partial_function (option) second_read_loop ::
    "cmos \<Rightarrow> rtc_tp \<Rightarrow> u8 option \<Rightarrow> nat \<Rightarrow> (rtc_tp \<times> u8 option \<times> nat) option" where
  "second_read_loop c tp stat_b t =
     (let (a, t1) = read_cmos_offset c t 0x0A;
          (tp', stat_b', ok, t') =
            (if \<not> updating a then
               (let (b, t2) = read_cmos_offset c t1 0x0B;
                    (p, t3) = read_cmos_time c t2
                in (p, Some b, True, t3))
             else (tp, stat_b, False, t1))
      in if last_differs tp tp' \<and> ok then second_read_loop c tp' stat_b' t'
         else Some (tp', stat_b', t'))"

definition decode_bcd :: "rtc_tp \<Rightarrow> rtc_tp" where
  "decode_bcd tp =
     \<lparr>rt_seconds = bcd_to_short (ucast (rt_seconds tp)),
      rt_minutes = bcd_to_short (ucast (rt_minutes tp)),
      rt_hours = bcd_to_short (ucast (rt_hours tp)) OR (rt_hours tp AND 0x80),
      rt_day_of_month = bcd_to_short (ucast (rt_day_of_month tp)),
      rt_month = bcd_to_short (ucast (rt_month tp)),
      rt_year = bcd_to_short (ucast (rt_year tp))\<rparr>"

definition decode_tp :: "u8 \<Rightarrow> rtc_tp \<Rightarrow> rtc_tp" where
  "decode_tp stat_b tp0 =
     (let tp1 = (if stat_b AND 0x04 = 0 then decode_bcd tp0 else tp0)
      in if stat_b AND 0x02 \<noteq> 0 \<and> rt_hours tp1 AND 0x80 \<noteq> 0
         then tp1\<lparr>rt_hours := ((rt_hours tp1 AND 0x7F) + 12) mod 24\<rparr> else tp1)"

definition read_timepoint :: "cmos \<Rightarrow> nat \<Rightarrow> (rtc_tp \<times> nat) res" where
  "read_timepoint c t =
     res_bind (loop_res (first_read_loop c t)) (\<lambda>(tp, t1).
     res_bind (loop_res (second_read_loop c tp None t1)) (\<lambda>(tp', stat_b, t2).
       case stat_b of None \<Rightarrow> Inl Uninit_Read | Some b \<Rightarrow> Inr (decode_tp b tp', t2)))"

section \<open>The file of the clock\<close>

text \<open>The user buffer has the six 16-bit fields in the order of \<open>userspace_tod_buffer\<close>.\<close>

definition tod_buffer :: "rtc_tp \<Rightarrow> u16 list" where
  "tod_buffer tp = [rt_seconds tp, rt_minutes tp, rt_hours tp, rt_day_of_month tp, rt_month tp, rt_year tp]"

definition rtc_file_read :: "cmos \<Rightarrow> nat \<Rightarrow> u64 \<Rightarrow> (nat \<times> u16 list option \<times> nat) res" where
  "rtc_file_read c t sz =
     (if sz < 12 then Inr (0, None, t)
      else res_bind (read_timepoint c t) (\<lambda>(tp, t'). Inr (12, Some (tod_buffer tp), t')))"

definition rtc_file_pread :: "cmos \<Rightarrow> nat \<Rightarrow> u64 \<Rightarrow> u64 \<Rightarrow> (nat \<times> u16 list option \<times> nat) res" where
  "rtc_file_pread c t sz off =
     (if sz < 12 then Inr (0, None, t)
      else if off \<noteq> 0 then Inr (0, None, t)
      else res_bind (read_timepoint c t) (\<lambda>(tp, t'). Inr (12, Some (tod_buffer tp), t')))"

section \<open>The loops\<close>

lemma first_read_loop_polls:
  assumes "\<forall>i < k. updating (c (t + i) 0x0A)" and "\<not> updating (c (t + k) 0x0A)"
  shows "first_read_loop c t = Some (read_cmos_time c (Suc (t + k)))"
  using assms
proof (induction k arbitrary: t)
  case 0
  then show ?case by (subst first_read_loop.simps) (simp add: read_cmos_offset_def)
next
  case (Suc k)
  have "\<forall>i < k. updating (c (Suc t + i) 0x0A)" using Suc.prems(1) by auto
  moreover have "\<not> updating (c (Suc t + k) 0x0A)" using Suc.prems(2) by simp
  ultimately have "first_read_loop c (Suc t) = Some (read_cmos_time c (Suc (Suc t + k)))"
    by (rule Suc.IH)
  moreover have "updating (c t 0x0A)" using Suc.prems(1) by auto
  ultimately show ?case by (subst first_read_loop.simps) (simp add: read_cmos_offset_def)
qed

lemma ucast_down_up [simp]: "(ucast (ucast (ucast (w :: u8) :: u16) :: u8) :: u16) = ucast w"
  by (rule bit_word_eqI) (auto simp: bit_simps dest: bit_imp_le_length)

lemma last_differs_read:
  "last_differs (fst (read_cmos_time c t)) p \<longleftrightarrow> fst (read_cmos_time c t) \<noteq> p"
  by (cases p) (auto simp: last_differs_def read_cmos_time_def read_cmos_offset_def)

lemma snd_read_cmos_time [simp]: "snd (read_cmos_time c t) = t + 6"
  by (simp add: read_cmos_time_def read_cmos_offset_def)

text \<open>The samples of a turn: the time read from access \<open>t + 2\<close> on and register B at access \<open>t + 1\<close>.\<close>

lemma second_read_loop_turn:
  assumes "tp = fst (read_cmos_time c u)"
  shows "second_read_loop c tp sb t =
    (if updating (c t 0x0A) then Some (tp, sb, Suc t)
     else let p = fst (read_cmos_time c (Suc (Suc t))); b = c (Suc t) 0x0B
       in if p \<noteq> tp then second_read_loop c p (Some b) (t + 8) else Some (p, Some b, t + 8))"
proof -
  obtain p where p: "read_cmos_time c (Suc (Suc t)) = (p, t + 8)"
    using snd_read_cmos_time [of c "Suc (Suc t)"] by (cases "read_cmos_time c (Suc (Suc t))") simp
  show ?thesis
    by (subst second_read_loop.simps)
       (simp add: read_cmos_offset_def Let_def p last_differs_read assms)
qed

text \<open>
  The turns of the second loop, started at access \<open>u\<close>: turn \<open>k\<close> polls at access \<open>u + 8 k\<close> and takes
  sample \<open>k + 1\<close>; sample 0 is the time read by the first loop.
\<close>

definition rtc_sample :: "cmos \<Rightarrow> nat \<Rightarrow> nat \<Rightarrow> rtc_tp" where
  "rtc_sample c u k = fst (read_cmos_time c (u + 8 * k - 6))"

lemma second_read_loop_turns:
  assumes "6 \<le> u" and "\<forall>i < k. \<not> updating (c (u + 8 * (j + i)) 0x0A) \<and> rtc_sample c u (Suc (j + i)) \<noteq> rtc_sample c u (j + i)"
  shows "second_read_loop c (rtc_sample c u j) sb (u + 8 * j) =
    second_read_loop c (rtc_sample c u (j + k)) (if k = 0 then sb else Some (c (u + 8 * (j + k) - 7) 0x0B)) (u + 8 * (j + k))"
  using assms(2)
proof (induction k arbitrary: j sb)
  case 0
  then show ?case by simp
next
  case (Suc k)
  have now: "\<not> updating (c (u + 8 * j) 0x0A)" "rtc_sample c u (Suc j) \<noteq> rtc_sample c u j"
    using Suc.prems by force+
  have i: "u + 8 * Suc j - 6 = Suc (Suc (u + 8 * j))" "u + 8 * Suc j - 7 = Suc (u + 8 * j)"
    "u + 8 * Suc j = u + 8 * j + 8" using assms(1) by simp_all
  have next_sample: "rtc_sample c u (Suc j) = fst (read_cmos_time c (Suc (Suc (u + 8 * j))))"
    unfolding rtc_sample_def i(1) ..
  have rest: "\<forall>i < k. \<not> updating (c (u + 8 * (Suc j + i)) 0x0A) \<and>
      rtc_sample c u (Suc (Suc j + i)) \<noteq> rtc_sample c u (Suc j + i)"
    using Suc.prems by (metis Suc_less_eq add_Suc_shift)
  have "second_read_loop c (rtc_sample c u j) sb (u + 8 * j) =
      second_read_loop c (rtc_sample c u (Suc j)) (Some (c (Suc (u + 8 * j)) 0x0B)) (u + 8 * j + 8)"
    using second_read_loop_turn [OF rtc_sample_def, of c u j sb "u + 8 * j"] now
    by (simp only: next_sample Let_def if_True if_False not_False_eq_True)
  also have "\<dots> = second_read_loop c (rtc_sample c u (Suc j + k))
      (if k = 0 then Some (c (u + 8 * Suc j - 7) 0x0B) else Some (c (u + 8 * (Suc j + k) - 7) 0x0B)) (u + 8 * (Suc j + k))"
    using Suc.IH [OF rest, of "Some (c (u + 8 * Suc j - 7) 0x0B)"] unfolding i(2) unfolding i(3) .
  finally show ?case by simp
qed

lemma second_read_loop_end:
  assumes "6 \<le> u"
  shows "updating (c (u + 8 * k) 0x0A) \<Longrightarrow>
      second_read_loop c (rtc_sample c u k) sb (u + 8 * k) = Some (rtc_sample c u k, sb, Suc (u + 8 * k))"
    and "\<not> updating (c (u + 8 * k) 0x0A) \<Longrightarrow> rtc_sample c u (Suc k) = rtc_sample c u k \<Longrightarrow>
      second_read_loop c (rtc_sample c u k) sb (u + 8 * k) =
        Some (rtc_sample c u k, Some (c (u + 8 * k + 1) 0x0B), u + 8 * k + 8)"
proof -
  have i: "u + 8 * Suc k - 6 = Suc (Suc (u + 8 * k))" using assms by simp
  note turn = second_read_loop_turn [where tp = "rtc_sample c u k" and c = c and u = "u + 8 * k - 6" and sb = sb and t = "u + 8 * k"]
  show "updating (c (u + 8 * k) 0x0A) \<Longrightarrow>
      second_read_loop c (rtc_sample c u k) sb (u + 8 * k) = Some (rtc_sample c u k, sb, Suc (u + 8 * k))"
    using turn by (simp add: rtc_sample_def)
  show "\<not> updating (c (u + 8 * k) 0x0A) \<Longrightarrow> rtc_sample c u (Suc k) = rtc_sample c u k \<Longrightarrow>
      second_read_loop c (rtc_sample c u k) sb (u + 8 * k) =
        Some (rtc_sample c u k, Some (c (u + 8 * k + 1) 0x0B), u + 8 * k + 8)"
    using turn by (simp add: rtc_sample_def Let_def i del: mult_Suc_right)
qed

end
