(* ===== verification/Cmos_RTC_Spec.thy ===== *)
theory Cmos_RTC_Spec imports Cmos_RTC begin

text \<open>
  What the clock reads: the encodings of a time in the registers, the time that comes back, and
  the exact behaviour of the two reads around an update.
\<close>

section \<open>Encoded times\<close>

text \<open>
  The register values that stand for a time, as the MC146818 documents them: binary when bit 2 of
  register B is set and BCD otherwise, 24 hours when bit 1 is set, otherwise 12 hours with the PM
  flag in bit 7.
\<close>

definition to_bcd :: "nat \<Rightarrow> nat" where
  "to_bcd n = 16 * (n div 10) + n mod 10"

definition enc :: "bool \<Rightarrow> nat \<Rightarrow> u8" where
  "enc bin n = of_nat (if bin then n else to_bcd n)"

definition enc_hour :: "bool \<Rightarrow> bool \<Rightarrow> nat \<Rightarrow> u8" where
  "enc_hour bin h24 h =
     (if h24 then enc bin h
      else enc bin (if h mod 12 = 0 then 12 else h mod 12) + (if 12 \<le> h then 0x80 else 0))"

definition is_binary :: "u8 \<Rightarrow> bool" where
  "is_binary stat_b \<longleftrightarrow> stat_b AND 0x04 \<noteq> 0"

definition is_24h :: "u8 \<Rightarrow> bool" where
  "is_24h stat_b \<longleftrightarrow> stat_b AND 0x02 \<noteq> 0"

text \<open>The hour that the driver reports for hour \<open>h\<close>.\<close>

definition read_hour :: "bool \<Rightarrow> bool \<Rightarrow> nat \<Rightarrow> nat" where
  "read_hour bin h24 h =
     (if h24 then h
      else (if h mod 12 = 0 then 12 else h mod 12) + (if h < 12 then 0 else if bin then 128 else 208))"

lemma decode_enc:
  "n < 100 \<Longrightarrow> bcd_to_short (enc False n) = of_nat n"
  "n < 100 \<Longrightarrow> ucast (enc True n) = (of_nat n :: u16)"
proof -
  have "\<forall>n \<in> set [0..<100]. bcd_to_short (enc False n) = of_nat n" by code_simp
  then show "n < 100 \<Longrightarrow> bcd_to_short (enc False n) = of_nat n" by simp
  have "\<forall>n \<in> set [0..<100]. ucast (enc True n) = (of_nat n :: u16)" by code_simp
  then show "n < 100 \<Longrightarrow> ucast (enc True n) = (of_nat n :: u16)" by simp
qed

definition field_raw :: "bool \<Rightarrow> u8 \<Rightarrow> u16" where
  "field_raw bin r = (if bin then ucast r else bcd_to_short r)"

lemma field_raw_enc: "n < 100 \<Longrightarrow> field_raw bin (enc bin n) = of_nat n"
  by (cases bin) (simp_all add: field_raw_def decode_enc)

text \<open>The hour after the conversions of the driver; bit 1 of register B is \<open>h24\<close>.\<close>

definition hour_raw :: "bool \<Rightarrow> u8 \<Rightarrow> u16" where
  "hour_raw bin r = (if bin then ucast r else bcd_to_short r OR (ucast r AND 0x80))"

lemma decode_hour:
  assumes "h < 24"
  shows "(if h24 \<and> hour_raw bin (enc_hour bin h24 h) AND 0x80 \<noteq> 0
          then ((hour_raw bin (enc_hour bin h24 h) AND 0x7F) + 12) mod 24
          else hour_raw bin (enc_hour bin h24 h)) = of_nat (read_hour bin h24 h)"
proof -
  have in_bools: "b \<in> {True, False}" for b by (cases b) simp_all
  have in_hours: "h \<in> set [0..<24]" using assms by simp
  have all: "\<forall>h \<in> set [0..<24]. \<forall>bin \<in> {True, False}. \<forall>h24 \<in> {True, False}.
      (if h24 \<and> hour_raw bin (enc_hour bin h24 h) AND 0x80 \<noteq> 0
       then ((hour_raw bin (enc_hour bin h24 h) AND 0x7F) + 12) mod 24
       else hour_raw bin (enc_hour bin h24 h)) = of_nat (read_hour bin h24 h)"
    by code_simp
  show ?thesis by (rule all [THEN bspec, OF in_hours, THEN bspec, OF in_bools, THEN bspec, OF in_bools])
qed

lemma ucast_up_down_u8 [simp]: "(ucast (ucast (w :: u8) :: u16) :: u8) = w"
  by (rule bit_word_eqI) (auto simp: bit_simps dest: bit_imp_le_length)

text \<open>The time point that the driver delivers for a time, with the hour as it reports it.\<close>

definition tp_of :: "nat \<Rightarrow> nat \<Rightarrow> nat \<Rightarrow> nat \<Rightarrow> nat \<Rightarrow> nat \<Rightarrow> rtc_tp" where
  "tp_of s m h d n y =
     \<lparr>rt_seconds = of_nat s, rt_minutes = of_nat m, rt_hours = of_nat h,
      rt_day_of_month = of_nat d, rt_month = of_nat n, rt_year = of_nat y\<rparr>"

definition encoded_time :: "(u8 \<Rightarrow> u8) \<Rightarrow> nat \<Rightarrow> nat \<Rightarrow> nat \<Rightarrow> nat \<Rightarrow> nat \<Rightarrow> nat \<Rightarrow> bool" where
  "encoded_time regs s m h d n y \<longleftrightarrow>
     (let bin = is_binary (regs 0x0B) in
      s < 60 \<and> m < 60 \<and> h < 24 \<and> d < 32 \<and> n < 13 \<and> y < 100 \<and>
      regs 0x00 = enc bin s \<and> regs 0x02 = enc bin m \<and> regs 0x04 = enc_hour bin (is_24h (regs 0x0B)) h \<and>
      regs 0x07 = enc bin d \<and> regs 0x08 = enc bin n \<and> regs 0x09 = enc bin y)"

definition raw_tp :: "(u8 \<Rightarrow> u8) \<Rightarrow> rtc_tp" where
  "raw_tp regs = \<lparr>rt_seconds = ucast (regs 0x00), rt_minutes = ucast (regs 0x02), rt_hours = ucast (regs 0x04),
     rt_day_of_month = ucast (regs 0x07), rt_month = ucast (regs 0x08), rt_year = ucast (regs 0x09)\<rparr>"

lemma decode_raw_tp:
  "decode_tp b (raw_tp regs) =
     (let bin = is_binary b; hr = hour_raw bin (regs 0x04)
      in \<lparr>rt_seconds = field_raw bin (regs 0x00), rt_minutes = field_raw bin (regs 0x02),
          rt_hours = (if is_24h b \<and> hr AND 0x80 \<noteq> 0 then ((hr AND 0x7F) + 12) mod 24 else hr),
          rt_day_of_month = field_raw bin (regs 0x07), rt_month = field_raw bin (regs 0x08),
          rt_year = field_raw bin (regs 0x09)\<rparr>)"
  unfolding decode_tp_def Let_def is_24h_def
  by (cases "is_binary b")
     (simp_all add: is_binary_def raw_tp_def field_raw_def hour_raw_def decode_bcd_def)

lemma decode_encoded_time:
  assumes "encoded_time regs s m h d n y"
  shows "decode_tp (regs 0x0B) (raw_tp regs) =
    tp_of s m (read_hour (is_binary (regs 0x0B)) (is_24h (regs 0x0B)) h) d n y"
proof -
  have less: "s < 100" "m < 100" "d < 100" "n < 100" "y < 100" "h < 24"
    using assms by (auto simp: encoded_time_def Let_def)
  note r = assms [unfolded encoded_time_def Let_def]
  show ?thesis
    unfolding decode_raw_tp Let_def tp_of_def
    by (simp only: r field_raw_enc less decode_hour)
qed

section \<open>The reads\<close>

lemma read_timepoint_turns:
  assumes polls: "\<forall>i < p. updating (c (t + i) 0x0A)" "\<not> updating (c (t + p) 0x0A)"
    and u: "u = t + p + 7"
    and turns: "\<forall>i < k. \<not> updating (c (u + 8 * i) 0x0A) \<and> rtc_sample c u (Suc i) \<noteq> rtc_sample c u i"
  shows "updating (c (u + 8 * k) 0x0A) \<Longrightarrow> read_timepoint c t =
      (if k = 0 then Inl Uninit_Read
       else Inr (decode_tp (c (u + 8 * k - 7) 0x0B) (rtc_sample c u k), u + 8 * k + 1))"
    and "\<not> updating (c (u + 8 * k) 0x0A) \<Longrightarrow> rtc_sample c u (Suc k) = rtc_sample c u k \<Longrightarrow>
      read_timepoint c t = Inr (decode_tp (c (u + 8 * k + 1) 0x0B) (rtc_sample c u k), u + 8 * k + 8)"
proof -
  have "read_cmos_time c (Suc (t + p)) = (rtc_sample c u 0, u)"
    by (simp add: prod_eq_iff rtc_sample_def u)
  then have one: "first_read_loop c t = Some (rtc_sample c u 0, u)"
    using first_read_loop_polls [where c = c and t = t and k = p, OF polls] by simp
  have "6 \<le> u" by (simp add: u)
  note two = second_read_loop_turns [OF this, of k c 0 None, simplified, OF turns]
    and fin = second_read_loop_end [OF this, of c k]
  show "updating (c (u + 8 * k) 0x0A) \<Longrightarrow> read_timepoint c t =
      (if k = 0 then Inl Uninit_Read
       else Inr (decode_tp (c (u + 8 * k - 7) 0x0B) (rtc_sample c u k), u + 8 * k + 1))"
    by (simp add: read_timepoint_def one two fin)
  show "\<not> updating (c (u + 8 * k) 0x0A) \<Longrightarrow> rtc_sample c u (Suc k) = rtc_sample c u k \<Longrightarrow>
      read_timepoint c t = Inr (decode_tp (c (u + 8 * k + 1) 0x0B) (rtc_sample c u k), u + 8 * k + 8)"
    by (simp add: read_timepoint_def one two fin)
qed

lemma first_read_loop_ends:
  assumes "first_read_loop c t = Some y"
  shows "\<exists>i. \<not> updating (c (t + i) 0x0A)"
proof (rule first_read_loop.raw_induct [OF _ assms])
  fix rec :: "cmos \<Rightarrow> nat \<Rightarrow> (rtc_tp \<times> nat) option" and c t y
  assume IH: "\<And>c t y. rec c t = Some y \<Longrightarrow> \<exists>i. \<not> updating (c (t + i) 0x0A)"
    and eq: "(let (a, t1) = read_cmos_offset c t 0x0A
        in if \<not> updating a then Some (read_cmos_time c t1) else rec c t1) = Some y"
  show "\<exists>i. \<not> updating (c (t + i) 0x0A)"
  proof (cases "updating (c t 0x0A)")
    case True
    then have "rec c (Suc t) = Some y" using eq by (simp add: read_cmos_offset_def)
    from IH [OF this] obtain i where "\<not> updating (c (Suc t + i) 0x0A)" by blast
    then show ?thesis by (intro exI [of _ "Suc i"]) simp
  next
    case False
    then show ?thesis by (intro exI [of _ 0]) simp
  qed
qed

lemma read_timepoint_stuck:
  "\<forall>i. updating (c (t + i) 0x0A) \<Longrightarrow> read_timepoint c t = Inl Diverges"
  using first_read_loop_ends [of c t] by (cases "first_read_loop c t") (auto simp: read_timepoint_def)

section \<open>Properties\<close>

lemma quiet_samples:
  assumes "\<forall>s r. u - 6 \<le> s \<and> s < u + 8 * k \<longrightarrow> c s r = regs r" and "6 \<le> u" and "j \<le> k"
  shows "rtc_sample c u j = raw_tp regs"
proof -
  have "c (u + 8 * j - 6 + i) r = regs r" if "i < 6" for i r
    using assms that by (intro assms(1) [rule_format]) auto
  from this [of 0] this [of 1] this [of 2] this [of 3] this [of 4] this [of 5] show ?thesis
    by (simp add: rtc_sample_def read_cmos_time_def read_cmos_offset_def raw_tp_def numeral_eq_Suc)
qed

lemma read_hour_exact: "h < 24 \<Longrightarrow> read_hour bin h24 h = h \<longleftrightarrow> h24 \<or> 0 < h \<and> h < 12"
  using mod_less [of h 12] by (auto simp: read_hour_def)

text \<open>C29: When the clock shows an encoded time from its first poll outside an update on,
  \<open>read_timepoint\<close> returns exactly this time, in binary and in BCD, with the hour of the 24-hour
  format; in the 12-hour format the hours from one to eleven in the morning come back unchanged,
  and every other hour does not: midnight is hour 12 and the hours after noon keep the PM flag,
  because the driver converts them only when the 24-hour bit of register B is set.\<close>

theorem rtc_time_read:
  assumes "\<forall>i < p. updating (c (t + i) 0x0A)" and "\<not> updating (regs 0x0A)"
    and "\<forall>a r. t + p \<le> a \<and> a < t + p + 15 \<longrightarrow> c a r = regs r"
    and "encoded_time regs s m h d n y"
  shows "read_timepoint c t =
      Inr (tp_of s m (read_hour (is_binary (regs 0x0B)) (is_24h (regs 0x0B)) h) d n y, t + p + 15) \<and>
    (read_hour bin h24 h = h \<longleftrightarrow> h24 \<or> 0 < h \<and> h < 12)"
proof
  have same: "rtc_sample c (t + p + 7) j = raw_tp regs" if "j \<le> 1" for j
    by (rule quiet_samples [of _ 1]) (use assms(3) that in auto)
  show "read_timepoint c t =
      Inr (tp_of s m (read_hour (is_binary (regs 0x0B)) (is_24h (regs 0x0B)) h) d n y, t + p + 15)"
    using read_timepoint_turns(2) [where c = c and t = t and p = p and k = 0 and u = "t + p + 7"]
      assms(1,2,3) same [of 0] same [of 1] decode_encoded_time [OF assms(4)] by simp
  show "read_hour bin h24 h = h \<longleftrightarrow> h24 \<or> 0 < h \<and> h < 12"
    using assms(4) by (intro read_hour_exact) (simp add: encoded_time_def Let_def)
qed

lemma rtc_time_read_witness:
  "read_timepoint (\<lambda>t r. if r = 0x0A then (if t < 2 then 0x80 else 0x26) else if r = 0x0B then 0x02
      else if r = 0x00 then 0x59 else if r = 0x02 then 0x30 else if r = 0x04 then 0x23
      else if r = 0x07 then 0x31 else if r = 0x08 then 0x12 else 0x20) 0 =
    Inr (tp_of 59 30 23 31 12 20, 17)"
proof -
  let ?regs = "\<lambda>r :: u8. if r = 0x0A then 0x26 else if r = 0x0B then 0x02
      else if r = 0x00 then 0x59 else if r = 0x02 then 0x30 else if r = 0x04 then 0x23
      else if r = 0x07 then 0x31 else if r = 0x08 then 0x12 else 0x20 :: u8"
  have "encoded_time ?regs 59 30 23 31 12 20" by code_simp
  moreover have "read_hour (is_binary (?regs 0x0B)) (is_24h (?regs 0x0B)) 23 = 23" by code_simp
  ultimately show ?thesis
    using rtc_time_read [of 2 _ 0 ?regs 59 30 23 31 12 20 True True] by (simp add: updating_def)
qed

text \<open>The reads around updates. With the poll outside an update at access \<open>t + p\<close> and \<open>k\<close> turns
  of the second loop that each read a changed time, the next turn ends the loop when it reads the
  same time again, which is then the result, and also when an update is in progress: then the
  result is the last time read, which nothing confirmed, or, at the first turn, register B was
  never read and the conversion uses an uninitialised variable. A clock that is updating at every
  poll keeps the driver in its first loop forever.\<close>

theorem rtc_update_race:
  assumes "\<forall>i < p. updating (c (t + i) 0x0A)" and "\<not> updating (c (t + p) 0x0A)"
    and "u = t + p + 7"
    and "\<forall>i < k. \<not> updating (c (u + 8 * i) 0x0A) \<and> rtc_sample c u (Suc i) \<noteq> rtc_sample c u i"
  shows "(\<not> updating (c (u + 8 * k) 0x0A) \<and> rtc_sample c u (Suc k) = rtc_sample c u k \<longrightarrow>
      read_timepoint c t = Inr (decode_tp (c (u + 8 * k + 1) 0x0B) (rtc_sample c u k), u + 8 * k + 8)) \<and>
    (updating (c (u + 8 * k) 0x0A) \<longrightarrow>
      read_timepoint c t =
        (if k = 0 then Inl Uninit_Read
         else Inr (decode_tp (c (u + 8 * k - 7) 0x0B) (rtc_sample c u k), u + 8 * k + 1))) \<and>
    ((\<forall>i. updating (c' (t + i) 0x0A)) \<longrightarrow> read_timepoint c' t = Inl Diverges)"
  using read_timepoint_turns [OF assms] read_timepoint_stuck [of c' t] by simp

lemma rtc_update_race_witness:
  "read_timepoint (\<lambda>t r. if r = 0x0A \<and> t = 7 then 0x80 else 0x01) 0 = Inl Uninit_Read \<and>
   read_timepoint (\<lambda>t r. if r = 0x0A \<and> t = 15 then 0x80 else if r = 0x00 \<and> t = 9 then 0x02 else 0x01) 0 =
     Inr (tp_of 2 1 1 1 1 1, 16)"
proof
  let ?d = "\<lambda>t r. if r = (0x0A :: u8) \<and> t = (7 :: nat) then 0x80 else (0x01 :: u8)"
  show "read_timepoint ?d 0 = Inl Uninit_Read"
    using rtc_update_race [of 0 ?d 0 7 0] by (simp add: updating_def)
  let ?c = "\<lambda>t r. if r = (0x0A :: u8) \<and> t = (15 :: nat) then 0x80 else if r = 0x00 \<and> t = 9 then 0x02 else (0x01 :: u8)"
  have s: "rtc_sample ?c 7 (Suc 0) = \<lparr>rt_seconds = 2, rt_minutes = 1, rt_hours = 1, rt_day_of_month = 1, rt_month = 1, rt_year = 1\<rparr>"
    "rtc_sample ?c 7 0 = \<lparr>rt_seconds = 1, rt_minutes = 1, rt_hours = 1, rt_day_of_month = 1, rt_month = 1, rt_year = 1\<rparr>"
    by (simp_all add: rtc_sample_def read_cmos_time_def read_cmos_offset_def)
  have "decode_tp 0x01 (rtc_sample ?c 7 (Suc 0)) = tp_of 2 1 1 1 1 1"
    unfolding s by code_simp
  then show "read_timepoint ?c 0 = Inr (tp_of 2 1 1 1 1 1, 16)"
    using rtc_update_race [of 0 ?c 0 7 1 ?d] by (simp add: updating_def s)
qed

end
