(* ===== verification/Keyboard.thy ===== *)
theory Keyboard imports Prelude begin

text \<open>
  The keyboard (infos/drivers/input/keyboard.cpp): the keys, the scan code table and the delivery
  of key events to a sink, which is given by the two operations of \<open>KeyboardSink\<close>.
\<close>

unbundle bit_operations_syntax

section \<open>Keys\<close>

text \<open>The enumeration of the keys: an enumerator is its position.\<close>

type_synonym keys = nat

abbreviation (input) NO_KEY :: keys where "NO_KEY \<equiv> 0"

abbreviation (input) UNKNOWN_KEY :: keys where "UNKNOWN_KEY \<equiv> 1"

abbreviation (input) KEY_ESCAPE :: keys where "KEY_ESCAPE \<equiv> 2"

abbreviation (input) KEY_A :: keys where "KEY_A \<equiv> 3"

abbreviation (input) KEY_B :: keys where "KEY_B \<equiv> 4"

abbreviation (input) KEY_C :: keys where "KEY_C \<equiv> 5"

abbreviation (input) KEY_D :: keys where "KEY_D \<equiv> 6"

abbreviation (input) KEY_E :: keys where "KEY_E \<equiv> 7"

abbreviation (input) KEY_F :: keys where "KEY_F \<equiv> 8"

abbreviation (input) KEY_G :: keys where "KEY_G \<equiv> 9"

abbreviation (input) KEY_H :: keys where "KEY_H \<equiv> 10"

abbreviation (input) KEY_I :: keys where "KEY_I \<equiv> 11"

abbreviation (input) KEY_J :: keys where "KEY_J \<equiv> 12"

abbreviation (input) KEY_K :: keys where "KEY_K \<equiv> 13"

abbreviation (input) KEY_L :: keys where "KEY_L \<equiv> 14"

abbreviation (input) KEY_M :: keys where "KEY_M \<equiv> 15"

abbreviation (input) KEY_N :: keys where "KEY_N \<equiv> 16"

abbreviation (input) KEY_O :: keys where "KEY_O \<equiv> 17"

abbreviation (input) KEY_P :: keys where "KEY_P \<equiv> 18"

abbreviation (input) KEY_Q :: keys where "KEY_Q \<equiv> 19"

abbreviation (input) KEY_R :: keys where "KEY_R \<equiv> 20"

abbreviation (input) KEY_S :: keys where "KEY_S \<equiv> 21"

abbreviation (input) KEY_T :: keys where "KEY_T \<equiv> 22"

abbreviation (input) KEY_U :: keys where "KEY_U \<equiv> 23"

abbreviation (input) KEY_V :: keys where "KEY_V \<equiv> 24"

abbreviation (input) KEY_W :: keys where "KEY_W \<equiv> 25"

abbreviation (input) KEY_X :: keys where "KEY_X \<equiv> 26"

abbreviation (input) KEY_Y :: keys where "KEY_Y \<equiv> 27"

abbreviation (input) KEY_Z :: keys where "KEY_Z \<equiv> 28"

abbreviation (input) KEY_1 :: keys where "KEY_1 \<equiv> 29"

abbreviation (input) KEY_2 :: keys where "KEY_2 \<equiv> 30"

abbreviation (input) KEY_3 :: keys where "KEY_3 \<equiv> 31"

abbreviation (input) KEY_4 :: keys where "KEY_4 \<equiv> 32"

abbreviation (input) KEY_5 :: keys where "KEY_5 \<equiv> 33"

abbreviation (input) KEY_6 :: keys where "KEY_6 \<equiv> 34"

abbreviation (input) KEY_7 :: keys where "KEY_7 \<equiv> 35"

abbreviation (input) KEY_8 :: keys where "KEY_8 \<equiv> 36"

abbreviation (input) KEY_9 :: keys where "KEY_9 \<equiv> 37"

abbreviation (input) KEY_0 :: keys where "KEY_0 \<equiv> 38"

abbreviation (input) KEY_F1 :: keys where "KEY_F1 \<equiv> 39"

abbreviation (input) KEY_F2 :: keys where "KEY_F2 \<equiv> 40"

abbreviation (input) KEY_F3 :: keys where "KEY_F3 \<equiv> 41"

abbreviation (input) KEY_F4 :: keys where "KEY_F4 \<equiv> 42"

abbreviation (input) KEY_F5 :: keys where "KEY_F5 \<equiv> 43"

abbreviation (input) KEY_F6 :: keys where "KEY_F6 \<equiv> 44"

abbreviation (input) KEY_F7 :: keys where "KEY_F7 \<equiv> 45"

abbreviation (input) KEY_F8 :: keys where "KEY_F8 \<equiv> 46"

abbreviation (input) KEY_F9 :: keys where "KEY_F9 \<equiv> 47"

abbreviation (input) KEY_F10 :: keys where "KEY_F10 \<equiv> 48"

abbreviation (input) KEY_F11 :: keys where "KEY_F11 \<equiv> 49"

abbreviation (input) KEY_F12 :: keys where "KEY_F12 \<equiv> 50"

abbreviation (input) KEY_ASTERISK :: keys where "KEY_ASTERISK \<equiv> 51"

abbreviation (input) KEY_LSQBRACKET :: keys where "KEY_LSQBRACKET \<equiv> 52"

abbreviation (input) KEY_RSQBRACKET :: keys where "KEY_RSQBRACKET \<equiv> 53"

abbreviation (input) KEY_DOT :: keys where "KEY_DOT \<equiv> 54"

abbreviation (input) KEY_COMMA :: keys where "KEY_COMMA \<equiv> 55"

abbreviation (input) KEY_SEMICOLON :: keys where "KEY_SEMICOLON \<equiv> 56"

abbreviation (input) KEY_APOSTROPHE :: keys where "KEY_APOSTROPHE \<equiv> 57"

abbreviation (input) KEY_HASH :: keys where "KEY_HASH \<equiv> 58"

abbreviation (input) KEY_BACKSLASH :: keys where "KEY_BACKSLASH \<equiv> 59"

abbreviation (input) KEY_FORSLASH :: keys where "KEY_FORSLASH \<equiv> 60"

abbreviation (input) KEY_BACKTICK :: keys where "KEY_BACKTICK \<equiv> 61"

abbreviation (input) KEY_HYPHEN :: keys where "KEY_HYPHEN \<equiv> 62"

abbreviation (input) KEY_EQUALS :: keys where "KEY_EQUALS \<equiv> 63"

abbreviation (input) KEY_TAB :: keys where "KEY_TAB \<equiv> 64"

abbreviation (input) KEY_RETURN :: keys where "KEY_RETURN \<equiv> 65"

abbreviation (input) KEY_SPACE :: keys where "KEY_SPACE \<equiv> 66"

abbreviation (input) KEY_BACKSPACE :: keys where "KEY_BACKSPACE \<equiv> 67"

abbreviation (input) KEY_CAPSLOCK :: keys where "KEY_CAPSLOCK \<equiv> 68"

abbreviation (input) KEY_LSHIFT :: keys where "KEY_LSHIFT \<equiv> 69"

abbreviation (input) KEY_RSHIFT :: keys where "KEY_RSHIFT \<equiv> 70"

abbreviation (input) KEY_LCTRL :: keys where "KEY_LCTRL \<equiv> 71"

abbreviation (input) KEY_RCTRL :: keys where "KEY_RCTRL \<equiv> 72"

abbreviation (input) KEY_LALT :: keys where "KEY_LALT \<equiv> 73"

abbreviation (input) KEY_RALT :: keys where "KEY_RALT \<equiv> 74"

definition scancode_map :: "keys list" where
  "scancode_map =
    [NO_KEY, KEY_ESCAPE, KEY_1, KEY_2, KEY_3, KEY_4, KEY_5, KEY_6, KEY_7, KEY_8, KEY_9, KEY_0,
     KEY_HYPHEN, KEY_EQUALS, KEY_BACKSPACE, KEY_TAB, KEY_Q, KEY_W, KEY_E, KEY_R, KEY_T, KEY_Y,
     KEY_U, KEY_I, KEY_O, KEY_P, KEY_LSQBRACKET, KEY_RSQBRACKET, KEY_RETURN, KEY_LCTRL, KEY_A,
     KEY_S, KEY_D, KEY_F, KEY_G, KEY_H, KEY_J, KEY_K, KEY_L, KEY_SEMICOLON, KEY_APOSTROPHE,
     KEY_BACKTICK, KEY_LSHIFT, KEY_BACKSLASH, KEY_Z, KEY_X, KEY_C, KEY_V, KEY_B, KEY_N, KEY_M,
     KEY_COMMA, KEY_DOT, KEY_FORSLASH, KEY_RSHIFT, KEY_ASTERISK, KEY_LALT, KEY_SPACE,
     KEY_CAPSLOCK, KEY_F1, KEY_F2, KEY_F3, KEY_F4, KEY_F5, KEY_F6, KEY_F7, KEY_F8, KEY_F9,
     KEY_F10]"

text \<open>The bound of the test is the length of the table itself, so one index too many passes it.\<close>

definition scancode_to_key :: "u8 \<Rightarrow> keys res" where
  "scancode_to_key scancode =
     (let key_scancode = scancode AND NOT 0x80 in
      if unat key_scancode > length scancode_map then Inr UNKNOWN_KEY
      else if unat key_scancode < length scancode_map then Inr (scancode_map ! unat key_scancode)
      else Inl Out_Of_Bounds)"

section \<open>Key events\<close>

record 's key_sink =
  sink_key_up :: "keys \<Rightarrow> 's \<Rightarrow> 's res"
  sink_key_down :: "keys \<Rightarrow> 's \<Rightarrow> 's res"

text \<open>The interrupt handler reads the scan code from port 0x60 and passes it on.\<close>

definition handle_key_event :: "'s key_sink option \<Rightarrow> u8 \<Rightarrow> 's \<Rightarrow> 's res" where
  "handle_key_event sink scancode s =
     (case sink of None \<Rightarrow> Inr s
      | Some k \<Rightarrow>
          if scancode AND 0x80 \<noteq> 0
          then res_bind (scancode_to_key scancode) (\<lambda>key. sink_key_up k key s)
          else res_bind (scancode_to_key scancode) (\<lambda>key. sink_key_down k key s))"

end
