(* ===== verification/Terminal.thy ===== *)
theory Terminal imports Prelude begin

text \<open>
  The terminal (infos/drivers/terminal/terminal.cpp): a ring buffer of 64 characters that the
  keyboard interrupt fills and a reading thread empties. A call of \<open>read\<close> is a machine of its own,
  since interrupts arrive between its steps: it tests the buffer, and when that is empty it goes to
  sleep in a further step.
\<close>

section \<open>State\<close>

record terminal =
  read_buffer :: "u8 list"
  read_head :: u8
  read_tail :: u8
  read_waiters :: "nat list"
  attached_vc :: "nat option"
  attached_pc :: "nat option"

definition terminal_new :: "u8 list \<Rightarrow> terminal" where
  "terminal_new garbage = \<lparr>read_buffer = garbage, read_head = 0, read_tail = 0, read_waiters = [],
     attached_vc = None, attached_pc = None\<rparr>"

definition attach_output :: "nat \<Rightarrow> terminal \<Rightarrow> terminal" where
  "attach_output vc t = t\<lparr>attached_vc := Some vc\<rparr>"

definition attach_input :: "nat \<Rightarrow> terminal \<Rightarrow> terminal" where
  "attach_input pc t = t\<lparr>attached_pc := Some pc\<rparr>"

section \<open>Filling the buffer\<close>

text \<open>The trigger of the event wakes every thread in its queue.\<close>

definition append_to_read_buffer :: "u8 \<Rightarrow> terminal \<Rightarrow> terminal" where
  "append_to_read_buffer c t =
     t\<lparr>read_buffer := (read_buffer t)[unat (read_tail t) := c],
       read_tail := (read_tail t + 1) mod 64,
       read_waiters := []\<rparr>"

section \<open>Reading\<close>

text \<open>
  The places of a call of \<open>read\<close>: the test of the buffer, between the test that found it empty and
  the entry into the wake queue, asleep, and after the return.
\<close>

datatype read_pc = At_Test | At_Wait | At_Sleep | At_Return

record read_call =
  rd_thread :: nat
  rd_size :: nat
  rd_chars :: "u8 list"
  rd_pc :: read_pc

definition read_start :: "nat \<Rightarrow> nat \<Rightarrow> read_call" where
  "read_start th sz = \<lparr>rd_thread = th, rd_size = sz, rd_chars = [],
     rd_pc = (if sz = 0 then At_Return else At_Test)\<rparr>"

definition read_step :: "terminal \<times> read_call \<Rightarrow> terminal \<times> read_call" where
  "read_step tr =
     (let (t, r) = tr in
      case rd_pc r of
        At_Test \<Rightarrow>
          if length (rd_chars r) < rd_size r then
            if read_head t = read_tail t then (t, r\<lparr>rd_pc := At_Wait\<rparr>)
            else let elem = read_buffer t ! unat (read_head t)
              in (t\<lparr>read_head := (read_head t + 1) mod 64\<rparr>, r\<lparr>rd_chars := rd_chars r @ [elem]\<rparr>)
          else (t, r\<lparr>rd_pc := At_Return\<rparr>)
      | At_Wait \<Rightarrow> (t\<lparr>read_waiters := read_waiters t @ [rd_thread r]\<rparr>, r\<lparr>rd_pc := At_Sleep\<rparr>)
      | At_Sleep \<Rightarrow> if rd_thread r \<in> set (read_waiters t) then (t, r) else (t, r\<lparr>rd_pc := At_Test\<rparr>)
      | At_Return \<Rightarrow> (t, r))"

text \<open>What happens around a terminal: a character arrives or the reading thread takes a step.\<close>

datatype term_event = Typed u8 | Runs

fun term_step :: "term_event \<Rightarrow> terminal \<times> read_call \<Rightarrow> terminal \<times> read_call" where
  "term_step (Typed c) (t, r) = (append_to_read_buffer c t, r)"
| "term_step Runs tr = read_step tr"

definition term_run :: "term_event list \<Rightarrow> terminal \<times> read_call \<Rightarrow> terminal \<times> read_call" where
  "term_run es tr = foldl (\<lambda>s e. term_step e s) tr es"

section \<open>The buffer as a queue\<close>

definition term_inv :: "terminal \<Rightarrow> bool" where
  "term_inv t \<longleftrightarrow> length (read_buffer t) = 64 \<and> unat (read_head t) < 64 \<and> unat (read_tail t) < 64"

definition pending :: "terminal \<Rightarrow> nat" where
  "pending t = (unat (read_tail t) + 64 - unat (read_head t)) mod 64"

definition term_queue :: "terminal \<Rightarrow> u8 list" where
  "term_queue t = map (\<lambda>i. read_buffer t ! ((unat (read_head t) + i) mod 64)) [0..<pending t]"

text \<open>The queue that the buffer implements: a 64th pending character empties it.\<close>

definition put_pending :: "u8 \<Rightarrow> u8 list \<Rightarrow> u8 list" where
  "put_pending c q = (if length q = 63 then [] else q @ [c])"

lemma unat_inc64: "unat (w :: u8) < 64 \<Longrightarrow> unat ((w + 1) mod 64) = (unat w + 1) mod 64"
  by (simp add: unat_mod unat_word_ariths)

lemma inc64: "(x :: nat) < 64 \<Longrightarrow> (x + 1) mod 64 = (if x = 63 then 0 else x + 1)"
  by simp

lemma add64: "(x :: nat) < 64 \<Longrightarrow> i < 64 \<Longrightarrow> (x + i) mod 64 = (if x + i < 64 then x + i else x + i - 64)"
  by (simp add: le_mod_geq)

lemma sub64: "(x :: nat) < 64 \<Longrightarrow> y < 64 \<Longrightarrow> (y + 64 - x) mod 64 = (if x \<le> y then y - x else y + 64 - x)"
  by (simp add: le_mod_geq)

lemma term_inv_new: "length g = 64 \<Longrightarrow> term_inv (terminal_new g)"
  by (simp add: term_inv_def terminal_new_def)

lemma pending_less: "pending t < 64"
  by (simp add: pending_def)

lemma length_term_queue [simp]: "length (term_queue t) = pending t"
  by (simp add: term_queue_def)

lemma term_inv_append: "term_inv t \<Longrightarrow> term_inv (append_to_read_buffer c t)"
  by (simp add: term_inv_def append_to_read_buffer_def unat_inc64)

lemma pending_append:
  assumes "term_inv t"
  shows "pending (append_to_read_buffer c t) = (pending t + 1) mod 64"
proof -
  have "unat (read_tail t) < 64" "unat (read_head t) < 64" using assms by (simp_all add: term_inv_def)
  then show ?thesis
    by (simp add: pending_def append_to_read_buffer_def unat_inc64 inc64 [simplified] sub64) (auto split: if_splits)
qed

lemma queue_append:
  assumes "term_inv t"
  shows "term_queue (append_to_read_buffer c t) = put_pending c (term_queue t)"
proof (cases "pending t = 63")
  case True
  then show ?thesis using pending_append [OF assms, of c]
    by (simp add: put_pending_def term_queue_def)
next
  case False
  then have p: "pending t < 63" using pending_less [of t] by simp
  have lt: "unat (read_tail t) < 64" "unat (read_head t) < 64" "length (read_buffer t) = 64"
    using assms by (simp_all add: term_inv_def)
  have at_tail: "(unat (read_head t) + pending t) mod 64 = unat (read_tail t)"
    using lt pending_less [of t] by (simp add: add64) (simp add: pending_def sub64 split: if_splits)
  have other: "(unat (read_head t) + i) mod 64 \<noteq> unat (read_tail t)" if "i < pending t" for i
    using at_tail that p lt by (auto simp: add64 split: if_splits)
  have "pending (append_to_read_buffer c t) = Suc (pending t)"
    using p pending_append [OF assms, of c] by simp
  then show ?thesis
    using False lt at_tail other [symmetric]
    by (simp add: put_pending_def term_queue_def append_to_read_buffer_def nth_list_update)
qed

lemma queue_take:
  assumes "term_inv t" and "read_head t \<noteq> read_tail t"
  shows "term_queue t = read_buffer t ! unat (read_head t) # term_queue (t\<lparr>read_head := (read_head t + 1) mod 64\<rparr>)"
    and "term_inv (t\<lparr>read_head := (read_head t + 1) mod 64\<rparr>)"
proof -
  have lt: "unat (read_tail t) < 64" "unat (read_head t) < 64" "unat (read_head t) \<noteq> unat (read_tail t)"
    using assms by (simp_all add: term_inv_def word_unat_eq_iff)
  let ?t = "t\<lparr>read_head := (read_head t + 1) mod 64\<rparr>"
  show "term_inv ?t" using assms(1) by (simp add: term_inv_def unat_inc64)
  have p: "pending t = Suc (pending ?t)"
    using lt by (simp add: pending_def unat_inc64 inc64 [simplified] sub64) (auto split: if_splits)
  have m: "(Suc h mod 64 + i) mod 64 = Suc (h + i) mod 64" for h i :: nat
    by (simp add: mod_simps)
  show "term_queue t = read_buffer t ! unat (read_head t) # term_queue ?t"
    unfolding term_queue_def p upt_conv_Cons [OF zero_less_Suc] map_Suc_upt [symmetric]
    using lt(2) by (simp add: unat_inc64 m)
qed

lemma queue_empty_iff: "term_inv t \<Longrightarrow> term_queue t = [] \<longleftrightarrow> read_head t = read_tail t"
  using queue_take(1) [of t] by (cases "read_head t = read_tail t") (auto simp: term_queue_def pending_def)

end
