(* ===== verification/Console.thy ===== *)
theory Console imports Keyboard Terminal Kernel_List begin

text \<open>
  The consoles (infos/drivers/console/virtual-console.cpp, physical-console.cpp and
  infos/drivers/video/vga-console.cpp): virtual consoles that keep a screen of 80 by 25 cells and
  feed a terminal with characters, and the physical console that shows one of them in the video
  memory and switches between them. Screens are buffers in a heap, since the current console
  writes into the video memory itself; buffer 0 is the video memory.
\<close>

unbundle bit_operations_syntax

section \<open>State\<close>

record vconsole =
  vc_mods :: u32
  vc_pos :: u16
  vc_buffer :: "nat option"
  vc_ucb :: bool
  vc_terminal :: "nat option"

record console_sys =
  screens :: "nat \<Rightarrow> u16 list option"
  next_screen :: nat
  vconsoles :: "nat \<Rightarrow> vconsole"
  terminals :: "nat \<Rightarrow> terminal"
  pc_vcs :: "nat klist"
  pc_current :: "nat option"
  pc_alt :: bool
  vga_backup :: "nat option"
  vga_old :: "nat option"
  crtc_low :: u8
  crtc_high :: u8

definition update_vc :: "nat \<Rightarrow> (vconsole \<Rightarrow> vconsole) \<Rightarrow> console_sys \<Rightarrow> console_sys" where
  "update_vc v f s = s\<lparr>vconsoles := (vconsoles s)(v := f (vconsoles s v))\<rparr>"

text \<open>A pointer to a screen is followed: the cells it points to.\<close>

definition deref_screen :: "nat option \<Rightarrow> console_sys \<Rightarrow> u16 list res" where
  "deref_screen p s =
     (case p of None \<Rightarrow> Inl Null_Deref
      | Some b \<Rightarrow> (case screens s b of None \<Rightarrow> Inl Use_After_Free | Some cells \<Rightarrow> Inr cells))"

definition set_screen :: "nat \<Rightarrow> u16 list \<Rightarrow> console_sys \<Rightarrow> console_sys" where
  "set_screen b cells s = s\<lparr>screens := (screens s)(b \<mapsto> cells)\<rparr>"

section \<open>Virtual consoles\<close>

abbreviation (input) mod_shift :: u32 where "mod_shift \<equiv> 2"

text \<open>The terminal pointer is not initialised by the constructor.\<close>

definition vconsole_new :: "nat \<Rightarrow> console_sys \<Rightarrow> console_sys" where
  "vconsole_new v s =
     (let b = next_screen s
      in set_screen b (replicate 2000 0x0700)
           (update_vc v (\<lambda>_. \<lparr>vc_mods = 0, vc_pos = 0, vc_buffer = Some b, vc_ucb = False, vc_terminal = None\<rparr>)
             (s\<lparr>next_screen := b + 1\<rparr>)))"

definition vconsole_set_buffer :: "nat option \<Rightarrow> bool \<Rightarrow> vconsole \<Rightarrow> vconsole" where
  "vconsole_set_buffer b ucb vc = vc\<lparr>vc_buffer := b, vc_ucb := ucb\<rparr>"

definition attach_terminal :: "nat \<Rightarrow> nat \<Rightarrow> console_sys \<Rightarrow> console_sys" where
  "attach_terminal v t s =
     (update_vc v (vc_terminal_update (\<lambda>_. Some t)) s)
       \<lparr>terminals := (terminals s)(t := attach_output v (terminals s t))\<rparr>"

definition vc_key_up :: "nat \<Rightarrow> keys \<Rightarrow> console_sys \<Rightarrow> console_sys" where
  "vc_key_up v key s =
     (if key = KEY_LSHIFT \<or> key = KEY_RSHIFT
      then update_vc v (vc_mods_update (\<lambda>m. m AND NOT mod_shift)) s else s)"

text \<open>The mappings of the switch: the key, its character with and without the shift key.\<close>

definition key_mappings :: "(keys \<times> u8 \<times> u8) list" where
  "key_mappings =
    [(KEY_A, 65, 97), (KEY_B, 66, 98), (KEY_C, 67, 99), (KEY_D, 68, 100), (KEY_E, 69, 101),
     (KEY_F, 70, 102), (KEY_G, 71, 103), (KEY_H, 72, 104), (KEY_I, 73, 105), (KEY_J, 74, 106),
     (KEY_K, 75, 107), (KEY_L, 76, 108), (KEY_M, 77, 109), (KEY_N, 78, 110), (KEY_O, 79, 111),
     (KEY_P, 80, 112), (KEY_Q, 81, 113), (KEY_R, 82, 114), (KEY_S, 83, 115), (KEY_T, 84, 116),
     (KEY_U, 85, 117), (KEY_V, 86, 118), (KEY_W, 87, 119), (KEY_X, 88, 120), (KEY_Y, 89, 121),
     (KEY_Z, 90, 122), (KEY_0, 41, 48), (KEY_1, 33, 49), (KEY_2, 34, 50), (KEY_3, 35, 51),
     (KEY_4, 36, 52), (KEY_5, 37, 53), (KEY_6, 94, 54), (KEY_7, 38, 55), (KEY_8, 42, 56),
     (KEY_9, 40, 57), (KEY_HYPHEN, 95, 45), (KEY_EQUALS, 43, 61), (KEY_BACKSLASH, 124, 92),
     (KEY_FORSLASH, 63, 47), (KEY_DOT, 62, 46)]"

definition key_char :: "bool \<Rightarrow> keys \<Rightarrow> u8 option" where
  "key_char shifted key =
     (case map_of key_mappings key of
        Some (upper, lower) \<Rightarrow> Some (if shifted then upper else lower)
      | None \<Rightarrow>
          if key = KEY_SPACE then Some 32
          else if key = KEY_RETURN then Some 10
          else if key = KEY_BACKSPACE then Some 8
          else None)"

definition vc_key_down :: "nat \<Rightarrow> keys \<Rightarrow> console_sys \<Rightarrow> console_sys res" where
  "vc_key_down v key s =
     (case key_char (vc_mods (vconsoles s v) AND mod_shift \<noteq> 0) key of
        Some ch \<Rightarrow>
          (case vc_terminal (vconsoles s v) of
             None \<Rightarrow> Inl Uninit_Read
           | Some t \<Rightarrow> Inr (s\<lparr>terminals := (terminals s)(t := append_to_read_buffer ch (terminals s t))\<rparr>))
      | None \<Rightarrow>
          if key = KEY_LSHIFT \<or> key = KEY_RSHIFT
          then Inr (update_vc v (vc_mods_update (\<lambda>m. m OR mod_shift)) s)
          else Inr s)"

section \<open>Writing to a screen\<close>

text \<open>
  The loop of \<open>write\<close> over the position and the cells. A character is a signed 8-bit value that
  is widened before it is combined with the attribute.
\<close>

record write_state =
  w_attr :: i32
  w_state :: nat
  w_pos :: u16
  w_cells :: "u16 list"

definition cell_of :: "i32 \<Rightarrow> u8 \<Rightarrow> u16" where
  "cell_of attr c = ucast (attr OR scast c)"

definition store_cell :: "u16 \<Rightarrow> u16 \<Rightarrow> u16 list \<Rightarrow> u16 list res" where
  "store_cell pos cell cells =
     (if unat pos < length cells then Inr (cells[unat pos := cell]) else Inl Out_Of_Bounds)"

definition scroll_one_line :: "u16 list \<Rightarrow> u16 list" where
  "scroll_one_line cells = drop 80 (take 2000 cells) @ replicate 80 0x0700 @ drop 2000 cells"

definition put_cell :: "u8 \<Rightarrow> write_state \<Rightarrow> write_state res" where
  "put_cell c w =
     (if c = 10 then Inr (w\<lparr>w_pos := w_pos w + (80 - w_pos w mod 80)\<rparr>)
      else if c = 27 then Inr (w\<lparr>w_state := 1\<rparr>)
      else if c = 8 then
        res_bind (store_cell (w_pos w - 1) (cell_of (w_attr w) 32) (w_cells w))
          (\<lambda>cells. Inr (w\<lparr>w_pos := w_pos w - 1, w_cells := cells\<rparr>))
      else
        res_bind (store_cell (w_pos w) (cell_of (w_attr w) c) (w_cells w))
          (\<lambda>cells. Inr (w\<lparr>w_pos := w_pos w + 1, w_cells := cells\<rparr>)))"

definition scroll_if_full :: "write_state \<Rightarrow> write_state" where
  "scroll_if_full w =
     (if unat (w_pos w) \<ge> 2000
      then w\<lparr>w_cells := scroll_one_line (w_cells w), w_pos := 1920\<rparr> else w)"

definition write_char :: "u8 \<Rightarrow> write_state \<Rightarrow> write_state res" where
  "write_char c w =
     (let w1 = (if w_state w = 1 then w\<lparr>w_state := (if c = 91 then 2 else 0)\<rparr>
                else if w_state w = 2 then w\<lparr>w_attr := 0x0100, w_state := 0\<rparr>
                else w)
      in if w_state w1 = 0 then res_bind (put_cell c w1) (\<lambda>w2. Inr (scroll_if_full w2)) else Inr w1)"

fun write_chars :: "u8 list \<Rightarrow> write_state \<Rightarrow> write_state res" where
  "write_chars [] w = Inr w"
| "write_chars (c # cs) w = res_bind (write_char c w) (write_chars cs)"

text \<open>The update callback sets the cursor registers of the video controller.\<close>

definition vc_update_callback :: "nat \<Rightarrow> console_sys \<Rightarrow> console_sys" where
  "vc_update_callback v s =
     s\<lparr>crtc_low := ucast (vc_pos (vconsoles s v)), crtc_high := ucast (drop_bit 8 (vc_pos (vconsoles s v)))\<rparr>"

definition vc_write :: "nat \<Rightarrow> u8 list \<Rightarrow> console_sys \<Rightarrow> (nat \<times> console_sys) res" where
  "vc_write v chars s =
     (case vc_buffer (vconsoles s v) of
        None \<Rightarrow> Inr (0, s)
      | Some b \<Rightarrow>
          res_bind (deref_screen (Some b) s) (\<lambda>cells.
          res_bind (write_chars chars \<lparr>w_attr = 0x0700, w_state = 0, w_pos = vc_pos (vconsoles s v), w_cells = cells\<rparr>) (\<lambda>w.
            let s1 = set_screen b (w_cells w) (update_vc v (vc_pos_update (\<lambda>_. w_pos w)) s)
            in Inr (length chars, if vc_ucb (vconsoles s v) then vc_update_callback v s1 else s1))))"

definition terminal_write :: "nat \<Rightarrow> u8 list \<Rightarrow> console_sys \<Rightarrow> (nat \<times> console_sys) res" where
  "terminal_write t chars s =
     (case attached_vc (terminals s t) of Some v \<Rightarrow> vc_write v chars s | None \<Rightarrow> Inr (0, s))"

section \<open>The physical console\<close>

text \<open>A copy of one screen of 4000 bytes over another.\<close>

definition copy_screen :: "nat option \<Rightarrow> nat option \<Rightarrow> console_sys \<Rightarrow> console_sys res" where
  "copy_screen dst src s =
     res_bind (deref_screen src s) (\<lambda>from_cells.
     res_bind (deref_screen dst s) (\<lambda>to_cells.
       if length from_cells < 2000 \<or> length to_cells < 2000 then Inl Out_Of_Bounds
       else Inr (set_screen (the dst) (take 2000 from_cells @ drop 2000 to_cells) s)))"

definition save_old_vc :: "console_sys \<Rightarrow> console_sys res" where
  "save_old_vc s =
     (case vga_old s of
        None \<Rightarrow> Inr s
      | Some old \<Rightarrow>
          (let s1 = update_vc old (vconsole_set_buffer (vga_backup s) False) s
           in copy_screen (vc_buffer (vconsoles s1 old)) (Some 0) s1))"

definition virtual_console_changed :: "console_sys \<Rightarrow> console_sys res" where
  "virtual_console_changed s =
     res_bind (save_old_vc s) (\<lambda>s1.
       case pc_current s1 of
         None \<Rightarrow> Inl Null_Deref
       | Some v \<Rightarrow>
           (let backup = vc_buffer (vconsoles s1 v);
                s2 = update_vc v (vconsole_set_buffer (Some 0) True) (s1\<lparr>vga_backup := backup\<rparr>)
            in res_bind (if backup = None then Inr s2 else copy_screen (Some 0) backup s2) (\<lambda>s3.
                 Inr (vc_update_callback v (s3\<lparr>vga_old := Some v\<rparr>)))))"

definition set_current_vc :: "nat \<Rightarrow> console_sys \<Rightarrow> console_sys res" where
  "set_current_vc v s = virtual_console_changed (s\<lparr>pc_current := Some v\<rparr>)"

definition add_virtual_console :: "nat \<Rightarrow> console_sys \<Rightarrow> console_sys res" where
  "add_virtual_console v s =
     (let s1 = s\<lparr>pc_vcs := klist_append (pc_vcs s) v\<rparr>
      in if klist_count (pc_vcs s1) = 1 then set_current_vc v s1 else Inr s1)"

definition pc_key_up :: "keys \<Rightarrow> console_sys \<Rightarrow> console_sys res" where
  "pc_key_up key s =
     (let s1 = (if key = KEY_LALT \<or> key = KEY_RALT then s\<lparr>pc_alt := False\<rparr> else s)
      in Inr (case pc_current s1 of Some v \<Rightarrow> vc_key_up v key s1 | None \<Rightarrow> s1))"

definition pass_key_down :: "keys \<Rightarrow> console_sys \<Rightarrow> console_sys res" where
  "pass_key_down key s = (case pc_current s of Some v \<Rightarrow> vc_key_down v key s | None \<Rightarrow> Inr s)"

definition pc_key_down :: "keys \<Rightarrow> console_sys \<Rightarrow> console_sys res" where
  "pc_key_down key s =
     (if key = KEY_F1 \<and> pc_alt s then res_bind (klist_at (pc_vcs s) 0) (\<lambda>v. set_current_vc v s)
      else if key = KEY_F2 \<and> pc_alt s then res_bind (klist_at (pc_vcs s) 1) (\<lambda>v. set_current_vc v s)
      else if key = KEY_LALT \<or> key = KEY_RALT then pass_key_down key (s\<lparr>pc_alt := True\<rparr>)
      else pass_key_down key s)"

definition console_sink :: "console_sys key_sink" where
  "console_sink = \<lparr>sink_key_up = pc_key_up, sink_key_down = pc_key_down\<rparr>"

definition keyboard_irq :: "u8 \<Rightarrow> console_sys \<Rightarrow> console_sys res" where
  "keyboard_irq scancode s = handle_key_event (Some console_sink) scancode s"

end
