(* ===== verification/Terminal_Spec.thy ===== *)
theory Terminal_Spec imports Terminal begin

text \<open>
  The terminal as a queue of at most 63 characters: the ring buffer refines it for every sequence
  of key strokes and steps of the reading thread.
\<close>

section \<open>The specification\<close>

type_synonym queue_state = "u8 list \<times> nat list \<times> read_call"

fun queue_step :: "term_event \<Rightarrow> queue_state \<Rightarrow> queue_state" where
  "queue_step (Typed c) (q, ws, r) = (put_pending c q, [], r)"
| "queue_step Runs (q, ws, r) =
     (case rd_pc r of
        At_Test \<Rightarrow>
          if length (rd_chars r) < rd_size r then
            (case q of [] \<Rightarrow> (q, ws, r\<lparr>rd_pc := At_Wait\<rparr>)
             | c # q' \<Rightarrow> (q', ws, r\<lparr>rd_chars := rd_chars r @ [c]\<rparr>))
          else (q, ws, r\<lparr>rd_pc := At_Return\<rparr>)
      | At_Wait \<Rightarrow> (q, ws @ [rd_thread r], r\<lparr>rd_pc := At_Sleep\<rparr>)
      | At_Sleep \<Rightarrow> if rd_thread r \<in> set ws then (q, ws, r) else (q, ws, r\<lparr>rd_pc := At_Test\<rparr>)
      | At_Return \<Rightarrow> (q, ws, r))"

definition queue_run :: "term_event list \<Rightarrow> queue_state \<Rightarrow> queue_state" where
  "queue_run es s = foldl (\<lambda>s e. queue_step e s) s es"

definition term_abs :: "terminal \<times> read_call \<Rightarrow> queue_state" where
  "term_abs tr = (term_queue (fst tr), read_waiters (fst tr), snd tr)"

fun typed_chars :: "term_event list \<Rightarrow> u8 list" where
  "typed_chars [] = []"
| "typed_chars (Typed c # es) = c # typed_chars es"
| "typed_chars (Runs # es) = typed_chars es"

section \<open>Refinement\<close>

lemma term_queue_waiters [simp]: "term_queue (t\<lparr>read_waiters := ws\<rparr>) = term_queue t"
  by (simp add: term_queue_def pending_def)

lemma term_inv_waiters [simp]: "term_inv (t\<lparr>read_waiters := ws\<rparr>) = term_inv t"
  by (simp add: term_inv_def)

lemma waiters_append [simp]: "read_waiters (append_to_read_buffer c t) = []"
  by (simp add: append_to_read_buffer_def)

lemma term_step_refines:
  assumes "term_inv t"
  shows "term_abs (term_step e (t, r)) = queue_step e (term_abs (t, r)) \<and> term_inv (fst (term_step e (t, r)))"
proof (cases e)
  case (Typed c)
  then show ?thesis using assms by (simp add: term_abs_def queue_append term_inv_append)
next
  case Runs
  show ?thesis
  proof (cases "rd_pc r")
    case At_Test
    then show ?thesis
      using Runs assms queue_take [OF assms] queue_empty_iff [OF assms]
      by (cases "read_head t = read_tail t") (simp_all add: term_abs_def read_step_def Let_def)
  qed (use Runs assms in \<open>simp_all add: term_abs_def read_step_def Let_def\<close>)
qed

lemma term_run_Cons [simp]: "term_run (e # es) tr = term_run es (term_step e tr)"
  by (simp add: term_run_def)

lemma term_run_Nil [simp]: "term_run [] tr = tr"
  by (simp add: term_run_def)

lemma term_run_append: "term_run (es @ fs) tr = term_run fs (term_run es tr)"
  by (simp add: term_run_def)

lemma queue_run_Cons [simp]: "queue_run (e # es) s = queue_run es (queue_step e s)"
  by (simp add: queue_run_def)

lemma queue_run_Nil [simp]: "queue_run [] s = s"
  by (simp add: queue_run_def)

lemma term_run_refines:
  "term_inv (fst tr) \<Longrightarrow>
   term_abs (term_run es tr) = queue_run es (term_abs tr) \<and> term_inv (fst (term_run es tr))"
proof (induction es arbitrary: tr)
  case (Cons e es)
  have "term_abs (term_step e tr) = queue_step e (term_abs tr) \<and> term_inv (fst (term_step e tr))"
    using term_step_refines [of "fst tr" e "snd tr"] Cons.prems by simp
  then show ?case using Cons.IH by simp
qed simp

lemma queue_run_fifo:
  "length q + length (typed_chars es) \<le> 63 \<Longrightarrow> queue_run es (q, ws, r) = (q', ws', r') \<Longrightarrow>
   rd_chars r' @ q' = rd_chars r @ q @ typed_chars es"
proof (induction es arbitrary: q ws r)
  case (Cons e es)
  obtain q1 ws1 r1 where s: "queue_step e (q, ws, r) = (q1, ws1, r1)" by (cases "queue_step e (q, ws, r)")
  have keep: "rd_chars r1 @ q1 @ typed_chars es = rd_chars r @ q @ typed_chars (e # es) \<and>
      length q1 + length (typed_chars es) \<le> length q + length (typed_chars (e # es))"
    using s Cons.prems(1)
    by (cases e) (auto simp: put_pending_def split: read_pc.splits if_splits list.splits)
  moreover have "rd_chars r' @ q' = rd_chars r1 @ q1 @ typed_chars es"
    using Cons.IH [of q1 ws1 r1] Cons.prems s keep by simp
  ultimately show ?case by simp
qed simp

lemma queue_run_returns:
  assumes "rd_pc r = At_Test" and "length (rd_chars r) \<le> rd_size r"
    and "rd_size r \<le> length (rd_chars r) + length q"
    and "n = rd_size r - length (rd_chars r)"
  shows "queue_run (replicate (Suc n) Runs) (q, ws, r) =
    (drop n q, ws, r\<lparr>rd_chars := rd_chars r @ take n q, rd_pc := At_Return\<rparr>)"
  using assms
proof (induction n arbitrary: q r)
  case 0
  then show ?case by simp
next
  case (Suc n)
  then obtain c q' where q: "q = c # q'" by (cases q) auto
  let ?r = "r\<lparr>rd_chars := rd_chars r @ [c]\<rparr>"
  have "queue_run (replicate (Suc n) Runs) (q', ws, ?r) =
      (drop n q', ws, ?r\<lparr>rd_chars := rd_chars ?r @ take n q', rd_pc := At_Return\<rparr>)"
    using Suc.prems q by (intro Suc.IH) simp_all
  moreover have "length (rd_chars r) < rd_size r" using Suc.prems(4) by simp
  then have "queue_run (replicate (Suc (Suc n)) Runs) (q, ws, r) = queue_run (replicate (Suc n) Runs) (q', ws, ?r)"
    using Suc.prems(1) q by (subst replicate_Suc) (simp del: replicate_Suc)
  ultimately show ?case using q by (simp del: replicate_Suc)
qed

lemma queue_run_asleep:
  "rd_pc r = At_Sleep \<Longrightarrow> rd_thread r \<in> set ws \<Longrightarrow> queue_run (replicate k Runs) (q, ws, r) = (q, ws, r)"
  by (induction k) simp_all

section \<open>Property\<close>

text \<open>C30: For every sequence of key strokes and steps of a reading thread the ring buffer behaves
  as a queue that holds at most 63 characters, a further one emptying it. While no more than 63
  characters are pending or typed, nothing is lost or reordered: the characters delivered and those
  still pending are the ones typed, in order. A read that finds all its characters pending delivers
  exactly these and returns. A character typed between the test that finds the buffer empty and the
  entry into the wake queue does not wake the reader, which stays asleep with the character pending.\<close>

theorem terminal_queue:
  assumes "term_inv t"
  shows "term_abs (term_run es (t, r)) = queue_run es (term_abs (t, r)) \<and>
    (length (term_queue t) + length (typed_chars es) \<le> 63 \<longrightarrow>
      (let (t', r') = term_run es (t, r)
       in rd_chars r' @ term_queue t' = rd_chars r @ term_queue t @ typed_chars es)) \<and>
    (0 < n \<and> n \<le> length (term_queue t) \<longrightarrow>
      (let (t', r') = term_run (replicate (Suc n) Runs) (t, read_start th n)
       in rd_pc r' = At_Return \<and> rd_chars r' = take n (term_queue t) \<and> term_queue t' = drop n (term_queue t))) \<and>
    (0 < n \<and> term_queue t = [] \<longrightarrow>
      (let (t', r') = term_run ([Runs, Typed c, Runs] @ replicate k Runs) (t, read_start th n)
       in rd_pc r' = At_Sleep \<and> term_queue t' = [c]))"
proof (intro conjI)
  have refine: "queue_run es (term_queue t, read_waiters t, r) =
      (term_queue (fst (term_run es (t, r))), read_waiters (fst (term_run es (t, r))), snd (term_run es (t, r)))" for es r
    using term_run_refines [of "(t, r)" es] assms by (simp add: term_abs_def)
  show "term_abs (term_run es (t, r)) = queue_run es (term_abs (t, r))"
    by (simp add: refine term_abs_def)
  show "length (term_queue t) + length (typed_chars es) \<le> 63 \<longrightarrow>
      (let (t', r') = term_run es (t, r)
       in rd_chars r' @ term_queue t' = rd_chars r @ term_queue t @ typed_chars es)"
    using queue_run_fifo [OF _ refine] by (simp add: Let_def split_beta)
  show "0 < n \<and> n \<le> length (term_queue t) \<longrightarrow>
      (let (t', r') = term_run (replicate (Suc n) Runs) (t, read_start th n)
       in rd_pc r' = At_Return \<and> rd_chars r' = take n (term_queue t) \<and> term_queue t' = drop n (term_queue t))"
    using refine [of "replicate (Suc n) Runs" "read_start th n", symmetric]
      queue_run_returns [of "read_start th n" "term_queue t" n "read_waiters t"]
    by (auto simp: Let_def split_beta read_start_def simp del: replicate_Suc)
  show "0 < n \<and> term_queue t = [] \<longrightarrow>
      (let (t', r') = term_run ([Runs, Typed c, Runs] @ replicate k Runs) (t, read_start th n)
       in rd_pc r' = At_Sleep \<and> term_queue t' = [c])"
    using refine [of "[Runs, Typed c, Runs] @ replicate k Runs" "read_start th n", symmetric]
      queue_run_asleep [of "read_start th n\<lparr>rd_pc := At_Sleep\<rparr>" "[th]" k "[c]"]
    by (auto simp: Let_def split_beta read_start_def put_pending_def)
qed

lemma terminal_queue_witness:
  "term_inv (terminal_new (replicate 64 0)) \<and>
   rd_chars (snd (term_run [Typed 104, Runs, Runs, Runs, Typed 105, Runs, Runs, Runs]
     (terminal_new (replicate 64 0), read_start 1 2))) = [104, 105]"
proof
  show inv: "term_inv (terminal_new (replicate 64 0))" by (simp add: term_inv_new)
  have "term_abs (term_run [Typed 104, Runs, Runs, Runs, Typed 105, Runs, Runs, Runs] (terminal_new (replicate 64 0), read_start 1 2)) =
      queue_run [Typed 104, Runs, Runs, Runs, Typed 105, Runs, Runs, Runs] (term_abs (terminal_new (replicate 64 0), read_start 1 2))"
    using terminal_queue [OF inv] by blast
  then show "rd_chars (snd (term_run [Typed 104, Runs, Runs, Runs, Typed 105, Runs, Runs, Runs]
     (terminal_new (replicate 64 0), read_start 1 2))) = [104, 105]"
    by (simp add: term_abs_def term_queue_def pending_def terminal_new_def read_start_def put_pending_def)
qed

end
