(* ===== verification/Console_Spec.thy ===== *)
theory Console_Spec imports Console Terminal_Spec begin

text \<open>
  What the consoles promise: the screens of the virtual consoles are kept apart however the physical
  console switches between them, writing follows the cursor and stays inside the screen unless the text
  backs out of its first cell, and a key goes to the terminal of the console that is shown.
\<close>

section \<open>Writing stays on the screen\<close>

definition on_screen :: "write_state \<Rightarrow> bool" where
  "on_screen w \<longleftrightarrow> length (w_cells w) = 2000 \<and> unat (w_pos w) < 2000"

lemma length_scroll: "length cells = 2000 \<Longrightarrow> length (scroll_one_line cells) = 2000"
  by (simp add: scroll_one_line_def)

lemma on_screen_scroll: "length (w_cells w) = 2000 \<Longrightarrow> on_screen (scroll_if_full w)"
  by (simp add: on_screen_def scroll_if_full_def length_scroll)

text \<open>
  What the characters promise for the cursor, over plain numbers: an escape sequence leaves it alone, a
  new line takes it to the next row, a backspace one cell back and any other character one cell on; past
  the last cell it is at the start of the last row. A backspace in the first cell has no cell to go to.
\<close>

definition cursor_step :: "u8 \<Rightarrow> nat \<times> nat \<Rightarrow> (nat \<times> nat) option" where
  "cursor_step c ep =
     (let e = (if fst ep = 1 then (if c = 91 then 2 else 0) else if fst ep = 2 then 0 else fst ep);
          p = snd ep;
          q = (if c = 10 then (p div 80 + 1) * 80 else p + 1)
      in if e \<noteq> 0 then Some (e, p)
         else if c = 27 then Some (1, p)
         else if c = 8 then (if p = 0 then None else Some (0, p - 1))
         else Some (0, if q < 2000 then q else 1920))"

fun cursor_run :: "u8 list \<Rightarrow> nat \<times> nat \<Rightarrow> (nat \<times> nat) option" where
  "cursor_run [] ep = Some ep"
| "cursor_run (c # cs) ep = Option.bind (cursor_step c ep) (cursor_run cs)"

definition cursor_of :: "write_state \<Rightarrow> nat \<times> nat" where
  "cursor_of w = (w_state w, unat (w_pos w))"

lemma unat_next_row:
  assumes "unat (p :: u16) < 2000"
  shows "unat (p + (80 - p mod 80)) = (unat p div 80 + 1) * 80"
proof -
  have m: "unat (p mod 80) = unat p mod 80" by (simp add: unat_mod)
  have "unat (80 - p mod 80) = 80 - unat p mod 80"
    using m by (subst unat_sub) (simp_all add: word_le_nat_alt)
  then have "unat (p + (80 - p mod 80)) = unat p + (80 - unat p mod 80)"
    using assms by (subst unat_add_lem [THEN iffD1]) simp_all
  also have "\<dots> = (unat p div 80 + 1) * 80"
  proof -
    have "x + (80 - m) = (d + 1) * 80" if "d * 80 + m = x" "m < 80" for d m x :: nat using that by simp
    from this [OF div_mult_mod_eq] show ?thesis by simp
  qed
  finally show ?thesis .
qed

lemma put_cell_cursor:
  assumes "on_screen w" and "w_state w = 0"
  shows "case cursor_step c (cursor_of w) of
      None \<Rightarrow> put_cell c w = Inl Out_Of_Bounds
    | Some ep \<Rightarrow> \<exists>w'. put_cell c w = Inr w' \<and> on_screen (scroll_if_full w') \<and> cursor_of (scroll_if_full w') = ep"
proof -
  have p: "unat (w_pos w) < 2000" "length (w_cells w) = 2000" using assms(1) by (simp_all add: on_screen_def)
  have next_cell: "unat (w_pos w + 1) = unat (w_pos w) + 1"
    using p(1) by (subst unat_add_lem [THEN iffD1]) simp_all
  have prev_cell: "unat (w_pos w - 1) = unat (w_pos w) - 1" if "unat (w_pos w) \<noteq> 0"
    using that unat_minus_one [of "w_pos w"] by (cases "w_pos w = 0") simp_all
  have behind: "\<not> unat (w_pos w - 1) < 2000" if "unat (w_pos w) = 0"
    using that by (simp add: unsigned_minus_1_eq_mask mask_eq_exp_minus_1 unat_eq_0)
  show ?thesis
    using p next_cell prev_cell behind unat_next_row [OF p(1)] assms(2)
    by (auto simp: cursor_step_def cursor_of_def put_cell_def store_cell_def scroll_if_full_def on_screen_def
        length_scroll Let_def)
qed

lemma write_char_cursor:
  assumes "on_screen w"
  shows "case cursor_step c (cursor_of w) of
      None \<Rightarrow> write_char c w = Inl Out_Of_Bounds
    | Some ep \<Rightarrow> \<exists>w'. write_char c w = Inr w' \<and> on_screen w' \<and> cursor_of w' = ep"
proof -
  define w1 where "w1 = (if w_state w = 1 then w\<lparr>w_state := (if c = 91 then 2 else 0)\<rparr>
      else if w_state w = 2 then w\<lparr>w_attr := 0x0100, w_state := 0\<rparr> else w)"
  have w1: "on_screen w1" "w_pos w1 = w_pos w" using assms by (auto simp: w1_def on_screen_def)
  have run: "write_char c w =
      (if w_state w1 = 0 then res_bind (put_cell c w1) (\<lambda>w2. Inr (scroll_if_full w2)) else Inr w1)"
    unfolding write_char_def w1_def [symmetric] Let_def ..
  show ?thesis
  proof (cases "w_state w1 = 0")
    case True
    have "cursor_step c (cursor_of w) = cursor_step c (cursor_of w1)"
      using True by (auto simp: w1_def cursor_step_def cursor_of_def)
    then show ?thesis using put_cell_cursor [OF w1(1) True, of c] run True by (auto split: option.splits)
  next
    case False
    then have "cursor_step c (cursor_of w) = Some (cursor_of w1)"
      by (auto simp: w1_def cursor_step_def cursor_of_def split: if_splits)
    then show ?thesis using run False w1 by simp
  qed
qed

lemma write_chars_cursor:
  "on_screen w \<Longrightarrow> case cursor_run cs (cursor_of w) of
      None \<Rightarrow> write_chars cs w = Inl Out_Of_Bounds
    | Some ep \<Rightarrow> \<exists>w'. write_chars cs w = Inr w' \<and> on_screen w' \<and> cursor_of w' = ep"
proof (induction cs arbitrary: w)
  case (Cons c cs)
  show ?case
  proof (cases "cursor_step c (cursor_of w)")
    case None
    then show ?thesis using write_char_cursor [OF Cons.prems, of c] by simp
  next
    case (Some ep)
    then obtain w1 where w1: "write_char c w = Inr w1" "on_screen w1" "cursor_of w1 = ep"
      using write_char_cursor [OF Cons.prems, of c] by auto
    show ?thesis using Cons.IH [OF w1(2)] w1 Some by (cases "cursor_run cs ep") auto
  qed
qed simp

text \<open>A backspace in the first cell wraps the position and writes behind the screen.\<close>

lemma backspace_at_start:
  assumes "on_screen w" and "w_pos w = 0" and "w_state w = 0"
  shows "write_chars (8 # cs) w = Inl Out_Of_Bounds"
proof -
  have "\<not> unat (- 1 :: u16) < 2000" by (simp add: unsigned_minus_1_eq_mask mask_eq_exp_minus_1)
  then show ?thesis using assms by (simp add: write_char_def put_cell_def store_cell_def on_screen_def)
qed

section \<open>The screens of the consoles\<close>

text \<open>
  \<open>own v\<close> is the buffer that console \<open>v\<close> was created with. The console that is shown writes into the
  video memory and its own buffer waits as the backup.
\<close>

definition vga_inv :: "(nat \<Rightarrow> nat) \<Rightarrow> nat set \<Rightarrow> console_sys \<Rightarrow> bool" where
  "vga_inv own V s \<longleftrightarrow>
     (\<exists>cells. screens s 0 = Some cells \<and> length cells = 2000) \<and>
     inj_on own V \<and>
     (\<forall>v \<in> V. own v \<noteq> 0 \<and> (\<exists>cells. screens s (own v) = Some cells \<and> length cells = 2000)) \<and>
     pc_current s = vga_old s \<and>
     (\<forall>v \<in> V. vc_buffer (vconsoles s v) = Some (if vga_old s = Some v then 0 else own v) \<and>
        vc_ucb (vconsoles s v) = (vga_old s = Some v)) \<and>
     (\<forall>v. vga_old s = Some v \<longrightarrow> v \<in> V \<and> vga_backup s = Some (own v))"

definition shown_buffer :: "(nat \<Rightarrow> nat) \<Rightarrow> console_sys \<Rightarrow> nat \<Rightarrow> nat" where
  "shown_buffer own s v = (if vga_old s = Some v then 0 else own v)"

definition screen_of :: "(nat \<Rightarrow> nat) \<Rightarrow> console_sys \<Rightarrow> nat \<Rightarrow> u16 list option" where
  "screen_of own s v = screens s (shown_buffer own s v)"

lemma save_old_vc_none: "vga_old s = None \<Longrightarrow> save_old_vc s = Inr s"
  by (simp add: save_old_vc_def)

text \<open>The state in which nothing is shown: every console has its own buffer.\<close>

definition saved_inv :: "(nat \<Rightarrow> nat) \<Rightarrow> nat set \<Rightarrow> console_sys \<Rightarrow> bool" where
  "saved_inv own V s \<longleftrightarrow>
     (\<exists>cells. screens s 0 = Some cells \<and> length cells = 2000) \<and>
     inj_on own V \<and>
     (\<forall>v \<in> V. own v \<noteq> 0 \<and> (\<exists>cells. screens s (own v) = Some cells \<and> length cells = 2000)) \<and>
     (\<forall>v \<in> V. vc_buffer (vconsoles s v) = Some (own v) \<and> \<not> vc_ucb (vconsoles s v))"

definition same_but_screens :: "console_sys \<Rightarrow> console_sys \<Rightarrow> bool" where
  "same_but_screens s s' \<longleftrightarrow>
     terminals s' = terminals s \<and> pc_vcs s' = pc_vcs s \<and> pc_alt s' = pc_alt s \<and>
     (\<forall>v. vc_mods (vconsoles s' v) = vc_mods (vconsoles s v) \<and>
          vc_pos (vconsoles s' v) = vc_pos (vconsoles s v) \<and>
          vc_terminal (vconsoles s' v) = vc_terminal (vconsoles s v))"

lemma save_old_vc_ok:
  assumes "vga_inv own V (s\<lparr>pc_current := vga_old s\<rparr>)"
  shows "\<exists>s'. save_old_vc s = Inr s' \<and> saved_inv own V s' \<and> pc_current s' = pc_current s \<and>
    same_but_screens s s' \<and> (\<forall>v \<in> V. screens s' (own v) = screen_of own s v)"
proof (cases "vga_old s")
  case None
  then show ?thesis using assms
    by (auto simp: save_old_vc_def vga_inv_def saved_inv_def same_but_screens_def screen_of_def shown_buffer_def)
next
  case (Some old)
  have old: "old \<in> V" "vga_backup s = Some (own old)" using assms Some by (auto simp: vga_inv_def)
  obtain c0 where c0: "screens s 0 = Some c0" "length c0 = 2000" using assms by (auto simp: vga_inv_def)
  obtain c1 where c1: "screens s (own old) = Some c1" "length c1 = 2000"
    using assms old(1) by (fastforce simp: vga_inv_def)
  have inj: "v \<in> V \<Longrightarrow> own v = own old \<longleftrightarrow> v = old" for v
    using assms old(1) by (auto simp: vga_inv_def inj_on_def)
  have nz: "v \<in> V \<Longrightarrow> own v \<noteq> 0" for v using assms by (simp add: vga_inv_def)
  show ?thesis using assms Some old c0 c1 inj nz
    by (auto simp: save_old_vc_def Let_def copy_screen_def deref_screen_def update_vc_def
        vconsole_set_buffer_def set_screen_def saved_inv_def vga_inv_def same_but_screens_def
        screen_of_def shown_buffer_def)
qed

lemma show_console_ok:
  assumes "saved_inv own V s" and "pc_current s = Some v" and "v \<in> V" and "save_old_vc s0 = Inr s"
  shows "\<exists>s'. virtual_console_changed s0 = Inr s' \<and> vga_inv own V s' \<and> pc_current s' = Some v \<and>
    vga_old s' = Some v \<and> same_but_screens s s' \<and> (\<forall>u \<in> V. screen_of own s' u = screens s (own u)) \<and>
    crtc_low s' = ucast (vc_pos (vconsoles s v)) \<and> crtc_high s' = ucast (drop_bit 8 (vc_pos (vconsoles s v)))"
proof -
  obtain c0 where c0: "screens s 0 = Some c0" "length c0 = 2000" using assms by (auto simp: saved_inv_def)
  obtain c1 where c1: "screens s (own v) = Some c1" "length c1 = 2000"
    using assms by (fastforce simp: saved_inv_def)
  have inj: "u \<in> V \<Longrightarrow> own u = own v \<longleftrightarrow> u = v" for u
    using assms by (auto simp: saved_inv_def inj_on_def)
  have nz: "u \<in> V \<Longrightarrow> own u \<noteq> 0" for u using assms by (simp add: saved_inv_def)
  have b: "vc_buffer (vconsoles s v) = Some (own v)" using assms by (simp add: saved_inv_def)
  define s' where "s' = vc_update_callback v
    (set_screen 0 c1 (update_vc v (vconsole_set_buffer (Some 0) True) (s\<lparr>vga_backup := Some (own v)\<rparr>))\<lparr>vga_old := Some v\<rparr>)"
  have "virtual_console_changed s0 = Inr s'"
    using assms(2,4) b c0 c1 nz [OF assms(3)]
    by (simp add: virtual_console_changed_def copy_screen_def deref_screen_def update_vc_def s'_def
        vconsole_set_buffer_def set_screen_def Let_def)
  moreover have "vga_inv own V s'"
    using assms(1,2,3) c0 c1 inj nz
    by (auto simp: s'_def vga_inv_def saved_inv_def vc_update_callback_def set_screen_def update_vc_def
        vconsole_set_buffer_def)
  moreover have "same_but_screens s s'"
    by (simp add: s'_def same_but_screens_def vc_update_callback_def set_screen_def update_vc_def
        vconsole_set_buffer_def)
  moreover have "screen_of own s' u = screens s (own u)" if "u \<in> V" for u
    using that nz [OF that] c1
    by (auto simp: s'_def screen_of_def shown_buffer_def vc_update_callback_def set_screen_def update_vc_def)
  ultimately show ?thesis using assms(2)
    by (intro exI [of _ s']) (simp add: s'_def vc_update_callback_def set_screen_def update_vc_def vconsole_set_buffer_def)
qed

lemma same_but_screens_trans:
  "same_but_screens s s1 \<Longrightarrow> same_but_screens s1 s2 \<Longrightarrow> same_but_screens s s2"
  by (simp add: same_but_screens_def)

lemma set_current_vc_ok:
  assumes "vga_inv own V s" and "v \<in> V"
  shows "\<exists>s'. set_current_vc v s = Inr s' \<and> vga_inv own V s' \<and> pc_current s' = Some v \<and>
    same_but_screens s s' \<and> (\<forall>u \<in> V. screen_of own s' u = screen_of own s u) \<and>
    screens s' 0 = screen_of own s v \<and>
    crtc_low s' = ucast (vc_pos (vconsoles s v)) \<and> crtc_high s' = ucast (drop_bit 8 (vc_pos (vconsoles s v)))"
proof -
  let ?s = "s\<lparr>pc_current := Some v\<rparr>"
  have "vga_inv own V (?s\<lparr>pc_current := vga_old ?s\<rparr>)" using assms(1) by (simp add: vga_inv_def)
  from save_old_vc_ok [OF this] obtain s1 where s1: "save_old_vc ?s = Inr s1" "saved_inv own V s1"
    "pc_current s1 = Some v" "same_but_screens ?s s1" "\<forall>u \<in> V. screens s1 (own u) = screen_of own ?s u"
    by auto
  from show_console_ok [OF s1(2,3) assms(2) s1(1)] obtain s2 where s2: "set_current_vc v s = Inr s2"
    "vga_inv own V s2" "pc_current s2 = Some v" "vga_old s2 = Some v" "same_but_screens s1 s2"
    "\<forall>u \<in> V. screen_of own s2 u = screens s1 (own u)"
    "crtc_low s2 = ucast (vc_pos (vconsoles s1 v))" "crtc_high s2 = ucast (drop_bit 8 (vc_pos (vconsoles s1 v)))"
    by (auto simp: set_current_vc_def)
  have "screen_of own ?s u = screen_of own s u" for u by (simp add: screen_of_def shown_buffer_def)
  moreover have "screens s2 0 = screen_of own s2 v" using s2(4) by (simp add: screen_of_def shown_buffer_def)
  ultimately show ?thesis using s1 s2 assms(2) by (auto simp: same_but_screens_def)
qed

lemma vc_write_ok:
  assumes "vga_inv own V s" and "v \<in> V" and "unat (vc_pos (vconsoles s v)) < 2000"
    and "cursor_run cs (0, unat (vc_pos (vconsoles s v))) = Some (e, p)"
  shows "\<exists>s'. vc_write v cs s = Inr (length cs, s') \<and> vga_inv own V s' \<and>
    unat (vc_pos (vconsoles s' v)) = p \<and> p < 2000 \<and>
    (\<forall>u \<in> V. u \<noteq> v \<longrightarrow> screen_of own s' u = screen_of own s u \<and> vconsoles s' u = vconsoles s u) \<and>
    (\<exists>w. write_chars cs \<lparr>w_attr = 0x0700, w_state = 0, w_pos = vc_pos (vconsoles s v),
         w_cells = the (screen_of own s v)\<rparr> = Inr w \<and>
       screen_of own s' v = Some (w_cells w) \<and> vc_pos (vconsoles s' v) = w_pos w)"
proof -
  let ?b = "shown_buffer own s v"
  have b: "vc_buffer (vconsoles s v) = Some ?b" using assms(1,2) by (simp add: vga_inv_def shown_buffer_def)
  obtain cells where cells: "screens s ?b = Some cells" "length cells = 2000"
    using assms(1,2) by (fastforce simp: vga_inv_def shown_buffer_def)
  have inj: "shown_buffer own s u = ?b \<longleftrightarrow> u = v" if "u \<in> V" for u
    using assms(1,2) that by (auto simp: vga_inv_def inj_on_def shown_buffer_def)
  have inj0: "u \<in> V \<Longrightarrow> own u \<noteq> 0" "u \<in> V \<Longrightarrow> own u = own v \<longleftrightarrow> u = v" for u
    using assms(1,2) by (auto simp: vga_inv_def inj_on_def)
  define w0 where "w0 = \<lparr>w_attr = 0x0700, w_state = 0, w_pos = vc_pos (vconsoles s v), w_cells = cells\<rparr>"
  have "on_screen w0" using assms(3) cells by (simp add: on_screen_def w0_def)
  moreover have "cursor_of w0 = (0, unat (vc_pos (vconsoles s v)))" by (simp add: cursor_of_def w0_def)
  ultimately obtain w where w: "write_chars cs w0 = Inr w" "on_screen w" "unat (w_pos w) = p"
    using write_chars_cursor [of w0 cs] assms(4) by (auto simp: cursor_of_def)
  define s1 where "s1 = set_screen ?b (w_cells w) (update_vc v (vc_pos_update (\<lambda>_. w_pos w)) s)"
  define s2 where "s2 = (if vc_ucb (vconsoles s v) then vc_update_callback v s1 else s1)"
  have run: "vc_write v cs s = Inr (length cs, s2)"
    using b cells w(1) by (simp add: vc_write_def deref_screen_def s2_def s1_def w0_def Let_def)
  have same: "vga_old s2 = vga_old s" "pc_current s2 = pc_current s" "vga_backup s2 = vga_backup s"
    "screens s2 = (screens s)(?b \<mapsto> w_cells w)" "vconsoles s2 = (vconsoles s)(v := vconsoles s v\<lparr>vc_pos := w_pos w\<rparr>)"
    by (simp_all add: s2_def s1_def vc_update_callback_def set_screen_def update_vc_def)
  have "vga_inv own V s2"
    using assms(1) w(2) inj0 unfolding vga_inv_def same by (auto simp: on_screen_def shown_buffer_def)
  moreover have "screen_of own s2 u = (if u = v then Some (w_cells w) else screen_of own s u)" if "u \<in> V" for u
    using inj [OF that] by (simp add: screen_of_def shown_buffer_def same)
  moreover have "unat (vc_pos (vconsoles s2 v)) = p" "p < 2000" "vc_pos (vconsoles s2 v) = w_pos w"
    using w(2,3) by (simp_all add: same on_screen_def)
  moreover have "the (screen_of own s v) = cells" using cells by (simp add: screen_of_def)
  ultimately show ?thesis using run w(1) assms(2) same(5) by (auto simp: w0_def)
qed

lemma vc_write_current:
  "vc_write v cs s = Inr (n, s') \<Longrightarrow> pc_current s' = pc_current s"
  by (auto simp: vc_write_def deref_screen_def set_screen_def update_vc_def vc_update_callback_def Let_def
      res_bind_Inr_iff split: option.splits if_splits)

lemma vc_write_backs_out:
  assumes "vga_inv own V s" and "v \<in> V" and "unat (vc_pos (vconsoles s v)) < 2000"
    and "cursor_run cs (0, unat (vc_pos (vconsoles s v))) = None"
  shows "vc_write v cs s = Inl Out_Of_Bounds"
proof -
  obtain b cells where b: "vc_buffer (vconsoles s v) = Some b" "screens s b = Some cells" "length cells = 2000"
    using assms(1,2) by (fastforce simp: vga_inv_def)
  define w0 where "w0 = \<lparr>w_attr = 0x0700, w_state = 0, w_pos = vc_pos (vconsoles s v), w_cells = cells\<rparr>"
  have "on_screen w0" "cursor_of w0 = (0, unat (vc_pos (vconsoles s v)))"
    using assms(3) b by (simp_all add: on_screen_def cursor_of_def w0_def)
  then have "write_chars cs w0 = Inl Out_Of_Bounds" using write_chars_cursor [of w0 cs] assms(4) by simp
  then show ?thesis using b by (simp add: vc_write_def deref_screen_def w0_def)
qed

section \<open>From the keyboard to the terminal\<close>

text \<open>The key whose scan code an interrupt delivers when a key is pressed.\<close>

lemma scancode_down:
  assumes "unat sc < 69"
  shows "scancode_to_key sc = Inr (scancode_map ! unat sc)" and "sc AND 0x80 = 0"
proof -
  have "\<forall>n \<in> set [0..<69]. (of_nat n :: u8) AND 0x80 = 0 \<and> (of_nat n :: u8) AND NOT 0x80 = of_nat n" by code_simp
  moreover have "sc = of_nat (unat sc)" by simp
  ultimately have "sc AND 0x80 = 0 \<and> sc AND NOT 0x80 = sc" using assms by (metis atLeastLessThan_iff le0 set_upt)
  then show "sc AND 0x80 = 0" and "scancode_to_key sc = Inr (scancode_map ! unat sc)"
    using assms by (simp_all add: scancode_to_key_def scancode_map_def)
qed

lemma char_keys_plain:
  "key_char sh key = Some ch \<Longrightarrow> key \<notin> {KEY_F1, KEY_F2, KEY_LALT, KEY_RALT}"
  by (auto simp: key_char_def key_mappings_def split: if_splits)

lemma irq_types:
  assumes "unat sc < 69" and "pc_current s = Some v" and "vc_terminal (vconsoles s v) = Some t"
    and "key_char (vc_mods (vconsoles s v) AND mod_shift \<noteq> 0) (scancode_map ! unat sc) = Some ch"
  shows "keyboard_irq sc s =
    Inr (s\<lparr>terminals := (terminals s)(t := append_to_read_buffer ch (terminals s t))\<rparr>)"
  using assms(2,3,4) scancode_down [OF assms(1)] char_keys_plain [OF assms(4)]
  by (simp add: keyboard_irq_def handle_key_event_def console_sink_def pc_key_down_def pass_key_down_def vc_key_down_def)

text \<open>The second console is shown with the alternate key and F2, the first one with F1.\<close>

lemma irq_switches:
  assumes "pc_alt s" and "elems (pc_vcs s) = v0 # v1 # vs"
  shows "keyboard_irq 0x3b s = set_current_vc v0 s" and "keyboard_irq 0x3c s = set_current_vc v1 s"
  using assms scancode_down [where sc = "0x3b"] scancode_down [where sc = "0x3c"]
  by (simp_all add: keyboard_irq_def handle_key_event_def console_sink_def pc_key_down_def scancode_map_def klist_at_eq)

lemma irq_num_lock: "keyboard_irq 0x45 s = Inl Out_Of_Bounds"
  by (simp add: keyboard_irq_def handle_key_event_def console_sink_def scancode_to_key_def scancode_map_def)

section \<open>Property\<close>

text \<open>C31: The screens of the virtual consoles stay apart. Showing a console returns, puts its screen
  into the video memory and the cursor at its position, and changes the contents of no console.
  Writing any text for which the cursor has a cell to go to returns the number of characters, leaves
  the position where the rules of the cursor put it, on the screen, and changes only the screen of its
  console, in the video memory when this one is shown; a text that backs out of the first cell is
  written behind the screen. A key with a character goes to the terminal of the console that is shown,
  as a character of its queue.\<close>

theorem console_screens:
  assumes "vga_inv own V s" and "v \<in> V"
  shows "(\<exists>s'. set_current_vc v s = Inr s' \<and> vga_inv own V s' \<and> pc_current s' = Some v \<and>
      (\<forall>u \<in> V. screen_of own s' u = screen_of own s u) \<and> screens s' 0 = screen_of own s v \<and>
      crtc_low s' = ucast (vc_pos (vconsoles s v)) \<and> crtc_high s' = ucast (drop_bit 8 (vc_pos (vconsoles s v)))) \<and>
    (unat (vc_pos (vconsoles s v)) < 2000 \<longrightarrow>
      (case cursor_run cs (0, unat (vc_pos (vconsoles s v))) of
         None \<Rightarrow> vc_write v cs s = Inl Out_Of_Bounds
       | Some (e, p) \<Rightarrow>
           \<exists>s'. vc_write v cs s = Inr (length cs, s') \<and> vga_inv own V s' \<and>
             unat (vc_pos (vconsoles s' v)) = p \<and> p < 2000 \<and>
             (\<forall>u \<in> V. u \<noteq> v \<longrightarrow> screen_of own s' u = screen_of own s u) \<and>
             (pc_current s = Some v \<longrightarrow> screens s' 0 = screen_of own s' v))) \<and>
    (pc_current s = Some v \<and> vc_terminal (vconsoles s v) = Some t \<and> term_inv (terminals s t) \<and> unat sc < 69 \<and>
      key_char (vc_mods (vconsoles s v) AND mod_shift \<noteq> 0) (scancode_map ! unat sc) = Some ch \<longrightarrow>
      (\<exists>s'. keyboard_irq sc s = Inr s' \<and>
        term_queue (terminals s' t) = put_pending ch (term_queue (terminals s t)) \<and>
        (\<forall>u. u \<noteq> t \<longrightarrow> terminals s' u = terminals s u)))"
proof (intro conjI impI)
  show "\<exists>s'. set_current_vc v s = Inr s' \<and> vga_inv own V s' \<and> pc_current s' = Some v \<and>
      (\<forall>u \<in> V. screen_of own s' u = screen_of own s u) \<and> screens s' 0 = screen_of own s v \<and>
      crtc_low s' = ucast (vc_pos (vconsoles s v)) \<and> crtc_high s' = ucast (drop_bit 8 (vc_pos (vconsoles s v)))"
    using set_current_vc_ok [OF assms] by blast
next
  assume a: "unat (vc_pos (vconsoles s v)) < 2000"
  have shown: "pc_current s = Some v \<longrightarrow> screens s' 0 = screen_of own s' v"
    if "vc_write v cs s = Inr (length cs, s')" "vga_inv own V s'" for s'
    using that vc_write_current [OF that(1)] by (auto simp: vga_inv_def screen_of_def shown_buffer_def)
  show "case cursor_run cs (0, unat (vc_pos (vconsoles s v))) of
         None \<Rightarrow> vc_write v cs s = Inl Out_Of_Bounds
       | Some (e, p) \<Rightarrow>
           \<exists>s'. vc_write v cs s = Inr (length cs, s') \<and> vga_inv own V s' \<and>
             unat (vc_pos (vconsoles s' v)) = p \<and> p < 2000 \<and>
             (\<forall>u \<in> V. u \<noteq> v \<longrightarrow> screen_of own s' u = screen_of own s u) \<and>
             (pc_current s = Some v \<longrightarrow> screens s' 0 = screen_of own s' v)"
  proof (cases "cursor_run cs (0, unat (vc_pos (vconsoles s v)))")
    case None
    then show ?thesis using vc_write_backs_out [OF assms a] by simp
  next
    case (Some ep)
    then show ?thesis using vc_write_ok [OF assms a] shown by (cases ep) fastforce
  qed
next
  assume "pc_current s = Some v \<and> vc_terminal (vconsoles s v) = Some t \<and> term_inv (terminals s t) \<and> unat sc < 69 \<and>
      key_char (vc_mods (vconsoles s v) AND mod_shift \<noteq> 0) (scancode_map ! unat sc) = Some ch"
  then show "\<exists>s'. keyboard_irq sc s = Inr s' \<and>
        term_queue (terminals s' t) = put_pending ch (term_queue (terminals s t)) \<and>
        (\<forall>u. u \<noteq> t \<longrightarrow> terminals s' u = terminals s u)"
    using irq_types [of sc s v t ch] by (simp add: queue_append)
qed

text \<open>Two consoles as the kernel creates them; the second one is shown.\<close>

definition two_consoles :: console_sys where
  "two_consoles =
     \<lparr>screens = (\<lambda>b. if b < 3 then Some (replicate 2000 0x0700) else None), next_screen = 3,
      vconsoles = (\<lambda>v. \<lparr>vc_mods = 0, vc_pos = 0, vc_buffer = Some (v + 1), vc_ucb = False, vc_terminal = Some v\<rparr>),
      terminals = (\<lambda>t. terminal_new (replicate 64 0)), pc_vcs = \<lparr>elems = [0, 1], cnt = 2\<rparr>,
      pc_current = None, pc_alt = False, vga_backup = None, vga_old = None, crtc_low = 0, crtc_high = 0\<rparr>"

lemma console_screens_witness:
  "(\<exists>s'. set_current_vc 1 two_consoles = Inr s' \<and> pc_current s' = Some 1) \<and>
   (\<exists>s'. vc_write 1 [72, 105, 8, 10, 8] two_consoles = Inr (5, s') \<and> vga_inv Suc {0, 1} s' \<and>
      vc_pos (vconsoles s' 1) = 79)"
proof -
  have inv: "vga_inv Suc {0, 1} two_consoles"
    by (auto simp: vga_inv_def two_consoles_def)
  have at: "unat (vc_pos (vconsoles two_consoles 1)) = 0" by (simp add: two_consoles_def)
  have run: "cursor_run [72, 105, 8, 10, 8] (0, 0) = Some (0, 79)" by (simp add: cursor_step_def)
  have one: "(1 :: nat) \<in> {0, 1}" by simp
  note c = console_screens [OF inv one, of "[72, 105, 8, 10, 8]" 0 0 0, unfolded at run]
  have "(0 :: nat) < 2000" by simp
  with c [THEN conjunct2, THEN conjunct1] obtain s' where
    s': "vc_write 1 [72, 105, 8, 10, 8] two_consoles = Inr (length [72 :: u8, 105, 8, 10, 8], s')"
      "vga_inv Suc {0, 1} s'" "unat (vc_pos (vconsoles s' 1)) = 79" by auto
  moreover have "vc_pos (vconsoles s' 1) = 79" using s'(3) by (simp add: word_unat_eq_iff)
  moreover have "length [72 :: u8, 105, 8, 10, 8] = 5" by simp
  ultimately show ?thesis using c [THEN conjunct1] by metis
qed

end
