(* ===== verification/Printf.thy ===== *)
theory Printf imports Prelude begin

text \<open>
  Formatted output (infos/util/printf.cpp, and the same code in infos-user/lib/printf.cpp): the
  conversions write into a buffer whose accesses are checked. A format string is the list of its
  bytes before the terminator. Signed overflow of a pad size of ten digits or more is undefined in
  the source and not modelled: the pad size is an integer.
\<close>

unbundle bit_operations_syntax

section \<open>The buffer\<close>

definition put_byte :: "nat \<Rightarrow> u8 \<Rightarrow> u8 list \<Rightarrow> u8 list res" where
  "put_byte p c buf = (if p < length buf then Inr (buf[p := c]) else Inl Out_Of_Bounds)"

text \<open>The loop that moves the first bytes at \<open>p\<close> up by one, from the last one down.\<close>

fun shift_up :: "nat \<Rightarrow> nat \<Rightarrow> u8 list \<Rightarrow> u8 list res" where
  "shift_up 0 p buf = Inr buf"
| "shift_up (Suc i) p buf = res_bind (put_byte (p + Suc i) (buf ! (p + i)) buf) (shift_up i p)"

definition prepend_to_buffer :: "u8 \<Rightarrow> nat \<Rightarrow> nat \<Rightarrow> u8 list \<Rightarrow> u8 list res" where
  "prepend_to_buffer c p n buf = res_bind (shift_up n p buf) (put_byte p c)"

section \<open>Numbers\<close>

text \<open>The digits, the lowest one first, each put in front of what is there.\<close>

function digits_loop :: "nat \<Rightarrow> nat \<Rightarrow> u64 \<Rightarrow> nat \<Rightarrow> nat \<Rightarrow> u8 list \<Rightarrow> (nat \<times> u8 list) res" where
  "digits_loop p sz value base n buf =
     (if 0 < value \<and> n < sz then
        (let digit_value = unat value mod base; value' = of_nat (unat value div base) in
         if digit_value \<le> 9 then
           res_bind (prepend_to_buffer (48 + of_nat digit_value) p n buf) (digits_loop p sz value' base (n + 1))
         else if digit_value \<le> 35 then
           res_bind (prepend_to_buffer (97 + of_nat digit_value - 10) p n buf) (digits_loop p sz value' base (n + 1))
         else digits_loop p sz value' base n buf)
      else Inr (n, buf))"
  by pat_completeness auto

lemma value_div_less:
  fixes v :: u64
  assumes "0 < v" and "2 \<le> base \<or> base = 0"
  shows "unat (of_nat (unat v div base) :: u64) < unat v"
proof -
  have "0 < unat v" using assms(1) by (simp add: word_less_nat_alt)
  then have less: "unat v div base < unat v" using assms(2) by (cases base) simp_all
  then have "unat v div base < 2 ^ 64"
    using unsigned_less [of v, where ?'a = nat] by (simp add: less_trans [OF less])
  then show ?thesis using less by (simp add: unat_of_nat_u64)
qed

termination digits_loop
proof (relation "measures [\<lambda>(p, sz, v, b, n, buf). sz - n, \<lambda>(p, sz, v, b, n, buf). unat v]", goal_cases)
  case (4 p sz v base n buf x xa)
  then have "2 \<le> base \<or> base = 0"
    by (cases base; cases "base - 1") auto
  then show ?case using value_div_less [of v base] 4 by simp
qed auto

declare digits_loop.simps [simp del]

fun pad_loop :: "nat \<Rightarrow> nat \<Rightarrow> nat \<Rightarrow> u8 \<Rightarrow> nat \<Rightarrow> u8 list \<Rightarrow> (nat \<times> u8 list) res" where
  "pad_loop 0 p sz pad_char n buf = Inr (n, buf)"
| "pad_loop (Suc pad) p sz pad_char n buf =
     (if n < sz then res_bind (prepend_to_buffer pad_char p n buf) (pad_loop pad p sz pad_char (n + 1))
      else Inr (n, buf))"

text \<open>The sign is put in front first, and the digits in front of the sign.\<close>

definition append_num ::
    "nat \<Rightarrow> nat \<Rightarrow> u64 \<Rightarrow> nat \<Rightarrow> bool \<Rightarrow> int \<Rightarrow> u8 \<Rightarrow> u8 list \<Rightarrow> (nat \<times> u8 list) res" where
  "append_num p sz value base is_signed pad pad_char buf =
     (let pad1 = (if pad \<ge> int sz then int sz - 1 else pad);
          negative = is_signed \<and> value <s 0
      in res_bind (if negative then res_bind (prepend_to_buffer 45 p 0 buf) (\<lambda>b. Inr (1, - value, b))
                   else Inr (0, value, buf)) (\<lambda>(n1, v, buf1).
         res_bind (if 0 < v then digits_loop p sz v base n1 buf1
                   else if n1 < sz then
                     res_bind (prepend_to_buffer 48 p n1 buf1) (\<lambda>b.
                     res_bind (put_byte p 48 b) (\<lambda>b'. Inr (n1 + 1, b')))
                   else Inr (n1, buf1)) (\<lambda>(n2, buf2).
         pad_loop (nat (pad1 - int n2)) p sz pad_char n2 buf2)))"

section \<open>Strings\<close>

fun copy_text :: "nat \<Rightarrow> nat \<Rightarrow> u8 list \<Rightarrow> nat \<Rightarrow> u8 list \<Rightarrow> (nat \<times> u8 list) res" where
  "copy_text p sz [] n buf = Inr (n, buf)"
| "copy_text p sz (c # text) n buf =
     (if n < sz then res_bind (put_byte (p + n) c buf) (copy_text p sz text (n + 1)) else Inr (n, buf))"

function pad_right :: "nat \<Rightarrow> nat \<Rightarrow> int \<Rightarrow> u8 \<Rightarrow> nat \<Rightarrow> u8 list \<Rightarrow> (nat \<times> u8 list) res" where
  "pad_right p sz pad pad_char n buf =
     (if n < sz \<and> int n < pad
      then res_bind (put_byte (p + n) pad_char buf) (pad_right p sz pad pad_char (n + 1))
      else Inr (n, buf))"
  by pat_completeness auto

termination pad_right
  by (relation "measure (\<lambda>(p, sz, pad, c, n, buf). sz - n)") auto

declare pad_right.simps [simp del]

definition append_str :: "nat \<Rightarrow> nat \<Rightarrow> u8 list \<Rightarrow> int \<Rightarrow> u8 \<Rightarrow> u8 list \<Rightarrow> (nat \<times> u8 list) res" where
  "append_str p sz text pad pad_char buf =
     res_bind (copy_text p sz text 0 buf) (\<lambda>(n, buf1). pad_right p sz pad pad_char n buf1)"

section \<open>The format string\<close>

text \<open>
  An argument of the call: a number, or a pointer with the text it points to. Reading more
  arguments than there are is an uninitialised read, following a number as a pointer a bad cast.
\<close>

datatype printf_arg = Num_Arg u64 | Text_Arg u64 "u8 list"

fun arg_word :: "printf_arg \<Rightarrow> u64" where
  "arg_word (Num_Arg v) = v"
| "arg_word (Text_Arg a t) = a"

fun next_arg :: "printf_arg list \<Rightarrow> (printf_arg \<times> printf_arg list) res" where
  "next_arg [] = Inl Uninit_Read"
| "next_arg (a # as) = Inr (a, as)"

fun arg_text :: "printf_arg \<Rightarrow> u8 list res" where
  "arg_text (Num_Arg v) = Inl Bad_Cast"
| "arg_text (Text_Arg a t) = Inr t"

text \<open>
  What follows a percent sign: pad digits and size letters up to the conversion character, which
  is missing when the format ends before it.
\<close>

record conversion =
  cv_pad :: int
  cv_char :: u8
  cv_size :: nat

fun read_conversion :: "u8 list \<Rightarrow> conversion \<Rightarrow> (u8 \<times> u8 list) option \<times> conversion" where
  "read_conversion [] cv = (None, cv)"
| "read_conversion (c # fmt) cv =
     (if c = 48 then
        read_conversion fmt (if 0 < cv_pad cv then cv\<lparr>cv_pad := cv_pad cv * 10\<rparr> else cv\<lparr>cv_char := 48\<rparr>)
      else if 49 \<le> c \<and> c \<le> 57 then
        read_conversion fmt (cv\<lparr>cv_pad := cv_pad cv * 10 + int (unat c - 48)\<rparr>)
      else if c = 108 then read_conversion fmt (cv\<lparr>cv_size := 8\<rparr>)
      else (Some (c, fmt), cv))"

text \<open>The value of a number argument at its size and sign.\<close>

definition num_value :: "bool \<Rightarrow> nat \<Rightarrow> u64 \<Rightarrow> u64" where
  "num_value is_signed num_size w =
     (if num_size = 8 then w else if is_signed then scast (ucast w :: i32) else ucast (ucast w :: u32))"

text \<open>One conversion at position \<open>count\<close>: the new count, the remaining arguments and the buffer.\<close>

definition convert ::
    "int \<Rightarrow> u8 \<Rightarrow> conversion \<Rightarrow> nat \<Rightarrow> printf_arg list \<Rightarrow> u8 list \<Rightarrow> (nat \<times> printf_arg list \<times> u8 list) res" where
  "convert sz c cv count args buf =
     (let room = (\<lambda>n. nat (sz - 1 - int n)) in
      if c = 100 \<or> c = 117 then
        res_bind (next_arg args) (\<lambda>(a, args').
        res_bind (append_num count (room count) (num_value (c = 100) (cv_size cv) (arg_word a)) 10 (c = 100)
                    (cv_pad cv) (cv_char cv) buf) (\<lambda>(rc, buf'). Inr (count + rc, args', buf')))
      else if c = 98 \<or> c = 120 \<or> c = 112 then
        res_bind (next_arg args) (\<lambda>(a, args').
        res_bind (if c = 112 then append_str count (room count) [48, 120] 0 32 buf else Inr (0, buf)) (\<lambda>(rc1, buf1).
        res_bind (append_num (count + rc1) (room (count + rc1))
                    (num_value False (if c = 112 then 8 else cv_size cv) (arg_word a))
                    (if c = 98 then 2 else 16) False (cv_pad cv) (cv_char cv) buf1) (\<lambda>(rc2, buf2).
          Inr (count + rc1 + rc2, args', buf2))))
      else if c = 115 then
        res_bind (next_arg args) (\<lambda>(a, args').
        res_bind (arg_text a) (\<lambda>text.
        res_bind (append_str count (room count) text (cv_pad cv) (cv_char cv) buf) (\<lambda>(rc, buf').
          Inr (count + rc, args', buf'))))
      else if c = 99 then
        res_bind (next_arg args) (\<lambda>(a, args').
        res_bind (put_byte count (ucast (arg_word a)) buf) (\<lambda>buf'. Inr (count + 1, args', buf')))
      else res_bind (put_byte count c buf) (\<lambda>buf'. Inr (count + 1, args, buf')))"

lemma read_conversion_shorter:
  "read_conversion fmt cv = (Some (c, rest), cv') \<Longrightarrow> length rest < length fmt"
  by (induction fmt arbitrary: cv) (auto split: if_splits dest: less_SucI)

function format_loop ::
    "int \<Rightarrow> u8 list \<Rightarrow> nat \<Rightarrow> printf_arg list \<Rightarrow> u8 list \<Rightarrow> (nat \<times> u8 list) res" where
  "format_loop sz fmt count args buf =
     (case fmt of
        [] \<Rightarrow> Inr (count, buf)
      | c # rest \<Rightarrow>
          if \<not> int count < sz - 1 then Inr (count, buf)
          else if c = 37 then
            (case read_conversion rest \<lparr>cv_pad = 0, cv_char = 32, cv_size = 4\<rparr> of
               (None, cv) \<Rightarrow> Inr (count, buf)
             | (Some (k, rest'), cv) \<Rightarrow>
                 res_bind (convert sz k cv count args buf) (\<lambda>(count', args', buf').
                   format_loop sz rest' count' args' buf'))
          else res_bind (put_byte count c buf) (format_loop sz rest (count + 1) args))"
  by pat_completeness auto

termination format_loop
  by (relation "measure (\<lambda>(sz, fmt, count, args, buf). length fmt)")
     (auto dest: read_conversion_shorter [OF sym] less_SucI)

declare format_loop.simps [simp del]

definition vsnprintf :: "int \<Rightarrow> u8 list \<Rightarrow> printf_arg list \<Rightarrow> u8 list \<Rightarrow> (nat \<times> u8 list) res" where
  "vsnprintf sz fmt args buf =
     (if sz = 0 then Inr (0, buf)
      else res_bind (format_loop sz fmt 0 args buf) (\<lambda>(count, buf').
           res_bind (put_byte count 0 buf') (\<lambda>buf''. Inr (count, buf''))))"

definition snprintf :: "int \<Rightarrow> u8 list \<Rightarrow> printf_arg list \<Rightarrow> u8 list \<Rightarrow> (nat \<times> u8 list) res" where
  "snprintf sz fmt args buf = vsnprintf sz fmt args buf"

definition sprintf :: "u8 list \<Rightarrow> printf_arg list \<Rightarrow> u8 list \<Rightarrow> (nat \<times> u8 list) res" where
  "sprintf fmt args buf = vsnprintf 0x1000 fmt args buf"

text \<open>The bytes that \<open>printf\<close> of the user library writes to the console.\<close>

definition user_printf :: "u8 list \<Rightarrow> printf_arg list \<Rightarrow> u8 list res" where
  "user_printf fmt args =
     res_bind (vsnprintf 0xFFF fmt args (replicate 0x1000 0)) (\<lambda>(rc, buf). Inr (take rc buf))"

end
