(* ===== verification/Printf_Spec.thy ===== *)
theory Printf_Spec imports Printf begin

text \<open>
  What the formatted output writes: every conversion writes a list of characters at its position and
  nothing else, numbers are the numerals of their values, and the buffer is never exceeded.
\<close>

section \<open>Characters written at a position\<close>

definition written :: "nat \<Rightarrow> u8 list \<Rightarrow> u8 list \<Rightarrow> u8 list" where
  "written p out b = take p b @ out @ drop (p + length out) b"

lemma length_written [simp]: "p + length out \<le> length b \<Longrightarrow> length (written p out b) = length b"
  by (simp add: written_def)

lemma written_Nil [simp]: "written p [] b = b"
  by (simp add: written_def)

lemma written_snoc:
  "p + length out < length b \<Longrightarrow> put_byte (p + length out) c (written p out b) = Inr (written p (out @ [c]) b)"
  by (simp add: put_byte_def written_def list_update_append Cons_nth_drop_Suc [symmetric] add.assoc)

lemma written_written:
  "p + length out1 + length out2 \<le> length b \<Longrightarrow>
   written (p + length out1) out2 (written p out1 b) = written p (out1 @ out2) b"
  by (simp add: written_def ac_simps)

lemma shift_up_nth:
  "p + n < length b \<Longrightarrow> \<exists>b'. shift_up n p b = Inr b' \<and> length b' = length b \<and>
     (\<forall>i < length b. b' ! i = (if p < i \<and> i \<le> p + n then b ! (i - 1) else b ! i))"
proof (induction n arbitrary: b)
  case (Suc n)
  let ?b = "b[p + Suc n := b ! (p + n)]"
  obtain b' where b': "shift_up n p ?b = Inr b'" "length b' = length b"
    "\<forall>i < length b. b' ! i = (if p < i \<and> i \<le> p + n then ?b ! (i - 1) else ?b ! i)"
    using Suc.IH [of ?b] Suc.prems by auto
  have "b' ! i = (if p < i \<and> i \<le> p + Suc n then b ! (i - 1) else b ! i)" if "i < length b" for i
    using b'(3) that Suc.prems by (auto simp: nth_list_update)
  then show ?case using b' Suc.prems by (simp add: put_byte_def)
qed auto

lemma written_prepend:
  assumes "p + length out < length b"
  shows "prepend_to_buffer c p (length out) (written p out b) = Inr (written p (c # out) b)"
proof -
  let ?w = "written p out b"
  obtain b' where b': "shift_up (length out) p ?w = Inr b'" "length b' = length b"
    "\<forall>i < length b. b' ! i = (if p < i \<and> i \<le> p + length out then ?w ! (i - 1) else ?w ! i)"
    using shift_up_nth [of p "length out" ?w] assms by auto
  have "b'[p := c] = written p (c # out) b"
  proof (rule nth_equalityI)
    show "length (b'[p := c]) = length (written p (c # out) b)" using b'(2) assms by simp
    fix i assume "i < length (b'[p := c])"
    then have i: "i < length b" using b'(2) by simp
    consider "i < p" | "i = p" | "p < i" "i \<le> p + length out" | "p + length out < i" by linarith
    then show "b'[p := c] ! i = written p (c # out) b ! i"
    proof cases
      case 3
      then obtain k where "i = Suc (p + k)" using less_imp_Suc_add by blast
      moreover from this 3 have "k < length out" by simp
      ultimately show ?thesis using b'(2,3) i assms by (simp add: written_def nth_append)
    next
      case 4
      then obtain k where "i = Suc (p + length out + k)" using less_imp_Suc_add by blast
      then show ?thesis using b'(2,3) i assms by (simp add: written_def nth_append)
    qed (use b'(2,3) i assms in \<open>auto simp: written_def nth_append nth_Cons split: nat.splits\<close>)
  qed
  then show ?thesis using b' assms by (simp add: prepend_to_buffer_def put_byte_def)
qed

section \<open>Numerals\<close>

definition digit_char :: "nat \<Rightarrow> u8" where
  "digit_char d = (if d \<le> 9 then 48 + of_nat d else 87 + of_nat d)"

definition numeral_chars :: "nat \<Rightarrow> nat \<Rightarrow> u8 list" where
  "numeral_chars base v = map digit_char (digits_of base v)"

text \<open>The digits that the loop puts in front of \<open>out\<close> in a room of \<open>sz\<close> characters.\<close>

definition last_digits :: "nat \<Rightarrow> u8 list \<Rightarrow> u8 list" where
  "last_digits k ds = drop (length ds - k) ds"

lemma last_digits_snoc: "last_digits (Suc k) (ds @ [d]) = last_digits k ds @ [d]"
  by (simp add: last_digits_def)

lemma last_digits_all: "length ds \<le> k \<Longrightarrow> last_digits k ds = ds"
  by (simp add: last_digits_def)

lemma length_last_digits: "length (last_digits k ds) = min k (length ds)"
  by (simp add: last_digits_def)

lemma digits_loop_step:
  assumes "0 < v" and "length out < sz" and "p + sz \<le> length b" and "base \<le> 36" "0 < base"
  shows "digits_loop p sz v base (length out) (written p out b) =
    digits_loop p sz (of_nat (unat v div base)) base (length (digit_char (unat v mod base) # out))
      (written p (digit_char (unat v mod base) # out) b)"
proof -
  have d: "unat v mod base \<le> 35" using assms(4,5) mod_less_divisor [of base "unat v"] by linarith
  have w: "prepend_to_buffer c p (length out) (written p out b) = Inr (written p (c # out) b)" for c
    using assms(2,3) by (intro written_prepend) simp
  show ?thesis
    using assms(1,2) d by (subst digits_loop.simps) (simp add: Let_def w digit_char_def)
qed

lemma digits_loop_numeral:
  assumes "unat v = n" "0 < n" and "length out \<le> sz" and "p + sz \<le> length b" and "base \<le> 36" "1 < base"
  shows "digits_loop p sz v base (length out) (written p out b) =
    (let out' = last_digits (sz - length out) (numeral_chars base n) @ out in Inr (length out', written p out' b))"
  using assms
proof (induction base n arbitrary: v out rule: digits_of.induct)
  case (1 base n)
  show ?case
  proof (cases "length out < sz")
    case False
    then show ?thesis using 1(4,5) by (subst digits_loop.simps) (simp add: last_digits_def)
  next
    case True
    have v0: "0 < v" using 1(2,3) by (simp add: word_less_nat_alt)
    let ?d = "digit_char (n mod base)"
    have room: "sz - length out = Suc (sz - length (?d # out))" using True by simp
    have q: "unat (of_nat (n div base) :: u64) = n div base"
      using 1(2) unsigned_less [of v, where ?'a = nat]
      by (intro unat_of_nat_u64 le_less_trans [OF div_le_dividend]) simp
    note step = digits_loop_step [OF v0 True 1(5,6), unfolded 1(2)]
    show ?thesis
    proof (cases "n < base")
      case small: True
      then have "numeral_chars base n = [] @ [?d]" "n div base = 0"
        using 1(7) by (simp_all add: numeral_chars_def digits_of.simps)
      then show ?thesis using step 1(7)
        by (simp add: room last_digits_snoc) (simp add: digits_loop.simps last_digits_def)
    next
      case False
      then have n: "numeral_chars base n = numeral_chars base (n div base) @ [?d]" "0 < n div base"
        using 1(7) by (simp_all add: numeral_chars_def digits_of.simps [of base n] div_greater_zero_iff)
      have "digits_loop p sz (of_nat (n div base)) base (length (?d # out)) (written p (?d # out) b) =
          (let out' = last_digits (sz - length (?d # out)) (numeral_chars base (n div base)) @ ?d # out
           in Inr (length out', written p out' b))"
        using False 1(5,6,7) True n(2) q by (intro 1(1)) simp_all
      then show ?thesis using step 1(7) n(1) by (simp add: room last_digits_snoc Let_def)
    qed
  qed
qed

lemma pad_loop_written:
  "length out \<le> sz \<Longrightarrow> p + sz \<le> length b \<Longrightarrow>
   pad_loop k p sz c (length out) (written p out b) =
     (let out' = replicate (min k (sz - length out)) c @ out in Inr (length out', written p out' b))"
proof (induction k arbitrary: out)
  case (Suc k)
  show ?case
  proof (cases "length out < sz")
    case True
    then have "prepend_to_buffer c p (length out) (written p out b) = Inr (written p (c # out) b)"
      using Suc.prems by (intro written_prepend) simp
    moreover have "min (Suc k) (sz - length out) = Suc (min k (sz - length (c # out)))" using True by simp
    ultimately show ?thesis using Suc.IH [of "c # out"] Suc.prems True
      by (simp add: Let_def replicate_app_Cons_same)
  qed (use Suc.prems in simp)
qed simp

section \<open>Conversions\<close>

definition num_output :: "nat \<Rightarrow> u64 \<Rightarrow> nat \<Rightarrow> bool \<Rightarrow> int \<Rightarrow> u8 \<Rightarrow> u8 list" where
  "num_output sz w base is_signed pad pad_char =
     (let neg = is_signed \<and> w <s 0;
          sign = (if neg then [45] else []);
          ds = last_digits (sz - length sign) (numeral_chars base (unat (if neg then - w else w))) @ sign
      in replicate (min (nat (min pad (int sz - 1) - int (length ds))) (sz - length ds)) pad_char @ ds)"

lemma put_first: "0 < length out \<Longrightarrow> p + length out \<le> length b \<Longrightarrow>
    put_byte p c (written p out b) = Inr (written p (c # tl out) b)"
  by (cases out) (auto simp: put_byte_def written_def list_update_append)

lemma append_num_written:
  assumes room: "p + sz \<le> length b" "0 < sz \<or> \<not> is_signed" and base: "base \<le> 36" "1 < base"
  shows "append_num p sz w base is_signed pad c b =
    (let out = num_output sz w base is_signed pad c in Inr (length out, written p out b))"
proof -
  define neg where "neg = (is_signed \<and> w <s 0)"
  define v where "v = (if neg then - w else w)"
  define sign :: "u8 list" where "sign = (if neg then [45] else [])"
  define ds where "ds = last_digits (sz - length sign) (numeral_chars base (unat v)) @ sign"
  have sign_le: "length sign \<le> sz" using room(2) by (auto simp: sign_def neg_def)
  have ds_le: "length ds \<le> sz" using sign_le by (simp add: ds_def length_last_digits)
  have one: "(if neg then res_bind (prepend_to_buffer 45 p 0 b) (\<lambda>b. Inr (1, - w, b)) else Inr (0, w, b)) =
      Inr (length sign, v, written p sign b)"
    using written_prepend [of p "[]" b 45] room by (auto simp: neg_def sign_def v_def)
  have two: "(if 0 < v then digits_loop p sz v base (length sign) (written p sign b)
      else if length sign < sz then
        res_bind (prepend_to_buffer 48 p (length sign) (written p sign b)) (\<lambda>b.
        res_bind (put_byte p 48 b) (\<lambda>b'. Inr (length sign + 1, b')))
      else Inr (length sign, written p sign b)) = Inr (length ds, written p ds b)"
  proof (cases "v = 0")
    case True
    then have "numeral_chars base (unat v) = [48]"
      using base by (simp add: numeral_chars_def digits_of.simps digit_char_def)
    then have "ds = (if length sign < sz then [48] else []) @ sign"
      using sign_le by (auto simp: ds_def last_digits_def)
    then show ?thesis using True room(1) written_prepend [of p sign b 48] put_first [of "48 # sign" p b 48]
      by simp
  next
    case False
    then have "0 < v" by (simp add: word_gt_0)
    then show ?thesis using digits_loop_numeral [OF refl _ sign_le room(1) base, of v]
      by (simp add: ds_def Let_def word_less_nat_alt)
  qed
  have num: "num_output sz w base is_signed pad c =
      replicate (min (nat (min pad (int sz - 1) - int (length ds))) (sz - length ds)) c @ ds"
    unfolding num_output_def Let_def neg_def [symmetric] sign_def [symmetric] v_def [symmetric] ds_def [symmetric] ..
  have pads: "(if int sz \<le> pad then int sz - 1 else pad) = min pad (int sz - 1)" by simp
  show ?thesis
    unfolding append_num_def Let_def neg_def [symmetric] num pads
    using pad_loop_written [OF ds_le room(1)] by (simp add: one two Let_def)
qed

lemma copy_text_written:
  "length out \<le> sz \<Longrightarrow> p + sz \<le> length b \<Longrightarrow>
   copy_text p sz cs (length out) (written p out b) =
     (let out' = out @ take (sz - length out) cs in Inr (length out', written p out' b))"
proof (induction cs arbitrary: out)
  case (Cons c cs)
  show ?case
  proof (cases "length out < sz")
    case True
    then have "sz - length out = Suc (sz - length (out @ [c]))" by simp
    then show ?thesis using Cons.IH [of "out @ [c]"] Cons.prems True written_snoc [of p out b c]
      by (simp add: Let_def)
  qed (use Cons.prems in simp)
qed simp

lemma pad_right_written:
  "length out \<le> sz \<Longrightarrow> p + sz \<le> length b \<Longrightarrow>
   pad_right p sz pad c (length out) (written p out b) =
     (let out' = out @ replicate (nat (min pad (int sz) - int (length out))) c in Inr (length out', written p out' b))"
proof (induction "sz - length out" arbitrary: out)
  case 0
  then show ?case by (subst pad_right.simps) simp
next
  case (Suc k)
  show ?case
  proof (cases "int (length out) < pad")
    case True
    have "nat (min pad (int sz) - int (length out)) = Suc (nat (min pad (int sz) - int (length (out @ [c]))))"
      using True Suc.hyps(2) by auto
    moreover have "pad_right p sz pad c (length (out @ [c])) (written p (out @ [c]) b) =
      (let out' = (out @ [c]) @ replicate (nat (min pad (int sz) - int (length (out @ [c])))) c
       in Inr (length out', written p out' b))"
      using Suc.hyps(2) Suc.prems(2) by (intro Suc.hyps(1)) simp_all
    moreover have "put_byte (p + length out) c (written p out b) = Inr (written p (out @ [c]) b)"
      using Suc.hyps(2) Suc.prems(2) by (intro written_snoc) simp
    ultimately show ?thesis using True Suc.hyps(2) by (subst pad_right.simps) (simp add: Let_def)
  qed (use Suc.prems in \<open>subst pad_right.simps, simp\<close>)
qed

definition str_output :: "nat \<Rightarrow> u8 list \<Rightarrow> int \<Rightarrow> u8 \<Rightarrow> u8 list" where
  "str_output sz cs pad c =
     (let t = take sz cs in t @ replicate (nat (min pad (int sz) - int (length t))) c)"

lemma append_str_written:
  assumes "p + sz \<le> length b"
  shows "append_str p sz cs pad c b = (let out = str_output sz cs pad c in Inr (length out, written p out b))"
  using copy_text_written [of "[]" sz p b cs] pad_right_written [of "take sz cs" sz p b pad c] assms
  by (simp add: append_str_def str_output_def Let_def)

lemma length_str_output: "length (str_output sz cs pad c) \<le> sz"
  by (auto simp: str_output_def Let_def)

lemma length_num_output: "0 < sz \<or> \<not> is_signed \<Longrightarrow> length (num_output sz w base is_signed pad c) \<le> sz"
  by (auto simp: num_output_def Let_def length_last_digits)

section \<open>The whole format\<close>

text \<open>The results that a call may have: an argument that is missing or of the wrong kind, or a
  number of characters written in front of what the buffer held.\<close>

definition fits :: "int \<Rightarrow> nat \<Rightarrow> u8 list \<Rightarrow> nat \<Rightarrow> u8 list \<Rightarrow> bool" where
  "fits sz count b count' b' \<longleftrightarrow>
     (\<exists>out. b' = written count out b \<and> count' = count + length out \<and> int count' \<le> sz - 1)"

definition bad_argument :: "kerror \<Rightarrow> bool" where
  "bad_argument e \<longleftrightarrow> e = Uninit_Read \<or> e = Bad_Cast"

lemma fits_refl: "int count \<le> sz - 1 \<Longrightarrow> fits sz count b count b"
  unfolding fits_def by (intro exI [of _ "[]"]) simp

lemma fits_trans:
  assumes "fits sz c0 b0 c1 b1" and "fits sz c1 b1 c2 b2" and "nat sz \<le> length b0"
  shows "fits sz c0 b0 c2 b2"
proof -
  obtain o1 where o1: "b1 = written c0 o1 b0" "c1 = c0 + length o1" "int c1 \<le> sz - 1"
    using assms(1) by (auto simp: fits_def)
  obtain o2 where o2: "b2 = written c1 o2 b1" "c2 = c1 + length o2" "int c2 \<le> sz - 1"
    using assms(2) by (auto simp: fits_def)
  have "b2 = written c0 (o1 @ o2) b0"
    using o1 o2 assms(3) by (simp add: written_written)
  then show ?thesis using o1 o2 unfolding fits_def by (intro exI [of _ "o1 @ o2"]) simp
qed

lemma fits_length: "fits sz c b c' b' \<Longrightarrow> nat sz \<le> length b \<Longrightarrow> length b' = length b"
  by (auto simp: fits_def)

lemma fits_bound: "fits sz c b c' b' \<Longrightarrow> int c' \<le> sz - 1"
  by (auto simp: fits_def)

lemma put_byte_fits:
  assumes "int count < sz - 1" and "nat sz \<le> length b"
  shows "put_byte count c b = Inr (written count [c] b)" and "fits sz count b (count + 1) (written count [c] b)"
proof -
  show "put_byte count c b = Inr (written count [c] b)"
    using written_snoc [of count "[]" b c] assms by simp
  show "fits sz count b (count + 1) (written count [c] b)"
    unfolding fits_def using assms by (intro exI [of _ "[c]"]) simp
qed

lemma append_num_fits:
  assumes "int count \<le> sz - 1" and "nat sz \<le> length b" and "int count < sz - 1 \<or> \<not> is_signed"
    and "base \<le> 36" "1 < base"
  shows "\<exists>rc b'. append_num count (nat (sz - 1 - int count)) w base is_signed pad c b = Inr (rc, b') \<and>
    fits sz count b (count + rc) b'"
proof -
  let ?room = "nat (sz - 1 - int count)" and ?out = "num_output (nat (sz - 1 - int count)) w base is_signed pad c"
  have "length ?out \<le> ?room" using assms(3) by (intro length_num_output) auto
  moreover have "append_num count ?room w base is_signed pad c b = (let out = ?out in Inr (length out, written count out b))"
    using assms by (intro append_num_written) auto
  ultimately show ?thesis using assms(1) by (auto simp: Let_def fits_def)
qed

lemma append_str_fits:
  assumes "int count \<le> sz - 1" and "nat sz \<le> length b"
  shows "\<exists>rc b'. append_str count (nat (sz - 1 - int count)) cs pad c b = Inr (rc, b') \<and>
    fits sz count b (count + rc) b'"
proof -
  let ?room = "nat (sz - 1 - int count)"
  have "length (str_output ?room cs pad c) \<le> ?room" by (rule length_str_output)
  moreover have "append_str count ?room cs pad c b =
      (let out = str_output ?room cs pad c in Inr (length out, written count out b))"
    using assms by (intro append_str_written) auto
  ultimately show ?thesis using assms(1) by (auto simp: Let_def fits_def)
qed

text \<open>A conversion writes in front of position \<open>sz - 1\<close> or fails with a bad argument.\<close>

lemma convert_fits:
  assumes "int count < sz - 1" and "nat sz \<le> length b"
  shows "(\<exists>e. convert sz k cv count args b = Inl e \<and> bad_argument e) \<or>
    (\<exists>count' args' b'. convert sz k cv count args b = Inr (count', args', b') \<and> fits sz count b count' b')"
proof (cases args)
  case Nil
  then show ?thesis using put_byte_fits [OF assms, of k]
    by (auto simp: convert_def Let_def bad_argument_def)
next
  case (Cons a as)
  have le: "int count \<le> sz - 1" using assms(1) by simp
  have num: "\<exists>rc b'. append_num count (nat (sz - 1 - int count)) w 10 sg pad c b = Inr (rc, b') \<and>
      fits sz count b (count + rc) b'" for w sg pad c
    using append_num_fits [OF le assms(2)] assms(1) by simp
  have hex: "\<exists>rc b'. append_num count (nat (sz - 1 - int count)) w base False pad c b = Inr (rc, b') \<and>
      fits sz count b (count + rc) b'" if "base = 2 \<or> base = 16" for w base pad c
    using append_num_fits [OF le assms(2), of False base] that by auto
  have pointer: "\<exists>rc b' rc2 b2. append_str count (nat (sz - 1 - int count)) cs 0 c b = Inr (rc, b') \<and>
      append_num (count + rc) (nat (sz - 1 - int (count + rc))) w 16 False pad c' b' = Inr (rc2, b2) \<and>
      fits sz count b (count + rc + rc2) b2" for cs c w pad c'
  proof -
    obtain rc b' where s: "append_str count (nat (sz - 1 - int count)) cs 0 c b = Inr (rc, b')"
      "fits sz count b (count + rc) b'" using append_str_fits [OF le assms(2)] by blast
    have "nat sz \<le> length b'" using fits_length [OF s(2) assms(2)] assms(2) by simp
    with append_num_fits [OF fits_bound [OF s(2)], of b' False 16 w pad c'] obtain rc2 b2 where
      "append_num (count + rc) (nat (sz - 1 - int (count + rc))) w 16 False pad c' b' = Inr (rc2, b2)"
      "fits sz (count + rc) b' (count + rc + rc2) b2" by auto
    then show ?thesis using s fits_trans [OF s(2) _ assms(2)] by blast
  qed
  show ?thesis
  proof (cases "k = 100 \<or> k = 117")
    case True
    then show ?thesis using num [of "num_value (k = 100) (cv_size cv) (arg_word a)" "k = 100" "cv_pad cv" "cv_char cv"] Cons
      by (auto simp: convert_def Let_def)
  next
    case False
    consider "k = 98 \<or> k = 120" | "k = 112" | "k = 115" | "k = 99" | "k \<notin> {98, 120, 112, 115, 99}" by auto
    then show ?thesis
    proof cases
      case 1
      then show ?thesis using hex [of "if k = 98 then 2 else 16" "num_value False (cv_size cv) (arg_word a)" "cv_pad cv" "cv_char cv"] Cons
        by (auto simp: convert_def Let_def)
    next
      case 2
      then show ?thesis using pointer [of "[48, 120]" 32 "num_value False 8 (arg_word a)" "cv_pad cv" "cv_char cv"] Cons
        by (auto simp: convert_def Let_def)
    next
      case 3
      show ?thesis
      proof (cases a)
        case (Num_Arg w)
        then show ?thesis using 3 Cons by (simp add: convert_def Let_def bad_argument_def)
      next
        case (Text_Arg w cs)
        then show ?thesis using 3 Cons append_str_fits [OF le assms(2), of cs "cv_pad cv" "cv_char cv"]
          by (auto simp: convert_def Let_def)
      qed
    next
      case 4
      then show ?thesis using put_byte_fits [OF assms] Cons by (auto simp: convert_def Let_def)
    next
      case 5
      then show ?thesis using put_byte_fits [OF assms, of k] False by (auto simp: convert_def Let_def)
    qed
  qed
qed

lemma format_loop_fits:
  "int count \<le> sz - 1 \<Longrightarrow> nat sz \<le> length b \<Longrightarrow>
   (\<exists>e. format_loop sz fmt count args b = Inl e \<and> bad_argument e) \<or>
   (\<exists>count' b'. format_loop sz fmt count args b = Inr (count', b') \<and> fits sz count b count' b')"
proof (induction sz fmt count args b rule: format_loop.induct)
  case (1 sz fmt count args b)
  show ?case
  proof (cases fmt)
    case Nil
    then show ?thesis using fits_refl [OF 1(3)] by (subst format_loop.simps) (auto simp: format_loop.simps)
  next
    case (Cons c rest)
    show ?thesis
    proof (cases "int count < sz - 1")
      case False
      then show ?thesis using fits_refl [OF 1(3)] Cons by (auto simp: format_loop.simps)
    next
      case less: True
      obtain r cv where rc: "read_conversion rest \<lparr>cv_pad = 0, cv_char = 32, cv_size = 4\<rparr> = (r, cv)"
        by (cases "read_conversion rest \<lparr>cv_pad = 0, cv_char = 32, cv_size = 4\<rparr>")
      consider "c \<noteq> 37" | "c = 37" "r = None" | k rest' where "c = 37" "r = Some (k, rest')" by (cases r) auto
      then show ?thesis
      proof cases
        case plain: 1
        note w = put_byte_fits [OF less 1(4), of c]
        have "nat sz \<le> length (written count [c] b)" using fits_length [OF w(2) 1(4)] 1(4) by simp
        from 1(2) [OF Cons _ plain w(1) _ this] less have
          "(\<exists>e. format_loop sz rest (count + 1) args (written count [c] b) = Inl e \<and> bad_argument e) \<or>
           (\<exists>count' b'. format_loop sz rest (count + 1) args (written count [c] b) = Inr (count', b') \<and>
              fits sz (count + 1) (written count [c] b) count' b')" by auto
        then show ?thesis using fits_trans [OF w(2) _ 1(4)] Cons plain less w(1)
          by (subst (1 2) format_loop.simps) auto
      next
        case 2
        then show ?thesis using fits_refl [OF 1(3)] Cons rc by (auto simp: format_loop.simps)
      next
        case 3
        from convert_fits [OF less 1(4), of k cv args] show ?thesis
        proof
          assume "\<exists>e. convert sz k cv count args b = Inl e \<and> bad_argument e"
          then show ?thesis using Cons less 3 rc by (subst format_loop.simps) auto
        next
          assume "\<exists>count' args' b'. convert sz k cv count args b = Inr (count', args', b') \<and> fits sz count b count' b'"
          then obtain count1 args1 b1 where v: "convert sz k cv count args b = Inr (count1, args1, b1)"
            "fits sz count b count1 b1" by blast
          have len: "nat sz \<le> length b1" using fits_length [OF v(2) 1(4)] 1(4) by simp
          have "(\<exists>e. format_loop sz rest' count1 args1 b1 = Inl e \<and> bad_argument e) \<or>
            (\<exists>count' b'. format_loop sz rest' count1 args1 b1 = Inr (count', b') \<and> fits sz count1 b1 count' b')"
            using 1(1) [OF Cons _ 3(1) _ _ _ v(1) refl refl fits_bound [OF v(2)] len] less rc 3(2) by auto
          then show ?thesis using fits_trans [OF v(2) _ 1(4)] Cons less 3 rc v(1)
            by (subst (1 2) format_loop.simps) auto
        qed
      qed
    qed
  qed
qed

lemma vsnprintf_fits:
  assumes "0 < sz" and "nat sz \<le> length b"
  shows "(\<exists>e. vsnprintf sz fmt args b = Inl e \<and> bad_argument e) \<or>
    (\<exists>out. vsnprintf sz fmt args b = Inr (length out, out @ 0 # drop (Suc (length out)) b) \<and> int (length out) < sz)"
proof -
  have "(\<exists>e. format_loop sz fmt 0 args b = Inl e \<and> bad_argument e) \<or>
      (\<exists>n b'. format_loop sz fmt 0 args b = Inr (n, b') \<and> fits sz 0 b n b')"
    using format_loop_fits [of 0 sz b fmt args] assms by simp
  then show ?thesis
  proof (elim disjE exE)
  fix e assume "format_loop sz fmt 0 args b = Inl e \<and> bad_argument e"
  then show ?thesis using assms(1) by (simp add: vsnprintf_def)
  next
  fix n b' assume a: "format_loop sz fmt 0 args b = Inr (n, b') \<and> fits sz 0 b n b'"
  then obtain out where out: "b' = written 0 out b" "n = length out" "int n \<le> sz - 1" by (auto simp: fits_def)
  have "put_byte n 0 b' = Inr (written 0 (out @ [0]) b)"
    using written_snoc [of 0 out b 0] out assms by simp
  then have "vsnprintf sz fmt args b = Inr (length out, out @ 0 # drop (Suc (length out)) b)"
    using assms(1) a out by (simp add: vsnprintf_def written_def)
  then show ?thesis using out by auto
  qed
qed

text \<open>What a format of one conversion of a number prints when there is room for it.\<close>

lemma vsnprintf_one:
  assumes "1 < sz" and "nat sz \<le> length b" and "k = 100 \<or> k = 117"
  shows "vsnprintf sz [37, k] [Num_Arg w] b =
    (let out = num_output (nat (sz - 1)) (num_value (k = 100) 4 w) 10 (k = 100) 0 32
     in Inr (length out, out @ 0 # drop (Suc (length out)) b))"
proof -
  let ?out = "num_output (nat (sz - 1)) (num_value (k = 100) 4 w) 10 (k = 100) 0 32"
  have num: "append_num 0 (nat (sz - 1)) (num_value (k = 100) 4 w) 10 (k = 100) 0 32 b = Inr (length ?out, written 0 ?out b)"
    using assms append_num_written [of 0 "nat (sz - 1)" b "k = 100" 10 "num_value (k = 100) 4 w" 0 32]
    by (simp add: Let_def)
  have "read_conversion [k] \<lparr>cv_pad = 0, cv_char = 32, cv_size = 4\<rparr> = (Some (k, []), \<lparr>cv_pad = 0, cv_char = 32, cv_size = 4\<rparr>)"
    using assms(3) by auto
  then have "format_loop sz [37, k] 0 [Num_Arg w] b = Inr (length ?out, written 0 ?out b)"
    using assms(1,3) num by (subst format_loop.simps) (auto simp: convert_def Let_def format_loop.simps [of sz "[]"])
  moreover have "length ?out \<le> nat (sz - 1)" using assms(1) by (intro length_num_output) auto
  ultimately show ?thesis
    using assms(1,2) written_snoc [of 0 ?out b 0] by (simp add: vsnprintf_def Let_def written_def)
qed

text \<open>The steps of a format: \<open>X\<close> is the text so far, of which the buffer takes \<open>N\<close> characters.\<close>

lemma format_full: "format_loop (int N + 1) fmt N args b = Inr (N, b)"
  by (subst format_loop.simps) (simp split: list.split)

lemma format_plain:
  assumes "c \<noteq> 37" and "N < length b"
  shows "format_loop (int N + 1) (c # fmt) (length (take N X)) args (written 0 (take N X) b) =
    (if N \<le> length X then Inr (length (take N X), written 0 (take N X) b)
     else format_loop (int N + 1) fmt (length (take N (X @ [c]))) args (written 0 (take N (X @ [c])) b))"
proof (cases "N \<le> length X")
  case True
  then show ?thesis by (simp add: format_full)
next
  case False
  then have "put_byte (length X) c (written 0 X b) = Inr (written 0 (X @ [c]) b)"
    using assms(2) written_snoc [of 0 X b c] by simp
  then show ?thesis using False assms(1) by (subst format_loop.simps) simp
qed

lemma format_string:
  assumes "N < length b"
  shows "format_loop (int N + 1) (37 # 115 # fmt) (length (take N X)) (Text_Arg a t # args) (written 0 (take N X) b) =
    (if N \<le> length X then Inr (length (take N X), written 0 (take N X) b)
     else format_loop (int N + 1) fmt (length (take N (X @ t))) args (written 0 (take N (X @ t)) b))"
proof (cases "N \<le> length X")
  case True
  then show ?thesis by (simp add: format_full)
next
  case False
  let ?out = "take (N - length X) t"
  have len: "length X + (N - length X) \<le> length (written 0 X b)" using False assms by simp
  have "str_output (N - length X) t 0 32 = ?out" by (simp add: str_output_def Let_def)
  then have "append_str (length X) (N - length X) t 0 32 (written 0 X b) =
      Inr (length ?out, written (0 + length X) ?out (written 0 X b))"
    using append_str_written [OF len, of t 0 32] by (simp add: Let_def)
  moreover have "written (0 + length X) ?out (written 0 X b) = written 0 (X @ ?out) b"
    using False assms by (intro written_written) simp
  ultimately have a: "append_str (length X) (N - length X) t 0 32 (written 0 X b) = Inr (length ?out, written 0 (X @ ?out) b)"
    by simp
  have room: "nat (int N + 1 - 1 - int (length X)) = N - length X" "nat (int N - int (length X)) = N - length X"
    by arith+
  have tk: "take N (X @ t) = X @ ?out" "take N X = X" using False by simp_all
  have conv: "convert (int N + 1) 115 \<lparr>cv_pad = 0, cv_char = 32, cv_size = 4\<rparr> (length X) (Text_Arg a t # args) (written 0 X b) =
      Inr (length X + length ?out, args, written 0 (X @ ?out) b)"
    using a by (simp add: convert_def Let_def room del: length_take)
  show ?thesis
    using False unfolding tk by (subst format_loop.simps) (simp add: conv del: length_take)
qed

text \<open>Each step, towards the text \<open>Y\<close> that the rest produces.\<close>

lemma format_plain_to:
  assumes "c \<noteq> 37" and "N < length b" and "Y = X @ Z"
    and "format_loop (int N + 1) fmt (length (take N (X @ [c]))) args (written 0 (take N (X @ [c])) b) =
      Inr (length (take N Y), written 0 (take N Y) b)"
  shows "format_loop (int N + 1) (c # fmt) (length (take N X)) args (written 0 (take N X) b) =
    Inr (length (take N Y), written 0 (take N Y) b)"
  using assms(3,4) by (simp only: format_plain [OF assms(1,2)] split: if_split) simp

lemma format_string_to:
  assumes "N < length b" and "Y = X @ Z"
    and "format_loop (int N + 1) fmt (length (take N (X @ t))) args (written 0 (take N (X @ t)) b) =
      Inr (length (take N Y), written 0 (take N Y) b)"
  shows "format_loop (int N + 1) (37 # 115 # fmt) (length (take N X)) (Text_Arg a t # args) (written 0 (take N X) b) =
    Inr (length (take N Y), written 0 (take N Y) b)"
  using assms(2,3) by (simp only: format_string [OF assms(1)] split: if_split) simp

lemma num_output_unpadded:
  assumes "length (numeral_chars base (unat (if s \<and> w <s 0 then - w else w))) + (if s \<and> w <s 0 then 1 else 0) \<le> sz"
  shows "num_output sz w base s 0 c =
    numeral_chars base (unat (if s \<and> w <s 0 then - w else w)) @ (if s \<and> w <s 0 then [45] else [])"
  using assms by (auto simp: num_output_def Let_def last_digits_all)

lemma ucast_up_down_u32 [simp]: "(ucast (ucast (w :: u32) :: u64) :: u32) = w"
  by (rule bit_word_eqI) (auto simp: bit_simps dest: bit_imp_le_length)

lemma numeral_length: "n < 10 ^ 10 \<Longrightarrow> length (numeral_chars 10 n) \<le> 10"
  using digits_of_length [of 10 n 10] by (simp add: numeral_chars_def)

text \<open>C32: Formatted output with a buffer of at least \<open>sz\<close> bytes never writes outside it and always
  returns: it fails only on a missing argument or one of the wrong kind, and otherwise writes at
  most \<open>sz - 1\<close> characters, returns their number, ends them with a zero byte and leaves the rest of
  the buffer alone. With room for it an unsigned number prints as its decimal numeral without
  leading zeros, and so does a signed one that is not negative; a negative one prints as the
  numeral of its magnitude with the minus sign behind it.\<close>

theorem printf_output:
  assumes "12 \<le> sz" and "nat sz \<le> length b"
  shows "((\<exists>e. vsnprintf sz fmt args b = Inl e \<and> bad_argument e) \<or>
      (\<exists>out. vsnprintf sz fmt args b = Inr (length out, out @ 0 # drop (Suc (length out)) b) \<and> int (length out) < sz)) \<and>
    vsnprintf sz [37, 117] [Num_Arg (ucast (w :: u32))] b =
      (let out = numeral_chars 10 (unat w) in Inr (length out, out @ 0 # drop (Suc (length out)) b)) \<and>
    vsnprintf sz [37, 100] [Num_Arg (ucast w)] b =
      (let out = (if sint w < 0 then numeral_chars 10 (nat (- sint w)) @ [45] else numeral_chars 10 (nat (sint w)))
       in Inr (length out, out @ 0 # drop (Suc (length out)) b)) \<and>
    digits_value 10 (digits_of 10 (unat w)) = unat w \<and> (0 < unat w \<longrightarrow> hd (digits_of 10 (unat w)) \<noteq> 0)"
proof (intro conjI)
  show "(\<exists>e. vsnprintf sz fmt args b = Inl e \<and> bad_argument e) \<or>
      (\<exists>out. vsnprintf sz fmt args b = Inr (length out, out @ 0 # drop (Suc (length out)) b) \<and> int (length out) < sz)"
    using assms by (intro vsnprintf_fits) auto
  have small: "unat w < 2 ^ 32" using unsigned_less [of w, where ?'a = nat] by simp
  have "num_output (nat (sz - 1)) (ucast w) 10 False 0 32 = numeral_chars 10 (unat w)"
    using num_output_unpadded [of 10 False "ucast w" "nat (sz - 1)" 32] numeral_length [of "unat w"] small assms(1) by simp
  then show "vsnprintf sz [37, 117] [Num_Arg (ucast (w :: u32))] b =
      (let out = numeral_chars 10 (unat w) in Inr (length out, out @ 0 # drop (Suc (length out)) b))"
    using vsnprintf_one [of sz b 117 "ucast w"] assms by (simp add: num_value_def)
  have range: "- (2 ^ 31) \<le> sint w" "sint w < 2 ^ 31"
    using sint_range_size [of w] by (simp_all add: word_size)
  let ?s = "scast w :: u64"
  have sw: "sint ?s = sint w"
    by (rule sint_up_scast) (simp add: is_up)
  have neg: "?s <s 0 \<longleftrightarrow> sint w < 0" by (simp add: word_sless_alt sw)
  have mag: "unat (if ?s <s 0 then - ?s else ?s) = nat \<bar>sint w\<bar>"
  proof -
    have "?s = word_of_int (sint w)" by (simp only: of_int_sint)
    then have "(if ?s <s 0 then - ?s else ?s) = word_of_int \<bar>sint w\<bar>" using neg by (auto simp: wi_hom_neg)
    moreover have "\<bar>sint w\<bar> < 2 ^ 64" using range by simp
    ultimately show ?thesis by (simp add: unat_eq_nat_uint word_of_int_inverse take_bit_int_eq_self)
  qed
  have "nat \<bar>sint w\<bar> < 10 ^ 10" using range by simp
  then have "length (numeral_chars 10 (nat \<bar>sint w\<bar>)) \<le> 10" by (rule numeral_length)
  then have "length (numeral_chars 10 (nat \<bar>sint w\<bar>)) + (if sint w < 0 then 1 else 0) \<le> nat (sz - 1)"
    using assms(1) by auto
  then have "num_output (nat (sz - 1)) ?s 10 True 0 32 =
      numeral_chars 10 (nat \<bar>sint w\<bar>) @ (if sint w < 0 then [45] else [])"
    using num_output_unpadded [of 10 True ?s "nat (sz - 1)" 32] by (simp add: neg mag [simplified neg])
  moreover have "num_value True 4 (ucast w) = ?s"
    by (simp add: num_value_def)
  ultimately show "vsnprintf sz [37, 100] [Num_Arg (ucast w)] b =
      (let out = (if sint w < 0 then numeral_chars 10 (nat (- sint w)) @ [45] else numeral_chars 10 (nat (sint w)))
       in Inr (length out, out @ 0 # drop (Suc (length out)) b))"
    using vsnprintf_one [of sz b 100 "ucast w"] assms by (simp add: Let_def)
  show "digits_value 10 (digits_of 10 (unat w)) = unat w" by (rule digits_value_digits_of)
  show "0 < unat w \<longrightarrow> hd (digits_of 10 (unat w)) \<noteq> 0" using digits_of_hd by simp
qed

lemma printf_output_witness:
  "vsnprintf 12 [37, 117] [Num_Arg (ucast (42 :: u32))] (replicate 12 1) = Inr (2, [52, 50, 0] @ replicate 9 1) \<and>
   vsnprintf 12 [37, 100] [Num_Arg (ucast (- 5 :: u32))] (replicate 12 1) = Inr (2, [53, 45, 0] @ replicate 9 1)"
proof -
  have d: "numeral_chars 10 42 = [52, 50]" "numeral_chars 10 5 = [53]"
    by (simp_all add: numeral_chars_def digits_of.simps digit_char_def)
  have "sint (- 5 :: u32) = - 5" by code_simp
  then show ?thesis
    using printf_output [of 12 "replicate 12 1" "[]" "[]" 42] printf_output [of 12 "replicate 12 1" "[]" "[]" "- 5"]
    by (simp add: d Let_def)
qed

end
