(* ===== verification/Cmdline.thy ===== *)
theory Cmdline imports KString Page_Init Simple_Alloc Sched_Algos begin

text \<open>
  The kernel command line (infos/util/cmdline.cpp), the settings that its registered arguments
  store (kernel.cpp, sched.cpp, mm.cpp, page-allocator.cpp, object-allocator.cpp, devices.cpp) and
  the choice of the page allocation and scheduling algorithms by name. The command line is the list
  of its bytes before the terminator.
\<close>

section \<open>Parsing\<close>

fun skip_spaces :: "u8 list \<Rightarrow> u8 list" where
  "skip_spaces [] = []"
| "skip_spaces (c # cs) = (if c = 32 then skip_spaces cs else c # cs)"

text \<open>One setting is copied into an array of 128 bytes, without a test of its length.\<close>

fun copy_setting :: "u8 list \<Rightarrow> u8 list \<Rightarrow> (u8 list \<times> u8 list) res" where
  "copy_setting [] setting = Inr (setting, [])"
| "copy_setting (c # cs) setting =
     (if c = 32 then Inr (setting, c # cs)
      else if length setting < 128 then copy_setting cs (setting @ [c])
      else Inl Out_Of_Bounds)"

fun read_key :: "u8 list \<Rightarrow> u8 list \<Rightarrow> u8 list \<times> u8 list" where
  "read_key [] key = (key, [])"
| "read_key (c # cs) key =
     (if c \<noteq> 61 \<and> length key < 63 then read_key cs (key @ [c]) else (key, c # cs))"

fun read_setting_value :: "u8 list \<Rightarrow> u8 list \<Rightarrow> u8 list" where
  "read_setting_value [] v = v"
| "read_setting_value (c # cs) v =
     (if length v < 63 then
        (if c = 61 then read_setting_value cs v else read_setting_value cs (v @ [c]))
      else v)"

text \<open>The registered arguments, in the order of the linker section; an entry may have no name.\<close>

type_synonym 's registration = "u8 list option \<times> (u8 list \<Rightarrow> 's \<Rightarrow> 's res)"

fun find_registration :: "'s registration list \<Rightarrow> u8 list \<Rightarrow> (u8 list \<Rightarrow> 's \<Rightarrow> 's res) option res" where
  "find_registration [] key = Inr None"
| "find_registration ((m, f) # regs) key =
     (case m of
        None \<Rightarrow> find_registration regs key
      | Some nm \<Rightarrow>
          res_bind (kstrncmp nm key 256) (\<lambda>r.
            if r = 0 then Inr (Some f) else find_registration regs key))"

definition process_setting :: "'s registration list \<Rightarrow> u8 list \<Rightarrow> 's \<Rightarrow> 's res" where
  "process_setting regs setting s =
     (let (key, rest) = read_key setting [];
          v = read_setting_value rest []
      in res_bind (find_registration regs (key @ [0])) (\<lambda>reg.
           case reg of None \<Rightarrow> Inr s | Some f \<Rightarrow> f (v @ [0]) s))"

lemma copy_setting_rest:
  "copy_setting cs setting = Inr (setting', rest) \<Longrightarrow>
   \<exists>tok. setting' = setting @ tok \<and> length rest + length tok = length cs"
proof (induction cs arbitrary: setting)
  case (Cons c cs)
  show ?case
  proof (cases "c = 32 \<or> \<not> length setting < 128")
    case True
    then show ?thesis using Cons.prems by (auto split: if_splits)
  next
    case False
    then have "copy_setting cs (setting @ [c]) = Inr (setting', rest)" using Cons.prems by simp
    from Cons.IH [OF this] obtain tok where "setting' = setting @ c # tok" "length rest + length tok = length cs" by auto
    then show ?thesis by (intro exI [of _ "c # tok"]) simp
  qed
qed simp

lemma skip_spaces_length: "length (skip_spaces cs) \<le> length cs"
  by (induction cs) auto

text \<open>The terminator of the setting is written behind its last byte.\<close>

function parse_cmdline :: "'s registration list \<Rightarrow> u8 list \<Rightarrow> 's \<Rightarrow> 's res" where
  "parse_cmdline regs cs s =
     (if cs = [] then Inr s
      else case copy_setting (skip_spaces cs) [] of
          Inl e \<Rightarrow> Inl e
        | Inr (setting, rest) \<Rightarrow>
            if length setting \<ge> 128 then Inl Out_Of_Bounds
            else if setting = [] then Inr s
            else res_bind (process_setting regs setting s) (parse_cmdline regs rest))"
  by pat_completeness auto

termination parse_cmdline
proof (relation "measure (\<lambda>(regs, cs, s). length cs)", simp, goal_cases)
  case (1 regs cs s x setting rest s')
  from copy_setting_rest [of "skip_spaces cs" "[]" setting rest] 1
  have "length rest + length setting = length (skip_spaces cs)" by (auto simp: sum.case_eq_if)
  then show ?case using 1 skip_spaces_length [of cs] by (cases setting) auto
qed

declare parse_cmdline.simps [simp del]

section \<open>The settings\<close>

record kernel_settings =
  pgalloc_algorithm :: "u8 list"
  sched_algorithm :: "u8 list"
  boot_device_name :: "u8 list"
  boot_fstype :: "u8 list"
  init_program :: "u8 list"
  pgalloc_self_test :: bool
  pgalloc_log_enabled :: bool
  objalloc_log_enabled :: bool
  sched_log_enabled :: bool
  syslog_to_serial :: bool

text \<open>The static arrays start with zeros.\<close>

definition initial_settings :: kernel_settings where
  "initial_settings =
     \<lparr>pgalloc_algorithm = replicate 32 0, sched_algorithm = replicate 32 0,
      boot_device_name = replicate 16 0, boot_fstype = replicate 16 0, init_program = replicate 16 0,
      pgalloc_self_test = False, pgalloc_log_enabled = True, objalloc_log_enabled = True,
      sched_log_enabled = True, syslog_to_serial = False\<rparr>"

definition arg_pgalloc_algorithm :: "u8 list \<Rightarrow> kernel_settings \<Rightarrow> kernel_settings res" where
  "arg_pgalloc_algorithm v s =
     res_bind (kstrncpy (pgalloc_algorithm s) v 31) (\<lambda>(b, _). Inr (s\<lparr>pgalloc_algorithm := b\<rparr>))"

definition arg_sched_algorithm :: "u8 list \<Rightarrow> kernel_settings \<Rightarrow> kernel_settings res" where
  "arg_sched_algorithm v s =
     res_bind (kstrncpy (sched_algorithm s) v 31) (\<lambda>(b, _). Inr (s\<lparr>sched_algorithm := b\<rparr>))"

definition arg_boot_device :: "u8 list \<Rightarrow> kernel_settings \<Rightarrow> kernel_settings res" where
  "arg_boot_device v s =
     res_bind (kstrncpy (boot_device_name s) v 15) (\<lambda>(b, _). Inr (s\<lparr>boot_device_name := b\<rparr>))"

definition arg_boot_fstype :: "u8 list \<Rightarrow> kernel_settings \<Rightarrow> kernel_settings res" where
  "arg_boot_fstype v s =
     res_bind (kstrncpy (boot_fstype s) v 15) (\<lambda>(b, _). Inr (s\<lparr>boot_fstype := b\<rparr>))"

definition arg_init_program :: "u8 list \<Rightarrow> kernel_settings \<Rightarrow> kernel_settings res" where
  "arg_init_program v s =
     res_bind (kstrncpy (init_program s) v 15) (\<lambda>(b, _). Inr (s\<lparr>init_program := b\<rparr>))"

definition arg_pgalloc_self_test :: "u8 list \<Rightarrow> kernel_settings \<Rightarrow> kernel_settings res" where
  "arg_pgalloc_self_test v s =
     res_bind (kstrncmp v (bytes_of ''1'' @ [0]) 2) (\<lambda>r. Inr (s\<lparr>pgalloc_self_test := (r = 0)\<rparr>))"

definition arg_pgalloc_debug :: "u8 list \<Rightarrow> kernel_settings \<Rightarrow> kernel_settings res" where
  "arg_pgalloc_debug v s =
     res_bind (kstrncmp v (bytes_of ''1'' @ [0]) 1) (\<lambda>r. Inr (s\<lparr>pgalloc_log_enabled := (r = 0)\<rparr>))"

definition arg_objalloc_debug :: "u8 list \<Rightarrow> kernel_settings \<Rightarrow> kernel_settings res" where
  "arg_objalloc_debug v s =
     res_bind (kstrncmp v (bytes_of ''1'' @ [0]) 1) (\<lambda>r. Inr (s\<lparr>objalloc_log_enabled := (r = 0)\<rparr>))"

definition arg_sched_debug :: "u8 list \<Rightarrow> kernel_settings \<Rightarrow> kernel_settings res" where
  "arg_sched_debug v s =
     res_bind (kstrncmp v (bytes_of ''1'' @ [0]) 1) (\<lambda>r. Inr (s\<lparr>sched_log_enabled := (r = 0)\<rparr>))"

definition arg_syslog :: "u8 list \<Rightarrow> kernel_settings \<Rightarrow> kernel_settings res" where
  "arg_syslog v s =
     res_bind (kstrncmp v (bytes_of ''serial'' @ [0]) 6) (\<lambda>r. Inr (s\<lparr>syslog_to_serial := (r = 0)\<rparr>))"

text \<open>The names differ, so the order in which the linker places the registrations does not matter.\<close>

definition kernel_registrations :: "kernel_settings registration list" where
  "kernel_registrations =
     map (\<lambda>(nm, f). (Some (bytes_of nm @ [0]), f))
      [(''pgalloc.algorithm'', arg_pgalloc_algorithm), (''pgalloc.debug'', arg_pgalloc_debug),
       (''pgalloc.self-test'', arg_pgalloc_self_test), (''objalloc.debug'', arg_objalloc_debug),
       (''sched.algorithm'', arg_sched_algorithm), (''sched.debug'', arg_sched_debug),
       (''boot-device'', arg_boot_device), (''boot-fs-type'', arg_boot_fstype),
       (''init'', arg_init_program), (''syslog'', arg_syslog)]"

definition kernel_early_init :: "u8 list \<Rightarrow> kernel_settings res" where
  "kernel_early_init cmdline = parse_cmdline kernel_registrations cmdline initial_settings"

section \<open>The choice of the algorithms\<close>

text \<open>The loop over the registered algorithms; the last one with the name is the candidate.\<close>

fun search_algorithm :: "(u8 list \<times> 'a) list \<Rightarrow> u8 list \<Rightarrow> 'a option \<Rightarrow> 'a option res" where
  "search_algorithm [] name candidate = Inr candidate"
| "search_algorithm ((nm, a) # algs) name candidate =
     res_bind (kstrncmp nm name 31) (\<lambda>r. search_algorithm algs name (if r = 0 then Some a else candidate))"

definition acquire_algorithm :: "(u8 list \<times> 'a) list \<Rightarrow> u8 list \<Rightarrow> 'a option res" where
  "acquire_algorithm algs name =
     res_bind (kstrlen (Some name)) (\<lambda>n. if n = 0 then Inr None else search_algorithm algs name None)"

definition page_algorithms :: "(u8 list \<times> page_algo) list" where
  "page_algorithms = [(bytes_of ''buddy'' @ [0], buddy_algo), (bytes_of ''simple'' @ [0], simple_algo)]"

definition sched_algorithms :: "(u8 list \<times> sched_algo) list" where
  "sched_algorithms =
     [(bytes_of ''fifo'' @ [0], fifo_algo), (bytes_of ''rr'' @ [0], rr_algo), (bytes_of ''cfs'' @ [0], cfs_algo)]"

definition acquire_page_allocator_algorithm :: "kernel_settings \<Rightarrow> page_algo option res" where
  "acquire_page_allocator_algorithm s = acquire_algorithm page_algorithms (pgalloc_algorithm s)"

definition acquire_scheduler_algorithm :: "kernel_settings \<Rightarrow> sched_algo option res" where
  "acquire_scheduler_algorithm s = acquire_algorithm sched_algorithms (sched_algorithm s)"

text \<open>\<open>initialise_allocators\<close>; the object allocator has nothing to initialise.\<close>

definition initialise_allocators ::
    "kernel_settings \<Rightarrow> mem_mgr \<Rightarrow> kernel_image \<Rightarrow> pmem \<Rightarrow> (bool \<times> pmem) res" where
  "initialise_allocators s mm ki m =
     res_bind (acquire_page_allocator_algorithm s) (\<lambda>algo.
       case algo of None \<Rightarrow> Inr (False, m)
       | Some A \<Rightarrow> pgalloc_init (Some A) (pgalloc_self_test s) mm ki m)"

end
