(* ===== verification/Kernel_Paging.thy ===== *)
theory Kernel_Paging imports Cmdline VMA_Bits begin

text \<open>
  The start of the memory management of the architecture (infos/arch/x86/mm.cpp): the memory map of
  the boot loader becomes physical memory blocks, the allocators start, and the kernel gets page
  tables of its own, which map physical memory in large pages of 2 MB.
\<close>

section \<open>The page tables of the kernel\<close>

definition table_entry :: "u64 \<Rightarrow> u64" where
  "table_entry addr = (addr AND NOT 0xfff) OR 0x003"

definition large_entry :: "u64 \<Rightarrow> u64" where
  "large_entry addr = (addr AND NOT 0xfff) OR 0x083"

text \<open>The physical addresses of the tables, as the code gets them: through the kernel window.\<close>

fun table_addrs :: "nat \<Rightarrow> nat \<Rightarrow> u64 list res" where
  "table_addrs pgd 0 = Inr []"
| "table_addrs pgd (Suc n) =
     res_bind (pa_to_kva (pgd_to_pa pgd)) (\<lambda>va.
     res_bind (kva_to_pa va) (\<lambda>pa.
     res_bind (table_addrs (Suc pgd) n) (\<lambda>pas. Inr (pa # pas))))"

text \<open>The loops that fill page directories from index \<open>i\<close> on with \<open>n\<close> entries.\<close>

fun fill_kernel_dirs :: "u64 \<Rightarrow> u64 \<Rightarrow> nat \<Rightarrow> nat \<Rightarrow> u64 \<Rightarrow> (u64 \<Rightarrow> u64) \<Rightarrow> (u64 \<Rightarrow> u64)" where
  "fill_kernel_dirs pd0 pd1 i 0 addr mem = mem"
| "fill_kernel_dirs pd0 pd1 i (Suc n) addr mem =
     fill_kernel_dirs pd0 pd1 (Suc i) n (addr + 0x200000)
       (mem(entry_addr pd0 (of_nat i) := large_entry addr,
            entry_addr pd1 (of_nat i) := large_entry (addr + 0x40000000)))"

fun fill_phys_dir :: "u64 \<Rightarrow> nat \<Rightarrow> nat \<Rightarrow> u64 \<Rightarrow> (u64 \<Rightarrow> u64) \<Rightarrow> u64 \<times> (u64 \<Rightarrow> u64)" where
  "fill_phys_dir pd i 0 addr mem = (addr, mem)"
| "fill_phys_dir pd i (Suc n) addr mem =
     fill_phys_dir pd (Suc i) n (addr + 0x200000) (mem(entry_addr pd (of_nat i) := large_entry addr))"

definition kernel_tables :: "u64 list \<Rightarrow> (u64 \<Rightarrow> u64) \<Rightarrow> (u64 \<Rightarrow> u64)" where
  "kernel_tables t mem =
     (let mem = pnzero mem (t ! 0) 16;
          mem = mem(entry_addr (t ! 0) 0x1ff := table_entry (t ! 1), entry_addr (t ! 0) 0x100 := table_entry (t ! 2));
          mem = mem(entry_addr (t ! 1) 0x1fe := table_entry (t ! 3), entry_addr (t ! 1) 0x1ff := table_entry (t ! 4));
          mem = mem(entry_addr (t ! 2) 0 := table_entry (t ! 5), entry_addr (t ! 2) 1 := table_entry (t ! 6),
                    entry_addr (t ! 2) 2 := table_entry (t ! 7), entry_addr (t ! 2) 3 := table_entry (t ! 8));
          mem = fill_kernel_dirs (t ! 3) (t ! 4) 0 0x200 0 mem;
          (addr, mem) = fill_phys_dir (t ! 5) 0 0x200 0 mem;
          (addr, mem) = fill_phys_dir (t ! 6) 0 0x200 addr mem;
          (addr, mem) = fill_phys_dir (t ! 7) 0 0x200 addr mem;
          (addr, mem) = fill_phys_dir (t ! 8) 0 0x200 addr mem
      in mem)"

text \<open>The result also holds the base of the page tables that the processor uses from now on.\<close>

definition reinitialise_pgt :: "page_algo option \<Rightarrow> machine \<Rightarrow> (u64 option \<times> machine) res" where
  "reinitialise_pgt A m =
     res_bind (pgalloc_alloc A (mem_pages m) 4) (\<lambda>(pgd, pm).
     case pgd of
       None \<Rightarrow> Inr (None, m\<lparr>mem_pages := pm\<rparr>)
     | Some p \<Rightarrow>
         res_bind (table_addrs p 9) (\<lambda>t.
         res_bind (pgd_to_vpa p) (\<lambda>_.
           Inr (Some (t ! 0), m\<lparr>mem_pages := pm, phys_mem := kernel_tables t (phys_mem m)\<rparr>))))"

section \<open>The memory map\<close>

record mmap_entry =
  mb_addr :: u64
  mb_len :: u64
  mb_type :: u32

definition mmap_type :: "u32 \<Rightarrow> memory_type option" where
  "mmap_type t = (if t = 1 then Some NORMAL else if t = 2 then Some UNUSABLE else None)"

fun add_mmap :: "mmap_entry list \<Rightarrow> mem_mgr \<Rightarrow> mem_mgr" where
  "add_mmap [] mm = mm"
| "add_mmap (e # es) mm =
     add_mmap es
       (if mb_len e AND NOT 0xfff \<noteq> 0 then
          (case mmap_type (mb_type e) of
             None \<Rightarrow> mm
           | Some t \<Rightarrow> add_physical_memory mm (mb_addr e) (ucast (drop_bit 12 (mb_len e))) t)
        else mm)"

text \<open>The page tables are allocated with the algorithm that the start of the allocators installed.\<close>

definition mm_init ::
    "kernel_settings \<Rightarrow> mmap_entry list \<Rightarrow> kernel_image \<Rightarrow> mem_mgr \<Rightarrow> machine \<Rightarrow> (bool \<times> u64 option \<times> machine) res" where
  "mm_init s es ki mm m =
     res_bind (initialise_allocators s (add_mmap es mm) ki (mem_pages m)) (\<lambda>(ok, pm).
       let m1 = m\<lparr>mem_pages := pm\<rparr> in
       if \<not> ok then Inr (False, None, m1)
       else res_bind (acquire_page_allocator_algorithm s) (\<lambda>A.
            res_bind (reinitialise_pgt A m1) (\<lambda>(base, m2). Inr (base \<noteq> None, base, m2))))"

section \<open>Reading the tables\<close>

lemma table_addrs_eq:
  "p + n \<le> 2 ^ 19 - 1 \<Longrightarrow> table_addrs p n = Inr (map pgd_to_pa [p..<p + n])"
proof (induction n arbitrary: p)
  case (Suc n)
  have u: "unat (pgd_to_pa p) = 4096 * p" using Suc.prems by (intro unat_pgd_to_pa) simp
  have s: "unat (KERNEL_VMEM_START + pgd_to_pa p) = 0xFFFFFFFF80000000 + 4096 * p"
    using Suc.prems by (simp add: KERNEL_VMEM_START_def unat_word_ariths u)
  have kva: "pa_to_kva (pgd_to_pa p) = Inr (KERNEL_VMEM_START + pgd_to_pa p)"
    using Suc.prems by (simp add: pa_to_kva_def KERNEL_VMEM_SIZE_def KERNEL_VMEM_END_def KERNEL_VMEM_START_def
        word_less_nat_alt u)
  have "KERNEL_VMEM_START \<le> KERNEL_VMEM_START + pgd_to_pa p" "KERNEL_VMEM_START + pgd_to_pa p \<le> KERNEL_VMEM_END"
    using Suc.prems by (simp_all only: word_le_nat_alt s) (simp_all add: KERNEL_VMEM_START_def KERNEL_VMEM_END_def)
  then have pa: "kva_to_pa (KERNEL_VMEM_START + pgd_to_pa p) = Inr (pgd_to_pa p)"
    by (simp add: kva_to_pa_def)
  have "table_addrs (Suc p) n = Inr (map pgd_to_pa [Suc p..<Suc p + n])"
    using Suc.prems by (intro Suc.IH) simp
  moreover have "[p..<p + Suc n] = p # [Suc p..<Suc p + n]" by (simp add: upt_conv_Cons del: upt_Suc)
  ultimately show ?case using kva pa by (simp del: upt_Suc)
qed simp

lemma fill_phys_dir_addr: "fst (fill_phys_dir pd i n addr mem) = addr + of_nat n * 0x200000"
  by (induction n arbitrary: i addr mem) (simp_all add: algebra_simps)

lemma entry_at:
  assumes "r < 2 ^ 50" "q < 2 ^ 50" "unat j < 512" "i < 512"
  shows "entry_addr (pgd_to_pa r) j = entry_addr (pgd_to_pa q) (of_nat i) \<longleftrightarrow> r = q \<and> unat j = i"
proof -
  have "unat (of_nat i :: u16) = i" using assms(4) by (simp add: unsigned_of_nat take_bit_nat_eq_self)
  then show ?thesis using assms entry_addr_inj [of r q j "of_nat i"] by (auto simp: word_unat_eq_iff)
qed

lemma large_step: "i < k \<Longrightarrow> addr + 0x200000 + of_nat (k - Suc i) * 0x200000 = addr + of_nat (k - i) * (0x200000 :: u64)"
  by (simp add: Suc_diff_Suc [symmetric, of i k] algebra_simps)

lemma fill_phys_dir_read:
  assumes "q < 2 ^ 50" "r < 2 ^ 50" "unat j < 512" "i + n \<le> 512"
  shows "snd (fill_phys_dir (pgd_to_pa q) i n addr mem) (entry_addr (pgd_to_pa r) j) =
    (if r = q \<and> i \<le> unat j \<and> unat j < i + n then large_entry (addr + of_nat (unat j - i) * 0x200000)
     else mem (entry_addr (pgd_to_pa r) j))"
  using assms(4)
proof (induction n arbitrary: i addr mem)
  case (Suc n)
  have IH: "snd (fill_phys_dir (pgd_to_pa q) i (Suc n) addr mem) (entry_addr (pgd_to_pa r) j) =
    (if r = q \<and> Suc i \<le> unat j \<and> unat j < Suc i + n then large_entry (addr + 0x200000 + of_nat (unat j - Suc i) * 0x200000)
     else (mem(entry_addr (pgd_to_pa q) (of_nat i) := large_entry addr)) (entry_addr (pgd_to_pa r) j))"
    using Suc.IH [of "Suc i"] Suc.prems by simp
  have "i < 512" using Suc.prems by simp
  show ?case unfolding IH fun_upd_apply entry_at [OF assms(2,1,3) \<open>i < 512\<close>]
    using large_step [of i "unat j" addr] by (cases "unat j = i") auto
qed auto

lemma fill_kernel_dirs_read:
  assumes "q0 < 2 ^ 50" "q1 < 2 ^ 50" "r < 2 ^ 50" "unat j < 512" "i + n \<le> 512" "q0 \<noteq> q1"
  shows "fill_kernel_dirs (pgd_to_pa q0) (pgd_to_pa q1) i n addr mem (entry_addr (pgd_to_pa r) j) =
    (if i \<le> unat j \<and> unat j < i + n \<and> r = q0 then large_entry (addr + of_nat (unat j - i) * 0x200000)
     else if i \<le> unat j \<and> unat j < i + n \<and> r = q1 then large_entry (addr + of_nat (unat j - i) * 0x200000 + 0x40000000)
     else mem (entry_addr (pgd_to_pa r) j))"
  using assms(5)
proof (induction n arbitrary: i addr mem)
  case (Suc n)
  let ?mem = "mem(entry_addr (pgd_to_pa q0) (of_nat i) := large_entry addr,
            entry_addr (pgd_to_pa q1) (of_nat i) := large_entry (addr + 0x40000000))"
  have IH: "fill_kernel_dirs (pgd_to_pa q0) (pgd_to_pa q1) i (Suc n) addr mem (entry_addr (pgd_to_pa r) j) =
    (if Suc i \<le> unat j \<and> unat j < Suc i + n \<and> r = q0
     then large_entry (addr + 0x200000 + of_nat (unat j - Suc i) * 0x200000)
     else if Suc i \<le> unat j \<and> unat j < Suc i + n \<and> r = q1
     then large_entry (addr + 0x200000 + of_nat (unat j - Suc i) * 0x200000 + 0x40000000)
     else ?mem (entry_addr (pgd_to_pa r) j))"
    using Suc.prems by (simp only: fill_kernel_dirs.simps Suc.IH [of "Suc i" "addr + 0x200000" ?mem])
  have "i < 512" using Suc.prems by simp
  show ?case unfolding IH fun_upd_apply entry_at [OF assms(3,1,4) \<open>i < 512\<close>] entry_at [OF assms(3,2,4) \<open>i < 512\<close>]
    using large_step [of i "unat j" addr] assms(6) by (cases "unat j = i") auto
qed auto

end
