(* ===== verification/Kernel_Paging_Spec.thy ===== *)
theory Kernel_Paging_Spec imports Kernel_Paging begin

text \<open>
  The address translation that the page tables of the kernel give: the processor's walk through four
  levels, with large pages, and what it finds for the windows onto physical memory.
\<close>

section \<open>The walk of the processor\<close>

definition hw_base :: "u64 \<Rightarrow> u64" where
  "hw_base e = e AND 0x000FFFFFFFFFF000"

definition hw_walk :: "(u64 \<Rightarrow> u64) \<Rightarrow> u64 \<Rightarrow> u64 \<Rightarrow> u64 option" where
  "hw_walk mem cr3 va =
     (let (i1, i2, i3, i4) = va_table_indicies va;
          e1 = mem (entry_addr (hw_base cr3) i1)
      in if \<not> bit e1 0 then None
         else let e2 = mem (entry_addr (hw_base e1) i2)
         in if \<not> bit e2 0 then None
            else if bit e2 7 then Some ((e2 AND 0x000FFFFFC0000000) + (va AND 0x3FFFFFFF))
            else let e3 = mem (entry_addr (hw_base e2) i3)
            in if \<not> bit e3 0 then None
               else if bit e3 7 then Some ((e3 AND 0x000FFFFFFFE00000) + (va AND 0x1FFFFF))
               else let e4 = mem (entry_addr (hw_base e3) i4)
               in if \<not> bit e4 0 then None else Some (hw_base e4 + (va AND 0xFFF)))"

section \<open>The contents of the tables\<close>

definition pd_base :: "nat \<Rightarrow> nat \<Rightarrow> nat" where
  "pd_base k j = k * 0x40000000 + j * 0x200000"

lemma kernel_tables_read:
  fixes p :: nat and j :: u16 and mem :: "u64 \<Rightarrow> u64"
  assumes p: "p + 9 \<le> 2 ^ 19" and j: "unat j < 512"
  defines "t \<equiv> map pgd_to_pa [p..<p + 9]"
  defines "rd k \<equiv> kernel_tables t mem (entry_addr (pgd_to_pa (p + k)) j)"
  shows "rd 0 = (if unat j = 0x1ff then table_entry (pgd_to_pa (p + 1))
      else if unat j = 0x100 then table_entry (pgd_to_pa (p + 2)) else 0)"
    and "rd 1 = (if unat j = 0x1fe then table_entry (pgd_to_pa (p + 3))
      else if unat j = 0x1ff then table_entry (pgd_to_pa (p + 4)) else 0)"
    and "rd 2 = (if unat j < 4 then table_entry (pgd_to_pa (p + 5 + unat j)) else 0)"
    and "rd 3 = large_entry (of_nat (pd_base 0 (unat j)))"
    and "rd 4 = large_entry (of_nat (pd_base 1 (unat j)))"
    and "k < 4 \<Longrightarrow> rd (5 + k) = large_entry (of_nat (pd_base k (unat j)))"
proof -
  have tn: "t ! k = pgd_to_pa (p + k)" if "k < 9" for k using that by (simp add: t_def del: upt_Suc)
  have lt: "k < 9 \<Longrightarrow> p + k < 2 ^ 50" for k using p by simp
  define m1 where "m1 = pnzero mem (t ! 0) 16"
  define m2 where "m2 = m1(entry_addr (t ! 0) 0x1ff := table_entry (t ! 1), entry_addr (t ! 0) 0x100 := table_entry (t ! 2))"
  define m3 where "m3 = m2(entry_addr (t ! 1) 0x1fe := table_entry (t ! 3), entry_addr (t ! 1) 0x1ff := table_entry (t ! 4))"
  define m4 where "m4 = m3(entry_addr (t ! 2) 0 := table_entry (t ! 5), entry_addr (t ! 2) 1 := table_entry (t ! 6),
                    entry_addr (t ! 2) 2 := table_entry (t ! 7), entry_addr (t ! 2) 3 := table_entry (t ! 8))"
  define m5 where "m5 = fill_kernel_dirs (t ! 3) (t ! 4) 0 0x200 0 m4"
  define m6 where "m6 = snd (fill_phys_dir (t ! 5) 0 0x200 0 m5)"
  define m7 where "m7 = snd (fill_phys_dir (t ! 6) 0 0x200 0x40000000 m6)"
  define m8 where "m8 = snd (fill_phys_dir (t ! 7) 0 0x200 0x80000000 m7)"
  define m9 where "m9 = snd (fill_phys_dir (t ! 8) 0 0x200 0xC0000000 m8)"
  have eq: "kernel_tables t mem = m9"
    by (simp add: kernel_tables_def Let_def m9_def m8_def m7_def m6_def m5_def m4_def m3_def m2_def m1_def
        fill_phys_dir_addr split_beta)
  have inj: "entry_addr (pgd_to_pa (p + a)) j = entry_addr (pgd_to_pa (p + b)) (of_nat i) \<longleftrightarrow> a = b \<and> unat j = i"
    if "a < 9" "b < 9" "i < 512" for a b i
    using entry_at [OF lt [OF that(1)] lt [OF that(2)] j that(3)] by simp
  note inj_num = inj [of _ _ "0x1ff", simplified] inj [of _ _ "0x100", simplified] inj [of _ _ "0x1fe", simplified]
    inj [of _ _ 0, simplified] inj [of _ _ 1, simplified] inj [of _ _ 2, simplified] inj [of _ _ 3, simplified]
  have r9: "m9 (entry_addr (pgd_to_pa (p + a)) j) =
      (if 5 \<le> a then large_entry (of_nat (pd_base (a - 5) (unat j)))
       else if a = 3 then large_entry (of_nat (pd_base 0 (unat j)))
       else if a = 4 then large_entry (of_nat (pd_base 1 (unat j)))
       else m4 (entry_addr (pgd_to_pa (p + a)) j))" if "a < 9" for a
  proof -
    have phys: "snd (fill_phys_dir (t ! b) 0 0x200 addr mm) (entry_addr (pgd_to_pa (p + a)) j) =
        (if a = b then large_entry (addr + of_nat (unat j) * 0x200000) else mm (entry_addr (pgd_to_pa (p + a)) j))"
      if "b < 9" for b addr mm
      using fill_phys_dir_read [OF lt [OF that] lt [OF \<open>a < 9\<close>] j, of 0 512 addr mm] j that by (simp add: tn)
    have kern: "m5 (entry_addr (pgd_to_pa (p + a)) j) =
        (if a = 3 then large_entry (of_nat (unat j) * 0x200000)
         else if a = 4 then large_entry (of_nat (unat j) * 0x200000 + 0x40000000) else m4 (entry_addr (pgd_to_pa (p + a)) j))"
      using fill_kernel_dirs_read [OF lt lt lt j, of 3 4 a 0 512 0 m4] j that by (simp add: m5_def tn)
    have step: "m9 (entry_addr (pgd_to_pa (p + a)) j) =
        (if a = 8 then large_entry (0xC0000000 + of_nat (unat j) * 0x200000)
         else if a = 7 then large_entry (0x80000000 + of_nat (unat j) * 0x200000)
         else if a = 6 then large_entry (0x40000000 + of_nat (unat j) * 0x200000)
         else if a = 5 then large_entry (0 + of_nat (unat j) * 0x200000)
         else m5 (entry_addr (pgd_to_pa (p + a)) j))"
      unfolding m9_def m8_def m7_def m6_def by (simp only: phys [of 8, simplified] phys [of 7, simplified]
          phys [of 6, simplified] phys [of 5, simplified])
    consider "a < 3" | "a = 3" | "a = 4" | "a = 5" | "a = 6" | "a = 7" | "a = 8" using \<open>a < 9\<close> by linarith
    then show ?thesis
      using step kern by cases (simp_all add: pd_base_def add.commute)
  qed
  have zero: "m1 (entry_addr (pgd_to_pa (p + a)) j) = 0" if "a < 9" for a
    using pnzero_entry [OF lt [OF that] lt [of 0] j, of mem 16] that by (simp add: m1_def tn)
  have m4: "m4 (entry_addr (pgd_to_pa (p + a)) j) =
      (if a = 0 then (if unat j = 0x1ff then table_entry (pgd_to_pa (p + 1))
         else if unat j = 0x100 then table_entry (pgd_to_pa (p + 2)) else 0)
       else if a = 1 then (if unat j = 0x1fe then table_entry (pgd_to_pa (p + 3))
         else if unat j = 0x1ff then table_entry (pgd_to_pa (p + 4)) else 0)
       else (if unat j < 4 then table_entry (pgd_to_pa (p + 5 + unat j)) else 0))" if "a < 3" for a
  proof -
    have small: "unat j < 4 \<longleftrightarrow> unat j = 0 \<or> unat j = 1 \<or> unat j = 2 \<or> unat j = 3" by linarith
    consider "a = 0" | "a = 1" | "a = 2" using \<open>a < 3\<close> by linarith
    then show ?thesis
      using zero [of a] that inj_num [of a 0] inj_num [of a 1] inj_num [of a 2]
      by cases (simp_all add: m4_def m3_def m2_def tn small, simp_all add: add.commute)
  qed
  show "rd 0 = (if unat j = 0x1ff then table_entry (pgd_to_pa (p + 1))
      else if unat j = 0x100 then table_entry (pgd_to_pa (p + 2)) else 0)"
    using r9 [of 0] m4 [of 0] by (simp add: rd_def eq)
  show "rd 1 = (if unat j = 0x1fe then table_entry (pgd_to_pa (p + 3))
      else if unat j = 0x1ff then table_entry (pgd_to_pa (p + 4)) else 0)"
    using r9 [of 1] m4 [of 1] by (simp add: rd_def eq)
  show "rd 2 = (if unat j < 4 then table_entry (pgd_to_pa (p + 5 + unat j)) else 0)"
    using r9 [of 2] m4 [of 2] by (simp add: rd_def eq)
  show "rd 3 = large_entry (of_nat (pd_base 0 (unat j)))" using r9 [of 3] by (simp add: rd_def eq)
  show "rd 4 = large_entry (of_nat (pd_base 1 (unat j)))" using r9 [of 4] by (simp add: rd_def eq)
  show "k < 4 \<Longrightarrow> rd (5 + k) = large_entry (of_nat (pd_base k (unat j)))" using r9 [of "5 + k"] by (simp add: rd_def eq)
qed

section \<open>Entries\<close>

lemma word_consts:
  "(0xfff :: u64) = mask 12" "(3 :: u64) = mask 2"
  "(0x000FFFFFFFFFF000 :: u64) = mask 52 AND NOT (mask 12)"
  "(0x000FFFFFFFE00000 :: u64) = mask 52 AND NOT (mask 21)"
  "(0x1FFFFF :: u64) = mask 21"
  by (simp_all add: mask_eq_exp_minus_1)

lemma bit_of_nat_less:
  assumes "m < 2 ^ k" and "bit (of_nat m :: u64) n"
  shows "n < k"
proof -
  have "take_bit k m = m" using assms(1) by (simp add: take_bit_nat_eq_self)
  then have "bit (take_bit k m) n" using assms(2) by (simp add: bit_of_nat_iff)
  then show ?thesis by (simp add: bit_take_bit_iff)
qed

lemma bit_pgd_to_pa: "q < 2 ^ 40 \<Longrightarrow> bit (pgd_to_pa q) n \<Longrightarrow> 12 \<le> n \<and> n < 52"
  using bit_of_nat_less [of q 40 "n - 12"] by (auto simp: pgd_to_pa_def pfn_to_pa_def bit_push_bit_iff)

lemma bit_table_entry:
  "bit (table_entry a) n \<longleftrightarrow> n < 2 \<or> 12 \<le> n \<and> bit a n"
  unfolding table_entry_def word_consts
  using bit_imp_le_length [of a n] by (auto simp: bit_or_iff bit_and_iff bit_not_iff bit_mask_iff)

lemma hw_base_table: "q < 2 ^ 40 \<Longrightarrow> hw_base (table_entry (pgd_to_pa q)) = pgd_to_pa q"
  unfolding hw_base_def word_consts
  by (rule bit_word_eqI) (auto simp: bit_table_entry bit_and_iff bit_not_iff bit_mask_iff dest: bit_pgd_to_pa [simplified])

lemma hw_base_pgd: "q < 2 ^ 40 \<Longrightarrow> hw_base (pgd_to_pa q) = pgd_to_pa q"
  unfolding hw_base_def word_consts
  by (rule bit_word_eqI) (auto simp: bit_and_iff bit_not_iff bit_mask_iff dest: bit_pgd_to_pa [simplified])

lemma table_entry_flags:
  "bit (table_entry a) 0" "\<not> bit (table_entry a) 7"
  by (auto simp: bit_table_entry)

lemma large_entry_flags: "bit (large_entry a) 0" "bit (large_entry a) 7"
  by (simp_all add: large_entry_def bit_or_iff)

lemma large_entry_base:
  assumes "m < 2 ^ 31"
  shows "large_entry (of_nat (m * 0x200000)) AND 0x000FFFFFFFE00000 = of_nat (m * 0x200000)"
proof -
  have "of_nat (m * 0x200000) = (push_bit 21 (of_nat m) :: u64)" by (simp add: push_bit_eq_mult)
  then have bits: "bit (of_nat (m * 0x200000) :: u64) n \<Longrightarrow> 21 \<le> n \<and> n < 52" for n
    using bit_of_nat_less [OF assms, of "n - 21"] by (auto simp: bit_push_bit_iff)
  have "0x083 AND (0x000FFFFFFFE00000 :: u64) = 0" by simp
  then have "large_entry a AND 0x000FFFFFFFE00000 = a AND NOT 0xfff AND 0x000FFFFFFFE00000" for a
    by (simp add: large_entry_def bit.conj_disj_distrib2 and.assoc)
  moreover have "w AND NOT 0xfff AND 0x000FFFFFFFE00000 = w" if "\<And>n. bit w n \<Longrightarrow> 21 \<le> n \<and> n < 52" for w :: u64
    unfolding word_consts by (rule bit_word_eqI) (auto simp: bit_and_iff bit_not_iff bit_mask_iff dest: that)
  ultimately show ?thesis using bits by presburger
qed

section \<open>The windows\<close>

lemma window_indices:
  assumes "unat va = K * 2 ^ 39 + x" and "x < 2 ^ 39" and "va_table_indicies va = (i1, i2, i3, i4)"
  shows "unat i1 = K mod 512" "unat i2 = x div 2 ^ 30" "unat i3 = x div 2 ^ 21 mod 512"
    and "va AND 0x1FFFFF = of_nat (x mod 2 ^ 21)"
proof -
  have "(K * 2 ^ 39 + x) div 2 ^ 39 = K" using assms(2) by simp
  then show "unat i1 = K mod 512" using va_indices(1) [OF assms(3)] assms(1) by simp
  have "(K * 2 ^ 39 + x) div 2 ^ 30 = K * 512 + x div 2 ^ 30" by simp
  moreover have "x div 2 ^ 30 < 512" using assms(2) by simp
  ultimately show "unat i2 = x div 2 ^ 30" using va_indices(2) [OF assms(3)] assms(1) by simp
  have "(K * 2 ^ 39 + x) div 2 ^ 21 = K * 2 ^ 18 + x div 2 ^ 21" by simp
  moreover have "(K * 2 ^ 18 + y) mod 512 = y mod 512" for y
    using mod_mult_self3 [of "K * 512" 512 y] by (simp add: mult.assoc)
  ultimately show "unat i3 = x div 2 ^ 21 mod 512" using va_indices(3) [OF assms(3)] assms(1) by simp
  have "va AND 0x1FFFFF = take_bit 21 va" unfolding word_consts by (simp add: take_bit_eq_mask)
  also have "\<dots> = of_nat (unat (take_bit 21 va))" by simp
  also have "unat (take_bit 21 va) = (K * 2 ^ 39 + x) mod 2 ^ 21"
    by (simp only: unsigned_take_bit_eq assms(1)) (simp only: take_bit_eq_mod)
  also have "\<dots> = x mod 2 ^ 21"
    using mod_mult_self3 [of "K * 2 ^ 18" "2 ^ 21" x] by (simp add: mult.assoc)
  finally show "va AND 0x1FFFFF = of_nat (x mod 2 ^ 21)" .
qed

lemma pd_base_split: "pa < 2 ^ 32 \<Longrightarrow> pd_base (pa div 2 ^ 30) (pa div 2 ^ 21 mod 512) + pa mod 2 ^ 21 = pa"
proof -
  have "pa div 2 ^ 21 = (pa div 2 ^ 30) * 512 + pa div 2 ^ 21 mod 512"
    using div_mult_mod_eq [of "pa div 2 ^ 21" 512] by (simp add: div_mult2_eq [symmetric])
  moreover have "pa = (pa div 2 ^ 21) * 0x200000 + pa mod 2 ^ 21" using div_mult_mod_eq [of pa "2 ^ 21"] by simp
  ultimately show ?thesis unfolding pd_base_def by linarith
qed

lemma pd_base_multiple: "pd_base k j = (k * 512 + j) * 0x200000"
  by (simp add: pd_base_def)

text \<open>The tables below the root, and a root that leads to them.\<close>

definition kernel_dirs :: "nat \<Rightarrow> (u64 \<Rightarrow> u64) \<Rightarrow> bool" where
  "kernel_dirs p mem \<longleftrightarrow>
     mem (entry_addr (pgd_to_pa (p + 1)) 0x1fe) = table_entry (pgd_to_pa (p + 3)) \<and>
     mem (entry_addr (pgd_to_pa (p + 1)) 0x1ff) = table_entry (pgd_to_pa (p + 4)) \<and>
     (\<forall>j. unat j < 4 \<longrightarrow> mem (entry_addr (pgd_to_pa (p + 2)) j) = table_entry (pgd_to_pa (p + 5 + unat j))) \<and>
     (\<forall>j k. unat j < 512 \<and> k < 2 \<longrightarrow>
        mem (entry_addr (pgd_to_pa (p + 3 + k)) j) = large_entry (of_nat (pd_base k (unat j)))) \<and>
     (\<forall>j k. unat j < 512 \<and> k < 4 \<longrightarrow>
        mem (entry_addr (pgd_to_pa (p + 5 + k)) j) = large_entry (of_nat (pd_base k (unat j))))"

definition kernel_root :: "nat \<Rightarrow> u64 \<Rightarrow> (u64 \<Rightarrow> u64) \<Rightarrow> bool" where
  "kernel_root p cr3 mem \<longleftrightarrow>
     mem (entry_addr cr3 0x1ff) = table_entry (pgd_to_pa (p + 1)) \<and>
     mem (entry_addr cr3 0x100) = table_entry (pgd_to_pa (p + 2))"

lemma kernel_tables_dirs:
  assumes "p + 9 \<le> 2 ^ 19"
  shows "kernel_dirs p (kernel_tables (map pgd_to_pa [p..<p + 9]) mem)"
    and "kernel_root p (pgd_to_pa p) (kernel_tables (map pgd_to_pa [p..<p + 9]) mem)"
proof -
  note rd = kernel_tables_read [OF assms, where mem = mem]
  have two: "k < 2 \<Longrightarrow> k = 0 \<or> k = 1" for k :: nat by auto
  show "kernel_dirs p (kernel_tables (map pgd_to_pa [p..<p + 9]) mem)"
    unfolding kernel_dirs_def
  proof (intro conjI allI impI)
    fix j :: u16 and k :: nat
    show "unat j < 512 \<and> k < 2 \<Longrightarrow> kernel_tables (map pgd_to_pa [p..<p + 9]) mem (entry_addr (pgd_to_pa (p + 3 + k)) j) =
        large_entry (of_nat (pd_base k (unat j)))"
      using rd(4) [of j] rd(5) [of j] two [of k] by (auto simp: add.commute simp del: upt_Suc)
    show "unat j < 512 \<and> k < 4 \<Longrightarrow> kernel_tables (map pgd_to_pa [p..<p + 9]) mem (entry_addr (pgd_to_pa (p + 5 + k)) j) =
        large_entry (of_nat (pd_base k (unat j)))"
      using rd(6) [of j k] by (simp add: add.assoc del: upt_Suc)
    show "unat j < 4 \<Longrightarrow> kernel_tables (map pgd_to_pa [p..<p + 9]) mem (entry_addr (pgd_to_pa (p + 2)) j) =
        table_entry (pgd_to_pa (p + 5 + unat j))"
      using rd(3) [of j] by (simp del: upt_Suc)
  qed (use rd(2) [of "0x1fe"] rd(2) [of "0x1ff"] in \<open>simp_all del: upt_Suc\<close>)
  show "kernel_root p (pgd_to_pa p) (kernel_tables (map pgd_to_pa [p..<p + 9]) mem)"
    using rd(1) [of "0x1ff"] rd(1) [of "0x100"] by (simp add: kernel_root_def del: upt_Suc)
qed

lemma hw_walk_large:
  assumes "va_table_indicies va = (i1, i2, i3, i4)"
    and "mem (entry_addr (hw_base cr3) i1) = table_entry (pgd_to_pa q1)" "q1 < 2 ^ 40"
    and "mem (entry_addr (pgd_to_pa q1) i2) = table_entry (pgd_to_pa q2)" "q2 < 2 ^ 40"
    and "mem (entry_addr (pgd_to_pa q2) i3) = large_entry (of_nat (pd_base k (unat i3)))" "k < 4" "unat i3 < 512"
  shows "hw_walk mem cr3 va = Some (of_nat (pd_base k (unat i3)) + (va AND 0x1FFFFF))"
proof -
  have "k * 512 + unat i3 < 2 ^ 31" using assms(7,8) by simp
  from large_entry_base [OF this] have "large_entry (of_nat (pd_base k (unat i3))) AND 0x000FFFFFFFE00000 =
      of_nat (pd_base k (unat i3))" by (simp only: pd_base_multiple)
  then show ?thesis
    using assms by (simp add: hw_walk_def Let_def table_entry_flags large_entry_flags hw_base_table)
qed

lemma window_walk:
  assumes p: "p + 9 \<le> 2 ^ 19" and dirs: "kernel_dirs p mem" "kernel_root p (hw_base cr3) mem"
  shows "pa < 2 ^ 32 \<Longrightarrow> hw_walk mem cr3 (PMEM_VA_START + of_nat pa) = Some (of_nat pa)"
    and "pa < 2 ^ 31 \<Longrightarrow> hw_walk mem cr3 (KERNEL_VMEM_START + of_nat pa) = Some (of_nat pa)"
proof -
  assume pa: "pa < 2 ^ 32"
  let ?va = "PMEM_VA_START + of_nat pa :: u64"
  obtain i1 i2 i3 i4 where i: "va_table_indicies ?va = (i1, i2, i3, i4)" by (cases "va_table_indicies ?va")
  have "unat ?va = 0x1FFFF00 * 2 ^ 39 + pa"
    using pa by (simp add: PMEM_VA_START_def unat_word_ariths unat_of_nat_u64)
  note w = window_indices [OF this _ i]
  have x: "unat i1 = 0x100" "unat i2 = pa div 2 ^ 30" "unat i3 = pa div 2 ^ 21 mod 512" "unat i2 < 4"
    "?va AND 0x1FFFFF = of_nat (pa mod 2 ^ 21)"
    using w pa by simp_all
  have "i1 = 0x100" using x(1) by (simp add: word_unat_eq_iff)
  then have "hw_walk mem cr3 ?va = Some (of_nat (pd_base (unat i2) (unat i3)) + (?va AND 0x1FFFFF))"
    using dirs p x by (intro hw_walk_large [where ?q1.0 = "p + 2" and ?q2.0 = "p + 5 + unat i2", OF i])
      (simp_all add: kernel_dirs_def kernel_root_def)
  then show "hw_walk mem cr3 ?va = Some (of_nat pa)"
    using pd_base_split [OF pa] unfolding x by (simp only: of_nat_add [symmetric])
next
  assume pa: "pa < 2 ^ 31"
  let ?va = "KERNEL_VMEM_START + of_nat pa :: u64"
  obtain i1 i2 i3 i4 where i: "va_table_indicies ?va = (i1, i2, i3, i4)" by (cases "va_table_indicies ?va")
  have "unat ?va = 0x1FFFFFF * 2 ^ 39 + (0x7F80000000 + pa)"
    using pa by (simp add: KERNEL_VMEM_START_def unat_word_ariths unat_of_nat_u64)
  note w = window_indices [OF this _ i]
  have d: "(0x7F80000000 + pa) div 2 ^ 30 = 0x1fe + pa div 2 ^ 30"
    "(0x7F80000000 + pa) div 2 ^ 21 mod 512 = pa div 2 ^ 21 mod 512"
    "(0x7F80000000 + pa) mod 2 ^ 21 = pa mod 2 ^ 21"
  proof -
    have "0x7F80000000 + pa = pa + 0x1fe * 2 ^ 30" by simp
    then show "(0x7F80000000 + pa) div 2 ^ 30 = 0x1fe + pa div 2 ^ 30" by (simp only: div_mult_self1)
    have e: "0x7F80000000 + pa = pa + (0x1fe * 512) * 2 ^ 21" by simp
    then show "(0x7F80000000 + pa) div 2 ^ 21 mod 512 = pa div 2 ^ 21 mod 512"
      by (simp only: div_mult_self1) (simp only: mod_mult_self1 add.commute)
    show "(0x7F80000000 + pa) mod 2 ^ 21 = pa mod 2 ^ 21" by (simp only: e mod_mult_self1)
  qed
  define k where "k = pa div 2 ^ 30"
  have k: "k < 2" using pa by (simp add: k_def less_mult_imp_div_less)
  have x: "unat i1 = 0x1ff" "unat i2 = 0x1fe + k" "unat i3 = pa div 2 ^ 21 mod 512"
    "?va AND 0x1FFFFF = of_nat (pa mod 2 ^ 21)"
    using w pa by (simp_all only: d k_def) simp_all
  have i1: "i1 = 0x1ff" using x(1) by (simp add: word_unat_eq_iff)
  have "i2 = 0x1fe \<and> k = 0 \<or> i2 = 0x1ff \<and> k = 1"
    using k x(2) by (cases k) (auto simp: word_unat_eq_iff)
  then have e2: "mem (entry_addr (pgd_to_pa (p + 1)) i2) = table_entry (pgd_to_pa (p + 3 + k))"
    using dirs(1) by (auto simp: kernel_dirs_def add.commute)
  have "hw_walk mem cr3 ?va = Some (of_nat (pd_base k (unat i3)) + (?va AND 0x1FFFFF))"
    using dirs p x k e2 i1 by (intro hw_walk_large [where ?q1.0 = "p + 1" and ?q2.0 = "p + 3 + k", OF i])
      (simp_all add: kernel_dirs_def kernel_root_def)
  then show "hw_walk mem cr3 ?va = Some (of_nat pa)"
    using pd_base_split [of pa] pa unfolding x k_def by (simp only: of_nat_add [symmetric]) simp
qed

section \<open>Property\<close>

lemma pgd_to_pa_apart:
  "q < 2 ^ 50 \<Longrightarrow> r < 2 ^ 50 \<Longrightarrow> q \<noteq> r \<Longrightarrow> unat i < 512 \<Longrightarrow> unat j < 512 \<Longrightarrow>
   entry_addr (pgd_to_pa q) i \<noteq> entry_addr (pgd_to_pa r) j"
  using entry_addr_inj [of q r i j] by simp

lemma kernel_dirs_other_root:
  assumes "kernel_dirs p mem" and "p + 9 \<le> 2 ^ 19" and "r < 2 ^ 40" and "r \<notin> {p + 1..<p + 9}"
  shows "kernel_dirs p (mem(entry_addr (pgd_to_pa r) 0x1ff := a, entry_addr (pgd_to_pa r) 0x100 := b))"
proof -
  have apart: "entry_addr (pgd_to_pa q) j \<noteq> entry_addr (pgd_to_pa r) i"
    if "p + 1 \<le> q" "q < p + 9" "unat i < 512" "unat j < 512" for q i j
    using that assms(2,3,4) by (intro pgd_to_pa_apart) auto
  show ?thesis using assms(1) unfolding kernel_dirs_def by (auto simp: apart [symmetric] apart)
qed

lemma walk_unmapped:
  assumes "mem (entry_addr (hw_base cr3) i1) = 0" and "va_table_indicies va = (i1, i2, i3, i4)"
  shows "hw_walk mem cr3 va = None"
  using assms by (simp add: hw_walk_def)

text \<open>C34: When the page allocator hands out sixteen pages below 2 GB, the kernel page tables map every
  address of the physical memory window onto the physical address behind it, for 4 GB, and the
  kernel window likewise for 2 GB, and no address outside the two top level entries of the windows.
  An address space that takes over the two top level entries of the template has both windows.\<close>

theorem kernel_mapping:
  assumes "pgalloc_alloc A (mem_pages m) 4 = Inr (Some p, pm)" and "p + 16 \<le> 2 ^ 19 - 1"
  shows "\<exists>m'. reinitialise_pgt A m = Inr (Some (pgd_to_pa p), m') \<and> mem_pages m' = pm \<and>
    (\<forall>pa < 2 ^ 32. hw_walk (phys_mem m') (pgd_to_pa p) (PMEM_VA_START + of_nat pa) = Some (of_nat pa)) \<and>
    (\<forall>pa < 2 ^ 31. hw_walk (phys_mem m') (pgd_to_pa p) (KERNEL_VMEM_START + of_nat pa) = Some (of_nat pa)) \<and>
    (\<forall>va. unat va div 2 ^ 39 mod 512 \<notin> {256, 511} \<longrightarrow> hw_walk (phys_mem m') (pgd_to_pa p) va = None) \<and>
    (\<forall>v r. pgt_phys_base v = pgd_to_pa r \<and> r < 2 ^ 40 \<and> r \<notin> {p + 1..<p + 9} \<longrightarrow>
      (\<exists>m2. install_default_kernel_mapping (Some (\<lambda>i. phys_mem m' (pgd_to_pa p + 8 * i))) (v, m') = Inr m2 \<and>
        (\<forall>pa < 2 ^ 32. hw_walk (phys_mem m2) (pgd_to_pa r) (PMEM_VA_START + of_nat pa) = Some (of_nat pa)) \<and>
        (\<forall>pa < 2 ^ 31. hw_walk (phys_mem m2) (pgd_to_pa r) (KERNEL_VMEM_START + of_nat pa) = Some (of_nat pa))))"
proof -
  have p: "p + 9 \<le> 2 ^ 19" "p < 2 ^ 20" "p < 2 ^ 40" using assms(2) by simp_all
  define mem' where "mem' = kernel_tables (map pgd_to_pa [p..<p + 9]) (phys_mem m)"
  define m' where "m' = m\<lparr>mem_pages := pm, phys_mem := mem'\<rparr>"
  have addrs: "table_addrs p 9 = Inr (map pgd_to_pa [p..<p + 9])" using assms(2) by (intro table_addrs_eq) simp
  have "map pgd_to_pa [p..<p + 9] ! 0 = pgd_to_pa p" by (simp del: upt_Suc)
  then have run: "reinitialise_pgt A m = Inr (Some (pgd_to_pa p), m')"
    using assms(1) addrs p(2) pgd_window [of p] by (simp add: reinitialise_pgt_def pgd_to_vpa_def m'_def mem'_def del: upt_Suc)
  note dirs = kernel_tables_dirs [OF p(1), of "phys_mem m", folded mem'_def]
  have base: "hw_base (pgd_to_pa p) = pgd_to_pa p" using p(3) by (rule hw_base_pgd)
  have own: "pa < 2 ^ 32 \<Longrightarrow> hw_walk mem' (pgd_to_pa p) (PMEM_VA_START + of_nat pa) = Some (of_nat pa)"
    "pa < 2 ^ 31 \<Longrightarrow> hw_walk mem' (pgd_to_pa p) (KERNEL_VMEM_START + of_nat pa) = Some (of_nat pa)" for pa
    using window_walk [OF p(1) dirs(1), of "pgd_to_pa p"] dirs(2) base by simp_all
  have none: "hw_walk mem' (pgd_to_pa p) va = None" if "unat va div 2 ^ 39 mod 512 \<notin> {256, 511}" for va
  proof -
    obtain i1 i2 i3 i4 where i: "va_table_indicies va = (i1, i2, i3, i4)" by (cases "va_table_indicies va")
    have "unat i1 \<notin> {256, 511}" "unat i1 < 512" using va_indices(1) [OF i] that by simp_all
    then have "mem' (entry_addr (pgd_to_pa p) i1) = 0"
      using kernel_tables_read(1) [OF p(1), of i1 "phys_mem m"] by (simp add: mem'_def del: upt_Suc)
    then show ?thesis using walk_unmapped [OF _ i, of mem' "pgd_to_pa p"] base by simp
  qed
  have other: "\<exists>m2. install_default_kernel_mapping (Some (\<lambda>i. phys_mem m' (pgd_to_pa p + 8 * i))) (v, m') = Inr m2 \<and>
      (\<forall>pa < 2 ^ 32. hw_walk (phys_mem m2) (pgd_to_pa r) (PMEM_VA_START + of_nat pa) = Some (of_nat pa)) \<and>
      (\<forall>pa < 2 ^ 31. hw_walk (phys_mem m2) (pgd_to_pa r) (KERNEL_VMEM_START + of_nat pa) = Some (of_nat pa))"
    if v: "pgt_phys_base v = pgd_to_pa r" "r < 2 ^ 40" "r \<notin> {p + 1..<p + 9}" for v r
  proof -
    define mem2 where "mem2 = mem'(entry_addr (pgd_to_pa r) 0x1ff := mem' (pgd_to_pa p + 8 * 0x1ff),
        entry_addr (pgd_to_pa r) 0x100 := mem' (pgd_to_pa p + 8 * 0x100))"
    have inst: "install_default_kernel_mapping (Some (\<lambda>i. phys_mem m' (pgd_to_pa p + 8 * i))) (v, m') = Inr (m'\<lparr>phys_mem := mem2\<rparr>)"
      by (simp add: install_default_kernel_mapping_def Let_def m'_def mem2_def v(1))
    have "entry_addr (pgd_to_pa r) 0x1ff \<noteq> entry_addr (pgd_to_pa r) 0x100"
      using entry_addr_inj [of r r "0x1ff" "0x100"] v(2) by simp
    then have root: "kernel_root p (pgd_to_pa r) mem2"
      using dirs(2) by (simp add: kernel_root_def mem2_def entry_addr_def)
    have "kernel_dirs p mem2" unfolding mem2_def by (rule kernel_dirs_other_root [OF dirs(1) p(1) v(2,3)])
    from window_walk [OF p(1) this, of "pgd_to_pa r"] root show ?thesis
      by (intro exI [of _ "m'\<lparr>phys_mem := mem2\<rparr>"]) (simp add: inst hw_base_pgd [OF v(2)])
  qed
  have m'_sel: "phys_mem m' = mem'" "mem_pages m' = pm" by (simp_all add: m'_def)
  have all: "\<forall>pa < 2 ^ 32. hw_walk mem' (pgd_to_pa p) (PMEM_VA_START + of_nat pa) = Some (of_nat pa)"
    "\<forall>pa < 2 ^ 31. hw_walk mem' (pgd_to_pa p) (KERNEL_VMEM_START + of_nat pa) = Some (of_nat pa)"
    "\<forall>va. unat va div 2 ^ 39 mod 512 \<notin> {256, 511} \<longrightarrow> hw_walk mem' (pgd_to_pa p) va = None"
    using own none by blast+
  show ?thesis
    using run m'_sel(2) all [folded m'_sel(1)] other by blast
qed

text \<open>A machine of sixteen free pages with the simple page allocation algorithm.\<close>

definition sixteen_pages :: machine where
  "sixteen_pages =
     \<lparr>mem_pages = \<lparr>descs = (\<lambda>_. \<lparr>next_free = None, pd_type = AVAILABLE\<rparr>), nr_pages = 16, free_areas = (\<lambda>_. None)\<rparr>,
      phys_mem = (\<lambda>_. 0)\<rparr>"

lemma sixteen_pages_alloc: "\<exists>pm. pgalloc_alloc (Some simple_algo) (mem_pages sixteen_pages) 4 = Inr (Some 0, pm)"
  by (simp add: pgalloc_alloc_def simple_algo_def simple_alloc_pages_def sixteen_pages_def page_type_def set_type_def
      eval_nat_numeral scan_from.simps)

lemma kernel_mapping_witness:
  "\<exists>m'. reinitialise_pgt (Some simple_algo) sixteen_pages = Inr (Some (pgd_to_pa 0), m') \<and>
    hw_walk (phys_mem m') (pgd_to_pa 0) (PMEM_VA_START + of_nat 0x123456) = Some (of_nat 0x123456)"
proof -
  obtain pm where "pgalloc_alloc (Some simple_algo) (mem_pages sixteen_pages) 4 = Inr (Some 0, pm)"
    using sixteen_pages_alloc by blast
  from kernel_mapping [OF this] obtain m' where m':
    "reinitialise_pgt (Some simple_algo) sixteen_pages = Inr (Some (pgd_to_pa 0), m')"
    "\<forall>pa < 2 ^ 32. hw_walk (phys_mem m') (pgd_to_pa 0) (PMEM_VA_START + of_nat pa) = Some (of_nat pa)" by auto
  have "(0x123456 :: nat) < 2 ^ 32" by simp
  from m'(1) m'(2) [rule_format, OF this] show ?thesis by blast
qed

end
