(* ===== verification/Cmdline_Spec.thy ===== *)
theory Cmdline_Spec imports Cmdline begin

text \<open>
  What the command line does: it is the sequence of its settings, and a setting of an algorithm
  makes the kernel choose the algorithm of that name.
\<close>

section \<open>The settings of a command line\<close>

function setting_tokens :: "u8 list \<Rightarrow> u8 list list" where
  "setting_tokens cs =
     (let cs' = dropWhile (\<lambda>c. c = 32) cs
      in if cs' = [] then [] else takeWhile (\<lambda>c. c \<noteq> 32) cs' # setting_tokens (dropWhile (\<lambda>c. c \<noteq> 32) cs'))"
  by pat_completeness auto

termination setting_tokens
proof (relation "measure length", simp, goal_cases)
  case (1 cs cs')
  then obtain c cs2 where "cs' = c # cs2" "c \<noteq> 32"
    using hd_dropWhile [of "\<lambda>c. c = 32" cs] by (metis list.collapse)
  then have "length (dropWhile (\<lambda>c. c \<noteq> 32) cs') < length cs'"
    by (simp add: length_dropWhile_le le_imp_less_Suc)
  also have "length cs' \<le> length cs" using 1 by (simp add: length_dropWhile_le)
  finally show ?case by simp
qed

declare setting_tokens.simps [simp del]

fun run_settings :: "'s registration list \<Rightarrow> u8 list list \<Rightarrow> 's \<Rightarrow> 's res" where
  "run_settings regs [] s = Inr s"
| "run_settings regs (t # ts) s =
     (if length t \<ge> 128 then Inl Out_Of_Bounds else res_bind (process_setting regs t s) (run_settings regs ts))"

lemma skip_spaces_eq: "skip_spaces cs = dropWhile (\<lambda>c. c = 32) cs"
  by (induction cs) auto

lemma copy_setting_eq:
  "length acc \<le> 128 \<Longrightarrow> copy_setting cs acc =
    (if length acc + length (takeWhile (\<lambda>c. c \<noteq> 32) cs) \<le> 128
     then Inr (acc @ takeWhile (\<lambda>c. c \<noteq> 32) cs, dropWhile (\<lambda>c. c \<noteq> 32) cs) else Inl Out_Of_Bounds)"
  by (induction cs arbitrary: acc) auto

lemma parse_cmdline_tokens: "parse_cmdline regs cs s = run_settings regs (setting_tokens cs) s"
proof (induction regs cs s rule: parse_cmdline.induct)
  case (1 regs cs s)
  let ?cs = "dropWhile (\<lambda>c. c = 32) cs"
  show ?case
  proof (cases ?cs)
    case Nil
    then show ?thesis
      by (subst parse_cmdline.simps, subst setting_tokens.simps) (simp add: skip_spaces_eq Nil del: dropWhile_eq_Nil_conv)
  next
    case (Cons c cs')
    then have c: "c \<noteq> 32" "cs \<noteq> []" by (auto simp: dropWhile_eq_Cons_conv)
    let ?t = "takeWhile (\<lambda>c. c \<noteq> 32) ?cs" and ?r = "dropWhile (\<lambda>c. c \<noteq> 32) ?cs"
    have toks: "setting_tokens cs = ?t # setting_tokens ?r"
      using Cons by (subst setting_tokens.simps) (simp add: Let_def)
    have t: "?t \<noteq> []" using Cons c by simp
    show ?thesis
    proof (cases "length ?t < 128")
      case True
      then have copy: "copy_setting (skip_spaces cs) [] = Inr (?t, ?r)"
        by (simp add: skip_spaces_eq copy_setting_eq)
      have "parse_cmdline regs ?r s' = run_settings regs (setting_tokens ?r) s'"
        if "process_setting regs ?t s = Inr s'" for s'
        using 1 [OF c(2) copy refl _ t that] True by simp
      then show ?thesis using c(2) t True copy
        by (subst parse_cmdline.simps) (auto simp: toks intro!: res_bind_cong)
    next
      case False
      then show ?thesis using c(2)
        by (subst parse_cmdline.simps) (simp add: toks skip_spaces_eq copy_setting_eq)
    qed
  qed
qed

section \<open>One setting\<close>

lemma read_key_eq:
  "read_key cs key = (let n = min (63 - length key) (length (takeWhile (\<lambda>c. c \<noteq> 61) cs)) in (key @ take n cs, drop n cs))"
proof (induction cs arbitrary: key)
  case (Cons c cs)
  show ?case
  proof (cases "c \<noteq> 61 \<and> length key < 63")
    case True
    then have "63 - length key = Suc (63 - length (key @ [c]))" by (simp, arith)
    then show ?thesis using True Cons [of "key @ [c]"] by (simp add: Let_def)
  qed auto
qed simp

lemma read_setting_value_eq:
  "read_setting_value cs v = v @ take (63 - length v) (filter (\<lambda>c. c \<noteq> 61) cs)"
proof (induction cs arbitrary: v)
  case (Cons c cs)
  show ?case
  proof (cases "length v < 63")
    case True
    then have "63 - length v = Suc (63 - length (v @ [c]))" by simp
    then show ?thesis using True Cons by simp
  qed simp
qed simp

lemma cstr_append_zero [simp]: "0 \<notin> set n \<Longrightarrow> cstr (n @ 0 # r) = n"
  by (induction n) auto

lemma is_cstr_append_zero [simp]: "is_cstr (n @ 0 # r)"
  by (simp add: is_cstr_def)

lemma kstrncmp_names:
  assumes "0 \<notin> set n" "0 \<notin> set k" "length n \<le> unat l" "length n + length r < 2 ^ 60" "length k + length r' < 2 ^ 60"
  shows "kstrncmp (n @ 0 # r) (k @ 0 # r') l = Inr (if n = k then 0 else - 1)"
  using assms by (subst kstrncmp_eq) auto

text \<open>A registration list of names: the first entry with the key is the one that is used.\<close>

lemma find_registration_names:
  assumes "\<forall>(n, f) \<in> set regs. 0 \<notin> set n \<and> length n \<le> 256" and "0 \<notin> set key" "length key \<le> 63"
  shows "find_registration (map (\<lambda>(n, f). (Some (n @ [0]), f)) regs) (key @ [0]) = Inr (map_of regs key)"
  using assms
proof (induction regs)
  case (Cons r regs)
  obtain n f where r: "r = (n, f)" by (cases r)
  have "kstrncmp (n @ [0]) (key @ [0]) 256 = Inr (if n = key then 0 else - 1)"
    using Cons.prems r kstrncmp_names [of n key 256 "[]" "[]"] by simp
  then show ?case using Cons r by auto
qed simp

lemma process_setting_names:
  assumes "\<forall>(n, f) \<in> set regs. 0 \<notin> set n \<and> length n \<le> 256"
    and "0 \<notin> set key" "61 \<notin> set key" "length key \<le> 63"
  shows "process_setting (map (\<lambda>(n, f). (Some (n @ [0]), f)) regs) (key @ 61 # v) s =
    (case map_of regs key of None \<Rightarrow> Inr s | Some f \<Rightarrow> f (take 63 (filter (\<lambda>c. c \<noteq> 61) v) @ [0]) s)"
proof -
  have "takeWhile (\<lambda>c. c \<noteq> 61) (key @ 61 # v) = key" using assms(3) by (induction key) auto
  then have "read_key (key @ 61 # v) [] = (key, 61 # v)" using assms(4) by (simp add: read_key_eq Let_def)
  then show ?thesis
    by (simp add: process_setting_def read_setting_value_eq find_registration_names [OF assms(1,2,4)]
        split: option.split)
qed

section \<open>The algorithms\<close>

lemma search_algorithm_names:
  assumes "\<forall>(n, a) \<in> set algs. 0 \<notin> set n \<and> length n \<le> 31" and "0 \<notin> set key" "length key + length r < 2 ^ 59"
    and "distinct (map fst algs)"
  shows "search_algorithm (map (\<lambda>(n, a). (n @ [0], a)) algs) (key @ 0 # r) cand =
    Inr (case map_of algs key of None \<Rightarrow> cand | Some a \<Rightarrow> Some a)"
  using assms
proof (induction algs arbitrary: cand)
  case (Cons x algs)
  obtain n a where x: "x = (n, a)" by (cases x)
  have "kstrncmp (n @ [0]) (key @ 0 # r) 31 = Inr (if n = key then 0 else - 1)"
    using Cons.prems x kstrncmp_names [of n key 31 "[]" r] by simp
  moreover have "map_of algs key = None" if "n = key"
    using Cons.prems(4) x that by (auto simp: map_of_eq_None_iff)
  ultimately show ?case using Cons x by (auto split: option.split)
qed simp

lemma acquire_algorithm_names:
  assumes "\<forall>(n, a) \<in> set algs. 0 \<notin> set n \<and> length n \<le> 31 \<and> n \<noteq> []" and "0 \<notin> set key" "length key + length r < 2 ^ 59"
    and "distinct (map fst algs)"
  shows "acquire_algorithm (map (\<lambda>(n, a). (n @ [0], a)) algs) (key @ 0 # r) = Inr (map_of algs key)"
proof (cases "key = []")
  case True
  have "map_of algs [] = None" using assms(1) by (auto simp: map_of_eq_None_iff)
  then show ?thesis using True by (simp add: acquire_algorithm_def kstrlen_eq)
next
  case False
  have "length key < 2 ^ 64" using assms(3) by simp
  then have "unat (of_nat (length key) :: u64) = length key" by (rule unat_of_nat_u64)
  then have "(of_nat (length key) :: u64) \<noteq> 0" using False by (metis length_0_conv unat_0)
  moreover have "\<forall>(n, a) \<in> set algs. 0 \<notin> set n \<and> length n \<le> 31" using assms(1) by auto
  ultimately show ?thesis
    using search_algorithm_names [of algs key r None] assms(2,3,4)
    by (cases "map_of algs key") (simp_all add: acquire_algorithm_def kstrlen_eq)
qed

text \<open>The names and algorithms that the code registers.\<close>

lemma page_algorithms_map:
  "page_algorithms = map (\<lambda>(n, a). (n @ [0], a)) [(bytes_of ''buddy'', buddy_algo), (bytes_of ''simple'', simple_algo)]"
  by (simp add: page_algorithms_def)

lemma sched_algorithms_map:
  "sched_algorithms = map (\<lambda>(n, a). (n @ [0], a))
     [(bytes_of ''fifo'', fifo_algo), (bytes_of ''rr'', rr_algo), (bytes_of ''cfs'', cfs_algo)]"
  by (simp add: sched_algorithms_def)

definition registered_names :: "(u8 list \<times> (u8 list \<Rightarrow> kernel_settings \<Rightarrow> kernel_settings res)) list" where
  "registered_names =
     map (\<lambda>(nm, f). (bytes_of nm, f))
      [(''pgalloc.algorithm'', arg_pgalloc_algorithm), (''pgalloc.debug'', arg_pgalloc_debug),
       (''pgalloc.self-test'', arg_pgalloc_self_test), (''objalloc.debug'', arg_objalloc_debug),
       (''sched.algorithm'', arg_sched_algorithm), (''sched.debug'', arg_sched_debug),
       (''boot-device'', arg_boot_device), (''boot-fs-type'', arg_boot_fstype),
       (''init'', arg_init_program), (''syslog'', arg_syslog)]"

lemma kernel_registrations_map:
  "kernel_registrations = map (\<lambda>(n, f). (Some (n @ [0]), f)) registered_names"
  by (simp add: kernel_registrations_def registered_names_def)

lemma registered_names_ok: "\<forall>(n, f) \<in> set registered_names. 0 \<notin> set n \<and> length n \<le> 256"
  by (simp add: registered_names_def bytes_of_def)

lemma setting_names:
  "map_of registered_names (bytes_of ''pgalloc.algorithm'') = Some arg_pgalloc_algorithm"
  "map_of registered_names (bytes_of ''sched.algorithm'') = Some arg_sched_algorithm"
  "61 \<notin> set (bytes_of ''pgalloc.algorithm'')" "0 \<notin> set (bytes_of ''pgalloc.algorithm'')"
  "61 \<notin> set (bytes_of ''sched.algorithm'')" "0 \<notin> set (bytes_of ''sched.algorithm'')"
  by (simp_all add: registered_names_def bytes_of_def)

lemma kstrncpy_name:
  assumes "0 \<notin> set v" "length v \<le> 30" "length dest = 32"
  shows "\<exists>r. kstrncpy dest (v @ [0]) 31 = Inr (v @ 0 # r, length v) \<and> length r \<le> 32"
  using assms by (subst kstrncpy_eq) (auto simp: Let_def min_def)

lemma choose_sched:
  assumes "0 \<notin> set v" "61 \<notin> set v" "length v \<le> 30" "length (sched_algorithm s) = 32"
  shows "\<exists>s'. process_setting kernel_registrations (bytes_of ''sched.algorithm'' @ 61 # v) s = Inr s' \<and>
    acquire_scheduler_algorithm s' =
      Inr (map_of [(bytes_of ''fifo'', fifo_algo), (bytes_of ''rr'', rr_algo), (bytes_of ''cfs'', cfs_algo)] v)"
proof -
  have f: "filter (\<lambda>c. c \<noteq> 61) v = v" using assms(2) by (induction v) auto
  have l: "length (bytes_of ''sched.algorithm'') \<le> 63" by (simp add: bytes_of_def)
  obtain r where r: "kstrncpy (sched_algorithm s) (v @ [0]) 31 = Inr (v @ 0 # r, length v)" "length r \<le> 32"
    using kstrncpy_name [OF assms(1,3,4)] by blast
  have set: "process_setting kernel_registrations (bytes_of ''sched.algorithm'' @ 61 # v) s = Inr (s\<lparr>sched_algorithm := v @ 0 # r\<rparr>)"
    unfolding kernel_registrations_map process_setting_names [OF registered_names_ok setting_names(6,5) l]
    using assms(3) by (simp add: setting_names f arg_sched_algorithm_def r)
  have sel: "sched_algorithm (s\<lparr>sched_algorithm := v @ 0 # r\<rparr>) = v @ 0 # r" by simp
  have "acquire_scheduler_algorithm (s\<lparr>sched_algorithm := v @ 0 # r\<rparr>) =
      Inr (map_of [(bytes_of ''fifo'', fifo_algo), (bytes_of ''rr'', rr_algo), (bytes_of ''cfs'', cfs_algo)] v)"
    unfolding acquire_scheduler_algorithm_def sched_algorithms_map sel
    using assms(1,3) r(2) by (subst acquire_algorithm_names) (simp_all add: bytes_of_def)
  with set show ?thesis by blast
qed

lemma choose_pgalloc:
  assumes "0 \<notin> set v" "61 \<notin> set v" "length v \<le> 30" "length (pgalloc_algorithm s) = 32"
  shows "\<exists>s'. process_setting kernel_registrations (bytes_of ''pgalloc.algorithm'' @ 61 # v) s = Inr s' \<and>
    acquire_page_allocator_algorithm s' =
      Inr (map_of [(bytes_of ''buddy'', buddy_algo), (bytes_of ''simple'', simple_algo)] v)"
proof -
  have f: "filter (\<lambda>c. c \<noteq> 61) v = v" using assms(2) by (induction v) auto
  have l: "length (bytes_of ''pgalloc.algorithm'') \<le> 63" by (simp add: bytes_of_def)
  obtain r where r: "kstrncpy (pgalloc_algorithm s) (v @ [0]) 31 = Inr (v @ 0 # r, length v)" "length r \<le> 32"
    using kstrncpy_name [OF assms(1,3,4)] by blast
  have set: "process_setting kernel_registrations (bytes_of ''pgalloc.algorithm'' @ 61 # v) s = Inr (s\<lparr>pgalloc_algorithm := v @ 0 # r\<rparr>)"
    unfolding kernel_registrations_map process_setting_names [OF registered_names_ok setting_names(4,3) l]
    using assms(3) by (simp add: setting_names f arg_pgalloc_algorithm_def r)
  have sel: "pgalloc_algorithm (s\<lparr>pgalloc_algorithm := v @ 0 # r\<rparr>) = v @ 0 # r" by simp
  have "acquire_page_allocator_algorithm (s\<lparr>pgalloc_algorithm := v @ 0 # r\<rparr>) =
      Inr (map_of [(bytes_of ''buddy'', buddy_algo), (bytes_of ''simple'', simple_algo)] v)"
    unfolding acquire_page_allocator_algorithm_def page_algorithms_map sel
    using assms(1,3) r(2) by (subst acquire_algorithm_names) (simp_all add: bytes_of_def)
  with set show ?thesis by blast
qed

text \<open>C33: The command line is processed as the sequence of its settings, the parts between spaces;
  a setting of 128 bytes or more overruns the array it is copied to. A setting of the scheduling or
  page allocation algorithm makes the kernel choose exactly the registered algorithm of this name,
  and none for any other name.\<close>

theorem cmdline_settings:
  assumes "0 \<notin> set v" and "61 \<notin> set v" and "length v \<le> 30"
    and "length (sched_algorithm s) = 32" and "length (pgalloc_algorithm s) = 32"
  shows "parse_cmdline regs cs st = run_settings regs (setting_tokens cs) st \<and>
    (\<exists>s'. process_setting kernel_registrations (bytes_of ''sched.algorithm'' @ 61 # v) s = Inr s' \<and>
      acquire_scheduler_algorithm s' =
        Inr (map_of [(bytes_of ''fifo'', fifo_algo), (bytes_of ''rr'', rr_algo), (bytes_of ''cfs'', cfs_algo)] v)) \<and>
    (\<exists>s'. process_setting kernel_registrations (bytes_of ''pgalloc.algorithm'' @ 61 # v) s = Inr s' \<and>
      acquire_page_allocator_algorithm s' =
        Inr (map_of [(bytes_of ''buddy'', buddy_algo), (bytes_of ''simple'', simple_algo)] v))"
  using parse_cmdline_tokens [of regs cs st] choose_sched [OF assms(1,2,3,4)] choose_pgalloc [OF assms(1,2,3,5)] by simp

lemma cmdline_settings_witness:
  "\<exists>s'. process_setting kernel_registrations (bytes_of ''sched.algorithm=rr'') initial_settings = Inr s' \<and>
    acquire_scheduler_algorithm s' = Inr (Some rr_algo)"
  using cmdline_settings [of "bytes_of ''rr''" initial_settings kernel_registrations "[]" initial_settings]
  by (simp add: initial_settings_def bytes_of_def)

end
