(* ===== verification/Descriptors.thy ===== *)
theory Descriptors imports Prelude begin

text \<open>
  The descriptor tables of the architecture (infos/include/arch/x86/dt.h, infos/arch/x86/dt.cpp):
  segment and gate descriptors as packed bit fields, the tables that hold them and the stack field
  of the task state segment.
\<close>

section \<open>Packed structures\<close>

text \<open>
  A packed structure is its fields, each with a width in bits, from the least significant bit on:
  initialising a field truncates the value to the width.  \<open>unpack_fields\<close> cuts a number at given widths.
\<close>

fun pack_fields :: "(nat \<times> nat) list \<Rightarrow> nat" where
  "pack_fields [] = 0"
| "pack_fields ((w, v) # fs) = v mod 2 ^ w + 2 ^ w * pack_fields fs"

fun unpack_fields :: "nat list \<Rightarrow> nat \<Rightarrow> nat list" where
  "unpack_fields [] n = []"
| "unpack_fields (w # ws) n = n mod 2 ^ w # unpack_fields ws (n div 2 ^ w)"

lemma unpack_pack_fields:
  "unpack_fields (map fst fs) (pack_fields fs) = map (\<lambda>(w, v). v mod 2 ^ w) fs"
  by (induction fs rule: pack_fields.induct) simp_all

lemma pack_fields_less: "pack_fields fs < 2 ^ sum_list (map fst fs)"
proof (induction fs rule: pack_fields.induct)
  case (2 w v fs)
  have "v mod 2 ^ w + 2 ^ w * pack_fields fs < 2 ^ w + 2 ^ w * pack_fields fs" by simp
  also have "\<dots> = 2 ^ w * (pack_fields fs + 1)" by simp
  also have "\<dots> \<le> 2 ^ w * 2 ^ sum_list (map fst fs)"
    by (rule mult_le_mono2) (use 2 in simp)
  finally show ?case by (simp add: power_add)
qed simp

lemma pack_fields_split:
  "pack_fields ((a + b, v) # fs) = pack_fields ((a, v) # (b, v div 2 ^ a) # fs)"
  by (simp add: power_add mod_mult2_eq distrib_left mult.assoc)

lemma pack_fields_append:
  "pack_fields (fs @ gs) = pack_fields fs + 2 ^ sum_list (map fst fs) * pack_fields gs"
  by (induction fs rule: pack_fields.induct) (simp_all add: power_add distrib_left mult.assoc)

section \<open>Segment descriptors\<close>

definition data_segment :: "u8 \<Rightarrow> u64" where
  "data_segment dpl = of_nat (pack_fields
     [(16, 0), (16, 0), (8, 0), (1, 0), (1, 1), (1, 0), (1, 0), (1, 1), (2, unat dpl), (1, 1), (4, 0),
      (1, 0), (1, 0), (1, 1), (1, 0), (8, 0)])"

definition code_segment :: "u8 \<Rightarrow> u64" where
  "code_segment dpl = of_nat (pack_fields
     [(32, 0), (8, 0), (1, 0), (1, 1), (1, 0), (1, 1), (1, 1), (2, unat dpl), (1, 1), (4, 0),
      (1, 0), (1, 1), (1, 0), (1, 0), (8, 0)])"

text \<open>
  The constructors of the two-word descriptors leave the last field as it is on the stack, \<open>junk\<close>.
\<close>

definition tss_descriptor :: "u32 \<Rightarrow> u64 \<Rightarrow> u64 \<Rightarrow> u64 \<times> u64" where
  "tss_descriptor junk ptr sz =
     (of_nat (pack_fields
       [(16, unat sz), (16, unat ptr), (8, unat ptr div 2 ^ 16), (4, 9), (1, 0), (2, 0), (1, 1),
        (4, unat sz div 2 ^ 16), (1, 0), (1, 0), (1, 1), (1, 0), (8, unat ptr div 2 ^ 24)]),
      of_nat (pack_fields [(32, unat ptr div 2 ^ 32), (32, unat junk)]))"

section \<open>Gate descriptors\<close>

definition interrupt_gate :: "u32 \<Rightarrow> u64 \<Rightarrow> u16 \<Rightarrow> u8 \<Rightarrow> u64 \<times> u64" where
  "interrupt_gate junk offset seg dpl =
     (of_nat (pack_fields
       [(16, unat offset), (16, unat seg), (3, 0), (10, 0x1c0), (2, unat dpl), (1, 1),
        (16, unat offset div 2 ^ 16)]),
      of_nat (pack_fields [(32, unat offset div 2 ^ 32), (32, unat junk)]))"

text \<open>
  The bit fields of the trap gate are one bit short of two bytes; the next member starts at the next
  byte, and the bit between is padding, \<open>pad\<close>.
\<close>

definition trap_gate :: "u32 \<Rightarrow> nat \<Rightarrow> u64 \<Rightarrow> u16 \<Rightarrow> u8 \<Rightarrow> u64 \<times> u64" where
  "trap_gate junk pad offset seg dpl =
     (of_nat (pack_fields
       [(16, unat offset), (16, unat seg), (2, 0), (10, 0x1e0), (2, unat dpl), (1, 1), (1, pad),
        (16, unat offset div 2 ^ 16)]),
      of_nat (pack_fields [(32, unat offset div 2 ^ 32), (32, unat junk)]))"

section \<open>The global descriptor table\<close>

text \<open>\<open>gdtr_length\<close> is the length last loaded into the table register.\<close>

record gdt =
  gdt_current :: u8
  gdt_slots :: "u64 list"
  gdtr_length :: u16

definition MAX_NR_GDT_ENTRIES :: nat where
  "MAX_NR_GDT_ENTRIES = 16"

definition gdt_erase :: "gdt \<Rightarrow> gdt" where
  "gdt_erase g = g\<lparr>gdt_current := 0\<rparr>"

definition gdt_put :: "u64 \<Rightarrow> gdt \<Rightarrow> gdt" where
  "gdt_put bits g = g\<lparr>gdt_slots := (gdt_slots g)[unat (gdt_current g) := bits], gdt_current := gdt_current g + 1\<rparr>"

definition gdt_add_null :: "gdt \<Rightarrow> bool \<times> gdt" where
  "gdt_add_null g = (if unat (gdt_current g) \<ge> MAX_NR_GDT_ENTRIES then (False, g) else (True, gdt_put 0 g))"

definition gdt_add_code_segment :: "u8 \<Rightarrow> gdt \<Rightarrow> bool \<times> gdt" where
  "gdt_add_code_segment dpl g =
     (if unat (gdt_current g) \<ge> MAX_NR_GDT_ENTRIES then (False, g) else (True, gdt_put (code_segment dpl) g))"

definition gdt_add_data_segment :: "u8 \<Rightarrow> gdt \<Rightarrow> bool \<times> gdt" where
  "gdt_add_data_segment dpl g =
     (if unat (gdt_current g) \<ge> MAX_NR_GDT_ENTRIES then (False, g) else (True, gdt_put (data_segment dpl) g))"

definition gdt_add_tss :: "u32 \<Rightarrow> u64 \<Rightarrow> u64 \<Rightarrow> gdt \<Rightarrow> bool \<times> gdt" where
  "gdt_add_tss junk ptr sz g =
     (if unat (gdt_current g) \<ge> MAX_NR_GDT_ENTRIES - 1 then (False, g)
      else let (low, high) = tss_descriptor junk ptr sz in (True, gdt_put high (gdt_put low g)))"

definition gdt_reload :: "gdt \<Rightarrow> bool \<times> gdt" where
  "gdt_reload g = (True, g\<lparr>gdtr_length := ucast (gdt_current g) * 8\<rparr>)"

text \<open>Insertions in order: the first one that fails ends \<open>init\<close>.\<close>

fun gdt_all :: "(gdt \<Rightarrow> bool \<times> gdt) list \<Rightarrow> gdt \<Rightarrow> bool \<times> gdt" where
  "gdt_all [] g = (True, g)"
| "gdt_all (f # fs) g = (let (ok, g1) = f g in if ok then gdt_all fs g1 else (False, g1))"

definition gdt_init :: "u32 \<Rightarrow> u64 \<Rightarrow> gdt \<Rightarrow> bool \<times> gdt" where
  "gdt_init junk tss_addr g =
     gdt_all [gdt_add_null, gdt_add_code_segment 0, gdt_add_data_segment 0, gdt_add_code_segment 3,
              gdt_add_data_segment 3, gdt_add_tss junk tss_addr (26 * 8), gdt_reload] (gdt_erase g)"

section \<open>The interrupt descriptor table\<close>

record idt =
  idt_max_index :: u8
  idt_gates :: "(u64 \<times> u64) list"
  idtr_length :: u16

definition MAX_NR_IDT_ENTRIES :: int where
  "MAX_NR_IDT_ENTRIES = 256"

definition idt_reload :: "idt \<Rightarrow> bool \<times> idt" where
  "idt_reload t = (True, t\<lparr>idtr_length := (ucast (idt_max_index t) + 1) * 16\<rparr>)"

definition idt_init :: "idt \<Rightarrow> bool \<times> idt" where
  "idt_init t = idt_reload (t\<lparr>idt_gates := replicate 256 (0, 0), idt_max_index := 0\<rparr>)"

text \<open>A negative index passes the guard and is outside the array.\<close>

definition idt_put :: "int \<Rightarrow> u64 \<times> u64 \<Rightarrow> idt \<Rightarrow> (bool \<times> idt) res" where
  "idt_put index desc t =
     (if index \<ge> MAX_NR_IDT_ENTRIES then Inr (False, t)
      else if index < 0 then Inl Out_Of_Bounds
      else let t1 = t\<lparr>idt_gates := (idt_gates t)[nat index := desc]\<rparr> in
           Inr (True, if index > uint (idt_max_index t1) then t1\<lparr>idt_max_index := of_int index\<rparr> else t1))"

definition register_interrupt_gate :: "u32 \<Rightarrow> int \<Rightarrow> u64 \<Rightarrow> u16 \<Rightarrow> u8 \<Rightarrow> idt \<Rightarrow> (bool \<times> idt) res" where
  "register_interrupt_gate junk index addr seg dpl t = idt_put index (interrupt_gate junk addr seg dpl) t"

definition register_trap_gate :: "u32 \<Rightarrow> nat \<Rightarrow> int \<Rightarrow> u64 \<Rightarrow> u16 \<Rightarrow> u8 \<Rightarrow> idt \<Rightarrow> (bool \<times> idt) res" where
  "register_trap_gate junk pad index addr seg dpl t = idt_put index (trap_gate junk pad addr seg dpl) t"

section \<open>The task state segment\<close>

text \<open>The structure is 26 words; the field of the kernel stack starts at byte 4, across two of them.\<close>

definition set_kernel_stack :: "u64 \<Rightarrow> u64 list \<Rightarrow> u64 list" where
  "set_kernel_stack stack tss =
     tss[0 := of_nat (pack_fields [(32, unat (tss ! 0)), (32, unat stack)]),
         1 := of_nat (pack_fields [(32, unat stack div 2 ^ 32), (32, unat (tss ! 1) div 2 ^ 32)])]"

definition tss_init :: "u64 list \<Rightarrow> u64 list" where
  "tss_init tss = set_kernel_stack 0 tss"

section \<open>What the processor reads\<close>

text \<open>
  A gate as the processor decodes it: offset, selector, type, privilege level, present bit; a data or
  code segment: type, privilege level, present bit, long mode bit; the stack pointer for ring 0.
\<close>

record hw_gate =
  hw_offset :: nat
  hw_selector :: nat
  hw_type :: nat
  hw_dpl :: nat
  hw_present :: bool

definition hw_read_gate :: "u64 \<times> u64 \<Rightarrow> hw_gate" where
  "hw_read_gate g =
     (let f = unpack_fields [16, 16, 3, 5, 4, 1, 2, 1, 16] (unat (fst g)); high = unat (snd g) mod 2 ^ 32 in
      \<lparr>hw_offset = f ! 0 + 2 ^ 16 * f ! 8 + 2 ^ 32 * high, hw_selector = f ! 1, hw_type = f ! 4,
       hw_dpl = f ! 6, hw_present = (f ! 7 = 1)\<rparr>)"

definition hw_rsp0 :: "u64 list \<Rightarrow> nat" where
  "hw_rsp0 tss = unat (tss ! 0) div 2 ^ 32 + 2 ^ 32 * (unat (tss ! 1) mod 2 ^ 32)"

lemma unat_pack_fields:
  "sum_list (map fst fs) = 64 \<Longrightarrow> unat (of_nat (pack_fields fs) :: u64) = pack_fields fs"
  using pack_fields_less [of fs] by (simp add: unat_of_nat_u64)

lemma upper_half_less: "unat (x :: u64) div 2 ^ 32 < 2 ^ 32"
proof -
  have "unat x < 2 ^ 32 * 2 ^ 32" using unsigned_less [of x, where 'a = nat] by simp
  then show ?thesis by (rule less_mult_imp_div_less)
qed

lemma hw_rsp0_set:
  assumes "length tss = 26"
  shows "hw_rsp0 (set_kernel_stack stack tss) = unat stack"
proof -
  define fs gs where "fs = [(32::nat, unat (tss ! 0)), (32, unat stack)]"
    and "gs = [(32::nat, unat stack div 2 ^ 32), (32, unat (tss ! 1) div 2 ^ 32)]"
  have words: "unat (set_kernel_stack stack tss ! 0) = pack_fields fs"
      "unat (set_kernel_stack stack tss ! 1) = pack_fields gs"
    using assms unat_pack_fields [of fs] unat_pack_fields [of gs]
    by (simp_all add: set_kernel_stack_def fs_def gs_def del: pack_fields.simps)
  have "unat (tss ! 0) mod 4294967296 div 4294967296 = 0" by simp
  then show ?thesis
    unfolding hw_rsp0_def words using upper_half_less [of stack] by (simp add: fs_def gs_def div_add1_eq)
qed

text \<open>An offset in the three pieces of a gate.\<close>

lemma offset_pieces:
  fixes offset :: u64
  shows "unat offset mod 2 ^ 16 + 2 ^ 16 * (unat offset div 2 ^ 16 mod 2 ^ 16) + 2 ^ 32 * (unat offset div 2 ^ 32)
    = unat offset"
proof -
  have "unat offset mod 2 ^ 16 + 2 ^ 16 * (unat offset div 2 ^ 16 mod 2 ^ 16) = unat offset mod 2 ^ 32"
    using mod_mult2_eq [of "unat offset" "2 ^ 16" "2 ^ 16"] by simp
  then show ?thesis by (metis add.commute mult_div_mod_eq)
qed

lemma hw_high_half:
  fixes offset :: u64
  shows "unat (of_nat (pack_fields [(32, unat offset div 2 ^ 32), (32, j)]) :: u64) mod 2 ^ 32
    = unat offset div 2 ^ 32"
  using upper_half_less [of offset] by (subst unat_pack_fields) simp_all

lemma hw_read_interrupt_gate:
  "hw_read_gate (interrupt_gate junk offset seg dpl) =
     \<lparr>hw_offset = unat offset, hw_selector = unat seg, hw_type = 0xe, hw_dpl = unat dpl mod 4, hw_present = True\<rparr>"
proof -
  define fs :: "(nat \<times> nat) list" where "fs = [(16, unat offset), (16, unat seg), (3, 0), (5, 0), (4, 0xe), (1, 0), (2, unat dpl), (1, 1),
        (16, unat offset div 2 ^ 16)]"
  have e: "pack_fields [(16, unat offset), (16, unat seg), (3, 0), (10, 0x1c0), (2, unat dpl), (1, 1),
        (16, unat offset div 2 ^ 16)] = pack_fields fs"
    by (simp add: fs_def)
  have low: "unat (fst (interrupt_gate junk offset seg dpl)) = pack_fields fs"
    unfolding interrupt_gate_def fst_conv e by (rule unat_pack_fields) (simp add: fs_def)
  have "unpack_fields [16, 16, 3, 5, 4, 1, 2, 1, 16] (pack_fields fs) = map (\<lambda>(w, v). v mod 2 ^ w) fs"
    using unpack_pack_fields [of fs] by (simp add: fs_def del: pack_fields.simps unpack_fields.simps)
  then have f: "unpack_fields [16, 16, 3, 5, 4, 1, 2, 1, 16] (pack_fields fs) =
      [unat offset mod 2 ^ 16, unat seg, 0, 0, 0xe, 0, unat dpl mod 4, 1, unat offset div 2 ^ 16 mod 2 ^ 16]"
    by (simp add: fs_def mod_less [OF unsigned_less [of seg, where 'a = nat, simplified]] del: pack_fields.simps unpack_fields.simps)
  show ?thesis
    unfolding hw_read_gate_def low f
    using offset_pieces [of offset] hw_high_half [of offset "unat junk"]
    by (simp add: interrupt_gate_def Let_def)
qed

text \<open>The type of a trap gate: read with the layout of the processor, it is not present.\<close>

lemma hw_read_trap_gate:
  "hw_present (hw_read_gate (trap_gate junk 0 offset seg dpl)) = False"
  "hw_type (hw_read_gate (trap_gate junk 0 offset seg dpl)) = 7"
proof -
  define fs :: "(nat \<times> nat) list" where "fs = [(16, unat offset), (16, unat seg), (3, 0), (5, 16), (4, 7),
    (1, unat dpl), (2, unat dpl div 2 mod 2 + 2), (1, 0), (16, unat offset div 2 ^ 16)]"
  have d: "unat dpl mod 4 = unat dpl mod 2 + 2 * (unat dpl div 2 mod 2)"
    using mod_mult2_eq [of "unat dpl" 2 2] by simp
  have e: "pack_fields [(16, unat offset), (16, unat seg), (2, 0), (10, 0x1e0), (2, unat dpl), (1, 1), (1, 0),
        (16, unat offset div 2 ^ 16)] = pack_fields fs"
    by (simp add: fs_def d)
  have low: "unat (fst (trap_gate junk 0 offset seg dpl)) = pack_fields fs"
    unfolding trap_gate_def fst_conv e by (rule unat_pack_fields) (simp add: fs_def)
  have f: "unpack_fields [16, 16, 3, 5, 4, 1, 2, 1, 16] (pack_fields fs) = map (\<lambda>(w, v). v mod 2 ^ w) fs"
    using unpack_pack_fields [of fs] by (simp add: fs_def del: pack_fields.simps unpack_fields.simps)
  show "hw_present (hw_read_gate (trap_gate junk 0 offset seg dpl)) = False"
    "hw_type (hw_read_gate (trap_gate junk 0 offset seg dpl)) = 7"
    unfolding hw_read_gate_def low f by (simp_all add: fs_def Let_def)
qed

end
