(* ===== verification/Interrupts.thy ===== *)
theory Interrupts imports Descriptors Time Syscalls begin

unbundle bit_operations_syntax

text \<open>
  Interrupts (infos/kernel/irq.cpp, infos/arch/x86/irq.cpp, drivers/irq/ioapic.cpp, drivers/irq/lapic.cpp,
  drivers/timer/lapic-timer.cpp, drivers/timer/pit.cpp): interrupt objects and their descriptors, the
  two interrupt controllers, the timer, and the handlers that the kernel installs.
\<close>

section \<open>Interrupt objects\<close>

text \<open>The subclasses of \<open>IRQ\<close>; a handler is a function pointer with its private data.\<close>

datatype lvt = LVT_Timer | LVT_PMU | LVT_LINT0 | LVT_LINT1 | LVT_Error

datatype irq_kind = Exception_IRQ | Software_IRQ | IOAPIC_IRQ | LAPIC_IRQ lvt

record 'h irq_obj =
  irq_nr :: u32
  irq_handler :: "'h option"
  irq_priv :: u64
  irq_class :: irq_kind

definition irq_new :: "irq_kind \<Rightarrow> 'h irq_obj" where
  "irq_new kind = \<lparr>irq_nr = 0, irq_handler = None, irq_priv = 0, irq_class = kind\<rparr>"

definition irq_assign :: "u32 \<Rightarrow> 'h irq_obj \<Rightarrow> 'h irq_obj" where
  "irq_assign nr obj = obj\<lparr>irq_nr := nr\<rparr>"

definition irq_attach :: "'h option \<Rightarrow> u64 \<Rightarrow> 'h irq_obj \<Rightarrow> 'h irq_obj" where
  "irq_attach handler priv obj = obj\<lparr>irq_handler := handler, irq_priv := priv\<rparr>"

text \<open>
  What the machine does when the kernel calls a handler, acknowledges an interrupt and logs that
  nobody handled one; \<open>'s\<close> is the state of the kernel.
\<close>

record ('h, 's) irq_env =
  call_handler :: "'h \<Rightarrow> u32 \<Rightarrow> u64 \<Rightarrow> 's \<Rightarrow> 's res"
  signal_eoi :: "'s \<Rightarrow> 's"
  warn_nobody :: "u32 \<Rightarrow> 's \<Rightarrow> 's"

definition irq_invoke :: "('h, 's) irq_env \<Rightarrow> 'h irq_obj \<Rightarrow> 's \<Rightarrow> (bool \<times> 's) res" where
  "irq_invoke env obj s =
     (case irq_handler obj of
        Some h \<Rightarrow> res_bind (call_handler env h (irq_nr obj) (irq_priv obj) s) (\<lambda>s1. Inr (True, s1))
      | None \<Rightarrow> Inr (False, s))"

text \<open>\<open>handle\<close> of the exceptions, the software interrupts, the IOAPIC and the local APIC.\<close>

definition must_invoke :: "('h, 's) irq_env \<Rightarrow> 'h irq_obj \<Rightarrow> 's \<Rightarrow> 's res" where
  "must_invoke env obj s =
     res_bind (irq_invoke env obj s) (\<lambda>(done, s1). if \<not> done then Inl Aborted else Inr s1)"

definition ioapic_irq_handle :: "('h, 's) irq_env \<Rightarrow> 'h irq_obj \<Rightarrow> 's \<Rightarrow> 's res" where
  "ioapic_irq_handle env obj s = res_bind (irq_invoke env obj s) (\<lambda>(_, s1). Inr (signal_eoi env s1))"

definition lapic_irq_handle :: "('h, 's) irq_env \<Rightarrow> 'h irq_obj \<Rightarrow> 's \<Rightarrow> 's res" where
  "lapic_irq_handle env obj s =
     res_bind (irq_invoke env obj s) (\<lambda>(done, s1). if \<not> done then Inl Aborted else Inr (signal_eoi env s1))"

definition irq_handle :: "('h, 's) irq_env \<Rightarrow> 'h irq_obj \<Rightarrow> 's \<Rightarrow> 's res" where
  "irq_handle env obj s =
     (case irq_class obj of
        Exception_IRQ \<Rightarrow> must_invoke env obj s
      | Software_IRQ \<Rightarrow> must_invoke env obj s
      | IOAPIC_IRQ \<Rightarrow> ioapic_irq_handle env obj s
      | LAPIC_IRQ _ \<Rightarrow> lapic_irq_handle env obj s)"

section \<open>The interrupt manager\<close>

text \<open>Descriptors hold pointers to interrupt objects: indices of the objects created so far.\<close>

record 'h irq_mgr =
  irq_descs :: "nat option list"
  irq_objs :: "'h irq_obj list"

definition MAX_IRQS :: nat where
  "MAX_IRQS = 256"

definition irq_mgr_new :: "'h irq_mgr" where
  "irq_mgr_new = \<lparr>irq_descs = replicate MAX_IRQS None, irq_objs = []\<rparr>"

definition new_irq :: "irq_kind \<Rightarrow> 'h irq_mgr \<Rightarrow> nat \<times> 'h irq_mgr" where
  "new_irq kind m = (length (irq_objs m), m\<lparr>irq_objs := irq_objs m @ [irq_new kind]\<rparr>)"

definition upd_irq :: "nat \<Rightarrow> ('h irq_obj \<Rightarrow> 'h irq_obj) \<Rightarrow> 'h irq_mgr \<Rightarrow> 'h irq_mgr" where
  "upd_irq p f m = m\<lparr>irq_objs := (irq_objs m)[p := f (irq_objs m ! p)]\<rparr>"

text \<open>A descriptor gets an object, and the object its number.\<close>

definition connect_irq :: "nat \<Rightarrow> nat \<Rightarrow> 'h irq_mgr \<Rightarrow> 'h irq_mgr" where
  "connect_irq v p m = upd_irq p (irq_assign (of_nat v)) (m\<lparr>irq_descs := (irq_descs m)[v := Some p]\<rparr>)"

definition install_handler :: "irq_kind \<Rightarrow> u8 \<Rightarrow> 'h option \<Rightarrow> u64 \<Rightarrow> 'h irq_mgr \<Rightarrow> (bool \<times> 'h irq_mgr) res" where
  "install_handler kind nr handler priv m =
     (if unat nr \<ge> MAX_IRQS then Inr (False, m)
      else let m1 = (if irq_descs m ! unat nr = None
                     then let (p, m0) = new_irq kind m in connect_irq (unat nr) p m0 else m) in
           case irq_descs m1 ! unat nr of
             None \<Rightarrow> Inl Null_Deref
           | Some p \<Rightarrow> Inr (True, upd_irq p (irq_attach handler priv) m1))"

definition install_exception_handler where
  "install_exception_handler nr handler priv m = install_handler Exception_IRQ nr handler priv m"

definition install_software_handler where
  "install_software_handler nr handler priv m = install_handler Software_IRQ nr handler priv m"

text \<open>The loop of \<open>attach_irq\<close> over the vectors from \<open>i\<close> on.\<close>

fun free_vector :: "nat option list \<Rightarrow> nat \<Rightarrow> nat \<Rightarrow> nat option" where
  "free_vector ds i 0 = None"
| "free_vector ds i (Suc n) = (if ds ! i = None then Some i else free_vector ds (Suc i) n)"

definition attach_irq :: "nat option \<Rightarrow> 'h irq_mgr \<Rightarrow> bool \<times> 'h irq_mgr" where
  "attach_irq irq m =
     (case irq of
        None \<Rightarrow> (False, m)
      | Some p \<Rightarrow>
          (case free_vector (irq_descs m) 0x20 (0x100 - 0x20) of
             Some i \<Rightarrow> (True, connect_irq i p m)
           | None \<Rightarrow> (False, m)))"

text \<open>\<open>init\<close>: the gates, two of them twice, and the objects of the exceptions.\<close>

definition IRQ_TRAP :: nat where
  "IRQ_TRAP = 0x03"

definition IRQ_PAGE_FAULT :: nat where
  "IRQ_PAGE_FAULT = 0x0e"

definition IRQ_GPF :: nat where
  "IRQ_GPF = 0x0d"

definition IRQ_KERNEL_SYSCALL :: nat where
  "IRQ_KERNEL_SYSCALL = 0x80"

definition IRQ_USER_SYSCALL :: nat where
  "IRQ_USER_SYSCALL = 0x81"

fun register_gates :: "(nat \<Rightarrow> u32) \<Rightarrow> (nat \<Rightarrow> u64) \<Rightarrow> nat \<Rightarrow> nat \<Rightarrow> idt \<Rightarrow> idt res" where
  "register_gates junk entry i 0 t = Inr t"
| "register_gates junk entry i (Suc n) t =
     res_bind (register_interrupt_gate (junk i) (int i) (entry i) 8 0 t) (\<lambda>(_, t1).
       register_gates junk entry (Suc i) n t1)"

fun new_exceptions :: "nat \<Rightarrow> nat \<Rightarrow> 'h irq_mgr \<Rightarrow> 'h irq_mgr" where
  "new_exceptions i 0 m = m"
| "new_exceptions i (Suc n) m =
     (let (p, m1) = new_irq Exception_IRQ m in new_exceptions (Suc i) n (connect_irq i p m1))"

definition irq_manager_init ::
    "(nat \<Rightarrow> u32) \<Rightarrow> (nat \<Rightarrow> u64) \<Rightarrow> idt \<Rightarrow> 'h irq_mgr \<Rightarrow> (bool \<times> idt \<times> 'h irq_mgr) res" where
  "irq_manager_init junk entry t m =
     res_bind (register_gates junk entry 0 MAX_IRQS t) (\<lambda>t1.
     res_bind (register_interrupt_gate (junk MAX_IRQS) (int IRQ_TRAP) (entry IRQ_TRAP) 8 3 t1) (\<lambda>(_, t2).
     res_bind (register_interrupt_gate (junk (MAX_IRQS + 1)) (int IRQ_USER_SYSCALL) (entry IRQ_USER_SYSCALL) 8 3 t2)
       (\<lambda>(_, t3). Inr (True, snd (idt_reload t3), new_exceptions 0 32 m))))"

definition handle_raw_irq :: "('h, 's) irq_env \<Rightarrow> u32 \<Rightarrow> 'h irq_mgr \<Rightarrow> 's \<Rightarrow> 's res" where
  "handle_raw_irq env nr m s =
     res_bind (assert_that (unat nr < MAX_IRQS)) (\<lambda>_.
       case irq_descs m ! unat (ucast nr :: u8) of
         Some p \<Rightarrow> irq_handle env (irq_objs m ! p) s
       | None \<Rightarrow> Inr (warn_nobody env nr s))"

section \<open>The IOAPIC\<close>

text \<open>
  The registers behind the select and the data window, by the number selected; a redirection entry is
  packed like the descriptors, with \<open>destination\<close> on the byte after \<open>mask\<close>.
\<close>

record ioapic =
  io_nr_irqs :: u8
  io_regs :: "u32 \<Rightarrow> u32"

record redirection =
  re_vector :: nat
  re_delivery_mode :: nat
  re_destination_mode :: nat
  re_delivery_status :: nat
  re_pin_polarity :: nat
  re_remote_irr :: nat
  re_trigger_mode :: nat
  re_mask :: nat
  re_destination :: nat

definition re_low :: "redirection \<Rightarrow> u64" where
  "re_low e = of_nat (pack_fields
     [(8, re_vector e), (3, re_delivery_mode e), (1, re_destination_mode e), (1, re_delivery_status e),
      (1, re_pin_polarity e), (1, re_remote_irr e), (1, re_trigger_mode e), (1, re_mask e), (7, 0),
      (8, re_destination e), (32, 0)])"

definition re_blank :: redirection where
  "re_blank = \<lparr>re_vector = 0, re_delivery_mode = 0, re_destination_mode = 0, re_delivery_status = 0,
     re_pin_polarity = 0, re_remote_irr = 0, re_trigger_mode = 0, re_mask = 0, re_destination = 0\<rparr>"

definition io_write :: "u32 \<Rightarrow> u32 \<Rightarrow> ioapic \<Rightarrow> ioapic" where
  "io_write reg val d = d\<lparr>io_regs := (io_regs d)(reg := val)\<rparr>"

text \<open>The second word of the entry is zero: no field reaches it.\<close>

definition store_redir_entry :: "u8 \<Rightarrow> redirection \<Rightarrow> ioapic \<Rightarrow> ioapic res" where
  "store_redir_entry irq_index e d =
     res_bind (assert_that (irq_index < io_nr_irqs d)) (\<lambda>_.
       let reg = (0x10 + irq_index * 2 :: u8) in
       Inr (io_write (ucast reg + 1) 0 (io_write (ucast reg) (ucast (re_low e)) d)))"

fun blank_entries :: "nat \<Rightarrow> nat \<Rightarrow> ioapic \<Rightarrow> ioapic res" where
  "blank_entries i 0 d = Inr d"
| "blank_entries i (Suc n) d = res_bind (store_redir_entry (of_nat i) re_blank d) (blank_entries (Suc i) n)"

definition ioapic_init :: "ioapic \<Rightarrow> (bool \<times> ioapic) res" where
  "ioapic_init d =
     (let ver = io_regs d 1; d1 = d\<lparr>io_nr_irqs := ucast (drop_bit 16 ver)\<rparr> in
      res_bind (blank_entries 0 (unat (io_nr_irqs d1)) d1) (\<lambda>d2. Inr (True, d2)))"

definition request_physical_irq ::
    "bool \<Rightarrow> u32 \<Rightarrow> ioapic \<Rightarrow> 'h irq_mgr \<Rightarrow> (nat option \<times> ioapic \<times> 'h irq_mgr) res" where
  "request_physical_irq has_lapic phys_irq_nr d m =
     (if \<not> has_lapic then Inr (None, d, m)
      else if phys_irq_nr \<ge> ucast (io_nr_irqs d) then Inr (None, d, m)
      else let (p, m1) = new_irq IOAPIC_IRQ m; (ok, m2) = attach_irq (Some p) m1 in
           if \<not> ok then Inr (None, d, m2)
           else res_bind (store_redir_entry (ucast phys_irq_nr)
                  (re_blank\<lparr>re_vector := unat (irq_nr (irq_objs m2 ! p))\<rparr>) d)
                (\<lambda>d1. Inr (Some p, d1, m2)))"

section \<open>The local APIC\<close>

text \<open>The memory window of the device by word index, and what was written to it, in order.\<close>

datatype lapic_reg =
  LR_ID | LR_VER | LR_TPR | LR_EOI | LR_SVR | LR_ESR | LR_ICRLO | LR_ICRHI | LR_TIMER | LR_PCINT
  | LR_LINT0 | LR_LINT1 | LR_ERROR | LR_TICR | LR_TCCR | LR_TDCR

fun lapic_offset :: "lapic_reg \<Rightarrow> nat" where
  "lapic_offset LR_ID = 0x20" | "lapic_offset LR_VER = 0x30" | "lapic_offset LR_TPR = 0x80"
| "lapic_offset LR_EOI = 0xB0" | "lapic_offset LR_SVR = 0xF0" | "lapic_offset LR_ESR = 0x280"
| "lapic_offset LR_ICRLO = 0x300" | "lapic_offset LR_ICRHI = 0x310" | "lapic_offset LR_TIMER = 0x320"
| "lapic_offset LR_PCINT = 0x340" | "lapic_offset LR_LINT0 = 0x350" | "lapic_offset LR_LINT1 = 0x360"
| "lapic_offset LR_ERROR = 0x370" | "lapic_offset LR_TICR = 0x380" | "lapic_offset LR_TCCR = 0x390"
| "lapic_offset LR_TDCR = 0x3E0"

record lapic =
  la_window :: "nat \<Rightarrow> u32"
  la_timer_irq :: "nat option"
  la_writes :: "(lapic_reg \<times> u32) list"

definition lapic_write :: "lapic_reg \<Rightarrow> u32 \<Rightarrow> lapic \<Rightarrow> lapic" where
  "lapic_write reg v d =
     d\<lparr>la_window := (la_window d)(lapic_offset reg div 4 := v), la_writes := la_writes d @ [(reg, v)]\<rparr>"

definition lapic_read :: "lapic_reg \<Rightarrow> lapic \<Rightarrow> u32" where
  "lapic_read reg d = la_window d (lapic_offset reg div 4)"

definition lapic_set_flag :: "lapic_reg \<Rightarrow> u32 \<Rightarrow> lapic \<Rightarrow> lapic" where
  "lapic_set_flag reg v d = lapic_write reg (lapic_read reg d OR v) d"

definition lapic_clear_flag :: "lapic_reg \<Rightarrow> u32 \<Rightarrow> lapic \<Rightarrow> lapic" where
  "lapic_clear_flag reg v d = lapic_write reg (lapic_read reg d AND NOT v) d"

definition MASKED :: u32 where
  "MASKED = 0x00010000"

definition DELIVS :: u32 where
  "DELIVS = 0x00001000"

definition PERIODIC :: u32 where
  "PERIODIC = 0x00020000"

definition lapic_eoi :: "lapic \<Rightarrow> lapic" where
  "lapic_eoi d = lapic_write LR_EOI 0 d"

fun lvt_reg :: "lvt \<Rightarrow> lapic_reg" where
  "lvt_reg LVT_Timer = LR_TIMER"
| "lvt_reg LVT_PMU = LR_PCINT"
| "lvt_reg LVT_LINT0 = LR_LINT0"
| "lvt_reg LVT_LINT1 = LR_LINT1"
| "lvt_reg LVT_Error = LR_ERROR"

definition mask_interrupts :: "lvt \<Rightarrow> lapic \<Rightarrow> lapic" where
  "mask_interrupts l d = lapic_set_flag (lvt_reg l) MASKED d"

definition unmask_interrupts :: "lvt \<Rightarrow> lapic \<Rightarrow> lapic" where
  "unmask_interrupts l d = lapic_clear_flag (lvt_reg l) MASKED d"

definition set_timer_irq :: "u8 \<Rightarrow> lapic \<Rightarrow> lapic" where
  "set_timer_irq irq d = lapic_write LR_TIMER (lapic_read LR_TIMER d AND NOT 0xff OR ucast irq) d"

definition set_timer_divide :: "u8 \<Rightarrow> lapic \<Rightarrow> lapic" where
  "set_timer_divide v d = lapic_write LR_TDCR (ucast v) d"

definition set_timer_initial_count :: "u32 \<Rightarrow> lapic \<Rightarrow> lapic" where
  "set_timer_initial_count v d = lapic_write LR_TICR v d"

definition get_timer_current_count :: "lapic \<Rightarrow> u32" where
  "get_timer_current_count d = lapic_read LR_TCCR d"

definition set_timer_one_shot :: "lapic \<Rightarrow> lapic" where
  "set_timer_one_shot d = lapic_clear_flag LR_TIMER PERIODIC d"

definition set_timer_periodic :: "lapic \<Rightarrow> lapic" where
  "set_timer_periodic d = lapic_set_flag LR_TIMER PERIODIC d"

text \<open>\<open>enable\<close> and \<open>disable\<close> of an interrupt object: only those of the local APIC do anything.\<close>

definition irq_enable :: "irq_kind \<Rightarrow> lapic \<Rightarrow> lapic" where
  "irq_enable kind d = (case kind of LAPIC_IRQ l \<Rightarrow> unmask_interrupts l d | _ \<Rightarrow> d)"

definition irq_disable :: "irq_kind \<Rightarrow> lapic \<Rightarrow> lapic" where
  "irq_disable kind d = (case kind of LAPIC_IRQ l \<Rightarrow> mask_interrupts l d | _ \<Rightarrow> d)"

text \<open>\<open>icr k\<close> is what the \<open>k\<close>-th poll of the interrupt command register reads.\<close>

partial_function (option) wait_delivery :: "(nat \<Rightarrow> u32) \<Rightarrow> nat \<Rightarrow> nat option" where
  "wait_delivery icr k = (if icr k AND DELIVS \<noteq> 0 then wait_delivery icr (Suc k) else Some (Suc k))"

definition lapic_init :: "(nat \<Rightarrow> u32) \<Rightarrow> lapic \<Rightarrow> 'h irq_mgr \<Rightarrow> (bool \<times> lapic \<times> 'h irq_mgr) res" where
  "lapic_init icr d m =
     (let d1 = lapic_write LR_SVR 0x1ff d;
          d2 = lapic_write LR_ERROR MASKED (lapic_write LR_LINT1 MASKED
                 (lapic_write LR_LINT0 MASKED (lapic_write LR_TIMER MASKED d1)));
          d3 = (if drop_bit 16 (lapic_read LR_VER d2) AND 0xFF \<ge> 4 then lapic_write LR_PCINT MASKED d2 else d2);
          d4 = lapic_write LR_EOI 0 (lapic_write LR_ESR 0 (lapic_write LR_ESR 0 d3));
          d5 = lapic_write LR_ICRLO (0x00080000 OR 0x00000500 OR 0x00008000) (lapic_write LR_ICRHI 0 d4) in
      res_bind (loop_res (wait_delivery icr 0)) (\<lambda>_.
        let d6 = lapic_write LR_TPR 0 d5;
            (p, m1) = new_irq (LAPIC_IRQ LVT_Timer) m;
            d7 = d6\<lparr>la_timer_irq := Some p\<rparr>;
            (ok, m2) = attach_irq (Some p) m1 in
        if \<not> ok then Inr (False, d7, m2)
        else Inr (True, set_timer_irq (ucast (irq_nr (irq_objs m2 ! p))) d7, m2)))"

section \<open>The reference timer and the timer of the local APIC\<close>

text \<open>What the interval timer writes to its ports, from what port \<open>0x61\<close> reads.\<close>

definition pit_start :: "u8 \<Rightarrow> (u16 \<times> u8) list" where
  "pit_start inb = (let data = inb AND 0xfe in [(0x61, data), (0x61, data OR 1)])"

definition pit_expired :: "u8 \<Rightarrow> bool" where
  "pit_expired inb \<longleftrightarrow> inb AND 0x20 = 0"

definition pit_init_oneshot :: "u8 \<Rightarrow> u64 \<Rightarrow> (u16 \<times> u8) list" where
  "pit_init_oneshot inb period =
     [(0x61, inb AND 0xfd OR 1), (0x43, 0xb2), (0x42, ucast period), (0x42, ucast (drop_bit 8 period))]"

text \<open>The timer owns the interrupt object of the local APIC, whose class is \<open>LAPIC_IRQ LVT_Timer\<close>.\<close>

definition timer_start :: "lapic \<Rightarrow> lapic" where
  "timer_start d = irq_enable (LAPIC_IRQ LVT_Timer) d"

definition timer_stop :: "lapic \<Rightarrow> lapic" where
  "timer_stop d = irq_disable (LAPIC_IRQ LVT_Timer) d"

definition timer_reset :: "lapic \<Rightarrow> lapic" where
  "timer_reset d = set_timer_initial_count 0 (irq_disable (LAPIC_IRQ LVT_Timer) d)"

definition timer_init_oneshot :: "u64 \<Rightarrow> lapic \<Rightarrow> lapic" where
  "timer_init_oneshot period d = set_timer_initial_count (ucast period) (set_timer_one_shot (timer_reset d))"

definition timer_init_periodic :: "u64 \<Rightarrow> lapic \<Rightarrow> lapic" where
  "timer_init_periodic period d = set_timer_initial_count (ucast period) (set_timer_periodic (timer_reset d))"

definition timer_count :: "lapic \<Rightarrow> u64" where
  "timer_count d = ucast (get_timer_current_count d)"

definition CALIBRATION_TICKS :: u16 where
  "CALIBRATION_TICKS = of_nat (1193180 * 10 div 1000)"

text \<open>
  \<open>inb k\<close> is what the \<open>k\<close>-th read of port \<open>0x61\<close> gives: the first two reads set up and start the interval
  timer, the others wait for it to expire.
\<close>

partial_function (option) spin_pit :: "(nat \<Rightarrow> u8) \<Rightarrow> nat \<Rightarrow> nat option" where
  "spin_pit inb k = (if \<not> pit_expired (inb k) then spin_pit inb (Suc k) else Some (Suc k))"

text \<open>
  \<open>run w k d\<close> is the local APIC when the interval timer, which got the writes \<open>w\<close>, has expired by the
  \<open>k\<close>-th read, during which the local APIC counts down.
\<close>

definition calibrate ::
    "bool \<Rightarrow> (nat \<Rightarrow> u8) \<Rightarrow> ((u16 \<times> u8) list \<Rightarrow> nat \<Rightarrow> lapic \<Rightarrow> lapic) \<Rightarrow> lapic \<Rightarrow> (u64 option \<times> lapic) res" where
  "calibrate has_pit inb run d =
     (if \<not> has_pit then Inr (None, d)
      else let d1 = timer_start (timer_init_oneshot 0xffffffff d);
               w = pit_init_oneshot (inb 0) (ucast CALIBRATION_TICKS) @ pit_start (inb 1) in
           res_bind (loop_res (spin_pit inb 2)) (\<lambda>k.
             let d2 = timer_stop (run w k d1);
                 ticks0 = (ucast (0xffffffff - timer_count d2) :: u32);
                 ticks = push_bit 4 ticks0 in
             Inr (Some (ucast (ticks * (1000 div 10))), d2)))"

text \<open>\<open>init\<close> of the timer: the handler, the divider, a first count, the calibration.\<close>

definition lapic_timer_init ::
    "'h \<Rightarrow> u64 \<Rightarrow> bool \<Rightarrow> (nat \<Rightarrow> u8) \<Rightarrow> ((u16 \<times> u8) list \<Rightarrow> nat \<Rightarrow> lapic \<Rightarrow> lapic) \<Rightarrow> lapic option \<Rightarrow> 'h irq_mgr \<Rightarrow>
     (u64 option \<times> lapic option \<times> 'h irq_mgr) res" where
  "lapic_timer_init handler this has_pit inb run lap m =
     (case lap of
        None \<Rightarrow> Inr (None, None, m)
      | Some d \<Rightarrow>
          (case la_timer_irq d of
             None \<Rightarrow> Inl Null_Deref
           | Some p \<Rightarrow>
               let m1 = upd_irq p (irq_attach (Some handler) this) m;
                   d1 = set_timer_initial_count 1 (set_timer_divide 3 d) in
               res_bind (calibrate has_pit inb run d1) (\<lambda>(freq, d2). Inr (freq, Some d2, m1))))"

text \<open>The end of \<open>timer_init\<close> in devices.cpp: ten milliseconds, periodically.\<close>

definition start_system_timer :: "u64 \<Rightarrow> lapic \<Rightarrow> lapic" where
  "start_system_timer frequency d = timer_start (timer_init_periodic (drop_bit 4 frequency div 100) d)"

section \<open>The handlers of the kernel\<close>

datatype kernel_handler =
  H_Page_Fault | H_GPF | H_Trap | H_Kernel_Syscall | H_User_Syscall | H_Timer | H_Keyboard

record kernel_irq =
  q_kernel :: kstate
  q_clock :: kclock
  q_lapic :: lapic
  q_unclaimed :: "u32 list"

text \<open>The handler of the timer: the clock, the accounting and the scheduler, which reads the clock.\<close>

definition timer_tick :: "kclock \<times> sched \<Rightarrow> (kclock \<times> sched) res" where
  "timer_tick cs =
     (let c = update_runtime (fst cs) (duration_cast 1000000 1 10);
          s = (snd cs)\<lparr>now := runtime c\<rparr> in
      res_bind (schedule (update_accounting s)) (\<lambda>s1. Inr (c, s1)))"

text \<open>
  The page fault handler ends the process of the current thread; the flag says that \<open>terminate\<close>
  stopped the thread that runs it.
\<close>

definition handle_page_fault :: "nat \<Rightarrow> kstate \<Rightarrow> (bool \<times> kstate) res" where
  "handle_page_fault n k =
     (case cur_thread (k_sched k) of
        None \<Rightarrow> Inl Aborted
      | Some t \<Rightarrow> process_terminate n (t_process (k_threads k t)) k)"

text \<open>Both dump the context of the current thread, through its pointer, and stop the system.\<close>

definition general_protection_fault :: "kstate \<Rightarrow> kstate res" where
  "general_protection_fault k = (if cur_thread (k_sched k) = None then Inl Null_Deref else Inl Aborted)"

definition trap_interrupt :: "kstate \<Rightarrow> kstate res" where
  "trap_interrupt k = (if cur_thread (k_sched k) = None then Inl Null_Deref else Inl Aborted)"

text \<open>\<open>other\<close> runs the handlers of the keyboard and of user system calls, modelled in their own theories.\<close>

definition run_kernel_handler ::
    "nat \<Rightarrow> (kernel_handler \<Rightarrow> kernel_irq \<Rightarrow> kernel_irq res) \<Rightarrow> kernel_handler \<Rightarrow> kernel_irq \<Rightarrow> kernel_irq res" where
  "run_kernel_handler n other h q =
     (case h of
        H_Page_Fault \<Rightarrow> res_bind (handle_page_fault n (q_kernel q)) (\<lambda>(_, k). Inr (q\<lparr>q_kernel := k\<rparr>))
      | H_GPF \<Rightarrow> res_bind (general_protection_fault (q_kernel q)) (\<lambda>k. Inr (q\<lparr>q_kernel := k\<rparr>))
      | H_Trap \<Rightarrow> res_bind (trap_interrupt (q_kernel q)) (\<lambda>k. Inr (q\<lparr>q_kernel := k\<rparr>))
      | H_Kernel_Syscall \<Rightarrow>
          (case cur_thread (k_sched (q_kernel q)) of
             None \<Rightarrow> Inl Null_Deref
           | Some t \<Rightarrow>
               let k = q_kernel q;
                   rax = win_read (k_mach k) (ctx_addr (native_context (k_threads k t)) RAX) in
               res_bind (kernel_syscall_handler rax (k_sched k)) (\<lambda>s. Inr (q\<lparr>q_kernel := k\<lparr>k_sched := s\<rparr>\<rparr>)))
      | H_Timer \<Rightarrow>
          res_bind (timer_tick (q_clock q, k_sched (q_kernel q))) (\<lambda>(c, s).
            Inr (q\<lparr>q_clock := c, q_kernel := (q_kernel q)\<lparr>k_sched := s\<rparr>\<rparr>))
      | _ \<Rightarrow> other h q)"

definition kernel_irq_env ::
    "nat \<Rightarrow> (kernel_handler \<Rightarrow> kernel_irq \<Rightarrow> kernel_irq res) \<Rightarrow> (kernel_handler, kernel_irq) irq_env" where
  "kernel_irq_env n other =
     \<lparr>call_handler = (\<lambda>h _ _ q. run_kernel_handler n other h q),
      signal_eoi = (\<lambda>q. q\<lparr>q_lapic := lapic_eoi (q_lapic q)\<rparr>),
      warn_nobody = (\<lambda>nr q. q\<lparr>q_unclaimed := q_unclaimed q @ [nr]\<rparr>)\<rparr>"

text \<open>\<open>X86Arch::init_irq\<close> and the page fault handler, which the memory management installs.\<close>

definition arch_init_irq ::
    "(nat \<Rightarrow> u32) \<Rightarrow> (nat \<Rightarrow> u64) \<Rightarrow> idt \<Rightarrow> kernel_handler irq_mgr \<Rightarrow> (bool \<times> idt \<times> kernel_handler irq_mgr) res" where
  "arch_init_irq junk entry t m =
     res_bind (irq_manager_init junk entry t m) (\<lambda>(ok, t1, m1).
       if \<not> ok then Inr (False, t1, m1)
       else res_bind (install_exception_handler (of_nat IRQ_GPF) (Some H_GPF) 0 m1) (\<lambda>(_, m2).
            res_bind (install_exception_handler (of_nat IRQ_TRAP) (Some H_Trap) 0 m2) (\<lambda>(_, m3).
            res_bind (install_software_handler (of_nat IRQ_KERNEL_SYSCALL) (Some H_Kernel_Syscall) 0 m3) (\<lambda>(_, m4).
            res_bind (install_software_handler (of_nat IRQ_USER_SYSCALL) (Some H_User_Syscall) 0 m4) (\<lambda>(_, m5).
              Inr (True, t1, m5))))))"

definition install_page_fault_handler :: "kernel_handler irq_mgr \<Rightarrow> (bool \<times> kernel_handler irq_mgr) res" where
  "install_page_fault_handler m = install_exception_handler (of_nat IRQ_PAGE_FAULT) (Some H_Page_Fault) 0 m"

text \<open>\<open>Keyboard::init\<close>: the handler on physical interrupt 1, through a pointer that is not checked.\<close>

definition keyboard_hook ::
    "'h \<Rightarrow> u64 \<Rightarrow> bool \<Rightarrow> ioapic option \<Rightarrow> 'h irq_mgr \<Rightarrow> (bool \<times> ioapic option \<times> 'h irq_mgr) res" where
  "keyboard_hook handler this has_lapic io m =
     (if \<not> has_lapic then Inr (False, io, m)
      else case io of
        None \<Rightarrow> Inr (False, None, m)
      | Some d \<Rightarrow>
          res_bind (request_physical_irq True 1 d m) (\<lambda>(irq, d1, m1).
            case irq of
              None \<Rightarrow> Inl Null_Deref
            | Some p \<Rightarrow> Inr (True, Some d1, upd_irq p (irq_attach (Some handler) this) m1)))"

text \<open>
  \<open>timer_init\<close> of devices.cpp: both controllers, the reference timer and the timer of the local APIC
  are registered in this order; \<open>base\<close> is the base address register of the local APIC.
\<close>

definition timer_init ::
    "bool \<Rightarrow> u64 \<Rightarrow> (nat \<Rightarrow> u32) \<Rightarrow> (nat \<Rightarrow> u8) \<Rightarrow> ((u16 \<times> u8) list \<Rightarrow> nat \<Rightarrow> lapic \<Rightarrow> lapic) \<Rightarrow> lapic \<Rightarrow> ioapic \<Rightarrow>
     kernel_handler irq_mgr \<Rightarrow> (bool \<times> lapic \<times> ioapic \<times> kernel_handler irq_mgr) res" where
  "timer_init has_apic base icr inb run lap io m =
     (if \<not> has_apic then Inr (False, lap, io, m)
      else if base AND NOT 0xfff = 0 then Inr (False, lap, io, m)
      else res_bind (lapic_init icr lap m) (\<lambda>(ok1, lap1, m1).
        if \<not> ok1 then Inr (False, lap1, io, m1)
        else res_bind (ioapic_init io) (\<lambda>(ok2, io1).
          if \<not> ok2 then Inr (False, lap1, io1, m1)
          else res_bind (lapic_timer_init H_Timer 0 True inb run (Some lap1) m1) (\<lambda>(freq, lap2, m2).
            case (freq, lap2) of
              (Some f, Some d) \<Rightarrow> Inr (True, start_system_timer f d, io1, m2)
            | (_, Some d) \<Rightarrow> Inr (False, d, io1, m2)
            | _ \<Rightarrow> Inr (False, lap1, io1, m2)))))"

text \<open>
  The interrupts of a start of the machine, in the order of \<open>x86_init_top\<close> and \<open>x86_init_bottom\<close>: the
  table, the exceptions, page faults, the timer, then the keyboard with the console.
\<close>

definition boot_interrupts ::
    "(nat \<Rightarrow> u32) \<Rightarrow> (nat \<Rightarrow> u64) \<Rightarrow> u64 \<Rightarrow> (nat \<Rightarrow> u32) \<Rightarrow> (nat \<Rightarrow> u8) \<Rightarrow> ((u16 \<times> u8) list \<Rightarrow> nat \<Rightarrow> lapic \<Rightarrow> lapic) \<Rightarrow> idt \<Rightarrow>
     lapic \<Rightarrow> ioapic \<Rightarrow> (bool \<times> idt \<times> lapic \<times> ioapic option \<times> kernel_handler irq_mgr) res" where
  "boot_interrupts junk entry base icr inb run t lap io =
     res_bind (arch_init_irq junk entry (snd (idt_init t)) irq_mgr_new) (\<lambda>(_, t1, m1).
     res_bind (install_page_fault_handler m1) (\<lambda>(_, m2).
     res_bind (timer_init True base icr inb run lap io m2) (\<lambda>(ok, lap1, io1, m3).
       if \<not> ok then Inr (False, t1, lap1, Some io1, m3)
       else res_bind (keyboard_hook H_Keyboard 0 True (Some io1) m3) (\<lambda>(ok2, io2, m4).
         Inr (ok2, t1, lap1, io2, m4)))))"

end
