(* ===== verification/Interrupts_Spec.thy ===== *)
theory Interrupts_Spec imports Interrupts Sched_Spec begin

text \<open>
  The interrupt manager as a table from vectors to handlers, the route of a physical interrupt from a
  pin of the IOAPIC to its handler, the period of the system timer, and the interrupts of a kernel
  that has started.
\<close>

section \<open>The table of handlers\<close>

text \<open>Every connected object exists and has the number of its vector.\<close>

definition irq_inv :: "'h irq_mgr \<Rightarrow> bool" where
  "irq_inv m \<longleftrightarrow> length (irq_descs m) = 256 \<and>
     (\<forall>v p. v < 256 \<longrightarrow> irq_descs m ! v = Some p \<longrightarrow> p < length (irq_objs m) \<and> irq_nr (irq_objs m ! p) = of_nat v)"

text \<open>An object that no descriptor points to.\<close>

definition unconnected :: "nat \<Rightarrow> 'h irq_mgr \<Rightarrow> bool" where
  "unconnected p m \<longleftrightarrow> p < length (irq_objs m) \<and> (\<forall>v < 256. irq_descs m ! v \<noteq> Some p)"

type_synonym 'h irq_entry = "irq_kind \<times> 'h option \<times> u64"

definition entry_of :: "'h irq_obj \<Rightarrow> 'h irq_entry" where
  "entry_of obj = (irq_class obj, irq_handler obj, irq_priv obj)"

definition irq_table :: "'h irq_mgr \<Rightarrow> nat \<Rightarrow> 'h irq_entry option" where
  "irq_table m v = (if v < 256 then map_option (\<lambda>p. entry_of (irq_objs m ! p)) (irq_descs m ! v) else None)"

text \<open>What a vector does, by the table.\<close>

definition table_dispatch :: "('h, 's) irq_env \<Rightarrow> (nat \<Rightarrow> 'h irq_entry option) \<Rightarrow> nat \<Rightarrow> 's \<Rightarrow> 's res" where
  "table_dispatch env tbl v s =
     (case tbl v of
        None \<Rightarrow> Inr (warn_nobody env (of_nat v) s)
      | Some (kind, None, priv) \<Rightarrow> if kind = IOAPIC_IRQ then Inr (signal_eoi env s) else Inl Aborted
      | Some (kind, Some h, priv) \<Rightarrow>
          res_bind (call_handler env h (of_nat v) priv s) (\<lambda>s1.
            Inr (if kind = Exception_IRQ \<or> kind = Software_IRQ then s1 else signal_eoi env s1)))"

lemma irq_invD:
  assumes "irq_inv m" and "v < 256" and "irq_descs m ! v = Some p"
  shows "p < length (irq_objs m)" and "irq_nr (irq_objs m ! p) = of_nat v"
  using assms by (auto simp: irq_inv_def)

lemma irq_inv_length: "irq_inv m \<Longrightarrow> length (irq_descs m) = 256"
  by (simp add: irq_inv_def)

lemma of_nat_vector_eq:
  assumes "(of_nat u :: u32) = of_nat v" and "u < 256" and "v < 256"
  shows "u = v"
proof -
  have "unat (of_nat u :: u32) = unat (of_nat v :: u32)" using assms(1) by simp
  with assms(2, 3) show ?thesis by (simp add: unat_of_nat_u32)
qed

text \<open>One object serves one vector.\<close>

lemma irq_inv_inj:
  assumes "irq_inv m" and "u < 256" and "v < 256" and "irq_descs m ! u = Some p" and "irq_descs m ! v = Some p"
  shows "u = v"
  using irq_invD(2) [OF assms(1, 2, 4)] irq_invD(2) [OF assms(1, 3, 5)] of_nat_vector_eq assms(2, 3) by metis

lemma irq_inv_new [simp]: "irq_inv irq_mgr_new"
  by (simp add: irq_inv_def irq_mgr_new_def MAX_IRQS_def)

lemma irq_table_new [simp]: "irq_table irq_mgr_new = (\<lambda>_. None)"
  by (rule ext) (simp add: irq_table_def irq_mgr_new_def MAX_IRQS_def)

lemma new_irq_ok:
  assumes "irq_inv m" and "new_irq kind m = (p, m')"
  shows "irq_inv m'" and "irq_table m' = irq_table m" and "unconnected p m'"
    and "irq_objs m' ! p = irq_new kind" and "irq_descs m' = irq_descs m"
proof -
  have p: "p = length (irq_objs m)" and m': "m' = m\<lparr>irq_objs := irq_objs m @ [irq_new kind]\<rparr>"
    using assms(2) by (auto simp: new_irq_def)
  note d = irq_invD [OF assms(1)]
  show "irq_inv m'" using assms(1) by (auto simp: irq_inv_def m' nth_append)
  show "irq_table m' = irq_table m"
    by (rule ext) (auto simp: irq_table_def m' nth_append map_option_case dest: d split: option.split)
  show "unconnected p m'" by (auto simp: unconnected_def p m' dest: d)
  show "irq_objs m' ! p = irq_new kind" "irq_descs m' = irq_descs m" by (simp_all add: p m')
qed

lemma upd_irq_simps [simp]:
  "irq_descs (upd_irq p f m) = irq_descs m"
  "length (irq_objs (upd_irq p f m)) = length (irq_objs m)"
  "p < length (irq_objs m) \<Longrightarrow> irq_objs (upd_irq p f m) ! p = f (irq_objs m ! p)"
  "q \<noteq> p \<Longrightarrow> irq_objs (upd_irq p f m) ! q = irq_objs m ! q"
  by (simp_all add: upd_irq_def)

lemma connect_irq_simps [simp]:
  "irq_descs (connect_irq v p m) = (irq_descs m)[v := Some p]"
  "length (irq_objs (connect_irq v p m)) = length (irq_objs m)"
  "p < length (irq_objs m) \<Longrightarrow> irq_objs (connect_irq v p m) ! p = irq_assign (of_nat v) (irq_objs m ! p)"
  "q \<noteq> p \<Longrightarrow> irq_objs (connect_irq v p m) ! q = irq_objs m ! q"
  by (simp_all add: connect_irq_def upd_irq_def)

lemma irq_assign_simps [simp]:
  "irq_nr (irq_assign nr obj) = nr" "entry_of (irq_assign nr obj) = entry_of obj"
  "irq_class (irq_assign nr obj) = irq_class obj"
  "irq_nr (irq_attach h pr obj) = irq_nr obj" "entry_of (irq_attach h pr obj) = (irq_class obj, h, pr)"
  "entry_of (irq_new kind) = (kind, None, 0)" "irq_class (irq_new kind) = kind"
  by (simp_all add: irq_assign_def irq_attach_def entry_of_def irq_new_def)

lemma connect_irq_ok:
  assumes "irq_inv m" and "v < 256" and "unconnected p m"
  shows "irq_inv (connect_irq v p m)"
    and "irq_table (connect_irq v p m) = (irq_table m)(v \<mapsto> entry_of (irq_objs m ! p))"
proof -
  have p: "p < length (irq_objs m)" and free: "\<And>u. u < 256 \<Longrightarrow> irq_descs m ! u \<noteq> Some p"
    using assms(3) by (auto simp: unconnected_def)
  have l: "length (irq_descs m) = 256" by (rule irq_inv_length [OF assms(1)])
  have step: "q < length (irq_objs m) \<and> irq_nr (irq_objs (connect_irq v p m) ! q) = of_nat u"
    if u: "u < 256" and q: "(irq_descs m)[v := Some p] ! u = Some q" for u q
  proof (cases "u = v")
    case True with q l assms(2) p show ?thesis by simp
  next
    case False
    with q have "irq_descs m ! u = Some q" by simp
    with irq_invD [OF assms(1) u] free [OF u] show ?thesis by auto
  qed
  then show "irq_inv (connect_irq v p m)" by (simp add: irq_inv_def l)
  show "irq_table (connect_irq v p m) = (irq_table m)(v \<mapsto> entry_of (irq_objs m ! p))"
  proof
    fix u
    show "irq_table (connect_irq v p m) u = ((irq_table m)(v \<mapsto> entry_of (irq_objs m ! p))) u"
    proof (cases "u = v")
      case True with l assms(2) p show ?thesis by (simp add: irq_table_def)
    next
      case False
      show ?thesis
      proof (cases "irq_descs m ! u")
        case (Some q)
        show ?thesis
        proof (cases "u < 256")
          case True
          with Some free [OF True] have "q \<noteq> p" by auto
          with False Some show ?thesis by (simp add: irq_table_def)
        qed (use False in \<open>simp add: irq_table_def\<close>)
      qed (use False in \<open>simp add: irq_table_def\<close>)
    qed
  qed
qed

text \<open>A handler attached to the object of vector \<open>v\<close> changes the entry of \<open>v\<close> alone.\<close>

lemma attach_handler_ok:
  assumes "irq_inv m" and "v < 256" and "irq_descs m ! v = Some p"
  shows "irq_inv (upd_irq p (irq_attach h pr) m)"
    and "irq_table (upd_irq p (irq_attach h pr) m) = (irq_table m)(v \<mapsto> (irq_class (irq_objs m ! p), h, pr))"
proof -
  note p = irq_invD [OF assms]
  have nr: "irq_nr (irq_objs (upd_irq p (irq_attach h pr) m) ! q) = irq_nr (irq_objs m ! q)" for q
    by (cases "q = p") (use p in simp_all)
  show "irq_inv (upd_irq p (irq_attach h pr) m)"
    using assms(1) by (simp add: irq_inv_def nr)
  show "irq_table (upd_irq p (irq_attach h pr) m) = (irq_table m)(v \<mapsto> (irq_class (irq_objs m ! p), h, pr))"
  proof
    fix u
    show "irq_table (upd_irq p (irq_attach h pr) m) u =
        ((irq_table m)(v \<mapsto> (irq_class (irq_objs m ! p), h, pr))) u"
    proof (cases "u = v")
      case True with assms p show ?thesis by (simp add: irq_table_def)
    next
      case False
      show ?thesis
      proof (cases "u < 256 \<and> irq_descs m ! u \<noteq> None")
        case True
        then obtain q where q: "u < 256" "irq_descs m ! u = Some q" by auto
        with False irq_inv_inj [OF assms(1) q(1) assms(2)] assms(3) have "q \<noteq> p" by auto
        with q False show ?thesis by (simp add: irq_table_def)
      qed (use False in \<open>auto simp: irq_table_def\<close>)
    qed
  qed
qed

definition table_install ::
    "irq_kind \<Rightarrow> nat \<Rightarrow> 'h option \<Rightarrow> u64 \<Rightarrow> (nat \<Rightarrow> 'h irq_entry option) \<Rightarrow> nat \<Rightarrow> 'h irq_entry option" where
  "table_install kind v h pr tbl = tbl(v \<mapsto> (case tbl v of None \<Rightarrow> kind | Some (k, _) \<Rightarrow> k, h, pr))"

lemma unat_u8_less: "unat (nr :: u8) < 256"
  using unsigned_less [of nr, where 'a = nat] by simp

lemma install_handler_ok:
  assumes "irq_inv m"
  shows "\<exists>m'. install_handler kind nr h pr m = Inr (True, m') \<and> irq_inv m' \<and>
    irq_table m' = table_install kind (unat nr) h pr (irq_table m)"
proof -
  have v: "unat nr < 256" by (rule unat_u8_less)
  have l: "length (irq_descs m) = 256" by (rule irq_inv_length [OF assms])
  show ?thesis
  proof (cases "irq_descs m ! unat nr")
    case (Some p)
    note a = attach_handler_ok [OF assms v Some, of h pr]
    have "irq_table m (unat nr) = Some (entry_of (irq_objs m ! p))" using v Some by (simp add: irq_table_def)
    with a Some v show ?thesis
      by (simp add: install_handler_def MAX_IRQS_def table_install_def entry_of_def)
  next
    case None
    obtain p m0 where n: "new_irq kind m = (p, m0)" by fastforce
    note f = new_irq_ok [OF assms n]
    note c = connect_irq_ok [OF f(1) v f(3)]
    have p: "p < length (irq_objs m0)" using f(3) by (simp add: unconnected_def)
    have d: "irq_descs (connect_irq (unat nr) p m0) ! unat nr = Some p" using f(5) l v by simp
    note a = attach_handler_ok [OF c(1) v d, of h pr]
    have t: "irq_table m (unat nr) = None" using None by (simp add: irq_table_def)
    have "irq_table (upd_irq p (irq_attach h pr) (connect_irq (unat nr) p m0))
        = table_install kind (unat nr) h pr (irq_table m)"
      using a(2) c(2) f(2, 4) p t by (simp add: table_install_def)
    with a(1) d None n v show ?thesis
      by (simp add: install_handler_def MAX_IRQS_def)
  qed
qed

lemma free_vector_cases:
  "(case free_vector ds i n of
      Some v \<Rightarrow> i \<le> v \<and> v < i + n \<and> ds ! v = None \<and> (\<forall>u. i \<le> u \<longrightarrow> u < v \<longrightarrow> ds ! u \<noteq> None)
    | None \<Rightarrow> (\<forall>u. i \<le> u \<longrightarrow> u < i + n \<longrightarrow> ds ! u \<noteq> None))"
proof (induction n arbitrary: i)
  case (Suc n)
  show ?case
  proof (cases "ds ! i")
    case (Some q)
    have le: "i \<le> u \<longleftrightarrow> u = i \<or> Suc i \<le> u" for u by auto
    from Suc [of "Suc i"] Some show ?thesis by (auto simp: le split: option.splits)
  qed simp
qed simp

lemma irq_table_None: "v < 256 \<Longrightarrow> irq_table m v = None \<longleftrightarrow> irq_descs m ! v = None"
  by (simp add: irq_table_def)

text \<open>\<open>attach_irq\<close> takes the first vector from 32 on that has no entry.\<close>

lemma attach_irq_ok:
  assumes "irq_inv m" and "unconnected p m"
  shows "(\<exists>v. 32 \<le> v \<and> v < 256 \<and> irq_table m v = None \<and> (\<forall>u. 32 \<le> u \<longrightarrow> u < v \<longrightarrow> irq_table m u \<noteq> None) \<and>
       attach_irq (Some p) m = (True, connect_irq v p m)) \<or>
    ((\<forall>u. 32 \<le> u \<longrightarrow> u < 256 \<longrightarrow> irq_table m u \<noteq> None) \<and> attach_irq (Some p) m = (False, m))"
proof (cases "free_vector (irq_descs m) 32 224")
  case None
  then show ?thesis
    using free_vector_cases [where ds = "irq_descs m" and i = 32 and n = 224] by (auto simp: attach_irq_def irq_table_None)
next
  case (Some v)
  then have v: "32 \<le> v" "v < 256" "irq_descs m ! v = None" "\<forall>u. 32 \<le> u \<longrightarrow> u < v \<longrightarrow> irq_descs m ! u \<noteq> None"
    using free_vector_cases [where ds = "irq_descs m" and i = 32 and n = 224] by auto
  have "\<forall>u. 32 \<le> u \<longrightarrow> u < v \<longrightarrow> irq_table m u \<noteq> None" using v(2, 4) by (auto simp: irq_table_None)
  moreover have "irq_table m v = None" using v by (simp add: irq_table_None)
  ultimately show ?thesis using Some v(1, 2) by (auto simp: attach_irq_def)
qed

lemma irq_handle_table:
  assumes "irq_inv m" and "v < 256" and "irq_descs m ! v = Some p"
  shows "irq_handle env (irq_objs m ! p) s = table_dispatch env (irq_table m) v s"
proof -
  have t: "irq_table m v = Some (entry_of (irq_objs m ! p))" using assms by (simp add: irq_table_def)
  have nr: "irq_nr (irq_objs m ! p) = of_nat v" by (rule irq_invD [OF assms])
  show ?thesis
    by (cases "irq_class (irq_objs m ! p)"; cases "irq_handler (irq_objs m ! p)")
      (simp_all add: table_dispatch_def t irq_handle_def entry_of_def must_invoke_def ioapic_irq_handle_def
        lapic_irq_handle_def irq_invoke_def nr res_bind_def split: sum.split)
qed

lemma handle_raw_irq_table:
  assumes "irq_inv m" and "unat n < 256"
  shows "handle_raw_irq env n m s = table_dispatch env (irq_table m) (unat n) s"
proof -
  have u: "unat (ucast n :: u8) = unat n" using assms(2) by (simp add: unsigned_ucast_eq take_bit_eq_mod)
  show ?thesis
  proof (cases "irq_descs m ! unat n")
    case None
    then show ?thesis
      using assms(2) by (simp add: handle_raw_irq_def MAX_IRQS_def u table_dispatch_def irq_table_def)
  next
    case (Some p)
    then show ?thesis
      using irq_handle_table [OF assms(1, 2) Some] assms(2) by (simp add: handle_raw_irq_def MAX_IRQS_def u)
  qed
qed

section \<open>The gates\<close>

lemma idt_put_ok:
  assumes "v < 256" and "length (idt_gates t) = 256"
  shows "\<exists>t'. idt_put (int v) g t = Inr (True, t') \<and> idt_gates t' = (idt_gates t)[v := g] \<and>
    unat (idt_max_index t') = max (unat (idt_max_index t)) v"
proof -
  have "unat (of_int (int v) :: u8) = v" using assms(1) by (simp add: unsigned_of_nat take_bit_eq_mod)
  moreover have "uint (idt_max_index t) < int v \<longleftrightarrow> unat (idt_max_index t) < v"
    unfolding uint_nat by (rule of_nat_less_iff)
  ultimately show ?thesis
    using assms by (auto simp: idt_put_def MAX_NR_IDT_ENTRIES_def Let_def max_def)
qed

lemma register_gates_ok:
  assumes "i + n \<le> 256" and "length (idt_gates t) = 256"
  shows "\<exists>t'. register_gates junk entry i n t = Inr t' \<and> length (idt_gates t') = 256 \<and>
    (\<forall>v. idt_gates t' ! v =
       (if i \<le> v \<and> v < i + n then interrupt_gate (junk v) (entry v) 8 0 else idt_gates t ! v)) \<and>
    unat (idt_max_index t') = (if n = 0 then unat (idt_max_index t) else max (unat (idt_max_index t)) (i + n - 1))"
  using assms
proof (induction n arbitrary: i t)
  case (Suc n)
  then have i: "i < 256" by simp
  from idt_put_ok [OF i Suc.prems(2), of "interrupt_gate (junk i) (entry i) 8 0"]
  obtain t1 where t1: "idt_put (int i) (interrupt_gate (junk i) (entry i) 8 0) t = Inr (True, t1)"
      "idt_gates t1 = (idt_gates t)[i := interrupt_gate (junk i) (entry i) 8 0]"
      "unat (idt_max_index t1) = max (unat (idt_max_index t)) i" by blast
  have "length (idt_gates t1) = 256" using t1(2) Suc.prems(2) by simp
  from Suc.IH [OF _ this, of "Suc i"] Suc.prems(1) obtain t2 where
    t2: "register_gates junk entry (Suc i) n t1 = Inr t2" "length (idt_gates t2) = 256"
      "\<forall>v. idt_gates t2 ! v = (if Suc i \<le> v \<and> v < Suc i + n then interrupt_gate (junk v) (entry v) 8 0 else idt_gates t1 ! v)"
      "unat (idt_max_index t2) = (if n = 0 then unat (idt_max_index t1) else max (unat (idt_max_index t1)) (Suc i + n - 1))"
    by auto
  have "idt_gates t2 ! v = (if i \<le> v \<and> v < i + Suc n then interrupt_gate (junk v) (entry v) 8 0 else idt_gates t ! v)" for v
    using t2(3) t1(2) i Suc.prems(2) by (cases "v = i") auto
  moreover have "unat (idt_max_index t2) = max (unat (idt_max_index t)) (i + Suc n - 1)"
    using t2(4) t1(3) by (auto simp: max_def)
  ultimately show ?case using t1(1) t2(1, 2) by (auto simp: register_interrupt_gate_def)
qed auto

lemma new_exceptions_ok:
  assumes "irq_inv m" and "i + n \<le> 32" and "\<forall>v. i \<le> v \<longrightarrow> v < i + n \<longrightarrow> irq_table m v = None"
  shows "irq_inv (new_exceptions i n m) \<and>
    irq_table (new_exceptions i n m) =
      (\<lambda>v. if i \<le> v \<and> v < i + n then Some (Exception_IRQ, None, 0) else irq_table m v)"
  using assms
proof (induction n arbitrary: i m)
  case (Suc n)
  obtain p m1 where n: "new_irq Exception_IRQ m = (p, m1)" by fastforce
  note f = new_irq_ok [OF Suc.prems(1) n]
  have "i < 256" using Suc.prems(2) by simp
  note c = connect_irq_ok [OF f(1) this f(3)]
  have free: "\<forall>v. Suc i \<le> v \<longrightarrow> v < Suc i + n \<longrightarrow> irq_table (connect_irq i p m1) v = None"
    using Suc.prems(3) c(2) f(2) by auto
  have step: "new_exceptions i (Suc n) m = new_exceptions (Suc i) n (connect_irq i p m1)" using n by simp
  note IH = Suc.IH [OF c(1) _ free]
  have "irq_table (new_exceptions (Suc i) n (connect_irq i p m1)) =
      (\<lambda>v. if Suc i \<le> v \<and> v < Suc i + n then Some (Exception_IRQ, None, 0) else irq_table (connect_irq i p m1) v)"
    using IH Suc.prems(2) by simp
  then have "irq_table (new_exceptions (Suc i) n (connect_irq i p m1)) v =
      (if i \<le> v \<and> v < i + Suc n then Some (Exception_IRQ, None, 0) else irq_table m v)" for v
    using c(2) f(2, 4) by (cases "v = i") auto
  then show ?case using IH Suc.prems(2) step by auto
qed (auto simp: fun_eq_iff)

text \<open>The table after the start of the manager, and what the processor reads from each gate.\<close>

definition gate_of :: "(nat \<Rightarrow> u64) \<Rightarrow> nat \<Rightarrow> hw_gate" where
  "gate_of entry v = \<lparr>hw_offset = unat (entry v), hw_selector = 8, hw_type = 0xe,
     hw_dpl = (if v = 3 \<or> v = 0x81 then 3 else 0), hw_present = True\<rparr>"

lemma irq_manager_init_ok:
  assumes "length (idt_gates t) = 256" and "irq_inv m" and "\<forall>v < 32. irq_table m v = None"
  shows "\<exists>t' m'. irq_manager_init junk entry t m = Inr (True, t', m') \<and> irq_inv m' \<and>
    irq_table m' = (\<lambda>v. if v < 32 then Some (Exception_IRQ, None, 0) else irq_table m v) \<and>
    (\<forall>v < 256. hw_read_gate (idt_gates t' ! v) = gate_of entry v) \<and> idtr_length t' = 4096"
proof -
  from register_gates_ok [of 0 256 t junk entry] assms(1) obtain t1 where
    t1: "register_gates junk entry 0 256 t = Inr t1" "length (idt_gates t1) = 256"
      "\<forall>v < 256. idt_gates t1 ! v = interrupt_gate (junk v) (entry v) 8 0"
      "unat (idt_max_index t1) = max (unat (idt_max_index t)) 255" by auto
  have m1: "unat (idt_max_index t1) = 255" using t1(4) unat_u8_less [of "idt_max_index t"] by (simp add: max_def)
  from idt_put_ok [of 3 t1 "interrupt_gate (junk 256) (entry 3) 8 3"] t1(2) obtain t2 where
    t2: "idt_put 3 (interrupt_gate (junk 256) (entry 3) 8 3) t1 = Inr (True, t2)"
      "idt_gates t2 = (idt_gates t1)[3 := interrupt_gate (junk 256) (entry 3) 8 3]"
      "unat (idt_max_index t2) = max (unat (idt_max_index t1)) 3" by auto
  from idt_put_ok [of 129 t2 "interrupt_gate (junk 257) (entry 0x81) 8 3"] t1(2) t2(2) obtain t3 where
    t3: "idt_put 0x81 (interrupt_gate (junk 257) (entry 0x81) 8 3) t2 = Inr (True, t3)"
      "idt_gates t3 = (idt_gates t2)[0x81 := interrupt_gate (junk 257) (entry 0x81) 8 3]"
      "unat (idt_max_index t3) = max (unat (idt_max_index t2)) 0x81" by auto
  have "unat (idt_max_index t3) = 255" using t3(3) t2(3) m1 by simp
  then have "of_nat (unat (idt_max_index t3)) = (of_nat 255 :: u8)" by simp
  then have "idt_max_index t3 = 255" by simp
  then have len: "idtr_length (snd (idt_reload t3)) = 4096" by (simp add: idt_reload_def)
  have g: "hw_read_gate (idt_gates (snd (idt_reload t3)) ! v) = gate_of entry v" if "v < 256" for v
    using that t1(2, 3) t2(2) t3(2)
    by (cases "v = 0x81"; cases "v = 3") (simp_all add: idt_reload_def hw_read_interrupt_gate gate_of_def)
  have e: "irq_inv (new_exceptions 0 32 m)"
    "irq_table (new_exceptions 0 32 m) = (\<lambda>v. if v < 32 then Some (Exception_IRQ, None, 0) else irq_table m v)"
    using new_exceptions_ok [OF assms(2), of 0 32] assms(3) by auto
  have "irq_manager_init junk entry t m = Inr (True, snd (idt_reload t3), new_exceptions 0 32 m)"
    using t1(1) t2(1) t3(1)
    by (simp add: irq_manager_init_def MAX_IRQS_def IRQ_TRAP_def IRQ_USER_SYSCALL_def register_interrupt_gate_def)
  with e g len show ?thesis by blast
qed

section \<open>The route of a physical interrupt\<close>

lemma re_low_vector: "v < 256 \<Longrightarrow> re_low (re_blank\<lparr>re_vector := v\<rparr>) = of_nat v"
  by (simp add: re_low_def re_blank_def)

lemma re_low_blank: "re_low re_blank = 0"
  by (simp add: re_low_def re_blank_def)

lemma store_redir_entry_ok:
  assumes "i < io_nr_irqs d" and "unat i < 120"
  shows "store_redir_entry i e d =
    Inr (d\<lparr>io_regs := (io_regs d)(of_nat (0x10 + 2 * unat i) := ucast (re_low e), of_nat (0x11 + 2 * unat i) := 0)\<rparr>)"
proof -
  have u: "unat (0x10 + i * 2 :: u8) = 0x10 + 2 * unat i"
    using assms(2) by (simp add: unat_word_ariths)
  have "(ucast (0x10 + i * 2 :: u8) :: u32) = of_nat (unat (0x10 + i * 2 :: u8))"
    by simp
  then have r: "(ucast (0x10 + i * 2 :: u8) :: u32) = of_nat (0x10 + 2 * unat i)" using u by simp
  have "(of_nat (0x10 + 2 * unat i) :: u32) + 1 = of_nat (0x11 + 2 * unat i)" by simp
  with assms(1) r show ?thesis
    by (simp add: store_redir_entry_def io_write_def Let_def)
qed

text \<open>Clearing the entries: every write is of a zero, and the loop never leaves the guard.\<close>

lemma blank_entries_ok:
  assumes "i + n \<le> unat (io_nr_irqs d)"
  shows "\<exists>d'. blank_entries i n d = Inr d' \<and> io_nr_irqs d' = io_nr_irqs d \<and>
    (\<forall>r. io_regs d' r = io_regs d r \<or> io_regs d' r = 0) \<and>
    (\<forall>j. i \<le> j \<longrightarrow> j < i + n \<longrightarrow> j < 120 \<longrightarrow>
       io_regs d' (of_nat (0x10 + 2 * j)) = 0 \<and> io_regs d' (of_nat (0x11 + 2 * j)) = 0)"
  using assms
proof (induction n arbitrary: i d)
  case (Suc n)
  have nr: "unat (io_nr_irqs d) < 256" by (rule unat_u8_less)
  have u: "unat (of_nat i :: u8) = i" using Suc.prems nr by (simp add: unsigned_of_nat take_bit_eq_mod)
  have lt: "(of_nat i :: u8) < io_nr_irqs d" using Suc.prems u by (simp add: word_less_nat_alt)
  obtain d1 where d1: "store_redir_entry (of_nat i) re_blank d = Inr d1" "io_nr_irqs d1 = io_nr_irqs d"
      "\<forall>r. io_regs d1 r = io_regs d r \<or> io_regs d1 r = 0"
    using lt by (simp add: store_redir_entry_def io_write_def Let_def re_low_blank)
  have z: "io_regs d1 (of_nat (0x10 + 2 * i)) = 0 \<and> io_regs d1 (of_nat (0x11 + 2 * i)) = 0" if "i < 120"
    using store_redir_entry_ok [OF lt, of re_blank] that d1(1) u by (auto simp: re_low_blank)
  from Suc.IH [of "Suc i" d1] Suc.prems d1(2) obtain d' where
    d': "blank_entries (Suc i) n d1 = Inr d'" "io_nr_irqs d' = io_nr_irqs d1"
      "\<forall>r. io_regs d' r = io_regs d1 r \<or> io_regs d' r = 0"
      "\<forall>j. Suc i \<le> j \<longrightarrow> j < Suc i + n \<longrightarrow> j < 120 \<longrightarrow>
         io_regs d' (of_nat (0x10 + 2 * j)) = 0 \<and> io_regs d' (of_nat (0x11 + 2 * j)) = 0"
    by auto
  have "io_regs d' (of_nat (0x10 + 2 * j)) = 0 \<and> io_regs d' (of_nat (0x11 + 2 * j)) = 0"
    if "i \<le> j" "j < i + Suc n" "j < 120" for j
  proof (cases "j = i")
    case True
    with z that(3) d'(3) show ?thesis by metis
  next
    case False
    with that d'(4) show ?thesis by simp
  qed
  moreover have "\<forall>r. io_regs d' r = io_regs d r \<or> io_regs d' r = 0" using d'(3) d1(3) by metis
  ultimately show ?case using d'(1, 2) d1(1, 2) by simp
qed simp

lemma ioapic_init_ok:
  "\<exists>d'. ioapic_init d = Inr (True, d') \<and> io_nr_irqs d' = ucast (drop_bit 16 (io_regs d 1)) \<and>
    (\<forall>j < unat (io_nr_irqs d'). j < 120 \<longrightarrow>
       io_regs d' (of_nat (0x10 + 2 * j)) = 0 \<and> io_regs d' (of_nat (0x11 + 2 * j)) = 0)"
  using blank_entries_ok [of 0 "unat (ucast (drop_bit 16 (io_regs d 1)) :: u8)"
      "d\<lparr>io_nr_irqs := ucast (drop_bit 16 (io_regs d 1))\<rparr>"]
  by (auto simp: ioapic_init_def Let_def)

text \<open>A request that is granted: the first free vector, the entry of the pin, the new object.\<close>

lemma request_physical_irq_ok:
  assumes "irq_inv m" and "unat n < unat (io_nr_irqs d)" and "unat n < 120"
  shows "(\<exists>v p d' m'. request_physical_irq True n d m = Inr (Some p, d', m') \<and> 32 \<le> v \<and> v < 256 \<and>
       irq_table m v = None \<and> (\<forall>u. 32 \<le> u \<longrightarrow> u < v \<longrightarrow> irq_table m u \<noteq> None) \<and> irq_inv m' \<and>
       d' = d\<lparr>io_regs := (io_regs d)(of_nat (0x10 + 2 * unat n) := of_nat v, of_nat (0x11 + 2 * unat n) := 0)\<rparr> \<and>
       irq_descs m' ! v = Some p \<and> irq_class (irq_objs m' ! p) = IOAPIC_IRQ \<and>
       irq_table m' = (irq_table m)(v \<mapsto> (IOAPIC_IRQ, None, 0))) \<or>
    ((\<forall>u. 32 \<le> u \<longrightarrow> u < 256 \<longrightarrow> irq_table m u \<noteq> None) \<and>
     (\<exists>m'. request_physical_irq True n d m = Inr (None, d, m') \<and> irq_inv m' \<and> irq_table m' = irq_table m))"
proof -
  obtain p m1 where n: "new_irq IOAPIC_IRQ m = (p, m1)" by fastforce
  note f = new_irq_ok [OF assms(1) n]
  have guard: "\<not> n \<ge> ucast (io_nr_irqs d)"
    using assms(2) unat_u8_less [of "io_nr_irqs d"] by (simp add: word_le_nat_alt unsigned_ucast_eq take_bit_eq_mod)
  have small: "unat (ucast n :: u8) = unat n" using assms(3) by (simp add: unsigned_ucast_eq take_bit_eq_mod)
  from attach_irq_ok [OF f(1, 3)] show ?thesis
  proof (elim disjE exE conjE)
    fix v assume v: "32 \<le> v" "v < 256" "irq_table m1 v = None"
      "\<forall>u. 32 \<le> u \<longrightarrow> u < v \<longrightarrow> irq_table m1 u \<noteq> None" "attach_irq (Some p) m1 = (True, connect_irq v p m1)"
    have p: "p < length (irq_objs m1)" using f(3) by (simp add: unconnected_def)
    note c = connect_irq_ok [OF f(1) v(2) f(3)]
    have vec: "unat (irq_nr (irq_objs (connect_irq v p m1) ! p)) = v" using p v(2) by (simp add: unat_of_nat_u32)
    have lt: "(ucast n :: u8) < io_nr_irqs d" using assms(2) small by (simp add: word_less_nat_alt)
    have low: "(ucast (re_low (re_blank\<lparr>re_vector := v\<rparr>)) :: u32) = of_nat v"
    proof -
      have "(ucast (of_nat v :: u64) :: u32) = of_nat (unat (of_nat v :: u64))" by simp
      then show ?thesis using v(2) by (simp add: re_low_vector unat_of_nat_u64)
    qed
    have "request_physical_irq True n d m = Inr (Some p,
        d\<lparr>io_regs := (io_regs d)(of_nat (0x10 + 2 * unat n) := of_nat v, of_nat (0x11 + 2 * unat n) := 0)\<rparr>,
        connect_irq v p m1)"
      using store_redir_entry_ok [OF lt, of "re_blank\<lparr>re_vector := v\<rparr>"] small assms(3) guard n v(5) vec low
      by (simp add: request_physical_irq_def)
    moreover have "irq_descs (connect_irq v p m1) ! v = Some p"
      using v(2) irq_inv_length [OF f(1)] by simp
    ultimately show ?thesis using v c f(2, 4) p by auto
  next
    assume full: "\<forall>u. 32 \<le> u \<longrightarrow> u < 256 \<longrightarrow> irq_table m1 u \<noteq> None" "attach_irq (Some p) m1 = (False, m1)"
    then have "request_physical_irq True n d m = Inr (None, d, m1)"
      using guard n by (simp add: request_physical_irq_def)
    with full(1) f(1, 2) show ?thesis by auto
  qed
qed

section \<open>The period of the timer\<close>

lemma lapic_read_write [simp]:
  "lapic_read reg (lapic_write reg' v d) = (if reg = reg' then v else lapic_read reg d)"
  by (cases reg; cases reg') (simp_all add: lapic_read_def lapic_write_def)

lemma la_timer_irq_write [simp]: "la_timer_irq (lapic_write reg v d) = la_timer_irq d"
  by (simp add: lapic_write_def)

lemma lapic_read_timer_irq [simp]: "lapic_read reg (d\<lparr>la_timer_irq := x\<rparr>) = lapic_read reg d"
  by (simp add: lapic_read_def)

lemmas timer_defs = timer_start_def timer_stop_def timer_reset_def timer_init_oneshot_def timer_init_periodic_def
  irq_enable_def irq_disable_def mask_interrupts_def unmask_interrupts_def set_timer_initial_count_def
  set_timer_one_shot_def set_timer_periodic_def set_timer_divide_def lapic_set_flag_def lapic_clear_flag_def

lemma ticks_word:
  fixes e :: u32
  shows "unat (push_bit 4 e * 100) = (1600 * unat e) mod 2 ^ 32"
proof -
  have "push_bit 4 e * 100 = of_nat (1600 * unat e)" by (simp add: push_bit_eq_mult)
  then show ?thesis unfolding unsigned_of_nat take_bit_eq_mod by (simp only: unsigned_of_nat take_bit_eq_mod) simp
qed

lemma count_ticks:
  fixes e :: u32
  shows "(ucast ((0xffffffff :: u64) - ucast (0xffffffff - e)) :: u32) = e"
proof -
  have e: "unat e \<le> 0xffffffff" using unsigned_less [of e, where 'a = nat] by simp
  then have "unat (0xffffffff - e) = 0xffffffff - unat e"
    using unat_sub [of e "0xffffffff"] by (simp add: word_le_nat_alt)
  then have "unat ((0xffffffff :: u64) - ucast (0xffffffff - e)) = unat e"
    using unat_sub [of "ucast (0xffffffff - e)" "0xffffffff :: u64"] e by (simp add: word_le_nat_alt)
  then have "unat (ucast ((0xffffffff :: u64) - ucast (0xffffffff - e)) :: u32) = unat e"
    using e by (simp only: unsigned_ucast_eq take_bit_eq_mod) simp
  then show ?thesis by (simp only: unsigned_word_eqI)
qed

text \<open>
  How the interval timer is told to count to 11931, which at 1193180 Hz takes ten milliseconds: channel 2
  with its gate open and the speaker off, mode 1, the low and the high byte, and the gate closed and opened.
\<close>

definition ten_milliseconds :: "(nat \<Rightarrow> u8) \<Rightarrow> (u16 \<times> u8) list" where
  "ten_milliseconds inb =
     [(0x61, inb 0 AND 0xfd OR 1), (0x43, 0xb2), (0x42, of_nat (11931 mod 256)), (0x42, of_nat (11931 div 256)),
      (0x61, inb 1 AND 0xfe), (0x61, inb 1 AND 0xfe OR 1)]"

lemma pit_calibration:
  "pit_init_oneshot (inb 0) (ucast CALIBRATION_TICKS) @ pit_start (inb 1) = ten_milliseconds inb"
  by (simp add: pit_init_oneshot_def pit_start_def CALIBRATION_TICKS_def ten_milliseconds_def Let_def)

lemma calibrate_ok:
  assumes "spin_pit inb 2 = Some k"
    and "lapic_read LR_TCCR (run (ten_milliseconds inb) k (timer_start (timer_init_oneshot 0xffffffff d))) = 0xffffffff - e"
  shows "\<exists>f d2. calibrate True inb run d = Inr (Some f, d2) \<and> unat f = (1600 * unat e) mod 2 ^ 32 \<and>
    d2 = timer_stop (run (ten_milliseconds inb) k (timer_start (timer_init_oneshot 0xffffffff d)))"
proof -
  define d2 where "d2 = timer_stop (run (ten_milliseconds inb) k (timer_start (timer_init_oneshot 0xffffffff d)))"
  have "get_timer_current_count d2 = 0xffffffff - e"
    using assms(2) by (simp add: d2_def get_timer_current_count_def timer_stop_def irq_disable_def
        mask_interrupts_def lapic_set_flag_def)
  then have count: "timer_count d2 = ucast (0xffffffff - e)" by (simp add: timer_count_def)
  have ticks: "(ucast (0xffffffff - timer_count d2) :: u32) = e"
    unfolding count by (rule count_ticks)
  have "unat (ucast (push_bit 4 e * 100) :: u64) = (1600 * unat e) mod 2 ^ 32"
    using ticks_word [of e] by (simp add: unat_ucast_u64)
  then show ?thesis
    using assms(1) ticks by (simp add: calibrate_def pit_calibration [unfolded One_nat_def] d2_def [symmetric] Let_def)
qed

lemma mod_div_exact:
  fixes e :: nat
  shows "((1600 * e) mod 2 ^ 32) div 1600 = e \<longleftrightarrow> 1600 * e < 2 ^ 32"
proof
  assume "((1600 * e) mod 2 ^ 32) div 1600 = e"
  then have "1600 * e \<le> (1600 * e) mod 2 ^ 32" by (metis times_div_less_eq_dividend)
  also have "\<dots> < 2 ^ 32" by simp
  finally show "1600 * e < 2 ^ 32" .
qed simp

lemma start_system_timer_count:
  assumes "unat f = (1600 * unat e) mod 2 ^ 32"
  shows "unat (lapic_read LR_TICR (start_system_timer f d)) = unat f div 1600"
    and "lapic_read LR_TIMER (start_system_timer f d) =
      (lapic_read LR_TIMER d OR PERIODIC) AND NOT MASKED"
proof -
  have "unat (drop_bit 4 f div 100) = unat f div 1600"
    by (simp add: unat_div drop_bit_eq_div unat_drop_bit_eq div_mult2_eq)
  moreover have "unat f div 1600 < 2 ^ 32" using assms by (simp add: less_mult_imp_div_less)
  ultimately show "unat (lapic_read LR_TICR (start_system_timer f d)) = unat f div 1600"
    by (simp add: start_system_timer_def timer_defs unsigned_ucast_eq take_bit_eq_mod)
  show "lapic_read LR_TIMER (start_system_timer f d) = (lapic_read LR_TIMER d OR PERIODIC) AND NOT MASKED"
    by (simp add: start_system_timer_def timer_defs bit_eq_iff bit_simps) (auto)
qed

section \<open>The interrupts of a kernel that has started\<close>

lemma lapic_init_ok:
  assumes "irq_inv m" and "wait_delivery icr 0 = Some j" and "32 \<le> v" and "v < 256" and "irq_table m v = None"
    and "\<forall>u. 32 \<le> u \<longrightarrow> u < v \<longrightarrow> irq_table m u \<noteq> None"
  shows "\<exists>d' p m'. lapic_init icr d m = Inr (True, d', m') \<and> la_timer_irq d' = Some p \<and> irq_inv m' \<and>
    irq_descs m' ! v = Some p \<and> irq_class (irq_objs m' ! p) = LAPIC_IRQ LVT_Timer \<and>
    irq_table m' = (irq_table m)(v \<mapsto> (LAPIC_IRQ LVT_Timer, None, 0)) \<and>
    lapic_read LR_TIMER d' = MASKED OR of_nat v"
proof -
  obtain p m1 where n: "new_irq (LAPIC_IRQ LVT_Timer) m = (p, m1)" by fastforce
  note f = new_irq_ok [OF assms(1) n]
  have att: "attach_irq (Some p) m1 = (True, connect_irq v p m1)"
  proof -
    from attach_irq_ok [OF f(1, 3)] show ?thesis
    proof (elim disjE exE conjE)
      fix w assume w: "32 \<le> w" "w < 256" "irq_table m1 w = None" "\<forall>u. 32 \<le> u \<longrightarrow> u < w \<longrightarrow> irq_table m1 u \<noteq> None"
        "attach_irq (Some p) m1 = (True, connect_irq w p m1)"
      have "w = v"
        by (rule linorder_cases [of w v]) (use w(1, 3, 4) assms(3, 5, 6) f(2) in auto)
      with w(5) show ?thesis by simp
    qed (use assms(3-5) f(2) in auto)
  qed
  have p: "p < length (irq_objs m1)" using f(3) by (simp add: unconnected_def)
  note c = connect_irq_ok [OF f(1) assms(4) f(3)]
  have vec: "unat (ucast (of_nat v :: u32) :: u8) = v"
    using assms(4) by (simp add: unsigned_ucast_eq unsigned_of_nat take_bit_eq_mod)
  have v32: "unat (of_nat v :: u32) = v" using assms(4) by (simp add: unat_of_nat_u32)
  have "unat (ucast w :: u32) = unat w" for w :: u8
    using unat_u8_less [of w] by (simp add: unsigned_ucast_eq take_bit_eq_mod)
  then have low: "ucast (ucast (of_nat v :: u32) :: u8) = (of_nat v :: u32)"
    using vec v32 by (simp only: word_unat_eq_iff)
  have d: "irq_descs (connect_irq v p m1) ! v = Some p" using assms(4) irq_inv_length [OF f(1)] by simp
  have mask: "MASKED AND NOT 0xff = MASKED" by (simp add: MASKED_def)
  show ?thesis
    using assms(2) n att p c d f(2, 4) low mask
    by (simp add: lapic_init_def Let_def set_timer_irq_def)
qed

text \<open>The table of a kernel that has started.\<close>

definition boot_table :: "nat \<Rightarrow> kernel_handler irq_entry option" where
  "boot_table v =
     (if v = IRQ_PAGE_FAULT then Some (Exception_IRQ, Some H_Page_Fault, 0)
      else if v = IRQ_GPF then Some (Exception_IRQ, Some H_GPF, 0)
      else if v = IRQ_TRAP then Some (Exception_IRQ, Some H_Trap, 0)
      else if v < 32 then Some (Exception_IRQ, None, 0)
      else if v = 32 then Some (LAPIC_IRQ LVT_Timer, Some H_Timer, 0)
      else if v = 33 then Some (IOAPIC_IRQ, Some H_Keyboard, 0)
      else if v = IRQ_KERNEL_SYSCALL then Some (Software_IRQ, Some H_Kernel_Syscall, 0)
      else if v = IRQ_USER_SYSCALL then Some (Software_IRQ, Some H_User_Syscall, 0)
      else None)"

lemma arch_init_irq_ok:
  "\<exists>t' m'. res_bind (arch_init_irq junk entry (snd (idt_init t)) irq_mgr_new) (\<lambda>(_, t1, m1).
      res_bind (install_page_fault_handler m1) (\<lambda>(_, m2). Inr (t1, m2))) = Inr (t', m') \<and> irq_inv m' \<and>
    irq_table m' = boot_table(32 := None, 33 := None) \<and>
    (\<forall>v < 256. hw_read_gate (idt_gates t' ! v) = gate_of entry v) \<and> idtr_length t' = 4096"
proof -
  have l: "length (idt_gates (snd (idt_init t))) = 256" by (simp add: idt_init_def idt_reload_def)
  from irq_manager_init_ok [where m = "irq_mgr_new :: kernel_handler irq_mgr", OF l irq_inv_new, of junk entry, unfolded irq_table_new] obtain t1 and m1 :: "kernel_handler irq_mgr" where
    s1: "irq_manager_init junk entry (snd (idt_init t)) irq_mgr_new = Inr (True, t1, m1)" "irq_inv m1"
      "irq_table m1 = (\<lambda>v. if v < 32 then Some (Exception_IRQ, None, 0) else None)"
      "\<forall>v < 256. hw_read_gate (idt_gates t1 ! v) = gate_of entry v" "idtr_length t1 = 4096" by auto
  from install_handler_ok [OF s1(2), of Exception_IRQ "of_nat IRQ_GPF" "Some H_GPF" 0] obtain m2 where
    s2: "install_handler Exception_IRQ (of_nat IRQ_GPF) (Some H_GPF) 0 m1 = Inr (True, m2)" "irq_inv m2"
      "irq_table m2 = table_install Exception_IRQ (unat (of_nat IRQ_GPF :: u8)) (Some H_GPF) 0 (irq_table m1)" by blast
  from install_handler_ok [OF s2(2), of Exception_IRQ "of_nat IRQ_TRAP" "Some H_Trap" 0] obtain m3 where
    s3: "install_handler Exception_IRQ (of_nat IRQ_TRAP) (Some H_Trap) 0 m2 = Inr (True, m3)" "irq_inv m3"
      "irq_table m3 = table_install Exception_IRQ (unat (of_nat IRQ_TRAP :: u8)) (Some H_Trap) 0 (irq_table m2)" by blast
  from install_handler_ok [OF s3(2), of Software_IRQ "of_nat IRQ_KERNEL_SYSCALL" "Some H_Kernel_Syscall" 0] obtain m4 where
    s4: "install_handler Software_IRQ (of_nat IRQ_KERNEL_SYSCALL) (Some H_Kernel_Syscall) 0 m3 = Inr (True, m4)" "irq_inv m4"
      "irq_table m4 = table_install Software_IRQ (unat (of_nat IRQ_KERNEL_SYSCALL :: u8)) (Some H_Kernel_Syscall) 0 (irq_table m3)"
    by blast
  from install_handler_ok [OF s4(2), of Software_IRQ "of_nat IRQ_USER_SYSCALL" "Some H_User_Syscall" 0] obtain m5 where
    s5: "install_handler Software_IRQ (of_nat IRQ_USER_SYSCALL) (Some H_User_Syscall) 0 m4 = Inr (True, m5)" "irq_inv m5"
      "irq_table m5 = table_install Software_IRQ (unat (of_nat IRQ_USER_SYSCALL :: u8)) (Some H_User_Syscall) 0 (irq_table m4)"
    by blast
  from install_handler_ok [OF s5(2), of Exception_IRQ "of_nat IRQ_PAGE_FAULT" "Some H_Page_Fault" 0] obtain m6 where
    s6: "install_handler Exception_IRQ (of_nat IRQ_PAGE_FAULT) (Some H_Page_Fault) 0 m5 = Inr (True, m6)" "irq_inv m6"
      "irq_table m6 = table_install Exception_IRQ (unat (of_nat IRQ_PAGE_FAULT :: u8)) (Some H_Page_Fault) 0 (irq_table m5)"
    by blast
  note nrs = IRQ_GPF_def IRQ_TRAP_def IRQ_KERNEL_SYSCALL_def IRQ_USER_SYSCALL_def IRQ_PAGE_FAULT_def
  have "irq_table m6 = boot_table(32 := None, 33 := None)"
    by (rule ext) (simp add: s6(3) s5(3) s4(3) s3(3) s2(3) s1(3) table_install_def nrs boot_table_def)
  with s1(4, 5) s6(2) show ?thesis
    using s1(1) s2(1) s3(1) s4(1) s5(1) s6(1)
    by (simp add: arch_init_irq_def install_page_fault_handler_def install_exception_handler_def
        install_software_handler_def)
qed

section \<open>Properties\<close>

text \<open>C35: the interrupt manager implements a table from vectors to handlers: in every consistent state
  installing a handler sets the entry of its vector and keeps the class of an object that is there,
  attaching a fresh object takes the first vector from 32 on that is free or fails when there is none,
  a handler attached through the pointer of a vector changes that entry alone, the invariant is kept,
  and an interrupt does what the table says: calls the handler with its number and private data,
  acknowledges it where it came from a controller, halts on an unhandled exception, warns where nobody
  has the vector; a number from 256 on is refused.\<close>

theorem irq_dispatch_refines:
  fixes m :: "'h irq_mgr"
  assumes "irq_inv m"
  shows "(\<exists>m'. install_handler kind nr h pr m = Inr (True, m') \<and> irq_inv m' \<and>
       irq_table m' = table_install kind (unat nr) h pr (irq_table m)) \<and>
    (unconnected p m \<longrightarrow>
      (\<exists>v. 32 \<le> v \<and> v < 256 \<and> irq_table m v = None \<and> (\<forall>u. 32 \<le> u \<longrightarrow> u < v \<longrightarrow> irq_table m u \<noteq> None) \<and>
         (\<exists>m'. attach_irq (Some p) m = (True, m') \<and> irq_inv m' \<and>
            irq_table m' = (irq_table m)(v \<mapsto> entry_of (irq_objs m ! p)))) \<or>
      ((\<forall>u. 32 \<le> u \<longrightarrow> u < 256 \<longrightarrow> irq_table m u \<noteq> None) \<and> attach_irq (Some p) m = (False, m))) \<and>
    (v < 256 \<longrightarrow> irq_descs m ! v = Some q \<longrightarrow>
      irq_inv (upd_irq q (irq_attach h pr) m) \<and>
      irq_table (upd_irq q (irq_attach h pr) m) = (irq_table m)(v \<mapsto> (irq_class (irq_objs m ! q), h, pr))) \<and>
    handle_raw_irq env n m s =
      (if unat n < 256 then table_dispatch env (irq_table m) (unat n) s else Inl Assert_Fail)"
proof (intro conjI impI)
  show "\<exists>m'. install_handler kind nr h pr m = Inr (True, m') \<and> irq_inv m' \<and>
      irq_table m' = table_install kind (unat nr) h pr (irq_table m)"
    by (rule install_handler_ok [OF assms])
  show "handle_raw_irq env n m s =
      (if unat n < 256 then table_dispatch env (irq_table m) (unat n) s else Inl Assert_Fail)"
  proof (cases "unat n < 256")
    case True
    then show ?thesis by (simp add: handle_raw_irq_table [OF assms])
  next
    case False
    then show ?thesis by (simp add: handle_raw_irq_def MAX_IRQS_def)
  qed
next
  assume p: "unconnected p m"
  show "(\<exists>v. 32 \<le> v \<and> v < 256 \<and> irq_table m v = None \<and> (\<forall>u. 32 \<le> u \<longrightarrow> u < v \<longrightarrow> irq_table m u \<noteq> None) \<and>
        (\<exists>m'. attach_irq (Some p) m = (True, m') \<and> irq_inv m' \<and>
           irq_table m' = (irq_table m)(v \<mapsto> entry_of (irq_objs m ! p)))) \<or>
     ((\<forall>u. 32 \<le> u \<longrightarrow> u < 256 \<longrightarrow> irq_table m u \<noteq> None) \<and> attach_irq (Some p) m = (False, m))"
    using attach_irq_ok [OF assms p] connect_irq_ok [OF assms _ p] by blast
next
  assume v: "v < 256" "irq_descs m ! v = Some q"
  show "irq_inv (upd_irq q (irq_attach h pr) m)"
    "irq_table (upd_irq q (irq_attach h pr) m) = (irq_table m)(v \<mapsto> (irq_class (irq_objs m ! q), h, pr))"
    using attach_handler_ok [OF assms v] by simp_all
qed

definition no_env :: "(nat, nat) irq_env" where
  "no_env = \<lparr>call_handler = (\<lambda>h nr pr s. Inr (s + h + unat nr)), signal_eoi = Suc, warn_nobody = (\<lambda>_ s. s)\<rparr>"

lemma irq_dispatch_refines_witness:
  "handle_raw_irq no_env 300 (irq_mgr_new :: nat irq_mgr) 0 = Inl Assert_Fail \<and>
   (\<exists>m'. install_handler Exception_IRQ 13 (Some 7) 0 (irq_mgr_new :: nat irq_mgr) = Inr (True, m') \<and> irq_inv m')"
  using irq_dispatch_refines [OF irq_inv_new, of Exception_IRQ 13 "Some 7" 0 0 0 0 no_env 300 0] by simp blast

text \<open>a physical interrupt that a driver requests reaches the handler that the driver attaches: the
  first free vector from 32 on is written to the redirection entry of the pin, unmasked and with all
  other fields zero, and no other register changes; when the vector is raised the handler runs and the
  interrupt is acknowledged after it.  When no vector is free, or the pin is not below the number of
  interrupts read from the version register, the request is refused and no register changes.\<close>

theorem ioapic_route:
  assumes "irq_inv m" and "unat n < 120"
  shows "if unat (io_nr_irqs d) \<le> unat n then request_physical_irq True n d m = Inr (None, d, m)
    else (\<exists>v p m'. request_physical_irq True n d m =
         Inr (Some p, d\<lparr>io_regs := (io_regs d)(of_nat (0x10 + 2 * unat n) := of_nat v, of_nat (0x11 + 2 * unat n) := 0)\<rparr>, m') \<and>
         32 \<le> v \<and> v < 256 \<and> irq_table m v = None \<and>
         irq_table (upd_irq p (irq_attach (Some h) pr) m') = (irq_table m)(v \<mapsto> (IOAPIC_IRQ, Some h, pr)) \<and>
         handle_raw_irq env (of_nat v) (upd_irq p (irq_attach (Some h) pr) m') s =
           res_bind (call_handler env h (of_nat v) pr s) (\<lambda>s1. Inr (signal_eoi env s1))) \<or>
      ((\<forall>u. 32 \<le> u \<longrightarrow> u < 256 \<longrightarrow> irq_table m u \<noteq> None) \<and>
       (\<exists>m'. request_physical_irq True n d m = Inr (None, d, m') \<and> irq_table m' = irq_table m))"
proof (cases "unat (io_nr_irqs d) \<le> unat n")
  case True
  then have "ucast (io_nr_irqs d) \<le> n"
    using unat_u8_less [of "io_nr_irqs d"] by (simp add: word_le_nat_alt unsigned_ucast_eq take_bit_eq_mod)
  with True show ?thesis by (simp add: request_physical_irq_def)
next
  case False
  then have "unat n < unat (io_nr_irqs d)" by simp
  from request_physical_irq_ok [OF assms(1) this assms(2)] show ?thesis
  proof (elim disjE exE conjE)
    fix v p d' m' assume v: "request_physical_irq True n d m = Inr (Some p, d', m')" "32 \<le> v" "v < 256"
      "irq_table m v = None" "irq_inv m'" "irq_descs m' ! v = Some p" "irq_class (irq_objs m' ! p) = IOAPIC_IRQ"
      "irq_table m' = (irq_table m)(v \<mapsto> (IOAPIC_IRQ, None, 0))"
      "d' = d\<lparr>io_regs := (io_regs d)(of_nat (0x10 + 2 * unat n) := of_nat v, of_nat (0x11 + 2 * unat n) := 0)\<rparr>"
    note a = attach_handler_ok [OF v(5, 3, 6), of "Some h" pr]
    have t: "irq_table (upd_irq p (irq_attach (Some h) pr) m') = (irq_table m)(v \<mapsto> (IOAPIC_IRQ, Some h, pr))"
      using a(2) v(7, 8) by simp
    have u: "unat (of_nat v :: u32) = v" using v(3) by (simp add: unat_of_nat_u32)
    have "handle_raw_irq env (of_nat v) (upd_irq p (irq_attach (Some h) pr) m') s =
        res_bind (call_handler env h (of_nat v) pr s) (\<lambda>s1. Inr (signal_eoi env s1))"
      using handle_raw_irq_table [OF a(1), of "of_nat v"] u v(3) by (simp add: t table_dispatch_def)
    with False v t show ?thesis by auto
  qed (use False in auto)
qed

lemma ioapic_route_witness:
  "\<exists>v p m'. request_physical_irq True 1 \<lparr>io_nr_irqs = 23, io_regs = (\<lambda>_. 0)\<rparr> (irq_mgr_new :: nat irq_mgr) =
      Inr (Some p, \<lparr>io_nr_irqs = 23, io_regs = (\<lambda>_. 0)(0x12 := of_nat v, 0x13 := 0)\<rparr>, m') \<and> 32 \<le> v \<and> v < 256 \<and>
      handle_raw_irq no_env (of_nat v) (upd_irq p (irq_attach (Some 5) 0) m') 0 = Inr (Suc (5 + v))"
proof -
  have u: "unat (of_nat v :: u32) = v" if "v < 256" for v using that by (simp add: unat_of_nat_u32)
  have none: "\<not> (\<forall>u. 32 \<le> u \<longrightarrow> u < 256 \<longrightarrow> irq_table (irq_mgr_new :: nat irq_mgr) u \<noteq> None)" by force
  have "\<exists>v p m'. request_physical_irq True 1 \<lparr>io_nr_irqs = 23, io_regs = (\<lambda>_. 0)\<rparr> (irq_mgr_new :: nat irq_mgr) =
      Inr (Some p, \<lparr>io_nr_irqs = 23, io_regs = (\<lambda>_. 0)(0x12 := of_nat v, 0x13 := 0)\<rparr>, m') \<and> 32 \<le> v \<and> v < 256 \<and>
      handle_raw_irq no_env (of_nat v) (upd_irq p (irq_attach (Some 5) 0) m') 0 =
        res_bind (call_handler no_env 5 (of_nat v) 0 0) (\<lambda>s1. Inr (signal_eoi no_env s1))"
    using ioapic_route [OF irq_inv_new, of 1 "\<lparr>io_nr_irqs = 23, io_regs = (\<lambda>_. 0)\<rparr>" 5 0 no_env 0] none
    by simp blast
  then show ?thesis by (elim exE conjE) (simp add: no_env_def u, blast)
qed

text \<open>C36: the system timer interrupts once per calibration period of ten milliseconds exactly when the
  bus frequency that the calibration measures is below \<open>2 ^ 32\<close>. With \<open>e\<close> steps of the divided counter
  while the interval timer runs, which the code programs for 11931 steps of its 1193180 Hz, the frequency
  is \<open>1600 e\<close> modulo \<open>2 ^ 32\<close>, the period programmed is that divided by \<open>1600\<close>, which is \<open>e\<close> only
  without the wrap-around and shorter with it; the timer is then periodic and unmasked, and each
  interrupt adds ten milliseconds to the running time.\<close>

theorem timer_period:
  assumes "spin_pit inb 2 = Some k"
    and "lapic_read LR_TCCR (run (ten_milliseconds inb) k (timer_start (timer_init_oneshot 0xffffffff d))) = 0xffffffff - e"
  shows "\<exists>f d2. calibrate True inb run d = Inr (Some f, d2) \<and> unat f = (1600 * unat e) mod 2 ^ 32 \<and>
    unat (lapic_read LR_TICR (start_system_timer f d2)) = ((1600 * unat e) mod 2 ^ 32) div 1600 \<and>
    (lapic_read LR_TICR (start_system_timer f d2) = e \<longleftrightarrow> 1600 * unat e < 2 ^ 32) \<and>
    lapic_read LR_TICR (start_system_timer f d2) \<le> e \<and>
    lapic_read LR_TIMER (start_system_timer f d2) = (lapic_read LR_TIMER d2 OR PERIODIC) AND NOT MASKED \<and>
    (timer_tick (c, s) = Inr (c', s') \<longrightarrow> runtime c' = runtime c + 10000000)"
proof -
  from calibrate_ok [where run = run and d = d, OF assms] obtain f d2 where f: "calibrate True inb run d = Inr (Some f, d2)"
      "unat f = (1600 * unat e) mod 2 ^ 32" by blast
  note t = start_system_timer_count [OF f(2), of d2]
  have count: "unat (lapic_read LR_TICR (start_system_timer f d2)) = ((1600 * unat e) mod 2 ^ 32) div 1600"
    using t(1) f(2) by simp
  have le: "((1600 * unat e) mod 2 ^ 32) div 1600 \<le> unat e"
    using div_le_mono [OF mod_less_eq_dividend [of "1600 * unat e" "2 ^ 32"], of 1600] by simp
  have eq: "lapic_read LR_TICR (start_system_timer f d2) = e \<longleftrightarrow> 1600 * unat e < 2 ^ 32"
    using count mod_div_exact [of "unat e"] by (simp only: word_unat_eq_iff)
  have "lapic_read LR_TICR (start_system_timer f d2) \<le> e"
    unfolding word_le_nat_alt count by (rule le)
  moreover have "runtime c' = runtime c + 10000000" if "timer_tick (c, s) = Inr (c', s')"
    using that by (auto simp: timer_tick_def Let_def update_runtime_def res_bind_Inr_iff dur_add_def
        duration_cast_def split: prod.splits)
  ultimately show ?thesis using f count eq t(2) by blast
qed

lemma spin_pit_now: "pit_expired (inb k) \<Longrightarrow> spin_pit inb k = Some (Suc k)"
  by (simp add: spin_pit.simps)

lemma timer_period_witness:
  "\<exists>f d2. calibrate True (\<lambda>_. 0) (\<lambda>_ _ d. d\<lparr>la_window := (la_window d)(0xE4 := 0xffffffff - 625000)\<rparr>)
      \<lparr>la_window = (\<lambda>_. 0), la_timer_irq = Some 0, la_writes = []\<rparr> = Inr (Some f, d2) \<and> unat f = 1000000000 \<and>
    lapic_read LR_TICR (start_system_timer f d2) = 625000"
proof -
  have "spin_pit (\<lambda>_. 0) 2 = Some 3" by (subst spin_pit_now) (simp_all add: pit_expired_def)
  from timer_period [OF this, of "\<lambda>_ _ d. d\<lparr>la_window := (la_window d)(0xE4 := 0xffffffff - 625000)\<rparr>"
      "\<lparr>la_window = (\<lambda>_. 0), la_timer_irq = Some 0, la_writes = []\<rparr>" 625000]
  show ?thesis by (simp add: lapic_read_def) blast
qed

text \<open>C37: the interrupts of a kernel that has started.  When the controllers answer, the start installs
  what \<open>boot_table\<close> lists: the exceptions with the handlers of page faults, protection faults and traps,
  the timer on vector 32, the keyboard on vector 33 with the redirection entry of pin 1, and the two
  system calls; every gate leads to the entry point of its vector, in the kernel code segment, present,
  and only the trap and the user system call may be raised from ring 3; from then on an interrupt does
  what the table says.\<close>

theorem interrupt_boot:
  assumes "wait_delivery icr 0 = Some j" and "spin_pit inb 2 = Some k" and "base AND NOT 0xfff \<noteq> 0"
    and "unat (ucast (drop_bit 16 (io_regs io 1)) :: u8) > 1"
    and "\<And>w d. lapic_read LR_TIMER (run w k d) = lapic_read LR_TIMER d"
  shows "\<exists>t' lap' io' m'. boot_interrupts junk entry base icr inb run t lap io = Inr (True, t', lap', Some io', m') \<and>
    (\<forall>v < 256. hw_read_gate (idt_gates t' ! v) = gate_of entry v) \<and> idtr_length t' = 4096 \<and>
    irq_table m' = boot_table \<and> io_regs io' 0x12 = 33 \<and>
    lapic_read LR_TIMER lap' = PERIODIC OR 32 \<and>
    (\<forall>v < 256. \<forall>q. handle_raw_irq (kernel_irq_env n other) (of_nat v) m' q =
       table_dispatch (kernel_irq_env n other) boot_table v q)"
proof -
  from arch_init_irq_ok [of junk entry t] obtain t1 m1 m2 b b' where
    s1: "arch_init_irq junk entry (snd (idt_init t)) irq_mgr_new = Inr (b, t1, m1)"
      "install_page_fault_handler m1 = Inr (b', m2)" "irq_inv m2" "irq_table m2 = boot_table(32 := None, 33 := None)"
      "\<forall>v < 256. hw_read_gate (idt_gates t1 ! v) = gate_of entry v" "idtr_length t1 = 4096"
    by (auto simp: res_bind_Inr_iff)
  have none: "irq_table m2 32 = None" by (simp add: s1(4))
  from lapic_init_ok [OF s1(3) assms(1) _ _ none, of lap] obtain lap1 p m3 where
    s2: "lapic_init icr lap m2 = Inr (True, lap1, m3)" "la_timer_irq lap1 = Some p" "irq_inv m3"
      "irq_descs m3 ! 32 = Some p" "irq_class (irq_objs m3 ! p) = LAPIC_IRQ LVT_Timer"
      "irq_table m3 = (irq_table m2)(32 \<mapsto> (LAPIC_IRQ LVT_Timer, None, 0))"
      "lapic_read LR_TIMER lap1 = MASKED OR of_nat 32" by auto
  from ioapic_init_ok [of io] obtain io1 where
    s3: "ioapic_init io = Inr (True, io1)" "io_nr_irqs io1 = ucast (drop_bit 16 (io_regs io 1))" by blast
  define m4 where "m4 = upd_irq p (irq_attach (Some H_Timer) 0) m3"
  have v32: "(32 :: nat) < 256" by simp
  note a4 = attach_handler_ok [OF s2(3) v32 s2(4), of "Some H_Timer" 0, folded m4_def]
  define d1 where "d1 = set_timer_initial_count 1 (set_timer_divide 3 lap1)"
  define e where "e = 0xffffffff - lapic_read LR_TCCR (run (ten_milliseconds inb) k (timer_start (timer_init_oneshot 0xffffffff d1)))"
  have "lapic_read LR_TCCR (run (ten_milliseconds inb) k (timer_start (timer_init_oneshot 0xffffffff d1))) = 0xffffffff - e"
    by (simp add: e_def)
  from calibrate_ok [where run = run and d = d1, OF assms(2) this] obtain f lap2 where
    s4: "calibrate True inb run d1 = Inr (Some f, lap2)" "unat f = (1600 * unat e) mod 2 ^ 32"
      "lap2 = timer_stop (run (ten_milliseconds inb) k (timer_start (timer_init_oneshot 0xffffffff d1)))" by blast
  have tm: "timer_init True base icr inb run lap io m2 = Inr (True, start_system_timer f lap2, io1, m4)"
    using s2(1, 2) s3(1) s4(1) assms(3)
    by (simp add: timer_init_def lapic_timer_init_def d1_def [symmetric] m4_def [symmetric])
  have timer: "lapic_read LR_TIMER (start_system_timer f lap2) = PERIODIC OR 32"
    unfolding start_system_timer_count(2) [OF s4(2)]
    by (simp add: s4(3) timer_defs d1_def assms(5) s2(7) MASKED_def PERIODIC_def)
  have lt: "unat (1 :: u32) < unat (io_nr_irqs io1)" using assms(4) s3(2) by simp
  have t33: "irq_table m4 33 = None" "irq_table m4 32 \<noteq> None" by (simp_all add: a4(2) s2(6) s1(4))
  have not_full: "\<not> (\<forall>u. 32 \<le> u \<longrightarrow> u < 256 \<longrightarrow> irq_table m4 u \<noteq> None)"
    using t33(1) by force
  have "unat (1 :: u32) < 120" by simp
  from request_physical_irq_ok [OF a4(1) lt this] obtain v q io2 m5 where
    s5: "request_physical_irq True 1 io1 m4 = Inr (Some q, io2, m5)" "32 \<le> v" "v < 256" "irq_table m4 v = None"
      "\<forall>u. 32 \<le> u \<longrightarrow> u < v \<longrightarrow> irq_table m4 u \<noteq> None" "irq_inv m5"
      "io2 = io1\<lparr>io_regs := (io_regs io1)(of_nat (0x10 + 2 * unat (1 :: u32)) := of_nat v, of_nat (0x11 + 2 * unat (1 :: u32)) := 0)\<rparr>"
      "irq_descs m5 ! v = Some q" "irq_class (irq_objs m5 ! q) = IOAPIC_IRQ"
      "irq_table m5 = (irq_table m4)(v \<mapsto> (IOAPIC_IRQ, None, 0))"
    using not_full by blast
  have v: "v = 33"
  proof (rule linorder_cases [of v 33])
    assume "v < 33" with s5(2) have "v = 32" by simp
    with s5(4) t33(2) show ?thesis by simp
  next
    assume "33 < v" with s5(5) [rule_format, of 33] t33(1) show ?thesis by simp
  qed
  define m6 where "m6 = upd_irq q (irq_attach (Some H_Keyboard) 0) m5"
  note a6 = attach_handler_ok [OF s5(6, 3, 8), of "Some H_Keyboard" 0, folded m6_def]
  have tbl: "irq_table m6 = boot_table"
    by (rule ext) (simp add: a6(2) s5(9, 10) a4(2) s2(5, 6) s1(4) v boot_table_def IRQ_PAGE_FAULT_def IRQ_GPF_def IRQ_TRAP_def)
  have boot: "boot_interrupts junk entry base icr inb run t lap io =
      Inr (True, t1, start_system_timer f lap2, Some io2, m6)"
    using s1(1, 2) tm s5(1) by (simp add: boot_interrupts_def keyboard_hook_def m6_def)
  have disp: "handle_raw_irq (kernel_irq_env n other) (of_nat w) m6 z =
      table_dispatch (kernel_irq_env n other) boot_table w z" if "w < 256" for w z
  proof -
    have "unat (of_nat w :: u32) = w" using that by (simp add: unat_of_nat_u32)
    with handle_raw_irq_table [OF a6(1), of "of_nat w"] that tbl show ?thesis by simp
  qed
  have "io_regs io2 0x12 = 33" by (simp add: s5(7) v)
  with boot s1(5, 6) tbl timer disp show ?thesis by blast
qed

lemma interrupt_boot_witness:
  "\<exists>t' lap' io' m'. boot_interrupts (\<lambda>_. 0) of_nat 0xfee00900 (\<lambda>_. 0) (\<lambda>_. 0) (\<lambda>_ _ d. d)
      \<lparr>idt_max_index = 0, idt_gates = [], idtr_length = 0\<rparr>
      \<lparr>la_window = (\<lambda>_. 0), la_timer_irq = None, la_writes = []\<rparr>
      \<lparr>io_nr_irqs = 0, io_regs = (\<lambda>_. 0)(1 := 0x170011)\<rparr> = Inr (True, t', lap', Some io', m') \<and>
    hw_read_gate (idt_gates t' ! 0x81) =
      \<lparr>hw_offset = 0x81, hw_selector = 8, hw_type = 0xe, hw_dpl = 3, hw_present = True\<rparr> \<and> irq_table m' = boot_table"
proof -
  have w: "wait_delivery (\<lambda>_. 0) 0 = Some 1" by (simp add: wait_delivery.simps)
  have s: "spin_pit (\<lambda>_. 0) 2 = Some 3" by (subst spin_pit_now) (simp_all add: pit_expired_def)
  from interrupt_boot [OF w s, where n = 0 and other = "\<lambda>_ q. Inr q" and base = "0xfee00900" and run = "\<lambda>_ _ d. d" and junk = "\<lambda>_. 0" and entry = of_nat
        and io = "\<lparr>io_nr_irqs = 0, io_regs = (\<lambda>_. 0)(1 := 0x170011)\<rparr>"
        and t = "\<lparr>idt_max_index = 0, idt_gates = [], idtr_length = 0\<rparr>"
        and lap = "\<lparr>la_window = (\<lambda>_. 0), la_timer_irq = None, la_writes = []\<rparr>"]
  obtain t' lap' io' and m' :: "kernel_handler irq_mgr" where
    b: "boot_interrupts (\<lambda>_. 0) of_nat 0xfee00900 (\<lambda>_. 0) (\<lambda>_. 0) (\<lambda>_ _ d. d)
      \<lparr>idt_max_index = 0, idt_gates = [], idtr_length = 0\<rparr>
      \<lparr>la_window = (\<lambda>_. 0), la_timer_irq = None, la_writes = []\<rparr>
      \<lparr>io_nr_irqs = 0, io_regs = (\<lambda>_. 0)(1 := 0x170011)\<rparr> = Inr (True, t', lap', Some io', m')"
      "\<forall>v < 256. hw_read_gate (idt_gates t' ! v) = gate_of of_nat v" "irq_table m' = boot_table"
    by auto
  have "hw_read_gate (idt_gates t' ! 0x81) = gate_of of_nat 0x81" using b(2) by simp
  with b(1, 3) show ?thesis by (auto simp: gate_of_def)
qed

end
