(* ===== verification/Ports.thy ===== *)
theory Ports imports Prelude begin

text \<open>
  Input and output ports (include/arch/x86/pio.h).  What a driver does to the ports is the sequence of
  its accesses; a device is what it answers after such a sequence.
\<close>

datatype port_event =
  Out8 u16 u8 | Out32 u16 u32 | In8 u16 | In32 u16 | In_Words u16 nat | In_Dwords u16 nat

type_synonym io = "port_event list"

text \<open>\<open>ans_insw h p n\<close> and \<open>ans_insl h p n\<close> are the bytes that reading \<open>n\<close> words from port \<open>p\<close> yields.\<close>

record port_device =
  ans_inb :: "io \<Rightarrow> u16 \<Rightarrow> u8"
  ans_inl :: "io \<Rightarrow> u16 \<Rightarrow> u32"
  ans_insw :: "io \<Rightarrow> u16 \<Rightarrow> nat \<Rightarrow> u8 list"
  ans_insl :: "io \<Rightarrow> u16 \<Rightarrow> nat \<Rightarrow> u8 list"

definition inb :: "port_device \<Rightarrow> u16 \<Rightarrow> io \<Rightarrow> u8 \<times> io" where
  "inb dev p h = (ans_inb dev h p, h @ [In8 p])"

definition inl :: "port_device \<Rightarrow> u16 \<Rightarrow> io \<Rightarrow> u32 \<times> io" where
  "inl dev p h = (ans_inl dev h p, h @ [In32 p])"

definition insw :: "port_device \<Rightarrow> u16 \<Rightarrow> nat \<Rightarrow> io \<Rightarrow> u8 list \<times> io" where
  "insw dev p n h = (ans_insw dev h p n, h @ [In_Words p n])"

definition insl :: "port_device \<Rightarrow> u16 \<Rightarrow> nat \<Rightarrow> io \<Rightarrow> u8 list \<times> io" where
  "insl dev p n h = (ans_insl dev h p n, h @ [In_Dwords p n])"

definition outb :: "u16 \<Rightarrow> u8 \<Rightarrow> io \<Rightarrow> io" where
  "outb p v h = h @ [Out8 p v]"

definition outl :: "u16 \<Rightarrow> u32 \<Rightarrow> io \<Rightarrow> io" where
  "outl p v h = h @ [Out32 p v]"

section \<open>What was written to a port\<close>

fun byte_to :: "u16 \<Rightarrow> port_event \<Rightarrow> u8 option" where
  "byte_to p (Out8 q v) = (if q = p then Some v else None)"
| "byte_to p _ = None"

definition bytes_to :: "u16 \<Rightarrow> io \<Rightarrow> u8 list" where
  "bytes_to p h = List.map_filter (byte_to p) h"

lemma bytes_to_append: "bytes_to p (h @ h') = bytes_to p h @ bytes_to p h'"
  by (simp add: bytes_to_def map_filter_def)

lemma bytes_to_simps [simp]:
  "bytes_to p [] = []"
  "bytes_to p (Out8 q v # h) = (if q = p then v # bytes_to p h else bytes_to p h)"
  "bytes_to p (Out32 q w # h) = bytes_to p h" "bytes_to p (In8 q # h) = bytes_to p h"
  "bytes_to p (In32 q # h) = bytes_to p h" "bytes_to p (In_Words q n # h) = bytes_to p h"
  "bytes_to p (In_Dwords q n # h) = bytes_to p h"
  by (simp_all add: bytes_to_def map_filter_simps)

end
