(* ===== verification/Ata.thy ===== *)
theory Ata imports Ports Devices Process begin

unbundle bit_operations_syntax

text \<open>
  The disk driver (drivers/ata/ata-controller.cpp, drivers/ata/ata-device.cpp): the two channels of a
  controller, the registers of a channel behind its ports, the search for disks, the transfer of blocks
  and the partitions of a disk.
\<close>

section \<open>Channels and registers\<close>

record channel =
  ch_base :: u16
  ch_ctrl :: u16
  ch_bmide :: u16
  ch_nIEN :: u8

definition port_or_base_address :: "u32 \<Rightarrow> u32 \<Rightarrow> u32" where
  "port_or_base_address v p = (if v = 0 then p else v AND NOT 3)"

text \<open>The constructor of the controller: the primary and the secondary channel from the address registers.\<close>

definition ata_channels :: "(nat \<Rightarrow> u32) \<Rightarrow> channel \<times> channel" where
  "ata_channels bar =
     (\<lparr>ch_base = ucast (port_or_base_address (bar 0) 0x1F0), ch_ctrl = ucast (port_or_base_address (bar 1) 0x3F6),
       ch_bmide = ucast (bar 4 AND NOT 3), ch_nIEN = 2\<rparr>,
      \<lparr>ch_base = ucast (port_or_base_address (bar 2) 0x170), ch_ctrl = ucast (port_or_base_address (bar 3) 0x376),
       ch_bmide = ucast ((bar 4 AND NOT 3) + 8), ch_nIEN = 2\<rparr>)"

definition REG_DATA :: nat where "REG_DATA = 0x00"

definition REG_SECCOUNT0 :: nat where "REG_SECCOUNT0 = 0x02"

definition REG_LBA0 :: nat where "REG_LBA0 = 0x03"

definition REG_LBA1 :: nat where "REG_LBA1 = 0x04"

definition REG_LBA2 :: nat where "REG_LBA2 = 0x05"

definition REG_HDDEVSEL :: nat where "REG_HDDEVSEL = 0x06"

definition REG_COMMAND :: nat where "REG_COMMAND = 0x07"

definition REG_STATUS :: nat where "REG_STATUS = 0x07"

definition REG_SECCOUNT1 :: nat where "REG_SECCOUNT1 = 0x08"

definition REG_LBA3 :: nat where "REG_LBA3 = 0x09"

definition REG_LBA4 :: nat where "REG_LBA4 = 0x0A"

definition REG_LBA5 :: nat where "REG_LBA5 = 0x0B"

definition REG_CONTROL :: nat where "REG_CONTROL = 0x0C"

lemmas ata_regs = REG_DATA_def REG_SECCOUNT0_def REG_LBA0_def REG_LBA1_def REG_LBA2_def REG_HDDEVSEL_def
  REG_COMMAND_def REG_STATUS_def REG_SECCOUNT1_def REG_LBA3_def REG_LBA4_def REG_LBA5_def REG_CONTROL_def

text \<open>The port of a register, for the registers that have one.\<close>

definition reg_port :: "channel \<Rightarrow> nat \<Rightarrow> u16 option" where
  "reg_port c reg =
     (if reg < 0x08 then Some (ch_base c + of_nat reg)
      else if reg < 0x0C then Some (ch_base c + of_nat reg - 0x06)
      else if reg < 0x0E then Some (ch_ctrl c + of_nat reg - 0x0A)
      else if reg < 0x16 then Some (ch_bmide c + of_nat reg - 0x0E)
      else None)"

definition needs_hob :: "nat \<Rightarrow> bool" where
  "needs_hob reg \<longleftrightarrow> reg > 0x07 \<and> reg < 0x0C"

function ata_write :: "channel \<Rightarrow> nat \<Rightarrow> u8 \<Rightarrow> io \<Rightarrow> io" where
  "ata_write c reg data h =
     (let h1 = (if needs_hob reg then ata_write c REG_CONTROL (0x80 OR ch_nIEN c) h else h);
          h2 = (case reg_port c reg of Some p \<Rightarrow> outb p data h1 | None \<Rightarrow> h1)
      in if needs_hob reg then ata_write c REG_CONTROL (ch_nIEN c) h2 else h2)"
  by pat_completeness auto
termination
  by (relation "measure (\<lambda>(c, reg, data, h). if needs_hob reg then 1 else 0)")
    (auto simp: needs_hob_def REG_CONTROL_def)

declare ata_write.simps [simp del]

definition ata_read :: "port_device \<Rightarrow> channel \<Rightarrow> nat \<Rightarrow> io \<Rightarrow> u8 \<times> io" where
  "ata_read dev c reg h =
     (let h1 = (if needs_hob reg then ata_write c REG_CONTROL (0x80 OR ch_nIEN c) h else h);
          (result, h2) = (case reg_port c reg of Some p \<Rightarrow> inb dev p h1 | None \<Rightarrow> (0, h1));
          h3 = (if needs_hob reg then ata_write c REG_CONTROL (ch_nIEN c) h2 else h2)
      in (result, h3))"

text \<open>The bytes read; where the register has no port the buffer keeps its old bytes.\<close>

definition ata_read_buffer :: "port_device \<Rightarrow> channel \<Rightarrow> nat \<Rightarrow> u64 \<Rightarrow> io \<Rightarrow> u8 list option \<times> io" where
  "ata_read_buffer dev c reg sz h =
     (let h1 = (if needs_hob reg then ata_write c REG_CONTROL (0x80 OR ch_nIEN c) h else h);
          (bytes, h2) = (case reg_port c reg of
             Some p \<Rightarrow> (let (bs, h') = insl dev p (unat (drop_bit 2 sz)) h1 in (Some bs, h'))
           | None \<Rightarrow> (None, h1));
          h3 = (if needs_hob reg then ata_write c REG_CONTROL (ch_nIEN c) h2 else h2)
      in (bytes, h3))"

section \<open>Waiting for the disk\<close>

definition SR_BSY :: u8 where "SR_BSY = 0x80"

definition SR_DF :: u8 where "SR_DF = 0x20"

definition SR_DRQ :: u8 where "SR_DRQ = 0x08"

definition SR_ERR :: u8 where "SR_ERR = 0x01"

partial_function (option) wait_not_busy :: "port_device \<Rightarrow> channel \<Rightarrow> io \<Rightarrow> io option" where
  "wait_not_busy dev c h =
     (let (status, h1) = ata_read dev c REG_STATUS h
      in if status AND SR_BSY \<noteq> 0 then wait_not_busy dev c h1 else Some h1)"

definition ata_poll :: "port_device \<Rightarrow> channel \<Rightarrow> bool \<Rightarrow> io \<Rightarrow> (nat \<times> io) res" where
  "ata_poll dev c error_check h =
     res_bind (loop_res (wait_not_busy dev c h)) (\<lambda>h1.
       if error_check then
         let (status, h2) = ata_read dev c REG_STATUS h1 in
         Inr (if status AND SR_ERR \<noteq> 0 then 2 else if status AND SR_DF \<noteq> 0 then 1
              else if status AND SR_DRQ = 0 then 3 else 0, h2)
       else Inr (0, h1))"

section \<open>Transfers\<close>

definition CMD_READ_PIO_EXT :: u8 where "CMD_READ_PIO_EXT = 0x24"

definition CMD_WRITE_PIO_EXT :: u8 where "CMD_WRITE_PIO_EXT = 0x34"

definition CMD_IDENTIFY :: u8 where "CMD_IDENTIFY = 0xEC"

text \<open>The loop over the blocks: the bytes filled in so far and whether all blocks arrived.\<close>

fun read_loop :: "port_device \<Rightarrow> channel \<Rightarrow> nat \<Rightarrow> u8 list \<Rightarrow> io \<Rightarrow> (bool \<times> u8 list \<times> io) res" where
  "read_loop dev c 0 buf h = Inr (True, buf, h)"
| "read_loop dev c (Suc n) buf h =
     res_bind (ata_poll dev c True h) (\<lambda>(rc, h1).
       if rc \<noteq> 0 then Inr (False, buf, h1)
       else let (bytes, h2) = insw dev (ch_base c) (512 div 2) h1 in read_loop dev c n (buf @ bytes) h2)"

definition transfer_setup :: "channel \<Rightarrow> u8 \<Rightarrow> u64 \<Rightarrow> u64 \<Rightarrow> io \<Rightarrow> io" where
  "transfer_setup c drive lba nr_blocks h =
     (let h1 = ata_write c REG_HDDEVSEL (0xE0 OR push_bit 4 drive) h;
          h2 = ata_write c REG_SECCOUNT1 0 h1;
          h3 = ata_write c REG_LBA3 (ucast (drop_bit 24 lba)) h2;
          h4 = ata_write c REG_LBA4 (ucast (drop_bit 32 lba)) h3;
          h5 = ata_write c REG_LBA5 (ucast (drop_bit 40 lba)) h4;
          h6 = ata_write c REG_SECCOUNT0 (ucast nr_blocks) h5;
          h7 = ata_write c REG_LBA0 (ucast lba) h6;
          h8 = ata_write c REG_LBA1 (ucast (drop_bit 8 lba)) h7
      in ata_write c REG_LBA2 (ucast (drop_bit 16 lba)) h8)"

text \<open>\<open>transfer\<close> runs under the mutex of its channel; a write stops after the command.\<close>

definition transfer :: "port_device \<Rightarrow> channel \<Rightarrow> u8 \<Rightarrow> bool \<Rightarrow> u64 \<Rightarrow> u64 \<Rightarrow> io \<Rightarrow> (bool \<times> u8 list \<times> io) res" where
  "transfer dev c drive direction lba nr_blocks h =
     res_bind (loop_res (wait_not_busy dev c h)) (\<lambda>h0.
       let h1 = transfer_setup c drive lba nr_blocks h0 in
       if direction then Inr (True, [], ata_write c REG_COMMAND CMD_WRITE_PIO_EXT h1)
       else read_loop dev c (unat nr_blocks) [] (ata_write c REG_COMMAND CMD_READ_PIO_EXT h1))"

definition ata_read_blocks :: "port_device \<Rightarrow> channel \<Rightarrow> u8 \<Rightarrow> u64 \<Rightarrow> u64 \<Rightarrow> io \<Rightarrow> (bool \<times> u8 list \<times> io) res" where
  "ata_read_blocks dev c drive offset n h = transfer dev c drive False offset n h"

definition ata_write_blocks :: "port_device \<Rightarrow> channel \<Rightarrow> u8 \<Rightarrow> u8 list \<Rightarrow> u64 \<Rightarrow> u64 \<Rightarrow> io \<Rightarrow> (bool \<times> io) res" where
  "ata_write_blocks dev c drive buffer offset n h =
     res_bind (transfer dev c drive True offset n h) (\<lambda>(ok, _, h1). Inr (ok, h1))"

section \<open>Disks\<close>

record ata_disk =
  ad_channel :: channel
  ad_drive :: u8
  ad_signature :: u32
  ad_caps :: u32
  ad_cmdsets :: u32
  ad_size :: u32

text \<open>\<open>disk_init\<close> from the identification: the size from the field of the addressing mode.\<close>

definition disk_identify :: "channel \<Rightarrow> u8 \<Rightarrow> u8 list \<Rightarrow> ata_disk" where
  "disk_identify c drive buffer =
     (let cmdsets = of_nat (field 164 4 buffer) :: u32 in
      \<lparr>ad_channel = c, ad_drive = drive, ad_signature = of_nat (field 0 2 buffer),
       ad_caps = of_nat (field 98 2 buffer), ad_cmdsets = cmdsets,
       ad_size = (if bit cmdsets 26 then of_nat (field 200 4 buffer) else of_nat (field 120 4 buffer))\<rparr>)"

text \<open>The model name: bytes swapped in pairs, trailing spaces replaced by zeros.\<close>

fun swap_pairs :: "u8 list \<Rightarrow> u8 list" where
  "swap_pairs (a # b # bs) = b # a # swap_pairs bs"
| "swap_pairs bs = bs"

fun trim_model :: "nat \<Rightarrow> u8 list \<Rightarrow> u8 list" where
  "trim_model 0 model = model"
| "trim_model (Suc i) model =
     (let m = model[Suc i := 0] in if m ! i \<noteq> 0x20 then m else trim_model i m)"

definition disk_model :: "u8 list \<Rightarrow> u8 list" where
  "disk_model buffer = trim_model 40 (swap_pairs (take 40 (drop 54 buffer)) @ [0])"

text \<open>
  The disk as a block device: what a read yields after the accesses \<open>h\<close>.
\<close>

definition disk_block_dev :: "port_device \<Rightarrow> ata_disk \<Rightarrow> io \<Rightarrow> block_dev" where
  "disk_block_dev dev d h =
     \<lparr>bd_size = 512, bd_count = ucast (ad_size d),
      bd_read = (\<lambda>off n. case ata_read_blocks dev (ad_channel d) (ad_drive d) off n h of
                   Inr (True, bytes, _) \<Rightarrow> Some bytes | _ \<Rightarrow> None)\<rparr>"

section \<open>Partitions\<close>

record partition_entry =
  pe_type :: u8
  pe_first_lba :: u32
  pe_nr_sectors :: u32

definition partition_entry_at :: "u8 list \<Rightarrow> nat \<Rightarrow> partition_entry" where
  "partition_entry_at table i =
     (let e = drop (0x1be + 16 * i) table in
      \<lparr>pe_type = of_nat (field 4 1 e), pe_first_lba = of_nat (field 8 4 e), pe_nr_sectors = of_nat (field 12 4 e)\<rparr>)"

text \<open>
  The devices of the kernel while the driver runs: the manager, the number of the next device, and the
  accesses to the ports, and the devices that were deleted.  \<open>ata_class\<close> and \<open>part_class\<close> are the class chains of disks and partitions.
\<close>

record ata_world =
  aw_dm :: devmgr
  aw_next :: nat
  aw_io :: io
  aw_deleted :: "nat list"

definition new_block_device :: "nat list \<Rightarrow> block_dev \<Rightarrow> ata_world \<Rightarrow> nat \<times> ata_world" where
  "new_block_device cls bdev w =
     (let d = aw_next w; dm = aw_dm w in
      (d, w\<lparr>aw_next := d + 1, aw_dm := dm\<lparr>dm_device := (dm_device dm)(d :=
          \<lparr>dv_name = [], dv_class = cls, dv_file = False, dv_block = Some bdev\<rparr>)\<rparr>\<rparr>))"

text \<open>The partition device of one entry, registered and then named after the disk.\<close>

definition create_partition :: "nat list \<Rightarrow> nat \<Rightarrow> block_dev \<Rightarrow> partition_entry \<Rightarrow> nat \<Rightarrow> ata_world \<Rightarrow> ata_world res" where
  "create_partition part_class disk bdev e i w =
     (let (d, w1) = new_block_device part_class
            (partition_dev (ucast (pe_first_lba e)) (ucast (pe_nr_sectors e)) bdev) w in
      res_bind (register_device (\<lambda>_ dm. Inr (True, dm)) d (aw_dm w1)) (\<lambda>(_, dm1).
      res_bind (to_string (of_nat i)) (\<lambda>number.
      res_bind (add_device_alias (dv_name (dm_device dm1 disk) @ [0x70] @ chars number) d dm1) (\<lambda>(_, dm2).
        Inr (w1\<lparr>aw_dm := dm2\<rparr>)))))"

fun partition_loop :: "nat list \<Rightarrow> nat \<Rightarrow> block_dev \<Rightarrow> u8 list \<Rightarrow> nat \<Rightarrow> nat \<Rightarrow> ata_world \<Rightarrow> ata_world res" where
  "partition_loop part_class disk bdev table i 0 w = Inr w"
| "partition_loop part_class disk bdev table i (Suc n) w =
     (let e = partition_entry_at table i in
      if pe_type e = 0 then partition_loop part_class disk bdev table (Suc i) n w
      else res_bind (create_partition part_class disk bdev e i w) (partition_loop part_class disk bdev table (Suc i) n))"

definition check_for_partitions ::
    "port_device \<Rightarrow> nat list \<Rightarrow> nat \<Rightarrow> ata_disk \<Rightarrow> ata_world \<Rightarrow> (bool \<times> ata_world) res" where
  "check_for_partitions dev part_class disk d w =
     res_bind (ata_read_blocks dev (ad_channel d) (ad_drive d) 0 1 (aw_io w)) (\<lambda>(ok, buffer, h).
       let w1 = w\<lparr>aw_io := h\<rparr> in
       if \<not> ok then Inr (False, w1)
       else if buffer ! 0x1fe = 0x55 \<and> buffer ! 0x1ff = 0xaa then
         res_bind (partition_loop part_class disk (disk_block_dev dev d h) buffer 0 4 w1) (\<lambda>w2. Inr (True, w2))
       else Inr (True, w1))"

definition disk_init ::
    "port_device \<Rightarrow> nat list \<Rightarrow> nat \<Rightarrow> channel \<Rightarrow> u8 \<Rightarrow> ata_world \<Rightarrow> (bool \<times> ata_world) res" where
  "disk_init dev part_class disk c drive w =
     (case ata_read_buffer dev c REG_DATA (128 * 4) (aw_io w) of
        (None, h) \<Rightarrow> Inl Uninit_Read
      | (Some buffer, h) \<Rightarrow>
          let d = disk_identify c drive buffer; w1 = w\<lparr>aw_io := h\<rparr>;
              w2 = w1\<lparr>aw_dm := (aw_dm w1)\<lparr>dm_device := (dm_device (aw_dm w1))(disk :=
                     (dm_device (aw_dm w1) disk)\<lparr>dv_block := Some (disk_block_dev dev d h)\<rparr>)\<rparr>\<rparr> in
          if ad_caps d AND 0x200 = 0 then Inr (False, w2)
          else check_for_partitions dev part_class disk d w2)"

section \<open>The search for disks\<close>

text \<open>The loop that waits for the answer to the identification: an error, or data.\<close>

partial_function (option) wait_identify :: "port_device \<Rightarrow> channel \<Rightarrow> io \<Rightarrow> (bool \<times> io) option" where
  "wait_identify dev c h =
     (let (status, h1) = ata_read dev c REG_STATUS h
      in if status AND SR_ERR \<noteq> 0 then Some (False, h1)
         else if status AND SR_BSY = 0 \<and> status AND SR_DRQ \<noteq> 0 then Some (True, h1)
         else wait_identify dev c h1)"

definition probe_device ::
    "port_device \<Rightarrow> nat list \<Rightarrow> nat list \<Rightarrow> channel \<Rightarrow> u8 \<Rightarrow> ata_world \<Rightarrow> (bool \<times> ata_world) res" where
  "probe_device dev ata_class part_class c drive w =
     (let h1 = ata_write c REG_HDDEVSEL (0xa0 OR push_bit 4 drive) (aw_io w);
          h2 = ata_write c REG_COMMAND CMD_IDENTIFY h1;
          (status, h3) = ata_read dev c REG_STATUS h2 in
      if status = 0 then Inr (True, w\<lparr>aw_io := h3\<rparr>)
      else res_bind (loop_res (wait_identify dev c h3)) (\<lambda>(found, h4).
        if \<not> found then Inr (False, w\<lparr>aw_io := h4\<rparr>)
        else let (disk, w1) = new_block_device ata_class
                   \<lparr>bd_size = 512, bd_count = 0, bd_read = (\<lambda>_ _. None)\<rparr> (w\<lparr>aw_io := h4\<rparr>) in
             res_bind (register_device (\<lambda>_ dm. Inr (True, dm)) disk (aw_dm w1)) (\<lambda>(_, dm1).
             res_bind (disk_init dev part_class disk c drive (w1\<lparr>aw_dm := dm1\<rparr>)) (\<lambda>(ok, w2).
               if \<not> ok then Inr (False, w2\<lparr>aw_deleted := disk # aw_deleted w2\<rparr>) else Inr (True, w2)))))"

text \<open>\<open>probe_channel\<close> computes whether both drives were probed well, and returns true in any case.\<close>

definition probe_channel ::
    "port_device \<Rightarrow> nat list \<Rightarrow> nat list \<Rightarrow> channel \<Rightarrow> ata_world \<Rightarrow> (bool \<times> ata_world) res" where
  "probe_channel dev ata_class part_class c w =
     res_bind (probe_device dev ata_class part_class c 0 w) (\<lambda>(_, w1).
     res_bind (probe_device dev ata_class part_class c 1 w1) (\<lambda>(_, w2). Inr (True, w2)))"

definition ata_controller_init ::
    "port_device \<Rightarrow> nat list \<Rightarrow> nat list \<Rightarrow> (nat \<Rightarrow> u32) \<Rightarrow> ata_world \<Rightarrow> (bool \<times> ata_world) res" where
  "ata_controller_init dev ata_class part_class bar w =
     (let (prim, sec) = ata_channels bar;
          (_, h0) = ata_read dev prim REG_STATUS (aw_io w);
          h1 = ata_write sec REG_CONTROL 2 (ata_write prim REG_CONTROL 2 h0) in
      res_bind (probe_channel dev ata_class part_class prim (w\<lparr>aw_io := h1\<rparr>)) (\<lambda>(ok1, w1).
      res_bind (probe_channel dev ata_class part_class sec w1) (\<lambda>(ok2, w2). Inr (ok1 \<and> ok2, w2))))"

end
