(* ===== verification/Pci.thy ===== *)
theory Pci imports Ata begin

text \<open>
  The PCI bus (drivers/pci): configuration space through two ports, the search of a bus for devices,
  bridges to further buses, and storage devices, which start the disk driver.
\<close>

section \<open>Configuration space\<close>

definition PCI_CONFIG_ADDRESS :: u16 where "PCI_CONFIG_ADDRESS = 0xcf8"

definition PCI_CONFIG_DATA :: u16 where "PCI_CONFIG_DATA = 0xcfc"

definition pci_address :: "u32 \<Rightarrow> u8 \<Rightarrow> u8 \<Rightarrow> u8 \<Rightarrow> u32" where
  "pci_address bus slot func reg =
     0x80000000 OR push_bit 16 bus OR push_bit 11 (ucast slot) OR push_bit 8 (ucast func) OR (ucast reg AND NOT 3)"

definition pci_read_config :: "port_device \<Rightarrow> u32 \<Rightarrow> u8 \<Rightarrow> u8 \<Rightarrow> u8 \<Rightarrow> io \<Rightarrow> u32 \<times> io" where
  "pci_read_config dev bus slot func reg h =
     inl dev PCI_CONFIG_DATA (outl PCI_CONFIG_ADDRESS (pci_address bus slot func reg) h)"

definition pci_write_config :: "u32 \<Rightarrow> u8 \<Rightarrow> u8 \<Rightarrow> u8 \<Rightarrow> u32 \<Rightarrow> io \<Rightarrow> io" where
  "pci_write_config bus slot func reg v h =
     outl PCI_CONFIG_DATA v (outl PCI_CONFIG_ADDRESS (pci_address bus slot func reg) h)"

text \<open>\<open>PCI_CONFIG_VALUE\<close> and the fields that the driver reads.\<close>

definition config_value :: "u32 \<Rightarrow> nat \<Rightarrow> nat \<Rightarrow> u32" where
  "config_value v shift sz = drop_bit shift v AND (push_bit sz 1 - 1)"

definition PCI_REG_VENDOR :: u8 where "PCI_REG_VENDOR = 0x00"

definition PCI_REG_INFO :: u8 where "PCI_REG_INFO = 0x08"

definition PCI_REG_CONFIG :: u8 where "PCI_REG_CONFIG = 0x0C"

definition PCI_REG_BUSINFO :: u8 where "PCI_REG_BUSINFO = 0x18"

definition PCI_REG_IRQ :: u8 where "PCI_REG_IRQ = 0x3c"

definition config_vendor :: "u32 \<Rightarrow> u32" where "config_vendor v = config_value v 0 16"

definition config_class :: "u32 \<Rightarrow> u32" where "config_class v = config_value v 24 8"

definition config_subclass :: "u32 \<Rightarrow> u32" where "config_subclass v = config_value v 16 8"

definition config_hdrtype :: "u32 \<Rightarrow> u32" where "config_hdrtype v = config_value v 16 8"

definition config_secondary_bus :: "u32 \<Rightarrow> u32" where "config_secondary_bus v = config_value v 8 8"

datatype pci_kind = Pci_Bridge | Pci_Display | Pci_Network | Pci_Storage

text \<open>The classes of devices that the probe knows.\<close>

definition kind_of_class :: "u32 \<Rightarrow> pci_kind option" where
  "kind_of_class cls =
     (if cls = 6 then Some Pci_Bridge else if cls = 3 then Some Pci_Display
      else if cls = 2 then Some Pci_Network else if cls = 1 then Some Pci_Storage else None)"

section \<open>Devices\<close>

text \<open>The classes of the device manager that devices found on the bus get.\<close>

record pci_classes =
  pc_kind :: "pci_kind \<Rightarrow> nat list"
  pc_controller :: "nat list"
  pc_disk :: "nat list"
  pc_partition :: "nat list"

definition new_device :: "nat list \<Rightarrow> ata_world \<Rightarrow> nat \<times> ata_world" where
  "new_device cls w =
     (let d = aw_next w; dm = aw_dm w in
      (d, w\<lparr>aw_next := d + 1, aw_dm := dm\<lparr>dm_device := (dm_device dm)(d :=
          \<lparr>dv_name = [], dv_class = cls, dv_file = False, dv_block = None\<rparr>)\<rparr>\<rparr>))"

text \<open>
  A device object that is registered with the manager, its \<open>init\<close>, and the deletion of the object when
  \<open>init\<close> fails: the manager keeps its entry.
\<close>

definition register_or_delete ::
    "nat list \<Rightarrow> (nat \<Rightarrow> ata_world \<Rightarrow> (bool \<times> ata_world) res) \<Rightarrow> ata_world \<Rightarrow> (bool \<times> ata_world) res" where
  "register_or_delete cls dev_init w =
     (let (d, w1) = new_device cls w in
      res_bind (register_device (\<lambda>_ dm. Inr (True, dm)) d (aw_dm w1)) (\<lambda>(_, dm1).
      res_bind (dev_init d (w1\<lparr>aw_dm := dm1\<rparr>)) (\<lambda>(ok, w2).
        if \<not> ok then Inr (False, w2\<lparr>aw_deleted := d # aw_deleted w2\<rparr>) else Inr (True, w2))))"

definition read_cfg :: "port_device \<Rightarrow> u32 \<Rightarrow> u8 \<Rightarrow> u8 \<Rightarrow> u8 \<Rightarrow> ata_world \<Rightarrow> u32 \<times> ata_world" where
  "read_cfg dev bus slot func reg w =
     (let (v, h) = pci_read_config dev bus slot func reg (aw_io w) in (v, w\<lparr>aw_io := h\<rparr>))"

text \<open>A bridge: \<open>rec\<close> probes the bus behind it.\<close>

definition bridge_init ::
    "port_device \<Rightarrow> (u32 \<Rightarrow> ata_world \<Rightarrow> (bool \<times> ata_world) res) \<Rightarrow> u32 \<Rightarrow> u8 \<Rightarrow> u8 \<Rightarrow> ata_world \<Rightarrow> (bool \<times> ata_world) res" where
  "bridge_init dev rec bus slot func w =
     (let (info, w1) = read_cfg dev bus slot func PCI_REG_INFO w in
      if config_subclass info = 4 then
        let (cfg, w2) = read_cfg dev bus slot func PCI_REG_CONFIG w1; ht = config_hdrtype cfg in
        if ht \<noteq> 0x01 \<and> ht \<noteq> 0x81 then Inr (False, w2)
        else let (businfo, w3) = read_cfg dev bus slot func PCI_REG_BUSINFO w2 in
             rec (config_secondary_bus businfo) w3
      else Inr (True, w1))"

text \<open>Storage: a controller with programmable interrupt register starts the disk driver.\<close>

definition storage_init ::
    "port_device \<Rightarrow> pci_classes \<Rightarrow> u32 \<Rightarrow> u8 \<Rightarrow> u8 \<Rightarrow> ata_world \<Rightarrow> (bool \<times> ata_world) res" where
  "storage_init dev cs bus slot func w =
     (let (info, w1) = read_cfg dev bus slot func PCI_REG_INFO w; sub = config_subclass info in
      if sub = 1 then
        let (old_config, w2) = read_cfg dev bus slot func PCI_REG_IRQ w1;
            h3 = pci_write_config bus slot func PCI_REG_IRQ (old_config AND NOT 0xFF OR 0xFE) (aw_io w2);
            (now_config, w4) = read_cfg dev bus slot func PCI_REG_IRQ (w2\<lparr>aw_io := h3\<rparr>) in
        if now_config AND 0xFF = 0xFE then
          let h5 = pci_write_config bus slot func PCI_REG_IRQ (old_config AND NOT 0xFF OR 0) (aw_io w4);
              (b0, w5) = read_cfg dev bus slot func 0x10 (w4\<lparr>aw_io := h5\<rparr>);
              (b1, w6) = read_cfg dev bus slot func 0x14 w5;
              (b2, w7) = read_cfg dev bus slot func 0x18 w6;
              (b3, w8) = read_cfg dev bus slot func 0x1c w7;
              (b4, w9) = read_cfg dev bus slot func 0x20 w8 in
          register_or_delete (pc_controller cs)
            (\<lambda>_. ata_controller_init dev (pc_disk cs) (pc_partition cs) (nth [b0, b1, b2, b3, b4])) w9
        else Inr (False, w4)
      else if sub = 6 then Inr (True, w1)
      else Inr (False, w1))"

definition pci_device_init ::
    "port_device \<Rightarrow> pci_classes \<Rightarrow> (u32 \<Rightarrow> ata_world \<Rightarrow> (bool \<times> ata_world) res) \<Rightarrow> pci_kind \<Rightarrow> u32 \<Rightarrow> u8 \<Rightarrow> u8 \<Rightarrow>
     ata_world \<Rightarrow> (bool \<times> ata_world) res" where
  "pci_device_init dev cs rec kind bus slot func w =
     (case kind of
        Pci_Bridge \<Rightarrow> bridge_init dev rec bus slot func w
      | Pci_Storage \<Rightarrow> storage_init dev cs bus slot func w
      | _ \<Rightarrow> Inr (True, w))"

section \<open>The search\<close>

definition probe_func ::
    "port_device \<Rightarrow> pci_classes \<Rightarrow> (u32 \<Rightarrow> ata_world \<Rightarrow> (bool \<times> ata_world) res) \<Rightarrow> u32 \<Rightarrow> u8 \<Rightarrow> u8 \<Rightarrow>
     ata_world \<Rightarrow> (bool \<times> ata_world) res" where
  "probe_func dev cs rec bus slot func w =
     (let (vendor, w1) = read_cfg dev bus slot func PCI_REG_VENDOR w in
      if config_vendor vendor = 0xffff then Inr (True, w1)
      else let (info, w2) = read_cfg dev bus slot func PCI_REG_INFO w1 in
           case kind_of_class (config_class info) of
             None \<Rightarrow> Inr (True, w2)
           | Some kind \<Rightarrow>
               register_or_delete (pc_kind cs kind) (\<lambda>_. pci_device_init dev cs rec kind bus slot func) w2)"

text \<open>The functions from \<open>func\<close> on: the first one that fails ends the slot.\<close>

fun probe_funcs ::
    "port_device \<Rightarrow> pci_classes \<Rightarrow> (u32 \<Rightarrow> ata_world \<Rightarrow> (bool \<times> ata_world) res) \<Rightarrow> u32 \<Rightarrow> u8 \<Rightarrow> nat \<Rightarrow> nat \<Rightarrow>
     ata_world \<Rightarrow> (bool \<times> ata_world) res" where
  "probe_funcs dev cs rec bus slot func 0 w = Inr (True, w)"
| "probe_funcs dev cs rec bus slot func (Suc n) w =
     res_bind (probe_func dev cs rec bus slot (of_nat func) w) (\<lambda>(ok, w1).
       if \<not> ok then Inr (False, w1) else probe_funcs dev cs rec bus slot (Suc func) n w1)"

definition probe_slot ::
    "port_device \<Rightarrow> pci_classes \<Rightarrow> (u32 \<Rightarrow> ata_world \<Rightarrow> (bool \<times> ata_world) res) \<Rightarrow> u32 \<Rightarrow> nat \<Rightarrow>
     ata_world \<Rightarrow> (bool \<times> ata_world) res" where
  "probe_slot dev cs rec bus slot w =
     res_bind (probe_func dev cs rec bus (of_nat slot) 0 w) (\<lambda>(ok, w1).
       if \<not> ok then Inr (False, w1)
       else let (cfg, w2) = read_cfg dev bus (of_nat slot) 0 PCI_REG_CONFIG w1 in
            if config_hdrtype cfg AND 0x80 \<noteq> 0 then probe_funcs dev cs rec bus (of_nat slot) 1 7 w2
            else Inr (True, w2))"

text \<open>All slots are probed, whether or not one fails.\<close>

fun probe_slots ::
    "port_device \<Rightarrow> pci_classes \<Rightarrow> (u32 \<Rightarrow> ata_world \<Rightarrow> (bool \<times> ata_world) res) \<Rightarrow> u32 \<Rightarrow> nat \<Rightarrow> nat \<Rightarrow> bool \<Rightarrow>
     ata_world \<Rightarrow> (bool \<times> ata_world) res" where
  "probe_slots dev cs rec bus slot 0 success w = Inr (success, w)"
| "probe_slots dev cs rec bus slot (Suc n) success w =
     res_bind (probe_slot dev cs rec bus slot w) (\<lambda>(ok, w1).
       probe_slots dev cs rec bus (Suc slot) n (success \<and> ok) w1)"

text \<open>
  A bridge may name any bus, the one it is on included, so the search need not end: \<open>depth\<close> bounds the
  number of bridges on a path.
\<close>

fun pci_probe ::
    "nat \<Rightarrow> port_device \<Rightarrow> pci_classes \<Rightarrow> u32 \<Rightarrow> ata_world \<Rightarrow> (bool \<times> ata_world) res" where
  "pci_probe 0 dev cs bus w = Inl Diverges"
| "pci_probe (Suc depth) dev cs bus w = probe_slots dev cs (pci_probe depth dev cs) bus 0 32 True w"

end
