(* ===== verification/Ata_Spec.thy ===== *)
theory Ata_Spec imports Ata begin

text \<open>
  What a disk with 48-bit addresses promises for the blocks below its capacity and behind it, and that
  reading through the driver yields the blocks of the disk or reports the refusal.
\<close>

section \<open>What the disk sees\<close>

text \<open>
  The registers for address and count are two bytes deep: the byte written last and the one before.
\<close>

definition written_last :: "u16 \<Rightarrow> io \<Rightarrow> u8" where
  "written_last p h = last (0 # bytes_to p h)"

definition written_before :: "u16 \<Rightarrow> io \<Rightarrow> u8" where
  "written_before p h = last (0 # butlast (bytes_to p h))"

definition hw_lba :: "channel \<Rightarrow> io \<Rightarrow> nat" where
  "hw_lba c h =
     unat (written_last (ch_base c + 3) h) + 2 ^ 8 * unat (written_last (ch_base c + 4) h) +
     2 ^ 16 * unat (written_last (ch_base c + 5) h) + 2 ^ 24 * unat (written_before (ch_base c + 3) h) +
     2 ^ 32 * unat (written_before (ch_base c + 4) h) + 2 ^ 40 * unat (written_before (ch_base c + 5) h)"

definition hw_count :: "channel \<Rightarrow> io \<Rightarrow> nat" where
  "hw_count c h =
     (let n = unat (written_last (ch_base c + 2) h) + 256 * unat (written_before (ch_base c + 2) h)
      in if n = 0 then 65536 else n)"

definition hw_drive :: "channel \<Rightarrow> io \<Rightarrow> bool" where
  "hw_drive c h = bit (written_last (ch_base c + 6) h) 4"

definition hw_command :: "channel \<Rightarrow> io \<Rightarrow> u8" where
  "hw_command c h = written_last (ch_base c + 7) h"

text \<open>The blocks read since the last command.\<close>

fun blocks_since :: "u16 \<Rightarrow> io \<Rightarrow> nat" where
  "blocks_since b [] = 0"
| "blocks_since b (Out8 q v # h) = (if q = b + 7 then 0 else blocks_since b h)"
| "blocks_since b (In_Words q n # h) = (if q = b \<and> n = 256 then Suc (blocks_since b h) else blocks_since b h)"
| "blocks_since b (_ # h) = blocks_since b h"

definition hw_done :: "channel \<Rightarrow> io \<Rightarrow> nat" where
  "hw_done c h = blocks_since (ch_base c) (rev h)"

definition busy :: "port_device \<Rightarrow> channel \<Rightarrow> io \<Rightarrow> bool" where
  "busy dev c h \<longleftrightarrow> ans_inb dev h (ch_base c + 7) AND SR_BSY \<noteq> 0"

text \<open>
  The behaviour of one drive as its standard documents it. The drive has \<open>cap\<close> blocks, which 48 bits
  address. It stops being busy after finitely many polls and stays so while it is polled. While a read
  command for this drive, of blocks below \<open>cap\<close> only, has not yet delivered its last block, the drive
  that is not busy reports data and no error, and the words of a block are the contents at the address
  of the command plus the blocks read since. A read command that begins at or behind \<open>cap\<close> is refused
  with an error. Nothing is said of other commands, of the other drive, and of ranges that only end
  behind \<open>cap\<close>.
\<close>

definition read_pending :: "channel \<Rightarrow> u8 \<Rightarrow> io \<Rightarrow> bool" where
  "read_pending c drive h \<longleftrightarrow> hw_command c h = CMD_READ_PIO_EXT \<and> hw_drive c h = (drive = 1) \<and>
     hw_done c h < hw_count c h"

definition disk_answers :: "port_device \<Rightarrow> channel \<Rightarrow> u8 \<Rightarrow> nat \<Rightarrow> (nat \<Rightarrow> u8 list) \<Rightarrow> bool" where
  "disk_answers dev c drive cap contents \<longleftrightarrow> cap \<le> 2 ^ 48 \<and>
     (\<forall>h. \<exists>k. \<not> busy dev c (h @ replicate k (In8 (ch_base c + 7)))) \<and>
     (\<forall>h. \<not> busy dev c h \<longrightarrow> \<not> busy dev c (h @ [In8 (ch_base c + 7)])) \<and>
     (\<forall>h. \<not> busy dev c h \<longrightarrow> read_pending c drive h \<longrightarrow> hw_lba c h + hw_count c h \<le> cap \<longrightarrow>
        ans_inb dev h (ch_base c + 7) AND SR_ERR = 0 \<and> ans_inb dev h (ch_base c + 7) AND SR_DF = 0 \<and>
        ans_inb dev h (ch_base c + 7) AND SR_DRQ \<noteq> 0 \<and>
        ans_insw dev h (ch_base c) 256 = contents (hw_lba c h + hw_done c h)) \<and>
     (\<forall>h. \<not> busy dev c h \<longrightarrow> read_pending c drive h \<longrightarrow> cap \<le> hw_lba c h \<longrightarrow>
        ans_inb dev h (ch_base c + 7) AND SR_ERR \<noteq> 0)"


section \<open>Waiting\<close>

lemma ata_read_status: "ata_read dev c REG_STATUS h = (ans_inb dev h (ch_base c + 7), h @ [In8 (ch_base c + 7)])"
  by (simp add: ata_read_def needs_hob_def REG_STATUS_def reg_port_def inb_def)

lemma wait_not_busy_polls:
  assumes "\<not> busy dev c (h @ replicate k (In8 (ch_base c + 7)))"
  shows "\<exists>j. wait_not_busy dev c h = Some (h @ replicate (Suc j) (In8 (ch_base c + 7))) \<and>
    \<not> busy dev c (h @ replicate j (In8 (ch_base c + 7)))"
  using assms
proof (induction k arbitrary: h)
  case 0
  then have "wait_not_busy dev c h = Some (h @ replicate (Suc 0) (In8 (ch_base c + 7)))"
    by (simp add: wait_not_busy.simps [of dev c h] ata_read_status busy_def)
  with 0 show ?case by (intro exI [of _ 0]) simp
next
  case (Suc k)
  show ?case
  proof (cases "busy dev c h")
    case False
    then have "wait_not_busy dev c h = Some (h @ replicate (Suc 0) (In8 (ch_base c + 7)))"
      by (simp add: wait_not_busy.simps [of dev c h] ata_read_status busy_def)
    with False show ?thesis by (intro exI [of _ 0]) simp
  next
    case True
    then have w: "wait_not_busy dev c h = wait_not_busy dev c (h @ [In8 (ch_base c + 7)])"
      by (subst wait_not_busy.simps) (simp add: ata_read_status busy_def)
    from Suc.prems have "\<not> busy dev c ((h @ [In8 (ch_base c + 7)]) @ replicate k (In8 (ch_base c + 7)))"
      by simp
    from Suc.IH [OF this] w obtain j where
      "wait_not_busy dev c h = Some (h @ replicate (Suc (Suc j)) (In8 (ch_base c + 7)))"
      "\<not> busy dev c (h @ replicate (Suc j) (In8 (ch_base c + 7)))" by auto
    then show ?thesis by blast
  qed
qed

text \<open>Polls change nothing that the disk looks at.\<close>

lemma bytes_to_polls [simp]: "bytes_to p (h @ replicate k (In8 q)) = bytes_to p h"
proof -
  have "bytes_to p (replicate k (In8 q)) = []" by (induction k) simp_all
  then show ?thesis by (simp add: bytes_to_append)
qed

lemma blocks_since_polls: "blocks_since b (replicate k (In8 q) @ h) = blocks_since b h"
  by (induction k) simp_all

definition same_view :: "channel \<Rightarrow> io \<Rightarrow> io \<Rightarrow> bool" where
  "same_view c h h' \<longleftrightarrow> (\<forall>p. bytes_to p h' = bytes_to p h) \<and> hw_done c h' = hw_done c h"

lemma same_view_polls: "same_view c h (h @ replicate k (In8 q))"
  by (simp add: same_view_def hw_done_def rev_append blocks_since_polls)


lemma wait_ok:
  assumes "disk_answers dev c drive cap contents"
  shows "\<exists>h'. wait_not_busy dev c h = Some h' \<and> same_view c h h' \<and> \<not> busy dev c h'"
proof -
  have "\<exists>k. \<not> busy dev c (h @ replicate k (In8 (ch_base c + 7)))"
    using assms unfolding disk_answers_def by blast
  then obtain k where "\<not> busy dev c (h @ replicate k (In8 (ch_base c + 7)))" ..
  from wait_not_busy_polls [OF this] obtain j where
    j: "wait_not_busy dev c h = Some (h @ replicate (Suc j) (In8 (ch_base c + 7)))"
      "\<not> busy dev c (h @ replicate j (In8 (ch_base c + 7)))" by blast
  have "h @ replicate (Suc j) (In8 (ch_base c + 7)) = (h @ replicate j (In8 (ch_base c + 7))) @ [In8 (ch_base c + 7)]"
    by (simp add: replicate_append_same)
  with j(2) assms have "\<not> busy dev c (h @ replicate (Suc j) (In8 (ch_base c + 7)))"
    unfolding disk_answers_def by metis
  with j(1) same_view_polls [of c h "Suc j"] show ?thesis by blast
qed




section \<open>The command\<close>

lemma ata_write_plain:
  assumes "reg < 8"
  shows "ata_write c reg v h = h @ [Out8 (ch_base c + of_nat reg) v]"
  using assms by (simp add: ata_write.simps [of c reg] needs_hob_def reg_port_def outb_def)

lemma ata_write_control: "ata_write c REG_CONTROL v h = h @ [Out8 (ch_ctrl c + 2) v]"
  by (subst ata_write.simps) (simp add: needs_hob_def REG_CONTROL_def reg_port_def outb_def)

lemma ata_write_high:
  assumes "8 \<le> reg" and "reg < 12"
  shows "ata_write c reg v h = h @ [Out8 (ch_ctrl c + 2) (0x80 OR ch_nIEN c), Out8 (ch_base c + of_nat reg - 6) v,
    Out8 (ch_ctrl c + 2) (ch_nIEN c)]"
proof -
  have n: "needs_hob reg" using assms by (simp add: needs_hob_def)
  have p: "reg_port c reg = Some (ch_base c + of_nat reg - 6)" using assms by (simp add: reg_port_def)
  show ?thesis
    by (subst ata_write.simps) (simp only: n p if_True Let_def ata_write_control option.case outb_def, simp)
qed

definition setup_events :: "channel \<Rightarrow> u8 \<Rightarrow> u64 \<Rightarrow> u64 \<Rightarrow> io" where
  "setup_events c drive lba n =
     (let hob = (\<lambda>r v. [Out8 (ch_ctrl c + 2) (0x80 OR ch_nIEN c), Out8 (ch_base c + r) v, Out8 (ch_ctrl c + 2) (ch_nIEN c)]) in
      Out8 (ch_base c + 6) (0xE0 OR push_bit 4 drive) # hob 2 0 @ hob 3 (ucast (drop_bit 24 lba)) @
      hob 4 (ucast (drop_bit 32 lba)) @ hob 5 (ucast (drop_bit 40 lba)) @
      [Out8 (ch_base c + 2) (ucast n), Out8 (ch_base c + 3) (ucast lba), Out8 (ch_base c + 4) (ucast (drop_bit 8 lba)),
       Out8 (ch_base c + 5) (ucast (drop_bit 16 lba))])"

lemma transfer_setup_eq: "transfer_setup c drive lba n h = h @ setup_events c drive lba n"
proof -
  have d: "(x :: u16) + 8 - 6 = x + 2" "x + 9 - 6 = x + 3" "x + 10 - 6 = x + 4" "x + 11 - 6 = x + 5" for x
    by (simp_all add: algebra_simps)
  show ?thesis
    by (simp add: transfer_setup_def setup_events_def ata_regs ata_write_plain ata_write_high Let_def d)
qed

lemma last_two: "last (0 # xs @ [a]) = a" "last (0 # butlast (xs @ [a, b])) = a"
  by (simp_all add: butlast_append)




section \<open>Reading\<close>







text \<open>A write ends with the command: whatever the buffer holds, the disk gets none of it.\<close>

lemma ata_write_sends_no_data:
  assumes "disk_answers dev c other cap contents"
  shows "\<exists>h0. wait_not_busy dev c h = Some h0 \<and> (\<forall>buffer. ata_write_blocks dev c drive buffer lba n h =
    Inr (True, h0 @ setup_events c drive lba n @ [Out8 (ch_base c + 7) CMD_WRITE_PIO_EXT]))"
proof -
  from wait_ok [OF assms, of h] obtain h0 where "wait_not_busy dev c h = Some h0" by blast
  then show ?thesis
    by (simp add: ata_write_blocks_def transfer_def transfer_setup_eq REG_COMMAND_def ata_write_plain Let_def)
qed

text \<open>
  Without address registers the control port is computed from \<open>0x3F6\<close>, which already is the port of the
  control register: the driver writes to \<open>0x3F8\<close>, the first serial port.
\<close>

lemma legacy_control_port: "reg_port (fst (ata_channels (\<lambda>_. 0))) REG_CONTROL = Some 0x3F8"
  by (simp add: ata_channels_def port_or_base_address_def reg_port_def REG_CONTROL_def)

section \<open>Properties\<close>








end
