(* ===== verification/Pci_Spec.thy ===== *)
theory Pci_Spec imports Pci Ata_Spec begin

unbundle bit_operations_syntax

text \<open>
  The addresses of configuration space, and what a device that fails to start leaves behind.
\<close>

section \<open>Addresses\<close>

lemma bit_word_less:
  fixes w :: "'a :: len word"
  assumes "unat w < 2 ^ k" and "k \<le> n"
  shows "\<not> bit w n"
proof
  assume "bit w n"
  then have "bit (unat w) n" by (simp add: bit_unsigned_iff)
  then have "unat w div 2 ^ n \<noteq> 0" by (metis bit_iff_odd even_zero)
  then have "2 ^ n \<le> unat w" by (meson div_eq_0_iff not_le)
  moreover have "(2 :: nat) ^ k \<le> 2 ^ n" using assms(2) by (simp add: power_increasing)
  ultimately show False using assms(1) by simp
qed

lemma high_bit:
  "n < k \<Longrightarrow> \<not> bit (2 ^ k :: int) n" "n < k \<Longrightarrow> \<not> bit (2 ^ k :: u32) n"
  by (simp_all add: bit_exp_iff)

text \<open>
  The address holds bus, slot, function and the register rounded down to a multiple of four, as long
  as each fits its field, so different places have different addresses.
\<close>

lemma pci_address_fields:
  assumes "unat slot < 2 ^ 5" and "unat func < 2 ^ 3" and "unat bus < 2 ^ 8"
  shows "drop_bit 16 (pci_address bus slot func reg) AND 0xff = bus"
    and "drop_bit 11 (pci_address bus slot func reg) AND 0x1f = ucast slot"
    and "drop_bit 8 (pci_address bus slot func reg) AND 0x7 = ucast func"
    and "pci_address bus slot func reg AND 0xff = ucast (reg AND NOT 3)"
proof -
  note less = bit_word_less [OF assms(1)] bit_word_less [OF assms(2)] bit_word_less [OF assms(3)]
  have m: "(0xff :: u32) = mask 8" "(0x1f :: u32) = mask 5" "(0x7 :: u32) = mask 3" "(0x80000000 :: u32) = push_bit 31 1"
    by (simp_all add: mask_eq_exp_minus_1)
  note high = high_bit [of _ 15, simplified] high_bit [of _ 20, simplified] high_bit [of _ 23, simplified] high_bit [of _ 31, simplified]
  have r: "\<not> bit reg (8 + n)" for n by (rule bit_word_less [of reg 8]) (use unsigned_less [of reg, where 'a = nat] in simp_all)
  have r': "\<not> bit reg (16 + n)" "\<not> bit reg (11 + n)" for n using r [of "8 + n"] r [of "3 + n"] by simp_all
  have f: "n < 8" if "bit bus n" for n using less(3) that by (meson not_le)
  have g: "n < 5" if "bit slot n" for n using less(1) that by (meson not_le)
  have k: "n < 3" if "bit func n" for n using less(2) that by (meson not_le)
  show "drop_bit 16 (pci_address bus slot func reg) AND 0xff = bus"
    using less unfolding pci_address_def m
    by (intro bit_word_eqI) (auto simp: bit_simps high r r' dest: f)
  show "drop_bit 11 (pci_address bus slot func reg) AND 0x1f = ucast slot"
    using less unfolding pci_address_def m
    by (intro bit_word_eqI) (auto simp: bit_simps high r r' dest: g)
  show "drop_bit 8 (pci_address bus slot func reg) AND 0x7 = ucast func"
    using less unfolding pci_address_def m
    by (intro bit_word_eqI) (auto simp: bit_simps high r r' dest: k)
  show "pci_address bus slot func reg AND 0xff = ucast (reg AND NOT 3)"
    using less unfolding pci_address_def m
    by (intro bit_word_eqI) (auto simp: bit_simps high)
qed

section \<open>Devices that fail to start\<close>

text \<open>
  A device whose \<open>init\<close> fails is deleted, but the manager still finds it under the name it gave it.
\<close>

lemma deleted_device_found:
  assumes "map_inv (dm_devices (aw_dm w))"
    and "register_or_delete cls (\<lambda>_ w. Inr (False, w)) w = Inr (ok, w')"
  shows "\<not> ok \<and> aw_next w \<in> set (aw_deleted w') \<and>
    (\<exists>nm. try_get_device_by_name nm (aw_dm w') = Some (aw_next w))"
proof -
  obtain w1 where n: "new_device cls w = (aw_next w, w1)" "aw_deleted w1 = aw_deleted w"
      "dm_devices (aw_dm w1) = dm_devices (aw_dm w)"
    by (simp add: new_device_def Let_def)
  from assms(2) obtain r dm1 where reg: "register_device (\<lambda>_ dm. Inr (True, dm)) (aw_next w) (aw_dm w1) = Inr (r, dm1)"
      and w': "\<not> ok" "w' = (w1\<lparr>aw_dm := dm1\<rparr>)\<lparr>aw_deleted := aw_next w # aw_deleted w1\<rparr>"
    by (auto simp: register_or_delete_def n(1) res_bind_Inr_iff)
  from reg obtain nm m where m: "kmap_add (fnv nm) (aw_next w) (dm_devices (aw_dm w)) = Inr m" "dm_devices dm1 = m"
    by (auto simp: register_device_def acquire_instance_def assign_name_def Let_def res_bind_Inr_iff n(3))
  have "kmap_try_get (fnv nm) m = Some (aw_next w)"
    using km.add_ok [OF assms(1), of "fnv nm" "aw_next w"] m(1) by auto
  then have "try_get_device_by_name nm (aw_dm w') = Some (aw_next w)"
    using w'(2) m(2) by (simp add: try_get_device_by_name_def)
  with w' show ?thesis by auto
qed

text \<open>
  A bridge that leads back to its own bus: the search recurses for as long as the stack lasts.
\<close>

lemma bridge_to_itself:
  assumes "\<And>w. \<exists>w1 w2 w3 info cfg businfo. read_cfg dev bus slot func PCI_REG_INFO w = (info, w1) \<and>
      config_subclass info = 4 \<and> read_cfg dev bus slot func PCI_REG_CONFIG w1 = (cfg, w2) \<and> config_hdrtype cfg = 1 \<and>
      read_cfg dev bus slot func PCI_REG_BUSINFO w2 = (businfo, w3) \<and> config_secondary_bus businfo = bus"
  shows "\<exists>w'. bridge_init dev rec bus slot func w = rec bus w'"
proof -
  from assms [of w] show ?thesis by (auto simp: bridge_init_def)
qed

end
