(* ===== verification/Mutex.thy ===== *)
theory Mutex imports Prelude begin

text \<open>
  The mutex of the kernel (util/lock.h, util/lock.cpp) as the atomic actions of its operations: the
  test-and-set, the yield between two attempts, the store of the owner, the release.  Threads take
  these actions one at a time in any order.
\<close>

section \<open>The mutex\<close>

text \<open>The constructor leaves the owner unset: it is whatever was in memory, a thread or \<open>None\<close> for anything else.\<close>

record mutex =
  mx_locked :: u64
  mx_owner :: "nat option"

definition mutex_new :: "nat option \<Rightarrow> mutex" where
  "mutex_new memory = \<lparr>mx_locked = 0, mx_owner = memory\<rparr>"

definition test_and_set :: "mutex \<Rightarrow> u64 \<times> mutex" where
  "test_and_set m = (mx_locked m, m\<lparr>mx_locked := 1\<rparr>)"

definition set_owner :: "nat \<Rightarrow> mutex \<Rightarrow> mutex" where
  "set_owner t m = m\<lparr>mx_owner := Some t\<rparr>"

definition mutex_unlock :: "mutex \<Rightarrow> mutex" where
  "mutex_unlock m = m\<lparr>mx_locked := 0\<rparr>"

definition mutex_locked :: "mutex \<Rightarrow> bool" where
  "mutex_locked m \<longleftrightarrow> mx_locked m \<noteq> 0"

definition locked_by_me :: "nat \<Rightarrow> mutex \<Rightarrow> bool" where
  "locked_by_me t m \<longleftrightarrow> mutex_locked m \<and> mx_owner m = Some t"

text \<open>Waiting on a condition variable checks that the caller holds the mutex, and returns.\<close>

definition condvar_wait :: "nat \<Rightarrow> mutex \<Rightarrow> unit res" where
  "condvar_wait t m = assert_that (locked_by_me t m)"

section \<open>Threads\<close>

text \<open>
  Where a thread is: outside, before a test-and-set, in the system call that yields, between the
  test-and-set and the store of the owner, or between \<open>lock\<close> and \<open>unlock\<close>.
\<close>

datatype mutex_pc = Outside | Trying | Yielding | Acquired | Holding

record mutex_sys =
  mtx :: mutex
  pcs :: "nat \<Rightarrow> mutex_pc"

text \<open>The next action of thread \<open>t\<close>.\<close>

definition mutex_step :: "nat \<Rightarrow> mutex_sys \<Rightarrow> mutex_sys" where
  "mutex_step t s =
     (case pcs s t of
        Outside \<Rightarrow> s\<lparr>pcs := (pcs s)(t := Trying)\<rparr>
      | Trying \<Rightarrow>
          (let (old, m) = test_and_set (mtx s)
           in s\<lparr>mtx := m, pcs := (pcs s)(t := if old \<noteq> 0 then Yielding else Acquired)\<rparr>)
      | Yielding \<Rightarrow> s\<lparr>pcs := (pcs s)(t := Trying)\<rparr>
      | Acquired \<Rightarrow> s\<lparr>mtx := set_owner t (mtx s), pcs := (pcs s)(t := Holding)\<rparr>
      | Holding \<Rightarrow> s\<lparr>mtx := mutex_unlock (mtx s), pcs := (pcs s)(t := Outside)\<rparr>)"

definition mutex_start :: "nat option \<Rightarrow> mutex_sys" where
  "mutex_start memory = \<lparr>mtx = mutex_new memory, pcs = (\<lambda>_. Outside)\<rparr>"

text \<open>The states that some interleaving of the threads reaches.\<close>

inductive mutex_reach :: "mutex_sys \<Rightarrow> bool" where
  mutex_init: "mutex_reach (mutex_start memory)"
| mutex_next: "mutex_reach s \<Longrightarrow> mutex_reach (mutex_step t s)"

definition has_mutex :: "mutex_sys \<Rightarrow> nat \<Rightarrow> bool" where
  "has_mutex s t \<longleftrightarrow> pcs s t = Acquired \<or> pcs s t = Holding"

definition mutex_inv :: "mutex_sys \<Rightarrow> bool" where
  "mutex_inv s \<longleftrightarrow> (\<forall>t u. has_mutex s t \<longrightarrow> has_mutex s u \<longrightarrow> t = u) \<and>
     (mutex_locked (mtx s) \<longleftrightarrow> (\<exists>t. has_mutex s t)) \<and>
     (\<forall>t. pcs s t = Holding \<longrightarrow> mx_owner (mtx s) = Some t)"

lemma mutex_inv_start: "mutex_inv (mutex_start memory)"
  by (simp add: mutex_inv_def mutex_start_def has_mutex_def mutex_new_def mutex_locked_def)

lemma has_mutex_step:
  "has_mutex (mutex_step t s) u \<longleftrightarrow>
     (if u = t then pcs s t = Acquired \<or> pcs s t = Trying \<and> \<not> mutex_locked (mtx s) else has_mutex s u)"
  by (cases "pcs s t") (auto simp: mutex_step_def has_mutex_def test_and_set_def mutex_locked_def Let_def)

lemma mutex_locked_step:
  "mutex_locked (mtx (mutex_step t s)) \<longleftrightarrow>
     (case pcs s t of Trying \<Rightarrow> True | Holding \<Rightarrow> False | _ \<Rightarrow> mutex_locked (mtx s))"
  by (cases "pcs s t")
    (auto simp: mutex_step_def test_and_set_def mutex_locked_def set_owner_def mutex_unlock_def Let_def)

lemma mutex_owner_step:
  "mx_owner (mtx (mutex_step t s)) = (if pcs s t = Acquired then Some t else mx_owner (mtx s))"
  by (cases "pcs s t") (auto simp: mutex_step_def test_and_set_def set_owner_def mutex_unlock_def Let_def)

lemma mutex_pc_step:
  "pcs (mutex_step t s) u = Holding \<longleftrightarrow> (if u = t then pcs s t = Acquired else pcs s u = Holding)"
  by (cases "pcs s t") (auto simp: mutex_step_def test_and_set_def Let_def)

lemma mutex_inv_step:
  assumes "mutex_inv s"
  shows "mutex_inv (mutex_step t s)"
proof -
  have one: "has_mutex s x \<Longrightarrow> has_mutex s y \<Longrightarrow> x = y" for x y using assms by (simp add: mutex_inv_def)
  have lk: "mutex_locked (mtx s) \<longleftrightarrow> (\<exists>x. has_mutex s x)" using assms by (simp add: mutex_inv_def)
  have own: "pcs s x = Holding \<Longrightarrow> mx_owner (mtx s) = Some x" for x using assms by (simp add: mutex_inv_def)
  have h: "has_mutex s t" if "pcs s t = Acquired \<or> pcs s t = Holding" using that by (simp add: has_mutex_def)
  have n: "\<not> has_mutex s t" if "pcs s t \<noteq> Acquired" "pcs s t \<noteq> Holding" using that by (simp add: has_mutex_def)
  show ?thesis
    unfolding mutex_inv_def has_mutex_step mutex_locked_step mutex_owner_step mutex_pc_step
  proof (intro conjI allI impI)
    fix x y
    assume "if x = t then pcs s t = Acquired \<or> pcs s t = Trying \<and> \<not> mutex_locked (mtx s) else has_mutex s x"
      and "if y = t then pcs s t = Acquired \<or> pcs s t = Trying \<and> \<not> mutex_locked (mtx s) else has_mutex s y"
    then show "x = y" using one lk h by (auto split: if_splits)
  next
    show "(case pcs s t of Trying \<Rightarrow> True | Holding \<Rightarrow> False | _ \<Rightarrow> mutex_locked (mtx s)) \<longleftrightarrow>
      (\<exists>x. if x = t then pcs s t = Acquired \<or> pcs s t = Trying \<and> \<not> mutex_locked (mtx s) else has_mutex s x)"
    proof (cases "pcs s t")
      case Trying
      then have "\<not> has_mutex s t" using n by simp
      then have "\<exists>x. x \<noteq> t \<and> has_mutex s x" if "mutex_locked (mtx s)"
        using lk that by metis
      with Trying show ?thesis by auto
    next
      case Holding
      then have "x = t" if "has_mutex s x" for x using one h that by blast
      with Holding show ?thesis by auto
    next
      case Acquired
      then have "has_mutex s t" using h by simp
      with Acquired lk show ?thesis by auto
    next
      case Outside
      then have "\<not> has_mutex s t" using n by simp
      then have "(\<exists>x. has_mutex s x) \<longleftrightarrow> (\<exists>x. x \<noteq> t \<and> has_mutex s x)" by metis
      with Outside lk show ?thesis by auto
    next
      case Yielding
      then have "\<not> has_mutex s t" using n by simp
      then have "(\<exists>x. has_mutex s x) \<longleftrightarrow> (\<exists>x. x \<noteq> t \<and> has_mutex s x)" by metis
      with Yielding lk show ?thesis by auto
    qed
  next
    fix x assume a: "if x = t then pcs s t = Acquired else pcs s x = Holding"
    show "(if pcs s t = Acquired then Some t else mx_owner (mtx s)) = Some x"
    proof (cases "pcs s t = Acquired")
      case True
      then have "has_mutex s t" using h by simp
      moreover have "has_mutex s x" if "x \<noteq> t" using a that by (simp add: has_mutex_def)
      ultimately have "x = t" using one by metis
      with True show ?thesis by simp
    next
      case False
      with a have "pcs s x = Holding" by (cases "x = t") simp_all
      with own False show ?thesis by simp
    qed
  qed
qed

lemma mutex_reach_inv: "mutex_reach s \<Longrightarrow> mutex_inv s"
  by (induction rule: mutex_reach.induct) (simp_all add: mutex_inv_start mutex_inv_step)

text \<open>
  Between the test-and-set and the store of the owner the owner is the previous one: a thread that
  has released the mutex is then told that it holds it.
\<close>

lemma stale_owner:
  "\<exists>s. mutex_reach s \<and> pcs s 1 = Outside \<and> pcs s 2 = Acquired \<and> locked_by_me 1 (mtx s)"
proof -
  define s where "s = fold mutex_step [1, 1, 1, 1, 2, 2] (mutex_start None)"
  have "mutex_reach s" by (auto simp: s_def intro!: mutex_reach.intros)
  moreover have "pcs s 1 = Outside \<and> pcs s 2 = Acquired \<and> locked_by_me 1 (mtx s)"
    by (simp add: s_def mutex_step_def mutex_start_def mutex_new_def test_and_set_def set_owner_def
        mutex_unlock_def locked_by_me_def mutex_locked_def)
  ultimately show ?thesis by blast
qed

section \<open>Properties\<close>

text \<open>C39: mutual exclusion: in every state that any interleaving of any threads reaches, at most one thread
  has the mutex, and the mutex is locked exactly when one has it. While a thread is between \<open>lock\<close> and
  \<open>unlock\<close>, it and no other is told that it holds the mutex; nobody is told so while no thread has it. Only
  between the test-and-set of the thread that has it and its store of the owner may another be told so, and
  that happens: the owner is not reset by \<open>unlock\<close>, so when a second thread has taken the mutex the
  thread that released it is still told that it holds it. Some action leads on: an attempt succeeds when
  no thread has the mutex, and the thread that has it releases it within two of its actions.\<close>

theorem mutex_exclusion:
  assumes "mutex_reach s"
  shows "(\<forall>t u. has_mutex s t \<longrightarrow> has_mutex s u \<longrightarrow> t = u) \<and>
    (mutex_locked (mtx s) \<longleftrightarrow> (\<exists>t. has_mutex s t)) \<and>
    (pcs s t = Holding \<longrightarrow> (\<forall>u. locked_by_me u (mtx s) \<longleftrightarrow> u = t)) \<and>
    (\<forall>u. locked_by_me u (mtx s) \<longrightarrow> has_mutex s u \<or> (\<exists>v. pcs s v = Acquired)) \<and>
    (pcs s t = Holding \<longrightarrow> pcs s v = Trying \<longrightarrow>
       pcs (mutex_step v (mutex_step t s)) v = Acquired \<and> locked_by_me t (mtx (mutex_step v (mutex_step t s)))) \<and>
    (pcs s t = Trying \<longrightarrow> (\<forall>u. \<not> has_mutex s u) \<longrightarrow> has_mutex (mutex_step t s) t) \<and>
    (has_mutex s t \<longrightarrow> \<not> mutex_locked (mtx (mutex_step t s)) \<or> \<not> mutex_locked (mtx (mutex_step t (mutex_step t s))))"
proof -
  have inv: "mutex_inv s" by (rule mutex_reach_inv [OF assms])
  then have lk: "mutex_locked (mtx s) \<longleftrightarrow> (\<exists>t. has_mutex s t)" by (simp add: mutex_inv_def)
  have told: "\<forall>u. locked_by_me u (mtx s) \<longleftrightarrow> u = t" if "pcs s t = Holding" for t
  proof -
    have "mx_owner (mtx s) = Some t" using inv that by (simp add: mutex_inv_def)
    moreover have "mutex_locked (mtx s)" using lk that by (auto simp: has_mutex_def)
    ultimately show ?thesis by (auto simp: locked_by_me_def)
  qed
  moreover have "has_mutex s u \<or> (\<exists>v. pcs s v = Acquired)" if u: "locked_by_me u (mtx s)" for u
  proof -
    obtain v where v: "has_mutex s v" using u lk by (auto simp: locked_by_me_def)
    then show ?thesis using told u by (cases "pcs s v = Acquired") (auto simp: has_mutex_def)
  qed
  moreover have "pcs (mutex_step v (mutex_step t s)) v = Acquired \<and> locked_by_me t (mtx (mutex_step v (mutex_step t s)))"
    if "pcs s t = Holding" "pcs s v = Trying" for v
  proof -
    have "mx_owner (mtx s) = Some t" using inv that by (simp add: mutex_inv_def)
    then show ?thesis
      using that by (auto simp: mutex_step_def mutex_unlock_def test_and_set_def locked_by_me_def mutex_locked_def)
  qed
  moreover have "\<not> mutex_locked (mtx (mutex_step t s)) \<or> \<not> mutex_locked (mtx (mutex_step t (mutex_step t s)))"
    if "has_mutex s t"
  proof (cases "pcs s t = Holding")
    case True
    then show ?thesis by (simp add: mutex_locked_step)
  next
    case False
    with that have "pcs (mutex_step t s) t = Holding" by (simp add: mutex_pc_step has_mutex_def)
    then show ?thesis by (simp add: mutex_locked_step [of t "mutex_step t s"])
  qed
  ultimately show ?thesis
    using inv lk by (auto simp: mutex_inv_def has_mutex_step)
qed

lemma mutex_exclusion_witness:
  "has_mutex (fold mutex_step [3, 7, 3, 7] (mutex_start None)) 3 \<and> \<not> has_mutex (fold mutex_step [3, 7, 3, 7] (mutex_start None)) 7"
proof -
  define s where "s = fold mutex_step [3, 7, 3, 7] (mutex_start None)"
  have "mutex_reach s" by (auto simp: s_def intro!: mutex_reach.intros)
  from mutex_exclusion [OF this] have "has_mutex s 3 \<Longrightarrow> \<not> has_mutex s 7" by fastforce
  moreover have "has_mutex s 3"
    by (simp add: s_def has_mutex_def mutex_step_def mutex_start_def mutex_new_def test_and_set_def)
  ultimately show ?thesis by (simp add: s_def)
qed

end
