(* ===== verification/Acpi.thy ===== *)
theory Acpi imports Addresses begin

unbundle bit_operations_syntax

text \<open>
  The tables of the firmware (arch/x86/acpi/acpi.cpp): the search for the root pointer, checksums, the
  root table and the records of the interrupt table, which name the address of the IOAPIC.
\<close>

section \<open>Memory\<close>

text \<open>Memory by virtual address, and little-endian numbers in it.\<close>

type_synonym memory = "u64 \<Rightarrow> u8"

fun ld :: "nat \<Rightarrow> memory \<Rightarrow> u64 \<Rightarrow> nat" where
  "ld 0 mem a = 0"
| "ld (Suc n) mem a = unat (mem a) + 256 * ld n mem (a + 1)"

text \<open>The fields that the code reads, at their places in the packed structures.\<close>

definition RSDP_SIGNATURE :: nat where
  "RSDP_SIGNATURE = 0x2052545020445352"

definition RSDP_SIZE :: nat where
  "RSDP_SIZE = 20"

definition rsdp_signature :: "memory \<Rightarrow> u64 \<Rightarrow> nat" where
  "rsdp_signature mem a = ld 8 mem a"

definition rsdp_revision :: "memory \<Rightarrow> u64 \<Rightarrow> u8" where
  "rsdp_revision mem a = mem (a + 15)"

definition rsdp_rsdt_address :: "memory \<Rightarrow> u64 \<Rightarrow> u32" where
  "rsdp_rsdt_address mem a = of_nat (ld 4 mem (a + 16))"

definition SDT_HEADER_SIZE :: u64 where
  "SDT_HEADER_SIZE = 36"

definition sdt_signature :: "memory \<Rightarrow> u64 \<Rightarrow> u32" where
  "sdt_signature mem a = of_nat (ld 4 mem a)"

definition sdt_length :: "memory \<Rightarrow> u64 \<Rightarrow> u32" where
  "sdt_length mem a = of_nat (ld 4 mem (a + 4))"

definition sdt_pointer :: "memory \<Rightarrow> u64 \<Rightarrow> u32 \<Rightarrow> u32" where
  "sdt_pointer mem rsdt i = of_nat (ld 4 mem (rsdt + 36 + 4 * ucast i))"

definition SIG32 :: "u8 \<Rightarrow> u8 \<Rightarrow> u8 \<Rightarrow> u8 \<Rightarrow> u32" where
  "SIG32 d c b a = ucast d OR push_bit 8 (ucast c) OR push_bit 16 (ucast b) OR push_bit 24 (ucast a)"

definition MADT_SIGNATURE :: u32 where
  "MADT_SIGNATURE = SIG32 0x41 0x50 0x49 0x43"

definition record_type :: "memory \<Rightarrow> u64 \<Rightarrow> u8" where
  "record_type mem a = mem a"

definition record_length :: "memory \<Rightarrow> u64 \<Rightarrow> u8" where
  "record_length mem a = mem (a + 1)"

definition ioapic_address :: "memory \<Rightarrow> u64 \<Rightarrow> u32" where
  "ioapic_address mem a = of_nat (ld 4 mem (a + 4))"

section \<open>The root pointer\<close>

text \<open>The scan over a range in steps of 16; at the end of the address space it would wrap around.\<close>

partial_function (option) rsdp_scan :: "memory \<Rightarrow> u64 \<Rightarrow> u64 \<Rightarrow> u64 option option" where
  "rsdp_scan mem cur end_addr =
     (if cur < end_addr then
        if rsdp_signature mem cur = RSDP_SIGNATURE then Some (Some cur) else rsdp_scan mem (cur + 16) end_addr
      else Some None)"

definition scan_for_rsdp :: "memory \<Rightarrow> u64 \<Rightarrow> u64 \<Rightarrow> u64 option res" where
  "scan_for_rsdp mem start end_addr = loop_res (rsdp_scan mem (start AND NOT 0xf) end_addr)"

definition locate_rsdp :: "memory \<Rightarrow> u64 option res" where
  "locate_rsdp mem =
     res_bind (pa_to_kva 0x40E) (\<lambda>p.
     res_bind (pa_to_kva (push_bit 4 (of_nat (ld 2 mem p)))) (\<lambda>ebda.
     res_bind (scan_for_rsdp mem ebda (ebda + 0x400)) (\<lambda>r.
       case r of
         Some a \<Rightarrow> Inr (Some a)
       | None \<Rightarrow>
           res_bind (pa_to_kva 0x000e0000) (\<lambda>lo.
           res_bind (pa_to_kva 0x00100000) (\<lambda>hi. scan_for_rsdp mem lo hi)))))"

fun byte_sum :: "memory \<Rightarrow> u64 \<Rightarrow> nat \<Rightarrow> u8" where
  "byte_sum mem a 0 = 0"
| "byte_sum mem a (Suc n) = mem a + byte_sum mem (a + 1) n"

definition is_structure_valid :: "memory \<Rightarrow> u64 \<Rightarrow> nat \<Rightarrow> bool" where
  "is_structure_valid mem a sz \<longleftrightarrow> byte_sum mem a sz = 0"

section \<open>The interrupt table\<close>

text \<open>One record, with the address of the IOAPIC found so far: a second one is a failed assertion.\<close>

definition parse_madt_ioapic :: "memory \<Rightarrow> u64 \<Rightarrow> u32 \<Rightarrow> (bool \<times> u32) res" where
  "parse_madt_ioapic mem a ioapic_base =
     res_bind (assert_that (ioapic_base = 0)) (\<lambda>_. Inr (True, ioapic_address mem a))"

definition parse_record :: "memory \<Rightarrow> u64 \<Rightarrow> u32 \<Rightarrow> (bool \<times> u32) res" where
  "parse_record mem a ioapic_base =
     (if record_type mem a = 1 then parse_madt_ioapic mem a ioapic_base else Inr (True, ioapic_base))"

partial_function (option) madt_loop :: "memory \<Rightarrow> u64 \<Rightarrow> u64 \<Rightarrow> u32 \<Rightarrow> (bool \<times> u32) res option" where
  "madt_loop mem rhs rhe ioapic_base =
     (if rhs < rhe then
        (case parse_record mem rhs ioapic_base of
           Inl e \<Rightarrow> Some (Inl e)
         | Inr (ok, base1) \<Rightarrow>
             if \<not> ok then Some (Inr (False, base1))
             else madt_loop mem (rhs + ucast (record_length mem rhs)) rhe base1)
      else Some (Inr (True, ioapic_base)))"

definition parse_madt :: "memory \<Rightarrow> u64 \<Rightarrow> u32 \<Rightarrow> (bool \<times> u32) res" where
  "parse_madt mem madt ioapic_base =
     (case madt_loop mem (madt + 44) (madt + ucast (sdt_length mem madt)) ioapic_base of
        None \<Rightarrow> Inl Diverges
      | Some r \<Rightarrow> r)"

section \<open>The root table\<close>

definition parse_sdt :: "memory \<Rightarrow> u64 \<Rightarrow> u32 \<Rightarrow> (bool \<times> u32) res" where
  "parse_sdt mem hdr ioapic_base =
     (if \<not> is_structure_valid mem hdr (unat (sdt_length mem hdr)) then Inr (True, ioapic_base)
      else if sdt_signature mem hdr = MADT_SIGNATURE then parse_madt mem hdr ioapic_base
      else Inr (True, ioapic_base))"

text \<open>
  The bound of the loop is computed with 64 bits, the counter has 32: a length below that of the header
  makes the bound huge.
\<close>

partial_function (option) rsdt_loop :: "memory \<Rightarrow> u64 \<Rightarrow> u32 \<Rightarrow> u64 \<Rightarrow> u32 \<Rightarrow> (bool \<times> u32) res option" where
  "rsdt_loop mem rsdt i bound ioapic_base =
     (if ucast i < bound then
        (case res_bind (pa_to_vpa (ucast (sdt_pointer mem rsdt i))) (\<lambda>hdr. parse_sdt mem hdr ioapic_base) of
           Inl e \<Rightarrow> Some (Inl e)
         | Inr (ok, base1) \<Rightarrow>
             if \<not> ok then Some (Inr (False, base1)) else rsdt_loop mem rsdt (i + 1) bound base1)
      else Some (Inr (True, ioapic_base)))"

definition acpi_parse :: "memory \<Rightarrow> u64 \<Rightarrow> u32 \<Rightarrow> (bool \<times> u32) res" where
  "acpi_parse mem rsdp ioapic_base =
     res_bind (pa_to_vpa (ucast (rsdp_rsdt_address mem rsdp))) (\<lambda>rsdt.
       if rsdt = 0 then Inr (False, ioapic_base)
       else if \<not> is_structure_valid mem rsdt (unat (sdt_length mem rsdt)) then Inr (False, ioapic_base)
       else (case rsdt_loop mem rsdt 0 ((ucast (sdt_length mem rsdt) - SDT_HEADER_SIZE) div 4) ioapic_base of
               None \<Rightarrow> Inl Diverges
             | Some r \<Rightarrow> r))"

text \<open>\<open>acpi_init\<close> starts with no address, which \<open>acpi_get_ioapic_base\<close> returns afterwards.\<close>

definition acpi_init :: "memory \<Rightarrow> (bool \<times> u32) res" where
  "acpi_init mem =
     res_bind (locate_rsdp mem) (\<lambda>r.
       case r of
         None \<Rightarrow> Inr (False, 0)
       | Some rsdp \<Rightarrow>
           if \<not> is_structure_valid mem rsdp RSDP_SIZE then Inr (False, 0)
           else if rsdp_revision mem rsdp > 2 then Inr (False, 0)
           else acpi_parse mem rsdp 0)"

section \<open>What the tables say\<close>

text \<open>
  A record: type, length and, for an IOAPIC, its address; the records from an address on up to the end,
  each with a length that leads to the next one inside the table.
\<close>

type_synonym madt_record = "u8 \<times> u8 \<times> u32"

fun records_at :: "memory \<Rightarrow> u64 \<Rightarrow> madt_record list \<Rightarrow> u64 \<Rightarrow> bool" where
  "records_at mem a [] e \<longleftrightarrow> a = e"
| "records_at mem a ((ty, len, addr) # rs) e \<longleftrightarrow>
     record_type mem a = ty \<and> record_length mem a = len \<and> len > 0 \<and> (ty = 1 \<longrightarrow> ioapic_address mem a = addr) \<and>
     unat a + unat len \<le> unat e \<and> records_at mem (a + ucast len) rs e"

fun records_base :: "madt_record list \<Rightarrow> u32 \<Rightarrow> u32 res" where
  "records_base [] b = Inr b"
| "records_base ((ty, len, addr) # rs) b =
     (if ty = 1 then if b = 0 then records_base rs addr else Inl Assert_Fail else records_base rs b)"

lemma madt_loop_records:
  assumes "records_at mem a rs e"
  shows "madt_loop mem a e b = Some (res_bind (records_base rs b) (\<lambda>b1. Inr (True, b1)))"
  using assms
proof (induction rs arbitrary: a b)
  case Nil
  then show ?case by (simp add: madt_loop.simps)
next
  case (Cons r rs)
  obtain ty len addr where r: "r = (ty, len, addr)" by (cases r)
  with Cons.prems have c: "record_type mem a = ty" "record_length mem a = len" "len > 0"
      "ty = 1 \<longrightarrow> ioapic_address mem a = addr" "unat a + unat len \<le> unat e" "records_at mem (a + ucast len) rs e"
    by auto
  have "0 < unat len" using c(3) by (simp add: word_less_nat_alt)
  then have "unat a < unat e" using c(5) by linarith
  then have lt: "a < e" by (simp add: word_less_nat_alt)
  note IH = Cons.IH [OF c(6)]
  show ?case
    using c lt IH by (subst madt_loop.simps) (auto simp: r parse_record_def parse_madt_ioapic_def)
qed

text \<open>A record of length zero, of any type but that of an IOAPIC, is parsed forever.\<close>

lemma madt_loop_progress:
  assumes "madt_loop mem a e b = Some r"
  shows "\<not> (a < e \<and> record_length mem a = 0 \<and> record_type mem a \<noteq> 1)"
proof (rule madt_loop.raw_induct [OF _ assms])
  fix rec :: "memory \<Rightarrow> u64 \<Rightarrow> u64 \<Rightarrow> u32 \<Rightarrow> (bool \<times> u32) res option" and mem a e b r
  assume IH: "\<And>mem a e b r. rec mem a e b = Some r \<Longrightarrow> \<not> (a < e \<and> record_length mem a = 0 \<and> record_type mem a \<noteq> 1)"
    and eq: "(if a < e then
        (case parse_record mem a b of
           Inl err \<Rightarrow> Some (Inl err)
         | Inr (ok, base1) \<Rightarrow>
             if \<not> ok then Some (Inr (False, base1)) else rec mem (a + ucast (record_length mem a)) e base1)
      else Some (Inr (True, b))) = Some r"
  show "\<not> (a < e \<and> record_length mem a = 0 \<and> record_type mem a \<noteq> 1)"
  proof
    assume h: "a < e \<and> record_length mem a = 0 \<and> record_type mem a \<noteq> 1"
    then have "rec mem a e b = Some r" using eq by (simp add: parse_record_def)
    from IH [OF this] h show False by blast
  qed
qed

lemma zero_length_record:
  assumes "a < e" and "record_length mem a = 0" and "record_type mem a \<noteq> 1"
  shows "madt_loop mem a e b = None"
  using assms madt_loop_progress [of mem a e b] by (cases "madt_loop mem a e b") auto

text \<open>Each table that the root table lists: one that is skipped, or the interrupt table with its records.\<close>

datatype table_desc = Other_Table | Interrupt_Table "madt_record list"

definition table_at :: "memory \<Rightarrow> u64 \<Rightarrow> table_desc \<Rightarrow> bool" where
  "table_at mem hdr T =
     (case T of
        Other_Table \<Rightarrow> \<not> is_structure_valid mem hdr (unat (sdt_length mem hdr)) \<or> sdt_signature mem hdr \<noteq> MADT_SIGNATURE
      | Interrupt_Table rs \<Rightarrow>
          is_structure_valid mem hdr (unat (sdt_length mem hdr)) \<and> sdt_signature mem hdr = MADT_SIGNATURE \<and>
          records_at mem (hdr + 44) rs (hdr + ucast (sdt_length mem hdr)))"

fun tables_base :: "table_desc list \<Rightarrow> u32 \<Rightarrow> u32 res" where
  "tables_base [] b = Inr b"
| "tables_base (Other_Table # Ts) b = tables_base Ts b"
| "tables_base (Interrupt_Table rs # Ts) b = res_bind (records_base rs b) (tables_base Ts)"

lemma parse_sdt_table:
  assumes "table_at mem hdr T"
  shows "parse_sdt mem hdr b = res_bind (tables_base [T] b) (\<lambda>b1. Inr (True, b1))"
proof (cases T)
  case Other_Table
  with assms show ?thesis by (auto simp: parse_sdt_def table_at_def)
next
  case (Interrupt_Table rs)
  with assms have r: "records_at mem (hdr + 44) rs (hdr + ucast (sdt_length mem hdr))"
      "is_structure_valid mem hdr (unat (sdt_length mem hdr))" "sdt_signature mem hdr = MADT_SIGNATURE"
    by (simp_all add: table_at_def)
  show ?thesis
    using madt_loop_records [OF r(1), of b] r(2, 3)
    by (cases "records_base rs b") (simp_all add: parse_sdt_def parse_madt_def Interrupt_Table)
qed

lemma pa_to_vpa_u32: "pa_to_vpa (ucast (p :: u32)) = Inr (PMEM_VA_START + ucast p)"
proof -
  have "unat (ucast p :: u64) < 2 ^ 32" using unsigned_less [of p, where 'a = nat] by simp
  then have "(ucast p :: u64) < PMEM_VA_SIZE"
    by (simp add: PMEM_VA_SIZE_def PMEM_VA_END_def PMEM_VA_START_def word_less_nat_alt)
  then show ?thesis by (simp add: pa_to_vpa_def)
qed

lemma rsdt_loop_tables:
  assumes "unat i + length Ts < 2 ^ 32" and "unat bound = unat i + length Ts"
    and "\<forall>j < length Ts. table_at mem (PMEM_VA_START + ucast (sdt_pointer mem rsdt (i + of_nat j))) (Ts ! j)"
  shows "rsdt_loop mem rsdt i bound b = Some (res_bind (tables_base Ts b) (\<lambda>b1. Inr (True, b1)))"
  using assms
proof (induction Ts arbitrary: i b)
  case Nil
  then have "\<not> ucast i < bound" by (simp add: word_less_nat_alt)
  then show ?case by (subst rsdt_loop.simps) simp
next
  case (Cons T Ts)
  have lt: "ucast i < bound" using Cons.prems(2) by (simp add: word_less_nat_alt)
  have suc: "unat (i + 1) = unat i + 1" using Cons.prems(1) by (simp add: unat_word_ariths)
  have T: "table_at mem (PMEM_VA_START + ucast (sdt_pointer mem rsdt i)) T"
    using Cons.prems(3) [rule_format, of 0] by simp
  have rest: "\<forall>j < length Ts. table_at mem (PMEM_VA_START + ucast (sdt_pointer mem rsdt (i + 1 + of_nat j))) (Ts ! j)"
  proof (intro allI impI)
    fix j assume "j < length Ts"
    with Cons.prems(3) [rule_format, of "Suc j"]
    show "table_at mem (PMEM_VA_START + ucast (sdt_pointer mem rsdt (i + 1 + of_nat j))) (Ts ! j)"
      by (simp add: add.assoc)
  qed
  have IH: "rsdt_loop mem rsdt (i + 1) bound b1 = Some (res_bind (tables_base Ts b1) (\<lambda>b2. Inr (True, b2)))" for b1
    by (rule Cons.IH) (use Cons.prems(1, 2) suc rest in auto)
  have one: "res_bind (tables_base (T # Ts) b) f = res_bind (tables_base [T] b) (\<lambda>b1. res_bind (tables_base Ts b1) f)" for f :: "u32 \<Rightarrow> (bool \<times> u32) res"
    by (cases T) (simp_all add: res_bind_def split: sum.split)
  show ?case
    using lt IH parse_sdt_table [OF T, of b]
    by (subst rsdt_loop.simps) (cases "tables_base [T] b"; simp add: pa_to_vpa_u32 one)
qed

text \<open>
  The start of ACPI on well-formed tables: the address of the one IOAPIC record of the interrupt
  tables, or a failed assertion where there is a second one.
\<close>

lemma acpi_init_tables:
  assumes "locate_rsdp mem = Inr (Some p)" and "is_structure_valid mem p RSDP_SIZE" and "rsdp_revision mem p \<le> 2"
    and "rsdt = PMEM_VA_START + ucast (rsdp_rsdt_address mem p)"
    and "is_structure_valid mem rsdt (unat (sdt_length mem rsdt))"
    and "unat (sdt_length mem rsdt) = 36 + 4 * length Ts"
    and "\<forall>j < length Ts. table_at mem (PMEM_VA_START + ucast (sdt_pointer mem rsdt (of_nat j))) (Ts ! j)"
  shows "acpi_init mem = res_bind (tables_base Ts 0) (\<lambda>b. Inr (True, b))"
proof -
  have small: "36 + 4 * length Ts < 2 ^ 32" using assms(6) unsigned_less [of "sdt_length mem rsdt", where 'a = nat] by simp
  have "unat (ucast (sdt_length mem rsdt) - SDT_HEADER_SIZE) = 4 * length Ts"
    using assms(6) unat_sub [of SDT_HEADER_SIZE "ucast (sdt_length mem rsdt) :: u64"]
    by (simp add: SDT_HEADER_SIZE_def word_le_nat_alt)
  then have bound: "unat ((ucast (sdt_length mem rsdt) - SDT_HEADER_SIZE) div 4) = unat (0 :: u32) + length Ts"
    by (simp add: unat_div)
  have loop: "rsdt_loop mem rsdt 0 ((ucast (sdt_length mem rsdt) - SDT_HEADER_SIZE) div 4) 0 =
      Some (res_bind (tables_base Ts 0) (\<lambda>b1. Inr (True, b1)))"
    by (rule rsdt_loop_tables [OF _ bound]) (use small assms(7) in auto)
  have "(rsdt :: u64) \<noteq> 0"
  proof
    assume "rsdt = 0"
    then have "unat (PMEM_VA_START + ucast (rsdp_rsdt_address mem p)) = 0" using assms(4) by simp
    moreover have "unat (ucast (rsdp_rsdt_address mem p) :: u64) < 2 ^ 32"
      using unsigned_less [of "rsdp_rsdt_address mem p", where 'a = nat] by simp
    ultimately show False by (simp add: PMEM_VA_START_def unat_word_ariths)
  qed
  moreover have "\<not> 2 < rsdp_revision mem p" using assms(3) by (simp add: not_less)
  ultimately show ?thesis
    using assms(1, 2, 4, 5) loop by (simp add: acpi_init_def acpi_parse_def pa_to_vpa_u32)
qed

end
