(* ===== verification/Boot.thy ===== *)
theory Boot imports Syscalls Cmdline begin

text \<open>
  The thread that the kernel starts with (kernel/kernel.cpp, \<open>start_kernel_threadproc\<close>): the root
  file system, the directories for devices and programs, the boot device, and the first program.
\<close>

section \<open>The file systems\<close>

text \<open>A file system or directory that cannot be had ends the boot.\<close>

definition boot_mount :: "nat \<Rightarrow> nat \<Rightarrow> nat \<Rightarrow> u8 list \<Rightarrow> nat option \<Rightarrow> vfs \<Rightarrow> vfs res" where
  "boot_mount k block_class n fstype dev v =
     res_bind (vnode_mount k block_class n fstype dev v) (\<lambda>(ok, v1). if ok then Inr v1 else Inl Aborted)"

definition boot_mkdir :: "nat \<Rightarrow> u8 list \<Rightarrow> vfs \<Rightarrow> (nat \<times> vfs) res" where
  "boot_mkdir n nm v =
     res_bind (vnode_mkdir n nm v) (\<lambda>(c, v1). case c of None \<Rightarrow> Inl Aborted | Some c \<Rightarrow> Inr (c, v1))"

definition find_boot_device :: "kernel_settings \<Rightarrow> vfs \<Rightarrow> nat res" where
  "find_boot_device s v =
     res_bind (kstrlen (Some (boot_device_name s))) (\<lambda>len.
       if len = 0 then Inl Aborted
       else (case try_get_device_by_name (cstr (boot_device_name s)) (v_devices v) of
               None \<Rightarrow> Inl Aborted
             | Some d \<Rightarrow> Inr d))"

definition find_boot_fstype :: "kernel_settings \<Rightarrow> u8 list res" where
  "find_boot_fstype s =
     res_bind (kstrlen (Some (boot_fstype s))) (\<lambda>len.
     res_bind (if len = 0 then kstrncpy (boot_fstype s) (bytes_of ''internal_driver'' @ [0]) 16
               else Inr (boot_fstype s, 0)) (\<lambda>(name, _). Inr (cstr name)))"

text \<open>\<open>regs\<close> are the registered file systems, \<open>k\<close> bounds the search of an archive.\<close>

definition boot_file_systems ::
    "(u8 list \<times> fs_type) list \<Rightarrow> nat \<Rightarrow> nat \<Rightarrow> kernel_settings \<Rightarrow> vfs \<Rightarrow> vfs res" where
  "boot_file_systems regs block_class k s v =
     res_bind (vfs_init regs block_class v) (\<lambda>(ok, v1).
     if \<not> ok then Inl Aborted else
     res_bind (lookup_node [47, 0] v1) (\<lambda>(rt, v2).
     case rt of
       None \<Rightarrow> Inl Null_Deref
     | Some root \<Rightarrow>
         res_bind (boot_mount k block_class root (bytes_of ''tmpfs'') None v2) (\<lambda>v3.
         res_bind (boot_mkdir root (bytes_of ''dev'') v3) (\<lambda>(dev, v4).
         res_bind (boot_mount k block_class dev (bytes_of ''devfs'') None v4) (\<lambda>v5.
         res_bind (boot_mkdir root (bytes_of ''usr'') v5) (\<lambda>(usr, v6).
         res_bind (find_boot_device s v6) (\<lambda>d.
         res_bind (find_boot_fstype s) (\<lambda>fstype.
           boot_mount k block_class usr fstype (Some d) v6))))))))"

section \<open>The first program\<close>

text \<open>
  After the file systems the program named by the setting is launched with an empty command line, and
  the time is read from the clock device, if there is one.
\<close>

definition start_kernel_threadproc ::
    "'d env \<Rightarrow> (u8 list \<times> fs_type) list \<Rightarrow> nat \<Rightarrow> nat \<Rightarrow> kernel_settings \<Rightarrow> time_of_day option \<Rightarrow> 'd sys \<Rightarrow> (nat \<times> 'd sys) res" where
  "start_kernel_threadproc E regs block_class k s rtc y =
     res_bind (boot_file_systems regs block_class k s (y_vfs y)) (\<lambda>v.
     res_bind (launch_process E (cstr (init_program s) @ [0]) [] (y\<lparr>y_vfs := v\<rparr>)) (\<lambda>(p, y1).
     case p of
       None \<Rightarrow> Inl Aborted
     | Some pid \<Rightarrow> Inr (pid, case rtc of None \<Rightarrow> y1 | Some t \<Rightarrow> y1\<lparr>y_tod := t\<rparr>)))"

section \<open>The kernel process\<close>

text \<open>
  \<open>Kernel::start\<close>: the time, the process of the kernel, whose thread gets the kernel and the second
  half of the start of the architecture as its arguments, and the scheduler.
\<close>

definition kernel_start ::
    "'d env \<Rightarrow> u64 \<Rightarrow> u64 \<Rightarrow> u64 \<Rightarrow> time_of_day option \<Rightarrow> kclock \<Rightarrow> 'd sys \<Rightarrow> (kclock \<times> 'd sys) res" where
  "kernel_start E trampoline sys_kernel bottom rtc c y =
     (let c1 = initialise_tod c rtc; pid = y_next y in
      res_bind (process_new (e_palgo E) (e_template E) pid True trampoline (y_kernel y)) (\<lambda>k1.
      let tid = p_main (k_procs k1 pid); k2 = entry_argument bottom tid (entry_argument sys_kernel tid k1) in
      res_bind (process_start (e_fuel E) pid k2) (\<lambda>k3.
        Inr (c1, y\<lparr>y_kernel := k3\<lparr>k_sched := sched_run (k_sched k3)\<rparr>, y_next := pid + 1, y_tod := tod c1\<rparr>))))"

text \<open>The thread itself: \<open>bottom_ok\<close> is what the second half of the start of the architecture returns.\<close>

definition start_kernel_threadproc_tramp ::
    "'d env \<Rightarrow> (u8 list \<times> fs_type) list \<Rightarrow> nat \<Rightarrow> nat \<Rightarrow> kernel_settings \<Rightarrow> time_of_day option \<Rightarrow>
      u64 \<Rightarrow> u64 \<Rightarrow> bool \<Rightarrow> nat \<Rightarrow> 'd sys \<Rightarrow> 'd sys res" where
  "start_kernel_threadproc_tramp E regs block_class k s rtc sys_kernel bottom bottom_ok kernel_process y =
     res_bind (assert_that (sys_kernel \<noteq> 0)) (\<lambda>_.
     res_bind (assert_that (bottom \<noteq> 0)) (\<lambda>_.
     if \<not> bottom_ok then Inl Aborted else
     res_bind (start_kernel_threadproc E regs block_class k s rtc y) (\<lambda>(_, y1).
     res_bind (process_terminate (e_fuel E) kernel_process (y_kernel y1)) (\<lambda>(_, k2). Inr (y1\<lparr>y_kernel := k2\<rparr>)))))"

text \<open>The names that are printed before the boot is aborted for want of a device.\<close>

definition dump_partitions :: "nat \<Rightarrow> devmgr \<Rightarrow> u8 list list" where
  "dump_partitions block_class dm =
     map (\<lambda>(h, d). dv_name (dm_device dm d))
       (filter (\<lambda>(h, d). class_is (dv_class (dm_device dm d)) block_class) (iter_entries (iter_begin (dm_devices dm))))"

end
