(* ===== verification/Boot_Spec.thy ===== *)
theory Boot_Spec imports Boot VFS_Spec Cmdline_Spec begin

text \<open>
  What the boot leaves behind: a root in memory, the devices below \<open>/dev\<close> and the archive of the boot
  device below \<open>/usr\<close>.
\<close>

section \<open>The registered file systems\<close>

text \<open>
  The registrations that the development models, in the order of the linked files; the names differ.
\<close>

definition kernel_filesystems :: "(u8 list \<times> fs_type) list" where
  "kernel_filesystems =
     [(bytes_of ''tarfs'', T_Tar), (bytes_of ''devfs'', T_Dev), (bytes_of ''rootfs'', T_Root),
      (bytes_of ''tmpfs'', T_Tmp), (bytes_of ''vfat'', T_Vfat)]"

lemma find_names:
  assumes "\<forall>(n, ty) \<in> set fss. 0 \<notin> set n \<and> length n \<le> 16" and "0 \<notin> set key" and "length key \<le> 16"
  shows "find (\<lambda>(n, ty). kstrncmp (n @ [0]) (key @ [0]) 16 = Inr 0) fss = map_option (Pair key) (map_of fss key)"
  using assms(1)
proof (induction fss)
  case (Cons x fss)
  obtain n ty where x: "x = (n, ty)" by (cases x)
  have "kstrncmp (n @ [0]) (key @ [0]) 16 = Inr (if n = key then 0 else - 1)"
    using Cons.prems x assms(2, 3) kstrncmp_names [of n key 16 "[]" "[]"] by simp
  then show ?case using Cons x by auto
qed simp

lemma kernel_filesystems_ok: "\<forall>(n, ty) \<in> set kernel_filesystems. 0 \<notin> set n \<and> length n \<le> 16"
  by (simp add: kernel_filesystems_def bytes_of_def)

lemma kernel_lookup_fs:
  assumes "v_filesystems v = kernel_filesystems" and "0 \<notin> set key" and "length key \<le> 16"
  shows "lookup_fs key v = map_option (Pair key) (map_of kernel_filesystems key)"
  unfolding lookup_fs_def assms(1) by (rule find_names [OF kernel_filesystems_ok assms(2, 3)])

lemma kernel_fs_types:
  assumes "v_filesystems v = kernel_filesystems"
  shows "lookup_fs (bytes_of ''tmpfs'') v = Some (bytes_of ''tmpfs'', T_Tmp)"
    and "lookup_fs (bytes_of ''devfs'') v = Some (bytes_of ''devfs'', T_Dev)"
    and "lookup_fs (bytes_of ''tarfs'') v = Some (bytes_of ''tarfs'', T_Tar)"
    and "lookup_fs [114, 111, 111, 116, 102, 115] v = Some (bytes_of ''rootfs'', T_Root)"
  by (subst kernel_lookup_fs [OF assms]; simp add: kernel_filesystems_def bytes_of_def)+

section \<open>The steps of the boot\<close>

lemma boot_mkdir_tmp:
  assumes n: "v_nodes v n = \<lparr>vn_parent = p, vn_pn = Some (P_Tmp t), vn_children = c0\<rparr>" "v_next v = a" "n < a" "map_inv c0"
    and t: "tmp_nodes v t = \<lparr>tp_name = tnm, tp_children = m0\<rparr>" "tmp_next v = b" "t < b" "map_inv m0"
    and no: "kmap_try_get (fnv nm) c0 = None"
  shows "\<exists>m c. boot_mkdir n nm v = Inr (a,
      v\<lparr>v_nodes := (v_nodes v)(a := \<lparr>vn_parent = Some n, vn_pn = Some (P_Tmp b), vn_children = kmap_empty\<rparr>,
          n := \<lparr>vn_parent = p, vn_pn = Some (P_Tmp t), vn_children = c\<rparr>),
        v_next := a + 1,
        tmp_nodes := (tmp_nodes v)(b := \<lparr>tp_name = nm, tp_children = kmap_empty\<rparr>,
          t := \<lparr>tp_name = tnm, tp_children = m\<rparr>),
        tmp_next := b + 1\<rparr>) \<and>
    map_inv m \<and> map_inv c \<and>
    (\<forall>h. kmap_try_get h m = (if h = fnv nm then Some b else kmap_try_get h m0)) \<and>
    (\<forall>h. kmap_try_get h c = (if h = fnv nm then Some a else kmap_try_get h c0))"
proof -
  from km.add_ok [OF t(4), of "fnv nm" b] obtain m where
    m: "kmap_add (fnv nm) b m0 = Inr m" "map_inv m"
      "\<forall>h. kmap_try_get h m = (if h = fnv nm then Some b else kmap_try_get h m0)" by blast
  from km.add_ok [OF n(4), of "fnv nm" a] obtain c where
    c: "kmap_add (fnv nm) a c0 = Inr c" "map_inv c"
      "\<forall>h. kmap_try_get h c = (if h = fnv nm then Some a else kmap_try_get h c0)" by blast
  have neq: "t \<noteq> b" "n \<noteq> a" using t(3) n(3) by simp_all
  show ?thesis
    using m c neq n(1,2) t(1,2) no
    by (intro exI [of _ m] exI [of _ c])
      (simp add: boot_mkdir_def vnode_mkdir_def pfs_mkdir_def tmp_new_node_def vnode_get_child_def pfs_get_child_def
        new_vnode_def set_vnode_def Let_def fun_upd_twist)
qed

lemma kmap_clear_empty [simp]: "kmap_clear kmap_empty = kmap_empty"
  by (simp add: kmap_clear_def kmap_empty_def)

text \<open>What the boot leaves: three nodes, with the file systems that are mounted on them.\<close>

definition booted :: "nat \<Rightarrow> nat \<Rightarrow> nat \<Rightarrow> tarfs \<Rightarrow> devmgr \<Rightarrow> vfs \<Rightarrow> bool" where
  "booted t i root fs dm v \<longleftrightarrow> v_root v = 0 \<and> v_next v = 3 \<and> v_devices v = dm \<and> snd (snd (tar_fs v i)) = fs \<and>
     vn_pn (v_nodes v 0) = Some (P_Tmp t) \<and> vn_pn (v_nodes v 1) = Some P_Dev_Root \<and>
     vn_pn (v_nodes v 2) = Some (P_Tar i root) \<and>
     map_inv (vn_children (v_nodes v 0)) \<and> vn_children (v_nodes v 1) = kmap_empty \<and> vn_children (v_nodes v 2) = kmap_empty \<and>
     (\<forall>h. kmap_try_get h (vn_children (v_nodes v 0)) =
        (if h = fnv (bytes_of ''usr'') then Some 2 else if h = fnv (bytes_of ''dev'') then Some 1 else None)) \<and>
     (\<forall>h. h \<noteq> fnv (bytes_of ''usr'') \<longrightarrow> h \<noteq> fnv (bytes_of ''dev'') \<longrightarrow> kmap_try_get h (tp_children (tmp_nodes v t)) = None)"

lemma boot_names_differ: "fnv (bytes_of ''usr'') \<noteq> fnv (bytes_of ''dev'')"
  by (simp add: bytes_of_def fnv_def hash_step_def)

lemma boot_file_systems_booted:
  assumes "v_next v = 0" and "v_filesystems v = []"
    and dev: "find_boot_device s v = Inr d" and ty: "find_boot_fstype s = Inr (bytes_of ''tarfs'')"
    and cls: "class_is (dv_class (dm_device (v_devices v) d)) cls" and blk: "dv_block (dm_device (v_devices v) d) = Some bd"
    and mnt: "tar_mount k bd (None, snd (snd (tar_fs v (tar_count v)))) = Inr (root, Some root, fs)"
  shows "\<exists>v'. boot_file_systems kernel_filesystems cls k s v = Inr v' \<and>
    booted (tmp_next v) (tar_count v) root fs (v_devices v) v' \<and>
    (\<forall>s' e. find_boot_device s' v = Inl e \<longrightarrow> boot_file_systems kernel_filesystems cls k s' v = Inl e)"
proof -
  let ?t = "tmp_next v" and ?dev = "bytes_of ''dev''" and ?usr = "bytes_of ''usr''"
  define v1 where "v1 = v\<lparr>v_filesystems := kernel_filesystems,
      v_nodes := (v_nodes v)(0 := \<lparr>vn_parent = None, vn_pn = Some P_Root, vn_children = kmap_empty\<rparr>),
      v_next := 1, v_root := 0\<rparr>"
  have init: "vfs_init kernel_filesystems cls v = Inr (True, v1)"
    using assms(1, 2)
    by (simp add: vfs_init_def Let_def kernel_fs_types fs_mount_def new_vnode_def v1_def)
  have lk: "lookup_node [47, 0] v1 = Inr (Some 0, v1)" by (simp add: lookup_node_def v1_def)
  define v2 where "v2 = v1\<lparr>tmp_nodes := (tmp_nodes v)(?t := \<lparr>tp_name = [], tp_children = kmap_empty\<rparr>), tmp_next := ?t + 1,
      v_nodes := (v_nodes v1)(0 := \<lparr>vn_parent = None, vn_pn = Some (P_Tmp ?t), vn_children = kmap_empty\<rparr>)\<rparr>"
  have mt: "boot_mount k cls 0 (bytes_of ''tmpfs'') None v1 = Inr v2"
    by (simp add: boot_mount_def vnode_mount_def kernel_fs_types fs_mount_def tmp_new_node_def set_vnode_def v1_def v2_def)
  have v2n: "v_nodes v2 0 = \<lparr>vn_parent = None, vn_pn = Some (P_Tmp ?t), vn_children = kmap_empty\<rparr>" "v_next v2 = 1"
    "tmp_nodes v2 ?t = \<lparr>tp_name = [], tp_children = kmap_empty\<rparr>" "tmp_next v2 = ?t + 1"
    by (simp_all add: v2_def v1_def)
  from boot_mkdir_tmp [OF v2n(1,2) _ kmap_empty_inv v2n(3,4) _ kmap_empty_inv km.get_empty, of ?dev]
  obtain m1 c1 where i1: "boot_mkdir 0 ?dev v2 = Inr (1,
      v2\<lparr>v_nodes := (v_nodes v2)(1 := \<lparr>vn_parent = Some 0, vn_pn = Some (P_Tmp (?t + 1)), vn_children = kmap_empty\<rparr>,
          0 := \<lparr>vn_parent = None, vn_pn = Some (P_Tmp ?t), vn_children = c1\<rparr>),
        v_next := 1 + 1,
        tmp_nodes := (tmp_nodes v2)(?t + 1 := \<lparr>tp_name = ?dev, tp_children = kmap_empty\<rparr>,
          ?t := \<lparr>tp_name = [], tp_children = m1\<rparr>),
        tmp_next := ?t + 1 + 1\<rparr>)" (is "_ = Inr (1, ?v3)") "map_inv m1" "map_inv c1"
      "\<forall>h. kmap_try_get h m1 = (if h = fnv ?dev then Some (?t + 1) else None)"
      "\<forall>h. kmap_try_get h c1 = (if h = fnv ?dev then Some 1 else None)"
    by (auto simp: km.get_empty)
  define v3 where "v3 = ?v3"
  have mkd: "boot_mkdir 0 ?dev v2 = Inr (1, v3)" unfolding v3_def by (rule i1(1))
  define v4 where "v4 = v3\<lparr>v_nodes := (v_nodes v3)(1 := \<lparr>vn_parent = Some 0, vn_pn = Some P_Dev_Root, vn_children = kmap_empty\<rparr>)\<rparr>"
  have fs3: "v_filesystems v3 = kernel_filesystems" by (simp add: v3_def v2_def v1_def)
  have md: "boot_mount k cls 1 (bytes_of ''devfs'') None v3 = Inr v4"
    unfolding boot_mount_def vnode_mount_def kernel_fs_types(2) [OF fs3]
    by (simp add: fs_mount_def set_vnode_def v4_def v3_def)
  have v4n: "v_nodes v4 0 = \<lparr>vn_parent = None, vn_pn = Some (P_Tmp ?t), vn_children = c1\<rparr>" "v_next v4 = 2"
    "tmp_nodes v4 ?t = \<lparr>tp_name = [], tp_children = m1\<rparr>" "tmp_next v4 = ?t + 2" "v_devices v4 = v_devices v"
    "v_filesystems v4 = kernel_filesystems" "tar_fs v4 = tar_fs v" "tar_count v4 = tar_count v" "v_root v4 = 0"
    "v_nodes v4 1 = \<lparr>vn_parent = Some 0, vn_pn = Some P_Dev_Root, vn_children = kmap_empty\<rparr>"
    by (simp_all add: v4_def v3_def v2_def v1_def)
  have no: "kmap_try_get (fnv ?usr) c1 = None" using i1(5) boot_names_differ by simp
  from boot_mkdir_tmp [OF v4n(1,2) _ i1(3) v4n(3,4) _ i1(2) no]
  obtain m2 c2 where i2: "boot_mkdir 0 ?usr v4 = Inr (2,
      v4\<lparr>v_nodes := (v_nodes v4)(2 := \<lparr>vn_parent = Some 0, vn_pn = Some (P_Tmp (?t + 2)), vn_children = kmap_empty\<rparr>,
          0 := \<lparr>vn_parent = None, vn_pn = Some (P_Tmp ?t), vn_children = c2\<rparr>),
        v_next := 2 + 1,
        tmp_nodes := (tmp_nodes v4)(?t + 2 := \<lparr>tp_name = ?usr, tp_children = kmap_empty\<rparr>,
          ?t := \<lparr>tp_name = [], tp_children = m2\<rparr>),
        tmp_next := ?t + 2 + 1\<rparr>)" (is "_ = Inr (2, ?v5)") "map_inv m2" "map_inv c2"
      "\<forall>h. kmap_try_get h m2 = (if h = fnv ?usr then Some (?t + 2) else kmap_try_get h m1)"
      "\<forall>h. kmap_try_get h c2 = (if h = fnv ?usr then Some 2 else kmap_try_get h c1)"
    by auto
  define v5 where "v5 = ?v5"
  have mku: "boot_mkdir 0 ?usr v4 = Inr (2, v5)" unfolding v5_def by (rule i2(1))
  have v5n: "v_devices v5 = v_devices v" "v_filesystems v5 = kernel_filesystems" "tar_fs v5 = tar_fs v"
    "tar_count v5 = tar_count v" "v_root v5 = 0" "v_next v5 = 3"
    "v_nodes v5 2 = \<lparr>vn_parent = Some 0, vn_pn = Some (P_Tmp (?t + 2)), vn_children = kmap_empty\<rparr>"
    "v_nodes v5 1 = \<lparr>vn_parent = Some 0, vn_pn = Some P_Dev_Root, vn_children = kmap_empty\<rparr>"
    "v_nodes v5 0 = \<lparr>vn_parent = None, vn_pn = Some (P_Tmp ?t), vn_children = c2\<rparr>"
    "tmp_nodes v5 ?t = \<lparr>tp_name = [], tp_children = m2\<rparr>"
    using v4n by (simp_all add: v5_def)
  have dev_eq: "find_boot_device s' v5 = find_boot_device s' v" for s' by (simp only: find_boot_device_def v5n(1))
  have dev5: "find_boot_device s v5 = Inr d" by (simp only: dev_eq dev)
  define v6 where "v6 = v5\<lparr>tar_fs := (tar_fs v)(tar_count v := (bd, Some root, fs)), tar_count := tar_count v + 1,
      v_nodes := (v_nodes v5)(2 := \<lparr>vn_parent = Some 0, vn_pn = Some (P_Tar (tar_count v) root), vn_children = kmap_empty\<rparr>)\<rparr>"
  have mu: "boot_mount k cls 2 (bytes_of ''tarfs'') (Some d) v5 = Inr v6"
    unfolding boot_mount_def vnode_mount_def kernel_fs_types(3) [OF v5n(2)]
    using cls blk mnt by (simp add: fs_mount_def is_block_device_def set_vnode_def v6_def v5n)
  have "boot_file_systems kernel_filesystems cls k s v = Inr v6"
    by (simp add: boot_file_systems_def init lk mt mkd [unfolded One_nat_def] md [unfolded One_nat_def] mku dev5 ty mu)
  moreover have "booted ?t (tar_count v) root fs (v_devices v) v6"
    using i1(2-) i2(2-) by (simp add: booted_def v6_def v5n v5n(8) [unfolded One_nat_def])
  moreover have "boot_file_systems kernel_filesystems cls k s' v = Inl e" if "find_boot_device s' v = Inl e" for s' e
    using that by (simp add: boot_file_systems_def init lk mt mkd [unfolded One_nat_def] md [unfolded One_nat_def] mku dev_eq)
  ultimately show ?thesis by blast
qed

section \<open>What the paths lead to\<close>

text \<open>
  The view after the boot: \<open>T\<close> gives the entries of the archive, \<open>devs\<close> the registered devices, both
  by the hashes of names; a directory made twice, below the root, does not occur.
\<close>

datatype boot_node = Boot_Dir | Boot_Device nat | Boot_Entry "u32 \<times> u32 option"

definition boot_view :: "tar_spec \<Rightarrow> (u64 \<Rightarrow> nat option) \<Rightarrow> u64 list \<Rightarrow> boot_node option" where
  "boot_view T devs hs =
     (case hs of
        [] \<Rightarrow> Some Boot_Dir
      | h # rest \<Rightarrow>
          if h = fnv (bytes_of ''usr'') then map_option Boot_Entry (T rest)
          else if h = fnv (bytes_of ''dev'') then
            (case rest of
               [] \<Rightarrow> Some Boot_Dir
             | [x] \<Rightarrow> map_option Boot_Device (devs x)
             | _ \<Rightarrow> None)
          else None)"

definition node_kind :: "vfs \<Rightarrow> pnode \<Rightarrow> boot_node" where
  "node_kind v p =
     (case p of
        P_Dev d \<Rightarrow> Boot_Device d
      | P_Tar f n \<Rightarrow> Boot_Entry (node_data (snd (snd (tar_fs v f))) n)
      | _ \<Rightarrow> Boot_Dir)"

definition boot_mounts :: "nat \<Rightarrow> nat \<Rightarrow> nat \<Rightarrow> u64 list \<Rightarrow> pnode option" where
  "boot_mounts t i root hs =
     (if hs = [] then Some (P_Tmp t) else if hs = [fnv (bytes_of ''dev'')] then Some P_Dev_Root
      else if hs = [fnv (bytes_of ''usr'')] then Some (P_Tar i root) else None)"

lemma boot_mounts_simps:
  "boot_mounts t i root [] = Some (P_Tmp t)"
  "boot_mounts t i root [fnv (bytes_of ''dev'')] = Some P_Dev_Root"
  "boot_mounts t i root [fnv (bytes_of ''usr'')] = Some (P_Tar i root)"
  "boot_mounts t i root (h # x # hs) = None"
  "boot_mounts t i root (h # hs @ [x]) = None"
  "hs \<noteq> [] \<Longrightarrow> boot_mounts t i root (hs @ qs @ [x]) = None"
  "h \<noteq> fnv (bytes_of ''usr'') \<Longrightarrow> h \<noteq> fnv (bytes_of ''dev'') \<Longrightarrow> boot_mounts t i root [h] = None"
  using boot_names_differ by (simp_all add: boot_mounts_def)

lemma booted_spec_usr:
  assumes "booted t i root fs dm v"
  shows "vfs_spec v (boot_mounts t i root) (fnv (bytes_of ''usr'') # hs) = map_option (P_Tar i) (tar_walk fs root hs)"
proof (induction hs rule: rev_induct)
  case Nil
  then show ?case using boot_names_differ by (simp add: vfs_spec_def boot_mounts_simps)
next
  case (snoc h hs)
  have "pfs_child (P_Tar i n) h v = map_option (P_Tar i) (child fs n h)" for n
    using assms by (simp add: pfs_child_def child_def booted_def)
  then show ?case
    using vfs_spec_snoc [of v "boot_mounts t i root" "fnv (bytes_of ''usr'') # hs" h] snoc
    by (cases "tar_walk fs root hs") (simp_all add: boot_mounts_simps walk_append split: option.splits)
qed

lemma booted_spec_prefix:
  assumes "vfs_spec v (boot_mounts t i root) hs = None" and "hs \<noteq> []"
  shows "vfs_spec v (boot_mounts t i root) (hs @ qs) = None"
proof (induction qs rule: rev_induct)
  case (snoc h qs)
  then show ?case
    using vfs_spec_snoc [of v "boot_mounts t i root" "hs @ qs" h] assms(2) by (simp add: boot_mounts_simps)
qed (simp add: assms(1))

lemma booted_spec:
  assumes "booted t i root fs dm v"
  shows "map_option (node_kind v) (vfs_spec v (boot_mounts t i root) hs) =
    boot_view (tar_view root fs) (\<lambda>h. kmap_try_get h (dm_devices dm)) hs"
proof (cases hs)
  case Nil
  then show ?thesis by (simp add: vfs_spec_def boot_mounts_simps boot_view_def node_kind_def)
next
  case (Cons h rest)
  let ?m = "boot_mounts t i root" and ?dev = "fnv (bytes_of ''dev'')" and ?usr = "fnv (bytes_of ''usr'')"
  have b: "snd (snd (tar_fs v i)) = fs" "v_devices v = dm"
    "\<And>h. h \<noteq> ?usr \<Longrightarrow> h \<noteq> ?dev \<Longrightarrow> kmap_try_get h (tp_children (tmp_nodes v t)) = None"
    using assms by (auto simp: booted_def)
  consider "h = ?usr" | "h = ?dev" | "h \<noteq> ?usr" "h \<noteq> ?dev" by blast
  then show ?thesis
  proof cases
    case 1
    then show ?thesis
      using Cons booted_spec_usr [OF assms, of rest] b(1)
      by (simp add: boot_view_def tar_view_def node_kind_def option.map_comp comp_def)
  next
    case 2
    have one: "vfs_spec v ?m [?dev] = Some P_Dev_Root" by (simp add: vfs_spec_def boot_mounts_simps)
    have two: "vfs_spec v ?m [?dev, x] = map_option P_Dev (kmap_try_get x (dm_devices dm))" for x
      using vfs_spec_snoc [of v ?m "[?dev]" x] one b(2) by (simp add: boot_mounts_simps pfs_child_def)
    have three: "vfs_spec v ?m [?dev, x, y] = None" for x y
      using vfs_spec_snoc [of v ?m "[?dev, x]" y] two
      by (cases "kmap_try_get x (dm_devices dm)") (simp_all add: boot_mounts_simps pfs_child_def)
    have many: "vfs_spec v ?m (?dev # x # y # qs) = None" for x y qs
      using booted_spec_prefix [OF three [of x y], of qs] by simp
    show ?thesis
    proof (cases rest)
      case Nil
      then show ?thesis using Cons 2 one boot_names_differ by (simp add: boot_view_def node_kind_def)
    next
      case (Cons x qs)
      then show ?thesis
        using \<open>hs = h # rest\<close> 2 two many boot_names_differ
        by (cases qs) (auto simp: boot_view_def node_kind_def option.map_comp comp_def)
    qed
  next
    case 3
    have root: "vfs_spec v ?m [] = Some (P_Tmp t)" by (simp add: vfs_spec_def boot_mounts_simps)
    have "vfs_spec v ?m [h] = None"
      using vfs_spec_snoc [of v ?m "[]" h] 3 b(3) [OF 3] by (simp add: root boot_mounts_simps pfs_child_def)
    from booted_spec_prefix [OF this, of rest] show ?thesis using Cons 3 by (simp add: boot_view_def)
  qed
qed

lemma booted_inv:
  assumes "booted t i root fs dm v"
  shows "\<exists>pth. vfs_inv pth (boot_mounts t i root) v"
proof -
  let ?dev = "fnv (bytes_of ''dev'')" and ?usr = "fnv (bytes_of ''usr'')"
  let ?pth = "(\<lambda>_. [])(1 := [?dev], 2 := [?usr]) :: nat \<Rightarrow> u64 list"
  have ch: "vchild v 0 h = (if h = ?usr then Some 2 else if h = ?dev then Some 1 else None)"
    "vchild v 1 h = None" "vchild v (Suc 0) h = None" "vchild v 2 h = None" for h
    using assms by (simp_all add: booted_def vchild_def km.get_empty)
  have less: "n < 3 \<Longrightarrow> n = 0 \<or> n = 1 \<or> n = 2" for n :: nat by linarith
  have b: "v_root v = 0" "v_next v = 3" "vn_pn (v_nodes v 0) = Some (P_Tmp t)" "vn_pn (v_nodes v 1) = Some P_Dev_Root"
    "vn_pn (v_nodes v 2) = Some (P_Tar i root)"
    using assms by (simp_all add: booted_def)
  have tree: "tree_inv ?pth 0 3 (vchild v)"
  proof -
    have "c < 3 \<and> ?pth c = ?pth n @ [h]" if "n < 3" "vchild v n h = Some c" for n h c
      using less [OF that(1)]
    proof (elim disjE)
      assume "n = 0"
      then show ?thesis using that(2) by (auto simp: ch split: if_splits)
    qed (use that(2) in \<open>simp_all add: ch\<close>)
    then show ?thesis by (simp add: tree_inv_def)
  qed
  have maps: "map_inv (vn_children (v_nodes v n))" if "n < 3" for n
    using less [OF that] assms by (auto simp: booted_def kmap_empty_inv)
  have walk: "kwalk (vchild v) 0 hs = (if hs = [] then Some 0 else if hs = [?usr] then Some 2 else if hs = [?dev] then Some 1 else None)" for hs
  proof (cases hs)
    case (Cons h rest)
    have "kwalk (vchild v) 1 rest = (if rest = [] then Some 1 else None)"
      "kwalk (vchild v) 2 rest = (if rest = [] then Some 2 else None)"
      by (cases rest; simp add: ch)+
    then show ?thesis using Cons boot_names_differ by (auto simp: ch)
  qed simp
  have "vfs_inv ?pth (boot_mounts t i root) v"
    unfolding vfs_inv_def b(1,2)
    using tree maps boot_names_differ
    by (auto simp: walk b b(4) [unfolded One_nat_def] vfs_spec_def boot_mounts_def split: if_splits)
  then show ?thesis by blast
qed

section \<open>The partitions\<close>

text \<open>Printed before the boot is aborted: the names of the registered devices of the class.\<close>

lemma dump_partitions_names:
  assumes "map_inv (dm_devices dm)"
  shows "set (dump_partitions cls dm) =
    {dv_name (dm_device dm d) | h d. kmap_try_get h (dm_devices dm) = Some d \<and> cls \<in> set (dv_class (dm_device dm d))}"
proof -
  have "set (dump_partitions cls dm) = {dv_name (dm_device dm d) | h d.
      (h, d) \<in> set (iter_entries (iter_begin (dm_devices dm))) \<and> class_is (dv_class (dm_device dm d)) cls}"
    unfolding dump_partitions_def set_map set_filter by (force simp: image_iff split: prod.splits)
  then show ?thesis by (simp only: iterated_devices [OF assms] class_is_set)
qed

section \<open>Property\<close>

text \<open>C40: the boot with a boot device that holds an archive returns and mounts the file systems so that a
  lookup of any absolute path finds the root and \<open>/dev\<close> as directories, a registered device below
  \<open>/dev\<close>, an entry of the archive, with its size and block, below \<open>/usr\<close>, and nothing else (names are
  told apart by their hashes); without a boot device, or with an unknown one, the boot is aborted.\<close>

theorem kernel_boot:
  assumes "v_next v = 0" and "v_filesystems v = []"
    and "find_boot_device s v = Inr d" and "find_boot_fstype s = Inr (bytes_of ''tarfs'')"
    and "class_is (dv_class (dm_device (v_devices v) d)) cls" and "dv_block (dm_device (v_devices v) d) = Some bd"
    and "archive_at bd 0 False es" and "tar_next (snd (snd (tar_fs v (tar_count v)))) = 0"
  shows "\<exists>n. \<forall>k \<ge> n.
    (\<exists>v'. boot_file_systems kernel_filesystems cls k s v = Inr v' \<and>
       (\<forall>p. good_path p \<longrightarrow> (\<exists>r v2. lookup_node (47 # p) v' = Inr (r, v2) \<and>
          map_option (node_kind v2) (Option.bind r (\<lambda>c. vn_pn (v_nodes v2 c))) =
            boot_view (fold spec_entry es (\<lambda>ps. if ps = [] then Some (0, None) else None))
              (\<lambda>h. kmap_try_get h (dm_devices (v_devices v))) (map fnv (path_names p)) \<and>
          (\<forall>c. r = Some c \<longrightarrow> vn_pn (v_nodes v2 c) \<noteq> None)))) \<and>
    (\<forall>s' e. find_boot_device s' v = Inl e \<longrightarrow> boot_file_systems kernel_filesystems cls k s' v = Inl e)"
proof -
  let ?T = "fold spec_entry es (\<lambda>ps. if ps = [] then Some (0, None) else None)"
  from tar_mount_archive [OF assms(7,8)] obtain n root fs where
    m: "\<forall>k \<ge> n. tar_mount k bd (None, snd (snd (tar_fs v (tar_count v)))) = Inr (root, Some root, fs)"
      "tar_view root fs = ?T" by blast
  show ?thesis
  proof (intro exI [of _ n] allI impI)
    fix k assume "n \<le> k"
    with m(1) have mk: "tar_mount k bd (None, snd (snd (tar_fs v (tar_count v)))) = Inr (root, Some root, fs)" by blast
    from boot_file_systems_booted [OF assms(1-6) mk] obtain v' where
      b: "boot_file_systems kernel_filesystems cls k s v = Inr v'"
        "booted (tmp_next v) (tar_count v) root fs (v_devices v) v'"
        "\<forall>s' e. find_boot_device s' v = Inl e \<longrightarrow> boot_file_systems kernel_filesystems cls k s' v = Inl e" by blast
    from booted_inv [OF b(2)] obtain pth where inv: "vfs_inv pth (boot_mounts (tmp_next v) (tar_count v) root) v'" by blast
    have look: "\<exists>r v2. lookup_node (47 # p) v' = Inr (r, v2) \<and>
        map_option (node_kind v2) (Option.bind r (\<lambda>c. vn_pn (v_nodes v2 c))) =
          boot_view ?T (\<lambda>h. kmap_try_get h (dm_devices (v_devices v))) (map fnv (path_names p)) \<and>
        (\<forall>c. r = Some c \<longrightarrow> vn_pn (v_nodes v2 c) \<noteq> None)" if "good_path p" for p
    proof -
      from lookup_node_ok [OF inv that] obtain r v2 where
        r: "lookup_node (47 # p) v' = Inr (r, v2)" "same_phys v' v2"
          "case vfs_spec v' (boot_mounts (tmp_next v) (tar_count v) root) (map fnv (path_names p)) of
             None \<Rightarrow> r = None | Some q \<Rightarrow> \<exists>c. r = Some c \<and> vn_pn (v_nodes v2 c) = Some q" by blast
      have "node_kind v2 = node_kind v'" using r(2) by (simp add: fun_eq_iff node_kind_def same_phys_def split: pnode.split)
      then show ?thesis
        using r(1,3) booted_spec [OF b(2), of "map fnv (path_names p)"] m(2)
        by (intro exI [of _ r] exI [of _ v2]) (auto split: option.splits)
    qed
    show "(\<exists>v'. boot_file_systems kernel_filesystems cls k s v = Inr v' \<and>
       (\<forall>p. good_path p \<longrightarrow> (\<exists>r v2. lookup_node (47 # p) v' = Inr (r, v2) \<and>
          map_option (node_kind v2) (Option.bind r (\<lambda>c. vn_pn (v_nodes v2 c))) =
            boot_view ?T (\<lambda>h. kmap_try_get h (dm_devices (v_devices v))) (map fnv (path_names p)) \<and>
          (\<forall>c. r = Some c \<longrightarrow> vn_pn (v_nodes v2 c) \<noteq> None)))) \<and>
      (\<forall>s' e. find_boot_device s' v = Inl e \<longrightarrow> boot_file_systems kernel_filesystems cls k s' v = Inl e)"
      using b(1,3) look by blast
  qed
qed

text \<open>A machine with one block device that holds a small archive, and settings that name it.\<close>

definition small_machine :: vfs where
  "small_machine = small_vfs\<lparr>v_next := 0,
     v_devices := \<lparr>dm_devices = \<lparr>map_root = Node (fnv (bytes_of ''ata0'')) 0 BLACK Null Null, map_count = 1\<rparr>,
       dm_device = (\<lambda>_. \<lparr>dv_name = bytes_of ''ata0'', dv_class = [1, 0], dv_file = False, dv_block = Some small_archive\<rparr>),
       dm_class = (\<lambda>_. bytes_of ''ata''), dm_instance = (\<lambda>_. 1)\<rparr>\<rparr>"

definition small_settings :: kernel_settings where
  "small_settings = initial_settings\<lparr>boot_device_name := bytes_of ''ata0'' @ replicate 12 0,
     boot_fstype := bytes_of ''tarfs'' @ replicate 11 0\<rparr>"

theorem kernel_boot_witness:
  "\<exists>k v' r v2. boot_file_systems kernel_filesystems 1 k small_settings small_machine = Inr v' \<and>
     lookup_node (47 # bytes_of ''usr/a'' @ [0]) v' = Inr (r, v2) \<and>
     map_option (node_kind v2) (Option.bind r (\<lambda>c. vn_pn (v_nodes v2 c))) = Some (Boot_Entry (8, Some 0)) \<and>
     boot_file_systems kernel_filesystems 1 k initial_settings small_machine = Inl Aborted"
proof -
  have h: "v_next small_machine = 0" "v_filesystems small_machine = []"
    "tar_next (snd (snd (tar_fs small_machine (tar_count small_machine)))) = 0"
    "class_is (dv_class (dm_device (v_devices small_machine) 0)) 1"
    "dv_block (dm_device (v_devices small_machine) 0) = Some small_archive"
    by (simp_all add: small_machine_def small_vfs_def no_nodes_def)
  have d: "find_boot_device small_settings small_machine = Inr 0"
    "find_boot_fstype small_settings = Inr (bytes_of ''tarfs'')"
    "find_boot_device initial_settings small_machine = Inl Aborted"
    by (simp_all add: find_boot_device_def find_boot_fstype_def small_settings_def initial_settings_def small_machine_def
        kstrlen_eq is_cstr_def cstr_def bytes_of_def try_get_device_by_name_def kmap_try_get_def)
  have g: "good_path (bytes_of ''usr/a'' @ [0])" by (simp add: good_path_def bytes_of_def)
  have nm: "path_names (bytes_of ''usr/a'' @ [0]) = [bytes_of ''usr'', bytes_of ''a'']"
    by (simp add: path_names_def bytes_of_def)
  from kernel_boot [OF h(1,2) d(1,2) h(4,5) small_archive_at h(3)] obtain n where
    n: "\<forall>k \<ge> n. (\<exists>v'. boot_file_systems kernel_filesystems 1 k small_settings small_machine = Inr v' \<and>
       (\<forall>p. good_path p \<longrightarrow> (\<exists>r v2. lookup_node (47 # p) v' = Inr (r, v2) \<and>
          map_option (node_kind v2) (Option.bind r (\<lambda>c. vn_pn (v_nodes v2 c))) =
            boot_view (fold spec_entry [([[97]], 8, 0, 0)] (\<lambda>ps. if ps = [] then Some (0, None) else None))
              (\<lambda>h. kmap_try_get h (dm_devices (v_devices small_machine))) (map fnv (path_names p)) \<and>
          (\<forall>c. r = Some c \<longrightarrow> vn_pn (v_nodes v2 c) \<noteq> None)))) \<and>
      (\<forall>s' e. find_boot_device s' small_machine = Inl e \<longrightarrow>
        boot_file_systems kernel_filesystems 1 k s' small_machine = Inl e)" by blast
  have view: "boot_view (fold spec_entry [([[97]], 8, 0, 0)] (\<lambda>ps. if ps = [] then Some (0, None) else None)) devs
      (map fnv [bytes_of ''usr'', bytes_of ''a'']) = Some (Boot_Entry (8, Some 0))" for devs
    by (simp add: boot_view_def spec_entry_def bytes_of_def)
  note at_n = mp [OF spec [OF n, of n] le_refl]
  obtain v' where v': "boot_file_systems kernel_filesystems 1 n small_settings small_machine = Inr v'"
      "\<forall>p. good_path p \<longrightarrow> (\<exists>r v2. lookup_node (47 # p) v' = Inr (r, v2) \<and>
          map_option (node_kind v2) (Option.bind r (\<lambda>c. vn_pn (v_nodes v2 c))) =
            boot_view (fold spec_entry [([[97]], 8, 0, 0)] (\<lambda>ps. if ps = [] then Some (0, None) else None))
              (\<lambda>h. kmap_try_get h (dm_devices (v_devices small_machine))) (map fnv (path_names p)) \<and>
          (\<forall>c. r = Some c \<longrightarrow> vn_pn (v_nodes v2 c) \<noteq> None))"
    using conjunct1 [OF at_n] by (elim exE conjE)
  have e: "boot_file_systems kernel_filesystems 1 n initial_settings small_machine = Inl Aborted"
    by (rule mp [OF spec [OF spec [OF conjunct2 [OF at_n]]] d(3)])
  from mp [OF spec [OF v'(2)] g] obtain r v2 where
    r: "lookup_node (47 # bytes_of ''usr/a'' @ [0]) v' = Inr (r, v2)"
      "map_option (node_kind v2) (Option.bind r (\<lambda>c. vn_pn (v_nodes v2 c))) =
        boot_view (fold spec_entry [([[97]], 8, 0, 0)] (\<lambda>ps. if ps = [] then Some (0, None) else None))
          (\<lambda>h. kmap_try_get h (dm_devices (v_devices small_machine))) (map fnv (path_names (bytes_of ''usr/a'' @ [0])))"
    by (elim exE conjE)
  show ?thesis
    using v'(1) r(1) r(2) [unfolded nm view] e by (intro exI conjI)
qed



end
