(* ===== verification/Log.thy ===== *)
theory Log imports Printf_Spec KString begin

text \<open>
  The kernel log (kernel/log.cpp, log.h): the writes to the stream of the system log, and the logs of
  the components, whose messages pass through a buffer of 512 bytes. The lock around the writes of one
  message is \<open>Mutex\<close>.
\<close>

section \<open>The system log\<close>

datatype log_level = Level_Debug | Level_Info | Level_Warning | Level_Error | Level_Fatal | Level_Important

record sys_log =
  log_enabled :: bool
  log_colour :: bool
  log_stream :: bool

definition escape :: "string \<Rightarrow> u8 list" where
  "escape s = 0x1b # bytes_of s"

definition level_colour :: "log_level \<Rightarrow> u8 list" where
  "level_colour level =
     (case level of
        Level_Debug \<Rightarrow> escape ''[34;1m''
      | Level_Info \<Rightarrow> escape ''[32;1m''
      | Level_Warning \<Rightarrow> escape ''[32;1m''
      | Level_Error \<Rightarrow> escape ''[31;1m''
      | Level_Fatal \<Rightarrow> escape ''[31;1m''
      | Level_Important \<Rightarrow> escape ''[37;1;42m'')"

definition level_label :: "log_level \<Rightarrow> u8 list" where
  "level_label level =
     bytes_of (case level of
        Level_Debug \<Rightarrow> ''  debug: ''
      | Level_Info \<Rightarrow> ''   info: ''
      | Level_Warning \<Rightarrow> ''warning: ''
      | Level_Error \<Rightarrow> ''  error: ''
      | Level_Fatal \<Rightarrow> ''  fatal: ''
      | Level_Important \<Rightarrow> '' notice: '')"

text \<open>The writes to the stream, one after the other; \<open>message\<close> is a string with its terminator.\<close>

definition sys_message :: "sys_log \<Rightarrow> log_level \<Rightarrow> u8 list \<Rightarrow> u8 list list res" where
  "sys_message l level message =
     (if \<not> log_enabled l then Inr []
      else if \<not> log_stream l then Inr []
      else res_bind (kstrlen (Some message)) (\<lambda>len.
        Inr ((if log_colour l then [level_colour level] else []) @ [level_label level] @
             (if log_colour l \<and> level \<noteq> Level_Important then [escape ''[37;0m''] else []) @
             [take (unat len) message] @
             (if log_colour l \<and> level = Level_Important then [escape ''[37;0m''] else []) @
             [[10]])))"

section \<open>The log of a component\<close>

text \<open>\<open>old\<close> is what the buffer on the stack held before.\<close>

definition component_message ::
    "sys_log \<Rightarrow> bool \<Rightarrow> u8 list \<Rightarrow> u8 list \<Rightarrow> log_level \<Rightarrow> u8 list \<Rightarrow> u8 list list res" where
  "component_message l enabled name old level message =
     (if \<not> enabled then Inr []
      else res_bind (snprintf 0x200 (bytes_of ''%s: %s'') [Text_Arg 0 (cstr name), Text_Arg 0 (cstr message)] old)
             (\<lambda>(_, buffer). sys_message l level buffer))"

text \<open>\<open>messagef\<close> formats into a buffer of its own and calls the virtual \<open>message\<close>.\<close>

definition log_messagef ::
    "bool \<Rightarrow> (log_level \<Rightarrow> u8 list \<Rightarrow> u8 list list res) \<Rightarrow> u8 list \<Rightarrow> log_level \<Rightarrow> u8 list \<Rightarrow> printf_arg list \<Rightarrow> u8 list list res" where
  "log_messagef enabled message old level fmt args =
     (if \<not> enabled then Inr []
      else res_bind (vsnprintf 0x200 fmt args old) (\<lambda>(_, buffer). message level buffer))"

section \<open>What is written\<close>

lemma kstrlen_short:
  assumes "0 \<notin> set t" and "length t < 2 ^ 60"
  shows "kstrlen (Some (t @ 0 # r)) = Inr (of_nat (length t))"
proof -
  have "takeWhile (\<lambda>c. c \<noteq> 0) t = t" using assms(1) by (induction t) auto
  then have "cstr (t @ 0 # r) = t" using assms(1) by (simp add: cstr_def takeWhile_tail)
  then show ?thesis by (subst kstrlen_eq) (simp_all add: is_cstr_def)
qed

text \<open>
  A message of a component appears behind the label of its level and the name of the component, cut to
  511 characters, and is followed by the end of the line.
\<close>

lemma component_message_writes:
  assumes "log_enabled l" and "log_stream l" and "0 \<notin> set name" and "0 \<notin> set msg" and "length old = 0x200"
  shows "component_message l True (name @ 0 # r1) old level (msg @ 0 # r2) =
    Inr ((if log_colour l then [level_colour level] else []) @ [level_label level] @
      (if log_colour l \<and> level \<noteq> Level_Important then [escape ''[37;0m''] else []) @
      [take 511 (name @ bytes_of '': '' @ msg)] @
      (if log_colour l \<and> level = Level_Important then [escape ''[37;0m''] else []) @ [[10]])"
proof -
  let ?X = "name @ bytes_of '': '' @ msg" and ?b = "old"
  have c: "cstr (name @ 0 # r1) = name" "cstr (msg @ 0 # r2) = msg"
    using assms(3,4) by (auto simp: cstr_def takeWhile_tail)
  have N: "(511 :: nat) < length ?b" using assms(5) by simp
  have X: "?X = name @ 58 # 32 # msg" by (simp add: bytes_of_def)
  have s5: "format_loop (int 511 + 1) [] (length (take 511 ?X)) [] (written 0 (take 511 ?X) old) =
      Inr (length (take 511 ?X), written 0 (take 511 ?X) old)"
    by (simp only: format_loop.simps [of _ "[]"] list.case)
  have s4: "format_loop (int 511 + 1) [37, 115] (length (take 511 (name @ [58, 32]))) [Text_Arg 0 msg]
      (written 0 (take 511 (name @ [58, 32])) old) = Inr (length (take 511 ?X), written 0 (take 511 ?X) old)"
    by (rule format_string_to [OF N, where Z = msg]) (use s5 in \<open>simp_all add: X\<close>)
  have s3: "format_loop (int 511 + 1) [32, 37, 115] (length (take 511 (name @ [58]))) [Text_Arg 0 msg]
      (written 0 (take 511 (name @ [58])) old) = Inr (length (take 511 ?X), written 0 (take 511 ?X) old)"
    by (rule format_plain_to [OF _ N, where Z = "32 # msg"]) (use s4 in \<open>simp_all add: X\<close>)
  have s2: "format_loop (int 511 + 1) [58, 32, 37, 115] (length (take 511 name)) [Text_Arg 0 msg]
      (written 0 (take 511 name) old) = Inr (length (take 511 ?X), written 0 (take 511 ?X) old)"
    by (rule format_plain_to [OF _ N, where Z = "58 # 32 # msg"]) (use s3 in \<open>simp_all add: X\<close>)
  have s1: "format_loop (int 511 + 1) [37, 115, 58, 32, 37, 115] (length (take 511 ([] :: u8 list)))
      [Text_Arg 0 name, Text_Arg 0 msg] (written 0 (take 511 []) old) = Inr (length (take 511 ?X), written 0 (take 511 ?X) old)"
    by (rule format_string_to [OF N, where Z = ?X]) (use s2 in simp_all)
  have loop: "format_loop 512 (bytes_of ''%s: %s'') 0 [Text_Arg 0 name, Text_Arg 0 msg] old =
      Inr (length (take 511 ?X), written 0 (take 511 ?X) old)"
    using s1 by (simp add: bytes_of_def)
  have len: "length (take 511 ?X) < length old" using assms(5) by simp
  have put: "put_byte (length (take 511 ?X)) 0 (written 0 (take 511 ?X) old) = Inr (written 0 (take 511 ?X @ [0]) old)"
    using written_snoc [of 0 "take 511 ?X" old 0] len by (simp del: take_append length_take)
  have form: "snprintf 512 (bytes_of ''%s: %s'') [Text_Arg 0 name, Text_Arg 0 msg] old =
      Inr (length (take 511 ?X), written 0 (take 511 ?X @ [0]) old)"
    by (simp only: snprintf_def vsnprintf_def loop put res_bind_simps split if_False) simp
  have split: "written 0 (take 511 ?X @ [0]) old = take 511 ?X @ 0 # drop (length (take 511 ?X) + 1) old"
    by (simp add: written_def del: take_append length_take)
  have z: "0 \<notin> set (take 511 ?X)" using assms(3,4) by (auto simp: bytes_of_def dest: in_set_takeD)
  have "length (take 511 ?X) < 2 ^ 60" by simp
  from kstrlen_short [OF z this] have kl: "kstrlen (Some (written 0 (take 511 ?X @ [0]) old)) = Inr (of_nat (length (take 511 ?X)))"
    unfolding split by blast
  have tk: "take (unat (of_nat (length (take 511 ?X)) :: u64)) (written 0 (take 511 ?X @ [0]) old) = take 511 ?X"
  proof -
    have "unat (of_nat (length (take 511 ?X)) :: u64) = length (take 511 ?X)" by (rule unat_of_nat_u64) simp
    moreover have "take (length T) (T @ R) = T" for T R :: "u8 list" by simp
    ultimately show ?thesis unfolding split by (simp only:)
  qed
  show ?thesis
    using assms(1,2) by (simp add: component_message_def sys_message_def c form kl tk del: take_append length_take)
qed

end
