(* ===== verification/Early_Screen.thy ===== *)
theory Early_Screen imports Ports begin

text \<open>
  The screen before the consoles (arch/x86/early-screen.cpp): the cells of the frame buffer, the
  cursor, and the ports that move the cursor of the hardware.
\<close>

unbundle bit_operations_syntax

record early_screen =
  es_x :: nat
  es_y :: nat
  es_video :: "u16 list"
  es_io :: io

definition es_width :: nat where
  "es_width = 80"

definition es_height :: nat where
  "es_height = 25"

text \<open>The position that the hardware has is split without a check; row and column have eight bits.\<close>

definition early_init :: "port_device \<Rightarrow> early_screen \<Rightarrow> early_screen" where
  "early_init dev s =
     (let (low, h1) = inb dev 0x3d5 (outb 0x3d4 0xf (es_io s));
          (high, h2) = inb dev 0x3d5 (outb 0x3d4 0xe h1);
          position = (ucast low OR push_bit 8 (ucast high) :: u16)
      in s\<lparr>es_x := unat position mod es_width, es_y := unat position div es_width mod 256, es_io := h2\<rparr>)"

definition update_cursor :: "early_screen \<Rightarrow> early_screen" where
  "update_cursor s =
     (let position = (of_nat (es_x s + es_y s * es_width) :: u16) in
      s\<lparr>es_io := outb 0x3d5 (ucast (drop_bit 8 position)) (outb 0x3d4 0xe (outb 0x3d5 (ucast position) (outb 0x3d4 0xf (es_io s))))\<rparr>)"

definition video_put :: "nat \<Rightarrow> u16 \<Rightarrow> early_screen \<Rightarrow> early_screen res" where
  "video_put i v s =
     (if i < length (es_video s) then Inr (s\<lparr>es_video := (es_video s)[i := v]\<rparr>) else Inl Out_Of_Bounds)"

fun video_fill :: "nat list \<Rightarrow> early_screen \<Rightarrow> early_screen res" where
  "video_fill [] s = Inr s"
| "video_fill (i # is) s = res_bind (video_put i 0 s) (video_fill is)"

definition early_clear :: "early_screen \<Rightarrow> early_screen res" where
  "early_clear s =
     video_fill [0..<es_width * es_height] (update_cursor (s\<lparr>es_x := 0, es_y := 0\<rparr>))"

text \<open>The lines move up by one and the last one is zeroed.\<close>

definition early_scroll :: "early_screen \<Rightarrow> early_screen res" where
  "early_scroll s =
     (let n = es_width * (es_height - 1) in
      if length (es_video s) < es_width * es_height then Inl Out_Of_Bounds
      else video_fill [n..<n + es_width]
             (s\<lparr>es_video := take n (drop es_width (es_video s)) @ drop n (es_video s)\<rparr>))"

definition next_line :: "early_screen \<Rightarrow> early_screen res" where
  "next_line s =
     (let s1 = s\<lparr>es_x := 0, es_y := (es_y s + 1) mod 256\<rparr> in
      if es_y s1 = es_height then early_scroll (s1\<lparr>es_y := es_height - 1\<rparr>) else Inr s1)"

text \<open>\<open>char\<close> is signed, so a character above 127 sets all attribute bits.\<close>

definition early_putch :: "u32 \<Rightarrow> u8 \<Rightarrow> early_screen \<Rightarrow> early_screen res" where
  "early_putch attr c s =
     res_bind
       (if c = 13 then Inr (s\<lparr>es_x := 0\<rparr>)
        else if c = 10 then next_line s
        else res_bind (video_put (es_x s + es_y s * es_width) (ucast (push_bit 8 (attr AND 0xff) OR (scast c :: u32))) s)
               (\<lambda>s1. let s2 = s1\<lparr>es_x := (es_x s1 + 1) mod 256\<rparr> in if es_x s2 = es_width then next_line s2 else Inr s2))
       (\<lambda>s1. Inr (update_cursor s1))"

fun early_putstr :: "u32 \<Rightarrow> u8 list \<Rightarrow> early_screen \<Rightarrow> early_screen res" where
  "early_putstr attr [] s = Inl Out_Of_Bounds"
| "early_putstr attr (c # str) s =
     (if c = 0 then Inr s else res_bind (early_putch attr c s) (early_putstr attr str))"

text \<open>The count is decremented in the test of the loop, past zero in the end, and then returned.\<close>

fun early_write_loop :: "u8 list \<Rightarrow> u64 \<Rightarrow> early_screen \<Rightarrow> (u64 \<times> early_screen) res" where
  "early_write_loop [] n s = Inr (n - 1, s)"
| "early_write_loop (c # buffer) n s = res_bind (early_putch 7 c s) (early_write_loop buffer (n - 1))"

definition early_write :: "u8 list \<Rightarrow> early_screen \<Rightarrow> (i32 \<times> early_screen) res" where
  "early_write buffer s =
     res_bind (early_write_loop buffer (of_nat (length buffer)) s) (\<lambda>(n, s1). Inr (ucast n, s1))"

section \<open>The screen\<close>

definition early_inv :: "early_screen \<Rightarrow> bool" where
  "early_inv s \<longleftrightarrow> es_x s < es_width \<and> es_y s < es_height \<and> length (es_video s) = es_width * es_height"

lemma video_fill_ok:
  "\<forall>i \<in> set is. i < length (es_video s) \<Longrightarrow> \<exists>v. video_fill is s = Inr (s\<lparr>es_video := v\<rparr>) \<and> length v = length (es_video s) \<and>
     (\<forall>j < length v. v ! j = (if j \<in> set is then 0 else es_video s ! j))"
proof (induction "is" arbitrary: s)
  case Nil
  show ?case by (intro exI [of _ "es_video s"]) simp
next
  case (Cons i "is")
  let ?s = "s\<lparr>es_video := (es_video s)[i := 0]\<rparr>"
  from Cons.IH [of ?s] Cons.prems obtain v where
    v: "video_fill is ?s = Inr (?s\<lparr>es_video := v\<rparr>)" "length v = length (es_video s)"
      "\<forall>j < length v. v ! j = (if j \<in> set is then 0 else (es_video s)[i := 0] ! j)" by auto
  have put: "video_put i 0 s = Inr ?s" using Cons.prems by (simp add: video_put_def)
  show ?case
    using v Cons.prems by (intro exI [of _ v]) (auto simp: put nth_list_update)
qed

lemma early_clear_ok:
  assumes "length (es_video s) = es_width * es_height"
  shows "\<exists>s'. early_clear s = Inr s' \<and> early_inv s' \<and> es_x s' = 0 \<and> es_y s' = 0 \<and> (\<forall>c \<in> set (es_video s'). c = 0)"
proof -
  let ?s = "update_cursor (s\<lparr>es_x := 0, es_y := 0\<rparr>)"
  have vid: "es_video ?s = es_video s" "es_x ?s = 0" "es_y ?s = 0" by (simp_all add: update_cursor_def Let_def)
  from video_fill_ok [of "[0..<es_width * es_height]" ?s] vid(1) assms obtain v where
    v: "early_clear s = Inr (?s\<lparr>es_video := v\<rparr>)" "length v = es_width * es_height"
      "\<forall>j < length v. v ! j = 0" by (auto simp: early_clear_def)
  then show ?thesis
    using vid by (auto simp: early_inv_def es_width_def es_height_def in_set_conv_nth)
qed

text \<open>A scroll moves every line up by one.\<close>

lemma early_scroll_ok:
  assumes "length (es_video s) = es_width * es_height"
  shows "\<exists>v. early_scroll s = Inr (s\<lparr>es_video := v\<rparr>) \<and> length v = length (es_video s) \<and>
    (\<forall>j < length v. v ! j = (if j < es_width * (es_height - 1) then es_video s ! (j + es_width) else 0))"
proof -
  let ?n = "es_width * (es_height - 1)" and ?v = "es_video s"
  let ?s = "s\<lparr>es_video := take ?n (drop es_width ?v) @ drop ?n ?v\<rparr>"
  have dims: "?n = 1920" "es_width = 80" "es_width * es_height = 2000" by (simp_all add: es_width_def es_height_def)
  have len: "length ?v = 2000" using assms dims by simp
  from video_fill_ok [of "[?n..<?n + es_width]" ?s] dims len obtain w where
    w: "video_fill [?n..<?n + es_width] ?s = Inr (?s\<lparr>es_video := w\<rparr>)" "length w = 2000"
      "\<forall>j < 2000. w ! j = (if j \<in> set [?n..<?n + es_width] then 0 else es_video ?s ! j)" by auto
  have "w ! j = (if j < ?n then ?v ! (j + es_width) else 0)" if "j < 2000" for j
    using that w(3) dims len by (auto simp: nth_append add.commute)
  then show ?thesis
    using w(1,2) dims len by (intro exI [of _ w]) (simp add: early_scroll_def)
qed

lemma next_line_ok: "es_y s < es_height \<Longrightarrow> length (es_video s) = es_width * es_height \<Longrightarrow> \<exists>s'. next_line s = Inr s' \<and> early_inv s'"
  using early_scroll_ok [of "s\<lparr>es_x := 0, es_y := es_height - 1\<rparr>"]
  by (auto simp: next_line_def Let_def early_inv_def es_width_def es_height_def)

lemma early_putch_ok:
  assumes "early_inv s"
  shows "\<exists>s'. early_putch attr c s = Inr s' \<and> early_inv s'"
proof -
  have dims: "es_width = 80" "es_height = 25" by (simp_all add: es_width_def es_height_def)
  have s: "es_x s < 80" "es_y s < 25" "length (es_video s) = 2000" using assms by (simp_all add: early_inv_def es_width_def es_height_def)
  have cur: "early_inv (update_cursor t) = early_inv t" for t by (simp add: early_inv_def update_cursor_def Let_def)
  have put: "es_x s + es_y s * es_width < length (es_video s)" using s unfolding dims by linarith
  obtain t where t: "next_line s = Inr t" "early_inv t" using next_line_ok [of s] s unfolding dims by auto
  let ?w = "s\<lparr>es_video := (es_video s)[es_x s + es_y s * es_width := ucast (push_bit 8 (attr AND 0xff) OR (scast c :: u32))], es_x := es_x s + 1\<rparr>"
  obtain u where u: "next_line ?w = Inr u" "early_inv u" using next_line_ok [of ?w] s unfolding dims by auto
  have m: "(es_x s + 1) mod 256 = es_x s + 1" "Suc (es_x s) mod 256 = Suc (es_x s)" using s(1) by (simp_all add: dims)
  have m': "es_width mod 256 = es_width" by (simp add: es_width_def)
  have w: "early_inv ?w" if "es_x s + 1 \<noteq> es_width" using that s unfolding early_inv_def by (simp add: dims)
  have cr: "early_inv (s\<lparr>es_x := 0\<rparr>)" using s unfolding early_inv_def by (simp add: dims)
  have vp: "video_put (es_x s + es_y s * es_width) (ucast (push_bit 8 (attr AND 0xff) OR (scast c :: u32))) s =
      Inr (s\<lparr>es_video := (es_video s)[es_x s + es_y s * es_width := ucast (push_bit 8 (attr AND 0xff) OR (scast c :: u32))]\<rparr>)"
    using put by (simp only: video_put_def if_True)
  consider "c = 13" | "c = 10" | "c \<noteq> 13" "c \<noteq> 10" "es_x s + 1 = es_width" | "c \<noteq> 13" "c \<noteq> 10" "es_x s + 1 \<noteq> es_width" by blast
  then show ?thesis
  proof cases
    case 1
    then show ?thesis using cr cur by (simp add: early_putch_def)
  next
    case 2
    then show ?thesis using t cur by (simp add: early_putch_def)
  next
    case 3
    then show ?thesis using u cur vp by (simp add: early_putch_def Let_def m m')
  next
    case 4
    then show ?thesis using w cur vp by (simp add: early_putch_def Let_def m)
  qed
qed

text \<open>Every text fits, and the number returned is -1 for every buffer.\<close>

lemma early_write_returns:
  assumes "early_inv s"
  shows "\<exists>s'. early_write buffer s = Inr (- 1, s') \<and> early_inv s'"
proof -
  have "\<exists>s'. early_write_loop buf (of_nat (length buf)) t = Inr (- 1, s') \<and> early_inv s'" if "early_inv t" for buf t
    using that
  proof (induction buf arbitrary: t)
    case (Cons c buf)
    from early_putch_ok [OF Cons.prems, of 7 c] obtain t' where t': "early_putch 7 c t = Inr t'" "early_inv t'" by blast
    from Cons.IH [OF t'(2)] t'(1) show ?case by simp
  qed simp
  from this [OF assms, of buffer] obtain s' where
    "early_write_loop buffer (of_nat (length buffer)) s = Inr (- 1, s')" "early_inv s'" by blast
  moreover have "(ucast (- 1 :: u64) :: i32) = - 1" by (rule bit_word_eqI) (simp add: bit_simps)
  ultimately show ?thesis by (simp add: early_write_def)
qed

text \<open>A cursor of the hardware below the last row (in eight bits) leaves the screen outside its bounds.\<close>

lemma early_init_inv:
  assumes "length (es_video s) = es_width * es_height"
    and "position = unat (ucast (fst (inb dev 0x3d5 (outb 0x3d4 0xf (es_io s)))) OR
      push_bit 8 (ucast (fst (inb dev 0x3d5 (outb 0x3d4 0xe (snd (inb dev 0x3d5 (outb 0x3d4 0xf (es_io s)))))))) :: u16)"
  shows "early_inv (early_init dev s) \<longleftrightarrow> position div es_width mod 256 < es_height"
  using assms
  by (simp add: early_init_def early_inv_def Let_def es_width_def es_height_def inb_def split: prod.split)

end
