(* ===== verification/Console_Start.thy ===== *)
theory Console_Start imports Devices Console begin

text \<open>
  The devices that the architecture starts (arch/x86/devices.cpp): the console devices are registered,
  found again by class or name, and connected; then the PCI bus is searched and the linked devices are
  registered.
\<close>

section \<open>Device classes\<close>

text \<open>Classes are numbered; the class of a device is the chain up to the root class.\<close>

definition console_class :: "nat list" where
  "console_class = [1, 0]"

definition pc_class :: "nat list" where
  "pc_class = 2 # console_class"

definition vga_class :: "nat list" where
  "vga_class = 3 # pc_class"

definition kbd_class :: "nat list" where
  "kbd_class = [4, 0]"

definition tty_class :: "nat list" where
  "tty_class = [5, 0]"

definition vc_class :: "nat list" where
  "vc_class = 6 # console_class"

definition class_names_ok :: "devmgr \<Rightarrow> bool" where
  "class_names_ok dm \<longleftrightarrow> dm_class dm 3 = bytes_of ''vga'' \<and> dm_class dm 4 = bytes_of ''kbd'' \<and>
     dm_class dm 5 = bytes_of ''tty'' \<and> dm_class dm 6 = bytes_of ''vc''"

section \<open>The console devices\<close>

text \<open>A new object with the number \<open>d\<close>; a terminal can be opened as a file.\<close>

definition new_console_device :: "nat list \<Rightarrow> bool \<Rightarrow> nat \<Rightarrow> devmgr \<Rightarrow> devmgr" where
  "new_console_device cls file d dm =
     dm\<lparr>dm_device := (dm_device dm)(d := \<lparr>dv_name = [], dv_class = cls, dv_file = file, dv_block = None\<rparr>)\<rparr>"

text \<open>The first registration that fails ends the start with false.\<close>

definition and_then :: "(bool \<times> devmgr) res \<Rightarrow> (devmgr \<Rightarrow> (bool \<times> devmgr) res) \<Rightarrow> (bool \<times> devmgr) res" where
  "and_then r f = res_bind r (\<lambda>(ok, dm). if ok then f dm else Inr (False, dm))"

definition console_init :: "(nat \<Rightarrow> devmgr \<Rightarrow> (bool \<times> devmgr) res) \<Rightarrow> nat \<Rightarrow> devmgr \<Rightarrow> (bool \<times> devmgr) res" where
  "console_init init n dm =
     and_then (register_device init n (new_console_device vga_class False n dm)) (\<lambda>dm1.
     and_then (register_device init (n + 1) (new_console_device kbd_class False (n + 1) dm1)) (\<lambda>dm2.
     and_then (register_device init (n + 2) (new_console_device tty_class True (n + 2) dm2)) (\<lambda>dm3.
     and_then (add_device_alias (bytes_of ''console'') (n + 2) dm3) (\<lambda>dm4.
     and_then (register_device init (n + 3) (new_console_device tty_class True (n + 3) dm4)) (\<lambda>dm5.
     and_then (register_device init (n + 4) (new_console_device vc_class False (n + 4) dm5)) (\<lambda>dm6.
     and_then (register_device init (n + 5) (new_console_device vc_class False (n + 5) dm6)) (\<lambda>dm7.
       Inr (True, dm7))))))))"

text \<open>
  What activating the console connects: the sink of the keyboard, the stream of the system log if it
  changes, and the consoles.
\<close>

record console_links =
  kbd_sink :: "nat \<Rightarrow> nat option"
  log_to :: "nat option"

definition activate_console :: "bool \<Rightarrow> devmgr \<Rightarrow> console_links \<times> console_sys \<Rightarrow> (bool \<times> console_links \<times> console_sys) res" where
  "activate_console to_serial dm st =
     (case (try_get_device_by_class (hd pc_class) dm, try_get_device_by_name (bytes_of ''vc0'') dm,
            try_get_device_by_name (bytes_of ''vc1'') dm, try_get_device_by_class (hd kbd_class) dm,
            try_get_device_by_name (bytes_of ''tty0'') dm, try_get_device_by_name (bytes_of ''tty1'') dm) of
        (Some pc0, Some vc0, Some vc1, Some kbd0, Some tty0, Some tty1) \<Rightarrow>
          (let (links, con) = st;
               con1 = attach_terminal vc1 tty1 (attach_terminal vc0 tty0 con);
               links1 = links\<lparr>kbd_sink := (kbd_sink links)(kbd0 \<mapsto> pc0)\<rparr>
           in res_bind (add_virtual_console vc0 con1) (\<lambda>con2.
              res_bind (add_virtual_console vc1 con2) (\<lambda>con3.
                Inr (True, if to_serial then links1 else links1\<lparr>log_to := Some tty0\<rparr>, con3))))
      | _ \<Rightarrow> (let (links, con) = st in Inr (False, links, con)))"

section \<open>The other devices\<close>

text \<open>The result of a linked device's registration is not looked at; \<open>probed\<close> is that of the bus.\<close>

fun register_linked_devices :: "(nat \<Rightarrow> devmgr \<Rightarrow> (bool \<times> devmgr) res) \<Rightarrow> nat list \<Rightarrow> devmgr \<Rightarrow> devmgr res" where
  "register_linked_devices init [] dm = Inr dm"
| "register_linked_devices init (d # ds) dm = res_bind (register_device init d dm) (\<lambda>(_, dm1). register_linked_devices init ds dm1)"

definition devices_init ::
    "(devmgr \<Rightarrow> (bool \<times> devmgr) res) \<Rightarrow> (nat \<Rightarrow> devmgr \<Rightarrow> (bool \<times> devmgr) res) \<Rightarrow> nat list \<Rightarrow> devmgr \<Rightarrow> (bool \<times> devmgr) res" where
  "devices_init probe init ds dm =
     and_then (probe dm) (\<lambda>dm1. res_bind (register_linked_devices init ds dm1) (\<lambda>dm2. Inr (True, dm2)))"

text \<open>The second half of the start of the architecture.\<close>

definition x86_init_bottom ::
    "(devmgr \<Rightarrow> (bool \<times> devmgr) res) \<Rightarrow> (nat \<Rightarrow> devmgr \<Rightarrow> (bool \<times> devmgr) res) \<Rightarrow> nat \<Rightarrow> nat list \<Rightarrow> bool \<Rightarrow>
      console_links \<times> console_sys \<Rightarrow> devmgr \<Rightarrow> (bool \<times> devmgr \<times> console_links \<times> console_sys) res" where
  "x86_init_bottom probe init n ds to_serial st dm =
     res_bind (console_init init n dm) (\<lambda>(ok, dm1).
     if \<not> ok then Inr (False, dm1, st) else
     res_bind (activate_console to_serial dm1 st) (\<lambda>(ok1, st1).
     if \<not> ok1 then Inr (False, dm1, st1) else
     res_bind (devices_init probe init ds dm1) (\<lambda>(ok2, dm2). Inr (ok2, dm2, st1))))"

section \<open>What is found\<close>

text \<open>A device that starts without changing the manager gets the next name of its class.\<close>

lemma register_device_ok:
  assumes "map_inv (dm_devices dm)" and "init d = (\<lambda>m. Inr (True, m))" and "dm_instance dm (hd cls) = of_nat i" "i < 10"
  shows "\<exists>dm'. register_device init d (new_console_device cls file d dm) = Inr (True, dm') \<and> map_inv (dm_devices dm') \<and>
    dm_class dm' = dm_class dm \<and> dm_instance dm' = (dm_instance dm)(hd cls := dm_instance dm (hd cls) + 1) \<and>
    (\<forall>e. dv_class (dm_device dm' e) = (if e = d then cls else dv_class (dm_device dm e))) \<and>
    (\<forall>h. kmap_try_get h (dm_devices dm') =
       (if h = fnv (dm_class dm (hd cls) @ [48 + of_nat i]) then Some d else kmap_try_get h (dm_devices dm)))"
proof -
  let ?c = "hd cls"
  obtain s where s: "to_string (ucast (of_nat i :: u64)) = Inr s" "chars s = map digit_char (digits_of 10 (unat (ucast (of_nat i :: u64) :: u32)))"
    using to_string_eq by blast
  have "unat (of_nat i :: u64) = i" using assms(4) by (intro unat_of_nat_u64) simp
  then have u: "unat (ucast (of_nat i :: u64) :: u32) = i" using assms(4) by (simp add: unat_ucast_u32)
  have ch: "chars s = [48 + of_nat i]"
    unfolding s(2) u using assms(4) by (subst digits_of.simps) (simp add: digit_char_def)
  let ?nm = "dm_class dm ?c @ [48 + of_nat i]"
  from km.add_ok [OF assms(1), of "fnv ?nm" d] obtain m where
    m: "kmap_add (fnv ?nm) d (dm_devices dm) = Inr m" "map_inv m"
      "\<forall>h. kmap_try_get h m = (if h = fnv ?nm then Some d else kmap_try_get h (dm_devices dm))" by blast
  show ?thesis
    using m s(1) ch assms(2,3)
    by (simp add: register_device_def new_console_device_def acquire_instance_def assign_name_def Let_def)
qed

text \<open>The names of the console devices have different hashes.\<close>

lemma console_names_differ:
  "distinct (map (\<lambda>s. fnv (bytes_of s)) [''vga0'', ''kbd0'', ''tty0'', ''console'', ''tty1'', ''vc0'', ''vc1''])"
  by (simp add: bytes_of_def fnv_def hash_step_def)

lemma console_devices_found:
  assumes inv: "map_inv (dm_devices dm)" and names: "class_names_ok dm" and init: "\<forall>d. init d = (\<lambda>m. Inr (True, m))"
    and first: "\<forall>c \<in> {3, 4, 5, 6}. dm_instance dm c = 0"
  shows "\<exists>dm'. console_init init n dm = Inr (True, dm') \<and> map_inv (dm_devices dm') \<and>
    (\<forall>e. dv_class (dm_device dm' e) = (if e = n then vga_class else if e = n + 1 then kbd_class
       else if e = n + 2 \<or> e = n + 3 then tty_class else if e = n + 4 \<or> e = n + 5 then vc_class
       else dv_class (dm_device dm e))) \<and>
    (\<forall>h. kmap_try_get h (dm_devices dm') =
      (if h = fnv (bytes_of ''vc1'') then Some (n + 5) else if h = fnv (bytes_of ''vc0'') then Some (n + 4)
       else if h = fnv (bytes_of ''tty1'') then Some (n + 3) else if h = fnv (bytes_of ''console'') then Some (n + 2)
       else if h = fnv (bytes_of ''tty0'') then Some (n + 2) else if h = fnv (bytes_of ''kbd0'') then Some (n + 1)
       else if h = fnv (bytes_of ''vga0'') then Some n else kmap_try_get h (dm_devices dm)))"
proof -
  have cls: "hd vga_class = 3" "hd kbd_class = 4" "hd tty_class = 5" "hd vc_class = 6"
    by (simp_all add: vga_class_def kbd_class_def tty_class_def vc_class_def)
  have nm: "dm_class dm 3 @ [48] = bytes_of ''vga0''" "dm_class dm 4 @ [48] = bytes_of ''kbd0''"
    "dm_class dm 5 @ [48] = bytes_of ''tty0''" "dm_class dm 5 @ [49] = bytes_of ''tty1''"
    "dm_class dm 6 @ [48] = bytes_of ''vc0''" "dm_class dm 6 @ [49] = bytes_of ''vc1''"
    using names by (simp_all add: class_names_ok_def bytes_of_def)
  from register_device_ok [OF inv, of init n vga_class 0 False] init first obtain d1 where
    d1: "register_device init n (new_console_device vga_class False n dm) = Inr (True, d1)" "map_inv (dm_devices d1)"
      "dm_class d1 = dm_class dm" "dm_instance d1 = (dm_instance dm)(3 := 1)"
      "\<forall>e. dv_class (dm_device d1 e) = (if e = n then vga_class else dv_class (dm_device dm e))"
      "\<forall>h. kmap_try_get h (dm_devices d1) = (if h = fnv (bytes_of ''vga0'') then Some n else kmap_try_get h (dm_devices dm))"
    by (auto simp: cls nm)
  from register_device_ok [OF d1(2), of init "n + 1" kbd_class 0 False] init first obtain d2 where
    d2: "register_device init (n + 1) (new_console_device kbd_class False (n + 1) d1) = Inr (True, d2)" "map_inv (dm_devices d2)"
      "dm_class d2 = dm_class dm" "dm_instance d2 = (dm_instance dm)(3 := 1, 4 := 1)"
      "\<forall>e. dv_class (dm_device d2 e) = (if e = n + 1 then kbd_class else dv_class (dm_device d1 e))"
      "\<forall>h. kmap_try_get h (dm_devices d2) = (if h = fnv (bytes_of ''kbd0'') then Some (n + 1) else kmap_try_get h (dm_devices d1))"
    by (auto simp: cls nm d1(3,4))
  from register_device_ok [OF d2(2), of init "n + 2" tty_class 0 True] init first obtain d3 where
    d3: "register_device init (n + 2) (new_console_device tty_class True (n + 2) d2) = Inr (True, d3)" "map_inv (dm_devices d3)"
      "dm_class d3 = dm_class dm" "dm_instance d3 = (dm_instance dm)(3 := 1, 4 := 1, 5 := 1)"
      "\<forall>e. dv_class (dm_device d3 e) = (if e = n + 2 then tty_class else dv_class (dm_device d2 e))"
      "\<forall>h. kmap_try_get h (dm_devices d3) = (if h = fnv (bytes_of ''tty0'') then Some (n + 2) else kmap_try_get h (dm_devices d2))"
    by (auto simp: cls nm d2(3,4))
  from km.add_ok [OF d3(2), of "fnv (bytes_of ''console'')" "n + 2"] obtain m where
    m: "kmap_add (fnv (bytes_of ''console'')) (n + 2) (dm_devices d3) = Inr m" "map_inv m"
      "\<forall>h. kmap_try_get h m = (if h = fnv (bytes_of ''console'') then Some (n + 2) else kmap_try_get h (dm_devices d3))" by blast
  define d4 where "d4 = d3\<lparr>dm_devices := m\<rparr>"
  have al: "add_device_alias (bytes_of ''console'') (n + 2) d3 = Inr (True, d4)"
    by (simp only: add_device_alias_def m(1) res_bind_simps d4_def)
  have d4: "map_inv (dm_devices d4)" "dm_class d4 = dm_class dm" "dm_instance d4 = (dm_instance dm)(3 := 1, 4 := 1, 5 := 1)"
    "dm_device d4 = dm_device d3" "dm_devices d4 = m"
    by (simp_all add: d4_def m d3(3,4))
  from register_device_ok [OF d4(1), of init "n + 3" tty_class 1 True] init first obtain d5 where
    d5: "register_device init (n + 3) (new_console_device tty_class True (n + 3) d4) = Inr (True, d5)" "map_inv (dm_devices d5)"
      "dm_class d5 = dm_class dm" "dm_instance d5 = (dm_instance dm)(3 := 1, 4 := 1, 5 := 2)"
      "\<forall>e. dv_class (dm_device d5 e) = (if e = n + 3 then tty_class else dv_class (dm_device d3 e))"
      "\<forall>h. kmap_try_get h (dm_devices d5) = (if h = fnv (bytes_of ''tty1'') then Some (n + 3) else kmap_try_get h m)"
    by (auto simp: cls nm d4(2-5))
  from register_device_ok [OF d5(2), of init "n + 4" vc_class 0 False] init first obtain d6 where
    d6: "register_device init (n + 4) (new_console_device vc_class False (n + 4) d5) = Inr (True, d6)" "map_inv (dm_devices d6)"
      "dm_class d6 = dm_class dm" "dm_instance d6 = (dm_instance dm)(3 := 1, 4 := 1, 5 := 2, 6 := 1)"
      "\<forall>e. dv_class (dm_device d6 e) = (if e = n + 4 then vc_class else dv_class (dm_device d5 e))"
      "\<forall>h. kmap_try_get h (dm_devices d6) = (if h = fnv (bytes_of ''vc0'') then Some (n + 4) else kmap_try_get h (dm_devices d5))"
    by (auto simp: cls nm d5(3,4))
  from register_device_ok [OF d6(2), of init "n + 5" vc_class 1 False] init first obtain d7 where
    d7: "register_device init (n + 5) (new_console_device vc_class False (n + 5) d6) = Inr (True, d7)" "map_inv (dm_devices d7)"
      "\<forall>e. dv_class (dm_device d7 e) = (if e = n + 5 then vc_class else dv_class (dm_device d6 e))"
      "\<forall>h. kmap_try_get h (dm_devices d7) = (if h = fnv (bytes_of ''vc1'') then Some (n + 5) else kmap_try_get h (dm_devices d6))"
    by (auto simp: cls nm d6(3,4))
  have "console_init init n dm = Inr (True, d7)"
    by (simp only: console_init_def and_then_def d1(1) d2(1) d3(1) al d5(1) d6(1) d7(1) res_bind_simps prod.case if_True)
  then show ?thesis
    using d1(5,6) d2(5,6) d3(5,6) d5(5,6) d6(5,6) d7(2-4) m(3) by (intro exI [of _ d7]) auto
qed

text \<open>
  Activating the console finds exactly these devices, when none of their classes was there before, and
  connects the first virtual console with the terminal that has the name \<open>console\<close>.
\<close>

lemma console_activation:
  assumes inv: "map_inv (dm_devices dm)" and names: "class_names_ok dm" and init: "\<forall>d. init d = (\<lambda>m. Inr (True, m))"
    and first: "\<forall>c \<in> {3, 4, 5, 6}. dm_instance dm c = 0"
    and old: "\<forall>h d. kmap_try_get h (dm_devices dm) = Some d \<longrightarrow> d < n \<and> 2 \<notin> set (dv_class (dm_device dm d)) \<and> 4 \<notin> set (dv_class (dm_device dm d))"
  shows "\<exists>dm'. console_init init n dm = Inr (True, dm') \<and>
    try_get_device_by_name (bytes_of ''console'') dm' = Some (n + 2) \<and>
    (\<forall>links con. activate_console to_serial dm' (links, con) =
      res_bind (add_virtual_console (n + 4) (attach_terminal (n + 5) (n + 3) (attach_terminal (n + 4) (n + 2) con))) (\<lambda>con2.
      res_bind (add_virtual_console (n + 5) con2) (\<lambda>con3.
        Inr (True, (if to_serial then links\<lparr>kbd_sink := (kbd_sink links)(n + 1 \<mapsto> n)\<rparr>
                    else links\<lparr>kbd_sink := (kbd_sink links)(n + 1 \<mapsto> n), log_to := Some (n + 2)\<rparr>), con3))))"
proof -
  from console_devices_found [OF inv names init first, of n] obtain dm' where
    d: "console_init init n dm = Inr (True, dm')" "map_inv (dm_devices dm')"
      "\<forall>e. dv_class (dm_device dm' e) = (if e = n then vga_class else if e = n + 1 then kbd_class
       else if e = n + 2 \<or> e = n + 3 then tty_class else if e = n + 4 \<or> e = n + 5 then vc_class
       else dv_class (dm_device dm e))"
      "\<forall>h. kmap_try_get h (dm_devices dm') =
      (if h = fnv (bytes_of ''vc1'') then Some (n + 5) else if h = fnv (bytes_of ''vc0'') then Some (n + 4)
       else if h = fnv (bytes_of ''tty1'') then Some (n + 3) else if h = fnv (bytes_of ''console'') then Some (n + 2)
       else if h = fnv (bytes_of ''tty0'') then Some (n + 2) else if h = fnv (bytes_of ''kbd0'') then Some (n + 1)
       else if h = fnv (bytes_of ''vga0'') then Some n else kmap_try_get h (dm_devices dm))" by blast
  note ne = console_names_differ
  have byname: "try_get_device_by_name (bytes_of ''vc0'') dm' = Some (n + 4)" "try_get_device_by_name (bytes_of ''vc1'') dm' = Some (n + 5)"
    "try_get_device_by_name (bytes_of ''tty0'') dm' = Some (n + 2)" "try_get_device_by_name (bytes_of ''tty1'') dm' = Some (n + 3)"
    "try_get_device_by_name (bytes_of ''console'') dm' = Some (n + 2)"
    using ne by (simp_all add: try_get_device_by_name_def d(4))
  have reg: "d < n \<and> 2 \<notin> set (dv_class (dm_device dm d)) \<and> 4 \<notin> set (dv_class (dm_device dm d)) \<or> d \<in> {n, n + 1, n + 2, n + 3, n + 4, n + 5}"
    if "kmap_try_get h (dm_devices dm') = Some d" for h d
    using that old d(4) by (auto split: if_splits)
  have vga: "kmap_try_get (fnv (bytes_of ''vga0'')) (dm_devices dm') = Some n"
    "kmap_try_get (fnv (bytes_of ''kbd0'')) (dm_devices dm') = Some (n + 1)"
    using ne by (simp_all add: d(4))
  have sets: "set vga_class = {3, 2, 1, 0}" "set kbd_class = {4, 0}" "set tty_class = {5, 0}" "set vc_class = {6, 1, 0}"
    by (simp_all add: vga_class_def pc_class_def console_class_def kbd_class_def tty_class_def vc_class_def)
  have pc: "x = n" if "kmap_try_get h (dm_devices dm') = Some x" "2 \<in> set (dv_class (dm_device dm' x))" for h x
    using reg [OF that(1)] that(2) by (auto simp: d(3) sets split: if_splits)
  have kb: "x = n + 1" if "kmap_try_get h (dm_devices dm') = Some x" "4 \<in> set (dv_class (dm_device dm' x))" for h x
    using reg [OF that(1)] that(2) by (auto simp: d(3) sets split: if_splits)
  have hds: "hd pc_class = 2" "hd kbd_class = 4" by (simp_all add: pc_class_def kbd_class_def)
  have "try_get_device_by_class 2 dm' = Some n"
  proof (cases "try_get_device_by_class 2 dm'")
    case None
    then have "2 \<notin> set (dv_class (dm_device dm' n))" using device_by_class [OF d(2), of 2] vga(1) by auto
    then show ?thesis by (simp add: d(3) sets)
  next
    case (Some x)
    then show ?thesis using device_by_class [OF d(2), of 2] pc by auto
  qed
  moreover have "try_get_device_by_class 4 dm' = Some (n + 1)"
  proof (cases "try_get_device_by_class 4 dm'")
    case None
    then have "4 \<notin> set (dv_class (dm_device dm' (n + 1)))" using device_by_class [OF d(2), of 4] vga(2) by auto
    then show ?thesis by (simp add: d(3) sets)
  next
    case (Some x)
    then show ?thesis using device_by_class [OF d(2), of 4] kb by auto
  qed
  ultimately show ?thesis
    using d(1) byname by (intro exI [of _ dm']) (simp add: activate_console_def hds Let_def)
qed

end
