(* ===== verification/Shell.thy ===== *)
theory Shell imports Printf_Spec KString "HOL-Library.Sublist" begin

text \<open>
  Two of the programs in user space: the shell (infos-user/src/shell/shell.cpp) and \<open>cat\<close>
  (infos-user/src/cat/main.cpp). A program reads keys and prints; what the kernel does for it is a
  parameter.
\<close>

section \<open>Reading a command\<close>

text \<open>
  A call of \<open>printf\<close>: its format and arguments. The keys are what \<open>getch\<close> returns one after the
  other; without a value the program waits for the next key. \<open>buf\<close> are the characters in the buffer.
\<close>

type_synonym print_call = "u8 list \<times> printf_arg list"

fun read_command :: "u8 list \<Rightarrow> u8 list \<Rightarrow> (u8 list \<times> u8 list \<times> print_call list) option" where
  "read_command [] buf = (if length buf < 127 then None else Some (buf, [], []))"
| "read_command (c # keys) buf =
     (if length buf < 127 then
        if c = 0 then read_command keys buf
        else if c = 10 then Some (buf, keys, [])
        else if c = 8 then
          (if buf \<noteq> []
           then map_option (\<lambda>(b, rest, out). (b, rest, ([8], []) # out)) (read_command keys (butlast buf))
           else read_command keys buf)
        else map_option (\<lambda>(b, rest, out). (b, rest, (bytes_of ''%c'', [Num_Arg (scast c)]) # out))
               (read_command keys (buf @ [c]))
      else Some (buf, c # keys, []))"

section \<open>Running a command\<close>

text \<open>The name of the program, of at most 63 characters, and what is left.\<close>

fun copy_program :: "nat \<Rightarrow> u8 list \<Rightarrow> u8 list \<times> u8 list" where
  "copy_program n [] = ([], [])"
| "copy_program n (c # cmd) =
     (if c \<noteq> 32 \<and> n < 63 then (let (prog, rest) = copy_program (n + 1) cmd in (c # prog, rest)) else ([], c # cmd))"

definition split_command :: "u8 list \<Rightarrow> u8 list \<times> u8 list" where
  "split_command cmd = (let (prog, rest) = copy_program 0 cmd in (prog, tl rest))"

text \<open>
  The kernel: \<open>k_exec\<close> starts a program with its arguments and returns a handle, \<open>k_wait\<close> waits for
  the process behind a handle.
\<close>

record 's user_kernel =
  k_exec :: "u8 list \<Rightarrow> u8 list \<Rightarrow> 's \<Rightarrow> u64 \<times> 's"
  k_wait :: "u64 \<Rightarrow> 's \<Rightarrow> 's"

definition run_command :: "'s user_kernel \<Rightarrow> u8 list \<Rightarrow> 's \<Rightarrow> print_call list \<times> 's" where
  "run_command K cmd s =
     (let (prog, args) = split_command cmd; (pcmd, s1) = k_exec K prog args s in
      if pcmd = - 1 then ([(bytes_of ''error: unable to run command '' @ [39] @ bytes_of ''%s'' @ [39, 10], [Text_Arg 0 args])], s1)
      else ([], k_wait K pcmd s1))"

lemma read_command_shorter:
  "read_command keys buf = Some (b, rest, out) \<Longrightarrow> length rest \<le> length keys \<and> (length buf < 127 \<longrightarrow> length rest < length keys)"
  by (induction keys buf arbitrary: b rest out rule: read_command.induct)
    (fastforce split: if_splits)+

text \<open>The main loop, over the keys typed from here on.\<close>

function shell_main :: "'s user_kernel \<Rightarrow> u8 list \<Rightarrow> 's \<Rightarrow> (print_call list \<times> u8 list \<times> 's) option" where
  "shell_main K keys s =
     (case read_command keys [] of
        None \<Rightarrow> None
      | Some (cmd, rest, out) \<Rightarrow>
          (let prompt = (bytes_of ''> '', []) # out @ [([10], [])] in
           if cmd = [] then map_option (\<lambda>(o2, r). (prompt @ o2, r)) (shell_main K rest s)
           else if ustrcmp (bytes_of ''exit'' @ [0]) (cmd @ [0]) = Inr 0 then Some (prompt, rest, s)
           else (let (o1, s1) = run_command K cmd s in
                 map_option (\<lambda>(o2, r). (prompt @ o1 @ o2, r)) (shell_main K rest s1))))"
  by pat_completeness auto

termination shell_main
  by (relation "measure (\<lambda>(K, keys, s). length keys)")
    (auto dest!: read_command_shorter [THEN conjunct2, rule_format])

declare shell_main.simps [simp del]

section \<open>What the shell does\<close>

text \<open>A line as it is meant: a backspace takes back the last character, zeros are ignored.\<close>

definition edit_key :: "u8 \<Rightarrow> u8 list \<Rightarrow> u8 list" where
  "edit_key c buf = (if c = 0 then buf else if c = 8 then butlast buf else buf @ [c])"

lemma edit_key_simps:
  "edit_key 0 buf = buf" "edit_key 8 buf = butlast buf" "c \<noteq> 0 \<Longrightarrow> c \<noteq> 8 \<Longrightarrow> edit_key c buf = buf @ [c]"
  by (simp_all add: edit_key_def)

lemma read_command_line:
  assumes "10 \<notin> set line"
    and "\<forall>n \<le> length line. length (fold edit_key (take n line) buf) < 127"
  shows "\<exists>out. read_command (line @ 10 # rest) buf = Some (fold edit_key line buf, rest, out)"
  using assms
proof (induction line arbitrary: buf)
  case Nil
  then show ?case by simp
next
  case (Cons c line)
  have buf: "length buf < 127" using Cons.prems(2) [rule_format, of 0] by simp
  have "\<forall>n \<le> length line. length (fold edit_key (take n line) (edit_key c buf)) < 127"
  proof (intro allI impI)
    fix n assume "n \<le> length line"
    then show "length (fold edit_key (take n line) (edit_key c buf)) < 127"
      using Cons.prems(2) [rule_format, of "Suc n"] by simp
  qed
  with Cons have IH: "\<exists>out. read_command (line @ 10 # rest) (edit_key c buf) = Some (fold edit_key line (edit_key c buf), rest, out)"
    by simp
  show ?case
    using IH buf Cons.prems(1)
    by (cases "c = 0"; cases "c = 8"; cases "buf = []") (auto simp: edit_key_simps)
qed

text \<open>With 127 characters the command runs without the end of the line.\<close>

lemma read_command_full: "length buf = 127 \<Longrightarrow> read_command keys buf = Some (buf, keys, [])"
  by (cases keys) simp_all

lemma copy_program_eq:
  "n \<le> 63 \<Longrightarrow> copy_program n cmd =
     (take (63 - n) (takeWhile (\<lambda>c. c \<noteq> 32) cmd), drop (min (63 - n) (length (takeWhile (\<lambda>c. c \<noteq> 32) cmd))) cmd)"
proof (induction n cmd rule: copy_program.induct)
  case (2 n c cmd)
  show ?case
  proof (cases "c \<noteq> 32 \<and> n < 63")
    case True
    then have "63 - n = Suc (62 - n)" "63 - (n + 1) = 62 - n" by linarith+
    with True 2 show ?thesis by (simp add: min_def split: if_splits)
  next
    case False
    then show ?thesis using 2(2) by auto
  qed
qed simp

text \<open>
  A name of at most 63 characters and the arguments behind the space; of a longer name the 64th
  character is lost and the rest becomes the arguments.
\<close>

lemma split_command_name:
  assumes "32 \<notin> set prog"
  shows "length prog \<le> 63 \<Longrightarrow> split_command (prog @ 32 # args) = (prog, args)"
    and "length prog \<le> 63 \<Longrightarrow> split_command prog = (prog, [])"
    and "63 < length prog \<Longrightarrow> split_command prog = (take 63 prog, drop 64 prog)"
proof -
  have w: "takeWhile (\<lambda>c. c \<noteq> 32) prog = prog" using assms by (induction prog) auto
  have w': "takeWhile (\<lambda>c. c \<noteq> 32) (prog @ 32 # args) = prog" using assms by (simp add: takeWhile_tail w)
  show "length prog \<le> 63 \<Longrightarrow> split_command (prog @ 32 # args) = (prog, args)"
    by (simp add: split_command_def copy_program_eq w' min_def)
  show "length prog \<le> 63 \<Longrightarrow> split_command prog = (prog, [])"
    by (simp add: split_command_def copy_program_eq w min_def)
  show "63 < length prog \<Longrightarrow> split_command prog = (take 63 prog, drop 64 prog)"
    by (simp add: split_command_def copy_program_eq w min_def tl_drop drop_Suc [symmetric])
qed

text \<open>
  A line that is a prefix of the word for the end, or has it as a prefix, ends the shell: the
  comparison of the user library stops at the end of the shorter string.
\<close>

lemma shell_exit:
  assumes "read_command keys [] = Some (cmd, rest, out)" and "cmd \<noteq> []" and "0 \<notin> set cmd" and "length cmd < 2 ^ 30"
  shows "shell_main K keys s = (if prefix cmd (bytes_of ''exit'') \<or> prefix (bytes_of ''exit'') cmd
    then Some ((bytes_of ''> '', []) # out @ [([10], [])], rest, s)
    else (let (o1, s1) = run_command K cmd s in
      map_option (\<lambda>(o2, r). ((bytes_of ''> '', []) # out @ [([10], [])] @ o1 @ o2, r)) (shell_main K rest s1)))"
proof -
  have c: "cstr (bytes_of ''exit'' @ [0]) = bytes_of ''exit''" "cstr (cmd @ [0]) = cmd"
    "is_cstr (bytes_of ''exit'' @ [0])" "is_cstr (cmd @ [0])"
    using assms(3) by (auto simp: cstr_def is_cstr_def bytes_of_def takeWhile_tail takeWhile_eq_all_conv)
  have "ustrcmp (bytes_of ''exit'' @ [0]) (cmd @ [0]) = Inr 0 \<longleftrightarrow>
      take (length cmd) (bytes_of ''exit'') = take (length (bytes_of ''exit'')) cmd"
    using ustrcmp_eq [OF c(3,4)] c(1,2) by simp
  moreover have pre: "prefix xs ys \<longleftrightarrow> take (length xs) ys = xs" for xs ys :: "u8 list"
    by (metis append_eq_conv_conj append_take_drop_id prefix_def)
  have "take (length cmd) (bytes_of ''exit'') = take (length (bytes_of ''exit'')) cmd \<longleftrightarrow> prefix cmd (bytes_of ''exit'') \<or> prefix (bytes_of ''exit'') cmd"
    unfolding pre by (cases "length cmd \<le> length (bytes_of ''exit'')") auto
  ultimately show ?thesis
    using assms(1,2) by (subst shell_main.simps) (simp add: Let_def split: prod.split)
qed

section \<open>The program cat\<close>

text \<open>
  \<open>rd\<close> is the read of at most 63 bytes: the number returned and the bytes. A failed read returns a
  negative number, and the byte in front of the buffer is overwritten; the text is printed up to its
  first zero byte.
\<close>

partial_function (option) cat_loop ::
    "('s \<Rightarrow> int \<times> u8 list \<times> 's) \<Rightarrow> 's \<Rightarrow> u8 list \<Rightarrow> u8 list res option" where
  "cat_loop rd s shown =
     (let (bytes_read, bytes, s1) = rd s in
      if bytes_read < 0 then Some (Inl Out_Of_Bounds)
      else case user_printf (bytes_of ''%s'') [Text_Arg 0 (cstr (bytes @ [0]))] of
             Inl e \<Rightarrow> Some (Inl e)
           | Inr text \<Rightarrow> if 0 < bytes_read then cat_loop rd s1 (shown @ text) else Some (Inr (shown @ text)))"

lemma user_printf_text:
  assumes "length t < 0xFFE"
  shows "user_printf (bytes_of ''%s'') [Text_Arg a t] = Inr t"
proof -
  let ?b = "replicate 0x1000 0 :: u8 list"
  have N: "(4094 :: nat) < length ?b" by simp
  have e: "format_loop (int 4094 + 1) [] (length (take 4094 t)) [] (written 0 (take 4094 t) ?b) =
      Inr (length (take 4094 t), written 0 (take 4094 t) ?b)"
    by (simp only: format_loop.simps [of _ "[]"] list.case)
  have "format_loop (int 4094 + 1) [37, 115] (length (take 4094 ([] :: u8 list))) [Text_Arg a t] (written 0 (take 4094 []) ?b) =
      Inr (length (take 4094 t), written 0 (take 4094 t) ?b)"
    by (rule format_string_to [OF N, where Z = t]) (use e in simp_all)
  then have loop: "format_loop 4095 [37, 115] 0 [Text_Arg a t] ?b = Inr (length t, written 0 t ?b)"
    using assms by simp
  have "put_byte (length t) 0 (written 0 t ?b) = Inr (written 0 (t @ [0]) ?b)"
    using written_snoc [of 0 t ?b 0] assms by simp
  then have "vsnprintf 4095 [37, 115] [Text_Arg a t] ?b = Inr (length t, written 0 (t @ [0]) ?b)"
    by (simp add: vsnprintf_def loop)
  then show ?thesis by (simp add: user_printf_def bytes_of_def written_def)
qed

text \<open>A file without zero bytes is shown as it is.\<close>

lemma cat_shows_file:
  assumes "\<And>s. rd s = (int (length (take 63 (left s))), take 63 (left s), next_s s)"
    and "\<And>s. left (next_s s) = drop 63 (left s)" and "0 \<notin> set (left s)"
  shows "cat_loop rd s shown = Some (Inr (shown @ left s))"
  using assms(3)
proof (induction "length (left s)" arbitrary: s shown rule: less_induct)
  case less
  let ?t = "take 63 (left s)"
  have z: "0 \<notin> set ?t" using less.prems by (auto dest: in_set_takeD)
  then have "cstr (?t @ [0]) = ?t" by (auto simp: cstr_def takeWhile_tail takeWhile_eq_all_conv)
  then have p: "user_printf (bytes_of ''%s'') [Text_Arg 0 (cstr (?t @ [0]))] = Inr ?t"
    using user_printf_text [of ?t 0] by simp
  show ?case
  proof (cases "left s = []")
    case True
    then show ?thesis using p by (subst cat_loop.simps) (simp add: assms(1) Let_def)
  next
    case False
    have "length (left (next_s s)) < length (left s)" using False by (simp add: assms(2))
    moreover have "0 \<notin> set (left (next_s s))" using less.prems by (auto simp: assms(2) dest: in_set_dropD)
    ultimately have "cat_loop rd (next_s s) (shown @ ?t) = Some (Inr ((shown @ ?t) @ drop 63 (left s)))"
      using less.hyps [of "next_s s" "shown @ ?t"] by (simp add: assms(2))
    then show ?thesis using p False by (subst cat_loop.simps) (simp add: assms(1) Let_def)
  qed
qed

text \<open>A read that fails, as that of a directory handle or a closed file does, writes outside the buffer.\<close>

lemma cat_failed_read: "rd s = (n, bytes, s1) \<Longrightarrow> n < 0 \<Longrightarrow> cat_loop rd s shown = Some (Inl Out_Of_Bounds)"
  by (subst cat_loop.simps) simp

end
