(* ===== verification/Tictactoe.thy ===== *)
theory Tictactoe imports Shell begin

text \<open>
  The game (infos-user/src/tictactoe/main.cpp): the board, the input of a move, and the course of the
  games. Keys and printing are those of \<open>Shell\<close>.
\<close>

section \<open>The board\<close>

definition boardDim :: nat where
  "boardDim = 3"

definition empty_cell :: u8 where
  "empty_cell = 0x20"

definition playerMarks :: "u8 list" where
  "playerMarks = bytes_of ''XO''"

type_synonym board = "u8 list list"

definition reset_board :: board where
  "reset_board = replicate boardDim (replicate boardDim empty_cell)"

definition full_board :: "board \<Rightarrow> bool" where
  "full_board b \<longleftrightarrow> list_all (\<lambda>i. list_all (\<lambda>j. b ! i ! j \<noteq> empty_cell) [0..<boardDim]) [0..<boardDim]"

text \<open>Row and column are \<open>char\<close>, which is signed; the result says whether the cell was set.\<close>

definition set_cell :: "u8 \<Rightarrow> u8 \<Rightarrow> u8 \<Rightarrow> board \<Rightarrow> int \<times> board" where
  "set_cell row col mark b =
     (let rowIndex = sint row - 97; colIndex = sint col - 48 in
      if rowIndex < 0 \<or> rowIndex \<ge> int boardDim \<or> colIndex < 0 \<or> colIndex \<ge> int boardDim then (0, b)
      else if b ! nat rowIndex ! nat colIndex \<noteq> empty_cell then (- 1, b)
      else (1, b[nat rowIndex := (b ! nat rowIndex)[nat colIndex := mark]]))"

definition nextPlayer :: "nat \<Rightarrow> nat" where
  "nextPlayer currentPlayer = (if currentPlayer < length playerMarks then currentPlayer + 1 else 1)"

definition player_mark :: "nat \<Rightarrow> u8" where
  "player_mark player = playerMarks ! (player - 1)"

text \<open>The loops over rows, columns and the two diagonals; each stops at the first other cell.\<close>

definition won :: "nat \<Rightarrow> board \<Rightarrow> bool" where
  "won player b \<longleftrightarrow>
     (let mark = player_mark player in
      list_ex (\<lambda>row. list_all (\<lambda>col. b ! row ! col = mark) [0..<boardDim]) [0..<boardDim] \<or>
      list_ex (\<lambda>col. list_all (\<lambda>row. b ! row ! col = mark) [0..<boardDim]) [0..<boardDim] \<or>
      list_all (\<lambda>i. b ! i ! i = mark) [0..<boardDim] \<or>
      list_all (\<lambda>i. b ! i ! (boardDim - 1 - i) = mark) [0..<boardDim])"

section \<open>Printing\<close>

definition printBoardHeader :: "print_call list" where
  "printBoardHeader =
     [([10], []), (bytes_of ''  '', [])] @ map (\<lambda>col. (bytes_of ''   %d'', [Num_Arg (of_nat (col + 1))])) [0..<boardDim] @
     [([10], []), (bytes_of ''   +'', [])] @ map (\<lambda>_. (bytes_of ''---+'', [])) [0..<boardDim] @ [([10], [])]"

definition printBoardRow :: "u8 \<Rightarrow> board \<Rightarrow> print_call list" where
  "printBoardRow row b =
     [(bytes_of ''%c  |'', [Num_Arg (scast row)])] @
     map (\<lambda>col. (bytes_of '' %c |'', [Num_Arg (scast (b ! nat (sint row - 97) ! col))])) [0..<boardDim] @
     [([10], []), (bytes_of ''   +'', [])] @ map (\<lambda>_. (bytes_of ''---+'', [])) [0..<boardDim] @ [([10], [])]"

definition printGame :: "board \<Rightarrow> print_call list" where
  "printGame b = printBoardHeader @ concat (map (\<lambda>i. printBoardRow (97 + of_nat i) b) [0..<boardDim]) @ [([10], [])]"

section \<open>Moves\<close>

text \<open>A zero key ends the loop with \<open>NULL\<close>; other keys that do not fit are passed over.\<close>

fun inputRow :: "u8 list \<Rightarrow> (u8 \<times> u8 list \<times> print_call list) option" where
  "inputRow [] = None"
| "inputRow (row # keys) =
     (if row = 0 then Some (0, keys, [])
      else if 97 \<le> sint row \<and> sint row \<le> 122 then Some (row, keys, [(bytes_of ''%c'', [Num_Arg (scast row)])])
      else inputRow keys)"

fun inputColumn :: "u8 list \<Rightarrow> (u8 \<times> u8 list \<times> print_call list) option" where
  "inputColumn [] = None"
| "inputColumn (col # keys) =
     (if col = 0 then Some (0, keys, [])
      else if 49 \<le> sint col \<and> sint col \<le> 57 \<or> col = 8
      then Some (col, keys, [(bytes_of ''%c'', [Num_Arg (scast col)])])
      else inputColumn keys)"

lemma inputRow_shorter: "inputRow keys = Some (row, rest, out) \<Longrightarrow> length rest < length keys"
  by (induction keys) (auto split: if_splits)

lemma inputColumn_shorter: "inputColumn keys = Some (col, rest, out) \<Longrightarrow> length rest < length keys"
  by (induction keys) (auto split: if_splits)

text \<open>The inner loop of \<open>selectMove\<close>: row and column, the column counted from zero.\<close>

function input_cell :: "u8 list \<Rightarrow> (u8 \<times> u8 \<times> u8 list \<times> print_call list) option" where
  "input_cell keys =
     (case inputRow keys of
        None \<Rightarrow> None
      | Some (row, keys1, o1) \<Rightarrow>
          (case inputColumn keys1 of
             None \<Rightarrow> None
           | Some (col, keys2, o2) \<Rightarrow>
               if row \<noteq> 0 \<and> col \<noteq> 0 \<and> col \<noteq> 8 then Some (row, col - 1, keys2, o1 @ o2)
               else map_option (\<lambda>(r, c, keys3, o3). (r, c, keys3, o1 @ o2 @ o3)) (input_cell keys2)))"
  by pat_completeness auto

termination input_cell
  by (relation "measure length") (auto dest!: inputRow_shorter inputColumn_shorter)

declare input_cell.simps [simp del]

lemma input_cell_shorter: "input_cell keys = Some (row, col, rest, out) \<Longrightarrow> length rest < length keys"
proof (induction keys arbitrary: out rule: input_cell.induct)
  case (1 keys)
  from "1.prems" obtain r k1 o1 where r: "inputRow keys = Some (r, k1, o1)"
    by (subst (asm) input_cell.simps) (auto split: option.splits)
  with "1.prems" obtain c k2 o2 where c: "inputColumn k1 = Some (c, k2, o2)"
    by (subst (asm) input_cell.simps) (auto split: option.splits)
  note less = inputRow_shorter [OF r] inputColumn_shorter [OF c]
  show ?case
  proof (cases "r \<noteq> 0 \<and> c \<noteq> 0 \<and> c \<noteq> 8")
    case True
    then show ?thesis using "1.prems" r c less by (subst (asm) input_cell.simps) simp
  next
    case False
    then obtain o3 where "input_cell k2 = Some (row, col, rest, o3)"
      using "1.prems" r c by (subst (asm) input_cell.simps) auto
    with "1.IH" [OF r refl refl c refl refl False] less show ?thesis by fastforce
  qed
qed

function selectMove :: "nat \<Rightarrow> board \<Rightarrow> u8 list \<Rightarrow> (board \<times> u8 list \<times> print_call list) option" where
  "selectMove player b keys =
     (case input_cell keys of
        None \<Rightarrow> None
      | Some (row, col, rest, o1) \<Rightarrow>
          (let (success, b1) = set_cell row col (player_mark player) b;
               out = (bytes_of ''Player %d, select move (e.g. a2)> '', [Num_Arg (of_nat player)]) # o1 @ [([10], [])]
           in if success = 0 then
                map_option (\<lambda>(b2, k, o2). (b2, k, out @ (bytes_of ''That is not a valid move!'' @ [10], []) # o2)) (selectMove player b1 rest)
              else if success = - 1 then
                map_option (\<lambda>(b2, k, o2). (b2, k, out @ (bytes_of ''That move is not possible!'' @ [10], []) # o2)) (selectMove player b1 rest)
              else Some (b1, rest, out)))"
  by pat_completeness auto

termination selectMove
  by (relation "measure (\<lambda>(player, b, keys). length keys)") (auto dest!: input_cell_shorter)

declare selectMove.simps [simp del]

section \<open>The games\<close>

text \<open>One turn of the main loop: who moves next on which board, or nobody when the games are over.\<close>

definition play_again :: "nat \<Rightarrow> board \<Rightarrow> u8 list \<Rightarrow> print_call list \<Rightarrow> ((nat \<times> board) option \<times> u8 list \<times> print_call list) option" where
  "play_again player b keys out =
     (case keys of
        [] \<Rightarrow> None
      | yesno # rest \<Rightarrow>
          Some (if yesno = 121 then Some (player, reset_board) else None, rest,
            out @ [(bytes_of ''Play again? (y/n)> '', []), (bytes_of ''%c'' @ [10], [Num_Arg (scast yesno)])]))"

definition play_turn :: "nat \<Rightarrow> board \<Rightarrow> u8 list \<Rightarrow> ((nat \<times> board) option \<times> u8 list \<times> print_call list) option" where
  "play_turn player b keys =
     (case selectMove player b keys of
        None \<Rightarrow> None
      | Some (b1, rest, o1) \<Rightarrow>
          (let out = o1 @ printGame b1 in
           if won player b1 then play_again player b1 rest (out @ [(bytes_of ''Player %d has won!'' @ [10], [Num_Arg (of_nat player)])])
           else if full_board b1 then play_again player b1 rest (out @ [(bytes_of ''It'' @ [39] @ bytes_of ''s a draw!'' @ [10], [])])
           else Some (Some (nextPlayer player, b1), rest, out)))"

lemma selectMove_move:
  "selectMove player b keys = Some (b1, rest, out) \<Longrightarrow> length rest < length keys \<and>
    (\<exists>r c. r < 3 \<and> c < 3 \<and> b ! r ! c = empty_cell \<and> b1 = b[r := (b ! r)[c := player_mark player]])"
proof (induction player b keys arbitrary: out rule: selectMove.induct)
  case (1 player b keys)
  from "1.prems" obtain row col k o1 where i: "input_cell keys = Some (row, col, k, o1)"
    by (subst (asm) selectMove.simps) (auto split: option.splits)
  obtain success b2 where s: "set_cell row col (player_mark player) b = (success, b2)" by fastforce
  note less = input_cell_shorter [OF i]
  consider "success = 1" | "success = 0" | "success = - 1"
    using s by (auto simp: set_cell_def Let_def split: if_splits)
  then show ?case
  proof cases
    case 1
    then have b1: "b1 = b2" "rest = k" using "1.prems" i s by (subst (asm) selectMove.simps; simp)+
    have "nat (sint row - 97) < 3 \<and> nat (sint col - 48) < 3 \<and> b ! nat (sint row - 97) ! nat (sint col - 48) = empty_cell \<and>
        b2 = b[nat (sint row - 97) := (b ! nat (sint row - 97))[nat (sint col - 48) := player_mark player]]"
      using s 1 by (auto simp: set_cell_def Let_def boardDim_def split: if_splits)
    then show ?thesis using less unfolding b1 by blast
  next
    case 2
    then have b2: "b2 = b" using s by (auto simp: set_cell_def Let_def split: if_splits)
    from 2 obtain o2 where "selectMove player b2 k = Some (b1, rest, o2)"
      using "1.prems" i s by (subst (asm) selectMove.simps) auto
    from "1.IH"(1) [OF i refl refl refl s [symmetric] refl refl 2 this] less b2 show ?thesis by fastforce
  next
    case 3
    then have b2: "b2 = b" using s by (auto simp: set_cell_def Let_def split: if_splits)
    from 3 obtain o2 where "selectMove player b2 k = Some (b1, rest, o2)"
      using "1.prems" i s by (subst (asm) selectMove.simps) auto
    from "1.IH"(2) [OF i refl refl refl s [symmetric] refl refl _ 3 this] less b2 3 show ?thesis by fastforce
  qed
qed

lemma play_turn_shorter: "play_turn player b keys = Some (next, rest, out) \<Longrightarrow> length rest < length keys"
  by (auto simp: play_turn_def play_again_def Let_def split: option.splits if_splits list.splits dest!: selectMove_move)

text \<open>The main loop: what is printed until the games are over, and the keys that are left.\<close>

function play_games :: "nat \<Rightarrow> board \<Rightarrow> u8 list \<Rightarrow> (print_call list \<times> u8 list) option" where
  "play_games player b keys =
     (case play_turn player b keys of
        None \<Rightarrow> None
      | Some (None, rest, out) \<Rightarrow> Some (out, rest)
      | Some (Some (player1, b1), rest, out) \<Rightarrow> map_option (\<lambda>(o2, k). (out @ o2, k)) (play_games player1 b1 rest))"
  by pat_completeness auto

termination play_games
  by (relation "measure (\<lambda>(player, b, keys). length keys)") (auto dest!: play_turn_shorter)

definition game_help :: "print_call list" where
  "game_help = map (\<lambda>s. (s, []))
     [bytes_of ''     1   2   3'' @ [10],
      bytes_of ''   +---+---+---+'' @ [10],
      bytes_of ''a  | T | I | C |'' @ [10],
      bytes_of ''   +---+---+---+'' @ [10],
      bytes_of ''b  | T | A | C |'' @ [10],
      bytes_of ''   +---+---+---+'' @ [10],
      bytes_of ''c  | T | O | E |'' @ [10],
      bytes_of ''   +---+---+---+'' @ [10, 10],
      bytes_of ''Tic-tac-toe (American English), noughts and crosses (British English), '',
      bytes_of ''or Xs and Os is a paper-and-pencil game for two players, X and O, who take turns '',
      bytes_of ''marking the spaces in a 3x3 grid. The player who succeeds in placing three of their '',
      bytes_of ''marks in a horizontal, vertical, or diagonal row is the winner. - Wikipedia'' @ [10, 10],
      bytes_of ''This game implementation has been extended to allow bigger dimension grids, '',
      bytes_of ''as well as more players, but those numbers are hardcoded - see source for details.'' @ [10, 10]]"

definition tictactoe_main :: "u8 list option \<Rightarrow> u8 list \<Rightarrow> (print_call list \<times> u8 list) option" where
  "tictactoe_main cmdline keys =
     (if (case cmdline of None \<Rightarrow> False | Some s \<Rightarrow> ustrcmp s (bytes_of ''-h'' @ [0]) = Inr 0) then Some (game_help, keys)
      else map_option (\<lambda>(out, k). (printGame reset_board @ out, k)) (play_games 1 reset_board keys))"

section \<open>The course of a game\<close>

definition board_ok :: "board \<Rightarrow> bool" where
  "board_ok b \<longleftrightarrow> length b = 3 \<and> (\<forall>row \<in> set b. length row = 3)"

definition marks :: "u8 \<Rightarrow> board \<Rightarrow> nat" where
  "marks m b = count_list (concat b) m"

text \<open>The other player has as many marks as the one to move, or one more; the game is undecided.\<close>

definition game_inv :: "nat \<Rightarrow> board \<Rightarrow> bool" where
  "game_inv p b \<longleftrightarrow> board_ok b \<and> (p = 1 \<or> p = 2) \<and>
     marks (player_mark p) b \<le> marks (player_mark (3 - p)) b \<and> marks (player_mark (3 - p)) b \<le> marks (player_mark p) b + 1 \<and>
     marks empty_cell b + marks (player_mark p) b + marks (player_mark (3 - p)) b = 9 \<and>
     \<not> won 1 b \<and> \<not> won 2 b \<and> \<not> full_board b"

lemma player_marks:
  "player_mark 1 = 0x58" "player_mark (Suc 0) = 0x58" "player_mark 2 = 0x4f" "empty_cell = 0x20"
  by (simp_all add: player_mark_def playerMarks_def bytes_of_def empty_cell_def numeral_2_eq_2)

lemma nextPlayer_other: "p = 1 \<or> p = 2 \<Longrightarrow> nextPlayer p = 3 - p"
  by (auto simp: nextPlayer_def playerMarks_def bytes_of_def)

text \<open>A move changes the count of one mark and of the empty cells, and takes no line from anyone.\<close>

lemma count_list_update:
  "i < length xs \<Longrightarrow> count_list (xs[i := m]) y + (if xs ! i = y then 1 else 0) = count_list xs y + (if y = m then 1 else 0)"
proof (induction xs arbitrary: i)
  case (Cons a xs)
  show ?case
  proof (cases i)
    case 0
    then show ?thesis by simp
  next
    case (Suc j)
    have "count_list (xs[j := m]) y + (if xs ! j = y then 1 else 0) = count_list xs y + (if y = m then 1 else 0)"
      using Cons.prems Suc by (intro Cons.IH) simp
    moreover have "count_list ((a # xs)[i := m]) y = (if a = y then 1 else 0) + count_list (xs[j := m]) y"
      "count_list (a # xs) y = (if a = y then 1 else 0) + count_list xs y" "(a # xs) ! i = xs ! j"
      by (simp_all add: Suc)
    ultimately show ?thesis by (simp only:)
  qed
qed simp

lemma sum_list_update_nat:
  fixes f :: "'a \<Rightarrow> nat"
  shows "i < length xs \<Longrightarrow> sum_list (map f (xs[i := x])) + f (xs ! i) = sum_list (map f xs) + f x"
  by (induction xs arbitrary: i) (auto split: nat.split)

lemma marks_sum: "marks m b = sum_list (map (\<lambda>row. count_list row m) b)"
  unfolding marks_def by (induction b) auto

lemma move_marks:
  assumes "board_ok b" and "r < 3" "c < 3" "b ! r ! c = empty_cell" and "m \<noteq> empty_cell"
    and "b1 = b[r := (b ! r)[c := m]]"
  shows "board_ok b1 \<and> marks m b1 = marks m b + 1 \<and> marks empty_cell b = marks empty_cell b1 + 1 \<and>
    (\<forall>m'. m' \<noteq> m \<longrightarrow> m' \<noteq> empty_cell \<longrightarrow> marks m' b1 = marks m' b)"
proof -
  have len: "length b = 3" "length (b ! r) = 3" using assms(1,2) by (simp_all add: board_ok_def)
  have row: "count_list ((b ! r)[c := m]) y + (if empty_cell = y then 1 else 0) =
      count_list (b ! r) y + (if y = m then 1 else 0)" for y
    using count_list_update [of c "b ! r" m y] len assms(3,4) by simp
  have sum: "marks y b1 + count_list (b ! r) y = marks y b + count_list ((b ! r)[c := m]) y" for y
    using sum_list_update_nat [of r b "\<lambda>row. count_list row y"] len assms(2) by (simp add: marks_sum assms(6))
  have c: "marks y b1 + (if empty_cell = y then 1 else 0) = marks y b + (if y = m then 1 else 0)" for y
    using row [of y] sum [of y] by linarith
  have "board_ok b1"
    using assms(1) len by (auto simp: board_ok_def assms(6) dest!: set_update_subset_insert [THEN subsetD])
  moreover have "marks m' b1 = marks m' b" if "m' \<noteq> m" "m' \<noteq> empty_cell" for m'
    using c [of m'] that by simp
  ultimately show ?thesis using c [of m] c [of empty_cell] assms(5) by simp
qed

lemma won_iff:
  "won q b \<longleftrightarrow> (\<exists>r < 3. \<forall>c < 3. b ! r ! c = player_mark q) \<or> (\<exists>c < 3. \<forall>r < 3. b ! r ! c = player_mark q) \<or>
     (\<forall>i < 3. b ! i ! i = player_mark q) \<or> (\<forall>i < 3. b ! i ! (2 - i) = player_mark q)"
proof -
  have all: "list_all P [0..<boardDim] \<longleftrightarrow> (\<forall>i < 3. P i)" for P :: "nat \<Rightarrow> bool"
    by (auto simp: list_all_iff boardDim_def)
  have ex: "list_ex P [0..<boardDim] \<longleftrightarrow> (\<exists>i < 3. P i)" for P :: "nat \<Rightarrow> bool"
    by (auto simp: list_ex_iff boardDim_def)
  have "boardDim - 1 - i = 2 - i" for i by (simp add: boardDim_def)
  then show ?thesis unfolding won_def Let_def all ex by (simp only:)
qed

lemma won_before:
  assumes "board_ok b" and "r < 3" "c < 3" and "m \<noteq> player_mark q" and "won q (b[r := (b ! r)[c := m]])"
  shows "won q b"
proof -
  let ?b = "b[r := (b ! r)[c := m]]"
  have cell: "?b ! i ! j = player_mark q \<Longrightarrow> i < 3 \<Longrightarrow> j < 3 \<Longrightarrow> b ! i ! j = player_mark q" for i j
    using assms(1-4) by (cases "i = r"; cases "j = c") (auto simp: board_ok_def)
  have less: "2 - i < 3" if "i < 3" for i :: nat using that by simp
  from assms(5) consider i where "i < 3" "\<forall>j < 3. ?b ! i ! j = player_mark q"
    | j where "j < 3" "\<forall>i < 3. ?b ! i ! j = player_mark q"
    | "\<forall>i < 3. ?b ! i ! i = player_mark q" | "\<forall>i < 3. ?b ! i ! (2 - i) = player_mark q"
    unfolding won_iff by blast
  then show ?thesis
  proof cases
    case 1
    then have "\<forall>j < 3. b ! i ! j = player_mark q" using cell by blast
    then show ?thesis using 1(1) unfolding won_iff by blast
  next
    case 2
    then have "\<forall>i < 3. b ! i ! j = player_mark q" using cell by blast
    then show ?thesis using 2(1) unfolding won_iff by blast
  next
    case 3
    then have "\<forall>i < 3. b ! i ! i = player_mark q" using cell by blast
    then show ?thesis unfolding won_iff by blast
  next
    case 4
    then have "\<forall>i < 3. b ! i ! (2 - i) = player_mark q" using cell less by blast
    then show ?thesis unfolding won_iff by blast
  qed
qed

lemma game_inv_start:
  assumes p: "p = 1 \<or> p = 2"
  shows "game_inv p reset_board"
proof -
  have cell: "reset_board ! i ! j = empty_cell" if "i < 3" "j < 3" for i j
    using that by (simp add: reset_board_def boardDim_def)
  have "\<not> won q reset_board" if "q = 1 \<or> q = 2" for q
  proof -
    have "player_mark q \<noteq> empty_cell" using that by (auto simp: player_marks)
    moreover have "(0 :: nat) < 3" "2 - (0 :: nat) < 3" by simp_all
    ultimately show ?thesis unfolding won_iff using cell by metis
  qed
  moreover have "marks m reset_board = (if m = empty_cell then 9 else 0)" for m
    by (simp add: marks_def reset_board_def boardDim_def numeral_3_eq_3)
  moreover have "board_ok reset_board" by (simp add: board_ok_def reset_board_def boardDim_def)
  moreover have "\<not> full_board reset_board" using cell [of 0 0] by (auto simp: full_board_def boardDim_def list_all_iff intro!: bexI [of _ 0])
  ultimately show ?thesis using p unfolding game_inv_def by (auto simp: player_marks)
qed

text \<open>
  A turn puts one mark into an empty cell. If the player has a line then, the player wins; if the board
  is full without a line of anyone, nobody does; otherwise it is the turn of the other player on an
  undecided board. A new game starts with the player who moved last.
\<close>

lemma play_turn_move:
  assumes inv: "game_inv p b" and turn: "play_turn p b keys = Some (next, rest, out)"
  obtains r c b1 where "r < 3" "c < 3" "b ! r ! c = empty_cell" "b1 = b[r := (b ! r)[c := player_mark p]]"
    "\<not> won (3 - p) b1" "marks empty_cell b = marks empty_cell b1 + 1"
    "won p b1 \<or> full_board b1 \<Longrightarrow> next = None \<or> next = Some (p, reset_board)"
    "\<not> won p b1 \<and> \<not> full_board b1 \<Longrightarrow> next = Some (3 - p, b1) \<and> game_inv (3 - p) b1"
proof -
  from turn obtain b1 k o1 where sel: "selectMove p b keys = Some (b1, k, o1)"
    by (auto simp: play_turn_def split: option.splits)
  from selectMove_move [OF sel] obtain r c where
    m: "r < 3" "c < 3" "b ! r ! c = empty_cell" "b1 = b[r := (b ! r)[c := player_mark p]]" by blast
  have p: "p = 1 \<or> p = 2" "board_ok b" using inv by (simp_all add: game_inv_def)
  have neq: "player_mark p \<noteq> empty_cell" "player_mark p \<noteq> player_mark (3 - p)" "player_mark (3 - p) \<noteq> empty_cell"
    using p(1) by (auto simp: player_marks)
  note mm = move_marks [OF p(2) m(1-3) neq(1) m(4)]
  have other: "\<not> won (3 - p) b1"
  proof
    assume "won (3 - p) b1"
    then have "won (3 - p) b" using won_before [OF p(2) m(1,2) neq(2)] m(4) by simp
    then show False using inv p(1) by (auto simp: game_inv_def)
  qed
  have "game_inv (3 - p) b1" if "\<not> won p b1" "\<not> full_board b1"
  proof -
    have "\<not> won 1 b1 \<and> \<not> won 2 b1" using p(1) that(1) other by auto
    moreover have "marks (player_mark (3 - p)) b1 = marks (player_mark (3 - p)) b" using mm neq(2,3) by metis
    moreover have "3 - (3 - p) = p" "3 - p = 1 \<or> 3 - p = 2" using p(1) by auto
    ultimately show ?thesis
      using inv mm that(2) unfolding game_inv_def by auto
  qed
  then have "next = Some (3 - p, b1) \<and> game_inv (3 - p) b1" if "\<not> won p b1 \<and> \<not> full_board b1"
    using turn sel that nextPlayer_other [OF p(1)] by (simp add: play_turn_def Let_def)
  moreover have "next = None \<or> next = Some (p, reset_board)" if "won p b1 \<or> full_board b1"
    using turn sel that by (auto simp: play_turn_def play_again_def Let_def split: if_splits list.splits)
  ultimately show ?thesis using that m other mm by blast
qed

text \<open>Every state of the main loop is an undecided game in which a move is possible.\<close>

inductive game_reach :: "nat \<Rightarrow> board \<Rightarrow> bool" where
  start: "game_reach 1 reset_board"
| turn: "game_reach p b \<Longrightarrow> play_turn p b keys = Some (Some (p1, b1), rest, out) \<Longrightarrow> game_reach p1 b1"

lemma game_reach_inv: "game_reach p b \<Longrightarrow> game_inv p b"
proof (induction rule: game_reach.induct)
  case start
  then show ?case by (simp add: game_inv_start)
next
  case (turn p b keys p1 b1 rest out)
  have p: "p = 1 \<or> p = 2" using turn.IH by (simp add: game_inv_def)
  from play_turn_move [OF turn.IH turn.hyps(2)] show ?case
    using game_inv_start [OF p] by (metis Pair_inject option.distinct(1) option.inject)
qed

end
