(* ===== verification/Spec2Isabelle.thy ===== *)
theory Spec2Isabelle imports Kernel_List Buddy_Spec Addresses Page_Spec Sched_Spec KString_Spec KMap_Spec VMA_Spec Process_Spec Tarfs_Spec Syscalls_Spec Cmos_RTC_Spec Console_Spec Printf_Spec Kernel_Paging_Spec Cmdline_Spec Interrupts_Spec Pci_Spec Mutex Acpi Boot_Spec Log Early_Screen Console_Start Tictactoe begin

text \<open>
  InfOS is a small teaching kernel for the x86-64 written in C++: src/CourseWorks/infos is the kernel,
  src/CourseWorks/coursework the four pieces that students supply (buddy allocator, schedulers,
  real-time clock, tar file system), src/CourseWorks/infos-user the programs. This development models
  the kernel's own logic as executable definitions, states what each part promises, and proves it.
  Paths below are relative to src/CourseWorks.

  The program and how its parts interact

  The boot loader enters \<open>x86_init_top\<close>, which reads the command line (its settings choose the page
  allocation and scheduling algorithms), starts the memory management, the interrupts and the tables of
  the firmware, and runs the scheduler. The first thread mounts the file systems and launches the first
  program. From then on the timer interrupt drives the clock and the scheduler, the keyboard interrupt
  fills the terminal of the console that is shown, and programs enter the kernel through the system
  call interrupt, with handles of the object manager that stand for files, directories, processes and
  threads. Address spaces and kernel stacks take pages from the page allocator; nearly every table of
  the kernel is one of two containers, the list and the ordered map.

  How code becomes definitions

  A class is a record, an enumeration a datatype, an object a number or the value of its record, a
  pointer that may be null an option. Integers that can wrap around are words of their width; where a
  comment says that a bound keeps them from wrapping, they are natural numbers. A routine that can fail
  returns \<open>kerror + 'a\<close>: a failed assertion, an abort, a null or wild access, a read of something never
  written, or a loop that does not end is a value, and never left out. A loop that may not end is a
  partial function into options. Virtual functions and pluggable algorithms are records of functions.
  What the hardware, the firmware or the boot loader answers is a parameter. Log messages are left out,
  except in \<open>Log\<close>, which models the log itself.

  Theories, in the order of the layers

  Containers and strings. \<open>Prelude\<close> has the vocabulary. \<open>Kernel_List\<close> is util/list.h with the locale of a
  queue. \<open>KMap\<close>, \<open>KMap_Props\<close>, \<open>KMap_Spec\<close> are util/map.h, the red-black tree with parent pointers, the
  locale \<open>key_map\<close> and its interpretation on the tree; the clients of maps use only its laws. \<open>KString\<close>,
  \<open>KString_Object\<close>, \<open>KString_Spec\<close> are util/string.h and string.cpp. \<open>Printf\<close>, \<open>Printf_Spec\<close> are
  util/printf.cpp. \<open>Cmdline\<close>, \<open>Cmdline_Spec\<close> are util/cmdline.cpp and every registered setting. \<open>Node_Tree\<close>
  and \<open>Paths\<close> hold what the two file system trees share. \<open>Time\<close> is util/time.h and the clock of
  kernel.cpp. \<open>Mutex\<close> is util/lock.cpp and lock.h.

  Memory. \<open>Addresses\<close> is define.h. \<open>Page_Allocator\<close>, \<open>Page_Init\<close>, \<open>Page_Spec\<close> are mm/page-allocator.cpp and
  mm/mm.cpp over the locale \<open>page_algorithm\<close>. \<open>Buddy_Heap\<close> is coursework/buddy.cpp at the level of its
  pointers; \<open>Buddy_Lists\<close>, \<open>Buddy_Split\<close>, \<open>Buddy_Alloc\<close>, \<open>Buddy_Reserve\<close> relate every routine to sorted
  lists of block starts; \<open>Buddy\<close> and \<open>Buddy_Spec\<close> state the contract, as a transition system.
  \<open>Simple_Alloc\<close> is mm/simple-page-alloc.cpp. \<open>VMA\<close>, \<open>VMA_Bits\<close>, \<open>VMA_Props\<close>, \<open>VMA_Spec\<close> are mm/vma.cpp,
  \<open>Kernel_Paging\<close>, \<open>Kernel_Paging_Spec\<close> arch/x86/mm.cpp and mm/object-allocator.cpp.

  Execution. \<open>Sched\<close> is kernel/sched.cpp over the locale \<open>scheduling_algorithm\<close>; \<open>Sched_Algos\<close> are the three
  algorithms and the scheduler as a step relation, \<open>Sched_Spec\<close> its properties. \<open>Process\<close>, \<open>Process_Spec\<close>
  are kernel/process.cpp, thread.cpp and the ELF loader. \<open>Descriptors\<close> is arch/x86/dt.cpp; \<open>Interrupts\<close>,
  \<open>Interrupts_Spec\<close> are kernel/irq.cpp, arch/x86/irq.cpp, x86-arch.cpp and the drivers of IOAPIC, LAPIC and
  the two timers. \<open>Syscalls\<close>, \<open>Syscalls_Spec\<close> are kernel/om.cpp and syscall.cpp. \<open>Boot\<close>, \<open>Boot_Spec\<close> are the
  start of the kernel in kernel.cpp, \<open>Acpi\<close> is arch/x86/acpi/acpi.cpp, \<open>Log\<close> is kernel/log.cpp.

  Files and devices. \<open>Devices\<close> is the device manager. \<open>Tarfs\<close>, \<open>Tarfs_Props\<close>, \<open>Tarfs_Spec\<close> are
  coursework/tarfs.cpp on block devices, \<open>VFS\<close>, \<open>VFS_Spec\<close> fs/vfs.cpp, vfs-node.cpp and the small file
  systems. \<open>Ports\<close>, \<open>Ata\<close>, \<open>Ata_Spec\<close> are pio.h and drivers/ata, \<open>Pci\<close>, \<open>Pci_Spec\<close> drivers/pci.
  \<open>Cmos_RTC\<close>, \<open>Cmos_RTC_Spec\<close> are coursework/cmos-rtc.cpp. \<open>Keyboard\<close>, \<open>Terminal\<close>, \<open>Terminal_Spec\<close>,
  \<open>Console\<close>, \<open>Console_Spec\<close> and \<open>Early_Screen\<close> are the keyboard, the terminal and the screens,
  \<open>Console_Start\<close> is arch/x86/devices.cpp, which registers and connects them. \<open>Shell\<close> and
  \<open>Tictactoe\<close> are programs of infos-user.

  What the lemmas show

  Refinement: the buddy allocator implements sets of free blocks, page tables a function from pages to
  mappings, the interrupt manager a table from vectors to handlers, the terminal a queue, the lookup of
  paths a walk through the mounted trees. Invariants by induction over steps: the pages handed out and
  the free ones partition the memory, the run queue holds exactly the runnable threads whatever threads
  wait for each other, at most one thread has the mutex, the screens of the consoles stay apart, every
  state of the game is an undecided board. Exact effects on every branch: allocation returns null exactly
  when no aligned range is free, initialisation leaves free exactly the pages of the normal memory that are
  not the kernel's, the bytes of an archive are mounted as the tree of its members and give back their data,
  a drive is read up to its capacity and refused from there on, the boot leaves exactly the intended paths
  and the intended interrupt handlers. What is expected of an archive, of a disk, of the cursor of a screen
  or of the pages of the kernel is stated over plain numbers and lists, apart from the code's own routines. Round trips: allocation and release, octal sizes, the encodings of the
  clock. Termination and its failures: the loops of the allocator return in every reachable state, but
  a page released twice, \<open>split\<close> with empty parts, a clock that is always updating, and an interrupt
  table with a record of length zero make theirs run forever; these are proved as such. Where the code
  does not do what it means to, a lemma states what it does instead: two threads that wait for each other
  make the nested trigger clear the queue that the outer one is walking (\<open>wait_cycle_use_after_free\<close>); a main
  thread that has joined another thread of its process survives the end of the process
  (\<open>main_survives_termination\<close>); the thread that released the mutex may be told that it still holds it
  (\<open>mutex_exclusion\<close>); a text that backs out of the first cell is written behind the screen
  (\<open>console_screens\<close>).

  Bounds and fuel

  \<open>set_entity_state\<close> recurses through waiting threads; its depth bound is the number of threads plus 2,
  and then it never runs out, also when waits have a cycle (\<open>Sched\<close>). The buddy allocator has orders 0 to 17. The self test of the
  page allocator reserves page 0x14f and so needs 336 pages. An insertion into a VMA needs three free pages for tables. The
  search of an archive gets a bound on the headers it reads; any bound from some number on gives the
  result (\<open>Tarfs_Spec\<close>, and so \<open>Boot_Spec\<close>). The search of the PCI bus gets the number of bridges on a
  path. A component of a path has at most 255 characters and a setting 127; longer ones overrun their
  arrays, which is an error value. The terminal holds 63 characters. The page tables of the kernel are
  built from a block that lies below page 2^19, and the IOAPIC is used with fewer than 120 pins, so that
  register numbers fit into eight bits. One transfer of the disk has at most 256 blocks; for 256 (the high byte of the count is always
  zero) the drive is asked for 65536. The timer
  keeps its period for frequencies below 2^32.

  Simplifications

  Some integers of the code are natural numbers in the model, and the two agree below a bound: the offset in
  \<open>buddy_init\<close>, an int of the code, below \<open>2 ^ 31\<close> pages; \<open>1 << order\<close> in \<open>simple_alloc_pages\<close> and
  \<open>pgalloc_alloc\<close>, an int too, for orders below 31. \<open>get_mapping\<close>
  leaves out the test of the virtual address of a table for null, which no table in the window of physical
  memory has. \<open>string_split\<close> copies a part where the list assigns it, with the same value.
  That the interval timer, programmed as \<open>ten_milliseconds\<close> says, expires after ten milliseconds is taken
  from the chip; what the local APIC counts meanwhile is a parameter.

  Not modelled

  mm/dlmalloc.cpp and util/ratio.h are third-party code, fs/internal-driver.cpp is an obfuscated
  reference solution. The assembly entry points, single instructions (cpuid, model specific registers,
  tlb), serial output, and the wrappers of the user library around the software interrupt have no logic
  of their own. util/generator.h, enumerable.h, queue.h and math.h are unused. date, ls, init and the
  two scheduler tests are sequences of calls. Of arch/x86/start.cpp the order of the
  interrupt starts and the second half are modelled. The delays of drivers wait for the clock and are left out. Memory ordering and
  several processors do not occur: the kernel runs on one.
\<close>

end
